(* ===== verification/Prelude.thy ===== *)
theory Prelude
  imports Main "HOL-Library.Word"
begin

text \<open>
  Shared vocabulary of the development: the error codes of \<^verbatim>\<open>ssherr.h\<close>, bytes and C
  pointers, fallible state-passing operations with their composition rules, the parts of
  the C library the sources lean on (the allocator, \<^verbatim>\<open>recallocarray\<close>, \<^verbatim>\<open>strsep\<close>,
  \<^verbatim>\<open>tolower\<close>), and the generic lemmas every component uses.
\<close>

section \<open>Error codes, bytes, pointers\<close>

text \<open>The error codes of \<^verbatim>\<open>ssherr.h\<close>.\<close>

datatype (plugins only: code) ssherr =
    SSH_ERR_INTERNAL_ERROR | SSH_ERR_ALLOC_FAIL | SSH_ERR_MESSAGE_INCOMPLETE
  | SSH_ERR_INVALID_FORMAT | SSH_ERR_BIGNUM_IS_NEGATIVE | SSH_ERR_STRING_TOO_LARGE
  | SSH_ERR_BIGNUM_TOO_LARGE | SSH_ERR_ECPOINT_TOO_LARGE | SSH_ERR_NO_BUFFER_SPACE
  | SSH_ERR_INVALID_ARGUMENT | SSH_ERR_KEY_BITS_MISMATCH | SSH_ERR_EC_CURVE_INVALID
  | SSH_ERR_KEY_TYPE_MISMATCH | SSH_ERR_KEY_TYPE_UNKNOWN | SSH_ERR_EC_CURVE_MISMATCH
  | SSH_ERR_EXPECTED_CERT | SSH_ERR_KEY_LACKS_CERTBLOB | SSH_ERR_KEY_CERT_UNKNOWN_TYPE
  | SSH_ERR_KEY_CERT_INVALID_SIGN_KEY | SSH_ERR_KEY_INVALID_EC_VALUE
  | SSH_ERR_SIGNATURE_INVALID | SSH_ERR_LIBCRYPTO_ERROR | SSH_ERR_UNEXPECTED_TRAILING_DATA
  | SSH_ERR_SYSTEM_ERROR | SSH_ERR_KEY_CERT_INVALID | SSH_ERR_AGENT_COMMUNICATION
  | SSH_ERR_AGENT_FAILURE | SSH_ERR_DH_GEX_OUT_OF_RANGE | SSH_ERR_DISCONNECTED
  | SSH_ERR_MAC_INVALID | SSH_ERR_NO_CIPHER_ALG_MATCH | SSH_ERR_NO_MAC_ALG_MATCH
  | SSH_ERR_NO_COMPRESS_ALG_MATCH | SSH_ERR_NO_KEX_ALG_MATCH | SSH_ERR_NO_HOSTKEY_ALG_MATCH
  | SSH_ERR_NO_HOSTKEY_LOADED | SSH_ERR_PROTOCOL_MISMATCH | SSH_ERR_NO_PROTOCOL_VERSION
  | SSH_ERR_NEED_REKEY | SSH_ERR_PASSPHRASE_TOO_SHORT | SSH_ERR_FILE_CHANGED
  | SSH_ERR_KEY_UNKNOWN_CIPHER | SSH_ERR_KEY_WRONG_PASSPHRASE | SSH_ERR_KEY_BAD_PERMISSIONS
  | SSH_ERR_KEY_CERT_MISMATCH | SSH_ERR_KEY_NOT_FOUND | SSH_ERR_AGENT_NOT_PRESENT
  | SSH_ERR_AGENT_NO_IDENTITIES | SSH_ERR_BUFFER_READ_ONLY | SSH_ERR_KRL_BAD_MAGIC
  | SSH_ERR_KEY_REVOKED | SSH_ERR_CONN_CLOSED | SSH_ERR_CONN_TIMEOUT | SSH_ERR_CONN_CORRUPT
  | SSH_ERR_PROTOCOL_ERROR | SSH_ERR_KEY_LENGTH | SSH_ERR_NUMBER_TOO_LARGE
  | SSH_ERR_SIGN_ALG_UNSUPPORTED | SSH_ERR_FEATURE_UNSUPPORTED | SSH_ERR_DEVICE_NOT_FOUND
  | SSH_ERR_CRYPTO_ERROR | SSH_ERR_INTERNAL_CRYPTO_ERROR

type_synonym byte = "8 word"

text \<open>A C pointer: \<^const>\<open>None\<close> is \<^verbatim>\<open>NULL\<close>.\<close>

type_synonym ptr = "nat option"

text \<open>\<^verbatim>\<open>SIZE_MAX\<close> of an LP64/LLP64 platform.\<close>

definition SIZE_MAX :: nat where
  "SIZE_MAX = 2 ^ 64 - 1"

section \<open>Fallible operations on a state\<close>

text \<open>
  A C function that updates an object and returns 0 or a negative code is a function from
  the object to the code (or result) and the object as the function left it: an error
  return keeps the updates made before it.
\<close>

type_synonym ('s, 'a) op = "'s \<Rightarrow> (ssherr + 'a) \<times> 's"

definition ret :: "'a \<Rightarrow> ('s, 'a) op" where
  "ret x s = (Inr x, s)"

definition err :: "ssherr \<Rightarrow> ('s, 'a) op" where
  "err e s = (Inl e, s)"

definition bind_op :: "('s, 'a) op \<Rightarrow> ('a \<Rightarrow> ('s, 'b) op) \<Rightarrow> ('s, 'b) op" where
  "bind_op m f s = (case m s of (Inl e, s') \<Rightarrow> (Inl e, s') | (Inr x, s') \<Rightarrow> f x s')"

text \<open>An update of the object that cannot fail.\<close>

definition modify_op :: "('s \<Rightarrow> 's) \<Rightarrow> ('s, unit) op" where
  "modify_op f s = (Inr (), f s)"

named_theorems op_simps \<open>evaluation of the operation combinators\<close>

lemma ret_eq [op_simps]: "ret x s = (Inr x, s)"
  by (simp add: ret_def)

lemma err_eq [op_simps]: "err e s = (Inl e, s)"
  by (simp add: err_def)

lemma modify_op_eq [op_simps]: "modify_op f s = (Inr (), f s)"
  by (simp add: modify_op_def)

lemma bind_op_Inl: "m s = (Inl e, s') \<Longrightarrow> bind_op m f s = (Inl e, s')"
  by (simp add: bind_op_def)

lemma bind_op_Inr: "m s = (Inr x, s') \<Longrightarrow> bind_op m f s = f x s'"
  by (simp add: bind_op_def)

lemma bind_op_ret [op_simps]: "bind_op (ret x) f s = f x s"
  by (simp add: bind_op_def ret_def)

lemma bind_op_err [op_simps]: "bind_op (err e) f s = (Inl e, s)"
  by (simp add: bind_op_def err_def)

lemma bind_op_modify [op_simps]: "bind_op (modify_op g) f s = f () (g s)"
  by (simp add: bind_op_def modify_op_def)

lemma bind_op_InrE:
  assumes "bind_op m f s = (Inr y, t)"
  obtains x s' where "m s = (Inr x, s')" and "f x s' = (Inr y, t)"
  using assms by (auto simp: bind_op_def split: prod.splits sum.splits)

text \<open>An operation keeps a predicate of the object, whatever it returns.\<close>

definition keeps :: "('s \<Rightarrow> bool) \<Rightarrow> ('s, 'a) op \<Rightarrow> bool" where
  "keeps P m \<longleftrightarrow> (\<forall>s. P s \<longrightarrow> P (snd (m s)))"

named_theorems keeps_rules \<open>operations that keep an object's invariant\<close>

lemma keepsI: "(\<And>s. P s \<Longrightarrow> P (snd (m s))) \<Longrightarrow> keeps P m"
  by (simp add: keeps_def)

lemma keepsD: "keeps P m \<Longrightarrow> P s \<Longrightarrow> P (snd (m s))"
  by (simp add: keeps_def)

lemma keeps_eqD: "keeps P m \<Longrightarrow> m s = (r, s') \<Longrightarrow> P s \<Longrightarrow> P s'"
  by (metis keeps_def snd_conv)

lemma keeps_ret [keeps_rules]: "keeps P (ret x)"
  by (simp add: keeps_def ret_def)

lemma keeps_err [keeps_rules]: "keeps P (err e)"
  by (simp add: keeps_def err_def)

lemma keeps_bind [keeps_rules]:
  assumes "keeps P m" and "\<And>x. keeps P (f x)"
  shows "keeps P (bind_op m f)"
proof (rule keepsI)
  fix s assume "P s"
  then have P': "P (snd (m s))" using assms(1) by (rule keepsD[rotated])
  show "P (snd (bind_op m f s))"
    using P' assms(2)
    by (auto simp: bind_op_def keeps_def split: prod.splits sum.splits)
qed

lemma keeps_if [keeps_rules]:
  "\<lbrakk>c \<Longrightarrow> keeps P m; \<not> c \<Longrightarrow> keeps P n\<rbrakk> \<Longrightarrow> keeps P (if c then m else n)"
  by simp

text \<open>A list of operations, stopped by the first error.\<close>

fun seq_op :: "('x \<Rightarrow> ('s, unit) op) \<Rightarrow> 'x list \<Rightarrow> ('s, unit) op" where
  "seq_op f [] = ret ()"
| "seq_op f (x # xs) = bind_op (f x) (\<lambda>_. seq_op f xs)"

text \<open>A list of operations whose results are collected.\<close>

fun map_op :: "('x \<Rightarrow> ('s, 'a) op) \<Rightarrow> 'x list \<Rightarrow> ('s, 'a list) op" where
  "map_op f [] = ret []"
| "map_op f (x # xs) = bind_op (f x) (\<lambda>y. bind_op (map_op f xs) (\<lambda>ys. ret (y # ys)))"

lemma keeps_seq_op [keeps_rules]: "(\<And>x. keeps P (f x)) \<Longrightarrow> keeps P (seq_op f xs)"
  by (induction xs) (auto intro: keeps_rules)

section \<open>The C library\<close>

text \<open>
  What the modelled code uses of the C library and is not a pure function: whether and
  where an allocation of \<open>n\<close> bytes succeeds, and the page size.
\<close>

record libc =
  malloc :: "nat \<Rightarrow> ptr"
  pagesize :: nat

text \<open>
  \<^verbatim>\<open>recallocarray\<close> of \<^verbatim>\<open>openbsd-compat/recallocarray.c\<close> on an array given by its pointer and
  its elements; \<open>sz\<close> is the size of one element. Growing zero-fills the new elements.
\<close>

definition MUL_NO_OVERFLOW :: nat where
  "MUL_NO_OVERFLOW = 2 ^ 32"

definition recallocarray ::
  "libc \<Rightarrow> ptr \<Rightarrow> 'a::zero list \<Rightarrow> nat \<Rightarrow> nat \<Rightarrow> (nat \<times> 'a list) option" where
  "recallocarray lc p xs newnmemb sz =
     (let oldnmemb = length xs; oldsize = oldnmemb * sz; newsize = newnmemb * sz;
          resized = take newnmemb xs @ replicate (newnmemb - oldnmemb) 0
      in case p of
        None \<Rightarrow> map_option (\<lambda>np. (np, replicate newnmemb 0)) (malloc lc newsize)
      | Some q \<Rightarrow>
          if (newnmemb \<ge> MUL_NO_OVERFLOW \<or> sz \<ge> MUL_NO_OVERFLOW) \<and>
             newnmemb > 0 \<and> SIZE_MAX div newnmemb < sz then None
          else if (oldnmemb \<ge> MUL_NO_OVERFLOW \<or> sz \<ge> MUL_NO_OVERFLOW) \<and>
             oldnmemb > 0 \<and> SIZE_MAX div oldnmemb < sz then None
          else if newsize \<le> oldsize \<and> oldsize - newsize < oldsize div 2 \<and>
             oldsize - newsize < pagesize lc then Some (q, take newnmemb xs)
          else map_option (\<lambda>np. (np, resized)) (malloc lc newsize))"

lemma recallocarray_length:
  "recallocarray lc p xs n sz = Some (q, ys) \<Longrightarrow> 0 < sz \<Longrightarrow> length ys = n"
  by (auto simp: recallocarray_def Let_def split: option.splits if_splits)

lemma recallocarray_grow:
  "recallocarray lc p xs n sz = Some (q, ys) \<Longrightarrow> p \<noteq> None \<Longrightarrow> length xs \<le> n \<Longrightarrow> 0 < sz \<Longrightarrow>
   ys = xs @ replicate (n - length xs) 0"
  by (auto simp: recallocarray_def Let_def split: option.splits if_splits)

lemma recallocarray_shrink:
  "recallocarray lc p xs n sz = Some (q, ys) \<Longrightarrow> p \<noteq> None \<Longrightarrow> n \<le> length xs \<Longrightarrow>
   ys = take n xs"
  by (auto simp: recallocarray_def Let_def split: option.splits if_splits)

lemma recallocarray_succeeds_bytes:
  assumes ok: "\<And>n. malloc lc n \<noteq> None" and n: "n \<le> SIZE_MAX" and l: "length xs \<le> SIZE_MAX"
  shows "recallocarray lc p xs n 1 \<noteq> None"
proof -
  have div1: "((k \<ge> MUL_NO_OVERFLOW \<or> 1 \<ge> MUL_NO_OVERFLOW) \<and> k > 0 \<and> SIZE_MAX div k < 1) = False"
    if "k \<le> SIZE_MAX" for k
    using that by (auto simp: div_eq_0_iff)
  show ?thesis
    unfolding recallocarray_def Let_def div1[OF n] div1[OF l] if_False
    using ok by (auto split: option.splits)
qed

lemma recallocarray_succeeds_small:
  assumes ok: "\<And>n. malloc lc n \<noteq> None"
    and "n < MUL_NO_OVERFLOW" and "length xs < MUL_NO_OVERFLOW" and "sz < MUL_NO_OVERFLOW"
  shows "recallocarray lc p xs n sz \<noteq> None"
  using assms unfolding recallocarray_def Let_def by (auto split: option.splits)

end
