(* ===== verification/Sshbuf.thy ===== *)
theory Sshbuf
  imports Prelude
begin

text \<open>
  The growable byte buffer of \<^verbatim>\<open>sshbuf.c\<close>: its structure, one definition per function that
  works on a single buffer, the sanity invariant and the abstraction of a buffer to the
  byte string it holds.
\<close>

section \<open>The structure\<close>

text \<open>
  \<^verbatim>\<open>struct sshbuf\<close>. \<open>b_self\<close> is the address of the structure itself, \<open>b_mem\<close> the
  bytes of the allocation that \<open>b_cd\<close> points to (as many as \<open>b_alloc\<close> says).
\<close>

record sshbuf =
  b_self :: ptr
  b_d :: ptr
  b_cd :: ptr
  b_mem :: "byte list"
  b_off :: nat
  b_size :: nat
  b_max_size :: nat
  b_alloc :: nat
  b_readonly :: bool
  b_refcount :: nat
  b_parent :: ptr

definition SSHBUF_SIZE_MAX :: nat where
  "SSHBUF_SIZE_MAX = 0x8000000"

definition SSHBUF_REFS_MAX :: nat where
  "SSHBUF_REFS_MAX = 0x100000"

definition SSHBUF_SIZE_INIT :: nat where
  "SSHBUF_SIZE_INIT = 256"

definition SSHBUF_SIZE_INC :: nat where
  "SSHBUF_SIZE_INC = 256"

definition SSHBUF_PACK_MIN :: nat where
  "SSHBUF_PACK_MIN = 8192"

text \<open>\<^verbatim>\<open>sizeof(struct sshbuf)\<close>.\<close>

definition sizeof_sshbuf :: nat where
  "sizeof_sshbuf = 64"

text \<open>\<^verbatim>\<open>ROUNDUP\<close> of \<^verbatim>\<open>misc.h\<close>.\<close>

definition ROUNDUP :: "nat \<Rightarrow> nat \<Rightarrow> nat" where
  "ROUNDUP x y = ((x + (y - 1)) div y) * y"

section \<open>Operations\<close>

text \<open>
  The checks of \<^verbatim>\<open>sshbuf_check_sanity\<close>; the C code raises \<^verbatim>\<open>SIGSEGV\<close> when one fails and, if
  that returns, reports an internal error.
\<close>

definition sshbuf_insane :: "sshbuf \<Rightarrow> bool" where
  "sshbuf_insane b \<longleftrightarrow>
     b_self b = None \<or>
     (\<not> b_readonly b \<and> b_d b \<noteq> b_cd b) \<or>
     b_parent b = b_self b \<or>
     b_refcount b < 1 \<or> b_refcount b > SSHBUF_REFS_MAX \<or>
     b_cd b = None \<or>
     b_max_size b > SSHBUF_SIZE_MAX \<or>
     b_alloc b > b_max_size b \<or>
     b_size b > b_alloc b \<or>
     b_off b > b_size b"

definition sshbuf_check_sanity :: "(sshbuf, unit) op" where
  "sshbuf_check_sanity b = (if sshbuf_insane b then Inl SSH_ERR_INTERNAL_ERROR else Inr (), b)"

definition sshbuf_maybe_pack :: "bool \<Rightarrow> sshbuf \<Rightarrow> sshbuf" where
  "sshbuf_maybe_pack force b =
     (if b_off b = 0 \<or> b_readonly b \<or> b_refcount b > 1 then b
      else if force \<or> (b_off b \<ge> SSHBUF_PACK_MIN \<and> b_off b \<ge> b_size b div 2) then
        (let n = b_size b - b_off b
         in b\<lparr>b_mem := take n (drop (b_off b) (b_mem b)) @ drop n (b_mem b),
              b_size := n, b_off := 0\<rparr>)
      else b)"

definition sshbuf_new :: "libc \<Rightarrow> sshbuf option" where
  "sshbuf_new lc =
     (case malloc lc sizeof_sshbuf of
        None \<Rightarrow> None
      | Some self \<Rightarrow>
          (case malloc lc SSHBUF_SIZE_INIT of
             None \<Rightarrow> None
           | Some p \<Rightarrow> Some
               \<lparr>b_self = Some self, b_d = Some p, b_cd = Some p,
                b_mem = replicate SSHBUF_SIZE_INIT 0, b_off = 0, b_size = 0,
                b_max_size = SSHBUF_SIZE_MAX, b_alloc = SSHBUF_SIZE_INIT,
                b_readonly = False, b_refcount = 1, b_parent = None\<rparr>))"

text \<open>\<^verbatim>\<open>sshbuf_from(blob, len)\<close>: \<open>bytes\<close> are the \<open>len\<close> bytes that \<open>blob\<close> points to.\<close>

definition sshbuf_from :: "libc \<Rightarrow> ptr \<Rightarrow> byte list \<Rightarrow> sshbuf option" where
  "sshbuf_from lc blob bytes =
     (let len = length bytes
      in if blob = None \<or> len > SSHBUF_SIZE_MAX then None
         else (case malloc lc sizeof_sshbuf of
                 None \<Rightarrow> None
               | Some self \<Rightarrow> Some
                   \<lparr>b_self = Some self, b_d = None, b_cd = blob, b_mem = bytes,
                    b_off = 0, b_size = len, b_max_size = len, b_alloc = len,
                    b_readonly = True, b_refcount = 1, b_parent = None\<rparr>))"

definition sshbuf_reset :: "libc \<Rightarrow> sshbuf \<Rightarrow> sshbuf" where
  "sshbuf_reset lc b =
     (if b_readonly b \<or> b_refcount b > 1 then b\<lparr>b_off := b_size b\<rparr>
      else if sshbuf_insane b then b
      else
        (let b1 = b\<lparr>b_off := 0, b_size := 0\<rparr>;
             b2 = (if b_alloc b1 \<noteq> SSHBUF_SIZE_INIT then
                     (case recallocarray lc (b_d b1) (b_mem b1) SSHBUF_SIZE_INIT 1 of
                        None \<Rightarrow> b1
                      | Some (d, mem) \<Rightarrow>
                          b1\<lparr>b_cd := Some d, b_d := Some d, b_mem := mem,
                             b_alloc := SSHBUF_SIZE_INIT\<rparr>)
                   else b1)
         in b2\<lparr>b_mem := replicate (b_alloc b2) 0\<rparr>))"

definition sshbuf_max_size :: "sshbuf \<Rightarrow> nat" where
  "sshbuf_max_size b = b_max_size b"

definition sshbuf_alloc :: "sshbuf \<Rightarrow> nat" where
  "sshbuf_alloc b = b_alloc b"

definition sshbuf_parent :: "sshbuf \<Rightarrow> ptr" where
  "sshbuf_parent b = b_parent b"

definition sshbuf_refcount :: "sshbuf \<Rightarrow> nat" where
  "sshbuf_refcount b = b_refcount b"

definition sshbuf_set_max_size :: "libc \<Rightarrow> nat \<Rightarrow> (sshbuf, unit) op" where
  "sshbuf_set_max_size lc max_size b =
     (if sshbuf_insane b then (Inl SSH_ERR_INTERNAL_ERROR, b)
      else if max_size = b_max_size b then (Inr (), b)
      else if b_readonly b \<or> b_refcount b > 1 then (Inl SSH_ERR_BUFFER_READ_ONLY, b)
      else if max_size > SSHBUF_SIZE_MAX then (Inl SSH_ERR_NO_BUFFER_SPACE, b)
      else
        (let b1 = sshbuf_maybe_pack (max_size < b_size b) b;
             finish = (\<lambda>c. if max_size < b_alloc c then (Inl SSH_ERR_NO_BUFFER_SPACE, c)
                           else (Inr (), c\<lparr>b_max_size := max_size\<rparr>))
         in if max_size < b_alloc b1 \<and> max_size > b_size b1 then
              (let rlen0 = (if b_size b1 < SSHBUF_SIZE_INIT then SSHBUF_SIZE_INIT
                            else ROUNDUP (b_size b1) SSHBUF_SIZE_INC);
                   rlen = (if rlen0 > max_size then max_size else rlen0)
               in case recallocarray lc (b_d b1) (b_mem b1) rlen 1 of
                    None \<Rightarrow> (Inl SSH_ERR_ALLOC_FAIL, b1)
                  | Some (dp, mem) \<Rightarrow>
                      finish (b1\<lparr>b_cd := Some dp, b_d := Some dp, b_mem := mem,
                                 b_alloc := rlen\<rparr>))
            else finish b1))"

definition sshbuf_len :: "sshbuf \<Rightarrow> nat" where
  "sshbuf_len b = (if sshbuf_insane b then 0 else b_size b - b_off b)"

definition sshbuf_avail :: "sshbuf \<Rightarrow> nat" where
  "sshbuf_avail b =
     (if sshbuf_insane b \<or> b_readonly b \<or> b_refcount b > 1 then 0
      else b_max_size b - (b_size b - b_off b))"

text \<open>
  \<^verbatim>\<open>sshbuf_ptr\<close> and \<^verbatim>\<open>sshbuf_mutable_ptr\<close>: the address of the first unread byte.
\<close>

definition sshbuf_ptr :: "sshbuf \<Rightarrow> ptr" where
  "sshbuf_ptr b = (if sshbuf_insane b then None else map_option (\<lambda>p. p + b_off b) (b_cd b))"

definition sshbuf_mutable_ptr :: "sshbuf \<Rightarrow> ptr" where
  "sshbuf_mutable_ptr b =
     (if sshbuf_insane b \<or> b_readonly b \<or> b_refcount b > 1 then None
      else map_option (\<lambda>p. p + b_off b) (b_d b))"

definition sshbuf_check_reserve :: "nat \<Rightarrow> (sshbuf, unit) op" where
  "sshbuf_check_reserve len b =
     (if sshbuf_insane b then Inl SSH_ERR_INTERNAL_ERROR
      else if b_readonly b \<or> b_refcount b > 1 then Inl SSH_ERR_BUFFER_READ_ONLY
      else if len > b_max_size b \<or> b_max_size b - len < b_size b - b_off b then
        Inl SSH_ERR_NO_BUFFER_SPACE
      else Inr (), b)"

text \<open>
  The second half of \<^verbatim>\<open>sshbuf_allocate\<close>: the buffer has room under \<open>max_size\<close> and has
  been packed if it had to be; enlarge the allocation.
\<close>

definition sshbuf_allocate_grow :: "libc \<Rightarrow> nat \<Rightarrow> (sshbuf, unit) op" where
  "sshbuf_allocate_grow lc len b =
     (if len + b_size b \<le> b_alloc b then (Inr (), b)
      else
        (let need = len + b_size b - b_alloc b;
             rlen0 = ROUNDUP (b_alloc b + need) SSHBUF_SIZE_INC;
             rlen = (if rlen0 > b_max_size b then b_alloc b + need else rlen0)
         in case recallocarray lc (b_d b) (b_mem b) rlen 1 of
              None \<Rightarrow> (Inl SSH_ERR_ALLOC_FAIL, b)
            | Some (dp, mem) \<Rightarrow>
                sshbuf_check_reserve len
                  (b\<lparr>b_alloc := rlen, b_cd := Some dp, b_d := Some dp, b_mem := mem\<rparr>)))"

definition sshbuf_allocate :: "libc \<Rightarrow> nat \<Rightarrow> (sshbuf, unit) op" where
  "sshbuf_allocate lc len =
     bind_op (sshbuf_check_reserve len) (\<lambda>_ b.
       sshbuf_allocate_grow lc len (sshbuf_maybe_pack (b_size b + len > b_max_size b) b))"

text \<open>
  \<^verbatim>\<open>sshbuf_reserve\<close> returns where the reserved bytes start: an index into the allocation
  (the C code returns the address \<^verbatim>\<open>buf->d\<close> plus that index).
\<close>

definition sshbuf_reserve :: "libc \<Rightarrow> nat \<Rightarrow> (sshbuf, nat) op" where
  "sshbuf_reserve lc len =
     bind_op (sshbuf_allocate lc len) (\<lambda>_ b. (Inr (b_size b), b\<lparr>b_size := b_size b + len\<rparr>))"

definition sshbuf_consume :: "nat \<Rightarrow> (sshbuf, unit) op" where
  "sshbuf_consume len b =
     (if sshbuf_insane b then (Inl SSH_ERR_INTERNAL_ERROR, b)
      else if len = 0 then (Inr (), b)
      else if len > sshbuf_len b then (Inl SSH_ERR_MESSAGE_INCOMPLETE, b)
      else
        (let b1 = b\<lparr>b_off := b_off b + len\<rparr>
         in (Inr (), if b_off b1 = b_size b1 then b1\<lparr>b_off := 0, b_size := 0\<rparr> else b1)))"

definition sshbuf_consume_end :: "nat \<Rightarrow> (sshbuf, unit) op" where
  "sshbuf_consume_end len b =
     (if sshbuf_insane b then (Inl SSH_ERR_INTERNAL_ERROR, b)
      else if len = 0 then (Inr (), b)
      else if len > sshbuf_len b then (Inl SSH_ERR_MESSAGE_INCOMPLETE, b)
      else (Inr (), b\<lparr>b_size := b_size b - len\<rparr>))"

text \<open>
  \<^verbatim>\<open>sshbuf_consume_upto_child(buf, child)\<close> as an operation on the parent.
\<close>

definition sshbuf_consume_upto_child :: "sshbuf \<Rightarrow> (sshbuf, unit) op" where
  "sshbuf_consume_upto_child child b =
     (if sshbuf_insane b \<or> sshbuf_insane child then (Inl SSH_ERR_INTERNAL_ERROR, b)
      else if b_parent child \<noteq> b_self b then (Inl SSH_ERR_INVALID_ARGUMENT, b)
      else if sshbuf_len child > sshbuf_len b then (Inl SSH_ERR_INVALID_ARGUMENT, b)
      else if the (b_cd child) < the (b_cd b) then (Inl SSH_ERR_INTERNAL_ERROR, b)
      else sshbuf_consume (sshbuf_len b - sshbuf_len child) b)"

text \<open>\<^verbatim>\<open>memcpy\<close> of \<open>bs\<close> to index \<open>i\<close> of the allocation.\<close>

definition mem_write :: "nat \<Rightarrow> byte list \<Rightarrow> sshbuf \<Rightarrow> sshbuf" where
  "mem_write i bs b = b\<lparr>b_mem := take i (b_mem b) @ bs @ drop (i + length bs) (b_mem b)\<rparr>"

text \<open>The \<open>len\<close> bytes at offset \<open>i\<close> from \<^verbatim>\<open>sshbuf_ptr\<close>.\<close>

definition mem_read :: "nat \<Rightarrow> nat \<Rightarrow> sshbuf \<Rightarrow> byte list" where
  "mem_read i len b = take len (drop (b_off b + i) (b_mem b))"

section \<open>The invariant and the contents\<close>

text \<open>The invariant: the sanity checks pass and the allocation has the recorded length.\<close>

definition wf_sshbuf :: "sshbuf \<Rightarrow> bool" where
  "wf_sshbuf b \<longleftrightarrow> \<not> sshbuf_insane b \<and> length (b_mem b) = b_alloc b"

text \<open>The abstraction: the bytes between \<open>off\<close> and \<open>size\<close>.\<close>

definition contents :: "sshbuf \<Rightarrow> byte list" where
  "contents b = take (b_size b - b_off b) (drop (b_off b) (b_mem b))"

text \<open>A buffer that may be written: not read-only and without children.\<close>

definition writable :: "sshbuf \<Rightarrow> bool" where
  "writable b \<longleftrightarrow> \<not> b_readonly b \<and> b_refcount b \<le> 1"

named_theorems buf_frame \<open>fields an operation leaves alone\<close>

lemma wf_sshbufD:
  assumes "wf_sshbuf b"
  shows "\<not> sshbuf_insane b" and "length (b_mem b) = b_alloc b" and "b_off b \<le> b_size b"
    and "b_size b \<le> b_alloc b" and "b_alloc b \<le> b_max_size b"
    and "b_max_size b \<le> SSHBUF_SIZE_MAX" and "b_refcount b \<ge> 1" and "b_cd b \<noteq> None"
    and "\<not> b_readonly b \<Longrightarrow> b_d b = b_cd b" and "b_self b \<noteq> None" and "b_parent b \<noteq> b_self b"
    and "b_refcount b \<le> SSHBUF_REFS_MAX"
  using assms by (auto simp: wf_sshbuf_def sshbuf_insane_def)

lemma wf_sshbufI:
  assumes "b_self b \<noteq> None" and "\<not> b_readonly b \<Longrightarrow> b_d b = b_cd b" and "b_parent b \<noteq> b_self b"
    and "1 \<le> b_refcount b" and "b_refcount b \<le> SSHBUF_REFS_MAX" and "b_cd b \<noteq> None"
    and "b_max_size b \<le> SSHBUF_SIZE_MAX" and "b_alloc b \<le> b_max_size b"
    and "b_size b \<le> b_alloc b" and "b_off b \<le> b_size b" and "length (b_mem b) = b_alloc b"
  shows "wf_sshbuf b"
  using assms by (auto simp: wf_sshbuf_def sshbuf_insane_def)

lemma length_contents [simp]: "wf_sshbuf b \<Longrightarrow> length (contents b) = b_size b - b_off b"
  using wf_sshbufD(2-4)[of b] by (simp add: contents_def)

lemma sshbuf_len_contents: "wf_sshbuf b \<Longrightarrow> sshbuf_len b = length (contents b)"
  using wf_sshbufD(1)[of b] by (simp add: sshbuf_len_def)

lemma contents_SIZE_MAX: "wf_sshbuf b \<Longrightarrow> length (contents b) \<le> SSHBUF_SIZE_MAX"
  using wf_sshbufD(3-6)[of b] by simp

lemma ROUNDUP_ge: "0 < y \<Longrightarrow> x \<le> ROUNDUP x y"
proof -
  assume y: "0 < y"
  have "x + (y - 1) = ((x + (y - 1)) div y) * y + (x + (y - 1)) mod y"
    by simp
  moreover have "(x + (y - 1)) mod y \<le> y - 1"
    using y mod_less_divisor[of y "x + (y - 1)"] by linarith
  ultimately show ?thesis
    unfolding ROUNDUP_def by linarith
qed

lemma sshbuf_new_wf: "sshbuf_new lc = Some b \<Longrightarrow> wf_sshbuf b \<and> writable b \<and> contents b = []"
  by (auto simp: sshbuf_new_def wf_sshbuf_def sshbuf_insane_def contents_def writable_def
      SSHBUF_REFS_MAX_def SSHBUF_SIZE_MAX_def SSHBUF_SIZE_INIT_def split: option.splits)

lemma sshbuf_from_wf:
  "sshbuf_from lc blob bytes = Some b \<Longrightarrow>
   wf_sshbuf b \<and> \<not> writable b \<and> contents b = bytes \<and> b_refcount b = 1 \<and> b_parent b = None \<and>
   b_cd b = blob"
  by (auto simp: sshbuf_from_def Let_def wf_sshbuf_def sshbuf_insane_def contents_def writable_def
      SSHBUF_REFS_MAX_def split: option.splits if_splits)

section \<open>Packing, consuming, reserving\<close>

lemma maybe_pack_frame [buf_frame]:
  "b_self (sshbuf_maybe_pack f b) = b_self b" "b_d (sshbuf_maybe_pack f b) = b_d b"
  "b_cd (sshbuf_maybe_pack f b) = b_cd b" "b_max_size (sshbuf_maybe_pack f b) = b_max_size b"
  "b_alloc (sshbuf_maybe_pack f b) = b_alloc b" "b_readonly (sshbuf_maybe_pack f b) = b_readonly b"
  "b_refcount (sshbuf_maybe_pack f b) = b_refcount b" "b_parent (sshbuf_maybe_pack f b) = b_parent b"
  by (simp_all add: sshbuf_maybe_pack_def Let_def)

lemma maybe_pack_wf:
  assumes "wf_sshbuf b"
  shows "wf_sshbuf (sshbuf_maybe_pack f b)"
    and "contents (sshbuf_maybe_pack f b) = contents b"
    and "b_size (sshbuf_maybe_pack f b) \<le> b_size b"
  using wf_sshbufD[OF assms] assms
  by (auto simp: sshbuf_maybe_pack_def wf_sshbuf_def sshbuf_insane_def contents_def Let_def)

lemma maybe_pack_force:
  "writable b \<Longrightarrow> b_size (sshbuf_maybe_pack True b) = b_size b - b_off b"
  by (simp add: sshbuf_maybe_pack_def writable_def Let_def)

lemma check_reserve_Inr:
  assumes "wf_sshbuf b"
  shows "sshbuf_check_reserve len b = (Inr (), b') \<longleftrightarrow>
         b' = b \<and> writable b \<and> len + length (contents b) \<le> b_max_size b"
  using wf_sshbufD[OF assms] assms
  by (auto simp: sshbuf_check_reserve_def writable_def)

lemma check_reserve_same: "snd (sshbuf_check_reserve len b) = b"
  by (simp add: sshbuf_check_reserve_def)

text \<open>A change of the allocation that keeps the live bytes keeps invariant and contents.\<close>

lemma realloc_wf:
  assumes wf: "wf_sshbuf b" and ra: "recallocarray lc (b_d b) (b_mem b) n 1 = Some (dp, mem)"
    and wr: "writable b" and n: "b_size b \<le> n" "n \<le> b_max_size b"
    and b': "b' = b\<lparr>b_alloc := n, b_cd := Some dp, b_d := Some dp, b_mem := mem\<rparr>"
  shows "wf_sshbuf b' \<and> contents b' = contents b"
proof -
  note D = wf_sshbufD[OF wf]
  have len: "length mem = n" using ra by (rule recallocarray_length) simp
  have d: "b_d b \<noteq> None" using D(8,9) wr by (simp add: writable_def)
  have live: "take (b_size b) mem = take (b_size b) (b_mem b)"
  proof (cases "n \<le> length (b_mem b)")
    case True
    then show ?thesis using recallocarray_shrink[OF ra d] n by (simp add: min_def)
  next
    case False
    then show ?thesis using recallocarray_grow[OF ra d] D(2,4) by simp
  qed
  have "contents b' = contents b"
    using live D(3) by (simp add: contents_def b' take_drop)
  moreover have "wf_sshbuf b'"
    using D n len by (simp add: b' wf_sshbuf_def sshbuf_insane_def)
  ultimately show ?thesis by blast
qed

lemma allocate_grow_spec:
  assumes wf: "wf_sshbuf b" and wr: "writable b" and fits: "b_size b + len \<le> b_max_size b"
    and run: "sshbuf_allocate_grow lc len b = (r, b')"
  shows "wf_sshbuf b' \<and> contents b' = contents b \<and> writable b' \<and>
         b_max_size b' = b_max_size b \<and> b_size b' = b_size b \<and> b_off b' = b_off b \<and>
         (r = Inr () \<longrightarrow> b_size b' + len \<le> b_alloc b') \<and> (r = Inr () \<or> r = Inl SSH_ERR_ALLOC_FAIL)"
proof (cases "len + b_size b \<le> b_alloc b")
  case True
  with assms show ?thesis by (auto simp: sshbuf_allocate_grow_def)
next
  case False
  define rlen0 where "rlen0 = ROUNDUP (len + b_size b) SSHBUF_SIZE_INC"
  define rlen where "rlen = (if rlen0 > b_max_size b then len + b_size b else rlen0)"
  have sum: "b_alloc b + (len + b_size b - b_alloc b) = len + b_size b" using False by simp
  have ge: "len + b_size b \<le> rlen" and le: "rlen \<le> b_max_size b"
    using fits ROUNDUP_ge[of SSHBUF_SIZE_INC "len + b_size b"]
    by (auto simp: rlen_def rlen0_def SSHBUF_SIZE_INC_def)
  have eq: "sshbuf_allocate_grow lc len b =
      (case recallocarray lc (b_d b) (b_mem b) rlen 1 of
         None \<Rightarrow> (Inl SSH_ERR_ALLOC_FAIL, b)
       | Some (dp, mem) \<Rightarrow> sshbuf_check_reserve len
           (b\<lparr>b_alloc := rlen, b_cd := Some dp, b_d := Some dp, b_mem := mem\<rparr>))"
    unfolding sshbuf_allocate_grow_def Let_def sum rlen_def rlen0_def using False by (rule if_not_P)
  show ?thesis
  proof (cases "recallocarray lc (b_d b) (b_mem b) rlen 1")
    case None
    with run wf wr show ?thesis by (auto simp: eq)
  next
    case (Some y)
    obtain dp mem where y: "y = (dp, mem)" by (cases y)
    define c where "c = b\<lparr>b_alloc := rlen, b_cd := Some dp, b_d := Some dp, b_mem := mem\<rparr>"
    have c: "wf_sshbuf c \<and> contents c = contents b"
      using wf Some y wr ge le c_def by (intro realloc_wf) auto
    have "sshbuf_allocate_grow lc len b = sshbuf_check_reserve len c"
      unfolding eq c_def using Some y by simp
    moreover have "sshbuf_check_reserve len c = (Inr (), c)"
      using c fits wr wf_sshbufD(3)[OF wf] wf
      by (simp add: check_reserve_Inr writable_def) (simp add: c_def)
    ultimately show ?thesis using run c wr ge by (auto simp: c_def writable_def)
  qed
qed

text \<open>Why a reservation of \<open>len\<close> bytes is refused, in the order of the checks.\<close>

definition reserve_error :: "sshbuf \<Rightarrow> nat \<Rightarrow> ssherr" where
  "reserve_error b len =
     (if \<not> writable b then SSH_ERR_BUFFER_READ_ONLY
      else if len + length (contents b) > b_max_size b then SSH_ERR_NO_BUFFER_SPACE
      else SSH_ERR_ALLOC_FAIL)"

lemma allocate_spec:
  assumes wf: "wf_sshbuf b" and run: "sshbuf_allocate lc len b = (r, b')"
  shows "wf_sshbuf b' \<and> contents b' = contents b \<and> b_max_size b' = b_max_size b \<and>
         (case r of
            Inr _ \<Rightarrow> writable b \<and> writable b' \<and> len + length (contents b) \<le> b_max_size b \<and>
                     b_size b' + len \<le> b_alloc b'
          | Inl e \<Rightarrow> e = reserve_error b len)"
proof (cases "writable b \<and> len + length (contents b) \<le> b_max_size b")
  case True
  then have wr: "writable b" and room: "len + (b_size b - b_off b) \<le> b_max_size b"
    using wf by auto
  define c where "c = sshbuf_maybe_pack (b_size b + len > b_max_size b) b"
  have c: "wf_sshbuf c" "contents c = contents b" "writable c" "b_max_size c = b_max_size b"
    using maybe_pack_wf[OF wf] wr by (simp_all add: c_def writable_def buf_frame)
  have "b_size c + len \<le> b_max_size c"
  proof (cases "b_size b + len > b_max_size b")
    case True
    then show ?thesis
      using maybe_pack_force[OF wr] room c(4) unfolding c_def by simp
  next
    case False
    then show ?thesis
      using maybe_pack_wf(3)[OF wf, of False] c(4) unfolding c_def by simp
  qed
  moreover have grow: "sshbuf_allocate_grow lc len c = (r, b')"
    using run True wf check_reserve_Inr[OF wf, of len b]
    by (simp add: sshbuf_allocate_def bind_op_def c_def)
  ultimately show ?thesis
    using allocate_grow_spec[OF c(1,3) _ grow] c True by (auto simp: reserve_error_def)
next
  case False
  then have "r = Inl (reserve_error b len) \<and> b' = b"
    using run wf wf_sshbufD(1)[OF wf]
    by (auto simp: sshbuf_allocate_def bind_op_def sshbuf_check_reserve_def reserve_error_def
        writable_def split: if_splits)
  then show ?thesis using wf by simp
qed

lemma allocate_succeeds:
  assumes wf: "wf_sshbuf b" and ok: "\<And>n. malloc lc n \<noteq> None"
    and wr: "writable b" and room: "len + length (contents b) \<le> b_max_size b"
  shows "\<exists>b'. sshbuf_allocate lc len b = (Inr (), b')"
proof -
  have big: "SSHBUF_SIZE_MAX \<le> SIZE_MAX" by (simp add: SSHBUF_SIZE_MAX_def SIZE_MAX_def)
  define c where "c = sshbuf_maybe_pack (b_size b + len > b_max_size b) b"
  have c: "wf_sshbuf c" "writable c" "b_max_size c = b_max_size b"
    using maybe_pack_wf[OF wf] wr by (simp_all add: c_def writable_def buf_frame)
  have fits: "b_size c + len \<le> b_max_size c"
    using maybe_pack_force[OF wr] maybe_pack_wf(3)[OF wf, of False] room wf c(3)
    unfolding c_def by (cases "b_size b + len > b_max_size b") auto
  have "sshbuf_allocate lc len b = sshbuf_allocate_grow lc len c"
    using wr room wf check_reserve_Inr[OF wf, of len b]
    by (simp add: sshbuf_allocate_def bind_op_def c_def)
  moreover obtain r b' where g: "sshbuf_allocate_grow lc len c = (r, b')" by fastforce
  moreover have "r \<noteq> Inl SSH_ERR_ALLOC_FAIL"
  proof
    assume r: "r = Inl SSH_ERR_ALLOC_FAIL"
    define n where "n = (if ROUNDUP (b_alloc c + (len + b_size c - b_alloc c)) SSHBUF_SIZE_INC
        > b_max_size c then b_alloc c + (len + b_size c - b_alloc c)
        else ROUNDUP (b_alloc c + (len + b_size c - b_alloc c)) SSHBUF_SIZE_INC)"
    have bound: "n \<le> SIZE_MAX" if "\<not> len + b_size c \<le> b_alloc c"
      using that fits wf_sshbufD(6)[OF c(1)] big unfolding n_def by (auto simp: not_less)
    have "length (b_mem c) \<le> SIZE_MAX"
      using wf_sshbufD(2,5,6)[OF c(1)] big by linarith
    then have "recallocarray lc (b_d c) (b_mem c) n 1 \<noteq> None" if "\<not> len + b_size c \<le> b_alloc c"
      using recallocarray_succeeds_bytes[OF ok bound[OF that]] by blast
    then show False
      using g r unfolding sshbuf_allocate_grow_def Let_def n_def[symmetric]
      by (auto simp: sshbuf_check_reserve_def split: if_splits option.splits)
  qed
  ultimately show ?thesis
    using allocate_grow_spec[OF c(1,2) fits g] by auto
qed

text \<open>Appending: reserve, then write into the reserved bytes.\<close>

lemma reserve_spec:
  assumes wf: "wf_sshbuf b" and run: "sshbuf_reserve lc len b = (r, b')"
  shows "case r of
           Inr i \<Rightarrow> writable b \<and> len + length (contents b) \<le> b_max_size b \<and> wf_sshbuf b' \<and>
                    i + len = b_size b' \<and> b_off b' \<le> i \<and> writable b' \<and>
                    b_max_size b' = b_max_size b \<and> take (i - b_off b') (contents b') = contents b
         | Inl e \<Rightarrow> e = reserve_error b len \<and> wf_sshbuf b' \<and> contents b' = contents b \<and>
                    b_max_size b' = b_max_size b"
proof -
  obtain r1 c where al: "sshbuf_allocate lc len b = (r1, c)" by fastforce
  note spec = allocate_spec[OF wf al]
  show ?thesis
  proof (cases r1)
    case (Inl e)
    then show ?thesis using run al spec by (auto simp: sshbuf_reserve_def bind_op_def)
  next
    case (Inr u)
    have r: "r = Inr (b_size c)" and b': "b' = c\<lparr>b_size := b_size c + len\<rparr>"
      using run al Inr by (auto simp: sshbuf_reserve_def bind_op_def)
    have wfc: "wf_sshbuf c" and cont: "contents c = contents b" and le: "b_size c + len \<le> b_alloc c"
      using spec Inr by auto
    have "wf_sshbuf b'"
      using wfc le by (auto simp: b' wf_sshbuf_def sshbuf_insane_def)
    moreover have "take (b_size c - b_off c) (contents b') = contents b"
      unfolding cont[symmetric] using wf_sshbufD(3)[OF wfc] by (simp add: b' contents_def min_def)
    ultimately show ?thesis
      using spec Inr wf_sshbufD(3)[OF wfc] by (auto simp: r b' writable_def)
  qed
qed

lemma mem_write_frame [buf_frame]:
  "b_self (mem_write i bs b) = b_self b" "b_d (mem_write i bs b) = b_d b"
  "b_cd (mem_write i bs b) = b_cd b" "b_max_size (mem_write i bs b) = b_max_size b"
  "b_alloc (mem_write i bs b) = b_alloc b" "b_readonly (mem_write i bs b) = b_readonly b"
  "b_refcount (mem_write i bs b) = b_refcount b" "b_parent (mem_write i bs b) = b_parent b"
  "b_size (mem_write i bs b) = b_size b" "b_off (mem_write i bs b) = b_off b"
  by (simp_all add: mem_write_def)

lemma mem_write_wf:
  "wf_sshbuf b \<Longrightarrow> i + length bs \<le> b_alloc b \<Longrightarrow> wf_sshbuf (mem_write i bs b)"
  by (auto simp: wf_sshbuf_def sshbuf_insane_def mem_write_def)

text \<open>A write inside the live bytes replaces just those bytes of the contents.\<close>

lemma contents_mem_write:
  assumes "wf_sshbuf b" and "b_off b \<le> i" and "i + length bs \<le> b_size b"
  shows "contents (mem_write i bs b) =
         take (i - b_off b) (contents b) @ bs @ drop (i - b_off b + length bs) (contents b)"
proof -
  obtain k where i: "i = b_off b + k" using assms(2) le_Suc_ex by blast
  obtain s where "b_size b = i + length bs + s" using assms(3) le_Suc_ex by blast
  then have s: "b_size b = b_off b + (k + (length bs + s))" using i by simp
  have "b_off b + (k + (length bs + s)) \<le> length (b_mem b)"
    using wf_sshbufD(2,4)[OF assms(1)] s by simp
  then show ?thesis
    by (simp add: contents_def mem_write_def i s drop_take ac_simps)
qed

lemma reserve_write_spec:
  assumes wf: "wf_sshbuf b" and run: "sshbuf_reserve lc (length bs) b = (Inr i, b')"
  shows "wf_sshbuf (mem_write i bs b') \<and> contents (mem_write i bs b') = contents b @ bs"
proof -
  note spec = reserve_spec[OF wf run, simplified]
  then have "i + length bs \<le> b_alloc b'" using wf_sshbufD(4)[of b'] by simp
  moreover have "contents (mem_write i bs b') = contents b @ bs"
    using spec contents_mem_write[of b' i bs] by simp
  ultimately show ?thesis using spec mem_write_wf by blast
qed

lemma consume_spec:
  assumes wf: "wf_sshbuf b"
  shows "len \<le> length (contents b) \<Longrightarrow>
           \<exists>b'. sshbuf_consume len b = (Inr (), b') \<and> wf_sshbuf b' \<and>
                contents b' = drop len (contents b) \<and> b_max_size b' = b_max_size b \<and>
                b_readonly b' = b_readonly b \<and> b_refcount b' = b_refcount b"
    and "len > length (contents b) \<Longrightarrow>
           sshbuf_consume len b = (Inl SSH_ERR_MESSAGE_INCOMPLETE, b)"
proof -
  note D = wf_sshbufD[OF wf]
  show "\<exists>b'. sshbuf_consume len b = (Inr (), b') \<and> wf_sshbuf b' \<and>
              contents b' = drop len (contents b) \<and> b_max_size b' = b_max_size b \<and>
                b_readonly b' = b_readonly b \<and> b_refcount b' = b_refcount b"
    if le: "len \<le> length (contents b)"
  proof (cases "len = 0")
    case True
    then show ?thesis using wf D(1) by (simp add: sshbuf_consume_def)
  next
    case False
    have le': "b_off b + len \<le> b_size b" using le wf D(3) by simp
    define b' where "b' = (if b_off b + len = b_size b then b\<lparr>b_off := 0, b_size := 0\<rparr>
                           else b\<lparr>b_off := b_off b + len\<rparr>)"
    have "sshbuf_consume len b = (Inr (), b')"
      using False D(1) le by (simp add: sshbuf_consume_def Let_def sshbuf_len_contents[OF wf] b'_def)
    moreover have "wf_sshbuf b'"
      using D le' by (intro wf_sshbufI) (auto simp: b'_def split: if_splits)
    moreover have "contents b' = drop len (contents b)"
      using le' by (auto simp: b'_def contents_def drop_take add.commute)
    ultimately show ?thesis by (auto simp: b'_def)
  qed
  show "len > length (contents b) \<Longrightarrow>
        sshbuf_consume len b = (Inl SSH_ERR_MESSAGE_INCOMPLETE, b)"
    using wf D(1) by (auto simp: sshbuf_consume_def sshbuf_len_contents)
qed

lemma consume_end_spec:
  assumes wf: "wf_sshbuf b"
  shows "len \<le> length (contents b) \<Longrightarrow>
           \<exists>b'. sshbuf_consume_end len b = (Inr (), b') \<and> wf_sshbuf b' \<and>
                contents b' = take (length (contents b) - len) (contents b)"
    and "len > length (contents b) \<Longrightarrow>
           sshbuf_consume_end len b = (Inl SSH_ERR_MESSAGE_INCOMPLETE, b)"
proof -
  note D = wf_sshbufD[OF wf]
  show "\<exists>b'. sshbuf_consume_end len b = (Inr (), b') \<and> wf_sshbuf b' \<and>
              contents b' = take (length (contents b) - len) (contents b)"
    if le: "len \<le> length (contents b)"
  proof -
    have "contents (b\<lparr>b_size := b_size b - len\<rparr>) = take (length (contents b) - len) (contents b)"
      unfolding length_contents[OF wf] by (simp add: contents_def min_def add.commute)
    moreover have "wf_sshbuf (b\<lparr>b_size := b_size b - len\<rparr>)"
      using D le wf by (intro wf_sshbufI) auto
    moreover have "sshbuf_consume_end len b = (Inr (), b\<lparr>b_size := b_size b - len\<rparr>)"
      using D(1) le by (simp add: sshbuf_consume_end_def sshbuf_len_contents[OF wf])
    ultimately show ?thesis by blast
  qed
  show "len > length (contents b) \<Longrightarrow>
        sshbuf_consume_end len b = (Inl SSH_ERR_MESSAGE_INCOMPLETE, b)"
    using wf D(1) by (auto simp: sshbuf_consume_end_def sshbuf_len_contents)
qed

section \<open>Resizing and resetting\<close>

lemma set_max_size_spec:
  assumes wf: "wf_sshbuf b" and run: "sshbuf_set_max_size lc n b = (r, b')"
  shows "wf_sshbuf b' \<and> contents b' = contents b \<and> (r = Inr () \<longrightarrow> b_max_size b' = n) \<and>
         (r \<noteq> Inr () \<longrightarrow> b_max_size b' = b_max_size b)"
proof -
  note D = wf_sshbufD[OF wf]
  define b1 where "b1 = sshbuf_maybe_pack (n < b_size b) b"
  have w1: "wf_sshbuf b1" "contents b1 = contents b" "b_max_size b1 = b_max_size b"
    using maybe_pack_wf[OF wf] by (simp_all add: b1_def buf_frame)
  define finish where "finish = (\<lambda>c::sshbuf. if n < b_alloc c then (Inl SSH_ERR_NO_BUFFER_SPACE, c)
      else (Inr (), c\<lparr>b_max_size := n\<rparr>) :: (ssherr + unit) \<times> sshbuf)"
  have fin: "wf_sshbuf c' \<and> contents c' = contents b \<and> (q = Inr () \<longrightarrow> b_max_size c' = n) \<and>
         (q \<noteq> Inr () \<longrightarrow> b_max_size c' = b_max_size b)"
    if "finish c = (q, c')" "wf_sshbuf c" "contents c = contents b" "b_max_size c = b_max_size b"
      "n \<le> SSHBUF_SIZE_MAX" for c c' q
    using that by (auto simp: finish_def wf_sshbuf_def sshbuf_insane_def contents_def split: if_splits)
  show ?thesis
  proof (cases "n = b_max_size b \<or> \<not> writable b \<or> n > SSHBUF_SIZE_MAX")
    case True
    then show ?thesis
      using run D(1,6) wf by (auto simp: sshbuf_set_max_size_def writable_def split: if_splits)
  next
    case False
    define rlen0 where "rlen0 = (if b_size b1 < SSHBUF_SIZE_INIT then SSHBUF_SIZE_INIT
        else ROUNDUP (b_size b1) SSHBUF_SIZE_INC)"
    define rlen where "rlen = (if rlen0 > n then n else rlen0)"
    have body: "sshbuf_set_max_size lc n b =
        (if n < b_alloc b1 \<and> n > b_size b1 then
           (case recallocarray lc (b_d b1) (b_mem b1) rlen 1 of
              None \<Rightarrow> (Inl SSH_ERR_ALLOC_FAIL, b1)
            | Some (dp, mem) \<Rightarrow>
                finish (b1\<lparr>b_cd := Some dp, b_d := Some dp, b_mem := mem, b_alloc := rlen\<rparr>))
         else finish b1)"
      using False D(1)
      unfolding sshbuf_set_max_size_def Let_def b1_def[symmetric] finish_def[symmetric]
        rlen0_def[symmetric] rlen_def[symmetric] writable_def by auto
    show ?thesis
    proof (cases "n < b_alloc b1 \<and> n > b_size b1")
      case False
      then show ?thesis using run body fin[OF _ w1] \<open>\<not> (n = b_max_size b \<or> _)\<close> by auto
    next
      case True
      show ?thesis
      proof (cases "recallocarray lc (b_d b1) (b_mem b1) rlen 1")
        case None
        then show ?thesis using run body True w1 by auto
      next
        case (Some y)
        obtain dp mem where y: "y = (dp, mem)" by (cases y)
        have "b_size b1 \<le> rlen0"
          using ROUNDUP_ge[of SSHBUF_SIZE_INC] by (simp add: rlen0_def SSHBUF_SIZE_INC_def)
        then have sz: "b_size b1 \<le> rlen" and le: "rlen \<le> b_max_size b1"
          using True wf_sshbufD(5)[OF w1(1)] by (auto simp: rlen_def)
        have wr1: "writable b1" using False by (auto simp: b1_def writable_def buf_frame)
        define c where "c = b1\<lparr>b_alloc := rlen, b_cd := Some dp, b_d := Some dp, b_mem := mem\<rparr>"
        have c: "wf_sshbuf c \<and> contents c = contents b1"
          using w1(1) Some y wr1 sz le c_def by (intro realloc_wf) auto
        have "b1\<lparr>b_cd := Some dp, b_d := Some dp, b_mem := mem, b_alloc := rlen\<rparr> = c"
          by (cases b1) (simp add: c_def)
        then have "finish c = (r, b')" using run body True Some y by simp
        then show ?thesis using fin[of c r b'] c w1 False by (auto simp: c_def)
      qed
    qed
  qed
qed

text \<open>
  \<^verbatim>\<open>sshbuf_reset\<close> allocates \<^verbatim>\<open>SSHBUF_SIZE_INIT\<close> bytes whatever \<open>max_size\<close> is, so it keeps the
  invariant of a writable buffer only if its maximum is at least that.
\<close>

definition reset_safe :: "sshbuf \<Rightarrow> bool" where
  "reset_safe b \<longleftrightarrow> b_readonly b \<or> SSHBUF_SIZE_INIT \<le> b_max_size b"

lemma reset_wf:
  assumes wf: "wf_sshbuf b" and safe: "reset_safe b"
  shows "wf_sshbuf (sshbuf_reset lc b) \<and> contents (sshbuf_reset lc b) = []"
proof (cases "b_readonly b \<or> b_refcount b > 1")
  case True
  then show ?thesis
    using wf by (auto simp: sshbuf_reset_def wf_sshbuf_def sshbuf_insane_def contents_def)
next
  case False
  then show ?thesis
    using wf_sshbufD[OF wf] safe
    by (auto simp: sshbuf_reset_def Let_def reset_safe_def contents_def wf_sshbuf_def
        sshbuf_insane_def split: option.splits)
qed

lemma reset_insane:
  assumes wf: "wf_sshbuf b" and "writable b" and "b_max_size b < SSHBUF_SIZE_INIT"
    and "recallocarray lc (b_d b) (b_mem b) SSHBUF_SIZE_INIT 1 = Some y"
  shows "sshbuf_insane (sshbuf_reset lc b)"
proof -
  have "b_alloc b \<noteq> SSHBUF_SIZE_INIT" using assms(3) wf_sshbufD(5)[OF wf] by simp
  then show ?thesis
    using assms wf_sshbufD[OF wf]
    by (cases y) (simp add: sshbuf_reset_def Let_def writable_def sshbuf_insane_def)
qed

section \<open>Operations keep the invariant\<close>

lemma keeps_wf_allocate [keeps_rules]: "keeps wf_sshbuf (sshbuf_allocate lc len)"
  by (rule keepsI) (metis allocate_spec prod.collapse)

lemma keeps_wf_reserve [keeps_rules]: "keeps wf_sshbuf (sshbuf_reserve lc len)"
proof (rule keepsI)
  fix b assume wf: "wf_sshbuf b"
  obtain r b' where run: "sshbuf_reserve lc len b = (r, b')" by fastforce
  then show "wf_sshbuf (snd (sshbuf_reserve lc len b))"
    using reserve_spec[OF wf run] by (cases r) auto
qed

lemma keeps_wf_consume [keeps_rules]: "keeps wf_sshbuf (sshbuf_consume len)"
  by (rule keepsI) (metis consume_spec linorder_not_le snd_conv)

lemma keeps_wf_consume_end [keeps_rules]: "keeps wf_sshbuf (sshbuf_consume_end len)"
  by (rule keepsI) (metis consume_end_spec linorder_not_le snd_conv)

lemma keeps_wf_set_max_size [keeps_rules]: "keeps wf_sshbuf (sshbuf_set_max_size lc n)"
  by (rule keepsI) (metis set_max_size_spec prod.collapse)

lemma keeps_wf_check_reserve [keeps_rules]: "keeps wf_sshbuf (sshbuf_check_reserve len)"
  by (rule keepsI) (simp add: check_reserve_same)

lemma keeps_wf_consume_upto_child [keeps_rules]:
  "keeps wf_sshbuf (sshbuf_consume_upto_child child)"
  using keeps_wf_consume
  by (auto simp: sshbuf_consume_upto_child_def keeps_def)

end
