(* ===== verification/SshbufGetput.thy ===== *)
theory SshbufGetput
  imports Sshbuf
begin

unbundle bit_operations_syntax

text \<open>
  The wire encodings over a buffer: \<^verbatim>\<open>sshbuf-getput-basic.c\<close>, the search and comparison
  functions of \<^verbatim>\<open>sshbuf-misc.c\<close> it rests on, and the \<^verbatim>\<open>PEEK\<close>/\<^verbatim>\<open>POKE\<close> macros of
  \<^verbatim>\<open>sshbuf.h\<close>. Functions that hand out a value through a pointer argument return it.
\<close>

section \<open>Integers in network byte order\<close>

definition PEEK_U64 :: "byte list \<Rightarrow> 64 word" where
  "PEEK_U64 p =
     push_bit 56 (ucast (p ! 0)) OR push_bit 48 (ucast (p ! 1)) OR
     push_bit 40 (ucast (p ! 2)) OR push_bit 32 (ucast (p ! 3)) OR
     push_bit 24 (ucast (p ! 4)) OR push_bit 16 (ucast (p ! 5)) OR
     push_bit 8 (ucast (p ! 6)) OR ucast (p ! 7)"

definition PEEK_U32 :: "byte list \<Rightarrow> 32 word" where
  "PEEK_U32 p =
     push_bit 24 (ucast (p ! 0)) OR push_bit 16 (ucast (p ! 1)) OR
     push_bit 8 (ucast (p ! 2)) OR ucast (p ! 3)"

definition PEEK_U16 :: "byte list \<Rightarrow> 16 word" where
  "PEEK_U16 p = push_bit 8 (ucast (p ! 0)) OR ucast (p ! 1)"

definition POKE_U64 :: "64 word \<Rightarrow> byte list" where
  "POKE_U64 v =
     [ucast (drop_bit 56 v AND 0xff), ucast (drop_bit 48 v AND 0xff),
      ucast (drop_bit 40 v AND 0xff), ucast (drop_bit 32 v AND 0xff),
      ucast (drop_bit 24 v AND 0xff), ucast (drop_bit 16 v AND 0xff),
      ucast (drop_bit 8 v AND 0xff), ucast (v AND 0xff)]"

definition POKE_U32 :: "32 word \<Rightarrow> byte list" where
  "POKE_U32 v =
     [ucast (drop_bit 24 v AND 0xff), ucast (drop_bit 16 v AND 0xff),
      ucast (drop_bit 8 v AND 0xff), ucast (v AND 0xff)]"

definition POKE_U16 :: "16 word \<Rightarrow> byte list" where
  "POKE_U16 v = [ucast (drop_bit 8 v AND 0xff), ucast (v AND 0xff)]"

section \<open>Reading\<close>

definition sshbuf_get :: "nat \<Rightarrow> (sshbuf, byte list) op" where
  "sshbuf_get len b =
     bind_op (sshbuf_consume len)
       (\<lambda>_. if sshbuf_ptr b = None then err SSH_ERR_INTERNAL_ERROR else ret (mem_read 0 len b)) b"

definition sshbuf_get_u64 :: "(sshbuf, 64 word) op" where
  "sshbuf_get_u64 b =
     bind_op (sshbuf_consume 8)
       (\<lambda>_. if sshbuf_ptr b = None then err SSH_ERR_INTERNAL_ERROR
            else ret (PEEK_U64 (mem_read 0 8 b))) b"

definition sshbuf_get_u32 :: "(sshbuf, 32 word) op" where
  "sshbuf_get_u32 b =
     bind_op (sshbuf_consume 4)
       (\<lambda>_. if sshbuf_ptr b = None then err SSH_ERR_INTERNAL_ERROR
            else ret (PEEK_U32 (mem_read 0 4 b))) b"

definition sshbuf_get_u16 :: "(sshbuf, 16 word) op" where
  "sshbuf_get_u16 b =
     bind_op (sshbuf_consume 2)
       (\<lambda>_. if sshbuf_ptr b = None then err SSH_ERR_INTERNAL_ERROR
            else ret (PEEK_U16 (mem_read 0 2 b))) b"

definition sshbuf_get_u8 :: "(sshbuf, byte) op" where
  "sshbuf_get_u8 b =
     bind_op (sshbuf_consume 1)
       (\<lambda>_. if sshbuf_ptr b = None then err SSH_ERR_INTERNAL_ERROR
            else ret (mem_read 0 1 b ! 0)) b"

definition check_offset :: "sshbuf \<Rightarrow> bool \<Rightarrow> nat \<Rightarrow> nat \<Rightarrow> ssherr + unit" where
  "check_offset b wr offset len =
     (if sshbuf_ptr b = None then Inl SSH_ERR_INTERNAL_ERROR
      else if offset \<ge> SIZE_MAX - len then Inl SSH_ERR_INVALID_ARGUMENT
      else if offset + len > sshbuf_len b then
        Inl (if wr then SSH_ERR_NO_BUFFER_SPACE else SSH_ERR_MESSAGE_INCOMPLETE)
      else Inr ())"

text \<open>\<^verbatim>\<open>check_roffset\<close>: the bytes at the checked offset.\<close>

definition check_roffset :: "sshbuf \<Rightarrow> nat \<Rightarrow> nat \<Rightarrow> ssherr + byte list" where
  "check_roffset b offset len =
     (case check_offset b False offset len of
        Inl e \<Rightarrow> Inl e
      | Inr _ \<Rightarrow> Inr (mem_read offset len b))"

definition sshbuf_peek_u64 :: "sshbuf \<Rightarrow> nat \<Rightarrow> ssherr + 64 word" where
  "sshbuf_peek_u64 b offset = map_sum id PEEK_U64 (check_roffset b offset 8)"

definition sshbuf_peek_u32 :: "sshbuf \<Rightarrow> nat \<Rightarrow> ssherr + 32 word" where
  "sshbuf_peek_u32 b offset = map_sum id PEEK_U32 (check_roffset b offset 4)"

definition sshbuf_peek_u16 :: "sshbuf \<Rightarrow> nat \<Rightarrow> ssherr + 16 word" where
  "sshbuf_peek_u16 b offset = map_sum id PEEK_U16 (check_roffset b offset 2)"

definition sshbuf_peek_u8 :: "sshbuf \<Rightarrow> nat \<Rightarrow> ssherr + byte" where
  "sshbuf_peek_u8 b offset = map_sum id (\<lambda>p. p ! 0) (check_roffset b offset 1)"

text \<open>
  \<^verbatim>\<open>sshbuf_peek_string_direct\<close>: the length-prefixed string at the front, as the bytes at
  the returned pointer.
\<close>

definition sshbuf_peek_string_direct :: "sshbuf \<Rightarrow> ssherr + byte list" where
  "sshbuf_peek_string_direct b =
     (if sshbuf_len b < 4 then Inl SSH_ERR_MESSAGE_INCOMPLETE
      else if sshbuf_ptr b = None then Inl SSH_ERR_INTERNAL_ERROR
      else
        (let len = unat (PEEK_U32 (mem_read 0 4 b))
         in if len > SSHBUF_SIZE_MAX - 4 then Inl SSH_ERR_STRING_TOO_LARGE
            else if sshbuf_len b - 4 < len then Inl SSH_ERR_MESSAGE_INCOMPLETE
            else Inr (mem_read 4 len b)))"

definition sshbuf_get_string_direct :: "(sshbuf, byte list) op" where
  "sshbuf_get_string_direct b =
     (case sshbuf_peek_string_direct b of
        Inl e \<Rightarrow> (Inl e, b)
      | Inr val \<Rightarrow>
          (case sshbuf_consume (length val + 4) b of
             (Inl _, b') \<Rightarrow> (Inl SSH_ERR_INTERNAL_ERROR, b')
           | (Inr _, b') \<Rightarrow> (Inr val, b')))"

text \<open>\<^verbatim>\<open>sshbuf_get_string\<close> copies the string; the buffer is consumed even if that fails.\<close>

definition sshbuf_get_string :: "libc \<Rightarrow> (sshbuf, byte list) op" where
  "sshbuf_get_string lc =
     bind_op sshbuf_get_string_direct (\<lambda>val.
       if malloc lc (length val + 1) = None then err SSH_ERR_ALLOC_FAIL else ret val)"

fun memchr :: "byte \<Rightarrow> byte list \<Rightarrow> nat option" where
  "memchr c [] = None"
| "memchr c (x # xs) = (if x = c then Some 0 else map_option Suc (memchr c xs))"

definition sshbuf_get_cstring :: "libc \<Rightarrow> (sshbuf, byte list) op" where
  "sshbuf_get_cstring lc b =
     (case sshbuf_peek_string_direct b of
        Inl e \<Rightarrow> (Inl e, b)
      | Inr p \<Rightarrow>
          if length p > 0 \<and> (case memchr 0 p of None \<Rightarrow> False | Some z \<Rightarrow> z < length p - 1)
          then (Inl SSH_ERR_INVALID_FORMAT, b)
          else
            (case sshbuf_get_string_direct b of
               (Inl _, b') \<Rightarrow> (Inl SSH_ERR_INTERNAL_ERROR, b')
             | (Inr _, b') \<Rightarrow>
                 (if malloc lc (length p + 1) = None then Inl SSH_ERR_ALLOC_FAIL else Inr p, b')))"

section \<open>Writing\<close>

definition sshbuf_put :: "libc \<Rightarrow> byte list \<Rightarrow> (sshbuf, unit) op" where
  "sshbuf_put lc v =
     bind_op (sshbuf_reserve lc (length v)) (\<lambda>p. modify_op (mem_write p v))"

text \<open>\<^verbatim>\<open>sshbuf_putb(buf, v)\<close>; \<^const>\<open>None\<close> is a \<^verbatim>\<open>NULL\<close> second buffer.\<close>

definition sshbuf_putb :: "libc \<Rightarrow> sshbuf option \<Rightarrow> (sshbuf, unit) op" where
  "sshbuf_putb lc v =
     (case v of
        None \<Rightarrow> ret ()
      | Some w \<Rightarrow> sshbuf_put lc (mem_read 0 (sshbuf_len w) w))"

text \<open>
  \<^verbatim>\<open>sshbuf_putfv\<close>: \<open>out\<close> is what \<^verbatim>\<open>vsnprintf\<close> formats, \<^const>\<open>None\<close> if it reports an error.
\<close>

definition sshbuf_putfv :: "libc \<Rightarrow> byte list option \<Rightarrow> (sshbuf, unit) op" where
  "sshbuf_putfv lc out =
     (case out of
        None \<Rightarrow> err SSH_ERR_INVALID_ARGUMENT
      | Some s \<Rightarrow>
          if length s = 0 then ret ()
          else bind_op (sshbuf_reserve lc (length s + 1)) (\<lambda>p.
               bind_op (modify_op (mem_write p (s @ [0]))) (\<lambda>_.
               sshbuf_consume_end 1)))"

definition sshbuf_putf :: "libc \<Rightarrow> byte list option \<Rightarrow> (sshbuf, unit) op" where
  "sshbuf_putf lc out = sshbuf_putfv lc out"

definition sshbuf_put_u64 :: "libc \<Rightarrow> 64 word \<Rightarrow> (sshbuf, unit) op" where
  "sshbuf_put_u64 lc val =
     bind_op (sshbuf_reserve lc 8) (\<lambda>p. modify_op (mem_write p (POKE_U64 val)))"

definition sshbuf_put_u32 :: "libc \<Rightarrow> 32 word \<Rightarrow> (sshbuf, unit) op" where
  "sshbuf_put_u32 lc val =
     bind_op (sshbuf_reserve lc 4) (\<lambda>p. modify_op (mem_write p (POKE_U32 val)))"

definition sshbuf_put_u16 :: "libc \<Rightarrow> 16 word \<Rightarrow> (sshbuf, unit) op" where
  "sshbuf_put_u16 lc val =
     bind_op (sshbuf_reserve lc 2) (\<lambda>p. modify_op (mem_write p (POKE_U16 val)))"

definition sshbuf_put_u8 :: "libc \<Rightarrow> byte \<Rightarrow> (sshbuf, unit) op" where
  "sshbuf_put_u8 lc val =
     bind_op (sshbuf_reserve lc 1) (\<lambda>p. modify_op (mem_write p [val]))"

text \<open>\<^verbatim>\<open>check_woffset\<close>: where to write, as an index into the allocation.\<close>

definition check_woffset :: "sshbuf \<Rightarrow> nat \<Rightarrow> nat \<Rightarrow> ssherr + nat" where
  "check_woffset b offset len =
     (case check_offset b True offset len of
        Inl e \<Rightarrow> Inl e
      | Inr _ \<Rightarrow>
          if sshbuf_mutable_ptr b = None then Inl SSH_ERR_BUFFER_READ_ONLY
          else Inr (b_off b + offset))"

definition sshbuf_poke :: "nat \<Rightarrow> byte list \<Rightarrow> (sshbuf, unit) op" where
  "sshbuf_poke offset v b =
     (case check_woffset b offset (length v) of
        Inl e \<Rightarrow> (Inl e, b)
      | Inr p \<Rightarrow> (Inr (), mem_write p v b))"

definition sshbuf_poke_u64 :: "nat \<Rightarrow> 64 word \<Rightarrow> (sshbuf, unit) op" where
  "sshbuf_poke_u64 offset val b =
     (case check_woffset b offset 8 of
        Inl e \<Rightarrow> (Inl e, b)
      | Inr p \<Rightarrow> (Inr (), mem_write p (POKE_U64 val) b))"

definition sshbuf_poke_u32 :: "nat \<Rightarrow> 32 word \<Rightarrow> (sshbuf, unit) op" where
  "sshbuf_poke_u32 offset val b =
     (case check_woffset b offset 4 of
        Inl e \<Rightarrow> (Inl e, b)
      | Inr p \<Rightarrow> (Inr (), mem_write p (POKE_U32 val) b))"

definition sshbuf_poke_u16 :: "nat \<Rightarrow> 16 word \<Rightarrow> (sshbuf, unit) op" where
  "sshbuf_poke_u16 offset val b =
     (case check_woffset b offset 2 of
        Inl e \<Rightarrow> (Inl e, b)
      | Inr p \<Rightarrow> (Inr (), mem_write p (POKE_U16 val) b))"

definition sshbuf_poke_u8 :: "nat \<Rightarrow> byte \<Rightarrow> (sshbuf, unit) op" where
  "sshbuf_poke_u8 offset val b =
     (case check_woffset b offset 1 of
        Inl e \<Rightarrow> (Inl e, b)
      | Inr p \<Rightarrow> (Inr (), mem_write p [val] b))"

definition sshbuf_put_string :: "libc \<Rightarrow> byte list \<Rightarrow> (sshbuf, unit) op" where
  "sshbuf_put_string lc v =
     (let len = length v
      in if len > SSHBUF_SIZE_MAX - 4 then err SSH_ERR_NO_BUFFER_SPACE
         else bind_op (sshbuf_reserve lc (len + 4)) (\<lambda>d.
              bind_op (modify_op (mem_write d (POKE_U32 (of_nat len)))) (\<lambda>_.
              modify_op (mem_write (d + 4) v))))"

text \<open>\<^verbatim>\<open>sshbuf_put_cstring\<close> of a C string: the bytes before the first NUL; \<^verbatim>\<open>NULL\<close> is empty.\<close>

definition sshbuf_put_cstring :: "libc \<Rightarrow> byte list option \<Rightarrow> (sshbuf, unit) op" where
  "sshbuf_put_cstring lc v =
     sshbuf_put_string lc (case v of None \<Rightarrow> [] | Some s \<Rightarrow> takeWhile (\<lambda>x. x \<noteq> 0) s)"

definition sshbuf_put_stringb :: "libc \<Rightarrow> sshbuf option \<Rightarrow> (sshbuf, unit) op" where
  "sshbuf_put_stringb lc v =
     (case v of
        None \<Rightarrow> sshbuf_put_string lc []
      | Some w \<Rightarrow> sshbuf_put_string lc (mem_read 0 (sshbuf_len w) w))"

text \<open>
  \<^verbatim>\<open>sshbuf_get_stringb(buf, v)\<close> moves a string from the first buffer to the second; the
  object of the operation is the pair of both.
\<close>

definition sshbuf_get_stringb :: "libc \<Rightarrow> (sshbuf \<times> sshbuf, unit) op" where
  "sshbuf_get_stringb lc bv =
     (case bv of (b, v) \<Rightarrow>
       (case sshbuf_peek_string_direct b of
          Inl e \<Rightarrow> (Inl e, (b, v))
        | Inr _ \<Rightarrow>
            (case sshbuf_get_u32 b of
               (Inl e, b1) \<Rightarrow> (Inl e, (b1, v))
             | (Inr len, b1) \<Rightarrow>
                 (case sshbuf_reserve lc (unat len) v of
                    (Inl e, v1) \<Rightarrow> (Inl e, (b1, v1))
                  | (Inr p, v1) \<Rightarrow>
                      (case sshbuf_get (unat len) b1 of
                         (Inl e, b2) \<Rightarrow> (Inl e, (b2, v1))
                       | (Inr s, b2) \<Rightarrow> (Inr (), (b2, mem_write p s v1)))))))"

section \<open>Multiple-precision integers\<close>

definition SSHBUF_MAX_BIGNUM :: nat where
  "SSHBUF_MAX_BIGNUM = 16384 div 8"

definition sshbuf_put_bignum2_bytes :: "libc \<Rightarrow> byte list \<Rightarrow> (sshbuf, unit) op" where
  "sshbuf_put_bignum2_bytes lc v =
     (if length v > SSHBUF_SIZE_MAX - 5 then err SSH_ERR_NO_BUFFER_SPACE
      else
        (let s = dropWhile (\<lambda>x. x = 0) v; len = length s;
             prepend = (len > 0 \<and> s ! 0 AND 0x80 \<noteq> 0);
             n = len + (if prepend then 1 else 0)
         in bind_op (sshbuf_reserve lc (n + 4)) (\<lambda>d.
            bind_op (modify_op (mem_write d (POKE_U32 (of_nat n)))) (\<lambda>_.
            bind_op (if prepend then modify_op (mem_write (d + 4) [0]) else ret ()) (\<lambda>_.
            modify_op (mem_write (d + 4 + (if prepend then 1 else 0)) s))))))"

definition sshbuf_get_bignum2_bytes_direct :: "(sshbuf, byte list) op" where
  "sshbuf_get_bignum2_bytes_direct b =
     (case sshbuf_peek_string_direct b of
        Inl e \<Rightarrow> (Inl e, b)
      | Inr d \<Rightarrow>
          (let olen = length d
           in if olen \<noteq> 0 \<and> d ! 0 AND 0x80 \<noteq> 0 then (Inl SSH_ERR_BIGNUM_IS_NEGATIVE, b)
              else if olen > SSHBUF_MAX_BIGNUM + 1 \<or>
                      (olen = SSHBUF_MAX_BIGNUM + 1 \<and> d ! 0 \<noteq> 0)
                then (Inl SSH_ERR_BIGNUM_TOO_LARGE, b)
              else
                (case sshbuf_consume (olen + 4) b of
                   (Inl _, b') \<Rightarrow> (Inl SSH_ERR_INTERNAL_ERROR, b')
                 | (Inr _, b') \<Rightarrow> (Inr (dropWhile (\<lambda>x. x = 0) d), b'))))"

section \<open>Searching and comparing\<close>

text \<open>\<^verbatim>\<open>memmem\<close>: the first offset at which \<open>s\<close> occurs in \<open>xs\<close>.\<close>

fun memmem :: "byte list \<Rightarrow> byte list \<Rightarrow> nat option" where
  "memmem [] s = (if s = [] then Some 0 else None)"
| "memmem (x # xs) s =
     (if take (length s) (x # xs) = s then Some 0 else map_option Suc (memmem xs s))"

definition sshbuf_find :: "sshbuf \<Rightarrow> nat \<Rightarrow> byte list \<Rightarrow> ssherr + nat" where
  "sshbuf_find b start_offset s =
     (let len = length s
      in if sshbuf_ptr b = None then Inl SSH_ERR_INTERNAL_ERROR
         else if start_offset > SSHBUF_SIZE_MAX \<or> len > SSHBUF_SIZE_MAX \<or> len = 0 then
           Inl SSH_ERR_INVALID_ARGUMENT
         else if start_offset > sshbuf_len b \<or> start_offset + len > sshbuf_len b then
           Inl SSH_ERR_MESSAGE_INCOMPLETE
         else
           (case memmem (mem_read start_offset (sshbuf_len b - start_offset) b) s of
              None \<Rightarrow> Inl SSH_ERR_INVALID_FORMAT
            | Some p \<Rightarrow> Inr (start_offset + p)))"

definition sshbuf_cmp :: "sshbuf \<Rightarrow> nat \<Rightarrow> byte list \<Rightarrow> ssherr + unit" where
  "sshbuf_cmp b offset s =
     (let len = length s
      in if sshbuf_ptr b = None then Inl SSH_ERR_INTERNAL_ERROR
         else if offset > SSHBUF_SIZE_MAX \<or> len > SSHBUF_SIZE_MAX \<or> len = 0 then
           Inl SSH_ERR_INVALID_ARGUMENT
         else if offset + len > sshbuf_len b then Inl SSH_ERR_MESSAGE_INCOMPLETE
         else if mem_read offset len b \<noteq> s then Inl SSH_ERR_INVALID_FORMAT
         else Inr ())"

definition sshbuf_equals :: "sshbuf \<Rightarrow> sshbuf \<Rightarrow> ssherr + unit" where
  "sshbuf_equals a b =
     (if sshbuf_ptr a = None \<or> sshbuf_ptr b = None then Inl SSH_ERR_INTERNAL_ERROR
      else if sshbuf_len a \<noteq> sshbuf_len b then Inl SSH_ERR_MESSAGE_INCOMPLETE
      else if sshbuf_len a = 0 then Inr ()
      else if mem_read 0 (sshbuf_len a) a \<noteq> mem_read 0 (sshbuf_len a) b then
        Inl SSH_ERR_INVALID_FORMAT
      else Inr ())"

definition sshbuf_dup_string :: "libc \<Rightarrow> sshbuf \<Rightarrow> byte list option" where
  "sshbuf_dup_string lc b =
     (let l = sshbuf_len b; s = mem_read 0 l b
      in if sshbuf_ptr b = None \<or> l \<ge> SIZE_MAX then None
         else
           (case (if l > 0 then memchr 0 s else None) of
              Some p \<Rightarrow> if p \<noteq> l - 1 then None
                        else if malloc lc (l - 1 + 1) = None then None else Some (take (l - 1) s)
            | None \<Rightarrow> if malloc lc (l + 1) = None then None else Some s))"

text \<open>
  \<^verbatim>\<open>sshbuf_get_nulterminated_string\<close>; \<^verbatim>\<open>strdup\<close> needs the string and its terminator.
\<close>

definition sshbuf_get_nulterminated_string :: "libc \<Rightarrow> nat \<Rightarrow> (sshbuf, byte list) op" where
  "sshbuf_get_nulterminated_string lc maxlen b =
     (case sshbuf_find b 0 [0] of
        Inl r \<Rightarrow> (Inl (if r = SSH_ERR_INVALID_FORMAT \<and> sshbuf_len b < maxlen
                        then SSH_ERR_MESSAGE_INCOMPLETE else r), b)
      | Inr len \<Rightarrow>
          if len > maxlen then (Inl SSH_ERR_INVALID_FORMAT, b)
          else if malloc lc (len + 1) = None then (Inl SSH_ERR_ALLOC_FAIL, b)
          else
            (case sshbuf_consume (len + 1) b of
               (Inl e, b') \<Rightarrow> (Inl e, b')
             | (Inr _, b') \<Rightarrow> (Inr (mem_read 0 len b), b')))"

section \<open>Byte order\<close>

lemma length_POKE [simp]:
  "length (POKE_U64 x) = 8" "length (POKE_U32 y) = 4" "length (POKE_U16 z) = 2"
  by (simp_all add: POKE_U64_def POKE_U32_def POKE_U16_def)

lemma byte_at:
  "push_bit k (ucast (ucast (drop_bit k v AND 0xff) :: byte)) = v AND push_bit k (0xff :: 'a::len word)"
proof (rule bit_word_eqI)
  have m: "(0xff :: 'b::len word) = mask 8" by (simp add: mask_eq_exp_minus_1)
  fix n assume "n < LENGTH('a)"
  then show "bit (push_bit k (ucast (ucast (drop_bit k v AND 0xff) :: byte) :: 'a word)) n =
             bit (v AND push_bit k 0xff) n"
    unfolding m by (auto simp: bit_simps)
qed

lemma byte_at_0: "ucast (ucast (v AND 0xff) :: byte) = (v AND 0xff :: 'a::len word)"
  using byte_at[of 0 v] by simp

lemma and_all_ones:
  "v AND 0xffff = (v :: 16 word)" "w AND 0xffffffff = (w :: 32 word)"
  "x AND 0xffffffffffffffff = (x :: 64 word)"
  using take_bit_word_eq_self[of 16 v] take_bit_word_eq_self[of 32 w] take_bit_word_eq_self[of 64 x]
  by (simp_all add: take_bit_eq_mask mask_eq_exp_minus_1)

lemma PEEK_Cons:
  "PEEK_U64 (a # b # c # d # e # f # g # h # r) =
     push_bit 56 (ucast a) OR push_bit 48 (ucast b) OR push_bit 40 (ucast c) OR
     push_bit 32 (ucast d) OR push_bit 24 (ucast e) OR push_bit 16 (ucast f) OR
     push_bit 8 (ucast g) OR ucast h"
  "PEEK_U32 (a # b # c # d # r) =
     push_bit 24 (ucast a) OR push_bit 16 (ucast b) OR push_bit 8 (ucast c) OR ucast d"
  "PEEK_U16 (a # b # r) = push_bit 8 (ucast a) OR ucast b"
  by (simp_all add: PEEK_U64_def PEEK_U32_def PEEK_U16_def)

lemma PEEK_POKE_U16 [simp]: "PEEK_U16 (POKE_U16 v @ r) = v"
proof -
  have "PEEK_U16 (POKE_U16 v @ r) = v AND (push_bit 8 0xff OR 0xff)"
    unfolding POKE_U16_def append.simps PEEK_Cons byte_at
    unfolding byte_at_0 bit.conj_disj_distrib by (rule refl)
  also have "\<dots> = v" by (simp add: and_all_ones)
  finally show ?thesis .
qed

lemma PEEK_POKE_U32 [simp]: "PEEK_U32 (POKE_U32 v @ r) = v"
proof -
  have "PEEK_U32 (POKE_U32 v @ r) =
      v AND (push_bit 24 0xff OR push_bit 16 0xff OR push_bit 8 0xff OR 0xff)"
    unfolding POKE_U32_def append.simps PEEK_Cons byte_at
    unfolding byte_at_0 bit.conj_disj_distrib by (rule refl)
  also have "\<dots> = v" by (simp add: and_all_ones)
  finally show ?thesis .
qed

lemma PEEK_POKE_U64 [simp]: "PEEK_U64 (POKE_U64 v @ r) = v"
proof -
  have "PEEK_U64 (POKE_U64 v @ r) =
      v AND (push_bit 56 0xff OR push_bit 48 0xff OR push_bit 40 0xff OR push_bit 32 0xff OR
             push_bit 24 0xff OR push_bit 16 0xff OR push_bit 8 0xff OR 0xff)"
    unfolding POKE_U64_def append.simps PEEK_Cons byte_at
    unfolding byte_at_0 bit.conj_disj_distrib by (rule refl)
  also have "\<dots> = v" by (simp add: and_all_ones)
  finally show ?thesis .
qed

lemma PEEK_POKE [simp]:
  "PEEK_U64 (POKE_U64 x) = x" "PEEK_U32 (POKE_U32 y) = y" "PEEK_U16 (POKE_U16 z) = z"
  using PEEK_POKE_U64[of x "[]"] PEEK_POKE_U32[of y "[]"] PEEK_POKE_U16[of z "[]"] by simp_all

lemma PEEK_take [simp]:
  "PEEK_U64 (take 8 p) = PEEK_U64 p" "PEEK_U32 (take 4 p) = PEEK_U32 p"
  "PEEK_U16 (take 2 p) = PEEK_U16 p"
  by (simp_all add: PEEK_U64_def PEEK_U32_def PEEK_U16_def)

section \<open>Reading is reading the contents\<close>

lemma wf_ptr [simp]: "wf_sshbuf b \<Longrightarrow> sshbuf_ptr b \<noteq> None"
  using wf_sshbufD(1,8)[of b] by (simp add: sshbuf_ptr_def)

lemma wf_mutable_ptr: "wf_sshbuf b \<Longrightarrow> sshbuf_mutable_ptr b \<noteq> None \<longleftrightarrow> writable b"
  using wf_sshbufD(1,8,9)[of b] by (auto simp: sshbuf_mutable_ptr_def writable_def)

lemma mem_read_contents:
  assumes "wf_sshbuf b" and "i + n \<le> length (contents b)"
  shows "mem_read i n b = take n (drop i (contents b))"
  using assms(2) wf_sshbufD(3)[OF assms(1)] unfolding length_contents[OF assms(1)]
  by (simp add: mem_read_def contents_def drop_take min_def add.commute)

lemma get_spec:
  assumes wf: "wf_sshbuf b"
  shows "n \<le> length (contents b) \<Longrightarrow>
           \<exists>b'. sshbuf_get n b = (Inr (take n (contents b)), b') \<and> wf_sshbuf b' \<and>
                contents b' = drop n (contents b)"
    and "n > length (contents b) \<Longrightarrow> sshbuf_get n b = (Inl SSH_ERR_MESSAGE_INCOMPLETE, b)"
  using consume_spec[OF wf, of n] wf mem_read_contents[OF wf, of 0 n]
  by (auto simp: sshbuf_get_def bind_op_def op_simps simp del: length_contents)

lemma put_spec:
  assumes wf: "wf_sshbuf b" and run: "sshbuf_put lc v b = (r, b')"
  shows "wf_sshbuf b' \<and>
         (case r of Inr _ \<Rightarrow> contents b' = contents b @ v
                  | Inl e \<Rightarrow> e = reserve_error b (length v) \<and> contents b' = contents b)"
proof -
  obtain q c where res: "sshbuf_reserve lc (length v) b = (q, c)" by fastforce
  show ?thesis
  proof (cases q)
    case (Inl e)
    then show ?thesis
      using run res reserve_spec[OF wf res] by (auto simp: sshbuf_put_def bind_op_def)
  next
    case (Inr i)
    then show ?thesis
      using run res reserve_write_spec[OF wf, of lc v i c]
      by (auto simp: sshbuf_put_def bind_op_def op_simps)
  qed
qed

lemma put_succeeds:
  assumes "wf_sshbuf b" and "\<And>n. malloc lc n \<noteq> None" and "writable b"
    and "length v + length (contents b) \<le> b_max_size b"
  shows "\<exists>b'. sshbuf_put lc v b = (Inr (), b')"
  using allocate_succeeds[OF assms]
  by (auto simp: sshbuf_put_def sshbuf_reserve_def bind_op_def op_simps)

lemma put_Inr_bound:
  assumes "wf_sshbuf b" and "sshbuf_put lc v b = (Inr (), b')"
  shows "length (contents b) + length v \<le> SSHBUF_SIZE_MAX"
  using put_spec[OF assms] contents_SIZE_MAX[of b'] by auto

section \<open>The buffer as a byte queue\<close>

text \<open>
  What the encoders and decoders rely on: a fallible append at the back, and a read of
  \<open>n\<close> bytes from the front that fails without effect when there are fewer.
\<close>

locale wire_buffer =
  fixes invar :: "'b \<Rightarrow> bool"
    and view :: "'b \<Rightarrow> byte list"
    and put :: "byte list \<Rightarrow> ('b, unit) op"
    and get :: "nat \<Rightarrow> ('b, byte list) op"
  assumes put_Inr: "invar b \<Longrightarrow> put v b = (Inr (), b') \<Longrightarrow> invar b' \<and> view b' = view b @ v"
    and put_Inl: "invar b \<Longrightarrow> put v b = (Inl e, b') \<Longrightarrow> invar b' \<and> view b' = view b"
    and get_Inr: "invar b \<Longrightarrow> n \<le> length (view b) \<Longrightarrow>
                  \<exists>b'. get n b = (Inr (take n (view b)), b') \<and> invar b' \<and> view b' = drop n (view b)"
    and get_Inl: "invar b \<Longrightarrow> n > length (view b) \<Longrightarrow> get n b = (Inl SSH_ERR_MESSAGE_INCOMPLETE, b)"
begin

lemma seq_put_view:
  "invar b \<Longrightarrow> seq_op put vs b = (Inr (), b') \<Longrightarrow> invar b' \<and> view b' = view b @ concat vs"
proof (induction vs arbitrary: b)
  case Nil
  then show ?case by (simp add: op_simps)
next
  case (Cons v vs)
  from Cons.prems(2) obtain b1 where "put v b = (Inr (), b1)" and "seq_op put vs b1 = (Inr (), b')"
    by (auto elim: bind_op_InrE)
  then show ?case using put_Inr Cons.IH[of b1] Cons.prems(1) by auto
qed

lemma map_get_view:
  "invar b \<Longrightarrow> view b = concat vs @ rest \<Longrightarrow>
   \<exists>b'. map_op get (map length vs) b = (Inr vs, b') \<and> invar b' \<and> view b' = rest"
proof (induction vs arbitrary: b)
  case Nil
  then show ?case by (simp add: op_simps)
next
  case (Cons v vs)
  then obtain b1 where b1: "get (length v) b = (Inr v, b1)" "invar b1" "view b1 = concat vs @ rest"
    using get_Inr[of b "length v"] by auto
  from Cons.IH[OF b1(2,3)] obtain b' where
    "map_op get (map length vs) b1 = (Inr vs, b')" "invar b'" "view b' = rest" by blast
  then show ?case using b1 by (simp add: bind_op_def op_simps)
qed

text \<open>First in, first out: fields written to a buffer come back in order, after what it held.\<close>

lemma fifo:
  assumes "invar b" and "seq_op put vs b = (Inr (), b1)"
  shows "\<exists>b'. map_op get (length (view b) # map length vs) b1 = (Inr (view b # vs), b') \<and> view b' = []"
proof -
  have "invar b1" and "view b1 = concat (view b # vs) @ []"
    using seq_put_view[OF assms] by auto
  then show ?thesis using map_get_view[of b1 "view b # vs" "[]"] by auto
qed

end

interpretation sb: wire_buffer wf_sshbuf contents "sshbuf_put lc" sshbuf_get for lc
proof unfold_locales
  show "wf_sshbuf b' \<and> contents b' = contents b @ v"
    if "wf_sshbuf b" "sshbuf_put lc v b = (Inr (), b')" for b v b'
    using put_spec[OF that] by simp
  show "wf_sshbuf b' \<and> contents b' = contents b"
    if "wf_sshbuf b" "sshbuf_put lc v b = (Inl e, b')" for b v e b'
    using put_spec[OF that] by simp
qed (fact get_spec)+

section \<open>Every writer is an append of an encoding\<close>

lemma mem_write_seq:
  assumes "i + length x \<le> length (b_mem b)"
  shows "mem_write (i + length x) y (mem_write i x b) = mem_write i (x @ y) b"
proof -
  have "min (length (b_mem b)) i = i" using assms by simp
  then show ?thesis by (simp add: mem_write_def ac_simps)
qed

lemma put_ints_eq:
  "sshbuf_put_u64 lc x = sshbuf_put lc (POKE_U64 x)"
  "sshbuf_put_u32 lc y = sshbuf_put lc (POKE_U32 y)"
  "sshbuf_put_u16 lc z = sshbuf_put lc (POKE_U16 z)"
  "sshbuf_put_u8 lc w = sshbuf_put lc [w]"
  by (simp_all add: sshbuf_put_u64_def sshbuf_put_u32_def sshbuf_put_u16_def sshbuf_put_u8_def
      sshbuf_put_def)

text \<open>The encoding of a string: its length as a 32-bit integer, then its bytes.\<close>

definition enc_string :: "byte list \<Rightarrow> byte list" where
  "enc_string v = POKE_U32 (of_nat (length v)) @ v"

lemma length_enc_string [simp]: "length (enc_string v) = 4 + length v"
  by (simp add: enc_string_def)

lemma reserve_room:
  assumes "wf_sshbuf b" and "sshbuf_reserve lc n b = (Inr d, b')"
  shows "d + n \<le> length (b_mem b')"
  using reserve_spec[OF assms] wf_sshbufD(2,4)[of b'] by simp

lemma put_string_eq:
  assumes wf: "wf_sshbuf b" and len: "length v \<le> SSHBUF_SIZE_MAX - 4"
  shows "sshbuf_put_string lc v b = sshbuf_put lc (enc_string v) b"
proof -
  obtain q c where res: "sshbuf_reserve lc (4 + length v) b = (q, c)" by fastforce
  then have res': "sshbuf_reserve lc (length v + 4) b = (q, c)" by (simp add: add.commute)
  show ?thesis
  proof (cases q)
    case (Inl e)
    then show ?thesis using len res res'
      by (simp add: sshbuf_put_string_def sshbuf_put_def bind_op_def not_less Let_def)
  next
    case (Inr d)
    then have "d + 4 \<le> length (b_mem c)" using reserve_room[OF wf, of lc _ d c] res by fastforce
    then show ?thesis using len res res' Inr mem_write_seq[of d "POKE_U32 (of_nat (length v))" c v]
      by (simp add: sshbuf_put_string_def sshbuf_put_def bind_op_def op_simps not_less enc_string_def
          Let_def)
  qed
qed

text \<open>The canonical form of a non-negative integer: no leading zeros but one before a set top bit.\<close>

definition bignum_canonical :: "byte list \<Rightarrow> byte list" where
  "bignum_canonical v =
     (let s = dropWhile (\<lambda>x. x = 0) v
      in if s \<noteq> [] \<and> s ! 0 AND 0x80 \<noteq> 0 then 0 # s else s)"

lemma put_bignum2_eq:
  assumes wf: "wf_sshbuf b" and len: "length v \<le> SSHBUF_SIZE_MAX - 5"
  shows "sshbuf_put_bignum2_bytes lc v b = sshbuf_put lc (enc_string (bignum_canonical v)) b"
proof -
  define s where "s = dropWhile (\<lambda>x. x = 0) v"
  define pre where "pre = (0 < length s \<and> s ! 0 AND 0x80 \<noteq> 0)"
  define n where "n = length s + (if pre then 1 else 0)"
  have canon: "bignum_canonical v = (if pre then [0] else []) @ s" and
    n: "length (bignum_canonical v) = n"
    by (simp_all add: bignum_canonical_def Let_def s_def pre_def n_def)
  obtain q c where res: "sshbuf_reserve lc (4 + n) b = (q, c)" by fastforce
  then have res': "sshbuf_reserve lc (n + 4) b = (q, c)" by (simp add: add.commute)
  have lhs: "sshbuf_put_bignum2_bytes lc v b = bind_op (sshbuf_reserve lc (n + 4)) (\<lambda>d.
            bind_op (modify_op (mem_write d (POKE_U32 (of_nat n)))) (\<lambda>_.
            bind_op (if pre then modify_op (mem_write (d + 4) [0]) else ret ()) (\<lambda>_.
            modify_op (mem_write (d + 4 + (if pre then 1 else 0)) s)))) b"
    using len unfolding sshbuf_put_bignum2_bytes_def Let_def s_def[symmetric] pre_def[symmetric]
      n_def[symmetric] by simp
  show ?thesis
  proof (cases q)
    case (Inl e)
    then show ?thesis using res res' unfolding lhs by (simp add: sshbuf_put_def bind_op_def n)
  next
    case (Inr d)
    then have room: "d + (4 + n) \<le> length (b_mem c)"
      using reserve_room[OF wf, of lc _ d c] res by fastforce
    note w1 = mem_write_seq[of d "POKE_U32 (of_nat n)" c]
    note w2 = mem_write_seq[of d "POKE_U32 (of_nat n) @ [0]" c s]
    show ?thesis
      using res res' Inr room w1[of s] w1[of "[0]"] w2 unfolding lhs
      by (cases pre)
        (simp_all add: sshbuf_put_def bind_op_def op_simps enc_string_def n canon n_def add.commute)
  qed
qed

lemma putfv_eq:
  assumes wf: "wf_sshbuf b" and run: "sshbuf_putfv lc (Some s) b = (r, b')"
  shows "wf_sshbuf b' \<and> contents b' = (if r = Inr () then contents b @ s else contents b)"
proof (cases "s = []")
  case True
  then show ?thesis using wf run by (simp add: sshbuf_putfv_def op_simps)
next
  case False
  obtain q c where pu: "sshbuf_put lc (s @ [0]) b = (q, c)" by fastforce
  note spec = put_spec[OF wf pu]
  have run': "bind_op (sshbuf_put lc (s @ [0])) (\<lambda>_. sshbuf_consume_end 1) b = (r, b')"
    using run False
    by (auto simp: sshbuf_putfv_def sshbuf_put_def bind_op_def op_simps split: prod.splits sum.splits)
  show ?thesis
  proof (cases q)
    case (Inl e)
    then show ?thesis using run' pu spec by (auto simp: bind_op_def)
  next
    case (Inr u)
    then have "wf_sshbuf c" and "contents c = contents b @ s @ [0]" using spec by auto
    then show ?thesis using run' pu Inr consume_end_spec(1)[of c 1]
      by (auto simp: bind_op_def simp del: length_contents)
  qed
qed

section \<open>Every reader is a parse of the contents\<close>

definition wire_string :: "byte list \<Rightarrow> ssherr + byte list \<times> byte list" where
  "wire_string xs =
     (if length xs < 4 then Inl SSH_ERR_MESSAGE_INCOMPLETE
      else
        (let n = unat (PEEK_U32 xs)
         in if n > SSHBUF_SIZE_MAX - 4 then Inl SSH_ERR_STRING_TOO_LARGE
            else if length xs - 4 < n then Inl SSH_ERR_MESSAGE_INCOMPLETE
            else Inr (take n (drop 4 xs), drop (4 + n) xs)))"

lemma wire_string_enc:
  assumes "length v \<le> SSHBUF_SIZE_MAX - 4"
  shows "wire_string (enc_string v @ rest) = Inr (v, rest)"
proof -
  have "unat (of_nat (length v) :: 32 word) = length v"
    using assms by (simp add: unat_of_nat SSHBUF_SIZE_MAX_def)
  then show ?thesis
    using assms by (simp add: wire_string_def enc_string_def Let_def)
qed

lemma wire_string_InrD:
  "wire_string xs = Inr (v, rest) \<Longrightarrow>
   length v \<le> SSHBUF_SIZE_MAX - 4 \<and> length xs = 4 + length v + length rest \<and>
   unat (PEEK_U32 xs) = length v \<and> xs = take 4 xs @ v @ rest"
  by (auto simp: wire_string_def Let_def min_def add.commute simp flip: drop_drop split: if_splits)

lemma peek_string_spec:
  assumes wf: "wf_sshbuf b"
  shows "sshbuf_peek_string_direct b = map_sum id fst (wire_string (contents b))"
proof (cases "length (contents b) < 4")
  case True
  then show ?thesis
    using wf by (simp add: sshbuf_peek_string_direct_def wire_string_def sshbuf_len_contents
        del: length_contents)
next
  case False
  then have "mem_read 0 4 b = take 4 (contents b)"
    using mem_read_contents[OF wf, of 0 4] by simp
  moreover have "mem_read 4 n b = take n (drop 4 (contents b))"
    if "\<not> length (contents b) - 4 < n" for n
    using that False mem_read_contents[OF wf, of 4 n] by (simp del: length_contents)
  ultimately show ?thesis
    using False wf by (simp add: sshbuf_peek_string_direct_def wire_string_def Let_def
        sshbuf_len_contents del: length_contents)
qed

lemma get_string_direct_spec:
  assumes wf: "wf_sshbuf b"
  shows "case wire_string (contents b) of
           Inl e \<Rightarrow> sshbuf_get_string_direct b = (Inl e, b)
         | Inr (v, rest) \<Rightarrow> \<exists>b'. sshbuf_get_string_direct b = (Inr v, b') \<and> wf_sshbuf b' \<and>
                                contents b' = rest"
proof (cases "wire_string (contents b)")
  case (Inl e)
  then show ?thesis by (simp add: sshbuf_get_string_direct_def peek_string_spec[OF wf])
next
  case (Inr vr)
  obtain v rest where vr: "vr = (v, rest)" by (cases vr)
  note D = wire_string_InrD[OF Inr[unfolded vr]]
  obtain h where "contents b = h @ v @ rest" and "length h = 4"
    using D by (metis add_leE length_take min.absorb2 le_add1 add.assoc)
  then have "drop (length v + 4) (contents b) = rest" by simp
  moreover have "length v + 4 \<le> length (contents b)"
    using D by (simp del: length_contents)
  ultimately show ?thesis
    using consume_spec(1)[OF wf, of "length v + 4"]
    by (auto simp: sshbuf_get_string_direct_def peek_string_spec[OF wf] Inr vr
        simp del: length_contents)
qed

lemma get_ints_eq:
  assumes wf: "wf_sshbuf b"
  shows "sshbuf_get_u64 b = bind_op (sshbuf_get 8) (\<lambda>p. ret (PEEK_U64 p)) b"
    and "sshbuf_get_u32 b = bind_op (sshbuf_get 4) (\<lambda>p. ret (PEEK_U32 p)) b"
    and "sshbuf_get_u16 b = bind_op (sshbuf_get 2) (\<lambda>p. ret (PEEK_U16 p)) b"
    and "sshbuf_get_u8 b = bind_op (sshbuf_get 1) (\<lambda>p. ret (p ! 0)) b"
  using wf
  by (auto simp: sshbuf_get_u64_def sshbuf_get_u32_def sshbuf_get_u16_def sshbuf_get_u8_def
      sshbuf_get_def bind_op_def op_simps split: prod.splits sum.splits)

lemma get_u32_contents:
  assumes wf: "wf_sshbuf b" and c: "contents b = POKE_U32 v @ rest"
  shows "\<exists>b'. sshbuf_get_u32 b = (Inr v, b') \<and> wf_sshbuf b' \<and> contents b' = rest"
  using get_spec(1)[OF wf, of 4] c
  by (auto simp: get_ints_eq[OF wf] bind_op_def op_simps simp del: length_contents)

lemma get_u64_contents:
  assumes wf: "wf_sshbuf b" and c: "contents b = POKE_U64 v @ rest"
  shows "\<exists>b'. sshbuf_get_u64 b = (Inr v, b') \<and> wf_sshbuf b' \<and> contents b' = rest"
  using get_spec(1)[OF wf, of 8] c
  by (auto simp: get_ints_eq[OF wf] bind_op_def op_simps simp del: length_contents)

section \<open>Writing in place\<close>

lemma poke_spec:
  assumes wf: "wf_sshbuf b" and fit: "offset + length v \<le> length (contents b)" and wr: "writable b"
  shows "\<exists>b'. sshbuf_poke offset v b = (Inr (), b') \<and> wf_sshbuf b' \<and>
              contents b' = take offset (contents b) @ v @ drop (offset + length v) (contents b)"
proof -
  have "offset + length v < SIZE_MAX"
    using fit contents_SIZE_MAX[OF wf] by (simp add: SSHBUF_SIZE_MAX_def SIZE_MAX_def)
  then have "check_woffset b offset (length v) = Inr (b_off b + offset)"
    using wf fit wr wf_mutable_ptr[OF wf]
    by (simp add: check_woffset_def check_offset_def sshbuf_len_contents less_diff_conv2
        del: length_contents)
  moreover have "b_off b + offset + length v \<le> b_size b"
    using fit wf wf_sshbufD(3)[OF wf] by simp
  ultimately show ?thesis
    using contents_mem_write[OF wf, of "b_off b + offset" v] wf_sshbufD(4)[OF wf]
      mem_write_wf[OF wf, of "b_off b + offset" v]
    by (simp add: sshbuf_poke_def)
qed

lemma poke_refused:
  assumes wf: "wf_sshbuf b" and run: "sshbuf_poke offset v b = (Inl e, b')"
  shows "b' = b \<and> (\<not> writable b \<or> offset + length v > length (contents b))"
proof -
  have "b' = b" using run by (auto simp: sshbuf_poke_def split: sum.splits)
  moreover have "\<not> (writable b \<and> offset + length v \<le> length (contents b))"
    using run poke_spec[OF wf, of offset v] by auto
  ultimately show ?thesis by (auto simp del: length_contents)
qed

lemma poke_ints_eq:
  "sshbuf_poke_u64 i x = sshbuf_poke i (POKE_U64 x)" "sshbuf_poke_u32 i y = sshbuf_poke i (POKE_U32 y)"
  "sshbuf_poke_u16 i z = sshbuf_poke i (POKE_U16 z)" "sshbuf_poke_u8 i w = sshbuf_poke i [w]"
  by (auto simp: sshbuf_poke_u64_def sshbuf_poke_u32_def sshbuf_poke_u16_def sshbuf_poke_u8_def
      sshbuf_poke_def fun_eq_iff)

section \<open>The invariant is kept\<close>

lemma keeps_wf_put [keeps_rules]: "keeps wf_sshbuf (sshbuf_put lc v)"
  by (rule keepsI) (metis put_spec prod.collapse)

lemma keeps_wf_put_ints [keeps_rules]:
  "keeps wf_sshbuf (sshbuf_put_u64 lc x)" "keeps wf_sshbuf (sshbuf_put_u32 lc y)"
  "keeps wf_sshbuf (sshbuf_put_u16 lc z)" "keeps wf_sshbuf (sshbuf_put_u8 lc w)"
  by (simp_all add: put_ints_eq keeps_wf_put)

lemma keeps_wf_put_string [keeps_rules]: "keeps wf_sshbuf (sshbuf_put_string lc v)"
proof (rule keepsI)
  fix b assume wf: "wf_sshbuf b"
  show "wf_sshbuf (snd (sshbuf_put_string lc v b))"
  proof (cases "length v \<le> SSHBUF_SIZE_MAX - 4")
    case True
    then show ?thesis using wf keepsD[OF keeps_wf_put wf] by (simp add: put_string_eq)
  next
    case False
    then show ?thesis using wf by (simp add: sshbuf_put_string_def op_simps Let_def)
  qed
qed

lemma keeps_wf_put_bignum2 [keeps_rules]: "keeps wf_sshbuf (sshbuf_put_bignum2_bytes lc v)"
proof (rule keepsI)
  fix b assume wf: "wf_sshbuf b"
  show "wf_sshbuf (snd (sshbuf_put_bignum2_bytes lc v b))"
  proof (cases "length v \<le> SSHBUF_SIZE_MAX - 5")
    case True
    then show ?thesis using wf keepsD[OF keeps_wf_put wf] by (simp add: put_bignum2_eq)
  next
    case False
    then show ?thesis using wf by (simp add: sshbuf_put_bignum2_bytes_def op_simps)
  qed
qed

lemma keeps_wf_putfv [keeps_rules]: "keeps wf_sshbuf (sshbuf_putfv lc out)"
proof (cases out)
  case None
  then show ?thesis by (simp add: sshbuf_putfv_def keeps_err)
next
  case (Some s)
  then show ?thesis by (intro keepsI) (metis putfv_eq prod.collapse)
qed

lemma keeps_wf_get [keeps_rules]: "keeps wf_sshbuf (sshbuf_get n)"
  by (rule keepsI) (metis get_spec linorder_not_le snd_conv)

lemma keeps_wf_get_ints [keeps_rules]:
  "keeps wf_sshbuf sshbuf_get_u64" "keeps wf_sshbuf sshbuf_get_u32"
  "keeps wf_sshbuf sshbuf_get_u16" "keeps wf_sshbuf sshbuf_get_u8"
  by (rule keepsI, simp add: get_ints_eq, rule keepsD, intro keeps_rules, assumption)+

lemma keeps_wf_get_string_direct [keeps_rules]: "keeps wf_sshbuf sshbuf_get_string_direct"
proof (rule keepsI)
  fix b assume wf: "wf_sshbuf b"
  show "wf_sshbuf (snd (sshbuf_get_string_direct b))"
    using get_string_direct_spec[OF wf] wf by (auto split: sum.splits)
qed

lemma keeps_wf_get_string [keeps_rules]: "keeps wf_sshbuf (sshbuf_get_string lc)"
  unfolding sshbuf_get_string_def by (intro keeps_rules)

lemma keeps_wf_get_cstring [keeps_rules]: "keeps wf_sshbuf (sshbuf_get_cstring lc)"
proof (rule keepsI)
  fix b assume wf: "wf_sshbuf b"
  show "wf_sshbuf (snd (sshbuf_get_cstring lc b))"
    using keepsD[OF keeps_wf_get_string_direct wf] wf
    by (auto simp: sshbuf_get_cstring_def split: sum.splits prod.splits)
qed

lemma keeps_wf_get_bignum2 [keeps_rules]: "keeps wf_sshbuf sshbuf_get_bignum2_bytes_direct"
proof (rule keepsI)
  fix b assume wf: "wf_sshbuf b"
  show "wf_sshbuf (snd (sshbuf_get_bignum2_bytes_direct b))"
  proof (cases "sshbuf_peek_string_direct b")
    case (Inl e)
    then show ?thesis using wf by (simp add: sshbuf_get_bignum2_bytes_direct_def)
  next
    case (Inr d)
    then show ?thesis
      using wf keepsD[OF keeps_wf_consume[of "length d + 4"] wf]
      by (auto simp: sshbuf_get_bignum2_bytes_direct_def Let_def split: sum.splits prod.splits)
  qed
qed

lemma keeps_wf_poke [keeps_rules]: "keeps wf_sshbuf (sshbuf_poke i v)"
proof (rule keepsI)
  fix b assume wf: "wf_sshbuf b"
  obtain r b' where run: "sshbuf_poke i v b = (r, b')" by fastforce
  show "wf_sshbuf (snd (sshbuf_poke i v b))"
  proof (cases r)
    case (Inl e)
    then show ?thesis using run wf poke_refused[OF wf, of i v e b'] by simp
  next
    case (Inr u)
    then have ok: "check_woffset b i (length v) = Inr (b_off b + i)"
      using run by (auto simp: sshbuf_poke_def check_woffset_def split: sum.splits if_splits)
    then have "i + length v \<le> length (contents b)" "writable b"
      using wf wf_mutable_ptr[OF wf]
      by (auto simp: check_woffset_def check_offset_def sshbuf_len_contents
          simp del: length_contents split: if_splits sum.splits)
    then show ?thesis using poke_spec[OF wf, of i v] by fastforce
  qed
qed

lemma keeps_wf_get_nulterminated [keeps_rules]:
  "keeps wf_sshbuf (sshbuf_get_nulterminated_string lc maxlen)"
proof (rule keepsI)
  fix b assume wf: "wf_sshbuf b"
  show "wf_sshbuf (snd (sshbuf_get_nulterminated_string lc maxlen b))"
    using wf keepsD[OF keeps_wf_consume wf]
    by (auto simp: sshbuf_get_nulterminated_string_def split: sum.splits prod.splits)
      (metis snd_conv)+
qed

end
