(* ===== verification/BufferProps.thy ===== *)
theory BufferProps
  imports SshbufGetput
begin

text \<open>
  What the byte buffer and its wire encodings promise: calls in any order leave a sane
  buffer, appends succeed exactly when there is room, fields come back in the order they
  were written, and the string and integer encodings round-trip.
\<close>

section \<open>Sequences of calls\<close>

text \<open>The calls of the buffer interface that change a single buffer.\<close>

datatype bufcall =
    Call_put "byte list" | Call_put_u64 "64 word" | Call_put_u32 "32 word"
  | Call_put_u16 "16 word" | Call_put_u8 byte | Call_put_string "byte list"
  | Call_put_bignum2 "byte list" | Call_putf "byte list option"
  | Call_get nat | Call_get_u64 | Call_get_u32 | Call_get_u16 | Call_get_u8
  | Call_get_string | Call_get_cstring | Call_get_bignum2 | Call_get_nulterminated nat
  | Call_poke nat "byte list" | Call_reserve nat | Call_consume nat | Call_consume_end nat
  | Call_set_max_size nat | Call_reset

fun do_call :: "libc \<Rightarrow> bufcall \<Rightarrow> sshbuf \<Rightarrow> sshbuf" where
  "do_call lc (Call_put v) b = snd (sshbuf_put lc v b)"
| "do_call lc (Call_put_u64 v) b = snd (sshbuf_put_u64 lc v b)"
| "do_call lc (Call_put_u32 v) b = snd (sshbuf_put_u32 lc v b)"
| "do_call lc (Call_put_u16 v) b = snd (sshbuf_put_u16 lc v b)"
| "do_call lc (Call_put_u8 v) b = snd (sshbuf_put_u8 lc v b)"
| "do_call lc (Call_put_string v) b = snd (sshbuf_put_string lc v b)"
| "do_call lc (Call_put_bignum2 v) b = snd (sshbuf_put_bignum2_bytes lc v b)"
| "do_call lc (Call_putf s) b = snd (sshbuf_putf lc s b)"
| "do_call lc (Call_get n) b = snd (sshbuf_get n b)"
| "do_call lc Call_get_u64 b = snd (sshbuf_get_u64 b)"
| "do_call lc Call_get_u32 b = snd (sshbuf_get_u32 b)"
| "do_call lc Call_get_u16 b = snd (sshbuf_get_u16 b)"
| "do_call lc Call_get_u8 b = snd (sshbuf_get_u8 b)"
| "do_call lc Call_get_string b = snd (sshbuf_get_string lc b)"
| "do_call lc Call_get_cstring b = snd (sshbuf_get_cstring lc b)"
| "do_call lc Call_get_bignum2 b = snd (sshbuf_get_bignum2_bytes_direct b)"
| "do_call lc (Call_get_nulterminated m) b = snd (sshbuf_get_nulterminated_string lc m b)"
| "do_call lc (Call_poke i v) b = snd (sshbuf_poke i v b)"
| "do_call lc (Call_reserve n) b = snd (sshbuf_reserve lc n b)"
| "do_call lc (Call_consume n) b = snd (sshbuf_consume n b)"
| "do_call lc (Call_consume_end n) b = snd (sshbuf_consume_end n b)"
| "do_call lc (Call_set_max_size n) b = snd (sshbuf_set_max_size lc n b)"
| "do_call lc Call_reset b = sshbuf_reset lc b"

fun do_calls :: "libc \<Rightarrow> bufcall list \<Rightarrow> sshbuf \<Rightarrow> sshbuf" where
  "do_calls lc [] b = b"
| "do_calls lc (c # cs) b = do_calls lc cs (do_call lc c b)"

text \<open>The maximum is never set below the initial allocation.\<close>

fun sized_call :: "bufcall \<Rightarrow> bool" where
  "sized_call (Call_set_max_size n) = (SSHBUF_SIZE_INIT \<le> n)"
| "sized_call _ = True"

section \<open>The fields that only resizing changes\<close>

definition same_limits :: "sshbuf \<Rightarrow> sshbuf \<Rightarrow> bool" where
  "same_limits b c \<longleftrightarrow> b_max_size c = b_max_size b \<and> b_readonly c = b_readonly b \<and>
     b_self c = b_self b \<and> b_parent c = b_parent b \<and> b_refcount c = b_refcount b"

lemma limits_basic [intro]:
  "same_limits b (snd (sshbuf_consume n b))" "same_limits b (snd (sshbuf_consume_end n b))"
  by (auto simp: sshbuf_consume_def sshbuf_consume_end_def same_limits_def Let_def)

lemma limits_reserve: "same_limits b (snd (sshbuf_reserve lc n b))"
  by (auto simp: sshbuf_reserve_def sshbuf_allocate_def sshbuf_allocate_grow_def
      sshbuf_check_reserve_def same_limits_def bind_op_def buf_frame Let_def
      split: option.splits prod.splits sum.splits if_splits)

lemma limits_write: "same_limits b (mem_write i v c) = same_limits b c"
  by (simp add: same_limits_def buf_frame)

lemma limits_trans: "same_limits b c \<Longrightarrow> same_limits c d \<Longrightarrow> same_limits b d"
  by (simp add: same_limits_def)

lemma limits_reserve_then:
  assumes "\<And>i c. same_limits c (snd (f i c))"
  shows "same_limits b (snd (bind_op (sshbuf_reserve lc n) f b))"
proof -
  obtain r c where run: "sshbuf_reserve lc n b = (r, c)" by fastforce
  then have "same_limits b c" using limits_reserve[of b lc n] by simp
  then show ?thesis
    using run assms limits_trans by (cases r) (auto simp: bind_op_def)
qed

lemma same_limits_refl [simp]: "same_limits b b"
  by (simp add: same_limits_def)

lemma limits_puts:
  "same_limits b (snd (sshbuf_put lc v b))" "same_limits b (snd (sshbuf_put_string lc v b))"
  "same_limits b (snd (sshbuf_put_bignum2_bytes lc v b))" "same_limits b (snd (sshbuf_putf lc s b))"
  unfolding sshbuf_put_def sshbuf_put_string_def sshbuf_put_bignum2_bytes_def sshbuf_putf_def
    sshbuf_putfv_def Let_def
     apply (rule limits_reserve_then; simp add: op_simps limits_write)
    apply (auto intro!: limits_reserve_then simp: op_simps limits_write)[1]
   apply (auto intro!: limits_reserve_then simp: op_simps limits_write split: if_splits)[1]
  apply (cases s; auto intro!: limits_reserve_then simp: op_simps)
  apply (metis limits_basic(2) limits_trans limits_write same_limits_refl)
  done

lemma snd_bind_ret: "snd (bind_op m (\<lambda>x. if c then err e else ret (f x)) b) = snd (m b)"
  by (simp add: bind_op_def op_simps split: prod.splits sum.splits)

lemma limits_gets:
  "same_limits b (snd (sshbuf_get n b))" "same_limits b (snd (sshbuf_get_u64 b))"
  "same_limits b (snd (sshbuf_get_u32 b))" "same_limits b (snd (sshbuf_get_u16 b))"
  "same_limits b (snd (sshbuf_get_u8 b))"
  unfolding sshbuf_get_def sshbuf_get_u64_def sshbuf_get_u32_def sshbuf_get_u16_def
    sshbuf_get_u8_def snd_bind_ret by (rule limits_basic)+

lemma limits_get_strings:
  "same_limits b (snd (sshbuf_get_string_direct b))" "same_limits b (snd (sshbuf_get_string lc b))"
  "same_limits b (snd (sshbuf_get_cstring lc b))"
  "same_limits b (snd (sshbuf_get_bignum2_bytes_direct b))"
  "same_limits b (snd (sshbuf_get_nulterminated_string lc m b))"
proof -
  have c: "sshbuf_consume n b = (r, b') \<Longrightarrow> same_limits b b'" for n r b'
    using limits_basic(1)[of b n] by simp
  show d: "same_limits b (snd (sshbuf_get_string_direct b))"
    by (auto simp: sshbuf_get_string_direct_def split: sum.splits prod.splits intro: c)
  show "same_limits b (snd (sshbuf_get_string lc b))"
    using d by (auto simp: sshbuf_get_string_def bind_op_def op_simps split: prod.splits sum.splits)
  show "same_limits b (snd (sshbuf_get_cstring lc b))"
    using d by (auto simp: sshbuf_get_cstring_def split: prod.splits sum.splits)
  show "same_limits b (snd (sshbuf_get_bignum2_bytes_direct b))"
    by (auto simp: sshbuf_get_bignum2_bytes_direct_def Let_def split: sum.splits prod.splits intro: c)
  show "same_limits b (snd (sshbuf_get_nulterminated_string lc m b))"
    by (auto simp: sshbuf_get_nulterminated_string_def split: sum.splits prod.splits intro: c)
qed

lemma limits_poke: "same_limits b (snd (sshbuf_poke i v b))"
  by (auto simp: sshbuf_poke_def limits_write split: sum.splits)

lemmas limits_all = limits_basic limits_reserve limits_puts limits_gets limits_get_strings limits_poke

lemma keeps_wf_putf: "keeps wf_sshbuf (sshbuf_putf lc out)"
  by (simp add: sshbuf_putf_def keeps_wf_putfv)

text \<open>A buffer that is read-only or has room for the initial allocation.\<close>

definition good_sshbuf :: "sshbuf \<Rightarrow> bool" where
  "good_sshbuf b \<longleftrightarrow> wf_sshbuf b \<and> (b_readonly b \<or> SSHBUF_SIZE_INIT \<le> b_max_size b)"

lemma good_step:
  "good_sshbuf b \<Longrightarrow> wf_sshbuf b' \<Longrightarrow> same_limits b b' \<Longrightarrow> good_sshbuf b'"
  by (simp add: good_sshbuf_def same_limits_def)

lemma reset_limits: "same_limits b (sshbuf_reset lc b)"
  by (auto simp: sshbuf_reset_def same_limits_def Let_def split: option.splits)

lemma good_call:
  assumes good: "good_sshbuf b" and sized: "sized_call c"
  shows "good_sshbuf (do_call lc c b)"
proof -
  have wf: "wf_sshbuf b" using good by (simp add: good_sshbuf_def)
  have keep: "good_sshbuf (snd (m b))" if "keeps wf_sshbuf m" "same_limits b (snd (m b))" for m
    using that good_step[OF good keepsD[OF that(1) wf]] by blast
  show ?thesis
  proof (cases c)
    case (Call_set_max_size n)
    obtain r b' where run: "sshbuf_set_max_size lc n b = (r, b')" by fastforce
    have "b_readonly b' = b_readonly b"
      using run by (auto simp: sshbuf_set_max_size_def Let_def buf_frame split: if_splits option.splits)
    then show ?thesis
      using Call_set_max_size sized good run set_max_size_spec[OF wf run]
      by (cases "r = Inr ()") (auto simp: good_sshbuf_def)
  next
    case Call_reset
    then show ?thesis
      using good reset_wf[OF wf, of lc] good_step[OF good _ reset_limits]
      by (simp add: good_sshbuf_def reset_safe_def)
  qed (auto intro!: keep keeps_rules limits_all keeps_wf_putf simp: put_ints_eq)
qed

lemma good_calls: "good_sshbuf b \<Longrightarrow> list_all sized_call cs \<Longrightarrow> good_sshbuf (do_calls lc cs b)"
  by (induction cs arbitrary: b) (auto intro: good_call)

lemma sshbuf_new_good: "sshbuf_new lc = Some b \<Longrightarrow> good_sshbuf b"
  using sshbuf_new_wf[of lc b]
  by (auto simp: good_sshbuf_def writable_def sshbuf_new_def SSHBUF_SIZE_MAX_def
      SSHBUF_SIZE_INIT_def split: option.splits)

lemma put_fits:
  assumes wf: "wf_sshbuf b" and ok: "\<And>n. malloc lc n \<noteq> None" and wr: "writable b"
    and room: "length v + length (contents b) \<le> b_max_size b"
  shows "\<exists>b'. sshbuf_put lc v b = (Inr (), b') \<and> wf_sshbuf b' \<and> writable b' \<and>
              b_max_size b' = b_max_size b \<and> contents b' = contents b @ v"
proof -
  obtain b' where run: "sshbuf_put lc v b = (Inr (), b')"
    using put_succeeds[OF wf ok wr room] by blast
  obtain i c where res: "sshbuf_reserve lc (length v) b = (Inr i, c)" and b': "b' = mem_write i v c"
    using run by (auto simp: sshbuf_put_def op_simps elim!: bind_op_InrE)
  show ?thesis
    using run put_spec[OF wf run] reserve_spec[OF wf res] by (auto simp: b' buf_frame writable_def)
qed

section \<open>Properties\<close>

text \<open>An allocator that always succeeds, for the witnesses.\<close>

definition lc_ok :: libc where
  "lc_ok = \<lparr>malloc = (\<lambda>n. Some (4096 + n)), pagesize = 4096\<rparr>"

definition buf0 :: sshbuf where
  "buf0 = \<lparr>b_self = Some 4160, b_d = Some 4352, b_cd = Some 4352,
           b_mem = replicate SSHBUF_SIZE_INIT 0, b_off = 0, b_size = 0,
           b_max_size = SSHBUF_SIZE_MAX, b_alloc = SSHBUF_SIZE_INIT,
           b_readonly = False, b_refcount = 1, b_parent = None\<rparr>"

lemma sshbuf_new_ok: "sshbuf_new lc_ok = Some buf0"
  by (simp add: sshbuf_new_def lc_ok_def buf0_def sizeof_sshbuf_def SSHBUF_SIZE_INIT_def)

lemma buf0_wf: "wf_sshbuf buf0" "writable buf0" "contents buf0 = []"
  using sshbuf_new_wf[OF sshbuf_new_ok] by auto

lemma lc_ok_malloc: "malloc lc_ok n \<noteq> None"
  by (simp add: lc_ok_def)

lemma put_buf0:
  assumes "length v \<le> 1000"
  shows "\<exists>b'. sshbuf_put lc_ok v buf0 = (Inr (), b') \<and> wf_sshbuf b' \<and> writable b' \<and>
              b_max_size b' = SSHBUF_SIZE_MAX \<and> contents b' = v"
proof -
  have m: "b_max_size buf0 = SSHBUF_SIZE_MAX" by (simp add: buf0_def)
  then have "length v + length (contents buf0) \<le> b_max_size buf0"
    using assms unfolding buf0_wf(3) by (simp add: SSHBUF_SIZE_MAX_def)
  from put_fits[OF buf0_wf(1) lc_ok_malloc buf0_wf(2) this] show ?thesis
    unfolding m buf0_wf(3) by simp
qed

text \<open>
  C1. Whatever calls a program makes on a buffer created by \<^verbatim>\<open>sshbuf_new\<close>, in whatever order
  and whether or not they and the allocator fail, the sanity check of \<^verbatim>\<open>sshbuf.c\<close> (which
  kills the process when it fails) passes afterwards and the data never exceeds the
  maximum size, provided the maximum is never set below \<^verbatim>\<open>SSHBUF_SIZE_INIT\<close>.
\<close>

theorem buffer_calls_sane:
  assumes "sshbuf_new lc = Some b" and "list_all sized_call cs"
  shows "\<not> sshbuf_insane (do_calls lc cs b) \<and>
         sshbuf_len (do_calls lc cs b) \<le> sshbuf_max_size (do_calls lc cs b) \<and>
         sshbuf_len (do_calls lc cs b) = length (contents (do_calls lc cs b))"
proof -
  have "wf_sshbuf (do_calls lc cs b)"
    using good_calls[OF sshbuf_new_good[OF assms(1)] assms(2)] by (simp add: good_sshbuf_def)
  then show ?thesis
    using wf_sshbufD[of "do_calls lc cs b"] by (simp add: sshbuf_len_contents sshbuf_max_size_def)
qed

theorem buffer_calls_sane_witness:
  "\<not> sshbuf_insane (do_calls lc_ok [Call_put_string [1, 2], Call_get_u32, Call_set_max_size 4096,
        Call_reset, Call_put_u8 7] buf0)"
  using buffer_calls_sane[OF sshbuf_new_ok, of "[Call_put_string [1, 2], Call_get_u32,
      Call_set_max_size 4096, Call_reset, Call_put_u8 7]"]
  by (simp add: SSHBUF_SIZE_INIT_def)

text \<open>
  C2. An append to a well-formed buffer either adds exactly the given bytes at the end, or
  leaves the contents alone and reports read-only, no space or a failed allocation, in that
  order of precedence; if the buffer is writable, the bytes fit under its maximum and the
  allocator succeeds, it does not fail.
\<close>

theorem put_exact:
  assumes wf: "wf_sshbuf b" and run: "sshbuf_put lc v b = (r, b')"
  shows "(r = Inr () \<and> contents b' = contents b @ v \<or>
          r = Inl (reserve_error b (length v)) \<and> contents b' = contents b) \<and> wf_sshbuf b' \<and>
         (writable b \<and> length v + length (contents b) \<le> b_max_size b \<and>
          (\<forall>n. malloc lc n \<noteq> None) \<longrightarrow> r = Inr ())"
proof -
  have "r = Inr ()" if "writable b" "length v + length (contents b) \<le> b_max_size b"
    "\<forall>n. malloc lc n \<noteq> None"
    using put_succeeds[OF wf, of lc v] that run by (auto simp del: length_contents)
  then have "writable b \<and> length v + length (contents b) \<le> b_max_size b \<and>
      (\<forall>n. malloc lc n \<noteq> None) \<longrightarrow> r = Inr ()" by blast
  moreover have "r = Inr () \<and> contents b' = contents b @ v \<or>
      r = Inl (reserve_error b (length v)) \<and> contents b' = contents b" and "wf_sshbuf b'"
    using put_spec[OF wf run] by (cases r; simp)+
  ultimately show ?thesis by blast
qed

theorem put_exact_witness:
  "\<exists>b'. sshbuf_put lc_ok [1, 2, 3] buf0 = (Inr (), b') \<and> contents b' = [1, 2, 3]"
proof -
  obtain r b' where run: "sshbuf_put lc_ok [1, 2, 3] buf0 = (r, b')" by fastforce
  have "length [1::byte, 2, 3] + length (contents buf0) \<le> b_max_size buf0"
    unfolding buf0_wf(3) by (simp add: buf0_def SSHBUF_SIZE_MAX_def)
  then show ?thesis
    using put_exact[OF buf0_wf(1) run] run buf0_wf(2,3) lc_ok_malloc by auto
qed

text \<open>
  C3. First in, first out: after any sequence of successful appends, reading back what the
  buffer held and then each field by its length returns exactly those fields in order and
  leaves the buffer empty.
\<close>

theorem buffer_fifo:
  assumes "wf_sshbuf b" and "seq_op (sshbuf_put lc) vs b = (Inr (), b1)"
  shows "\<exists>b'. map_op sshbuf_get (length (contents b) # map length vs) b1 =
                (Inr (contents b # vs), b') \<and> contents b' = []"
  using assms by (rule sb.fifo)

theorem buffer_fifo_witness:
  "\<exists>b1 b'. seq_op (sshbuf_put lc_ok) [[1, 2], [3]] buf0 = (Inr (), b1) \<and>
     map_op sshbuf_get [0, 2, 1] b1 = (Inr [[], [1, 2], [3]], b') \<and> contents b' = []"
proof -
  obtain c1 where c1: "sshbuf_put lc_ok [1, 2] buf0 = (Inr (), c1)" "wf_sshbuf c1" "writable c1"
    "b_max_size c1 = SSHBUF_SIZE_MAX" "contents c1 = [1, 2]"
    using put_buf0[of "[1, 2]"] by auto
  obtain c2 where c2: "sshbuf_put lc_ok [3] c1 = (Inr (), c2)"
    using put_fits[OF c1(2) lc_ok_malloc c1(3), of "[3]"] c1(4,5) by (auto simp: SSHBUF_SIZE_MAX_def)
  have run: "seq_op (sshbuf_put lc_ok) [[1, 2], [3]] buf0 = (Inr (), c2)"
    using c1(1) c2 by (simp add: bind_op_def op_simps)
  then show ?thesis
    using buffer_fifo[OF buf0_wf(1) run] buf0_wf(3) by (auto simp: numeral_2_eq_2 simp del: map_op.simps seq_op.simps)
qed

text \<open>
  C4. A string written by \<^verbatim>\<open>sshbuf_put_string\<close> behind any data is read back by
  \<^verbatim>\<open>sshbuf_get_string_direct\<close> once that data has been consumed, and nothing is left over.
\<close>

theorem string_roundtrip:
  assumes wf: "wf_sshbuf b" and put: "sshbuf_put_string lc v b = (Inr (), b1)"
    and skip: "sshbuf_consume (length (contents b)) b1 = (Inr (), b2)"
  shows "\<exists>b'. sshbuf_get_string_direct b2 = (Inr v, b') \<and> wf_sshbuf b' \<and> contents b' = []"
proof -
  have len: "length v \<le> SSHBUF_SIZE_MAX - 4"
    using put by (auto simp: sshbuf_put_string_def op_simps Let_def split: if_splits)
  have b1: "wf_sshbuf b1" "contents b1 = contents b @ enc_string v"
    using put put_spec[OF wf, of lc "enc_string v"] by (auto simp: put_string_eq[OF wf len])
  then have "length (contents b) \<le> length (contents b1)" by simp
  from consume_spec(1)[OF b1(1) this] have b2: "wf_sshbuf b2" "contents b2 = enc_string v"
    using skip b1(2) by auto
  have "wire_string (contents b2) = Inr (v, [])"
    using b2(2) wire_string_enc[OF len, of "[]"] by simp
  then show ?thesis using get_string_direct_spec[OF b2(1)] by simp
qed

theorem string_roundtrip_witness:
  "\<exists>b1 b2 b'. sshbuf_put_string lc_ok [104, 105] buf0 = (Inr (), b1) \<and>
     sshbuf_consume 0 b1 = (Inr (), b2) \<and> sshbuf_get_string_direct b2 = (Inr [104, 105], b')"
proof -
  have len: "length [104::byte, 105] \<le> SSHBUF_SIZE_MAX - 4" by (simp add: SSHBUF_SIZE_MAX_def)
  obtain b1 where put: "sshbuf_put_string lc_ok [104, 105] buf0 = (Inr (), b1)" and "wf_sshbuf b1"
    using put_buf0[of "enc_string [104, 105]"] by (auto simp: put_string_eq[OF buf0_wf(1) len])
  then obtain b2 where skip: "sshbuf_consume (length (contents buf0)) b1 = (Inr (), b2)"
    using consume_spec(1)[of b1 "length (contents buf0)"] buf0_wf(3) by auto
  show ?thesis
    using string_roundtrip[OF buf0_wf(1) put skip] put skip buf0_wf(3) by auto
qed

text \<open>
  C5. \<^verbatim>\<open>sshbuf_get_string_direct\<close> implements the parser of RFC 4251 strings on the bytes of the
  buffer: it accepts exactly what that parser accepts, returns its string, leaves exactly its
  rest, and on every malformed input (short length, length over the limit, truncated body)
  reports the parser's error with the buffer untouched; no byte past the data is read.
\<close>

theorem get_string_refines:
  assumes "wf_sshbuf b"
  shows "case wire_string (contents b) of
           Inl e \<Rightarrow> sshbuf_get_string_direct b = (Inl e, b)
         | Inr (v, rest) \<Rightarrow> \<exists>b'. sshbuf_get_string_direct b = (Inr v, b') \<and> wf_sshbuf b' \<and>
                                contents b' = rest"
  using assms by (rule get_string_direct_spec)

theorem get_string_refines_witness:
  "sshbuf_get_string_direct buf0 = (Inl SSH_ERR_MESSAGE_INCOMPLETE, buf0)"
  using get_string_refines[OF buf0_wf(1)] by (simp add: buf0_wf(3) wire_string_def)

text \<open>
  C6. A non-negative integer written by \<^verbatim>\<open>sshbuf_put_bignum2_bytes\<close> is read back by
  \<^verbatim>\<open>sshbuf_get_bignum2_bytes_direct\<close> as the same bytes without leading zeros; it is never
  taken for a negative number, and never refused while it has at most \<^verbatim>\<open>SSHBUF_MAX_BIGNUM\<close> bytes.
\<close>

theorem bignum_roundtrip:
  assumes wf: "wf_sshbuf b" and empty: "contents b = []"
    and put: "sshbuf_put_bignum2_bytes lc v b = (Inr (), b1)"
    and small: "length (dropWhile (\<lambda>x. x = 0) v) \<le> SSHBUF_MAX_BIGNUM"
  shows "\<exists>b'. sshbuf_get_bignum2_bytes_direct b1 = (Inr (dropWhile (\<lambda>x. x = 0) v), b') \<and>
              contents b' = []"
proof -
  define s where "s = dropWhile (\<lambda>x. x = 0) v"
  define d where "d = bignum_canonical v"
  have lenv: "length v \<le> SSHBUF_SIZE_MAX - 5"
    using put by (auto simp: sshbuf_put_bignum2_bytes_def op_simps split: if_splits)
  have d: "d = (if s \<noteq> [] \<and> s ! 0 AND 0x80 \<noteq> 0 then 0 # s else s)"
    by (simp add: d_def bignum_canonical_def s_def Let_def)
  have hd: "s \<noteq> [] \<Longrightarrow> s ! 0 \<noteq> 0"
    using hd_dropWhile[of "\<lambda>x. x = 0" v] by (simp add: s_def hd_conv_nth)
  have ld: "length d \<le> SSHBUF_SIZE_MAX - 4"
    using small by (simp add: d s_def SSHBUF_MAX_BIGNUM_def SSHBUF_SIZE_MAX_def)
  have b1: "wf_sshbuf b1" "contents b1 = enc_string d"
    using put put_spec[OF wf, of lc "enc_string d"] empty by (auto simp: put_bignum2_eq[OF wf lenv] d_def)
  have peek: "sshbuf_peek_string_direct b1 = Inr d"
    using peek_string_spec[OF b1(1)] b1(2) wire_string_enc[OF ld, of "[]"] by simp
  have "\<not> (length d \<noteq> 0 \<and> d ! 0 AND 0x80 \<noteq> 0)" by (auto simp: d)
  moreover have "\<not> (length d > SSHBUF_MAX_BIGNUM + 1 \<or>
                     length d = SSHBUF_MAX_BIGNUM + 1 \<and> d ! 0 \<noteq> 0)"
    using small by (auto simp: d s_def)
  moreover have "dropWhile (\<lambda>x. x = 0) d = s"
    using hd by (cases s) (auto simp: d)
  moreover obtain b' where "sshbuf_consume (length d + 4) b1 = (Inr (), b')" "contents b' = []"
    using consume_spec(1)[OF b1(1), of "length d + 4"] b1(2) by auto
  ultimately show ?thesis
    unfolding sshbuf_get_bignum2_bytes_direct_def peek Let_def s_def[symmetric] by auto
qed

theorem bignum_roundtrip_witness:
  "\<exists>b1 b'. sshbuf_put_bignum2_bytes lc_ok [0, 0, 200, 1] buf0 = (Inr (), b1) \<and>
     sshbuf_get_bignum2_bytes_direct b1 = (Inr [200, 1], b')"
proof -
  have len: "length [0::byte, 0, 200, 1] \<le> SSHBUF_SIZE_MAX - 5" by (simp add: SSHBUF_SIZE_MAX_def)
  obtain b1 where put: "sshbuf_put_bignum2_bytes lc_ok [0, 0, 200, 1] buf0 = (Inr (), b1)"
    using put_buf0[of "enc_string (bignum_canonical [0, 0, 200, 1])"]
    by (auto simp: put_bignum2_eq[OF buf0_wf(1) len] bignum_canonical_def Let_def)
  show ?thesis
    using bignum_roundtrip[OF buf0_wf(1,3) put] put by (auto simp: SSHBUF_MAX_BIGNUM_def)
qed

text \<open>
  C7. \<^verbatim>\<open>sshbuf_reset\<close> of a writable, sane buffer whose maximum size is below
  \<^verbatim>\<open>SSHBUF_SIZE_INIT\<close> enlarges the allocation past the maximum: the buffer fails the sanity
  check from then on, so that the next call on it raises \<^verbatim>\<open>SIGSEGV\<close>.
\<close>

theorem reset_breaks_small_buffer:
  assumes "wf_sshbuf b" and "writable b" and "b_max_size b < SSHBUF_SIZE_INIT"
    and "\<forall>n. malloc lc n \<noteq> None"
  shows "sshbuf_check_sanity (sshbuf_reset lc b) = (Inl SSH_ERR_INTERNAL_ERROR, sshbuf_reset lc b)"
proof -
  have "SSHBUF_SIZE_INIT \<le> SIZE_MAX" by (simp add: SSHBUF_SIZE_INIT_def SIZE_MAX_def)
  moreover have "length (b_mem b) \<le> SIZE_MAX"
    using wf_sshbufD(2,5,6)[OF assms(1)] by (simp add: SSHBUF_SIZE_MAX_def SIZE_MAX_def)
  ultimately obtain y where "recallocarray lc (b_d b) (b_mem b) SSHBUF_SIZE_INIT 1 = Some y"
    using recallocarray_succeeds_bytes[of lc SSHBUF_SIZE_INIT "b_mem b" "b_d b"] assms(4) by blast
  then show ?thesis using reset_insane[OF assms(1-3)] by (simp add: sshbuf_check_sanity_def)
qed

theorem reset_breaks_small_buffer_witness:
  "\<exists>b. sshbuf_set_max_size lc_ok 100 buf0 = (Inr (), b) \<and>
       sshbuf_check_sanity (sshbuf_reset lc_ok b) = (Inl SSH_ERR_INTERNAL_ERROR, sshbuf_reset lc_ok b)"
proof -
  obtain r b where run: "sshbuf_set_max_size lc_ok 100 buf0 = (r, b)" by fastforce
  have "r = Inr ()" and wr: "writable b"
    using run buf0_wf(1) wf_sshbufD(1)[OF buf0_wf(1)]
    by (auto simp: sshbuf_set_max_size_def buf0_def Let_def sshbuf_maybe_pack_def recallocarray_def
        lc_ok_def SSHBUF_SIZE_MAX_def SSHBUF_SIZE_INIT_def MUL_NO_OVERFLOW_def writable_def
        split: if_splits)
  then have "wf_sshbuf b" "b_max_size b < SSHBUF_SIZE_INIT"
    using set_max_size_spec[OF buf0_wf(1) run] by (auto simp: SSHBUF_SIZE_INIT_def)
  from reset_breaks_small_buffer[OF this(1) wr this(2), of lc_ok]
  show ?thesis using run \<open>r = Inr ()\<close> lc_ok_malloc by auto
qed

end
