(* ===== verification/SshbufHeap.thy ===== *)
theory SshbufHeap
  imports BufferProps "HOL-Library.Finite_Map"
begin

text \<open>
  Parent and child buffers: \<^verbatim>\<open>sshbuf_set_parent\<close>, \<^verbatim>\<open>sshbuf_fromb\<close>, \<^verbatim>\<open>sshbuf_froms\<close> and
  \<^verbatim>\<open>sshbuf_free\<close> on a heap of buffers. A child shares the parent's bytes; the parent's
  reference count keeps it alive and read-only while children exist. A pointer that is not
  in the heap is dangling, which the C code does not detect; the model returns at once.
\<close>

section \<open>Operations\<close>

type_synonym heap = "(nat, sshbuf) fmap"

definition sshbuf_set_parent :: "nat \<Rightarrow> nat \<Rightarrow> (heap, unit) op" where
  "sshbuf_set_parent child parent h =
     (case (fmlookup h child, fmlookup h parent) of
        (Some c, Some p) \<Rightarrow>
          if sshbuf_insane c \<or> sshbuf_insane p then (Inl SSH_ERR_INTERNAL_ERROR, h)
          else if (b_parent c \<noteq> None \<and> b_parent c \<noteq> Some parent) \<or> child = parent then
            (Inl SSH_ERR_INTERNAL_ERROR, h)
          else (Inr (), fmupd parent (p\<lparr>b_refcount := b_refcount p + 1\<rparr>)
                          (fmupd child (c\<lparr>b_parent := Some parent\<rparr>) h))
      | _ \<Rightarrow> (Inl SSH_ERR_INTERNAL_ERROR, h))"

text \<open>The buffers that still hold a reference: each call of \<^verbatim>\<open>sshbuf_free\<close> that goes on to the
  parent has just taken one of them to zero.\<close>

definition referenced :: "heap \<Rightarrow> nat set" where
  "referenced h = {q. \<exists>b. fmlookup h q = Some b \<and> b_refcount b \<ge> 1}"

lemma finite_referenced [simp]: "finite (referenced h)"
  by (rule finite_subset[of _ "fmdom' h"]) (auto simp: referenced_def intro: fmdom'I)

lemma referenced_release:
  assumes "fmlookup h p = Some b" and "b_refcount b \<ge> 1" and "b_refcount b' = 0"
  shows "card (referenced (fmupd p b' h)) < card (referenced h)"
proof (rule psubset_card_mono)
  have "p \<in> referenced h" and "p \<notin> referenced (fmupd p b' h)"
    using assms by (auto simp: referenced_def)
  moreover have "referenced (fmupd p b' h) \<subseteq> referenced h"
    using assms by (auto simp: referenced_def split: if_splits)
  ultimately show "referenced (fmupd p b' h) \<subset> referenced h" by blast
qed simp

function sshbuf_free :: "ptr \<Rightarrow> heap \<Rightarrow> heap" where
  "sshbuf_free None h = h"
| "sshbuf_free (Some p) h =
     (case fmlookup h p of
        None \<Rightarrow> h
      | Some b \<Rightarrow>
          if sshbuf_insane b then h
          else if b_refcount b - 1 > 0 then fmupd p (b\<lparr>b_refcount := b_refcount b - 1\<rparr>) h
          else fmdrop p (sshbuf_free (b_parent b)
                           (fmupd p (b\<lparr>b_refcount := b_refcount b - 1\<rparr>) h)))"
  by pat_completeness auto
termination
proof (relation "measure (\<lambda>(p, h). card (referenced h))", goal_cases)
  case (2 p h b)
  then show ?case
    using referenced_release[of h p b] by (simp add: sshbuf_insane_def)
qed simp

definition sshbuf_fromb :: "libc \<Rightarrow> nat \<Rightarrow> heap \<Rightarrow> nat option \<times> heap" where
  "sshbuf_fromb lc buf h =
     (case fmlookup h buf of
        None \<Rightarrow> (None, h)
      | Some b \<Rightarrow>
          if sshbuf_insane b then (None, h)
          else
            (case sshbuf_from lc (sshbuf_ptr b) (mem_read 0 (sshbuf_len b) b) of
               None \<Rightarrow> (None, h)
             | Some child \<Rightarrow>
                 (let r = the (b_self child)
                  in case sshbuf_set_parent r buf (fmupd r child h) of
                       (Inl _, h1) \<Rightarrow> (None, sshbuf_free (Some r) h1)
                     | (Inr _, h1) \<Rightarrow> (Some r, h1))))"

definition sshbuf_froms :: "libc \<Rightarrow> ptr \<Rightarrow> (heap, nat) op" where
  "sshbuf_froms lc buf h =
     (case buf of
        None \<Rightarrow> (Inl SSH_ERR_INVALID_ARGUMENT, h)
      | Some p \<Rightarrow>
          (case fmlookup h p of
             None \<Rightarrow> (Inl SSH_ERR_INTERNAL_ERROR, h)
           | Some b \<Rightarrow>
               (case sshbuf_peek_string_direct b of
                  Inl e \<Rightarrow> (Inl e, h)
                | Inr s \<Rightarrow>
                    (case sshbuf_from lc (map_option (\<lambda>q. q + 4) (sshbuf_ptr b)) s of
                       None \<Rightarrow> (Inl SSH_ERR_ALLOC_FAIL, h)
                     | Some child \<Rightarrow>
                         (let r = the (b_self child); h1 = fmupd r child h
                          in case sshbuf_consume (length s + 4) b of
                               (Inl e, b') \<Rightarrow> (Inl e, sshbuf_free (Some r) (fmupd p b' h1))
                             | (Inr _, b') \<Rightarrow>
                                 (case sshbuf_set_parent r p (fmupd p b' h1) of
                                    (Inl e, h2) \<Rightarrow> (Inl e, sshbuf_free (Some r) h2)
                                  | (Inr _, h2) \<Rightarrow> (Inr r, h2)))))))"

section \<open>The invariant of a heap of buffers\<close>

definition children :: "heap \<Rightarrow> nat \<Rightarrow> nat set" where
  "children h p = {c. \<exists>b. fmlookup h c = Some b \<and> b_parent b = Some p}"

text \<open>A child is read-only and its bytes are a part of its parent's allocation.\<close>

definition shares :: "sshbuf \<Rightarrow> sshbuf \<Rightarrow> bool" where
  "shares c p \<longleftrightarrow> b_readonly c \<and>
     (\<exists>i. b_cd c = map_option (\<lambda>a. a + i) (b_cd p) \<and>
          b_mem c = take (length (b_mem c)) (drop i (b_mem p)))"

text \<open>
  Every live buffer is sane and knows its address, its parent is live and holds the bytes
  the child points to, and its reference count covers its children; what is left over are
  the references its users hold.
\<close>

definition buffer_inv :: "heap \<Rightarrow> nat \<Rightarrow> sshbuf \<Rightarrow> bool" where
  "buffer_inv h p b \<longleftrightarrow>
     good_sshbuf b \<and> b_self b = Some p \<and> card (children h p) \<le> b_refcount b \<and>
     (\<forall>q. b_parent b = Some q \<longrightarrow> (\<exists>pb. fmlookup h q = Some pb \<and> shares b pb))"

definition heap_inv :: "heap \<Rightarrow> bool" where
  "heap_inv h \<longleftrightarrow> (\<forall>p b. fmlookup h p = Some b \<longrightarrow> buffer_inv h p b)"

text \<open>Someone other than its children holds a reference to the buffer.\<close>

definition owned :: "heap \<Rightarrow> nat \<Rightarrow> bool" where
  "owned h p \<longleftrightarrow> (\<exists>b. fmlookup h p = Some b \<and> card (children h p) < b_refcount b)"

lemma heap_invD:
  assumes "heap_inv h" and "fmlookup h p = Some b"
  shows "good_sshbuf b" and "b_self b = Some p" and "card (children h p) \<le> b_refcount b"
    and "b_parent b = Some q \<Longrightarrow> \<exists>pb. fmlookup h q = Some pb \<and> shares b pb"
    and "wf_sshbuf b" and "b_parent b \<noteq> Some p"
  using assms wf_sshbufD(11)[of b] unfolding heap_inv_def buffer_inv_def good_sshbuf_def
  by (blast | fastforce)+

lemma finite_children [simp]: "finite (children h p)"
  by (rule finite_subset[of _ "fmdom' h"]) (auto simp: children_def intro: fmdom'I)

lemma children_upd_same:
  assumes "fmlookup h p = Some b" and "b_parent b' = b_parent b"
  shows "children (fmupd p b' h) q = children h q"
  using assms by (auto simp: children_def split: if_splits)

lemma children_drop: "children (fmdrop p h) q = children h q - {p}"
  by (auto simp: children_def)

lemma children_new:
  "fmlookup h r = None \<Longrightarrow>
   children (fmupd r c h) q = (if b_parent c = Some q then insert r (children h q) else children h q)"
  by (auto simp: children_def)

text \<open>
  Replacing a buffer by one with the same parent: enough references must remain, and the
  bytes may only change when no child points to them.
\<close>

lemma heap_inv_upd:
  assumes inv: "heap_inv h" and p: "fmlookup h p = Some b"
    and b': "good_sshbuf b'" "b_self b' = b_self b" "b_parent b' = b_parent b"
      "b_readonly b' = b_readonly b" "card (children h p) \<le> b_refcount b'"
    and mem: "b_readonly b \<or> children h p \<noteq> {} \<Longrightarrow> b_mem b' = b_mem b \<and> b_cd b' = b_cd b"
  shows "heap_inv (fmupd p b' h)"
  unfolding heap_inv_def buffer_inv_def children_upd_same[OF p b'(3)]
proof (intro allI impI)
  fix q c assume q: "fmlookup (fmupd p b' h) q = Some c"
  obtain c0 where c0: "fmlookup h q = Some c0" and cases: "q = p \<and> c0 = b \<and> c = b' \<or> q \<noteq> p \<and> c = c0"
    using q p by (auto split: if_splits)
  have par: "\<exists>pb. fmlookup (fmupd p b' h) r = Some pb \<and> shares c pb" if r: "b_parent c = Some r" for r
  proof -
    have r0: "b_parent c0 = Some r" using r cases b'(3) by auto
    obtain pb where pb: "fmlookup h r = Some pb" and sh: "shares c0 pb"
      using heap_invD(4)[OF inv c0 r0] by blast
    have sh': "shares c pb"
      using sh cases mem b'(4) by (auto simp: shares_def)
    show ?thesis
    proof (cases "r = p")
      case True
      then have "children h p \<noteq> {}" using c0 r0 by (auto simp: children_def)
      then have "b_mem b' = b_mem pb \<and> b_cd b' = b_cd pb" using mem True pb p by auto
      then have "shares c b'" using sh' by (simp add: shares_def)
      then show ?thesis using True by simp
    qed (use pb sh' in simp)
  qed
  then show "good_sshbuf c \<and> b_self c = Some q \<and> card (children h q) \<le> b_refcount c \<and>
      (\<forall>r. b_parent c = Some r \<longrightarrow> (\<exists>pb. fmlookup (fmupd p b' h) r = Some pb \<and> shares c pb))"
    using cases b' heap_invD(1-3)[OF inv c0] by auto
qed

text \<open>Releasing one of several references.\<close>

lemma heap_inv_release:
  assumes inv: "heap_inv h" and p: "fmlookup h p = Some b" and own: "owned h p"
    and more: "b_refcount b - 1 > 0"
  shows "heap_inv (fmupd p (b\<lparr>b_refcount := b_refcount b - 1\<rparr>) h)"
proof (rule heap_inv_upd[OF inv p])
  show "good_sshbuf (b\<lparr>b_refcount := b_refcount b - 1\<rparr>)"
    using heap_invD(1)[OF inv p] more by (auto simp: good_sshbuf_def wf_sshbuf_def sshbuf_insane_def)
qed (use own p in \<open>auto simp: owned_def\<close>)

text \<open>Dropping a buffer without children frees its reference to the parent.\<close>

lemma heap_inv_drop:
  assumes inv: "heap_inv h" and p: "fmlookup h p = Some b" and none: "children h p = {}"
  shows "heap_inv (fmdrop p h)"
    and "b_parent b = Some q \<Longrightarrow> owned (fmdrop p h) q"
proof -
  have le: "card (children (fmdrop p h) q) \<le> card (children h q)" for q
    unfolding children_drop by (rule card_mono) auto
  show "heap_inv (fmdrop p h)"
    unfolding heap_inv_def buffer_inv_def
  proof (intro allI impI)
    fix q c assume q: "fmlookup (fmdrop p h) q = Some c"
    then have qh: "fmlookup h q = Some c" and "q \<noteq> p" by (auto split: if_splits)
    have "b_parent c \<noteq> Some p"
      using none qh by (auto simp: children_def)
    then show "good_sshbuf c \<and> b_self c = Some q \<and> card (children (fmdrop p h) q) \<le> b_refcount c \<and>
        (\<forall>r. b_parent c = Some r \<longrightarrow> (\<exists>pb. fmlookup (fmdrop p h) r = Some pb \<and> shares c pb))"
      using heap_invD(1-4)[OF inv qh] le[of q] by (auto intro: order_trans)
  qed
  show "owned (fmdrop p h) q" if par: "b_parent b = Some q"
  proof -
    have "p \<in> children h q" using p par by (auto simp: children_def)
    then have "card (children (fmdrop p h) q) < card (children h q)"
      unfolding children_drop by (intro psubset_card_mono) auto
    moreover obtain c where "fmlookup h q = Some c" using heap_invD(4)[OF inv p par] by blast
    moreover have "q \<noteq> p" using heap_invD(6)[OF inv p] par by auto
    ultimately show ?thesis using heap_invD(3)[OF inv] by (fastforce simp: owned_def)
  qed
qed

text \<open>A buffer without references is invisible to \<^verbatim>\<open>sshbuf_free\<close>.\<close>

lemma free_fmdrop:
  "fmlookup h p = Some c \<Longrightarrow> sshbuf_insane c \<Longrightarrow>
   fmdrop p (sshbuf_free q h) = sshbuf_free q (fmdrop p h)"
proof (induction q h rule: sshbuf_free.induct)
  case (1 h)
  then show ?case by simp
next
  case (2 q h)
  show ?case
  proof (cases "fmlookup h q")
    case None
    then show ?thesis by simp
  next
    case (Some b)
    show ?thesis
    proof (cases "sshbuf_insane b")
      case True
      then show ?thesis using Some by simp
    next
      case False
      with 2 Some have neq: "q \<noteq> p" by auto
      define h1 where "h1 = fmupd q (b\<lparr>b_refcount := b_refcount b - 1\<rparr>) h"
      have comm: "fmdrop p h1 = fmupd q (b\<lparr>b_refcount := b_refcount b - 1\<rparr>) (fmdrop p h)"
        using neq by (intro fmap_ext) (auto simp: h1_def)
      show ?thesis
      proof (cases "b_refcount b - 1 > 0")
        case True
        then show ?thesis using Some False neq comm by (simp add: h1_def)
      next
        case nz: False
        have "fmdrop p (sshbuf_free (b_parent b) h1) = sshbuf_free (b_parent b) (fmdrop p h1)"
          unfolding h1_def using 2 Some False nz neq by (intro "2.IH") auto
        then show ?thesis
          using Some False nz neq comm
          by (simp add: h1_def fmdrop_comm[of p q])
      qed
    qed
  qed
qed

text \<open>
  \<^verbatim>\<open>sshbuf_free\<close> of a buffer the caller holds a reference to keeps the invariant, and the
  buffers that stay keep everything but their reference count.
\<close>

lemma free_inv:
  "heap_inv h \<Longrightarrow> (\<And>r. p = Some r \<Longrightarrow> owned h r) \<Longrightarrow> heap_inv (sshbuf_free p h)"
proof (induction "card (fmdom' h)" arbitrary: p h rule: less_induct)
  case less
  show ?case
  proof (cases p)
    case None
    then show ?thesis using less.prems by simp
  next
    case (Some r)
    then obtain b where b: "fmlookup h r = Some b" and own: "card (children h r) < b_refcount b"
      using less.prems by (auto simp: owned_def)
    have sane: "\<not> sshbuf_insane b" using wf_sshbufD(1)[OF heap_invD(5)[OF less.prems(1) b]] .
    show ?thesis
    proof (cases "b_refcount b - 1 > 0")
      case True
      then show ?thesis
        using heap_inv_release[OF less.prems(1) b] less.prems Some b sane by simp
    next
      case False
      define c where "c = b\<lparr>b_refcount := b_refcount b - 1\<rparr>"
      have ins: "sshbuf_insane c" using False by (simp add: c_def sshbuf_insane_def)
      have "card (children h r) = 0" using own False by linarith
      then have none: "children h r = {}" by simp
      have drop: "fmdrop r (fmupd r c h) = fmdrop r h" by (intro fmap_ext) simp
      have "sshbuf_free p h = fmdrop r (sshbuf_free (b_parent b) (fmupd r c h))"
        using Some b sane False by (simp add: c_def)
      also have "\<dots> = sshbuf_free (b_parent b) (fmdrop r h)"
        using free_fmdrop[of "fmupd r c h" r c] ins by (simp add: drop)
      moreover have "card (fmdom' (fmdrop r h)) < card (fmdom' h)"
        using b by (intro psubset_card_mono) (auto intro: fmdom'I)
      ultimately show ?thesis
        using less.hyps[of "fmdrop r h" "b_parent b"] heap_inv_drop[OF less.prems(1) b none] by metis
    qed
  qed
qed

section \<open>Creating children\<close>

lemma heap_inv_new:
  assumes inv: "heap_inv h" and r: "fmlookup h r = None" and c: "good_sshbuf c" "b_self c = Some r"
    "b_parent c = None" and fresh: "children h r = {}"
  shows "heap_inv (fmupd r c h)"
proof -
  have "b_parent b \<noteq> Some r" if "fmlookup h p = Some b" for p b
    using that fresh by (auto simp: children_def)
  then show ?thesis
    unfolding heap_inv_def buffer_inv_def children_new[OF r]
    using heap_invD(1-4)[OF inv] c fresh r by (auto split: if_splits)
qed

lemma no_children_unused: "heap_inv h \<Longrightarrow> fmlookup h r = None \<Longrightarrow> children h r = {}"
  unfolding children_def using heap_invD(4) by fastforce

text \<open>Attaching a new buffer to a parent that holds its bytes and has references to spare.\<close>

lemma heap_inv_attach:
  assumes inv: "heap_inv h" and r: "fmlookup h r = None" and p: "fmlookup h p = Some b"
    and c: "good_sshbuf c" "b_self c = Some r" "shares c b" and room: "b_refcount b < SSHBUF_REFS_MAX"
  shows "heap_inv (fmupd p (b\<lparr>b_refcount := b_refcount b + 1\<rparr>) (fmupd r (c\<lparr>b_parent := Some p\<rparr>) h))"
    (is "heap_inv ?h")
  unfolding heap_inv_def buffer_inv_def
proof (intro allI impI)
  have neq: "r \<noteq> p" using r p by auto
  have ch: "children ?h q = (if q = p then insert r (children h q) else children h q)" for q
    using neq p r by (auto simp: children_def split: if_splits)
  have notin: "r \<notin> children h q" for q using r by (auto simp: children_def)
  have wf': "good_sshbuf (c\<lparr>b_parent := Some p\<rparr>)" "good_sshbuf (b\<lparr>b_refcount := b_refcount b + 1\<rparr>)"
    using c(1,2) heap_invD(1)[OF inv p] neq room
    by (auto simp: good_sshbuf_def wf_sshbuf_def sshbuf_insane_def)
  have par: "\<exists>pb. fmlookup ?h s = Some pb \<and> shares d pb"
    if "fmlookup h q = Some d" "b_parent d = Some s" for q d s
    using heap_invD(4)[OF inv that] p r by (auto simp: shares_def)
  have sh: "shares (b\<lparr>b_refcount := n\<rparr>) d = shares b d" for n d by (simp add: shares_def)
  fix q d assume q: "fmlookup ?h q = Some d"
  consider "q = p" "d = b\<lparr>b_refcount := b_refcount b + 1\<rparr>" | "q = r" "d = c\<lparr>b_parent := Some p\<rparr>"
    | "q \<noteq> p" "q \<noteq> r" "fmlookup h q = Some d"
    using q by (auto split: if_splits)
  then show "good_sshbuf d \<and> b_self d = Some q \<and> card (children ?h q) \<le> b_refcount d \<and>
      (\<forall>s. b_parent d = Some s \<longrightarrow> (\<exists>pb. fmlookup ?h s = Some pb \<and> shares d pb))"
  proof cases
    case 1
    moreover have "card (children ?h q) \<le> b_refcount d"
      unfolding ch using 1 heap_invD(3)[OF inv p] notin[of p] by simp
    ultimately show ?thesis
      using heap_invD(2)[OF inv p] wf' par[OF p] by (simp add: sh)
  next
    case 2
    moreover have "children ?h q = {}"
      unfolding ch using 2 neq no_children_unused[OF inv r] by simp
    ultimately show ?thesis
      using c wf' neq by (auto simp: shares_def)
  next
    case 3
    moreover have "children ?h q = children h q" unfolding ch using 3 by simp
    ultimately show ?thesis
      using heap_invD(1-3)[OF inv 3(3)] par[OF 3(3)] by simp
  qed
qed

text \<open>The allocator hands out an address that no live buffer has.\<close>

definition fresh_for :: "libc \<Rightarrow> heap \<Rightarrow> bool" where
  "fresh_for lc h \<longleftrightarrow> (\<forall>r. malloc lc sizeof_sshbuf = Some r \<longrightarrow> fmlookup h r = None)"

lemma from_child:
  assumes mk: "sshbuf_from lc blob bytes = Some c" and fr: "fresh_for lc h"
  shows "good_sshbuf c" and "b_self c = Some (the (b_self c))" and "fmlookup h (the (b_self c)) = None"
    and "b_readonly c" and "b_mem c = bytes" and "b_cd c = blob" and "b_parent c = None"
proof -
  obtain x where c: "c = \<lparr>b_self = Some x, b_d = None, b_cd = blob, b_mem = bytes, b_off = 0,
      b_size = length bytes, b_max_size = length bytes, b_alloc = length bytes,
      b_readonly = True, b_refcount = 1, b_parent = None\<rparr>" and x: "malloc lc sizeof_sshbuf = Some x"
    using mk by (auto simp: sshbuf_from_def Let_def split: if_splits option.splits)
  show "good_sshbuf c" using sshbuf_from_wf[OF mk] c by (simp add: good_sshbuf_def)
  show "b_self c = Some (the (b_self c))" and "fmlookup h (the (b_self c)) = None"
    and "b_readonly c" and "b_mem c = bytes" and "b_cd c = blob" and "b_parent c = None"
    using fr x by (simp_all add: c fresh_for_def)
qed

text \<open>What \<^verbatim>\<open>sshbuf_set_parent\<close> does to a buffer just made by \<^verbatim>\<open>sshbuf_from\<close>.\<close>

lemma set_parent_new:
  assumes inv: "heap_inv h" and p: "fmlookup h p = Some b"
    and mk: "sshbuf_from lc blob bytes = Some c" and fr: "fresh_for lc h"
    and r: "r = the (b_self c)"
  shows "sshbuf_set_parent r p (fmupd r c h) =
     (Inr (), fmupd p (b\<lparr>b_refcount := b_refcount b + 1\<rparr>) (fmupd r (c\<lparr>b_parent := Some p\<rparr>) h))"
proof -
  have neq: "r \<noteq> p" using from_child(3)[OF mk fr] p r by auto
  have upd: "fmupd r x (fmupd r c h) = fmupd r x h" for x by (intro fmap_ext) simp
  show ?thesis
    using p neq from_child[OF mk fr] heap_invD(5)[OF inv p]
    by (simp add: sshbuf_set_parent_def good_sshbuf_def wf_sshbuf_def upd)
qed

lemma fromb_spec:
  assumes inv: "heap_inv h" and p: "fmlookup h p = Some b" and fr: "fresh_for lc h"
    and room: "b_refcount b < SSHBUF_REFS_MAX" and run: "sshbuf_fromb lc p h = (res, h')"
  shows "heap_inv h'"
    and "res = Some r \<Longrightarrow> \<exists>c. fmlookup h' r = Some c \<and> contents c = contents b \<and>
           b_parent c = Some p \<and> b_cd c = sshbuf_ptr b \<and> owned h' r"
proof -
  have sane: "\<not> sshbuf_insane b" using heap_invD(5)[OF inv p] by (simp add: wf_sshbuf_def)
  have bytes: "mem_read 0 (sshbuf_len b) b = contents b"
    using sane by (simp add: mem_read_def sshbuf_len_def contents_def)
  show "heap_inv h'"
  proof (cases "sshbuf_from lc (sshbuf_ptr b) (contents b)")
    case None
    then show ?thesis using run p sane inv by (simp add: sshbuf_fromb_def bytes)
  next
    case (Some c)
    note fc = from_child[OF Some fr]
    have "shares c b"
      using fc sane length_contents[OF heap_invD(5)[OF inv p]]
      by (auto simp: shares_def sshbuf_ptr_def contents_def intro!: exI[of _ "b_off b"])
    then show ?thesis
      using run p sane Some set_parent_new[OF inv p Some fr refl]
        heap_inv_attach[OF inv fc(3) p fc(1,2) _ room]
      by (simp add: sshbuf_fromb_def bytes Let_def)
  qed
  show "\<exists>c. fmlookup h' r = Some c \<and> contents c = contents b \<and> b_parent c = Some p \<and>
      b_cd c = sshbuf_ptr b \<and> owned h' r" if "res = Some r"
  proof (cases "sshbuf_from lc (sshbuf_ptr b) (contents b)")
    case None
    then show ?thesis using run p sane that by (simp add: sshbuf_fromb_def bytes)
  next
    case (Some c)
    note fc = from_child[OF Some fr]
    have h': "h' = fmupd p (b\<lparr>b_refcount := b_refcount b + 1\<rparr>) (fmupd r (c\<lparr>b_parent := Some p\<rparr>) h)"
      and r: "r = the (b_self c)"
      using run p sane Some set_parent_new[OF inv p Some fr refl] that
      by (auto simp: sshbuf_fromb_def bytes Let_def)
    have "r \<noteq> p" using fc(3) p r by auto
    moreover have "children h' r = {}"
      using no_children_unused[OF inv fc(3)] p heap_invD(6)[OF inv p] r \<open>r \<noteq> p\<close>
      by (auto simp: h' children_def split: if_splits)
    ultimately show ?thesis
      using sshbuf_from_wf[OF Some] by (simp add: h' owned_def contents_def)
  qed
qed

lemma consume_frame:
  "b_mem (snd (sshbuf_consume n b)) = b_mem b" "b_cd (snd (sshbuf_consume n b)) = b_cd b"
  by (auto simp: sshbuf_consume_def Let_def)

lemma get_frame:
  "b_mem (snd (sshbuf_get n b)) = b_mem b" "b_cd (snd (sshbuf_get n b)) = b_cd b"
  "b_mem (snd (sshbuf_get_u64 b)) = b_mem b" "b_cd (snd (sshbuf_get_u64 b)) = b_cd b"
  "b_mem (snd (sshbuf_get_u32 b)) = b_mem b" "b_cd (snd (sshbuf_get_u32 b)) = b_cd b"
  "b_mem (snd (sshbuf_get_u16 b)) = b_mem b" "b_cd (snd (sshbuf_get_u16 b)) = b_cd b"
  "b_mem (snd (sshbuf_get_u8 b)) = b_mem b" "b_cd (snd (sshbuf_get_u8 b)) = b_cd b"
  unfolding sshbuf_get_def sshbuf_get_u64_def sshbuf_get_u32_def sshbuf_get_u16_def
    sshbuf_get_u8_def snd_bind_ret by (rule consume_frame)+

lemma consume_inv:
  assumes inv: "heap_inv h" and p: "fmlookup h p = Some b"
  shows "heap_inv (fmupd p (snd (sshbuf_consume n b)) h)"
  using good_call[of b "Call_consume n"] heap_invD(1,3)[OF inv p] limits_basic(1)[of b n] consume_frame
  by (intro heap_inv_upd[OF inv p]) (auto simp: same_limits_def)

lemma shares_string:
  assumes wf: "wf_sshbuf b" and str: "wire_string (contents b) = Inr (s, rest)"
    and c: "b_readonly c" "b_cd c = map_option (\<lambda>q. q + 4) (sshbuf_ptr b)" "b_mem c = s"
  shows "shares c b"
proof -
  have "contents b = take 4 (contents b) @ s @ rest" and l: "4 + length s \<le> length (contents b)"
    using wire_string_InrD[OF str] by auto
  then have "drop 4 (contents b) = s @ rest"
    by (metis add_leD1 append_eq_conv_conj length_take min.absorb2)
  then have "s = take (length s) (drop 4 (contents b))" by simp
  also have "\<dots> = take (length s) (drop (b_off b + 4) (b_mem b))"
  proof -
    have "length s \<le> b_size b - (b_off b + 4)" using l length_contents[OF wf] by simp
    then show ?thesis by (simp add: contents_def drop_take add.commute min.absorb1)
  qed
  finally show ?thesis
    using c wf by (auto simp: shares_def sshbuf_ptr_def wf_sshbuf_def option.map_comp comp_def
        add.assoc intro!: exI[of _ "b_off b + 4"])
qed

lemma froms_spec:
  assumes inv: "heap_inv h" and p: "fmlookup h p = Some b" and fr: "fresh_for lc h"
    and room: "b_refcount b < SSHBUF_REFS_MAX" and run: "sshbuf_froms lc (Some p) h = (res, h')"
  shows "heap_inv h'"
proof (cases "wire_string (contents b)")
  case (Inl e)
  then show ?thesis
    using run p inv peek_string_spec[OF heap_invD(5)[OF inv p]] by (simp add: sshbuf_froms_def)
next
  case (Inr sr)
  obtain s rest where sr: "sr = (s, rest)" by fastforce
  note wf = heap_invD(5)[OF inv p]
  note str = Inr[unfolded sr]
  have peek: "sshbuf_peek_string_direct b = Inr s" by (simp add: peek_string_spec[OF wf] str)
  show ?thesis
  proof (cases "sshbuf_from lc (map_option (\<lambda>q. q + 4) (sshbuf_ptr b)) s")
    case None
    then show ?thesis using run p inv peek by (simp add: sshbuf_froms_def)
  next
    case (Some c)
    note fc = from_child[OF Some fr]
    define r where "r = the (b_self c)"
    obtain b' where cons: "sshbuf_consume (length s + 4) b = (Inr (), b')"
      using consume_spec(1)[OF wf, of "length s + 4"] wire_string_InrD[OF str] by auto
    define h0 where "h0 = fmupd p b' h"
    have inv0: "heap_inv h0" and p0: "fmlookup h0 p = Some b'"
      using consume_inv[OF inv p, of "length s + 4"] cons by (simp_all add: h0_def)
    have neq: "r \<noteq> p" using fc(3) p by (auto simp: r_def)
    have swap: "fmupd p b' (fmupd r c h) = fmupd r c h0"
      using neq by (intro fmap_ext) (auto simp: h0_def)
    have fr0: "fresh_for lc h0" using fr p by (auto simp: fresh_for_def h0_def)
    have sh: "shares c b'"
      using shares_string[OF wf str fc(4,6,5)] consume_frame[of "length s + 4" b] cons
      by (simp add: shares_def)
    have "b_refcount b' < SSHBUF_REFS_MAX"
      using room limits_basic(1)[of b "length s + 4"] cons by (simp add: same_limits_def)
    from heap_inv_attach[OF inv0 from_child(3)[OF Some fr0] p0 fc(1,2) sh this]
    show ?thesis
      using run p peek Some cons swap set_parent_new[OF inv0 p0 Some fr0 refl]
      by (simp add: sshbuf_froms_def r_def Let_def)
  qed
qed

section \<open>Other calls leave shared bytes alone\<close>

lemma reserve_unwritable:
  assumes "wf_sshbuf b" and "\<not> writable b"
  shows "sshbuf_reserve lc n b = (Inl SSH_ERR_BUFFER_READ_ONLY, b)"
  using assms by (auto simp: sshbuf_reserve_def sshbuf_allocate_def sshbuf_check_reserve_def bind_op_def
      writable_def wf_sshbuf_def)

lemma call_unwritable:
  assumes wf: "wf_sshbuf b" and no: "\<not> writable b"
  shows "b_mem (do_call lc c b) = b_mem b \<and> b_cd (do_call lc c b) = b_cd b"
proof -
  note res = reserve_unwritable[OF wf no]
  have cons: "b_mem b' = b_mem b \<and> b_cd b' = b_cd b" if "sshbuf_consume n b = (r, b')" for n r b'
    using consume_frame[of n b] that by simp
  have strd: "b_mem b' = b_mem b \<and> b_cd b' = b_cd b" if "sshbuf_get_string_direct b = (r, b')" for r b'
    using that by (auto simp: sshbuf_get_string_direct_def split: sum.splits prod.splits dest: cons)
  show ?thesis
  proof (cases c)
    case (Call_putf s)
    then show ?thesis using res by (simp add: sshbuf_putf_def sshbuf_putfv_def bind_op_def op_simps split: option.split)
  next
    case (Call_poke i v)
    then show ?thesis using no
      by (auto simp: sshbuf_poke_def check_woffset_def sshbuf_mutable_ptr_def writable_def split: sum.splits)
  next
    case (Call_set_max_size n)
    then show ?thesis using no by (auto simp: sshbuf_set_max_size_def writable_def Let_def)
  next
    case Call_reset
    then show ?thesis using no by (auto simp: sshbuf_reset_def writable_def)
  next
    case Call_get_string
    then show ?thesis
      by (auto simp: sshbuf_get_string_def bind_op_def op_simps split: sum.splits prod.splits dest: strd)
  next
    case Call_get_cstring
    then show ?thesis
      by (auto simp: sshbuf_get_cstring_def split: sum.splits prod.splits dest: strd cons)
  next
    case Call_get_bignum2
    then show ?thesis
      by (auto simp: sshbuf_get_bignum2_bytes_direct_def Let_def split: sum.splits prod.splits dest: cons)
  next
    case (Call_get_nulterminated n)
    then show ?thesis
      by (auto simp: sshbuf_get_nulterminated_string_def split: sum.splits prod.splits dest: cons)
  next
    case (Call_consume_end n)
    then show ?thesis by (auto simp: sshbuf_consume_end_def)
  qed (auto simp: res sshbuf_put_def put_ints_eq sshbuf_put_string_def sshbuf_put_bignum2_bytes_def
      bind_op_def op_simps Let_def consume_frame get_frame)
qed

lemma call_frame:
  "b_self (do_call lc c b) = b_self b \<and> b_parent (do_call lc c b) = b_parent b \<and>
   b_readonly (do_call lc c b) = b_readonly b \<and> b_refcount (do_call lc c b) = b_refcount b"
proof (cases c)
  case (Call_set_max_size n)
  then show ?thesis
    by (auto simp: sshbuf_set_max_size_def Let_def buf_frame split: option.splits)
next
  case Call_reset
  then show ?thesis using reset_limits[of b lc] by (simp add: same_limits_def)
qed (use limits_all[unfolded same_limits_def] in \<open>simp_all add: put_ints_eq\<close>)

lemma call_inv:
  assumes inv: "heap_inv h" and own: "owned h p" and p: "fmlookup h p = Some b" and c: "sized_call c"
  shows "heap_inv (fmupd p (do_call lc c b) h)"
proof (rule heap_inv_upd[OF inv p])
  show "good_sshbuf (do_call lc c b)" by (rule good_call[OF heap_invD(1)[OF inv p] c])
  show "b_mem (do_call lc c b) = b_mem b \<and> b_cd (do_call lc c b) = b_cd b"
    if "b_readonly b \<or> children h p \<noteq> {}"
  proof (rule call_unwritable[OF heap_invD(5)[OF inv p]])
    show "\<not> writable b"
    proof
      assume wr: "writable b"
      have "card (children h p) < b_refcount b" using own p by (simp add: owned_def)
      with wr have "card (children h p) = 0" unfolding writable_def by linarith
      then show False using that wr by (simp add: writable_def)
    qed
  qed
qed (use call_frame[of lc c b] heap_invD(3)[OF inv p] in simp_all)

section \<open>All programs on the heap\<close>

text \<open>
  One call of the buffer interface. Callers only use buffers they hold a reference to, the
  allocator returns unused addresses, and no buffer ever has the maximum number of
  references when another child is made.
\<close>

inductive heap_step :: "heap \<Rightarrow> heap \<Rightarrow> bool" where
  step_new: "sshbuf_new lc = Some b \<Longrightarrow> b_self b = Some r \<Longrightarrow> fmlookup h r = None \<Longrightarrow>
     heap_step h (fmupd r b h)"
| step_from: "sshbuf_from lc blob bytes = Some b \<Longrightarrow> b_self b = Some r \<Longrightarrow> fmlookup h r = None \<Longrightarrow>
     heap_step h (fmupd r b h)"
| step_fromb: "owned h p \<Longrightarrow> fmlookup h p = Some b \<Longrightarrow> b_refcount b < SSHBUF_REFS_MAX \<Longrightarrow>
     fresh_for lc h \<Longrightarrow> heap_step h (snd (sshbuf_fromb lc p h))"
| step_froms: "owned h p \<Longrightarrow> fmlookup h p = Some b \<Longrightarrow> b_refcount b < SSHBUF_REFS_MAX \<Longrightarrow>
     fresh_for lc h \<Longrightarrow> heap_step h (snd (sshbuf_froms lc (Some p) h))"
| step_free: "owned h p \<Longrightarrow> heap_step h (sshbuf_free (Some p) h)"
| step_call: "owned h p \<Longrightarrow> fmlookup h p = Some b \<Longrightarrow> sized_call c \<Longrightarrow>
     heap_step h (fmupd p (do_call lc c b) h)"

lemma heap_step_inv: "heap_step h h' \<Longrightarrow> heap_inv h \<Longrightarrow> heap_inv h'"
proof (induction rule: heap_step.induct)
  case (step_new lc b r h)
  then show ?case
    using sshbuf_new_good[of lc b]
    by (intro heap_inv_new) (auto simp: no_children_unused sshbuf_new_def split: option.splits)
next
  case (step_from lc blob bytes b r h)
  have "fresh_for lc fmempty" by (simp add: fresh_for_def)
  with step_from show ?case
    using from_child(1,7)[OF step_from(1)] by (intro heap_inv_new) (auto simp: no_children_unused)
next
  case (step_fromb h p b lc)
  then show ?case using fromb_spec(1)[of h p b lc] by (metis prod.collapse)
next
  case (step_froms h p b lc)
  then show ?case using froms_spec[of h p b lc] by (metis prod.collapse)
next
  case (step_free h p)
  then show ?case using free_inv[of h "Some p"] by simp
next
  case (step_call h p b c lc)
  then show ?case by (intro call_inv) auto
qed

lemma reachable_inv: "heap_step\<^sup>*\<^sup>* fmempty h \<Longrightarrow> heap_inv h"
  by (induction rule: rtranclp_induct) (auto simp: heap_inv_def heap_step_inv[unfolded heap_inv_def])

text \<open>
  C8. No sequence of buffer calls leaves a dangling parent: in every heap a program can reach
  with references it holds, every live buffer passes the sanity check, the parent of a live
  child is itself live (it is not freed before its last child) and still holds the bytes the
  child points to, and it refuses writes while someone else than the child holds it.
\<close>

theorem children_never_dangle:
  assumes "heap_step\<^sup>*\<^sup>* fmempty h" and "fmlookup h r = Some c"
  shows "\<not> sshbuf_insane c \<and>
    (\<forall>p. b_parent c = Some p \<longrightarrow>
       (\<exists>b. fmlookup h p = Some b \<and> \<not> sshbuf_insane b \<and> shares c b \<and>
            (owned h p \<longrightarrow> sshbuf_reserve lc n b = (Inl SSH_ERR_BUFFER_READ_ONLY, b))))"
proof (intro conjI allI impI)
  have inv: "heap_inv h" by (rule reachable_inv[OF assms(1)])
  show "\<not> sshbuf_insane c" using wf_sshbufD(1)[OF heap_invD(5)[OF inv assms(2)]] .
  fix p assume par: "b_parent c = Some p"
  obtain b where b: "fmlookup h p = Some b" "shares c b"
    using heap_invD(4)[OF inv assms(2) par] by blast
  note wf = heap_invD(5)[OF inv b(1)]
  have "r \<in> children h p" using assms(2) par by (auto simp: children_def)
  then have "card (children h p) > 0" by (auto simp: card_gt_0_iff)
  then have "owned h p \<Longrightarrow> \<not> writable b" using b by (auto simp: owned_def writable_def)
  then show "\<exists>b. fmlookup h p = Some b \<and> \<not> sshbuf_insane b \<and> shares c b \<and>
      (owned h p \<longrightarrow> sshbuf_reserve lc n b = (Inl SSH_ERR_BUFFER_READ_ONLY, b))"
    using b wf_sshbufD(1)[OF wf] reserve_unwritable[OF wf] by blast
qed

text \<open>The witness creates a buffer, makes a child of it, and frees the parent.\<close>

definition child0 :: sshbuf where
  "child0 = \<lparr>b_self = Some 64, b_d = None, b_cd = Some 4352, b_mem = [], b_off = 0, b_size = 0,
             b_max_size = 0, b_alloc = 0, b_readonly = True, b_refcount = 1, b_parent = Some 4160\<rparr>"

definition lc_child :: libc where
  "lc_child = \<lparr>malloc = (\<lambda>n. Some 64), pagesize = 4096\<rparr>"

lemma children_witness_steps:
  "heap_step\<^sup>*\<^sup>* fmempty (fmupd 4160 (buf0\<lparr>b_refcount := 1\<rparr>) (fmupd 64 child0 (fmupd 4160 buf0 fmempty)))"
proof -
  let ?h1 = "fmupd 4160 buf0 fmempty"
  let ?h2 = "fmupd 4160 (buf0\<lparr>b_refcount := 2\<rparr>) (fmupd 64 child0 ?h1)"
  have sane: "\<not> sshbuf_insane buf0" "\<not> sshbuf_insane (buf0\<lparr>b_refcount := 2\<rparr>)"
    using buf0_wf(1) by (auto simp: wf_sshbuf_def sshbuf_insane_def buf0_def SSHBUF_REFS_MAX_def)
  have s1: "heap_step fmempty ?h1"
    by (rule step_new[OF sshbuf_new_ok]) (simp_all add: buf0_def)
  have s2: "heap_step ?h1 (snd (sshbuf_fromb lc_child 4160 ?h1))"
    by (rule step_fromb[of _ _ buf0])
      (simp_all add: owned_def children_def fresh_for_def lc_child_def buf0_def SSHBUF_REFS_MAX_def)
  have e2: "snd (sshbuf_fromb lc_child 4160 ?h1) = ?h2"
  proof -
    have "sshbuf_from lc_child (sshbuf_ptr buf0) (mem_read 0 (sshbuf_len buf0) buf0) =
        Some (child0\<lparr>b_parent := None\<rparr>)"
      using sane(1) by (simp add: sshbuf_from_def sshbuf_ptr_def sshbuf_len_def mem_read_def buf0_def
          lc_child_def child0_def)
    moreover have "\<not> sshbuf_insane (child0\<lparr>b_parent := None\<rparr>)"
      by (simp add: sshbuf_insane_def child0_def SSHBUF_REFS_MAX_def)
    moreover have "fmupd 64 child0 (fmupd 64 (child0\<lparr>b_parent := None\<rparr>) ?h1) = fmupd 64 child0 ?h1"
      by (intro fmap_ext) simp
    ultimately show ?thesis
      using sane(1) by (simp add: sshbuf_fromb_def sshbuf_set_parent_def Let_def child0_def buf0_def)
        (simp only: numeral_2_eq_2)
  qed
  have s3: "heap_step ?h2 (sshbuf_free (Some 4160) ?h2)"
  proof (rule step_free)
    have "children ?h2 4160 = {64}"
      by (auto simp: children_def child0_def buf0_def split: if_splits)
    then show "owned ?h2 4160" by (simp add: owned_def)
  qed
  have e3: "sshbuf_free (Some 4160) ?h2 =
      fmupd 4160 (buf0\<lparr>b_refcount := 1\<rparr>) (fmupd 64 child0 ?h1)"
    using sane(2) by (auto intro: fmap_ext)
  show ?thesis
    by (rule converse_rtranclp_into_rtranclp[of heap_step, OF s1],
        rule converse_rtranclp_into_rtranclp[of heap_step, OF s2[unfolded e2]],
        rule converse_rtranclp_into_rtranclp[of heap_step, OF s3[unfolded e3]],
        rule rtranclp.rtrancl_refl)
qed

theorem children_never_dangle_witness:
  "\<exists>b. fmlookup (fmupd 4160 (buf0\<lparr>b_refcount := 1\<rparr>) (fmupd 64 child0 (fmupd 4160 buf0 fmempty))) 4160
        = Some b \<and> \<not> sshbuf_insane b \<and> shares child0 b"
  using children_never_dangle[OF children_witness_steps, of 64 child0] by (auto simp: child0_def)

end
