(* ===== verification/Bitmap.thy ===== *)
theory Bitmap
  imports Prelude
begin

text \<open>
  The bit vectors of \<^verbatim>\<open>bitmap.c\<close>, which key revocation lists use for sparse serial-number
  ranges: the operations, the set of bits a bitmap stands for, and its big-endian byte
  string.
\<close>

unbundle bit_operations_syntax

section \<open>Operations\<close>

definition BITMAP_MAX :: nat where
  "BITMAP_MAX = 2 ^ 24"

definition BITMAP_BYTES :: nat where
  "BITMAP_BYTES = 4"

definition BITMAP_BITS :: nat where
  "BITMAP_BITS = BITMAP_BYTES * 8"

definition BITMAP_WMASK :: nat where
  "BITMAP_WMASK = BITMAP_BITS - 1"

text \<open>\<^verbatim>\<open>struct bitmap\<close>: the pointer \<open>bm_d\<close> and the words it points to, \<open>bm_w\<close>.\<close>

record bitmap =
  bm_d :: ptr
  bm_w :: "32 word list"
  bm_len :: nat
  bm_top :: nat

definition sizeof_bitmap :: nat where
  "sizeof_bitmap = 24"

definition bitmap_new :: "libc \<Rightarrow> bitmap option" where
  "bitmap_new lc =
     (case malloc lc sizeof_bitmap of
        None \<Rightarrow> None
      | Some _ \<Rightarrow>
          (case malloc lc BITMAP_BYTES of
             None \<Rightarrow> None
           | Some d \<Rightarrow> Some \<lparr>bm_d = Some d, bm_w = [0], bm_len = 1, bm_top = 0\<rparr>))"

definition bitmap_zero :: "bitmap \<Rightarrow> bitmap" where
  "bitmap_zero b = b\<lparr>bm_w := replicate (bm_len b) 0, bm_top := 0\<rparr>"

definition bitmap_test_bit :: "bitmap \<Rightarrow> nat \<Rightarrow> bool" where
  "bitmap_test_bit b n =
     (if bm_top b \<ge> bm_len b then False
      else if bm_len b = 0 \<or> n div BITMAP_BITS > bm_top b then False
      else drop_bit (n AND BITMAP_WMASK) (bm_w b ! (n div BITMAP_BITS)) AND 1 \<noteq> 0)"

definition reserve :: "libc \<Rightarrow> nat \<Rightarrow> bitmap \<Rightarrow> int \<times> bitmap" where
  "reserve lc n b =
     (if bm_top b \<ge> bm_len b \<or> n > BITMAP_MAX then (-1, b)
      else
        (let nlen = n div BITMAP_BITS + 1
         in if bm_len b < nlen then
              (case recallocarray lc (bm_d b) (bm_w b) nlen BITMAP_BYTES of
                 None \<Rightarrow> (-1, b)
               | Some (d, w) \<Rightarrow> (0, b\<lparr>bm_d := Some d, bm_w := w, bm_len := nlen\<rparr>))
            else (0, b)))"

definition bitmap_set_bit :: "libc \<Rightarrow> nat \<Rightarrow> bitmap \<Rightarrow> int \<times> bitmap" where
  "bitmap_set_bit lc n b =
     (case reserve lc n b of (r, b1) \<Rightarrow>
       if r \<noteq> 0 then (r, b1)
       else
         (let offset = n div BITMAP_BITS;
              b2 = (if offset > bm_top b1 then b1\<lparr>bm_top := offset\<rparr> else b1)
          in (0, b2\<lparr>bm_w := (bm_w b2)[offset :=
                       bm_w b2 ! offset OR push_bit (n AND BITMAP_WMASK) 1]\<rparr>)))"

fun retop_loop :: "32 word list \<Rightarrow> nat \<Rightarrow> nat" where
  "retop_loop w 0 = 0"
| "retop_loop w (Suc t) = (if w ! Suc t = 0 then retop_loop w t else Suc t)"

definition retop :: "bitmap \<Rightarrow> bitmap" where
  "retop b = (if bm_top b \<ge> bm_len b then b else b\<lparr>bm_top := retop_loop (bm_w b) (bm_top b)\<rparr>)"

definition bitmap_clear_bit :: "nat \<Rightarrow> bitmap \<Rightarrow> bitmap" where
  "bitmap_clear_bit n b =
     (if bm_top b \<ge> bm_len b \<or> n > BITMAP_MAX then b
      else
        (let offset = n div BITMAP_BITS
         in if offset > bm_top b then b
            else retop (b\<lparr>bm_w := (bm_w b)[offset :=
                            bm_w b ! offset AND NOT (push_bit (n AND BITMAP_WMASK) 1)]\<rparr>)))"

text \<open>
  The search for the most significant bit. It does not end on a zero word; \<^verbatim>\<open>bitmap_nbits\<close>
  gives it as much fuel as a word has bits, and \<^const>\<open>None\<close> stands for an endless loop.
\<close>

fun msb_loop :: "nat \<Rightarrow> 32 word \<Rightarrow> nat \<Rightarrow> nat option" where
  "msb_loop 0 w bits = (if w AND push_bit (BITMAP_BITS - 1) 1 \<noteq> 0 then Some bits else None)"
| "msb_loop (Suc fuel) w bits =
     (if w AND push_bit (BITMAP_BITS - 1) 1 \<noteq> 0 then Some bits
      else msb_loop fuel (push_bit 1 w) (bits - 1))"

definition bitmap_nbits :: "bitmap \<Rightarrow> nat option \<times> bitmap" where
  "bitmap_nbits b0 =
     (let b = retop b0
      in if bm_top b \<ge> bm_len b then (Some 0, b)
         else if bm_len b = 0 \<or> (bm_top b = 0 \<and> bm_w b ! 0 = 0) then (Some 0, b)
         else (msb_loop BITMAP_BITS (bm_w b ! bm_top b) ((bm_top b + 1) * BITMAP_BITS), b))"

definition bitmap_nbytes :: "bitmap \<Rightarrow> nat option \<times> bitmap" where
  "bitmap_nbytes b =
     (case bitmap_nbits b of (bits, b1) \<Rightarrow> (map_option (\<lambda>n. (n + 7) div 8) bits, b1))"

text \<open>
  \<^verbatim>\<open>bitmap_to_string(b, p, l)\<close>: \<open>s\<close> are the \<open>l\<close> bytes at \<open>p\<close>. The loop over the bytes \<open>j\<close> of one
  word writes from the end of the string backwards; \<open>k\<close> counts the bytes written.
\<close>

fun to_string_word :: "32 word \<Rightarrow> nat list \<Rightarrow> nat \<Rightarrow> nat \<times> byte list \<Rightarrow> nat \<times> byte list" where
  "to_string_word w [] l ks = ks"
| "to_string_word w (j # js) l (k, s) =
     (if k \<ge> l then (k, s)
      else to_string_word w js l (k + 1, s[l - 1 - k := ucast (drop_bit (j * 8) w AND 0xff)]))"

definition bitmap_to_string :: "bitmap \<Rightarrow> byte list \<Rightarrow> (int \<times> byte list) option \<times> bitmap" where
  "bitmap_to_string b0 s =
     (case bitmap_nbytes b0 of
        (None, b) \<Rightarrow> (None, b)
      | (Some need, b) \<Rightarrow>
          (if length s < need \<or> bm_top b \<ge> bm_len b then (Some (-1, s), b)
           else (Some (0, snd (fold (\<lambda>i. to_string_word (bm_w b ! i) [0..<BITMAP_BYTES] need)
                                    [0..<bm_top b + 1] (0, s))), b)))"

text \<open>
  The loop of \<^verbatim>\<open>bitmap_from_string\<close> over the bytes still to come. After the last byte the C
  code's \<^verbatim>\<open>offset--\<close> may wrap around; the value is not used any more.
\<close>

fun from_string_loop :: "byte list \<Rightarrow> nat \<Rightarrow> nat \<Rightarrow> 32 word list \<Rightarrow> 32 word list" where
  "from_string_loop [] offset shift w = w"
| "from_string_loop (x # xs) offset shift w =
     (let w1 = w[offset := w ! offset OR push_bit shift (ucast x)]
      in if shift = 0 then from_string_loop xs (offset - 1) (BITMAP_BITS - 8) w1
         else from_string_loop xs offset (shift - 8) w1)"

definition bitmap_from_string :: "libc \<Rightarrow> byte list \<Rightarrow> bitmap \<Rightarrow> int \<times> bitmap" where
  "bitmap_from_string lc s b =
     (let l = length s
      in if l > BITMAP_MAX div 8 then (-1, b)
         else
           (case reserve lc (l * 8) b of (r, b1) \<Rightarrow>
             if r \<noteq> 0 then (r, b1)
             else
               (let b2 = bitmap_zero b1
                in if l = 0 then (0, b2)
                   else
                     (let offset = (l + (BITMAP_BYTES - 1)) div BITMAP_BYTES - 1;
                          shift = ((l + (BITMAP_BYTES - 1)) mod BITMAP_BYTES) * 8
                      in (0, retop (b2\<lparr>bm_top := offset,
                                bm_w := from_string_loop s offset shift (bm_w b2)\<rparr>))))))"

section \<open>The set of bits\<close>

definition word_bits :: "32 word list \<Rightarrow> nat set" where
  "word_bits w = {n. n div 32 < length w \<and> bit (w ! (n div 32)) (n mod 32)}"

definition bits :: "bitmap \<Rightarrow> nat set" where
  "bits b = word_bits (bm_w b)"

text \<open>
  The invariant: \<open>top\<close> is the index of an allocated word, the words above it are zero and no
  bit is beyond the maximum.
\<close>

definition bitmap_inv :: "bitmap \<Rightarrow> bool" where
  "bitmap_inv b \<longleftrightarrow> bm_d b \<noteq> None \<and> length (bm_w b) = bm_len b \<and> bm_top b < bm_len b \<and>
     (\<forall>i. bm_top b < i \<longrightarrow> i < bm_len b \<longrightarrow> bm_w b ! i = 0) \<and> bits b \<subseteq> {..BITMAP_MAX}"

lemmas bitmap_consts = BITMAP_BITS_def BITMAP_BYTES_def BITMAP_WMASK_def

lemma and_WMASK [simp]: "n AND BITMAP_WMASK = n mod 32"
proof -
  have eq: "BITMAP_WMASK = mask 5" by (simp add: bitmap_consts mask_eq_exp_minus_1)
  have "n AND mask 5 = take_bit 5 n" by (rule take_bit_eq_mask[symmetric])
  also have "\<dots> = n mod 32" by (simp add: take_bit_eq_mod)
  finally show ?thesis unfolding eq .
qed

lemma BITMAP_BITS_eq [simp]: "BITMAP_BITS = 32"
  by (simp add: bitmap_consts)

lemma and_1_bit: "(w AND 1 \<noteq> 0) = bit (w :: 32 word) 0"
  by (simp add: and_one_eq bit_0 odd_iff_mod_2_eq_one)

lemma bit_exp_32: "n < 32 \<Longrightarrow> bit (2 ^ n :: 32 word) m = (m = n)"
  by (auto simp: bit_simps)

lemma word_bits_update:
  assumes "i < length w"
  shows "word_bits (w[i := v]) =
    {n \<in> word_bits w. n div 32 \<noteq> i} \<union> {n. n div 32 = i \<and> bit v (n mod 32)}"
  using assms by (auto simp: word_bits_def nth_list_update)

lemma div_mod_32: "n div 32 = m div 32 \<Longrightarrow> n mod 32 = m mod 32 \<Longrightarrow> n = (m::nat)"
  by (metis div_mult_mod_eq)

lemma test_bit_iff: "bitmap_inv b \<Longrightarrow> bitmap_test_bit b n = (n \<in> bits b)"
  by (auto simp: bitmap_test_bit_def bitmap_inv_def bits_def word_bits_def and_1_bit bit_drop_bit_eq
      not_less)

lemma bm_reserve_spec:
  assumes inv: "bitmap_inv b" and run: "reserve lc n b = (r, b')"
  shows "bitmap_inv b' \<and> bits b' = bits b \<and> bm_top b' = bm_top b \<and>
    (r = 0 \<longrightarrow> n \<le> BITMAP_MAX \<and> n div 32 < bm_len b') \<and> (r \<noteq> 0 \<longrightarrow> r = -1 \<and> b' = b)"
proof -
  have "i < length w + k \<Longrightarrow> (w @ replicate k 0) ! i = (if i < length w then w ! i else 0)"
    for i k and w :: "32 word list" by (simp add: nth_append)
  then have ext: "word_bits (w @ replicate k 0) = word_bits w" for w k
    by (auto simp: word_bits_def split: if_splits)
  show ?thesis
  proof (cases "n \<le> BITMAP_MAX \<and> bm_len b < n div 32 + 1")
    case True
    show ?thesis
    proof (cases "recallocarray lc (bm_d b) (bm_w b) (n div 32 + 1) BITMAP_BYTES")
      case None
      then show ?thesis using run True inv by (simp add: reserve_def bitmap_inv_def Let_def)
    next
      case (Some dw)
      obtain d w where dw: "dw = (d, w)" by fastforce
      have "w = bm_w b @ replicate (n div 32 + 1 - bm_len b) 0"
        using recallocarray_grow[OF Some[unfolded dw]] inv True by (simp add: bitmap_inv_def bitmap_consts)
      then show ?thesis
        using run True inv Some dw
        by (auto simp: reserve_def bitmap_inv_def Let_def bits_def ext nth_append)
    qed
  next
    case False
    then show ?thesis using run inv by (auto simp: reserve_def bitmap_inv_def Let_def split: if_splits)
  qed
qed

lemma set_bit_spec:
  assumes inv: "bitmap_inv b" and run: "bitmap_set_bit lc n b = (r, b')"
  shows "bitmap_inv b' \<and> (r = 0 \<longrightarrow> bits b' = insert n (bits b)) \<and> (r \<noteq> 0 \<longrightarrow> r = -1 \<and> b' = b)"
proof -
  obtain r1 b1 where res: "reserve lc n b = (r1, b1)" by fastforce
  note R = bm_reserve_spec[OF inv res]
  show ?thesis
  proof (cases "r1 = 0")
    case False
    then show ?thesis using run res R inv by (auto simp: bitmap_set_bit_def)
  next
    case True
    let ?w = "bm_w b1 ! (n div 32) OR push_bit (n mod 32) 1"
    have b': "bm_w b' = (bm_w b1)[n div 32 := ?w]" "bm_top b' = max (bm_top b1) (n div 32)"
      "bm_len b' = bm_len b1" "bm_d b' = bm_d b1" "r = 0"
      using run res True by (auto simp: bitmap_set_bit_def Let_def split: if_splits)
    have lt: "n div 32 < length (bm_w b1)" using R True by (simp add: bitmap_inv_def)
    have "bits b' = insert n (bits b1)"
      using lt div_mod_32[of _ n]
      by (auto simp: bits_def b' word_bits_update bit_or_iff bit_exp_32) (auto simp: word_bits_def)
    moreover from this have "bitmap_inv b'"
      using R lt True by (auto simp: bitmap_inv_def b' nth_list_update)
    ultimately show ?thesis using R b'(5) by simp
  qed
qed

lemma word_zero_iff: "i < length w \<Longrightarrow> w ! i = 0 \<longleftrightarrow> (\<forall>n\<in>word_bits w. n div 32 \<noteq> i)"
proof
  assume i: "i < length w" and none: "\<forall>n\<in>word_bits w. n div 32 \<noteq> i"
  have "\<not> bit (w ! i) k" if "k < 32" for k
  proof -
    have "(32 * i + k) div 32 = i" "(32 * i + k) mod 32 = k" using that by auto
    then have "bit (w ! i) k \<Longrightarrow> 32 * i + k \<in> word_bits w" using i by (simp add: word_bits_def)
    then show ?thesis using none \<open>(32 * i + k) div 32 = i\<close> by blast
  qed
  then show "w ! i = 0" by (intro bit_word_eqI) simp
qed (auto simp: word_bits_def)

lemma retop_loop_spec:
  "retop_loop w t \<le> t \<and> (\<forall>i. retop_loop w t < i \<longrightarrow> i \<le> t \<longrightarrow> w ! i = 0) \<and>
   (retop_loop w t = 0 \<or> w ! retop_loop w t \<noteq> 0)"
  by (induction t) (auto simp: le_Suc_eq)

lemma retop_spec:
  assumes "bitmap_inv b"
  shows "bitmap_inv (retop b)" and "bm_w (retop b) = bm_w b" and "bits (retop b) = bits b"
    and "bm_top (retop b) = 0 \<or> bm_w b ! bm_top (retop b) \<noteq> 0"
  using assms retop_loop_spec[of "bm_w b" "bm_top b"]
  by (auto simp: retop_def bitmap_inv_def bits_def not_le)

lemma clear_bit_spec:
  assumes inv: "bitmap_inv b"
  shows "bitmap_inv (bitmap_clear_bit n b) \<and> bits (bitmap_clear_bit n b) = bits b - {n}"
proof (cases "n \<le> BITMAP_MAX \<and> n div 32 \<le> bm_top b")
  case True
  define c where "c = b\<lparr>bm_w := (bm_w b)[n div 32 := bm_w b ! (n div 32) AND NOT (push_bit (n mod 32) 1)]\<rparr>"
  have lt: "n div 32 < length (bm_w b)" using True inv by (simp add: bitmap_inv_def)
  have bits: "bits c = bits b - {n}"
    using lt div_mod_32[of _ n] unfolding bits_def c_def
    by (auto simp: word_bits_update bit_and_iff bit_not_iff bit_exp_32) (auto simp: word_bits_def)
  then have "bitmap_inv c"
    using inv True by (auto simp: bitmap_inv_def c_def nth_list_update)
  moreover have "bitmap_clear_bit n b = retop c"
    using True inv by (simp add: bitmap_clear_bit_def bitmap_inv_def c_def Let_def)
  ultimately show ?thesis using retop_spec bits by simp
next
  case False
  have "n \<notin> bits b"
    using False inv word_zero_iff[of "n div 32" "bm_w b"]
    by (auto simp: bits_def bitmap_inv_def) (auto simp: word_bits_def)
  moreover have "bitmap_clear_bit n b = b" using False by (auto simp: bitmap_clear_bit_def Let_def)
  ultimately show ?thesis using inv by simp
qed

section \<open>The number of bits\<close>

lemma msb_loop_spec:
  "bit w m \<Longrightarrow> (\<And>k. m < k \<Longrightarrow> \<not> bit w k) \<Longrightarrow> 31 \<le> fuel + m \<Longrightarrow>
   msb_loop fuel w n = Some (n - (31 - m))"
proof (induction fuel arbitrary: w m n)
  case 0
  then have "m = 31" using bit_imp_le_length[of w m] by simp
  with 0 show ?case by (simp add: bit_iff_and_push_bit_not_eq_0)
next
  case (Suc fuel)
  have lt: "m < 32" using Suc.prems(1) bit_imp_le_length[of w m] by simp
  show ?case
  proof (cases "m = 31")
    case True
    with Suc.prems(1) show ?thesis by (simp add: bit_iff_and_push_bit_not_eq_0)
  next
    case False
    then have "\<not> bit w 31" using Suc.prems(2) lt by simp
    moreover have "bit (push_bit 1 w) (m + 1)"
      unfolding bit_push_bit_iff using Suc.prems(1) False lt by simp
    moreover have "\<not> bit (push_bit 1 w) k" if "m + 1 < k" for k
      unfolding bit_push_bit_iff using Suc.prems(2)[of "k - 1"] that by simp
    ultimately show ?thesis
      using Suc.IH[of "push_bit 1 w" "m + 1" "n - 1"] Suc.prems(3) False lt
      by (simp add: bit_iff_and_push_bit_not_eq_0)
  qed
qed

lemma word_msb_exists:
  assumes "w \<noteq> (0 :: 32 word)"
  obtains m where "bit w m" and "\<And>k. m < k \<Longrightarrow> \<not> bit w k" and "m < 32"
proof -
  let ?S = "{k. bit w k}"
  have fin: "finite ?S" by (rule finite_subset[of _ "{..<32}"]) (auto dest: bit_imp_le_length)
  have "?S \<noteq> {}" using assms by (auto simp: bit_eq_iff)
  with fin have "bit w (Max ?S)" using Max_in by blast
  moreover have "\<not> bit w k" if "Max ?S < k" for k
  proof
    assume "bit w k"
    then have "k \<le> Max ?S" using fin by (intro Max_ge) auto
    with that show False by simp
  qed
  moreover have "Max ?S < 32" using bit_imp_le_length[OF calculation(1)] by simp
  ultimately show ?thesis using that by blast
qed

lemma nbits_spec:
  assumes inv: "bitmap_inv b"
  shows "bitmap_nbits b = (Some (if bits b = {} then 0 else Max (bits b) + 1), retop b)"
proof -
  define c where "c = retop b"
  have c: "bitmap_inv c" "bm_w c = bm_w b" "bits c = bits b" "bm_top c = 0 \<or> bm_w c ! bm_top c \<noteq> 0"
    using retop_spec[OF inv] by (auto simp: c_def)
  show ?thesis
  proof (cases "bm_w c ! bm_top c = 0")
    case True
    have "bm_w c ! i = 0" if "i < bm_len c" for i
      using True c that by (cases "i = 0") (auto simp: bitmap_inv_def)
    then have "bits c = {}" using c(1) by (auto simp: bits_def word_bits_def bitmap_inv_def)
    then show ?thesis
      using True c by (simp add: bitmap_nbits_def bitmap_inv_def Let_def c_def[symmetric])
  next
    case False
    obtain m where m: "bit (bm_w c ! bm_top c) m" "\<And>k. m < k \<Longrightarrow> \<not> bit (bm_w c ! bm_top c) k" "m < 32"
      using word_msb_exists[OF False] by blast
    have mem: "bm_top c * 32 + m \<in> bits c"
      using m(1,3) c(1) by (simp add: bits_def word_bits_def bitmap_inv_def)
    have ub: "n \<le> bm_top c * 32 + m" if "n \<in> bits c" for n
    proof -
      have "bit (bm_w c ! (n div 32)) (n mod 32)" "n div 32 \<le> bm_top c"
        using that c(1) by (auto simp: bits_def word_bits_def bitmap_inv_def) (metis bit_0_eq not_le bot_apply bot_bool_def)
      moreover have "n div 32 = bm_top c \<Longrightarrow> n mod 32 \<le> m"
        using calculation m(2)[of "n mod 32"] by (metis not_le)
      moreover obtain q r where "n = q * 32 + r" "r < 32" "n div 32 = q" "n mod 32 = r"
        by (metis div_mult_mod_eq mod_less_divisor zero_less_numeral)
      ultimately show ?thesis by (cases "q = bm_top c") auto
    qed
    have "Max (bits c) = bm_top c * 32 + m"
      using mem ub finite_subset[of "bits c" "{..bm_top c * 32 + m}"] by (intro Max_eqI) auto
    moreover have "msb_loop 32 (bm_w c ! bm_top c) ((bm_top c + 1) * 32) = Some (bm_top c * 32 + m + 1)"
      using msb_loop_spec[of "bm_w c ! bm_top c" m 32] m by simp
    ultimately show ?thesis
      using False c mem by (auto simp: bitmap_nbits_def bitmap_inv_def Let_def c_def[symmetric]
          simp del: msb_loop.simps)
  qed
qed

lemma nbytes_spec:
  assumes "bitmap_inv b"
  shows "bitmap_nbytes b = (Some (if bits b = {} then 0 else Max (bits b) div 8 + 1), retop b)"
proof -
  have "(k + 1 + 7) div 8 = k div 8 + 1" for k :: nat by presburger
  then show ?thesis unfolding bitmap_nbytes_def nbits_spec[OF assms] by simp
qed

section \<open>Byte strings\<close>

text \<open>The bits of a big-endian byte string.\<close>

definition string_bits :: "byte list \<Rightarrow> nat set" where
  "string_bits s = {n. n div 8 < length s \<and> bit (s ! (length s - 1 - n div 8)) (n mod 8)}"

lemma string_bits_Cons:
  "string_bits (x # xs) = {n. n div 8 = length xs \<and> bit x (n mod 8)} \<union> string_bits xs"
proof -
  have "(x # xs) ! (length xs - k) = (if k = length xs then x else xs ! (length xs - 1 - k))"
    if "k < Suc (length xs)" for k
    using that by (auto simp: nth_Cons split: nat.splits) (metis Suc_diff_Suc diff_Suc_1 diff_commute less_antisym old.nat.inject)
  then show ?thesis
    by (auto simp: string_bits_def less_Suc_eq split: if_splits)
qed

lemma byte_in_word:
  "m mod 4 = k \<Longrightarrow> bit (push_bit (k * 8) (ucast (x :: byte)) :: 32 word) (n mod 32) \<and> n div 32 = m div 4 \<longleftrightarrow>
   n div 8 = m \<and> bit x (n mod 8)"
proof -
  assume k: "m mod 4 = k"
  have n: "n mod 32 = (n div 8 mod 4) * 8 + n mod 8" "n div 32 = n div 8 div 4"
    using mod_mult2_eq[of n 8 4] by (simp_all add: div_mult2_eq[of n 8 4, simplified] mult.commute)
  have "bit (push_bit (k * 8) (ucast x) :: 32 word) (n mod 32) \<longleftrightarrow> k * 8 \<le> n mod 32 \<and> bit x (n mod 32 - k * 8)"
    by (auto simp: bit_push_bit_iff bit_ucast_iff dest: bit_imp_le_length)
  also have "\<dots> \<longleftrightarrow> n div 8 mod 4 = k \<and> bit x (n mod 8)"
  proof -
    have "k * 8 \<le> q * 8 + r \<and> q * 8 + r - k * 8 < 8 \<longleftrightarrow> q = k" if "r < 8" for q r :: nat
      using that by presburger
    from this[of "n mod 8" "n div 8 mod 4"]
    have "k * 8 \<le> n mod 32 \<and> n mod 32 - k * 8 < 8 \<longleftrightarrow> n div 8 mod 4 = k"
      unfolding n by simp
    moreover have "n div 8 mod 4 = k \<Longrightarrow> n mod 32 - k * 8 = n mod 8" unfolding n by simp
    ultimately show ?thesis using bit_imp_le_length[of x "n mod 32 - k * 8"] by auto
  qed
  finally show ?thesis using k n(2) by (metis div_mult_mod_eq)
qed

lemma from_string_loop_spec:
  "length xs = Suc m \<Longrightarrow> m div 4 < length w \<Longrightarrow>
   length (from_string_loop xs (m div 4) (m mod 4 * 8) w) = length w \<and>
   word_bits (from_string_loop xs (m div 4) (m mod 4 * 8) w) = word_bits w \<union> string_bits xs"
proof (induction xs arbitrary: m w)
  case Nil
  then show ?case by simp
next
  case (Cons x xs)
  define w1 where "w1 = w[m div 4 := w ! (m div 4) OR push_bit (m mod 4 * 8) (ucast x)]"
  have "n \<in> word_bits w1 \<longleftrightarrow> n \<in> word_bits w \<or> (n div 8 = m \<and> bit x (n mod 8))" for n
    unfolding w1_def word_bits_update[OF Cons.prems(2)] bit_or_iff byte_in_word[OF refl, symmetric]
    using Cons.prems(2) by (cases "n div 32 = m div 4") (simp_all add: word_bits_def)
  then have w1: "word_bits w \<union> string_bits (x # xs) = word_bits w1 \<union> string_bits xs"
    "length w1 = length w"
    using Cons.prems(1) by (auto simp: string_bits_Cons w1_def)
  show ?case
  proof (cases m)
    case 0
    then show ?thesis using Cons.prems w1 by (simp add: w1_def string_bits_def)
  next
    case (Suc k)
    have "from_string_loop (x # xs) (m div 4) (m mod 4 * 8) w = from_string_loop xs (k div 4) (k mod 4 * 8) w1"
    proof (cases "m mod 4 = 0")
      case True
      then have "m div 4 - 1 = k div 4" "k mod 4 = 3"
        using Suc by (auto simp: div_Suc mod_Suc split: if_splits)
      then show ?thesis using True by (simp add: w1_def Let_def)
    next
      case False
      then have "m div 4 = k div 4" "m mod 4 = k mod 4 + 1"
        using Suc by (auto simp: div_Suc mod_Suc split: if_splits)
      then show ?thesis using False by (simp add: w1_def Let_def)
    qed
    moreover have "k div 4 < length w1" using Suc Cons.prems(2) w1(2) by presburger
    ultimately show ?thesis using Cons.IH[of k w1] Cons.prems(1) Suc w1 by simp
  qed
qed

lemma string_bits_less: "n \<in> string_bits s \<Longrightarrow> n < 8 * length s"
  by (auto simp: string_bits_def)

lemma from_string_spec:
  assumes inv: "bitmap_inv b" and run: "bitmap_from_string lc s b = (r, b')"
  shows "bitmap_inv b' \<and> (r = 0 \<longrightarrow> bits b' = string_bits s) \<and> (r \<noteq> 0 \<longrightarrow> r = -1 \<and> b' = b)"
proof (cases "length s \<le> BITMAP_MAX div 8")
  case False
  then show ?thesis using inv run by (auto simp: bitmap_from_string_def)
next
  case small: True
  obtain r1 b1 where res: "reserve lc (length s * 8) b = (r1, b1)" by fastforce
  note R = bm_reserve_spec[OF inv res]
  have zero: "word_bits (replicate n 0) = {}" for n by (auto simp: word_bits_def)
  show ?thesis
  proof (cases "r1 = 0 \<and> s \<noteq> []")
    case False
    then show ?thesis
      using run res R small inv
      by (auto simp: bitmap_from_string_def bitmap_zero_def bitmap_inv_def bits_def zero string_bits_def split: if_splits)
  next
    case True
    then obtain m where m: "length s = Suc m" by (cases s) auto
    have idx: "(length s + 3) div 4 - Suc 0 = m div 4" "(length s + 3) mod 4 = m mod 4" unfolding m by presburger+
    define w where "w = from_string_loop s (m div 4) (m mod 4 * 8) (replicate (bm_len b1) 0)"
    have lt: "m div 4 < bm_len b1" using R True m by auto
    then have w: "length w = bm_len b1" "word_bits w = string_bits s"
      using from_string_loop_spec[OF m, of "replicate (bm_len b1) 0"] by (auto simp: w_def zero)
    define c where "c = b1\<lparr>bm_top := m div 4, bm_w := w\<rparr>"
    have "w ! i = 0" if "m div 4 < i" "i < length w" for i
      using that word_zero_iff[OF that(2)] w(2) string_bits_less[of _ s] m by fastforce
    moreover have "string_bits s \<subseteq> {..BITMAP_MAX}"
      using string_bits_less[of _ s] small by fastforce
    ultimately have "bitmap_inv c"
      using R w lt by (simp add: bitmap_inv_def c_def bits_def)
    moreover have "b' = retop c" "r = 0"
      using run res True small by (auto simp: bitmap_from_string_def Let_def bitmap_zero_def bitmap_consts idx c_def w_def)
    ultimately show ?thesis using retop_spec[of c] w by (simp add: bits_def c_def)
  qed
qed

text \<open>Byte \<open>m\<close> of a bitmap, counted from the least significant one.\<close>

definition byte_of :: "32 word list \<Rightarrow> nat \<Rightarrow> byte" where
  "byte_of w m = ucast (drop_bit (m mod 4 * 8) (w ! (m div 4)) AND 0xff)"

lemma bit_byte_of: "k < 8 \<Longrightarrow> bit (byte_of w m) k = bit (w ! (m div 4)) (m mod 4 * 8 + k)"
proof -
  assume k: "k < 8"
  have "0xff = (mask 8 :: 32 word)" by (simp add: mask_eq_exp_minus_1)
  then have "bit (0xff :: 32 word) k" using k by (simp only: bit_mask_iff) simp
  then show ?thesis
    using k unfolding byte_of_def by (simp add: bit_ucast_iff bit_and_iff bit_drop_bit_eq)
qed

definition written :: "32 word list \<Rightarrow> nat \<Rightarrow> nat \<Rightarrow> byte list \<Rightarrow> bool" where
  "written w l k s \<longleftrightarrow> k \<le> l \<and> l \<le> length s \<and> (\<forall>m<k. s ! (l - 1 - m) = byte_of w m)"

lemma written_step:
  assumes "written w l k s" and "k < l"
  shows "written w l (k + 1) (s[l - 1 - k := byte_of w k])"
  using assms by (auto simp: written_def nth_list_update less_Suc_eq)

lemma to_string_word_spec:
  assumes "written w l k s" and "k = 4 * i + j \<or> k = l" and "j \<le> 4"
  shows "case to_string_word (w ! i) [j..<4] l (k, s) of (k', s') \<Rightarrow>
           written w l k' s' \<and> (k' = 4 * i + 4 \<or> k' = l) \<and> length s' = length s"
  using assms
proof (induction "4 - j" arbitrary: j k s)
  case 0
  then show ?case by auto
next
  case (Suc d)
  then have j: "j < 4" and up: "[j..<4] = j # [Suc j..<4]" by (auto simp: upt_conv_Cons)
  show ?case
  proof (cases "k < l")
    case True
    then have k: "k = 4 * i + j" using Suc.prems by auto
    then have "byte_of w k = ucast (drop_bit (j * 8) (w ! i) AND 0xff)"
      using j by (simp add: byte_of_def)
    then have "to_string_word (w ! i) [j..<4] l (k, s) =
        to_string_word (w ! i) [Suc j..<4] l (k + 1, s[l - 1 - k := byte_of w k])"
      using True by (simp add: up)
    then show ?thesis
      using Suc.hyps(1)[of "Suc j", OF _ written_step[OF Suc.prems(1) True]] Suc.hyps(2) k j by auto
  next
    case False
    then show ?thesis using Suc.prems by (auto simp: up written_def)
  qed
qed

lemma to_string_fold_spec:
  assumes "l \<le> length s"
  shows "case fold (\<lambda>i. to_string_word (w ! i) [0..<4] l) [0..<n] (0, s) of (k, s') \<Rightarrow>
           written w l k s' \<and> (k = 4 * n \<or> k = l) \<and> length s' = length s"
proof (induction n)
  case 0
  then show ?case using assms by (simp add: written_def)
next
  case (Suc n)
  obtain k s1 where f: "fold (\<lambda>i. to_string_word (w ! i) [0..<4] l) [0..<n] (0, s) = (k, s1)" by fastforce
  then show ?case
    using Suc to_string_word_spec[of w l k s1 n 0] by (auto split: prod.splits)
qed

lemma to_string_spec:
  assumes inv: "bitmap_inv b" and room: "need \<le> length s"
    and need: "need = (if bits b = {} then 0 else Max (bits b) div 8 + 1)"
  shows "\<exists>s'. bitmap_to_string b s = (Some (0, s'), retop b) \<and> length s' = length s \<and>
              string_bits (take need s') = bits b"
proof -
  note c = retop_spec[OF inv]
  have nb: "bitmap_nbytes b = (Some need, retop b)" unfolding need by (rule nbytes_spec[OF inv])
  define w where "w = bm_w b"
  let ?n = "bm_top (retop b) + 1"
  obtain k s' where f: "fold (\<lambda>i. to_string_word (w ! i) [0..<4] need) [0..<?n] (0, s) = (k, s')" by fastforce
  have sp: "written w need k s'" "k = 4 * ?n \<or> k = need" "length s' = length s"
    using to_string_fold_spec[OF room, of w ?n] f by auto
  have fin: "finite (bits b)" using inv finite_subset[of "bits b" "{..BITMAP_MAX}"] by (simp add: bitmap_inv_def)
  have ub: "n div 32 < ?n" if "n \<in> bits b" for n
  proof -
    have "\<not> bm_top (retop b) < n div 32"
    proof
      assume "bm_top (retop b) < n div 32"
      moreover have "n div 32 < bm_len (retop b)" "bit (bm_w b ! (n div 32)) (n mod 32)"
        using that c(1,2) by (auto simp: bits_def word_bits_def bitmap_inv_def)
      ultimately show False using c(1,2) by (auto simp: bitmap_inv_def)
    qed
    then show ?thesis by simp
  qed
  have "need \<le> 4 * ?n"
  proof -
    have "q div 8 + 1 \<le> 4 * t" if "q div 32 < t" for q t :: nat
      using that by (simp add: div_less_iff_less_mult Suc_le_eq)
    then have "bits b \<noteq> {} \<Longrightarrow> Max (bits b) div 8 + 1 \<le> 4 * ?n" using ub[OF Max_in[OF fin]] by blast
    then show ?thesis unfolding need by simp
  qed
  then have k: "k = need" using sp(1,2) by (auto simp: written_def)
  have "bits b = string_bits (take need s')"
  proof (rule set_eqI)
    fix n :: nat
    have arith: "n div 8 div 4 = n div 32" "n div 8 mod 4 * 8 + n mod 8 = n mod 32"
      using mod_mult2_eq[of n 8 4] by (simp_all add: div_mult2_eq[of n 8 4, simplified] mult.commute)
    have byte: "n div 8 < need \<Longrightarrow> bit (take need s' ! (need - 1 - n div 8)) (n mod 8) = bit (w ! (n div 32)) (n mod 32)"
      using sp(1) k by (simp add: written_def bit_byte_of arith)
    have len: "length (take need s') = need" using sp(1) by (auto simp: written_def)
    have lt: "n div 8 < need" if "n \<in> bits b"
      using that Max_ge[OF fin that] by (auto simp: need less_Suc_eq_le div_le_mono)
    have idx: "n div 32 < length w" if "n div 8 < need"
    proof -
      have "Max (bits b) div 32 < length w" "bits b \<noteq> {}"
        using Max_in[OF fin] that by (auto simp: need bits_def word_bits_def w_def split: if_splits)
      moreover have "n div 8 \<le> Max (bits b) div 8" using that calculation(2) by (simp add: need)
      then have "n div 32 \<le> Max (bits b) div 32"
        using div_le_mono[of "n div 8" "Max (bits b) div 8" 4] by (simp add: div_mult2_eq[of _ 8 4, simplified, symmetric])
      ultimately show ?thesis by simp
    qed
    show "n \<in> bits b \<longleftrightarrow> n \<in> string_bits (take need s')"
      using byte lt idx unfolding string_bits_def len mem_Collect_eq
      by (auto simp: bits_def word_bits_def w_def)
  qed
  then show ?thesis
    using f sp(3) nb room c(1,2) by (simp add: bitmap_to_string_def w_def bitmap_consts bitmap_inv_def)
qed

section \<open>Properties\<close>

text \<open>Updates of a bitmap and the sets of bits they stand for.\<close>

datatype bit_update = Set_bit nat | Clear_bit nat | Zero_bits

fun bitmap_update :: "libc \<Rightarrow> bit_update \<Rightarrow> bitmap \<Rightarrow> bitmap" where
  "bitmap_update lc (Set_bit n) b = snd (bitmap_set_bit lc n b)"
| "bitmap_update lc (Clear_bit n) b = bitmap_clear_bit n b"
| "bitmap_update lc Zero_bits b = bitmap_zero b"

fun set_update :: "bit_update \<Rightarrow> nat set \<Rightarrow> nat set" where
  "set_update (Set_bit n) S = (if n \<le> BITMAP_MAX then insert n S else S)"
| "set_update (Clear_bit n) S = S - {n}"
| "set_update Zero_bits S = {}"

lemma new_spec: "bitmap_new lc = Some b \<Longrightarrow> bitmap_inv b \<and> bits b = {} \<and> bm_len b \<le> BITMAP_MAX"
  by (auto simp: bitmap_new_def bitmap_inv_def bits_def word_bits_def BITMAP_MAX_def split: option.splits)

lemma reserve_succeeds:
  assumes inv: "bitmap_inv b" and ok: "\<And>k. malloc lc k \<noteq> None" and n: "n \<le> BITMAP_MAX"
  shows "fst (reserve lc n b) = 0 \<and> bm_len (snd (reserve lc n b)) \<le> max (bm_len b) BITMAP_MAX"
proof (cases "bm_len b < n div 32 + 1")
  case True
  have "recallocarray lc (bm_d b) (bm_w b) (n div 32 + 1) BITMAP_BYTES \<noteq> None"
    using inv n True by (intro recallocarray_succeeds_small[OF ok])
      (auto simp: bitmap_inv_def BITMAP_MAX_def MUL_NO_OVERFLOW_def bitmap_consts)
  then show ?thesis using inv n by (auto simp: reserve_def bitmap_inv_def Let_def BITMAP_MAX_def)
next
  case False
  then show ?thesis using inv n by (auto simp: reserve_def bitmap_inv_def Let_def bitmap_consts)
qed

lemma set_bit_succeeds:
  assumes inv: "bitmap_inv b" and ok: "\<And>k. malloc lc k \<noteq> None" and n: "n \<le> BITMAP_MAX"
    and len: "bm_len b \<le> BITMAP_MAX"
  shows "fst (bitmap_set_bit lc n b) = 0 \<and> bm_len (snd (bitmap_set_bit lc n b)) \<le> BITMAP_MAX"
  using reserve_succeeds[OF inv ok n] len
  by (auto simp: bitmap_set_bit_def Let_def split: prod.splits)

lemma from_string_succeeds:
  assumes inv: "bitmap_inv b" and ok: "\<And>k. malloc lc k \<noteq> None" and n: "length s \<le> BITMAP_MAX div 8"
  shows "fst (bitmap_from_string lc s b) = 0"
  using reserve_succeeds[OF inv ok, of "length s * 8"] n
  by (auto simp: bitmap_from_string_def Let_def BITMAP_MAX_def split: prod.splits)

lemma set_bit_fails: "n > BITMAP_MAX \<Longrightarrow> bitmap_set_bit lc n b = (-1, b)"
  by (simp add: bitmap_set_bit_def reserve_def)

lemma retop_len: "bm_len (retop b) = bm_len b"
  by (simp add: retop_def)

lemma update_spec:
  assumes inv: "bitmap_inv b" and ok: "\<And>k. malloc lc k \<noteq> None" and len: "bm_len b \<le> BITMAP_MAX"
  shows "bitmap_inv (bitmap_update lc u b) \<and> bits (bitmap_update lc u b) = set_update u (bits b) \<and>
         bm_len (bitmap_update lc u b) \<le> BITMAP_MAX"
proof (cases u)
  case (Set_bit n)
  show ?thesis
  proof (cases "n \<le> BITMAP_MAX")
    case True
    then show ?thesis
      using Set_bit set_bit_spec[OF inv, of lc n] set_bit_succeeds[OF inv ok True len]
      by (cases "bitmap_set_bit lc n b") auto
  next
    case False
    then show ?thesis using Set_bit inv len by (simp add: set_bit_fails)
  qed
next
  case (Clear_bit n)
  then show ?thesis
    using clear_bit_spec[OF inv] len by (auto simp: bitmap_clear_bit_def Let_def retop_len)
next
  case Zero_bits
  then show ?thesis
    using inv len by (auto simp: bitmap_zero_def bitmap_inv_def bits_def word_bits_def)
qed

lemma updates_spec:
  assumes "\<And>k. malloc lc k \<noteq> None"
  shows "bitmap_inv b \<Longrightarrow> bm_len b \<le> BITMAP_MAX \<Longrightarrow>
    bitmap_inv (fold (bitmap_update lc) us b) \<and>
    bits (fold (bitmap_update lc) us b) = fold set_update us (bits b)"
  using update_spec[OF _ assms] by (induction us arbitrary: b) auto

text \<open>
  C9. A bitmap is a set of bit numbers: after any sequence of \<^verbatim>\<open>bitmap_set_bit\<close>,
  \<^verbatim>\<open>bitmap_clear_bit\<close> and \<^verbatim>\<open>bitmap_zero\<close> on a new bitmap, \<^verbatim>\<open>bitmap_test_bit\<close> answers membership
  in the set the same updates build (bits beyond \<^verbatim>\<open>BITMAP_MAX\<close> are refused), and
  \<^verbatim>\<open>bitmap_nbits\<close> returns one more than the largest member, its search always ending.
\<close>

theorem bitmap_is_set:
  assumes "bitmap_new lc = Some b" and "\<And>k. malloc lc k \<noteq> None"
  shows "(bitmap_test_bit (fold (bitmap_update lc) us b) n \<longleftrightarrow> n \<in> fold set_update us {}) \<and>
    fst (bitmap_nbits (fold (bitmap_update lc) us b)) =
      Some (if fold set_update us {} = {} then 0 else Max (fold set_update us {}) + 1)"
  using updates_spec[OF assms(2), of b us] new_spec[OF assms(1)]
  by (simp add: test_bit_iff nbits_spec)

definition lc_bm :: libc where
  "lc_bm = \<lparr>malloc = (\<lambda>n. Some (4096 + n)), pagesize = 4096\<rparr>"

theorem bitmap_is_set_witness:
  "bitmap_test_bit (fold (bitmap_update lc_bm) [Set_bit 70, Set_bit 3, Clear_bit 70]
      (the (bitmap_new lc_bm))) 3"
  using bitmap_is_set[of lc_bm "the (bitmap_new lc_bm)" "[Set_bit 70, Set_bit 3, Clear_bit 70]" 3]
  by (simp add: lc_bm_def bitmap_new_def BITMAP_MAX_def)

lemma nbytes_small:
  assumes "bitmap_inv b" and "BITMAP_MAX \<notin> bits b" and "bits b \<noteq> {}"
  shows "Max (bits b) div 8 + 1 \<le> BITMAP_MAX div 8"
proof -
  have sub: "bits b \<subseteq> {..BITMAP_MAX}" using assms(1) by (simp add: bitmap_inv_def)
  then have "Max (bits b) \<in> bits b" using assms(3) by (meson Max_in finite_atMost finite_subset)
  with sub assms(2) have "Max (bits b) < BITMAP_MAX" by (metis atMost_iff le_neq_implies_less subset_eq)
  then show ?thesis by (simp add: BITMAP_MAX_def)
qed

text \<open>
  C10. The byte string of a bitmap is faithful and minimal: given a buffer of at least
  \<^verbatim>\<open>bitmap_nbytes\<close> bytes, \<^verbatim>\<open>bitmap_to_string\<close> succeeds, and reading the bytes it wrote with
  \<^verbatim>\<open>bitmap_from_string\<close> into any bitmap yields a bitmap with the same bits; a shorter buffer is
  refused. Reading succeeds when allocation does and the highest bit \<^verbatim>\<open>BITMAP_MAX\<close> is not set.
\<close>

theorem bitmap_string_roundtrip:
  assumes "bitmap_inv b" and "bitmap_inv b0" and "bitmap_nbytes b = (Some need, b1)"
  shows "if length s < need then bitmap_to_string b s = (Some (-1, s), b1)
         else \<exists>s'. bitmap_to_string b s = (Some (0, s'), b1) \<and>
                (\<forall>b'. bitmap_from_string lc (take need s') b0 = (0, b') \<longrightarrow>
                   bitmap_inv b' \<and> (\<forall>n. bitmap_test_bit b' n = bitmap_test_bit b n)) \<and>
                ((\<forall>k. malloc lc k \<noteq> None) \<and> \<not> bitmap_test_bit b BITMAP_MAX \<longrightarrow>
                   fst (bitmap_from_string lc (take need s') b0) = 0)"
proof (cases "length s < need")
  case True
  then show ?thesis using assms(3) by (simp add: bitmap_to_string_def)
next
  case False
  have nb: "need = (if bits b = {} then 0 else Max (bits b) div 8 + 1)" "b1 = retop b"
    using assms(3) unfolding nbytes_spec[OF assms(1)] by auto
  obtain s' where s': "bitmap_to_string b s = (Some (0, s'), retop b)" "string_bits (take need s') = bits b"
    using to_string_spec[OF assms(1) _ nb(1), of s] False by auto
  have "bitmap_inv b' \<and> bits b' = bits b" if "bitmap_from_string lc (take need s') b0 = (0, b')" for b'
    using from_string_spec[OF assms(2) that] s'(2) by simp
  moreover have "fst (bitmap_from_string lc (take need s') b0) = 0"
    if "\<And>k. malloc lc k \<noteq> None" and "BITMAP_MAX \<notin> bits b"
    using nbytes_small[OF assms(1) that(2)] nb(1)
    by (intro from_string_succeeds[OF assms(2) that(1)]) (auto split: if_splits)
  ultimately show ?thesis using s'(1) nb(2) assms(1) False by (auto simp: test_bit_iff)
qed

definition bm_ex :: bitmap where
  "bm_ex = \<lparr>bm_d = Some 4100, bm_w = [0x201], bm_len = 1, bm_top = 0\<rparr>"

lemma bm_ex_inv: "bitmap_inv bm_ex"
proof -
  have "bits bm_ex \<subseteq> {..<32}" by (auto simp: bits_def word_bits_def bm_ex_def)
  moreover have "{..<32} \<subseteq> {..BITMAP_MAX}" by (auto simp: BITMAP_MAX_def)
  ultimately show ?thesis by (auto simp: bitmap_inv_def bm_ex_def)
qed

theorem bitmap_string_roundtrip_witness:
  "\<exists>b'. bitmap_to_string bm_ex [7, 7] = (Some (0, [2, 1]), bm_ex) \<and>
     bitmap_from_string lc_bm [2, 1] bm_ex = (0, b') \<and>
     (\<forall>n. bitmap_test_bit b' n = bitmap_test_bit bm_ex n)"
proof -
  have nb: "bitmap_nbytes bm_ex = (Some 2, bm_ex)" by code_simp
  have str: "bitmap_to_string bm_ex [7, 7] = (Some (0, [2, 1]), bm_ex)" by code_simp
  have top: "\<not> bitmap_test_bit bm_ex BITMAP_MAX"
    by (simp add: bitmap_test_bit_def bm_ex_def BITMAP_MAX_def bitmap_consts)
  obtain r b' where b': "bitmap_from_string lc_bm [2, 1] bm_ex = (r, b')" by fastforce
  from bitmap_string_roundtrip[OF bm_ex_inv bm_ex_inv nb, of "[7, 7]" lc_bm] str top b'
  have "r = 0 \<and> (\<forall>n. bitmap_test_bit b' n = bitmap_test_bit bm_ex n)" by (auto simp: lc_bm_def)
  with str b' show ?thesis by blast
qed

end
