(* ===== verification/Channel.thy ===== *)
theory Channel
  imports SshbufGetput "HOL-Library.Monad_Syntax"
begin

text \<open>
  One channel of a connection: the half-close state machine of \<^verbatim>\<open>nchan.c\<close> and the flow control
  of \<^verbatim>\<open>channels.c\<close>. A handler maps the connection and the channel to their new values;
  \<^const>\<open>None\<close> means that the process ends (\<^verbatim>\<open>fatal\<close> or \<^verbatim>\<open>ssh_packet_disconnect\<close>).
\<close>

section \<open>Data\<close>

datatype chan_type =
    SSH_CHANNEL_X11_LISTENER | SSH_CHANNEL_PORT_LISTENER | SSH_CHANNEL_OPENING
  | SSH_CHANNEL_OPEN | SSH_CHANNEL_CLOSED | SSH_CHANNEL_AUTH_SOCKET | SSH_CHANNEL_X11_OPEN
  | SSH_CHANNEL_LARVAL | SSH_CHANNEL_RPORT_LISTENER | SSH_CHANNEL_CONNECTING
  | SSH_CHANNEL_DYNAMIC | SSH_CHANNEL_ZOMBIE | SSH_CHANNEL_MUX_LISTENER
  | SSH_CHANNEL_MUX_CLIENT | SSH_CHANNEL_ABANDONED | SSH_CHANNEL_UNIX_LISTENER
  | SSH_CHANNEL_RUNIX_LISTENER | SSH_CHANNEL_MUX_PROXY | SSH_CHANNEL_RDYNAMIC_OPEN
  | SSH_CHANNEL_RDYNAMIC_FINISH

definition CHAN_INPUT_OPEN :: nat where "CHAN_INPUT_OPEN = 0"
definition CHAN_INPUT_WAIT_DRAIN :: nat where "CHAN_INPUT_WAIT_DRAIN = 1"
definition CHAN_INPUT_CLOSED :: nat where "CHAN_INPUT_CLOSED = 3"
definition CHAN_OUTPUT_OPEN :: nat where "CHAN_OUTPUT_OPEN = 0"
definition CHAN_OUTPUT_WAIT_DRAIN :: nat where "CHAN_OUTPUT_WAIT_DRAIN = 1"
definition CHAN_OUTPUT_CLOSED :: nat where "CHAN_OUTPUT_CLOSED = 3"

lemmas chan_states = CHAN_INPUT_OPEN_def CHAN_INPUT_WAIT_DRAIN_def CHAN_INPUT_CLOSED_def
  CHAN_OUTPUT_OPEN_def CHAN_OUTPUT_WAIT_DRAIN_def CHAN_OUTPUT_CLOSED_def

text \<open>The bit masks of the code are sets of flags.\<close>

datatype chan_flag = CHAN_CLOSE_SENT | CHAN_CLOSE_RCVD | CHAN_EOF_SENT | CHAN_EOF_RCVD | CHAN_LOCAL

datatype io_flag = SSH_CHAN_IO_RFD | SSH_CHAN_IO_WFD | SSH_CHAN_IO_EFD_R | SSH_CHAN_IO_EFD_W
  | SSH_CHAN_IO_SOCK_R | SSH_CHAN_IO_SOCK_W

datatype restore_flag = CHANNEL_RESTORE_RFD | CHANNEL_RESTORE_WFD | CHANNEL_RESTORE_EFD

datatype extended_use = CHAN_EXTENDED_IGNORE | CHAN_EXTENDED_READ | CHAN_EXTENDED_WRITE

text \<open>The fields of \<^verbatim>\<open>struct Channel\<close> that the modelled functions use.\<close>

record channel =
  c_type :: chan_type
  c_remote_id :: "32 word"
  c_have_remote_id :: bool
  c_istate :: nat
  c_ostate :: nat
  c_flags :: "chan_flag set"
  c_rfd :: int
  c_wfd :: int
  c_efd :: int
  c_sock :: int
  c_io_want :: "io_flag set"
  c_io_ready :: "io_flag set"
  c_pfds :: "int list"
  c_restore_block :: "restore_flag set"
  c_restore_flags :: "int list"
  c_force_drain :: bool
  c_input :: sshbuf
  c_output :: sshbuf
  c_extended :: sshbuf
  c_remote_window :: "32 word"
  c_remote_maxpacket :: "32 word"
  c_local_window :: "32 word"
  c_local_window_exceeded :: "32 word"
  c_local_window_max :: "32 word"
  c_local_consumed :: "32 word"
  c_local_maxpacket :: "32 word"
  c_extended_usage :: extended_use
  c_ctype :: string
  c_datagram :: bool

text \<open>
  The messages a channel sends, and the system calls it makes, in the order they are made.
  \<open>s_send_ok\<close> says whether the packet layer accepts a message.
\<close>

datatype chan_msg =
    Msg_eof "32 word" | Msg_close "32 word" | Msg_eow "32 word"
  | Msg_data "32 word" "byte list" | Msg_ext_data "32 word" "byte list"
  | Msg_window_adjust "32 word" "32 word"

datatype os_call = Shutdown_rd int | Shutdown_wr int | Close int | Fcntl_setfl int int

record chan_ssh =
  s_new_openssh :: bool
  s_bug_exteof :: bool
  s_send_ok :: bool
  s_out :: "chan_msg list"
  s_os :: "os_call list"

type_synonym chan_state = "chan_ssh \<times> channel"

definition send_msg :: "chan_msg \<Rightarrow> chan_ssh \<Rightarrow> chan_ssh option" where
  "send_msg m s = (if s_send_ok s then Some (s\<lparr>s_out := s_out s @ [m]\<rparr>) else None)"

definition os :: "os_call \<Rightarrow> chan_ssh \<Rightarrow> chan_ssh" where
  "os call s = s\<lparr>s_os := s_os s @ [call]\<rparr>"

definition CHANNEL_EFD_INPUT_ACTIVE :: "channel \<Rightarrow> bool" where
  "CHANNEL_EFD_INPUT_ACTIVE c \<longleftrightarrow> c_extended_usage c = CHAN_EXTENDED_READ \<and>
     (c_efd c \<noteq> -1 \<or> sshbuf_len (c_extended c) > 0)"

definition CHANNEL_EFD_OUTPUT_ACTIVE :: "channel \<Rightarrow> bool" where
  "CHANNEL_EFD_OUTPUT_ACTIVE c \<longleftrightarrow> c_extended_usage c = CHAN_EXTENDED_WRITE \<and>
     c_efd c \<noteq> -1 \<and>
     (\<not> (CHAN_EOF_RCVD \<in> c_flags c \<or> CHAN_CLOSE_RCVD \<in> c_flags c) \<or> sshbuf_len (c_extended c) > 0)"

section \<open>Descriptors\<close>

text \<open>\<^verbatim>\<open>channel_close_fd(ssh, c, fdp)\<close>: \<open>fdp\<close> points to one of the channel's descriptors.\<close>

datatype fd_ptr = Rfd | Wfd | Efd | Sock

fun fd_get :: "fd_ptr \<Rightarrow> channel \<Rightarrow> int" where
  "fd_get Rfd c = c_rfd c"
| "fd_get Wfd c = c_wfd c"
| "fd_get Efd c = c_efd c"
| "fd_get Sock c = c_sock c"

definition drop_io :: "io_flag set \<Rightarrow> nat \<Rightarrow> channel \<Rightarrow> channel" where
  "drop_io fs i c = c\<lparr>c_io_want := c_io_want c - fs, c_io_ready := c_io_ready c - fs,
     c_pfds := (c_pfds c)[i := -1]\<rparr>"

text \<open>The four blocks that clear a descriptor equal to \<^verbatim>\<open>*fdp\<close>, which each of them reads again.\<close>

definition forget_rfd :: "fd_ptr \<Rightarrow> channel \<Rightarrow> channel" where
  "forget_rfd p c = (if fd_get p c = c_rfd c then (drop_io {SSH_CHAN_IO_RFD} 0 c)\<lparr>c_rfd := -1\<rparr> else c)"

definition forget_wfd :: "fd_ptr \<Rightarrow> channel \<Rightarrow> channel" where
  "forget_wfd p c = (if fd_get p c = c_wfd c then (drop_io {SSH_CHAN_IO_WFD} 1 c)\<lparr>c_wfd := -1\<rparr> else c)"

definition forget_efd :: "fd_ptr \<Rightarrow> channel \<Rightarrow> channel" where
  "forget_efd p c =
     (if fd_get p c = c_efd c
      then (drop_io {SSH_CHAN_IO_EFD_R, SSH_CHAN_IO_EFD_W} 2 c)\<lparr>c_efd := -1\<rparr> else c)"

definition forget_sock :: "fd_ptr \<Rightarrow> channel \<Rightarrow> channel" where
  "forget_sock p c =
     (if fd_get p c = c_sock c
      then (drop_io {SSH_CHAN_IO_SOCK_R, SSH_CHAN_IO_SOCK_W} 3 c)\<lparr>c_sock := -1\<rparr> else c)"

definition restore_blocking :: "int \<Rightarrow> channel \<Rightarrow> chan_ssh \<Rightarrow> chan_ssh" where
  "restore_blocking fd c s =
     (if fd = c_rfd c \<and> CHANNEL_RESTORE_RFD \<in> c_restore_block c then
        os (Fcntl_setfl fd (c_restore_flags c ! 0)) s
      else if fd = c_wfd c \<and> CHANNEL_RESTORE_WFD \<in> c_restore_block c then
        os (Fcntl_setfl fd (c_restore_flags c ! 1)) s
      else if fd = c_efd c \<and> CHANNEL_RESTORE_EFD \<in> c_restore_block c then
        os (Fcntl_setfl fd (c_restore_flags c ! 2)) s
      else s)"

definition channel_close_fd :: "fd_ptr \<Rightarrow> chan_state \<Rightarrow> chan_state" where
  "channel_close_fd p sc =
     (case sc of (s, c) \<Rightarrow>
       (let fd = fd_get p c
        in if fd = -1 then (s, c)
           else (os (Close fd) (restore_blocking fd c s),
                 forget_sock p (forget_efd p (forget_wfd p (forget_rfd p c))))))"

text \<open>
  \<^verbatim>\<open>chan_shutdown_write\<close>, \<^verbatim>\<open>chan_shutdown_read\<close> and \<^verbatim>\<open>chan_shutdown_extended_read\<close>: the results of
  the system calls are only logged.
\<close>

definition chan_shutdown_write :: "libc \<Rightarrow> chan_state \<Rightarrow> chan_state" where
  "chan_shutdown_write lc sc =
     (case sc of (s, c) \<Rightarrow>
       (let c1 = c\<lparr>c_output := sshbuf_reset lc (c_output c)\<rparr>
        in if c_type c1 = SSH_CHANNEL_LARVAL then (s, c1)
           else if c_sock c1 \<noteq> -1 then (os (Shutdown_wr (c_sock c1)) s, c1)
           else channel_close_fd Wfd (s, c1)))"

definition chan_shutdown_read :: "chan_state \<Rightarrow> chan_state" where
  "chan_shutdown_read sc =
     (case sc of (s, c) \<Rightarrow>
       if c_type c = SSH_CHANNEL_LARVAL then (s, c)
       else if c_sock c \<noteq> -1 then (os (Shutdown_rd (c_sock c)) s, c)
       else channel_close_fd Rfd (s, c))"

definition chan_shutdown_extended_read :: "chan_state \<Rightarrow> chan_state" where
  "chan_shutdown_extended_read sc =
     (case sc of (s, c) \<Rightarrow>
       if c_type c = SSH_CHANNEL_LARVAL \<or> c_efd c = -1 then (s, c)
       else if c_extended_usage c \<noteq> CHAN_EXTENDED_READ \<and> c_extended_usage c \<noteq> CHAN_EXTENDED_IGNORE
         then (s, c)
       else channel_close_fd Efd (s, c))"

section \<open>The half-close state machine\<close>

definition chan_set_istate :: "nat \<Rightarrow> chan_state \<Rightarrow> chan_state option" where
  "chan_set_istate n sc =
     (case sc of (s, c) \<Rightarrow>
       if c_istate c > CHAN_INPUT_CLOSED \<or> n > CHAN_INPUT_CLOSED then None
       else Some (s, c\<lparr>c_istate := n\<rparr>))"

definition chan_set_ostate :: "nat \<Rightarrow> chan_state \<Rightarrow> chan_state option" where
  "chan_set_ostate n sc =
     (case sc of (s, c) \<Rightarrow>
       if c_ostate c > CHAN_OUTPUT_CLOSED \<or> n > CHAN_OUTPUT_CLOSED then None
       else Some (s, c\<lparr>c_ostate := n\<rparr>))"

definition chan_send_eof2 :: "chan_state \<Rightarrow> chan_state option" where
  "chan_send_eof2 sc =
     (case sc of (s, c) \<Rightarrow>
       if c_istate c = CHAN_INPUT_WAIT_DRAIN then
         if \<not> c_have_remote_id c then None
         else do {
           s' \<leftarrow> send_msg (Msg_eof (c_remote_id c)) s;
           Some (s', c\<lparr>c_flags := insert CHAN_EOF_SENT (c_flags c)\<rparr>)
         }
       else Some (s, c))"

definition chan_send_close2 :: "chan_state \<Rightarrow> chan_state option" where
  "chan_send_close2 sc =
     (case sc of (s, c) \<Rightarrow>
       if c_ostate c \<noteq> CHAN_OUTPUT_CLOSED \<or> c_istate c \<noteq> CHAN_INPUT_CLOSED then Some (s, c)
       else if CHAN_CLOSE_SENT \<in> c_flags c then Some (s, c)
       else if \<not> c_have_remote_id c then None
       else do {
         s' \<leftarrow> send_msg (Msg_close (c_remote_id c)) s;
         Some (s', c\<lparr>c_flags := insert CHAN_CLOSE_SENT (c_flags c)\<rparr>)
       })"

definition chan_send_eow2 :: "chan_state \<Rightarrow> chan_state option" where
  "chan_send_eow2 sc =
     (case sc of (s, c) \<Rightarrow>
       if c_ostate c = CHAN_OUTPUT_CLOSED then Some (s, c)
       else if \<not> s_new_openssh s then Some (s, c)
       else if \<not> c_have_remote_id c then None
       else do {
         s' \<leftarrow> send_msg (Msg_eow (c_remote_id c)) s;
         Some (s', c)
       })"

definition chan_read_failed :: "chan_state \<Rightarrow> chan_state option" where
  "chan_read_failed sc =
     (if c_istate (snd sc) = CHAN_INPUT_OPEN then
        chan_set_istate CHAN_INPUT_WAIT_DRAIN (chan_shutdown_read sc)
      else Some sc)"

definition chan_ibuf_empty :: "chan_state \<Rightarrow> chan_state option" where
  "chan_ibuf_empty sc =
     (let c = snd sc
      in if sshbuf_len (c_input c) \<noteq> 0 then Some sc
         else if c_istate c = CHAN_INPUT_WAIT_DRAIN then do {
           sc1 \<leftarrow> (if \<not> (CHAN_CLOSE_SENT \<in> c_flags c \<or> CHAN_LOCAL \<in> c_flags c)
                   then chan_send_eof2 sc else Some sc);
           chan_set_istate CHAN_INPUT_CLOSED sc1
         }
         else Some sc)"

definition chan_obuf_empty :: "libc \<Rightarrow> chan_state \<Rightarrow> chan_state option" where
  "chan_obuf_empty lc sc =
     (let c = snd sc
      in if sshbuf_len (c_output c) \<noteq> 0 then Some sc
         else if c_ostate c = CHAN_OUTPUT_WAIT_DRAIN then
           chan_set_ostate CHAN_OUTPUT_CLOSED (chan_shutdown_write lc sc)
         else Some sc)"

definition chan_rcvd_eow :: "chan_state \<Rightarrow> chan_state option" where
  "chan_rcvd_eow sc =
     (if c_istate (snd sc) = CHAN_INPUT_OPEN then
        chan_set_istate CHAN_INPUT_CLOSED (chan_shutdown_read sc)
      else Some sc)"

definition chan_rcvd_ieof :: "libc \<Rightarrow> chan_state \<Rightarrow> chan_state option" where
  "chan_rcvd_ieof lc sc =
     (case sc of (s, c) \<Rightarrow>
       do {
         sc1 \<leftarrow> (let c1 = c\<lparr>c_flags := insert CHAN_EOF_RCVD (c_flags c)\<rparr>
                 in if c_ostate c1 = CHAN_OUTPUT_OPEN
                    then chan_set_ostate CHAN_OUTPUT_WAIT_DRAIN (s, c1) else Some (s, c1));
         (let c2 = snd sc1
          in if c_ostate c2 = CHAN_OUTPUT_WAIT_DRAIN \<and> sshbuf_len (c_output c2) = 0 \<and>
                \<not> CHANNEL_EFD_OUTPUT_ACTIVE c2
             then chan_obuf_empty lc sc1 else Some sc1)
       })"

definition chan_rcvd_oclose :: "chan_state \<Rightarrow> chan_state option" where
  "chan_rcvd_oclose sc =
     (case sc of (s, c) \<Rightarrow>
       (let c1 = (if CHAN_LOCAL \<notin> c_flags c
                  then c\<lparr>c_flags := insert CHAN_CLOSE_RCVD (c_flags c)\<rparr> else c)
        in if c_type c1 = SSH_CHANNEL_LARVAL then do {
             sc2 \<leftarrow> chan_set_ostate CHAN_OUTPUT_CLOSED (s, c1);
             chan_set_istate CHAN_INPUT_CLOSED sc2
           }
           else do {
             sc2 \<leftarrow> (if c_ostate c1 = CHAN_OUTPUT_OPEN
                     then chan_set_ostate CHAN_OUTPUT_WAIT_DRAIN (s, c1) else Some (s, c1));
             (let c2 = snd sc2
              in if c_istate c2 = CHAN_INPUT_OPEN then
                   chan_set_istate CHAN_INPUT_CLOSED
                     (chan_shutdown_extended_read (chan_shutdown_read sc2))
                 else if c_istate c2 = CHAN_INPUT_WAIT_DRAIN then do {
                   sc3 \<leftarrow> (if CHAN_LOCAL \<notin> c_flags c2 then chan_send_eof2 sc2 else Some sc2);
                   chan_set_istate CHAN_INPUT_CLOSED (chan_shutdown_extended_read sc3)
                 }
                 else Some sc2)
           }))"

definition chan_write_failed :: "libc \<Rightarrow> chan_state \<Rightarrow> chan_state option" where
  "chan_write_failed lc sc =
     (if c_ostate (snd sc) = CHAN_OUTPUT_OPEN \<or> c_ostate (snd sc) = CHAN_OUTPUT_WAIT_DRAIN then do {
        sc1 \<leftarrow> (let sc0 = chan_shutdown_write lc sc
                in if c_ctype (snd sc0) = ''session'' then chan_send_eow2 sc0 else Some sc0);
        chan_set_ostate CHAN_OUTPUT_CLOSED sc1
      }
      else Some sc)"

definition chan_mark_dead :: "chan_state \<Rightarrow> chan_state" where
  "chan_mark_dead sc = (case sc of (s, c) \<Rightarrow> (s, c\<lparr>c_type := SSH_CHANNEL_ZOMBIE\<rparr>))"

definition chan_is_dead :: "bool \<Rightarrow> chan_state \<Rightarrow> (bool \<times> chan_state) option" where
  "chan_is_dead do_send sc =
     (case sc of (s, c) \<Rightarrow>
       if c_type c = SSH_CHANNEL_ZOMBIE then Some (True, sc)
       else if c_istate c \<noteq> CHAN_INPUT_CLOSED \<or> c_ostate c \<noteq> CHAN_OUTPUT_CLOSED then Some (False, sc)
       else if s_bug_exteof s \<and> c_extended_usage c = CHAN_EXTENDED_WRITE \<and> c_efd c \<noteq> -1 \<and>
               sshbuf_len (c_extended c) > 0 then Some (False, sc)
       else if CHAN_LOCAL \<in> c_flags c then Some (True, sc)
       else if CHAN_CLOSE_SENT \<notin> c_flags c \<and> \<not> do_send \<and> CHAN_CLOSE_RCVD \<in> c_flags c then
         Some (True, sc)
       else do {
         sc1 \<leftarrow> (if CHAN_CLOSE_SENT \<notin> c_flags c \<and> do_send then chan_send_close2 sc else Some sc);
         Some (CHAN_CLOSE_SENT \<in> c_flags (snd sc1) \<and> CHAN_CLOSE_RCVD \<in> c_flags (snd sc1), sc1)
       })"

section \<open>Sending data\<close>

text \<open>\<^verbatim>\<open>channel_output_poll_input_open\<close>; the first component is whether a packet was enqueued.\<close>

definition channel_output_poll_input_open :: "chan_state \<Rightarrow> (bool \<times> chan_state) option" where
  "channel_output_poll_input_open sc =
     (case sc of (s, c) \<Rightarrow>
       (let len0 = sshbuf_len (c_input c)
        in if len0 = 0 then
             if c_istate c = CHAN_INPUT_WAIT_DRAIN \<and> \<not> CHANNEL_EFD_INPUT_ACTIVE c then do {
               sc1 \<leftarrow> chan_ibuf_empty sc;
               Some (False, sc1)
             }
             else Some (False, sc)
           else if \<not> c_have_remote_id c then None
           else if c_datagram c then
             (case sshbuf_get_string_direct (c_input c) of
                (Inl e, _) \<Rightarrow> None
              | (Inr pkt, input') \<Rightarrow>
                  (let c1 = c\<lparr>c_input := input'\<rparr>; plen = length pkt
                   in if plen > unat (c_remote_window c1) \<or> plen > unat (c_remote_maxpacket c1)
                      then Some (False, (s, c1))
                      else do {
                        s' \<leftarrow> send_msg (Msg_data (c_remote_id c1) pkt) s;
                        Some (True, (s', c1\<lparr>c_remote_window := c_remote_window c1 - of_nat plen\<rparr>))
                      }))
           else
             (let len1 = (if len0 > unat (c_remote_window c) then unat (c_remote_window c) else len0);
                  len = (if len1 > unat (c_remote_maxpacket c) then unat (c_remote_maxpacket c) else len1)
              in if len = 0 then Some (False, sc)
                 else do {
                   s' \<leftarrow> send_msg (Msg_data (c_remote_id c) (mem_read 0 len (c_input c))) s;
                   (case sshbuf_consume len (c_input c) of
                      (Inl e, _) \<Rightarrow> None
                    | (Inr _, input') \<Rightarrow>
                        Some (True, (s', c\<lparr>c_input := input',
                                           c_remote_window := c_remote_window c - of_nat len\<rparr>)))
                 })))"

definition channel_output_poll_extended_read :: "chan_state \<Rightarrow> (bool \<times> chan_state) option" where
  "channel_output_poll_extended_read sc =
     (case sc of (s, c) \<Rightarrow>
       (let len0 = sshbuf_len (c_extended c);
            len1 = (if len0 > unat (c_remote_window c) then unat (c_remote_window c) else len0);
            len = (if len1 > unat (c_remote_maxpacket c) then unat (c_remote_maxpacket c) else len1)
        in if len0 = 0 then Some (False, sc)
           else if len = 0 then Some (False, sc)
           else if \<not> c_have_remote_id c then None
           else do {
             s' \<leftarrow> send_msg (Msg_ext_data (c_remote_id c) (mem_read 0 len (c_extended c))) s;
             (case sshbuf_consume len (c_extended c) of
                (Inl e, _) \<Rightarrow> None
              | (Inr _, ext') \<Rightarrow>
                  Some (True, (s', c\<lparr>c_extended := ext',
                                     c_remote_window := c_remote_window c - of_nat len\<rparr>)))
           }))"

text \<open>The body of the loop of \<^verbatim>\<open>channel_output_poll\<close> for one channel.\<close>

definition channel_output_poll :: "chan_state \<Rightarrow> (bool \<times> chan_state) option" where
  "channel_output_poll sc =
     (let c = snd sc
      in if c_type c \<noteq> SSH_CHANNEL_OPEN then Some (False, sc)
         else if CHAN_CLOSE_SENT \<in> c_flags c \<or> CHAN_CLOSE_RCVD \<in> c_flags c then Some (False, sc)
         else do {
           (r1, sc1) \<leftarrow> (if c_istate c = CHAN_INPUT_OPEN \<or> c_istate c = CHAN_INPUT_WAIT_DRAIN
                          then channel_output_poll_input_open sc else Some (False, sc));
           (r2, sc2) \<leftarrow> (if CHAN_EOF_SENT \<notin> c_flags (snd sc1) \<and>
                             c_extended_usage (snd sc1) = CHAN_EXTENDED_READ
                          then channel_output_poll_extended_read sc1 else Some (False, sc1));
           Some (r1 \<or> r2, sc2)
         })"

section \<open>Receiving data and window updates\<close>

text \<open>
  The input handlers take what they parse from the packet, \<^const>\<open>None\<close> if it is malformed.
  They model channels for which \<^verbatim>\<open>channel_proxy_upstream\<close> returns 0, that is, channels that
  are not proxies for a multiplexing client.
\<close>

definition channel_check_window :: "chan_state \<Rightarrow> chan_state option" where
  "channel_check_window sc =
     (case sc of (s, c) \<Rightarrow>
       if c_type c = SSH_CHANNEL_OPEN \<and>
          \<not> (CHAN_CLOSE_SENT \<in> c_flags c \<or> CHAN_CLOSE_RCVD \<in> c_flags c) \<and>
          (c_local_window_max c - c_local_window c > c_local_maxpacket c * 3 \<or>
           c_local_window c < c_local_window_max c div 2) \<and>
          c_local_consumed c > 0 then
         if \<not> c_have_remote_id c then None
         else do {
           s' \<leftarrow> send_msg (Msg_window_adjust (c_remote_id c) (c_local_consumed c)) s;
           Some (s', c\<lparr>c_local_window := c_local_window c + c_local_consumed c, c_local_consumed := 0\<rparr>)
         }
       else Some sc)"

definition channel_input_data :: "libc \<Rightarrow> byte list option \<Rightarrow> chan_state \<Rightarrow> chan_state option" where
  "channel_input_data lc parsed sc =
     (case sc of (s, c) \<Rightarrow>
       if c_type c \<notin> {SSH_CHANNEL_OPEN, SSH_CHANNEL_RDYNAMIC_OPEN, SSH_CHANNEL_RDYNAMIC_FINISH,
                      SSH_CHANNEL_X11_OPEN} then Some sc
       else do {
         data \<leftarrow> parsed;
         (let win_len = (if c_datagram c then length data + 4 else length data)
          in if c_ostate c \<noteq> CHAN_OUTPUT_OPEN then
               Some (s, c\<lparr>c_local_window := (if win_len > unat (c_local_window c) then 0
                                             else c_local_window c - of_nat win_len),
                          c_local_consumed := c_local_consumed c + of_nat win_len\<rparr>)
             else if win_len > unat (c_local_maxpacket c) then Some sc
             else do {
               c1 \<leftarrow> (if win_len > unat (c_local_window c) then
                        (let excess = c_local_window_exceeded c +
                                      of_nat (win_len - unat (c_local_window c))
                         in if excess > c_local_window_max c div 10 then None
                            else Some (c\<lparr>c_local_window_exceeded := excess, c_local_window := 0\<rparr>))
                      else Some (c\<lparr>c_local_window := c_local_window c - of_nat win_len,
                                   c_local_window_exceeded := 0\<rparr>));
               (case (if c_datagram c1 then sshbuf_put_string lc data (c_output c1)
                      else sshbuf_put lc data (c_output c1)) of
                  (Inl e, _) \<Rightarrow> None
                | (Inr _, output') \<Rightarrow> Some (s, c1\<lparr>c_output := output'\<rparr>))
             })
       })"

definition SSH2_EXTENDED_DATA_STDERR :: "32 word" where
  "SSH2_EXTENDED_DATA_STDERR = 1"

definition channel_input_extended_data ::
  "libc \<Rightarrow> 32 word option \<Rightarrow> byte list option \<Rightarrow> chan_state \<Rightarrow> chan_state option" where
  "channel_input_extended_data lc tcode parsed sc =
     (case sc of (s, c) \<Rightarrow>
       if c_type c \<noteq> SSH_CHANNEL_OPEN then Some sc
       else if CHAN_EOF_RCVD \<in> c_flags c \<and> \<not> s_bug_exteof s then None
       else do {
         tc \<leftarrow> tcode;
         (if c_efd c = -1 \<or> c_extended_usage c \<noteq> CHAN_EXTENDED_WRITE \<or> tc \<noteq> SSH2_EXTENDED_DATA_STDERR
          then Some sc
          else do {
            data \<leftarrow> parsed;
            (if length data > unat (c_local_window c) then Some sc
             else Some (s, c\<lparr>c_extended := snd (sshbuf_put lc data (c_extended c)),
                             c_local_window := c_local_window c - of_nat (length data)\<rparr>))
          })
       })"

definition channel_input_ieof :: "libc \<Rightarrow> unit option \<Rightarrow> chan_state \<Rightarrow> chan_state option" where
  "channel_input_ieof lc parsed sc =
     do {
       _ \<leftarrow> parsed;
       (s, c) \<leftarrow> chan_rcvd_ieof lc sc;
       (if c_force_drain c \<and> c_istate c = CHAN_INPUT_OPEN then
          (let c1 = c\<lparr>c_istate := CHAN_INPUT_WAIT_DRAIN\<rparr>
           in if sshbuf_len (c_input c1) = 0 then chan_ibuf_empty (s, c1) else Some (s, c1))
        else Some (s, c))
     }"

definition channel_input_oclose :: "unit option \<Rightarrow> chan_state \<Rightarrow> chan_state option" where
  "channel_input_oclose parsed sc = do { _ \<leftarrow> parsed; chan_rcvd_oclose sc }"

definition channel_input_window_adjust :: "32 word option \<Rightarrow> chan_state \<Rightarrow> chan_state option" where
  "channel_input_window_adjust parsed sc =
     (case sc of (s, c) \<Rightarrow>
       do {
         adjust \<leftarrow> parsed;
         (let new_rwin = c_remote_window c + adjust
          in if new_rwin < c_remote_window c then None
             else Some (s, c\<lparr>c_remote_window := new_rwin\<rparr>))
       })"

end
