(* ===== verification/ChannelProps.thy ===== *)
theory ChannelProps
  imports Channel
begin

text \<open>
  The abstract machine of a channel (the messages sent, the flags, the two half-close states and
  the peer's window), the simulation of the handlers of \<^theory_text>\<open>Channel\<close> by it, and the order and
  flow-control properties that follow.
\<close>

section \<open>What the handlers leave alone\<close>

text \<open>The part of the state that the order of messages depends on.\<close>

record chan_core =
  k_out :: "chan_msg list"
  k_flags :: "chan_flag set"
  k_istate :: nat
  k_ostate :: nat
  k_rwin :: "32 word"

definition core :: "chan_state \<Rightarrow> chan_core" where
  "core sc = \<lparr>k_out = s_out (fst sc), k_flags = c_flags (snd sc), k_istate = c_istate (snd sc),
              k_ostate = c_ostate (snd sc), k_rwin = c_remote_window (snd sc)\<rparr>"

named_theorems core_simps \<open>how the handlers act on the core of a channel\<close>

lemma core_parts [core_simps]:
  "core (os x s, c) = core (s, c)" "core (restore_blocking fd d s, c) = core (s, c)"
  "core (s, forget_rfd p c) = core (s, c)" "core (s, forget_wfd p c) = core (s, c)"
  "core (s, forget_efd p c) = core (s, c)" "core (s, forget_sock p c) = core (s, c)"
  by (simp_all add: core_def os_def restore_blocking_def forget_rfd_def forget_wfd_def
      forget_efd_def forget_sock_def drop_io_def)

lemma core_close_fd [core_simps]: "core (channel_close_fd p sc) = core sc"
  by (cases sc) (simp add: channel_close_fd_def Let_def core_simps)

lemma core_shutdown [core_simps]:
  "core (chan_shutdown_read sc) = core sc" "core (chan_shutdown_extended_read sc) = core sc"
  "core (chan_shutdown_write lc sc) = core sc"
  by (cases sc; simp add: chan_shutdown_read_def chan_shutdown_extended_read_def
      chan_shutdown_write_def core_simps Let_def; simp add: core_def)+

lemma core_set_istate:
  "chan_set_istate n sc = Some sc' \<Longrightarrow> core sc' = (core sc)\<lparr>k_istate := n\<rparr>"
  by (cases sc) (auto simp: chan_set_istate_def core_def split: if_splits)

lemma core_set_ostate:
  "chan_set_ostate n sc = Some sc' \<Longrightarrow> core sc' = (core sc)\<lparr>k_ostate := n\<rparr>"
  by (cases sc) (auto simp: chan_set_ostate_def core_def split: if_splits)

section \<open>The abstract channel\<close>

text \<open>
  A specification of what a channel may do, on its core and the number of bytes the peer has
  granted so far. The handlers below are simulated by sequences of these steps.
\<close>

inductive core_step :: "nat \<times> chan_core \<Rightarrow> nat \<times> chan_core \<Rightarrow> bool" where
  in_drain: "k_istate k = CHAN_INPUT_OPEN \<Longrightarrow> core_step (g, k) (g, k\<lparr>k_istate := CHAN_INPUT_WAIT_DRAIN\<rparr>)"
| in_close: "core_step (g, k) (g, k\<lparr>k_istate := CHAN_INPUT_CLOSED\<rparr>)"
| in_eof: "k_istate k = CHAN_INPUT_WAIT_DRAIN \<Longrightarrow>
    core_step (g, k) (g, k\<lparr>k_out := k_out k @ [Msg_eof i], k_flags := insert CHAN_EOF_SENT (k_flags k),
                           k_istate := CHAN_INPUT_CLOSED\<rparr>)"
| out_drain: "k_ostate k = CHAN_OUTPUT_OPEN \<Longrightarrow> core_step (g, k) (g, k\<lparr>k_ostate := CHAN_OUTPUT_WAIT_DRAIN\<rparr>)"
| out_close: "core_step (g, k) (g, k\<lparr>k_ostate := CHAN_OUTPUT_CLOSED\<rparr>)"
| out_eow: "k_ostate k \<noteq> CHAN_OUTPUT_CLOSED \<Longrightarrow>
    core_step (g, k) (g, k\<lparr>k_out := k_out k @ [Msg_eow i]\<rparr>)"
| close: "k_istate k = CHAN_INPUT_CLOSED \<Longrightarrow> k_ostate k = CHAN_OUTPUT_CLOSED \<Longrightarrow>
    CHAN_CLOSE_SENT \<notin> k_flags k \<Longrightarrow>
    core_step (g, k) (g, k\<lparr>k_out := k_out k @ [Msg_close i], k_flags := insert CHAN_CLOSE_SENT (k_flags k)\<rparr>)"
| received: "f = CHAN_EOF_RCVD \<or> f = CHAN_CLOSE_RCVD \<Longrightarrow>
    core_step (g, k) (g, k\<lparr>k_flags := insert f (k_flags k)\<rparr>)"
| data: "k_istate k \<noteq> CHAN_INPUT_CLOSED \<Longrightarrow> length bs \<le> unat (k_rwin k) \<Longrightarrow>
    core_step (g, k) (g, k\<lparr>k_out := k_out k @ [Msg_data i bs], k_rwin := k_rwin k - of_nat (length bs)\<rparr>)"
| ext_data: "CHAN_EOF_SENT \<notin> k_flags k \<Longrightarrow> CHAN_CLOSE_SENT \<notin> k_flags k \<Longrightarrow> length bs \<le> unat (k_rwin k) \<Longrightarrow>
    core_step (g, k) (g, k\<lparr>k_out := k_out k @ [Msg_ext_data i bs], k_rwin := k_rwin k - of_nat (length bs)\<rparr>)"
| adjust: "CHAN_CLOSE_SENT \<notin> k_flags k \<Longrightarrow>
    core_step (g, k) (g, k\<lparr>k_out := k_out k @ [Msg_window_adjust i n]\<rparr>)"
| granted: "unat (k_rwin k) + unat n < 2 ^ 32 \<Longrightarrow>
    core_step (g, k) (g + unat n, k\<lparr>k_rwin := k_rwin k + n\<rparr>)"

text \<open>The order of messages, and the data bytes in them.\<close>

fun is_data :: "chan_msg \<Rightarrow> bool" where
  "is_data (Msg_data i bs) = True"
| "is_data (Msg_ext_data i bs) = True"
| "is_data _ = False"

fun is_eof :: "chan_msg \<Rightarrow> bool" where
  "is_eof (Msg_eof i) = True"
| "is_eof _ = False"

fun is_close :: "chan_msg \<Rightarrow> bool" where
  "is_close (Msg_close i) = True"
| "is_close _ = False"

fun msg_bytes :: "chan_msg \<Rightarrow> nat" where
  "msg_bytes (Msg_data i bs) = length bs"
| "msg_bytes (Msg_ext_data i bs) = length bs"
| "msg_bytes _ = 0"

fun trace_ok :: "chan_msg list \<Rightarrow> bool" where
  "trace_ok [] = True"
| "trace_ok (m # ms) \<longleftrightarrow> (is_close m \<longrightarrow> ms = []) \<and>
     (is_eof m \<longrightarrow> list_all (\<lambda>x. \<not> is_data x \<and> \<not> is_eof x) ms) \<and> trace_ok ms"

lemma trace_ok_snoc:
  "trace_ok (ms @ [m]) \<longleftrightarrow> trace_ok ms \<and> \<not> list_ex is_close ms \<and>
     (list_ex is_eof ms \<longrightarrow> \<not> is_data m \<and> \<not> is_eof m)"
  by (induction ms) auto

fun core_inv :: "nat \<times> chan_core \<Rightarrow> bool" where
  "core_inv (g, k) \<longleftrightarrow> trace_ok (k_out k) \<and>
     k_istate k \<in> {CHAN_INPUT_OPEN, CHAN_INPUT_WAIT_DRAIN, CHAN_INPUT_CLOSED} \<and>
     k_ostate k \<in> {CHAN_OUTPUT_OPEN, CHAN_OUTPUT_WAIT_DRAIN, CHAN_OUTPUT_CLOSED} \<and>
     (list_ex is_close (k_out k) \<longleftrightarrow> CHAN_CLOSE_SENT \<in> k_flags k) \<and>
     (list_ex is_eof (k_out k) \<longleftrightarrow> CHAN_EOF_SENT \<in> k_flags k) \<and>
     (CHAN_CLOSE_SENT \<in> k_flags k \<longrightarrow> k_istate k = CHAN_INPUT_CLOSED \<and> k_ostate k = CHAN_OUTPUT_CLOSED) \<and>
     (CHAN_EOF_SENT \<in> k_flags k \<longrightarrow> k_istate k = CHAN_INPUT_CLOSED) \<and>
     unat (k_rwin k) + sum_list (map msg_bytes (k_out k)) = g"

lemma unat_window_sub: "n \<le> unat (w :: 32 word) \<Longrightarrow> unat (w - of_nat n) = unat w - n"
  by (metis le_unat_uoi unat_sub word_le_nat_alt)

lemma core_step_inv: "core_step x y \<Longrightarrow> core_inv x \<Longrightarrow> core_inv y"
proof (induction rule: core_step.induct)
  case (granted k n g)
  then show ?case by (simp add: unat_word_ariths)
next
  case (data k bs g i)
  then show ?case by (auto simp: trace_ok_snoc unat_window_sub)
next
  case (ext_data k bs g i)
  then show ?case by (auto simp: trace_ok_snoc unat_window_sub)
qed (auto simp: trace_ok_snoc chan_states)

lemma core_steps_inv: "core_step\<^sup>*\<^sup>* x y \<Longrightarrow> core_inv x \<Longrightarrow> core_inv y"
  by (induction rule: rtranclp_induct) (auto dest: core_step_inv)

text \<open>After CHANNEL_CLOSE the channel is silent.\<close>

lemma core_step_silent:
  "core_step x y \<Longrightarrow> core_inv x \<Longrightarrow> CHAN_CLOSE_SENT \<in> k_flags (snd x) \<Longrightarrow>
   CHAN_CLOSE_SENT \<in> k_flags (snd y) \<and> k_out (snd y) = k_out (snd x)"
  by (induction rule: core_step.induct) (auto simp: chan_states)

lemma core_steps_silent:
  assumes "core_step\<^sup>*\<^sup>* x y" and "core_inv x" and "CHAN_CLOSE_SENT \<in> k_flags (snd x)"
  shows "CHAN_CLOSE_SENT \<in> k_flags (snd y) \<and> k_out (snd y) = k_out (snd x)"
  using assms
proof (induction rule: rtranclp_induct)
  case (step y z)
  then show ?case using core_step_silent[OF step(2)] core_steps_inv[OF step(1)] by simp
qed simp

lemma trace_ok_close:
  "trace_ok ms \<Longrightarrow> list_ex is_close ms \<Longrightarrow> \<exists>ms' i. ms = ms' @ [Msg_close i] \<and> \<not> list_ex is_close ms'"
proof (induction ms)
  case (Cons m ms)
  show ?case
  proof (cases "is_close m")
    case True
    then obtain i where "m = Msg_close i" by (cases m) auto
    then show ?thesis using Cons.prems(1) by (intro exI[of _ "[]"]) auto
  next
    case False
    then obtain ms' i where "ms = ms' @ [Msg_close i]" "\<not> list_ex is_close ms'" using Cons by auto
    then show ?thesis using False by (intro exI[of _ "m # ms'"] exI[of _ i]) simp
  qed
qed simp

section \<open>The handlers implement the abstract channel\<close>

definition simulated :: "chan_state \<Rightarrow> chan_state \<Rightarrow> bool" where
  "simulated sc sc' \<longleftrightarrow> (\<forall>g. core_step\<^sup>*\<^sup>* (g, core sc) (g, core sc'))"

lemma simulated_refl [simp]: "simulated sc sc"
  by (simp add: simulated_def)

lemma simulated_trans: "simulated a b \<Longrightarrow> simulated b c \<Longrightarrow> simulated a c"
  unfolding simulated_def by (meson rtranclp_trans)

lemma simulated_step: "(\<And>g. core_step (g, core sc) (g, core sc')) \<Longrightarrow> simulated sc sc'"
  by (simp add: simulated_def r_into_rtranclp)

lemma simulated_core: "core sc = core sc' \<Longrightarrow> simulated sc sc'"
  by (simp add: simulated_def)

lemma sim_set_istate_closed:
  "chan_set_istate CHAN_INPUT_CLOSED sc = Some sc' \<Longrightarrow> simulated sc sc'"
  by (intro simulated_step) (simp add: core_set_istate in_close)

lemma sim_set_ostate_closed:
  "chan_set_ostate CHAN_OUTPUT_CLOSED sc = Some sc' \<Longrightarrow> simulated sc sc'"
  by (intro simulated_step) (simp add: core_set_ostate out_close)

lemma sim_set_ostate_drain:
  "c_ostate (snd sc) = CHAN_OUTPUT_OPEN \<Longrightarrow> chan_set_ostate CHAN_OUTPUT_WAIT_DRAIN sc = Some sc' \<Longrightarrow>
   simulated sc sc'"
proof -
  assume open': "c_ostate (snd sc) = CHAN_OUTPUT_OPEN"
    and set: "chan_set_ostate CHAN_OUTPUT_WAIT_DRAIN sc = Some sc'"
  have "k_ostate (core sc) = CHAN_OUTPUT_OPEN" using open' by (simp add: core_def)
  then show ?thesis by (intro simulated_step) (simp add: core_set_ostate[OF set] out_drain)
qed

lemma sim_shutdown:
  "simulated sc (chan_shutdown_read sc)" "simulated sc (chan_shutdown_extended_read sc)"
  "simulated sc (chan_shutdown_write lc sc)"
  by (rule simulated_core, simp add: core_simps)+

lemma istate_shutdown: "c_istate (snd (chan_shutdown_read sc)) = c_istate (snd sc)"
  using core_shutdown(1)[of sc] by (simp add: core_def)

lemma sim_read_failed: "chan_read_failed sc = Some sc' \<Longrightarrow> simulated sc sc'"
proof (cases "c_istate (snd sc) = CHAN_INPUT_OPEN")
  case True
  assume run: "chan_read_failed sc = Some sc'"
  with True have set: "chan_set_istate CHAN_INPUT_WAIT_DRAIN (chan_shutdown_read sc) = Some sc'"
    by (simp add: chan_read_failed_def)
  have "k_istate (core sc) = CHAN_INPUT_OPEN" using True by (simp add: core_def)
  then show ?thesis
    by (intro simulated_step) (simp add: core_set_istate[OF set] core_simps in_drain)
qed (simp add: chan_read_failed_def)

text \<open>Sending EOF and closing the input side.\<close>

lemma sim_eof_closed:
  assumes drain: "c_istate (snd sc) = CHAN_INPUT_WAIT_DRAIN" and eof: "chan_send_eof2 sc = Some sc1"
    and same: "core sc1' = core sc1" and set: "chan_set_istate CHAN_INPUT_CLOSED sc1' = Some sc'"
  shows "simulated sc sc'"
proof -
  obtain s c where sc: "sc = (s, c)" by fastforce
  have "core sc1 = (core sc)\<lparr>k_out := k_out (core sc) @ [Msg_eof (c_remote_id c)],
      k_flags := insert CHAN_EOF_SENT (k_flags (core sc))\<rparr>"
    using eof drain
    by (auto simp: sc chan_send_eof2_def send_msg_def core_def Option.bind_eq_Some_conv split: if_splits)
  moreover have "k_istate (core sc) = CHAN_INPUT_WAIT_DRAIN" using drain by (simp add: core_def)
  ultimately show ?thesis
    using in_eof[of "core sc"] by (intro simulated_step) (simp add: core_set_istate[OF set] same)
qed

lemma sim_ibuf_empty: "chan_ibuf_empty sc = Some sc' \<Longrightarrow> simulated sc sc'"
  by (auto simp: chan_ibuf_empty_def Let_def Option.bind_eq_Some_conv sim_set_istate_closed
      intro: sim_eof_closed split: if_splits)

lemma sim_obuf_empty: "chan_obuf_empty lc sc = Some sc' \<Longrightarrow> simulated sc sc'"
  by (auto simp: chan_obuf_empty_def Let_def split: if_splits
      intro: simulated_trans[OF sim_shutdown(3) sim_set_ostate_closed])

lemma sim_rcvd_eow: "chan_rcvd_eow sc = Some sc' \<Longrightarrow> simulated sc sc'"
  by (auto simp: chan_rcvd_eow_def split: if_splits
      intro: simulated_trans[OF sim_shutdown(1) sim_set_istate_closed])

lemma sim_flag:
  "f = CHAN_EOF_RCVD \<or> f = CHAN_CLOSE_RCVD \<Longrightarrow>
   simulated (s, c) (s, c\<lparr>c_flags := insert f (c_flags c)\<rparr>)"
proof -
  assume "f = CHAN_EOF_RCVD \<or> f = CHAN_CLOSE_RCVD"
  from received[OF this, of _ "core (s, c)"] show ?thesis
    by (intro simulated_step) (simp add: core_def)
qed

lemma sim_rcvd_ieof: "chan_rcvd_ieof lc sc = Some sc' \<Longrightarrow> simulated sc sc'"
proof -
  assume run: "chan_rcvd_ieof lc sc = Some sc'"
  obtain s c where sc: "sc = (s, c)" by fastforce
  define c1 where "c1 = c\<lparr>c_flags := insert CHAN_EOF_RCVD (c_flags c)\<rparr>"
  obtain sc1 where sc1: "(if c_ostate c1 = CHAN_OUTPUT_OPEN
        then chan_set_ostate CHAN_OUTPUT_WAIT_DRAIN (s, c1) else Some (s, c1)) = Some sc1"
    and fin: "chan_obuf_empty lc sc1 = Some sc' \<or> sc1 = sc'"
    using run by (auto simp: sc chan_rcvd_ieof_def c1_def Let_def Option.bind_eq_Some_conv split: if_splits)
  have "simulated sc (s, c1)" unfolding sc c1_def by (rule sim_flag) simp
  moreover have "simulated (s, c1) sc1"
    using sc1 sim_set_ostate_drain[of "(s, c1)"] by (auto split: if_splits)
  moreover have "simulated sc1 sc'" using fin sim_obuf_empty[of lc sc1 sc'] by auto
  ultimately show ?thesis by (meson simulated_trans)
qed

lemma sim_rcvd_oclose_input:
  assumes run: "(if c_istate (snd sc) = CHAN_INPUT_OPEN then
        chan_set_istate CHAN_INPUT_CLOSED (chan_shutdown_extended_read (chan_shutdown_read sc))
      else if c_istate (snd sc) = CHAN_INPUT_WAIT_DRAIN then do {
        sc3 \<leftarrow> (if CHAN_LOCAL \<notin> c_flags (snd sc) then chan_send_eof2 sc else Some sc);
        chan_set_istate CHAN_INPUT_CLOSED (chan_shutdown_extended_read sc3)
      }
      else Some sc) = Some sc'"
  shows "simulated sc sc'"
proof -
  have "simulated sc sc'"
    if "chan_set_istate CHAN_INPUT_CLOSED (chan_shutdown_extended_read (chan_shutdown_read sc)) = Some sc'"
    using sim_set_istate_closed[OF that] sim_shutdown by (meson simulated_trans)
  moreover have "simulated sc sc'"
    if "chan_set_istate CHAN_INPUT_CLOSED (chan_shutdown_extended_read sc) = Some sc'"
    using sim_set_istate_closed[OF that] sim_shutdown by (meson simulated_trans)
  moreover have "simulated sc sc'"
    if "c_istate (snd sc) = CHAN_INPUT_WAIT_DRAIN" "chan_send_eof2 sc = Some sc3"
      "chan_set_istate CHAN_INPUT_CLOSED (chan_shutdown_extended_read sc3) = Some sc'" for sc3
    by (rule sim_eof_closed[OF that(1,2) _ that(3)]) (simp add: core_simps)
  ultimately show ?thesis
    using run by (auto simp: Option.bind_eq_Some_conv split: if_splits)
qed

lemma sim_rcvd_oclose: "chan_rcvd_oclose sc = Some sc' \<Longrightarrow> simulated sc sc'"
proof -
  assume run: "chan_rcvd_oclose sc = Some sc'"
  obtain s c where sc: "sc = (s, c)" by fastforce
  define c1 where "c1 = (if CHAN_LOCAL \<notin> c_flags c
      then c\<lparr>c_flags := insert CHAN_CLOSE_RCVD (c_flags c)\<rparr> else c)"
  have flag: "simulated sc (s, c1)" using sim_flag[of CHAN_CLOSE_RCVD s c] by (simp add: sc c1_def)
  show ?thesis
  proof (cases "c_type c1 = SSH_CHANNEL_LARVAL")
    case True
    then obtain sc2 where "chan_set_ostate CHAN_OUTPUT_CLOSED (s, c1) = Some sc2"
        "chan_set_istate CHAN_INPUT_CLOSED sc2 = Some sc'"
      using run by (auto simp: sc chan_rcvd_oclose_def c1_def[symmetric] Let_def Option.bind_eq_Some_conv)
    then show ?thesis
      using flag sim_set_ostate_closed sim_set_istate_closed by (meson simulated_trans)
  next
    case False
    obtain sc2 where sc2: "(if c_ostate c1 = CHAN_OUTPUT_OPEN
          then chan_set_ostate CHAN_OUTPUT_WAIT_DRAIN (s, c1) else Some (s, c1)) = Some sc2"
      and fin: "(if c_istate (snd sc2) = CHAN_INPUT_OPEN then
        chan_set_istate CHAN_INPUT_CLOSED (chan_shutdown_extended_read (chan_shutdown_read sc2))
      else if c_istate (snd sc2) = CHAN_INPUT_WAIT_DRAIN then do {
        sc3 \<leftarrow> (if CHAN_LOCAL \<notin> c_flags (snd sc2) then chan_send_eof2 sc2 else Some sc2);
        chan_set_istate CHAN_INPUT_CLOSED (chan_shutdown_extended_read sc3)
      }
      else Some sc2) = Some sc'"
      using run False
      unfolding sc chan_rcvd_oclose_def prod.case c1_def[symmetric] Let_def if_not_P[OF False]
      by (auto simp: Option.bind_eq_Some_conv)
    have "simulated (s, c1) sc2"
      using sc2 sim_set_ostate_drain[of "(s, c1)"] by (auto split: if_splits)
    then show ?thesis
      using flag sim_rcvd_oclose_input[OF fin] by (meson simulated_trans)
  qed
qed

lemma sim_send_eow: "chan_send_eow2 sc = Some sc' \<Longrightarrow> simulated sc sc'"
proof -
  assume run: "chan_send_eow2 sc = Some sc'"
  obtain s c where sc: "sc = (s, c)" by fastforce
  show ?thesis
  proof (cases "sc' = sc")
    case False
    then have "core sc' = (core sc)\<lparr>k_out := k_out (core sc) @ [Msg_eow (c_remote_id c)]\<rparr>"
        "k_ostate (core sc) \<noteq> CHAN_OUTPUT_CLOSED"
      using run by (auto simp: sc chan_send_eow2_def send_msg_def core_def Option.bind_eq_Some_conv split: if_splits)
    then show ?thesis using out_eow[of "core sc"] by (intro simulated_step) simp
  qed simp
qed

lemma sim_write_failed: "chan_write_failed lc sc = Some sc' \<Longrightarrow> simulated sc sc'"
proof -
  assume run: "chan_write_failed lc sc = Some sc'"
  show ?thesis
  proof (cases "c_ostate (snd sc) = CHAN_OUTPUT_OPEN \<or> c_ostate (snd sc) = CHAN_OUTPUT_WAIT_DRAIN")
    case True
    with run obtain sc1 where sc1: "(if c_ctype (snd (chan_shutdown_write lc sc)) = ''session''
          then chan_send_eow2 (chan_shutdown_write lc sc) else Some (chan_shutdown_write lc sc)) = Some sc1"
        "chan_set_ostate CHAN_OUTPUT_CLOSED sc1 = Some sc'"
      unfolding chan_write_failed_def if_P[OF True] Let_def Option.bind_eq_Some_conv by blast
    have "simulated (chan_shutdown_write lc sc) sc1"
      using sc1(1) sim_send_eow[of "chan_shutdown_write lc sc" sc1] by (auto split: if_splits)
    then show ?thesis
      using sim_shutdown(3)[of sc lc] sim_set_ostate_closed[OF sc1(2)] by (meson simulated_trans)
  qed (use run in \<open>simp add: chan_write_failed_def\<close>)
qed

lemma sim_send_close: "chan_send_close2 sc = Some sc' \<Longrightarrow> simulated sc sc'"
proof -
  assume run: "chan_send_close2 sc = Some sc'"
  obtain s c where sc: "sc = (s, c)" by fastforce
  show ?thesis
  proof (cases "sc' = sc")
    case False
    then have "core sc' = (core sc)\<lparr>k_out := k_out (core sc) @ [Msg_close (c_remote_id c)],
          k_flags := insert CHAN_CLOSE_SENT (k_flags (core sc))\<rparr>"
        "k_istate (core sc) = CHAN_INPUT_CLOSED" "k_ostate (core sc) = CHAN_OUTPUT_CLOSED"
        "CHAN_CLOSE_SENT \<notin> k_flags (core sc)"
      using run by (auto simp: sc chan_send_close2_def send_msg_def core_def Option.bind_eq_Some_conv split: if_splits)
    then show ?thesis using close[of "core sc"] by (intro simulated_step) simp
  qed simp
qed

lemma sim_is_dead: "chan_is_dead do_send sc = Some (r, sc') \<Longrightarrow> simulated sc sc'"
  by (cases sc) (auto simp: chan_is_dead_def Option.bind_eq_Some_conv sim_send_close split: if_splits)

lemma sim_mark_dead: "simulated sc (chan_mark_dead sc)"
  by (cases sc) (auto simp: chan_mark_dead_def core_def intro: simulated_core)

text \<open>Data messages.\<close>

lemma sim_data:
  assumes "c_istate c \<noteq> CHAN_INPUT_CLOSED" and "length bs \<le> unat (c_remote_window c)"
    and "send_msg (Msg_data i bs) s = Some s'"
  shows "simulated (s, c) (s', c\<lparr>c_input := x, c_remote_window := c_remote_window c - of_nat (length bs)\<rparr>)"
  using assms data[of "core (s, c)" bs _ i]
  by (intro simulated_step) (auto simp: core_def send_msg_def split: if_splits)

lemma sim_ext_data:
  assumes "CHAN_EOF_SENT \<notin> c_flags c" "CHAN_CLOSE_SENT \<notin> c_flags c" "length bs \<le> unat (c_remote_window c)"
    and "send_msg (Msg_ext_data i bs) s = Some s'"
  shows "simulated (s, c) (s', c\<lparr>c_extended := x, c_remote_window := c_remote_window c - of_nat (length bs)\<rparr>)"
  using assms ext_data[of "core (s, c)" bs _ i]
  by (intro simulated_step) (auto simp: core_def send_msg_def split: if_splits)

lemma mem_read_len:
  assumes "sshbuf_consume n b = (Inr u, b')" and "wf_sshbuf b"
  shows "length (mem_read 0 n b) = n"
  using assms by (auto simp: sshbuf_consume_def mem_read_def sshbuf_len_def wf_sshbuf_def
      sshbuf_insane_def Let_def split: if_splits)

text \<open>The buffers a channel sends from are sane.\<close>

definition bufs_ok :: "channel \<Rightarrow> bool" where
  "bufs_ok c \<longleftrightarrow> wf_sshbuf (c_input c) \<and> wf_sshbuf (c_extended c)"

lemma sim_poll_input:
  assumes run: "channel_output_poll_input_open sc = Some (r, sc')"
    and open': "c_istate (snd sc) \<noteq> CHAN_INPUT_CLOSED" and ok: "bufs_ok (snd sc)"
  shows "simulated sc sc'"
proof -
  obtain s c where sc: "sc = (s, c)" by fastforce
  show ?thesis
  proof (cases "sshbuf_len (c_input c) = 0")
    case True
    then show ?thesis
      using run by (auto simp: sc channel_output_poll_input_open_def Option.bind_eq_Some_conv
          intro: sim_ibuf_empty split: if_splits)
  next
    case nz: False
    have rid: "c_have_remote_id c"
      by (rule ccontr) (use run nz in \<open>simp add: sc channel_output_poll_input_open_def Let_def\<close>)
    show ?thesis
    proof (cases "c_datagram c")
      case True
      obtain gr i' where g: "sshbuf_get_string_direct (c_input c) = (gr, i')" by fastforce
      obtain pkt where gr: "gr = Inr pkt"
        using run nz True g rid by (cases gr) (auto simp: sc channel_output_poll_input_open_def)
      have eq: "channel_output_poll_input_open sc =
          (if length pkt > unat (c_remote_window c) \<or> length pkt > unat (c_remote_maxpacket c)
           then Some (False, (s, c\<lparr>c_input := i'\<rparr>))
           else do {
             s' \<leftarrow> send_msg (Msg_data (c_remote_id c) pkt) s;
             Some (True, (s', c\<lparr>c_input := i', c_remote_window := c_remote_window c - of_nat (length pkt)\<rparr>))})"
        using nz True rid g gr by (simp add: sc channel_output_poll_input_open_def Let_def)
      show ?thesis
      proof (cases "length pkt > unat (c_remote_window c) \<or> length pkt > unat (c_remote_maxpacket c)")
        case True
        then show ?thesis using run unfolding eq by (auto simp: sc core_def intro: simulated_core)
      next
        case False
        then obtain s' where "send_msg (Msg_data (c_remote_id c) pkt) s = Some s'"
            "sc' = (s', c\<lparr>c_input := i', c_remote_window := c_remote_window c - of_nat (length pkt)\<rparr>)"
          using run unfolding eq by (auto simp: Option.bind_eq_Some_conv)
        then show ?thesis using sim_data[of c pkt "c_remote_id c" s s' i'] False open' by (simp add: sc)
      qed
    next
      case False
      define len1 where "len1 = (if sshbuf_len (c_input c) > unat (c_remote_window c)
          then unat (c_remote_window c) else sshbuf_len (c_input c))"
      define len where "len = (if len1 > unat (c_remote_maxpacket c) then unat (c_remote_maxpacket c) else len1)"
      have le: "len \<le> unat (c_remote_window c)" by (simp add: len_def len1_def)
      have eq: "channel_output_poll_input_open sc = (if len = 0 then Some (False, sc) else do {
          s' \<leftarrow> send_msg (Msg_data (c_remote_id c) (mem_read 0 len (c_input c))) s;
          (case sshbuf_consume len (c_input c) of
             (Inl e, _) \<Rightarrow> None
           | (Inr _, input') \<Rightarrow>
               Some (True, (s', c\<lparr>c_input := input', c_remote_window := c_remote_window c - of_nat len\<rparr>)))})"
        using nz False rid unfolding channel_output_poll_input_open_def sc prod.case Let_def
          len1_def[symmetric] len_def[symmetric] by simp
      show ?thesis
      proof (cases "len = 0")
        case False
        then obtain s' i' u where 2: "send_msg (Msg_data (c_remote_id c) (mem_read 0 len (c_input c))) s = Some s'"
            "sshbuf_consume len (c_input c) = (Inr u, i')"
            "sc' = (s', c\<lparr>c_input := i', c_remote_window := c_remote_window c - of_nat len\<rparr>)"
        proof -
          obtain cr i' where cr: "sshbuf_consume len (c_input c) = (cr, i')" by fastforce
          show ?thesis
            using run False that[of _ _ i'] unfolding eq cr
            by (cases cr) (auto simp: Option.bind_eq_Some_conv cr)
        qed
        then show ?thesis
          using sim_data[OF _ _ 2(1), of c i'] mem_read_len[OF 2(2)] ok open' le
          by (simp add: sc bufs_ok_def)
      qed (use run eq in simp)
    qed
  qed
qed

lemma sim_poll_extended:
  assumes run: "channel_output_poll_extended_read sc = Some (r, sc')"
    and fl: "CHAN_EOF_SENT \<notin> c_flags (snd sc)" "CHAN_CLOSE_SENT \<notin> c_flags (snd sc)" and ok: "bufs_ok (snd sc)"
  shows "simulated sc sc'"
proof -
  obtain s c where sc: "sc = (s, c)" by fastforce
  define len1 where "len1 = (if sshbuf_len (c_extended c) > unat (c_remote_window c)
      then unat (c_remote_window c) else sshbuf_len (c_extended c))"
  define len where "len = (if len1 > unat (c_remote_maxpacket c) then unat (c_remote_maxpacket c) else len1)"
  have le: "len \<le> unat (c_remote_window c)" by (simp add: len_def len1_def)
  have eq: "channel_output_poll_extended_read sc = (if sshbuf_len (c_extended c) = 0 then Some (False, sc)
      else if len = 0 then Some (False, sc)
      else if \<not> c_have_remote_id c then None
      else do {
        s' \<leftarrow> send_msg (Msg_ext_data (c_remote_id c) (mem_read 0 len (c_extended c))) s;
        (case sshbuf_consume len (c_extended c) of
           (Inl e, _) \<Rightarrow> None
         | (Inr _, ext') \<Rightarrow>
             Some (True, (s', c\<lparr>c_extended := ext', c_remote_window := c_remote_window c - of_nat len\<rparr>)))})"
    unfolding channel_output_poll_extended_read_def sc prod.case Let_def
      len1_def[symmetric] len_def[symmetric] by simp
  show ?thesis
  proof (cases "sc' = sc")
    case False
    then obtain s' i' u where 2: "send_msg (Msg_ext_data (c_remote_id c) (mem_read 0 len (c_extended c))) s = Some s'"
        "sshbuf_consume len (c_extended c) = (Inr u, i')"
        "sc' = (s', c\<lparr>c_extended := i', c_remote_window := c_remote_window c - of_nat len\<rparr>)"
    proof -
      obtain cr i' where cr: "sshbuf_consume len (c_extended c) = (cr, i')" by fastforce
      show ?thesis
        using run False that[of _ _ i'] unfolding eq cr
        by (cases cr) (auto simp: Option.bind_eq_Some_conv cr split: if_splits)
    qed
    then show ?thesis
      using sim_ext_data[OF _ _ _ 2(1), of c i'] mem_read_len[OF 2(2)] ok fl le
      by (simp add: sc bufs_ok_def)
  qed simp
qed

lemma ibuf_empty_extended:
  "chan_ibuf_empty sc = Some sc' \<Longrightarrow> c_extended (snd sc') = c_extended (snd sc) \<and> c_input (snd sc') = c_input (snd sc)"
  by (cases sc) (auto simp: chan_ibuf_empty_def chan_send_eof2_def chan_set_istate_def send_msg_def Let_def
      Option.bind_eq_Some_conv split: if_splits)

lemma poll_input_bufs:
  assumes run: "channel_output_poll_input_open sc = Some (r, sc')" and ok: "bufs_ok (snd sc)"
  shows "bufs_ok (snd sc')"
proof -
  obtain s c where sc: "sc = (s, c)" by fastforce
  obtain gr gi where g: "sshbuf_get_string_direct (c_input c) = (gr, gi)" by fastforce
  have gi: "wf_sshbuf gi"
    using keepsD[OF keeps_wf_get_string_direct, of "c_input c"] ok g by (simp add: sc bufs_ok_def)
  have ci: "wf_sshbuf i" if "sshbuf_consume n (c_input c) = (cr, i)" for n cr i
    using keepsD[OF keeps_wf_consume, of "c_input c" n] ok that by (simp add: sc bufs_ok_def)
  show ?thesis
  proof (cases "sshbuf_len (c_input c) = 0")
    case True
    then show ?thesis
      using run ok ibuf_empty_extended[of sc]
      by (auto simp: sc channel_output_poll_input_open_def Option.bind_eq_Some_conv bufs_ok_def split: if_splits)
  next
    case nz: False
    show ?thesis
    proof (cases "c_datagram c")
      case True
      then show ?thesis
        using run nz ok gi unfolding sc channel_output_poll_input_open_def prod.case Let_def g
        by (cases gr) (auto simp: Option.bind_eq_Some_conv bufs_ok_def split: if_splits)
    next
      case False
      define len where "len = (let len1 = (if sshbuf_len (c_input c) > unat (c_remote_window c)
          then unat (c_remote_window c) else sshbuf_len (c_input c))
        in if len1 > unat (c_remote_maxpacket c) then unat (c_remote_maxpacket c) else len1)"
      obtain cr i where c: "sshbuf_consume len (c_input c) = (cr, i)" by fastforce
      show ?thesis
        using run nz ok False ci[OF c] c
        unfolding sc channel_output_poll_input_open_def prod.case Let_def len_def[unfolded Let_def, symmetric] c
        by (cases cr) (auto simp: Option.bind_eq_Some_conv bufs_ok_def split: if_splits)
    qed
  qed
qed

lemma poll_input_flags:
  assumes run: "channel_output_poll_input_open sc = Some (r, sc')"
  shows "c_flags (snd sc') \<subseteq> insert CHAN_EOF_SENT (c_flags (snd sc))"
proof -
  have ib: "c_flags (snd sc1) \<subseteq> insert CHAN_EOF_SENT (c_flags (snd sc))" if "chan_ibuf_empty sc = Some sc1" for sc1
    using that by (cases sc) (auto simp: chan_ibuf_empty_def chan_send_eof2_def chan_set_istate_def Let_def
        Option.bind_eq_Some_conv split: if_splits)
  show ?thesis
    using run ib by (cases sc) (auto simp: channel_output_poll_input_open_def Let_def
        Option.bind_eq_Some_conv split: if_splits prod.splits sum.splits)
qed

lemma sim_output_poll:
  assumes run: "channel_output_poll sc = Some (r, sc')" and ok: "bufs_ok (snd sc)"
  shows "simulated sc sc'"
proof (cases "c_type (snd sc) \<noteq> SSH_CHANNEL_OPEN \<or> CHAN_CLOSE_SENT \<in> c_flags (snd sc) \<or>
    CHAN_CLOSE_RCVD \<in> c_flags (snd sc)")
  case True
  then show ?thesis using run by (auto simp: channel_output_poll_def Let_def split: if_splits)
next
  case False
  let ?in = "c_istate (snd sc) = CHAN_INPUT_OPEN \<or> c_istate (snd sc) = CHAN_INPUT_WAIT_DRAIN"
  obtain r1 sc1 r2 where 1: "(if ?in then channel_output_poll_input_open sc else Some (False, sc)) = Some (r1, sc1)"
    and 2: "(if CHAN_EOF_SENT \<notin> c_flags (snd sc1) \<and> c_extended_usage (snd sc1) = CHAN_EXTENDED_READ
       then channel_output_poll_extended_read sc1 else Some (False, sc1)) = Some (r2, sc')"
  proof (cases "if ?in then channel_output_poll_input_open sc else Some (False, sc)")
    case None
    then show ?thesis using run False by (simp add: channel_output_poll_def Let_def)
  next
    case (Some x)
    obtain r1 sc1 where x: "x = (r1, sc1)" by (cases x)
    show ?thesis
    proof (cases "if CHAN_EOF_SENT \<notin> c_flags (snd sc1) \<and> c_extended_usage (snd sc1) = CHAN_EXTENDED_READ
        then channel_output_poll_extended_read sc1 else Some (False, sc1)")
      case None
      then show ?thesis using run False Some x by (simp add: channel_output_poll_def Let_def)
    next
      case (Some y)
      then show ?thesis
        using run False \<open>(if ?in then _ else _) = Some x\<close> x that[of r1 sc1 "fst y"]
        by (cases y) (simp add: channel_output_poll_def Let_def)
    qed
  qed
  have s1: "simulated sc sc1" and ok1: "bufs_ok (snd sc1)"
    using 1 sim_poll_input[of sc r1 sc1] poll_input_bufs[of sc r1 sc1] ok by (auto simp: chan_states split: if_splits)
  have "CHAN_CLOSE_SENT \<notin> c_flags (snd sc1)"
  proof -
    have "c_flags (snd sc1) \<subseteq> insert CHAN_EOF_SENT (c_flags (snd sc))"
      using 1 poll_input_flags[of sc r1 sc1] by (auto split: if_splits)
    then show ?thesis using False by auto
  qed
  then show ?thesis
    using 2 sim_poll_extended[of sc1 r2 sc'] s1 ok1 by (auto split: if_splits intro: simulated_trans)
qed

lemma sim_check_window: "channel_check_window sc = Some sc' \<Longrightarrow> simulated sc sc'"
proof -
  assume run: "channel_check_window sc = Some sc'"
  obtain s c where sc: "sc = (s, c)" by fastforce
  show ?thesis
  proof (cases "sc' = sc")
    case False
    then have "core sc' = (core sc)\<lparr>k_out := k_out (core sc) @ [Msg_window_adjust (c_remote_id c) (c_local_consumed c)]\<rparr>"
        "CHAN_CLOSE_SENT \<notin> k_flags (core sc)"
      using run by (auto simp: sc channel_check_window_def send_msg_def core_def Option.bind_eq_Some_conv split: if_splits)
    then show ?thesis using adjust[of "core sc"] by (intro simulated_step) simp
  qed simp
qed

lemma sim_input_data: "channel_input_data lc p sc = Some sc' \<Longrightarrow> simulated sc sc'"
proof -
  assume run: "channel_input_data lc p sc = Some sc'"
  obtain s c where sc: "sc = (s, c)" by fastforce
  have "core sc' = core sc"
  proof (cases p)
    case None
    then show ?thesis using run by (auto simp: sc channel_input_data_def split: if_splits)
  next
    case (Some data)
    then show ?thesis
      using run by (auto simp: sc channel_input_data_def core_def Let_def Option.bind_eq_Some_conv
          split: if_splits prod.splits sum.splits)
  qed
  then show ?thesis by (simp add: simulated_core)
qed

lemma sim_input_ext: "channel_input_extended_data lc t p sc = Some sc' \<Longrightarrow> simulated sc sc'"
  by (cases sc) (auto simp: channel_input_extended_data_def core_def Option.bind_eq_Some_conv
      intro!: simulated_core split: if_splits)

lemma sim_input_ieof:
  assumes run: "channel_input_ieof lc p sc = Some sc'"
  shows "simulated sc sc'"
proof -
  obtain s c where sc1: "chan_rcvd_ieof lc sc = Some (s, c)"
    and fin: "(if c_force_drain c \<and> c_istate c = CHAN_INPUT_OPEN then
         (let c1 = c\<lparr>c_istate := CHAN_INPUT_WAIT_DRAIN\<rparr>
          in if sshbuf_len (c_input c1) = 0 then chan_ibuf_empty (s, c1) else Some (s, c1))
       else Some (s, c)) = Some sc'"
    using run by (auto simp: channel_input_ieof_def Option.bind_eq_Some_conv)
  let ?c1 = "c\<lparr>c_istate := CHAN_INPUT_WAIT_DRAIN\<rparr>"
  have dr: "simulated (s, c) (s, ?c1)" if "c_istate c = CHAN_INPUT_OPEN"
    using that in_drain[of "core (s, c)"] by (intro simulated_step) (simp add: core_def)
  have "simulated (s, c) sc'"
  proof (cases "c_force_drain c \<and> c_istate c = CHAN_INPUT_OPEN")
    case True
    then have "simulated (s, ?c1) sc'"
      using fin sim_ibuf_empty[of "(s, ?c1)" sc'] by (auto simp: Let_def split: if_splits)
    then show ?thesis using dr True simulated_trans by blast
  qed (use fin in auto)
  then show ?thesis using sim_rcvd_ieof[OF sc1] simulated_trans by blast
qed

lemma sim_window_adjust:
  assumes run: "channel_input_window_adjust (Some n) sc = Some sc'"
  shows "core_step (g, core sc) (g + unat n, core sc')"
proof -
  obtain s c where sc: "sc = (s, c)" by fastforce
  have le: "\<not> c_remote_window c + n < c_remote_window c"
    and sc': "sc' = (s, c\<lparr>c_remote_window := c_remote_window c + n\<rparr>)"
    using run by (auto simp: sc channel_input_window_adjust_def Let_def split: if_splits)
  have "unat (c_remote_window c) + unat n < 2 ^ 32"
    using le no_olen_add_nat[of "c_remote_window c" n] by (simp add: not_less)
  then show ?thesis using granted[of "core (s, c)" n g] by (simp add: sc sc' core_def)
qed

section \<open>Properties\<close>

text \<open>The events of a channel, with what the peer or the packet parser contributes.\<close>

datatype chan_event =
    Read_failed | Ibuf_empty | Obuf_empty | Rcvd_eow | Write_failed | Mark_dead | Is_dead bool
  | Output_poll | Check_window | Input_data "byte list option"
  | Input_extended_data "32 word option" "byte list option" | Input_ieof "unit option"
  | Input_oclose "unit option" | Window_adjust "32 word option"

fun chan_do :: "libc \<Rightarrow> chan_event \<Rightarrow> chan_state \<Rightarrow> chan_state option" where
  "chan_do lc Read_failed sc = chan_read_failed sc"
| "chan_do lc Ibuf_empty sc = chan_ibuf_empty sc"
| "chan_do lc Obuf_empty sc = chan_obuf_empty lc sc"
| "chan_do lc Rcvd_eow sc = chan_rcvd_eow sc"
| "chan_do lc Write_failed sc = chan_write_failed lc sc"
| "chan_do lc Mark_dead sc = Some (chan_mark_dead sc)"
| "chan_do lc (Is_dead do_send) sc = map_option snd (chan_is_dead do_send sc)"
| "chan_do lc Output_poll sc = map_option snd (channel_output_poll sc)"
| "chan_do lc Check_window sc = channel_check_window sc"
| "chan_do lc (Input_data p) sc = channel_input_data lc p sc"
| "chan_do lc (Input_extended_data t p) sc = channel_input_extended_data lc t p sc"
| "chan_do lc (Input_ieof p) sc = channel_input_ieof lc p sc"
| "chan_do lc (Input_oclose p) sc = channel_input_oclose p sc"
| "chan_do lc (Window_adjust p) sc = channel_input_window_adjust p sc"

fun grant :: "chan_event \<Rightarrow> nat" where
  "grant (Window_adjust (Some n)) = unat n"
| "grant _ = 0"

lemma chan_do_simulated:
  assumes "chan_do lc e sc = Some sc'" and "bufs_ok (snd sc)"
  shows "core_step\<^sup>*\<^sup>* (g, core sc) (g + grant e, core sc')"
proof (cases "\<exists>p. e = Window_adjust p")
  case True
  then obtain n where "e = Window_adjust (Some n)"
    using assms(1) by (cases sc) (auto simp: channel_input_window_adjust_def Option.bind_eq_Some_conv)
  then show ?thesis using assms(1) sim_window_adjust[of n sc sc' g] by (simp add: r_into_rtranclp)
next
  case False
  then have "simulated sc sc'"
    using assms by (cases e)
      (auto simp: channel_input_oclose_def sim_read_failed sim_ibuf_empty sim_obuf_empty sim_rcvd_eow
        sim_write_failed sim_mark_dead sim_check_window sim_input_data sim_input_ext sim_input_ieof
        Option.bind_eq_Some_conv dest: sim_is_dead sim_output_poll sim_rcvd_oclose)
  moreover have "grant e = 0" using False by (cases e) auto
  ultimately show ?thesis by (simp add: simulated_def)
qed

text \<open>
  The runs of a channel from the moment it is open, with the number of bytes the peer has
  granted. Between the handlers, I/O and the packet layer may change everything but the
  messages sent, the flags, the two half-close states and the peer's window.
\<close>

inductive chan_run :: "nat \<Rightarrow> chan_state \<Rightarrow> bool" where
  run_start: "s_out s = [] \<Longrightarrow> c_flags c \<inter> {CHAN_CLOSE_SENT, CHAN_EOF_SENT} = {} \<Longrightarrow>
    c_istate c = CHAN_INPUT_OPEN \<Longrightarrow> c_ostate c = CHAN_OUTPUT_OPEN \<Longrightarrow>
    chan_run (unat (c_remote_window c)) (s, c)"
| run_event: "chan_run g sc \<Longrightarrow> bufs_ok (snd sc) \<Longrightarrow> chan_do lc e sc = Some sc' \<Longrightarrow>
    chan_run (g + grant e) sc'"
| run_io: "chan_run g sc \<Longrightarrow> core sc' = core sc \<Longrightarrow> chan_run g sc'"

lemma chan_run_inv: "chan_run g sc \<Longrightarrow> core_inv (g, core sc)"
proof (induction rule: chan_run.induct)
  case (run_start s c)
  then show ?case by (auto simp: core_def)
next
  case (run_event g sc lc e sc')
  then show ?case using chan_do_simulated core_steps_inv by blast
qed simp

text \<open>What may happen to a channel after a given state.\<close>

inductive chan_later :: "chan_state \<Rightarrow> chan_state \<Rightarrow> bool" where
  later_now: "chan_later sc sc"
| later_event: "chan_later sc sc' \<Longrightarrow> bufs_ok (snd sc') \<Longrightarrow> chan_do lc e sc' = Some sc'' \<Longrightarrow> chan_later sc sc''"
| later_io: "chan_later sc sc' \<Longrightarrow> core sc'' = core sc' \<Longrightarrow> chan_later sc sc''"

lemma chan_later_silent:
  "chan_later sc sc' \<Longrightarrow> core_inv (g, core sc) \<Longrightarrow> CHAN_CLOSE_SENT \<in> c_flags (snd sc) \<Longrightarrow>
   \<exists>g'. core_inv (g', core sc') \<and> CHAN_CLOSE_SENT \<in> c_flags (snd sc') \<and> s_out (fst sc') = s_out (fst sc)"
proof (induction rule: chan_later.induct)
  case (later_event sc sc' lc e sc'')
  then obtain g' where inv: "core_inv (g', core sc')" and sent: "CHAN_CLOSE_SENT \<in> c_flags (snd sc')"
    "s_out (fst sc') = s_out (fst sc)" by blast
  have steps: "core_step\<^sup>*\<^sup>* (g', core sc') (g' + grant e, core sc'')"
    using later_event(3,2) by (rule chan_do_simulated)
  show ?case
    using core_steps_silent[OF steps inv] core_steps_inv[OF steps inv] sent
    by (intro exI[of _ "g' + grant e"]) (simp add: core_def del: core_inv.simps)
next
  case (later_io sc sc' sc'')
  then have "c_flags (snd sc'') = c_flags (snd sc')" "s_out (fst sc'') = s_out (fst sc')"
    by (simp_all add: core_def)
  then show ?case using later_io by (simp del: core_inv.simps)
qed blast

text \<open>A concrete channel with three bytes to send, and its life until both halves are closed.\<close>

fun chan_dos :: "libc \<Rightarrow> chan_event list \<Rightarrow> chan_state \<Rightarrow> chan_state option" where
  "chan_dos lc [] sc = Some sc"
| "chan_dos lc (e # es) sc =
     (if bufs_ok (snd sc) then (case chan_do lc e sc of None \<Rightarrow> None | Some sc' \<Rightarrow> chan_dos lc es sc')
      else None)"

lemma chan_dos_run:
  "chan_run g sc \<Longrightarrow> chan_dos lc es sc = Some sc' \<Longrightarrow> chan_run (g + sum_list (map grant es)) sc'"
proof (induction es arbitrary: g sc)
  case (Cons e es)
  then show ?case using run_event[of g sc lc e] by (fastforce simp: add.assoc split: if_splits option.splits)
qed simp

definition cbuf :: "byte list \<Rightarrow> sshbuf" where
  "cbuf xs = \<lparr>b_self = Some 64, b_d = Some 4096, b_cd = Some 4096, b_mem = xs, b_off = 0,
              b_size = length xs, b_max_size = length xs, b_alloc = length xs, b_readonly = False,
              b_refcount = 1, b_parent = None\<rparr>"

definition ch0 :: channel where
  "ch0 = \<lparr>c_type = SSH_CHANNEL_OPEN, c_remote_id = 7, c_have_remote_id = True,
     c_istate = CHAN_INPUT_OPEN, c_ostate = CHAN_OUTPUT_OPEN, c_flags = {}, c_rfd = 4, c_wfd = 5,
     c_efd = -1, c_sock = -1, c_io_want = {}, c_io_ready = {}, c_pfds = [-1, -1, -1, -1],
     c_restore_block = {}, c_restore_flags = [0, 0, 0], c_force_drain = False,
     c_input = cbuf [1, 2, 3], c_output = cbuf [], c_extended = cbuf [], c_remote_window = 10,
     c_remote_maxpacket = 100, c_local_window = 100, c_local_window_exceeded = 0,
     c_local_window_max = 100, c_local_consumed = 0, c_local_maxpacket = 50,
     c_extended_usage = CHAN_EXTENDED_IGNORE, c_ctype = ''session'', c_datagram = False\<rparr>"

definition cs0 :: chan_ssh where
  "cs0 = \<lparr>s_new_openssh = True, s_bug_exteof = False, s_send_ok = True, s_out = [], s_os = []\<rparr>"

definition lc0 :: libc where "lc0 = \<lparr>malloc = Some, pagesize = 4096\<rparr>"

lemmas chan_eval =
  lc0_def cs0_def ch0_def cbuf_def bufs_ok_def wf_sshbuf_def sshbuf_insane_def SSHBUF_SIZE_MAX_def
  SSHBUF_REFS_MAX_def SSHBUF_SIZE_INIT_def SSHBUF_PACK_MIN_def sshbuf_len_def sshbuf_consume_def sshbuf_reset_def
  sshbuf_maybe_pack_def mem_read_def recallocarray_def
  send_msg_def os_def drop_io_def forget_rfd_def forget_wfd_def forget_efd_def forget_sock_def
  restore_blocking_def channel_close_fd_def chan_shutdown_write_def chan_shutdown_read_def
  chan_shutdown_extended_read_def chan_set_istate_def chan_set_ostate_def chan_send_eof2_def
  chan_send_close2_def chan_send_eow2_def chan_read_failed_def chan_ibuf_empty_def
  chan_rcvd_oclose_def chan_write_failed_def chan_is_dead_def channel_output_poll_input_open_def
  channel_output_poll_extended_read_def channel_output_poll_def channel_input_oclose_def
  channel_input_window_adjust_def CHANNEL_EFD_INPUT_ACTIVE_def CHANNEL_EFD_OUTPUT_ACTIVE_def
  CHAN_INPUT_OPEN_def CHAN_INPUT_WAIT_DRAIN_def CHAN_INPUT_CLOSED_def CHAN_OUTPUT_OPEN_def
  CHAN_OUTPUT_WAIT_DRAIN_def CHAN_OUTPUT_CLOSED_def

lemma ch_life_ex:
  "\<exists>sc. chan_dos lc0
     [Output_poll, Window_adjust (Some 5), Read_failed, Ibuf_empty, Input_oclose (Some ()),
      Write_failed, Is_dead True] (cs0, ch0) = Some sc \<and>
     s_out (fst sc) = [Msg_data 7 [1, 2, 3], Msg_eof 7, Msg_eow 7, Msg_close 7] \<and>
     c_remote_window (snd sc) = 12 \<and> c_type (snd sc) = SSH_CHANNEL_OPEN \<and>
     CHAN_LOCAL \<notin> c_flags (snd sc) \<and> chan_is_dead True sc = Some (True, sc)"
  by (simp add: chan_eval)

lemma ch_life:
  obtains s c where "chan_run 15 (s, c)"
    "s_out s = [Msg_data 7 [1, 2, 3], Msg_eof 7, Msg_eow 7, Msg_close 7]" "c_remote_window c = 12"
    "c_type c = SSH_CHANNEL_OPEN" "CHAN_LOCAL \<notin> c_flags c"
    "chan_is_dead True (s, c) = Some (True, (s, c))"
proof -
  have start: "chan_run (unat (c_remote_window ch0)) (cs0, ch0)"
    by (rule run_start) (simp_all add: cs0_def ch0_def)
  from ch_life_ex obtain sc where "chan_dos lc0
     [Output_poll, Window_adjust (Some 5), Read_failed, Ibuf_empty, Input_oclose (Some ()),
      Write_failed, Is_dead True] (cs0, ch0) = Some sc"
    and sc: "s_out (fst sc) = [Msg_data 7 [1, 2, 3], Msg_eof 7, Msg_eow 7, Msg_close 7]"
     "c_remote_window (snd sc) = 12" "c_type (snd sc) = SSH_CHANNEL_OPEN"
     "CHAN_LOCAL \<notin> c_flags (snd sc)" "chan_is_dead True sc = Some (True, sc)"
    by blast
  with chan_dos_run[OF start] have "chan_run 15 sc" by (fastforce simp: ch0_def)
  with sc that[of "fst sc" "snd sc"] show ?thesis by simp
qed

text \<open>
  C17. In every run of a channel the messages are in the order the protocol demands: nothing is
  sent after CHANNEL_CLOSE, which is sent at most once and only when both halves are closed,
  and after CHANNEL_EOF no more data and no second EOF is sent. The two states that
  \<^verbatim>\<open>channels.h\<close> defines but \<^verbatim>\<open>nchan.c\<close> does not use are never reached.
\<close>

theorem channel_message_order:
  assumes "chan_run g (s, c)"
  shows "trace_ok (s_out s) \<and>
    (list_ex is_close (s_out s) \<longrightarrow> c_istate c = CHAN_INPUT_CLOSED \<and> c_ostate c = CHAN_OUTPUT_CLOSED) \<and>
    (list_ex is_eof (s_out s) \<longrightarrow> c_istate c = CHAN_INPUT_CLOSED) \<and>
    c_istate c \<in> {CHAN_INPUT_OPEN, CHAN_INPUT_WAIT_DRAIN, CHAN_INPUT_CLOSED} \<and>
    c_ostate c \<in> {CHAN_OUTPUT_OPEN, CHAN_OUTPUT_WAIT_DRAIN, CHAN_OUTPUT_CLOSED}"
  using chan_run_inv[OF assms] by (auto simp: core_def)

theorem channel_message_order_witness:
  "\<exists>s c. chan_run 15 (s, c) \<and> s_out s = [Msg_data 7 [1, 2, 3], Msg_eof 7, Msg_eow 7, Msg_close 7] \<and> trace_ok (s_out s) \<and>
     c_istate c = CHAN_INPUT_CLOSED \<and> c_ostate c = CHAN_OUTPUT_CLOSED"
proof (rule ch_life)
  fix s c
  assume "chan_run 15 (s, c)" and "s_out s = [Msg_data 7 [1, 2, 3], Msg_eof 7, Msg_eow 7, Msg_close 7]"
  with channel_message_order[of 15 s c] show ?thesis by (intro exI[of _ s] exI[of _ c]) simp
qed

text \<open>
  C18. A channel never sends more data than the peer has granted: the bytes in the data and
  extended data messages together with what is left of the window are exactly the initial
  window and the adjustments received, and the 32-bit window never wraps.
\<close>

theorem channel_window_respected:
  assumes "chan_run g (s, c)"
  shows "sum_list (map msg_bytes (s_out s)) + unat (c_remote_window c) = g"
  using chan_run_inv[OF assms] by (simp add: core_def)

theorem channel_window_respected_witness:
  "\<exists>s c. chan_run 15 (s, c) \<and> s_out s = [Msg_data 7 [1, 2, 3], Msg_eof 7, Msg_eow 7, Msg_close 7] \<and>
     sum_list (map msg_bytes (s_out s)) + unat (c_remote_window c) = 15"
  by (rule ch_life) (use channel_window_respected[of 15] in blast)

text \<open>
  Both halves of the channel are closed, no extended data from a peer with the EXTEOF bug still waits to
  be written, and the peer's CHANNEL_CLOSE has been received.
\<close>

definition finished :: "chan_ssh \<Rightarrow> channel \<Rightarrow> bool" where
  "finished s c \<longleftrightarrow> c_istate c = CHAN_INPUT_CLOSED \<and> c_ostate c = CHAN_OUTPUT_CLOSED \<and>
     \<not> (s_bug_exteof s \<and> c_extended_usage c = CHAN_EXTENDED_WRITE \<and> c_efd c \<noteq> -1 \<and> sshbuf_len (c_extended c) > 0) \<and>
     CHAN_CLOSE_RCVD \<in> c_flags c"

lemma is_dead_cases:
  assumes "c_type c \<noteq> SSH_CHANNEL_ZOMBIE" and "CHAN_LOCAL \<notin> c_flags c"
  shows "chan_is_dead False (s, c) = Some (finished s c, (s, c))"
    and "chan_is_dead True (s, c) = Some (dead, (s', c')) \<Longrightarrow>
      dead = finished s c \<and> (dead \<longrightarrow> CHAN_CLOSE_SENT \<in> c_flags c')"
    and "finished s c \<Longrightarrow> c_have_remote_id c \<Longrightarrow> s_send_ok s \<Longrightarrow> chan_is_dead True (s, c) \<noteq> None"
  using assms
  by (auto simp: chan_is_dead_def chan_send_close2_def finished_def send_msg_def Option.bind_eq_Some_conv split: if_splits)

text \<open>
  C19. When a channel of the network that is no zombie is found dead, and then freed, it has said and
  will say its last word. At every moment of every run the check without sending answers, and changes
  nothing, whether the channel is finished: both halves are closed, no extended data from a peer with
  the EXTEOF bug still waits to be written, and the peer's CHANNEL_CLOSE has been received. The check with sending gives the
  same answer, unless it ends the process because the packet could not be built; if the answer is yes,
  the messages of the channel end with its one CHANNEL_CLOSE, and whatever happens to the channel
  afterwards, no message is sent for it any more.
\<close>

theorem channel_dead_final:
  assumes "chan_run g (s, c)" and "c_type c \<noteq> SSH_CHANNEL_ZOMBIE" and "CHAN_LOCAL \<notin> c_flags c"
  shows "chan_is_dead False (s, c) = Some (finished s c, (s, c)) \<and>
    (finished s c \<and> c_have_remote_id c \<and> s_send_ok s \<longrightarrow> chan_is_dead True (s, c) \<noteq> None) \<and>
    (\<forall>dead s' c'. chan_is_dead True (s, c) = Some (dead, (s', c')) \<longrightarrow>
       dead = finished s c \<and>
       (dead \<longrightarrow> (\<exists>ms i. s_out s' = ms @ [Msg_close i] \<and> \<not> list_ex is_close ms) \<and>
          (\<forall>sc''. chan_later (s', c') sc'' \<longrightarrow> s_out (fst sc'') = s_out s')))"
proof (intro conjI allI impI)
  show "chan_is_dead False (s, c) = Some (finished s c, (s, c))" by (rule is_dead_cases(1)[OF assms(2,3)])
  show "chan_is_dead True (s, c) \<noteq> None" if "finished s c \<and> c_have_remote_id c \<and> s_send_ok s"
    using is_dead_cases(3)[OF assms(2,3)] that by simp
  fix dead s' c'
  assume check: "chan_is_dead True (s, c) = Some (dead, (s', c'))"
  note answer = is_dead_cases(2)[OF assms(2,3) check]
  then show "dead = finished s c" by simp
  assume dead
  then have sent: "CHAN_CLOSE_SENT \<in> c_flags c'" using answer by simp
  have "core_step\<^sup>*\<^sup>* (g, core (s, c)) (g, core (s', c'))"
    using sim_is_dead[OF check] by (simp add: simulated_def)
  from core_steps_inv[OF this chan_run_inv[OF assms(1)]]
  have inv: "core_inv (g, core (s', c'))" .
  then show "\<exists>ms i. s_out s' = ms @ [Msg_close i] \<and> \<not> list_ex is_close ms"
    using sent trace_ok_close[of "s_out s'"] by (simp add: core_def)
  show "s_out (fst sc'') = s_out s'" if "chan_later (s', c') sc''" for sc''
    using chan_later_silent[OF that inv] sent by (auto simp del: core_inv.simps)
qed

theorem channel_dead_final_witness:
  "\<exists>s c. chan_run 15 (s, c) \<and> chan_is_dead True (s, c) = Some (True, (s, c)) \<and> finished s c \<and>
     chan_is_dead False (s, c) = Some (True, (s, c)) \<and>
     s_out s = [Msg_data 7 [1, 2, 3], Msg_eof 7, Msg_eow 7, Msg_close 7]"
proof (rule ch_life)
  fix s c
  assume run: "chan_run 15 (s, c)" and out: "s_out s = [Msg_data 7 [1, 2, 3], Msg_eof 7, Msg_eow 7, Msg_close 7]"
    and c: "c_type c = SSH_CHANNEL_OPEN" "CHAN_LOCAL \<notin> c_flags c"
    and dead: "chan_is_dead True (s, c) = Some (True, (s, c))"
  from channel_dead_final[OF run] c dead run out show ?thesis
    by (intro exI[of _ s] exI[of _ c]) auto
qed

end
