(* ===== verification/Compat.thy ===== *)
theory Compat
  imports Prelude "HOL-Library.Signed_Division"
begin

text \<open>
  Number parsing of the portability layer, \<^verbatim>\<open>openbsd-compat/strtoll.c\<close> and \<^verbatim>\<open>strtonum.c\<close>, and the
  constant-time comparison of \<^verbatim>\<open>timingsafe_bcmp.c\<close>. A C string is a list of characters without
  its terminator; a pointer into it is the rest of the string.
\<close>

section \<open>Character classes of the C locale\<close>

definition isspace :: "char \<Rightarrow> bool" where
  "isspace c \<longleftrightarrow> of_char c \<in> {9, 10, 11, 12, 13, 32 :: nat}"

definition isdigit :: "char \<Rightarrow> bool" where
  "isdigit c \<longleftrightarrow> (48 :: nat) \<le> of_char c \<and> of_char c \<le> (57 :: nat)"

definition is_upper :: "char \<Rightarrow> bool" where
  "is_upper c \<longleftrightarrow> (65 :: nat) \<le> of_char c \<and> of_char c \<le> (90 :: nat)"

definition is_lower :: "char \<Rightarrow> bool" where
  "is_lower c \<longleftrightarrow> (97 :: nat) \<le> of_char c \<and> of_char c \<le> (122 :: nat)"

definition isalpha :: "char \<Rightarrow> bool" where
  "isalpha c \<longleftrightarrow> is_upper c \<or> is_lower c"

section \<open>strtoll\<close>

definition LLONG_MAX :: int where "LLONG_MAX = 2 ^ 63 - 1"
definition LLONG_MIN :: int where "LLONG_MIN = - (2 ^ 63)"

text \<open>The value of a character as a digit; \<^const>\<open>None\<close> where the loop breaks before comparing it with the base.\<close>

definition digit_value :: "char \<Rightarrow> int option" where
  "digit_value c =
     (if isdigit c then Some (int (of_char c) - 48)
      else if isalpha c then Some (int (of_char c) - (if is_upper c then 65 - 10 else 97 - 10))
      else None)"

text \<open>
  The accumulating loop. \<open>any\<close> is 0 before the first digit, 1 after it and -1 after an overflow,
  which also sets \<^verbatim>\<open>errno\<close> to \<^verbatim>\<open>ERANGE\<close>. The result is the value, \<open>any\<close>, the string from the
  character that ended the loop, and whether \<^verbatim>\<open>errno\<close> was set.
\<close>

fun strtoll_loop ::
  "int \<Rightarrow> bool \<Rightarrow> int \<Rightarrow> int \<Rightarrow> string \<Rightarrow> int \<Rightarrow> int \<Rightarrow> bool \<Rightarrow> int \<times> int \<times> string \<times> bool" where
  "strtoll_loop base neg cutoff cutlim [] acc any erange = (acc, any, [], erange)"
| "strtoll_loop base neg cutoff cutlim (ch # s) acc any erange =
     (case digit_value ch of
        None \<Rightarrow> (acc, any, ch # s, erange)
      | Some c \<Rightarrow>
          if c \<ge> base then (acc, any, ch # s, erange)
          else if any < 0 then strtoll_loop base neg cutoff cutlim s acc any erange
          else if neg then
            if acc < cutoff \<or> (acc = cutoff \<and> c > cutlim)
            then strtoll_loop base neg cutoff cutlim s LLONG_MIN (-1) True
            else strtoll_loop base neg cutoff cutlim s (acc * base - c) 1 erange
          else
            if acc > cutoff \<or> (acc = cutoff \<and> c > cutlim)
            then strtoll_loop base neg cutoff cutlim s LLONG_MAX (-1) True
            else strtoll_loop base neg cutoff cutlim s (acc * base + c) 1 erange)"

text \<open>The optional sign, and the prefix that selects or confirms base 16.\<close>

definition strtoll_sign :: "string \<Rightarrow> bool \<times> string" where
  "strtoll_sign s =
     (case s of
        [] \<Rightarrow> (False, [])
      | c # t \<Rightarrow> if c = CHR ''-'' then (True, t) else if c = CHR ''+'' then (False, t) else (False, s))"

definition strtoll_base :: "int \<Rightarrow> string \<Rightarrow> int \<times> string" where
  "strtoll_base base s =
     (if (base = 0 \<or> base = 16) \<and> (take 2 s = ''0x'' \<or> take 2 s = ''0X'')
      then (16, drop 2 s)
      else (if base = 0 then (if s \<noteq> [] \<and> hd s = CHR ''0'' then 8 else 10) else base, s))"

text \<open>\<^verbatim>\<open>strtoll(nptr, &ep, base)\<close>: the value, \<^verbatim>\<open>*ep\<close>, and whether \<^verbatim>\<open>errno\<close> was set to \<^verbatim>\<open>ERANGE\<close>.\<close>

definition strtoll :: "string \<Rightarrow> int \<Rightarrow> int \<times> string \<times> bool" where
  "strtoll nptr base0 =
     (let (neg, s1) = strtoll_sign (dropWhile isspace nptr);
          (base, s2) = strtoll_base base0 s1;
          cutoff0 = (if neg then LLONG_MIN else LLONG_MAX);
          cutlim0 = cutoff0 smod base;
          cutoff1 = cutoff0 sdiv base;
          (cutoff, cutlim) =
            (if neg then
               (if cutlim0 > 0 then (cutoff1 + 1, - (cutlim0 - base)) else (cutoff1, - cutlim0))
             else (cutoff1, cutlim0));
          (acc, any, ep, erange) = strtoll_loop base neg cutoff cutlim s2 0 0 False
      in (acc, if any \<noteq> 0 then ep else nptr, erange))"

section \<open>strtonum\<close>

datatype numerr = INVALID | TOOSMALL | TOOLARGE

text \<open>\<^verbatim>\<open>strtonum(numstr, minval, maxval, &errstr)\<close>: the number, or the error \<^verbatim>\<open>errstr\<close> names.\<close>

definition strtonum :: "string \<Rightarrow> int \<Rightarrow> int \<Rightarrow> numerr + int" where
  "strtonum numstr minval maxval =
     (if minval > maxval then Inl INVALID
      else
        (let (ll, ep, erange) = strtoll numstr 10
         in if numstr = ep \<or> ep \<noteq> [] then Inl INVALID
            else if (ll = LLONG_MIN \<and> erange) \<or> ll < minval then Inl TOOSMALL
            else if (ll = LLONG_MAX \<and> erange) \<or> ll > maxval then Inl TOOLARGE
            else Inr ll))"

section \<open>timingsafe_bcmp\<close>

text \<open>The loop reads \<open>n\<close> bytes of both blocks whatever they hold.\<close>

fun bcmp_loop :: "byte list \<Rightarrow> byte list \<Rightarrow> nat \<Rightarrow> byte \<Rightarrow> byte" where
  "bcmp_loop p1 p2 0 r = r"
| "bcmp_loop p1 p2 (Suc n) r = bcmp_loop (tl p1) (tl p2) n (or r (xor (hd p1) (hd p2)))"

definition timingsafe_bcmp :: "byte list \<Rightarrow> byte list \<Rightarrow> nat \<Rightarrow> int" where
  "timingsafe_bcmp b1 b2 n = (if bcmp_loop b1 b2 n 0 \<noteq> 0 then 1 else 0)"

section \<open>What the parsers compute\<close>

text \<open>The digits of a base at the start of a string, and their value.\<close>

definition is_digit :: "int \<Rightarrow> char \<Rightarrow> bool" where
  "is_digit base c \<longleftrightarrow> (case digit_value c of None \<Rightarrow> False | Some d \<Rightarrow> d < base)"

definition digits_value :: "int \<Rightarrow> string \<Rightarrow> int" where
  "digits_value base ds = foldl (\<lambda>v c. v * base + the (digit_value c)) 0 ds"

lemma digit_value_nonneg: "digit_value c = Some d \<Longrightarrow> 0 \<le> d"
  by (auto simp: digit_value_def isdigit_def isalpha_def is_upper_def is_lower_def split: if_splits)

text \<open>The magnitude grows with every digit, so an overflow is never undone.\<close>

lemma foldl_digits_mono:
  assumes "1 \<le> base" and "\<forall>c \<in> set ds. digit_value c \<noteq> None" and "0 \<le> v"
  shows "v \<le> foldl (\<lambda>v c. v * base + the (digit_value c)) v ds"
  using assms(2,3)
proof (induction ds arbitrary: v)
  case (Cons c ds)
  then obtain d where d: "digit_value c = Some d" "0 \<le> d" using digit_value_nonneg by fastforce
  have "v * 1 \<le> v * base" using assms(1) Cons.prems(2) by (intro mult_left_mono) auto
  then have le: "v \<le> v * base + d" using d by simp
  then have "v * base + d \<le> foldl (\<lambda>v c. v * base + the (digit_value c)) (v * base + d) ds"
    using Cons.IH[of "v * base + d"] Cons.prems by simp
  then show ?case using le d by simp
qed simp

text \<open>\<open>M\<close> is the largest magnitude, so the cut-off test is exactly the overflow test.\<close>

lemma cutoff_exact:
  fixes M base a d :: int
  assumes "2 \<le> base" and "0 \<le> d" and "d < base"
  shows "(a > M div base \<or> (a = M div base \<and> d > M mod base)) \<longleftrightarrow> a * base + d > M"
proof -
  have M: "M = M div base * base + M mod base" by simp
  have r: "0 \<le> M mod base" "M mod base < base" using assms(1) by auto
  consider "a < M div base" | "a = M div base" | "a > M div base" by linarith
  then show ?thesis
  proof cases
    case 1
    then have "(a + 1) * base \<le> M div base * base" using assms(1) by (intro mult_right_mono) auto
    then have "a * base + base \<le> M div base * base" by (simp add: distrib_right)
    then have "a * base + base \<le> M" using M r by linarith
    then show ?thesis using 1 assms by linarith
  next
    case 2
    then have "a * base + M mod base = M" using M by simp
    then show ?thesis using 2 by linarith
  next
    case 3
    then have "(M div base + 1) * base \<le> a * base" using assms(1) by (intro mult_right_mono) auto
    then have "M div base * base + base \<le> a * base" by (simp add: distrib_right)
    then have "M < a * base" using M r by linarith
    then show ?thesis using 3 assms by linarith
  qed
qed

text \<open>
  The loop on the digits at the start of a string: the magnitude \<open>m\<close> read so far is within the
  limit \<open>M\<close>, and the result is the full value or the limit with the overflow flag.
\<close>

lemma strtoll_loop_over:
  "strtoll_loop base neg cutoff cutlim s acc (-1) e =
     (acc, -1, dropWhile (is_digit base) s, e)"
  by (induction s) (auto simp: is_digit_def split: option.splits)

lemma strtoll_loop_spec:
  fixes base :: int
  assumes base: "2 \<le> base"
  defines "value m s \<equiv> foldl (\<lambda>v c. v * base + the (digit_value c)) m (takeWhile (is_digit base) s)"
  assumes M: "M = (if neg then 2 ^ 63 else 2 ^ 63 - 1)"
  shows "0 \<le> m \<Longrightarrow> m \<le> M \<Longrightarrow> any \<in> {0, 1} \<Longrightarrow>
    strtoll_loop base neg (if neg then - (M div base) else M div base) (M mod base) s
      (if neg then - m else m) any False =
    (if value m s \<le> M
     then (if neg then - value m s else value m s,
           if takeWhile (is_digit base) s = [] then any else 1, dropWhile (is_digit base) s, False)
     else (if neg then LLONG_MIN else LLONG_MAX, -1, dropWhile (is_digit base) s, True))"
proof (induction s arbitrary: m any)
  case Nil
  then show ?case by (simp add: value_def)
next
  case (Cons ch s)
  show ?case
  proof (cases "is_digit base ch")
    case False
    then show ?thesis using Cons.prems by (auto simp: value_def is_digit_def split: option.splits)
  next
    case True
    then obtain d where d: "digit_value ch = Some d" "d < base" "0 \<le> d"
      using digit_value_nonneg by (auto simp: is_digit_def split: option.splits)
    have step: "value m (ch # s) = value (m * base + d) s" using True d by (simp add: value_def)
    have digits: "\<forall>c \<in> set (takeWhile (is_digit base) s). digit_value c \<noteq> None"
      by (auto dest!: set_takeWhileD simp: is_digit_def split: option.splits)
    have nonneg: "0 \<le> m * base + d" using Cons.prems d base by simp
    note exact = cutoff_exact[OF base d(3,2), of M m]
    show ?thesis
    proof (cases "m * base + d \<le> M")
      case le: True
      have neg_acc: "- m * base - d = - (m * base + d)" by simp
      have "strtoll_loop base neg (if neg then - (M div base) else M div base) (M mod base) (ch # s)
          (if neg then - m else m) any False =
        strtoll_loop base neg (if neg then - (M div base) else M div base) (M mod base) s
          (if neg then - (m * base + d) else m * base + d) 1 False"
        using Cons.prems(3) d exact le neg_acc by (cases neg) auto
      then show ?thesis
        using Cons.IH[OF nonneg le, of 1] True step by simp
    next
      case False
      then have "value m (ch # s) > M"
        using foldl_digits_mono[of base, OF _ digits nonneg] base step unfolding value_def by simp
      then show ?thesis
        using Cons.prems True d exact False
        by (cases neg) (auto simp: strtoll_loop_over)
    qed
  qed
qed

text \<open>The number a decimal string denotes: white space, an optional sign, and digits only.\<close>

definition decimal_digits :: "string \<Rightarrow> int option" where
  "decimal_digits s =
     (if s \<noteq> [] \<and> list_all isdigit s then Some (foldl (\<lambda>v c. v * 10 + (int (of_char c) - 48)) 0 s)
      else None)"

definition decimal :: "string \<Rightarrow> int option" where
  "decimal s =
     (case dropWhile isspace s of
        [] \<Rightarrow> None
      | c # t \<Rightarrow> if c = CHR ''-'' then map_option uminus (decimal_digits t)
                 else if c = CHR ''+'' then decimal_digits t else decimal_digits (c # t))"

lemma is_digit_10: "is_digit 10 c \<longleftrightarrow> isdigit c"
  by (auto simp: is_digit_def digit_value_def isdigit_def isalpha_def is_upper_def is_lower_def)

lemma digit_value_isdigit: "isdigit c \<Longrightarrow> digit_value c = Some (int (of_char c) - 48)"
  by (simp add: digit_value_def)

text \<open>The signed divisions of the limits are the divisions of their magnitude.\<close>

lemma strtoll_limits:
  "LLONG_MIN sdiv 10 = - (2 ^ 63 div 10)" "LLONG_MIN smod 10 = - (2 ^ 63 mod 10)"
  "LLONG_MAX sdiv 10 = (2 ^ 63 - 1) div 10" "LLONG_MAX smod 10 = (2 ^ 63 - 1) mod 10"
  by (simp_all add: LLONG_MIN_def LLONG_MAX_def signed_divide_int_def signed_modulo_int_def)

lemma foldl_digits_10:
  "list_all isdigit s \<Longrightarrow>
   foldl (\<lambda>v c. v * 10 + the (digit_value c)) v s = foldl (\<lambda>v c. v * 10 + (int (of_char c) - 48)) v s"
  by (induction s arbitrary: v) (simp_all add: digit_value_isdigit)

text \<open>\<^verbatim>\<open>strtoll\<close> in base 10, on the string after white space and sign.\<close>

lemma strtoll_10:
  assumes "strtoll_sign (dropWhile isspace s) = (neg, t)"
  defines "ds \<equiv> takeWhile isdigit t"
  defines "v \<equiv> foldl (\<lambda>v c. v * 10 + (int (of_char c) - 48)) 0 ds"
  defines "fits \<equiv> v \<le> (if neg then 2 ^ 63 else 2 ^ 63 - 1)"
  shows "strtoll s 10 =
    (if fits then (if neg then - v else v) else if neg then LLONG_MIN else LLONG_MAX,
     if ds = [] then s else dropWhile isdigit t, \<not> fits)"
proof -
  have isd: "is_digit 10 = isdigit" by (rule ext) (rule is_digit_10)
  have val: "foldl (\<lambda>v c. v * 10 + the (digit_value c)) 0 ds = v"
    unfolding v_def by (rule foldl_digits_10) (auto simp: ds_def list_all_iff dest: set_takeWhileD)
  have "strtoll_loop 10 neg (if neg then - (2 ^ 63 div 10) else (2 ^ 63 - 1) div 10)
      (if neg then 2 ^ 63 mod 10 else (2 ^ 63 - 1) mod 10) t 0 0 False =
    (if fits then (if neg then - v else v, if ds = [] then 0 else 1, dropWhile isdigit t, False)
     else (if neg then LLONG_MIN else LLONG_MAX, -1, dropWhile isdigit t, True))"
    using strtoll_loop_spec[of 10 "if neg then 2 ^ 63 else 2 ^ 63 - 1" neg 0 0 t] val
    unfolding isd ds_def[symmetric] fits_def by (cases neg) simp_all
  moreover have "v = 0 \<and> fits" if "ds = []" using that by (simp add: v_def fits_def)
  ultimately show ?thesis
    using assms(1) by (cases neg) (auto simp: strtoll_def strtoll_base_def strtoll_limits)
qed

lemma decimal_sign:
  assumes "strtoll_sign (dropWhile isspace s) = (neg, t)"
  shows "decimal s = map_option (\<lambda>v. if neg then - v else v) (decimal_digits t)"
proof (cases "dropWhile isspace s")
  case Nil
  then show ?thesis using assms
    by (auto simp: decimal_def strtoll_sign_def decimal_digits_def simp del: dropWhile_eq_Nil_conv)
next
  case (Cons c u)
  then show ?thesis using assms
    by (auto simp: decimal_def strtoll_sign_def option.map_ident split: if_splits)
qed

lemma all_digits_takeWhile:
  "decimal_digits t = (if takeWhile isdigit t \<noteq> [] \<and> dropWhile isdigit t = []
     then Some (foldl (\<lambda>v c. v * 10 + (int (of_char c) - 48)) 0 (takeWhile isdigit t)) else None)"
proof (cases "list_all isdigit t")
  case True
  then have tw: "takeWhile isdigit t = t" by (simp add: list_all_iff)
  show ?thesis unfolding tw using True by (simp add: decimal_digits_def list_all_iff)
next
  case False
  then show ?thesis by (auto simp: decimal_digits_def list_all_iff)
qed

text \<open>
  C20. \<^verbatim>\<open>strtonum\<close> accepts exactly the decimal numbers between its bounds and returns their value,
  for every range of 64-bit integers; anything else is refused as invalid, too small or too
  large, however many digits it has.
\<close>

theorem strtonum_correct:
  assumes "LLONG_MIN \<le> minval" and "minval \<le> maxval" and "maxval \<le> LLONG_MAX"
  shows "strtonum s minval maxval =
    (case decimal s of
       None \<Rightarrow> Inl INVALID
     | Some v \<Rightarrow> if v < minval then Inl TOOSMALL else if v > maxval then Inl TOOLARGE else Inr v)"
proof -
  obtain neg t where sign: "strtoll_sign (dropWhile isspace s) = (neg, t)" by fastforce
  define v where "v = foldl (\<lambda>v c. v * 10 + (int (of_char c) - 48)) 0 (takeWhile isdigit t)"
  note ll = strtoll_10[OF sign, folded v_def]
  have ep: "s \<noteq> []" if "takeWhile isdigit t \<noteq> []"
    using sign that by (auto simp: strtoll_sign_def)
  show ?thesis
  proof (cases "takeWhile isdigit t \<noteq> [] \<and> dropWhile isdigit t = []")
    case True
    then have dec: "decimal s = Some (if neg then - v else v)"
      by (simp add: decimal_sign[OF sign] all_digits_takeWhile v_def)
    have digits: "list_all isdigit (takeWhile isdigit t)" by (auto simp: list_all_iff dest: set_takeWhileD)
    then have nonneg: "0 \<le> v"
      using foldl_digits_mono[of 10 "takeWhile isdigit t" 0] foldl_digits_10[OF digits, of 0]
      by (simp add: v_def list_all_iff digit_value_isdigit)
    show ?thesis
      using True ep assms dec nonneg
      by (auto simp: strtonum_def ll LLONG_MIN_def LLONG_MAX_def)
  next
    case False
    then have "decimal s = None" by (auto simp: decimal_sign[OF sign] all_digits_takeWhile)
    moreover have "strtonum s minval maxval = Inl INVALID"
      using False assms by (auto simp: strtonum_def ll)
    ultimately show ?thesis by simp
  qed
qed

theorem strtonum_correct_witness:
  "strtonum '' 128'' 0 2147483647 = Inr 128"
  using strtonum_correct[of 0 2147483647 "'' 128''"]
  by (simp add: LLONG_MIN_def LLONG_MAX_def decimal_def decimal_digits_def isspace_def isdigit_def)

lemma bcmp_loop_spec:
  "n \<le> length p1 \<Longrightarrow> n \<le> length p2 \<Longrightarrow> bcmp_loop p1 p2 n r = 0 \<longleftrightarrow> r = 0 \<and> take n p1 = take n p2"
proof (induction n arbitrary: p1 p2 r)
  case (Suc n)
  then obtain a xs b ys where "p1 = a # xs" "p2 = b # ys" by (metis Suc_le_length_iff)
  moreover have "xor a b = 0 \<longleftrightarrow> a = b" by (auto simp: bit_eq_iff bit_simps)
  ultimately show ?case using Suc by (auto simp: or_eq_0_iff)
qed simp

text \<open>\<^verbatim>\<open>timingsafe_bcmp\<close> is 0 exactly when the blocks are equal.\<close>

lemma timingsafe_bcmp_eq:
  "n \<le> length b1 \<Longrightarrow> n \<le> length b2 \<Longrightarrow> timingsafe_bcmp b1 b2 n = 0 \<longleftrightarrow> take n b1 = take n b2"
  by (simp add: timingsafe_bcmp_def bcmp_loop_spec)

end
