(* ===== verification/Addr.thy ===== *)
theory Addr
  imports Compat
begin

text \<open>
  Network addresses, \<^verbatim>\<open>addr.c\<close>: masks, bitwise operations, comparison, increment, parsing of
  addresses and CIDR networks, and the test whether a host is in a network. The resolver
  functions \<^verbatim>\<open>getaddrinfo\<close> and \<^verbatim>\<open>getnameinfo\<close> of the C library are parameters.
\<close>

section \<open>Data\<close>

datatype af = AF_INET | AF_INET6 | AF_OTHER nat

text \<open>
  \<^verbatim>\<open>struct xaddr\<close>: the union is kept as the four words \<^verbatim>\<open>ntohl(addr32[i])\<close>, so \<^verbatim>\<open>ntohl(v4.s_addr)\<close> is
  the first of them; complement, and, or do not depend on the byte order.
\<close>

record xaddr =
  xa_af :: af
  xa_32 :: "32 word list"
  xa_scope_id :: "32 word"

definition addr8 :: "xaddr \<Rightarrow> nat \<Rightarrow> byte" where
  "addr8 a i = ucast (drop_bit (24 - 8 * (i mod 4)) (xa_32 a ! (i div 4)))"

text \<open>A socket address with its port; \<^verbatim>\<open>sin6_addr\<close> is given by its four words.\<close>

datatype sockaddr =
    Sockaddr_in "16 word" "32 word"
  | Sockaddr_in6 "16 word" "32 word" "32 word" "32 word" "32 word" "32 word"
  | Sockaddr_other nat

definition sizeof_sockaddr_in :: nat where "sizeof_sockaddr_in = 16"
definition sizeof_sockaddr_in6 :: nat where "sizeof_sockaddr_in6 = 28"
definition sizeof_sockaddr_storage :: nat where "sizeof_sockaddr_storage = 128"

text \<open>What \<^verbatim>\<open>getaddrinfo\<close> stores: the first entry of the list it returns.\<close>

record addrinfo =
  ai_addr :: "sockaddr option"
  ai_addrlen :: nat

text \<open>
  \<open>getaddrinfo p\<close> is \<^const>\<open>None\<close> when the call fails for the numeric host \<open>p\<close>, and otherwise the list,
  which may be \<^verbatim>\<open>NULL\<close>. \<open>getnameinfo\<close> formats a socket address as a numeric host that fits the
  given size.
\<close>

type_synonym getaddrinfo = "string \<Rightarrow> addrinfo option option"
type_synonym getnameinfo = "sockaddr \<Rightarrow> nat \<Rightarrow> nat \<Rightarrow> string option"

section \<open>Conversions\<close>

fun addr_unicast_masklen :: "af \<Rightarrow> int" where
  "addr_unicast_masklen AF_INET = 32"
| "addr_unicast_masklen AF_INET6 = 128"
| "addr_unicast_masklen (AF_OTHER n) = -1"

fun masklen_valid :: "af \<Rightarrow> nat \<Rightarrow> int" where
  "masklen_valid AF_INET masklen = (if masklen \<le> 32 then 0 else -1)"
| "masklen_valid AF_INET6 masklen = (if masklen \<le> 128 then 0 else -1)"
| "masklen_valid (AF_OTHER n) masklen = -1"

text \<open>\<^const>\<open>None\<close> is the return value -1; otherwise the socket address and its length.\<close>

definition addr_xaddr_to_sa :: "xaddr \<Rightarrow> nat \<Rightarrow> 16 word \<Rightarrow> (sockaddr \<times> nat) option" where
  "addr_xaddr_to_sa xa len port =
     (case xa_af xa of
        AF_INET \<Rightarrow>
          if len < sizeof_sockaddr_in then None
          else Some (Sockaddr_in port (xa_32 xa ! 0), sizeof_sockaddr_in)
      | AF_INET6 \<Rightarrow>
          if len < sizeof_sockaddr_in6 then None
          else Some (Sockaddr_in6 port (xa_32 xa ! 0) (xa_32 xa ! 1) (xa_32 xa ! 2) (xa_32 xa ! 3)
                       (xa_scope_id xa), sizeof_sockaddr_in6)
      | AF_OTHER n \<Rightarrow> None)"

definition addr_sa_to_xaddr :: "sockaddr \<Rightarrow> nat \<Rightarrow> xaddr option" where
  "addr_sa_to_xaddr sa slen =
     (case sa of
        Sockaddr_in port w \<Rightarrow>
          if slen < sizeof_sockaddr_in then None
          else Some \<lparr>xa_af = AF_INET, xa_32 = [w, 0, 0, 0], xa_scope_id = 0\<rparr>
      | Sockaddr_in6 port w0 w1 w2 w3 scope \<Rightarrow>
          if slen < sizeof_sockaddr_in6 then None
          else Some \<lparr>xa_af = AF_INET6, xa_32 = [w0, w1, w2, w3], xa_scope_id = scope\<rparr>
      | Sockaddr_other n \<Rightarrow> None)"

section \<open>Masks and bitwise operations\<close>

definition addr_invert :: "xaddr \<Rightarrow> xaddr option" where
  "addr_invert n =
     (case xa_af n of
        AF_INET \<Rightarrow> Some (n\<lparr>xa_32 := (xa_32 n)[0 := not (xa_32 n ! 0)]\<rparr>)
      | AF_INET6 \<Rightarrow> Some (n\<lparr>xa_32 := fold (\<lambda>i ws. ws[i := not (ws ! i)]) [0..<4] (xa_32 n)\<rparr>)
      | AF_OTHER k \<Rightarrow> None)"

text \<open>The loop of \<^verbatim>\<open>addr_netmask\<close> for IPv6 and the partial word after it.\<close>

fun netmask_loop :: "nat \<Rightarrow> nat \<Rightarrow> 32 word list \<Rightarrow> 32 word list" where
  "netmask_loop i l ws =
     (if i < 4 \<and> l \<ge> 32 then netmask_loop (i + 1) (l - 32) (ws[i := 0xffffffff])
      else if i < 4 \<and> l \<noteq> 0 then ws[i := push_bit (32 - l) 0xffffffff] else ws)"

definition addr_netmask :: "af \<Rightarrow> nat \<Rightarrow> xaddr option" where
  "addr_netmask af l =
     (if masklen_valid af l \<noteq> 0 then None
      else
        (case af of
           AF_INET \<Rightarrow>
             Some \<lparr>xa_af = AF_INET,
                   xa_32 = [if l = 0 then 0 else push_bit (32 - l) 0xffffffff, 0, 0, 0],
                   xa_scope_id = 0\<rparr>
         | AF_INET6 \<Rightarrow>
             Some \<lparr>xa_af = AF_INET6, xa_32 = netmask_loop 0 l [0, 0, 0, 0], xa_scope_id = 0\<rparr>
         | AF_OTHER k \<Rightarrow> None))"

definition addr_hostmask :: "af \<Rightarrow> nat \<Rightarrow> xaddr option" where
  "addr_hostmask af l = (case addr_netmask af l of None \<Rightarrow> None | Some n \<Rightarrow> addr_invert n)"

definition addr_and :: "xaddr \<Rightarrow> xaddr \<Rightarrow> xaddr option" where
  "addr_and a b =
     (if xa_af a \<noteq> xa_af b then None
      else
        (case xa_af a of
           AF_INET \<Rightarrow> Some (a\<lparr>xa_32 := (xa_32 a)[0 := and (xa_32 a ! 0) (xa_32 b ! 0)]\<rparr>)
         | AF_INET6 \<Rightarrow>
             Some (a\<lparr>xa_scope_id := xa_scope_id a,
                     xa_32 := fold (\<lambda>i ws. ws[i := and (ws ! i) (xa_32 b ! i)]) [0..<4] (xa_32 a)\<rparr>)
         | AF_OTHER k \<Rightarrow> None))"

definition addr_or :: "xaddr \<Rightarrow> xaddr \<Rightarrow> xaddr option" where
  "addr_or a b =
     (if xa_af a \<noteq> xa_af b then None
      else
        (case xa_af a of
           AF_INET \<Rightarrow> Some (a\<lparr>xa_32 := (xa_32 a)[0 := or (xa_32 a ! 0) (xa_32 b ! 0)]\<rparr>)
         | AF_INET6 \<Rightarrow>
             Some (a\<lparr>xa_32 := fold (\<lambda>i ws. ws[i := or (ws ! i) (xa_32 b ! i)]) [0..<4] (xa_32 a)\<rparr>)
         | AF_OTHER k \<Rightarrow> None))"

section \<open>Comparison and increment\<close>

definition byte_diff :: "xaddr \<Rightarrow> xaddr \<Rightarrow> nat \<Rightarrow> int" where
  "byte_diff a b i = int (unat (addr8 a i)) - int (unat (addr8 b i))"

definition addr_cmp :: "xaddr \<Rightarrow> xaddr \<Rightarrow> int" where
  "addr_cmp a b =
     (if xa_af a \<noteq> xa_af b then (if xa_af a = AF_INET6 then 1 else -1)
      else
        (case xa_af a of
           AF_INET \<Rightarrow>
             if xa_32 a ! 0 = xa_32 b ! 0 then 0 else if xa_32 a ! 0 > xa_32 b ! 0 then 1 else -1
         | AF_INET6 \<Rightarrow>
             (case find (\<lambda>i. byte_diff a b i \<noteq> 0) [0..<16] of
                Some i \<Rightarrow> byte_diff a b i
              | None \<Rightarrow>
                  if xa_scope_id a = xa_scope_id b then 0
                  else if xa_scope_id a > xa_scope_id b then 1 else -1)
         | AF_OTHER k \<Rightarrow> -1))"

definition addr_is_all0s :: "xaddr \<Rightarrow> int" where
  "addr_is_all0s a =
     (case xa_af a of
        AF_INET \<Rightarrow> if xa_32 a ! 0 = 0 then 0 else -1
      | AF_INET6 \<Rightarrow> if list_ex (\<lambda>i. xa_32 a ! i \<noteq> 0) [0..<4] then -1 else 0
      | AF_OTHER k \<Rightarrow> -1)"

function increment_loop :: "nat \<Rightarrow> 32 word list \<Rightarrow> 32 word list" where
  "increment_loop i ws =
     (if i < 4 then
        (let n = ws ! (3 - i) + 1; ws' = ws[3 - i := n]
         in if n \<noteq> 0 then ws' else increment_loop (i + 1) ws')
      else ws)"
  by auto
termination by (relation "measure (\<lambda>(i, ws). 4 - i)") auto

definition addr_increment :: "xaddr \<Rightarrow> xaddr" where
  "addr_increment a =
     (case xa_af a of
        AF_INET \<Rightarrow> a\<lparr>xa_32 := (xa_32 a)[0 := xa_32 a ! 0 + 1]\<rparr>
      | AF_INET6 \<Rightarrow> a\<lparr>xa_32 := increment_loop 0 (xa_32 a)\<rparr>
      | AF_OTHER k \<Rightarrow> a)"

definition addr_host_is_all0s :: "xaddr \<Rightarrow> nat \<Rightarrow> int" where
  "addr_host_is_all0s a masklen =
     (case addr_hostmask (xa_af a) masklen of
        None \<Rightarrow> -1
      | Some m \<Rightarrow> (case addr_and a m of None \<Rightarrow> -1 | Some r \<Rightarrow> addr_is_all0s r))"

definition addr_host_to_all1s :: "xaddr \<Rightarrow> nat \<Rightarrow> xaddr option" where
  "addr_host_to_all1s a masklen =
     (case addr_hostmask (xa_af a) masklen of None \<Rightarrow> None | Some m \<Rightarrow> addr_or a m)"

section \<open>Parsing, printing, matching\<close>

definition addr_pton :: "getaddrinfo \<Rightarrow> string \<Rightarrow> xaddr option" where
  "addr_pton getaddrinfo p =
     (case getaddrinfo p of
        None \<Rightarrow> None
      | Some None \<Rightarrow> None
      | Some (Some ai) \<Rightarrow>
          (case ai_addr ai of None \<Rightarrow> None | Some sa \<Rightarrow> addr_sa_to_xaddr sa (ai_addrlen ai)))"

definition addr_ntop :: "getnameinfo \<Rightarrow> xaddr \<Rightarrow> nat \<Rightarrow> string option" where
  "addr_ntop getnameinfo n len =
     (case addr_xaddr_to_sa n sizeof_sockaddr_storage 0 of
        None \<Rightarrow> None
      | Some (sa, slen) \<Rightarrow> if len = 0 then None else getnameinfo sa slen len)"

text \<open>
  \<^verbatim>\<open>addr_pton_cidr(p, n, l)\<close>: the address and the mask length, or -1 for a parse error and -2 for an
  inconsistent one. The mask length is parsed into a \<^verbatim>\<open>u_int\<close>.
\<close>

definition addr_pton_cidr :: "getaddrinfo \<Rightarrow> string \<Rightarrow> int + xaddr \<times> nat" where
  "addr_pton_cidr getaddrinfo p =
     (if length p \<ge> 64 then Inl (-1)
      else
        (let addrbuf = takeWhile (\<lambda>c. c \<noteq> CHR ''/'') p;
             mp = dropWhile (\<lambda>c. c \<noteq> CHR ''/'') p
         in case (if mp = [] then Inr 999 else strtonum (tl mp) 0 (2 ^ 31 - 1)) of
              Inl e \<Rightarrow> Inl (-1)
            | Inr num \<Rightarrow>
                (case addr_pton getaddrinfo addrbuf of
                   None \<Rightarrow> Inl (-1)
                 | Some tmp \<Rightarrow>
                     (let masklen = (if mp = [] then nat (addr_unicast_masklen (xa_af tmp) mod 2 ^ 32)
                                     else nat num)
                      in if masklen_valid (xa_af tmp) masklen = -1 then Inl (-2)
                         else if addr_host_is_all0s tmp masklen \<noteq> 0 then Inl (-2)
                         else Inr (tmp, masklen)))))"

definition addr_netmatch :: "xaddr \<Rightarrow> xaddr \<Rightarrow> nat \<Rightarrow> int" where
  "addr_netmatch host net masklen =
     (if xa_af host \<noteq> xa_af net then -1
      else
        (case addr_netmask (xa_af host) masklen of
           None \<Rightarrow> -1
         | Some tmp_mask \<Rightarrow>
             (case addr_and host tmp_mask of None \<Rightarrow> -1 | Some tmp_result \<Rightarrow> addr_cmp tmp_result net)))"

section \<open>Addresses as bits and as numbers\<close>

declare netmask_loop.simps [simp del] increment_loop.simps [simp del]

text \<open>The addresses that occur: one of the two families, and a union of 128 bits.\<close>

definition wf_xaddr :: "xaddr \<Rightarrow> bool" where
  "wf_xaddr a \<longleftrightarrow> xa_af a \<in> {AF_INET, AF_INET6} \<and> length (xa_32 a) = 4"

fun af_width :: "af \<Rightarrow> nat" where
  "af_width AF_INET = 32"
| "af_width AF_INET6 = 128"
| "af_width (AF_OTHER n) = 0"

text \<open>Bit \<open>k\<close> of an address, counted from the most significant one.\<close>

definition addr_bit :: "xaddr \<Rightarrow> nat \<Rightarrow> bool" where
  "addr_bit a k \<longleftrightarrow> bit (xa_32 a ! (k div 32)) (31 - k mod 32)"

lemma four: "length xs = 4 \<Longrightarrow> \<exists>a b c d. xs = [a, b, c, d]"
  by (auto simp: numeral_eq_Suc length_Suc_conv)

lemma wf_xaddrE:
  assumes "wf_xaddr a"
  obtains af w0 w1 w2 w3 sc where "a = \<lparr>xa_af = af, xa_32 = [w0, w1, w2, w3], xa_scope_id = sc\<rparr>"
    "af = AF_INET \<or> af = AF_INET6"
proof -
  from assms obtain w0 w1 w2 w3 where "xa_32 a = [w0, w1, w2, w3]"
    unfolding wf_xaddr_def using four by blast
  with assms that[of "xa_af a" w0 w1 w2 w3 "xa_scope_id a"] show ?thesis
    by (auto simp: wf_xaddr_def)
qed

text \<open>Loops over the four words, unrolled.\<close>

lemma upt_4: "[0..<4] = [0, 1, 2, 3 :: nat]"
  by (simp add: upt_rec)

text \<open>The part of a mask of length \<open>l\<close> that falls in one word.\<close>

definition word_mask :: "nat \<Rightarrow> 32 word" where
  "word_mask l = (if l \<ge> 32 then 0xffffffff else if l = 0 then 0 else push_bit (32 - l) 0xffffffff)"

lemma bit_word_mask: "bit (word_mask l) b \<longleftrightarrow> b < 32 \<and> 32 \<le> b + l"
proof -
  have ones: "(0xffffffff :: 32 word) = - 1" by simp
  show ?thesis unfolding word_mask_def ones by (auto simp: bit_simps)
qed

lemma netmask_loop_mask:
  assumes "l \<le> 128"
  shows "netmask_loop 0 l [0, 0, 0, 0] =
    [word_mask l, word_mask (l - 32), word_mask (l - 64), word_mask (l - 96)]"
proof -
  consider "l < 32" | "32 \<le> l" "l < 64" | "64 \<le> l" "l < 96" | "96 \<le> l" "l < 128" | "l = 128"
    using assms by linarith
  then show ?thesis
    by cases (auto simp: netmask_loop.simps word_mask_def numeral_2_eq_2 numeral_3_eq_3)
qed

lemma netmask_eq:
  "addr_netmask AF_INET l =
     (if l \<le> 32 then Some \<lparr>xa_af = AF_INET, xa_32 = [word_mask l, 0, 0, 0], xa_scope_id = 0\<rparr> else None)"
  "addr_netmask AF_INET6 l =
     (if l \<le> 128 then Some \<lparr>xa_af = AF_INET6,
        xa_32 = [word_mask l, word_mask (l - 32), word_mask (l - 64), word_mask (l - 96)],
        xa_scope_id = 0\<rparr> else None)"
  by (auto simp: addr_netmask_def netmask_loop_mask word_mask_def)

section \<open>Comparison\<close>

text \<open>The number that digits in base \<open>r\<close> denote, the most significant one first.\<close>

fun digits_num :: "nat \<Rightarrow> nat list \<Rightarrow> nat" where
  "digits_num r [] = 0"
| "digits_num r (d # ds) = d * r ^ length ds + digits_num r ds"

lemma digits_num_less: "\<forall>d \<in> set ds. d < r \<Longrightarrow> digits_num r ds < r ^ length ds"
proof (induction ds)
  case (Cons d ds)
  then have "digits_num r ds < r ^ length ds" by simp
  moreover have "(d + 1) * r ^ length ds \<le> r * r ^ length ds"
    using Cons.prems by (intro mult_le_mono1) simp
  ultimately show ?case by (simp add: algebra_simps)
qed simp

text \<open>The first digit in which two numbers of the same length differ decides their order.\<close>

lemma find_upt_Suc: "find P [0..<Suc n] = (if P 0 then Some 0 else map_option Suc (find (P \<circ> Suc) [0..<n]))"
proof -
  have "find P (map Suc xs) = map_option Suc (find (P \<circ> Suc) xs)" for xs by (induction xs) auto
  then show ?thesis by (simp add: upt_conv_Cons map_Suc_upt[symmetric] del: upt_Suc map_Suc_upt)
qed

lemma digits_num_order:
  assumes "length xs = length ys" and "\<forall>d \<in> set xs \<union> set ys. d < r"
  shows "(case find (\<lambda>i. xs ! i \<noteq> ys ! i) [0..<length xs] of
      Some i \<Rightarrow> sgn (int (xs ! i) - int (ys ! i)) = sgn (int (digits_num r xs) - int (digits_num r ys))
    | None \<Rightarrow> xs = ys)"
  using assms
proof (induction xs ys rule: list_induct2)
  case (Cons x xs y ys)
  have shift: "(\<lambda>i. (a # xs) ! i \<noteq> (b # ys) ! i) \<circ> Suc = (\<lambda>i. xs ! i \<noteq> ys ! i)" for a b by auto
  show ?case
  proof (cases "x = y")
    case True
    then show ?thesis using Cons by (auto simp: find_upt_Suc shift split: option.splits simp del: upt_Suc)
  next
    case False
    let ?p = "r ^ length xs"
    have less: "digits_num r xs < ?p" "digits_num r ys < ?p"
      using digits_num_less[of xs r] digits_num_less[of ys r] Cons by auto
    have "x * ?p + digits_num r xs < y * ?p + digits_num r ys" if "x < y"
    proof -
      have "(x + 1) * ?p \<le> y * ?p" using that by (intro mult_right_mono) auto
      then show ?thesis using less by (simp add: algebra_simps)
    qed
    moreover have "y * ?p + digits_num r ys < x * ?p + digits_num r xs" if "y < x"
    proof -
      have "(y + 1) * ?p \<le> x * ?p" using that by (intro mult_right_mono) auto
      then show ?thesis using less by (simp add: algebra_simps)
    qed
    ultimately have "x < y \<Longrightarrow> digits_num r (x # xs) < digits_num r (y # ys)"
      "y < x \<Longrightarrow> digits_num r (y # ys) < digits_num r (x # xs)" using Cons(1) by simp_all
    then show ?thesis using False
      by (cases "x < y") (auto simp: find_upt_Suc simp del: upt_Suc digits_num.simps)
  qed
qed simp

text \<open>The number an address denotes, and a key that orders all addresses.\<close>

definition addr_value :: "xaddr \<Rightarrow> nat" where
  "addr_value a = (if xa_af a = AF_INET then unat (xa_32 a ! 0) else digits_num (2 ^ 32) (map unat (xa_32 a)))"

definition addr_key :: "xaddr \<Rightarrow> nat" where
  "addr_key a =
     (if xa_af a = AF_INET then addr_value a
      else 2 ^ 160 + addr_value a * 2 ^ 32 + unat (xa_scope_id a))"

lemma unat_byte: "unat (ucast (drop_bit k w) :: byte) = unat w div 2 ^ k mod 256" for w :: "32 word"
proof -
  have "unat w < 4294967296" using unsigned_less[of w] by simp
  then show ?thesis
    by (simp only: unsigned_ucast_eq unsigned_drop_bit_eq) (simp add: drop_bit_eq_div take_bit_eq_mod)
qed

lemma four_bytes:
  fixes n :: nat
  assumes "n < 2 ^ 32"
  shows "digits_num 256 [n div 2 ^ 24 mod 256, n div 2 ^ 16 mod 256, n div 2 ^ 8 mod 256, n mod 256] = n"
proof -
  define p where "p = n div 256"
  define q where "q = p div 256"
  define t where "t = q div 256"
  have "n = 256 * p + n mod 256" "p = 256 * q + p mod 256" "q = 256 * t + q mod 256"
    by (simp_all add: p_def q_def t_def)
  moreover have "n div 2 ^ 8 = p" "n div 2 ^ 16 = q" "n div 2 ^ 24 = t"
    by (simp_all add: p_def q_def t_def flip: div_mult2_eq)
  moreover have "t mod 256 = t" using assms by (simp add: p_def q_def t_def flip: div_mult2_eq)
  ultimately show ?thesis by simp
qed

text \<open>The sixteen bytes of the union denote the same number as its four words.\<close>

lemma digits_num_append: "digits_num r (xs @ ys) = digits_num r xs * r ^ length ys + digits_num r ys"
  by (induction xs) (simp_all add: power_add algebra_simps)

lemma word_bytes:
  "digits_num 256 [unat (ucast (drop_bit 24 w) :: byte), unat (ucast (drop_bit 16 w) :: byte),
     unat (ucast (drop_bit 8 w) :: byte), unat (ucast w :: byte)] = unat w" for w :: "32 word"
proof -
  have "unat w < 2 ^ 32" using unsigned_less[of w] by simp
  moreover have "unat (ucast w :: byte) = unat w mod 256" using unat_byte[of 0 w] by simp
  ultimately show ?thesis using four_bytes[of "unat w"] by (simp only: unat_byte)
qed

lemma upt_16: "[0..<16] = [0, 1, 2, 3, 4, 5, 6, 7, 8, 9, 10, 11, 12, 13, 14, 15 :: nat]"
  by (simp add: upt_rec)

lemma addr8_value:
  assumes "length (xa_32 a) = 4"
  shows "digits_num 256 (map (\<lambda>i. unat (addr8 a i)) [0..<16]) = digits_num (2 ^ 32) (map unat (xa_32 a))"
proof -
  obtain w0 w1 w2 w3 where ws: "xa_32 a = [w0, w1, w2, w3]" using four[OF assms] by blast
  let ?b = "\<lambda>w :: 32 word. [unat (ucast (drop_bit 24 w) :: byte), unat (ucast (drop_bit 16 w) :: byte),
     unat (ucast (drop_bit 8 w) :: byte), unat (ucast w :: byte)]"
  have "map (\<lambda>i. unat (addr8 a i)) [0..<16] = ?b w0 @ ?b w1 @ ?b w2 @ ?b w3"
    by (simp add: upt_16 addr8_def ws)
  then show ?thesis by (simp only: digits_num_append word_bytes ws) simp
qed

lemma addr_key_parts:
  assumes "wf_xaddr a" and "wf_xaddr b" and "xa_af a = AF_INET6" and "xa_af b = AF_INET6"
  shows "addr_value a < addr_value b \<Longrightarrow> addr_key a < addr_key b"
    and "addr_value a = addr_value b \<Longrightarrow>
      sgn (int (addr_key a) - int (addr_key b)) = sgn (int (unat (xa_scope_id a)) - int (unat (xa_scope_id b)))"
proof -
  have "unat (xa_scope_id a) < 2 ^ 32" using unsigned_less[of "xa_scope_id a"] by simp
  then show "addr_value a < addr_value b \<Longrightarrow> addr_key a < addr_key b"
    using assms by (simp add: addr_key_def)
  show "addr_value a = addr_value b \<Longrightarrow>
      sgn (int (addr_key a) - int (addr_key b)) = sgn (int (unat (xa_scope_id a)) - int (unat (xa_scope_id b)))"
    using assms by (simp add: addr_key_def)
qed

lemma sgn_int_diff:
  "x < y \<Longrightarrow> sgn (int x - int y) = -1" "y < x \<Longrightarrow> sgn (int x - int y) = 1"
  by auto

lemma byte_diff_0:
  "byte_diff a b i = 0 \<longleftrightarrow> addr8 a i = addr8 b i"
  "byte_diff a b i \<noteq> 0 \<longleftrightarrow> unat (addr8 a i) \<noteq> unat (addr8 b i)"
  unfolding byte_diff_def by (metis diff_eq_eq add_0 nat_int unsigned_word_eqI)+

lemma addr_cmp_v6:
  assumes wf: "wf_xaddr a" "wf_xaddr b" and v6: "xa_af a = AF_INET6" "xa_af b = AF_INET6"
  shows "sgn (addr_cmp a b) = sgn (int (addr_key a) - int (addr_key b))"
proof -
  let ?f = "\<lambda>a i. unat (addr8 a i)"
  let ?find = "find (\<lambda>i. ?f a i \<noteq> ?f b i) [0..<16]"
  have bytes: "?f x i < 256" for x i using unsigned_less[of "addr8 x i"] by simp
  have cong: "find (\<lambda>i. map (?f a) [0..<16] ! i \<noteq> map (?f b) [0..<16] ! i) [0..<16] = ?find"
    by (rule find_cong) auto
  have val: "digits_num 256 (map (?f a) [0..<16]) = addr_value a"
    "digits_num 256 (map (?f b) [0..<16]) = addr_value b"
    using addr8_value[of a] addr8_value[of b] wf v6 by (simp_all add: wf_xaddr_def addr_value_def)
  have "case ?find of
      Some i \<Rightarrow> sgn (int (map (?f a) [0..<16] ! i) - int (map (?f b) [0..<16] ! i)) =
        sgn (int (addr_value a) - int (addr_value b))
    | None \<Rightarrow> map (?f a) [0..<16] = map (?f b) [0..<16]"
    using digits_num_order[of "map (?f a) [0..<16]" "map (?f b) [0..<16]" 256] val cong
    by (cases ?find) (simp_all add: bytes ball_Un)
  moreover have "addr_value a = addr_value b" if "map (?f a) [0..<16] = map (?f b) [0..<16]"
    using val that by metis
  moreover have "i < 16" if "?find = Some i" for i using that by (auto simp: find_Some_iff)
  ultimately have ord: "case ?find of
      Some i \<Rightarrow> sgn (int (?f a i) - int (?f b i)) = sgn (int (addr_value a) - int (addr_value b))
    | None \<Rightarrow> addr_value a = addr_value b"
    by (cases ?find) simp_all
  have cmp: "addr_cmp a b = (case ?find of
      Some i \<Rightarrow> byte_diff a b i
    | None \<Rightarrow> if xa_scope_id a = xa_scope_id b then 0 else if xa_scope_id a > xa_scope_id b then 1 else -1)"
    using v6 by (simp only: addr_cmp_def byte_diff_0(2)) simp
  show ?thesis
  proof (cases ?find)
    case None
    then show ?thesis using ord cmp addr_key_parts(2)[OF wf v6]
      by (auto simp: word_less_def word_uint_eq_iff)
  next
    case (Some i)
    then have "?f a i \<noteq> ?f b i" by (auto simp: find_Some_iff)
    with Some ord have "addr_value a \<noteq> addr_value b" by (auto simp: sgn_eq_0_iff simp del: of_nat_unat)
    then show ?thesis
      using Some ord cmp addr_key_parts(1)[OF wf v6] addr_key_parts(1)[OF wf(2,1) v6(2,1)]
      by (cases "addr_value a < addr_value b") (auto simp: sgn_int_diff byte_diff_def simp del: of_nat_unat)
  qed
qed

lemma addr_cmp_key:
  assumes wf: "wf_xaddr a" "wf_xaddr b"
  shows "sgn (addr_cmp a b) = sgn (int (addr_key a) - int (addr_key b))"
proof -
  have small: "addr_key x < 2 ^ 160" if "xa_af x = AF_INET" for x
  proof -
    have "unat (xa_32 x ! 0) < 2 ^ 32" using unsigned_less[of "xa_32 x ! 0"] by simp
    then show ?thesis using that by (simp add: addr_key_def addr_value_def)
  qed
  have large: "2 ^ 160 \<le> addr_key x" if "xa_af x = AF_INET6" for x
    using that by (simp add: addr_key_def)
  consider "xa_af a = AF_INET" "xa_af b = AF_INET" | "xa_af a = AF_INET" "xa_af b = AF_INET6"
    | "xa_af a = AF_INET6" "xa_af b = AF_INET" | "xa_af a = AF_INET6" "xa_af b = AF_INET6"
    using wf by (auto simp: wf_xaddr_def)
  then show ?thesis
  proof cases
    case 1
    then show ?thesis
      by (auto simp: addr_cmp_def addr_key_def addr_value_def word_less_def word_uint_eq_iff)
  next
    case 2
    then show ?thesis using small[of a] large[of b] by (auto simp: addr_cmp_def sgn_int_diff)
  next
    case 3
    then show ?thesis using small[of b] large[of a] by (auto simp: addr_cmp_def sgn_int_diff)
  qed (rule addr_cmp_v6[OF wf])
qed

text \<open>The bytes of the union hold the same bits as its words.\<close>

lemma addr8_bit:
  assumes "k < 128"
  shows "bit (addr8 a (k div 8)) (7 - k mod 8) = addr_bit a k"
proof -
  have "k mod 32 = 8 * (k div 8 mod 4) + k mod 8" using mod_mult2_eq[of k 8 4] by simp
  moreover have "k div 8 mod 4 \<le> 3" "k mod 8 \<le> 7" by (simp_all add: less_Suc_eq_le[symmetric])
  ultimately have pos: "24 - 8 * (k div 8 mod 4) + (7 - k mod 8) = 31 - k mod 32" by simp
  have word: "k div 8 div 4 = k div 32" by (simp flip: div_mult2_eq)
  show ?thesis by (simp only: addr8_def addr_bit_def bit_simps comp_def pos word) auto
qed

lemma addr8_eq_iff: "(\<forall>i < 16. addr8 a i = addr8 b i) \<longleftrightarrow> (\<forall>k < 128. addr_bit a k = addr_bit b k)"
proof (rule iffI; intro allI impI)
  fix k :: nat assume "\<forall>i < 16. addr8 a i = addr8 b i" and "k < 128"
  then have "addr8 a (k div 8) = addr8 b (k div 8)" by simp
  with \<open>k < 128\<close> show "addr_bit a k = addr_bit b k" by (simp flip: addr8_bit)
next
  fix i :: nat assume eq: "\<forall>k < 128. addr_bit a k = addr_bit b k" and i: "i < 16"
  show "addr8 a i = addr8 b i"
  proof (rule bit_word_eqI)
    fix n assume "n < LENGTH(8)"
    then have n: "n < 8" by simp
    define m where "m = 7 - n"
    have "m < 8" "n = 7 - m" using n by (simp_all add: m_def)
    then have k: "(8 * i + m) div 8 = i" "7 - (8 * i + m) mod 8 = n" "8 * i + m < 128"
      using i by simp_all
    show "bit (addr8 a i) n = bit (addr8 b i) n"
      using addr8_bit[OF k(3), of a] addr8_bit[OF k(3), of b] eq k by simp
  qed
qed

lemma addr_cmp_0:
  assumes wf: "wf_xaddr a" "wf_xaddr b"
  shows "addr_cmp a b = 0 \<longleftrightarrow> xa_af a = xa_af b \<and>
    (\<forall>k < af_width (xa_af a). addr_bit a k = addr_bit b k) \<and>
    (xa_af a = AF_INET6 \<longrightarrow> xa_scope_id a = xa_scope_id b)"
proof -
  consider "xa_af a \<noteq> xa_af b" | "xa_af a = AF_INET" "xa_af b = AF_INET" | "xa_af a = AF_INET6" "xa_af b = AF_INET6"
    using wf by (auto simp: wf_xaddr_def)
  then show ?thesis
  proof cases
    case 2
    have "x = y \<longleftrightarrow> (\<forall>k < 32. bit x (31 - k) = bit y (31 - k))" for x y :: "32 word"
    proof safe
      assume eq: "\<forall>k < 32. bit x (31 - k) = bit y (31 - k)"
      have "bit x n = bit y n" if "n < 32" for n using that eq[rule_format, of "31 - n"] by simp
      then show "x = y" by (intro bit_word_eqI) simp
    qed
    from this[of "xa_32 a ! 0" "xa_32 b ! 0"] 2 show ?thesis by (simp add: addr_cmp_def addr_bit_def)
  next
    case 3
    have none: "find (\<lambda>i. byte_diff a b i \<noteq> 0) [0..<16] = None \<longleftrightarrow> (\<forall>i < 16. addr8 a i = addr8 b i)"
      by (auto simp: find_None_iff byte_diff_0(1))
    show ?thesis
    proof (cases "\<forall>i < 16. addr8 a i = addr8 b i")
      case True
      then show ?thesis using 3 none addr8_eq_iff[of a b] by (simp add: addr_cmp_def)
    next
      case False
      then obtain i where "find (\<lambda>i. byte_diff a b i \<noteq> 0) [0..<16] = Some i"
        using none by blast
      moreover from this have "byte_diff a b i \<noteq> 0" by (auto simp: find_Some_iff)
      ultimately have "addr_cmp a b \<noteq> 0" using 3 by (simp add: addr_cmp_def)
      then show ?thesis using 3 False addr8_eq_iff[of a b] by simp
    qed
  qed (simp add: addr_cmp_def)
qed

section \<open>Networks\<close>

text \<open>The host is in the network: it shares the first \<open>l\<close> bits with the address of the network.\<close>

definition in_network :: "xaddr \<Rightarrow> xaddr \<Rightarrow> nat \<Rightarrow> bool" where
  "in_network host net l \<longleftrightarrow> xa_af host = xa_af net \<and> l \<le> af_width (xa_af net) \<and>
     (\<forall>k < l. addr_bit host k = addr_bit net k) \<and>
     (xa_af net = AF_INET6 \<longrightarrow> xa_scope_id host = xa_scope_id net)"

definition host_bits_zero :: "xaddr \<Rightarrow> nat \<Rightarrow> bool" where
  "host_bits_zero a l \<longleftrightarrow> (\<forall>k. l \<le> k \<longrightarrow> k < af_width (xa_af a) \<longrightarrow> \<not> addr_bit a k)"

text \<open>Bit \<open>k\<close> of the words of a mask, and of words combined with a mask bit by bit.\<close>

lemma mask_words_bit:
  assumes "k < 128"
  shows "bit ([word_mask l, word_mask (l - 32), word_mask (l - 64), word_mask (l - 96)] ! (k div 32))
      (31 - k mod 32) \<longleftrightarrow> k < l"
proof -
  have "k div 32 < 4" using assms by simp
  define r where "r = k mod 32"
  have r: "r < 32" by (simp add: r_def)
  from \<open>k div 32 < 4\<close> consider "k div 32 = 0" | "k div 32 = 1" | "k div 32 = 2" | "k div 32 = 3" by linarith
  then show ?thesis
  proof cases
    case 1
    then have "k < l \<longleftrightarrow> r < l" using div_mult_mod_eq[of k 32] unfolding r_def by linarith
    then show ?thesis using 1 r by (auto simp: bit_word_mask simp flip: r_def)
  next
    case 2
    then have "k < l \<longleftrightarrow> r < l - 32" using div_mult_mod_eq[of k 32] unfolding r_def by linarith
    then show ?thesis using 2 r by (auto simp: bit_word_mask simp flip: r_def)
  next
    case 3
    then have "k < l \<longleftrightarrow> r < l - 64" using div_mult_mod_eq[of k 32] unfolding r_def by linarith
    then show ?thesis using 3 r by (auto simp: bit_word_mask simp flip: r_def)
  next
    case 4
    then have "k < l \<longleftrightarrow> r < l - 96" using div_mult_mod_eq[of k 32] unfolding r_def by linarith
    then show ?thesis using 4 r by (auto simp: bit_word_mask simp flip: r_def)
  qed
qed

lemma op_words_bit:
  assumes f: "\<And>x y n. n < 32 \<Longrightarrow> bit (f x y :: 32 word) n = F (bit x n) (bit (y :: 32 word) n)" and k: "k < 128"
  shows "bit ([f w0 (word_mask l), f w1 (word_mask (l - 32)), f w2 (word_mask (l - 64)),
     f w3 (word_mask (l - 96))] ! (k div 32)) (31 - k mod 32) =
   F (bit ([w0, w1, w2, w3] ! (k div 32)) (31 - k mod 32)) (k < l)"
proof -
  have nth: "[f w0 m0, f w1 m1, f w2 m2, f w3 m3] ! i = f ([w0, w1, w2, w3] ! i) ([m0, m1, m2, m3] ! i)"
    if "i < 4" for i m0 m1 m2 m3
    using that by (auto simp: numeral_eq_Suc less_Suc_eq)
  have i: "k div 32 < 4" using k by simp
  show ?thesis unfolding nth[OF i] using mask_words_bit[OF k, of l] by (simp add: f)
qed

text \<open>Masking an address keeps its first \<open>l\<close> bits and clears the others.\<close>

lemma mask_spec:
  assumes wf: "wf_xaddr a" and l: "l \<le> af_width (xa_af a)"
  obtains m r where "addr_netmask (xa_af a) l = Some m" "addr_and a m = Some r" "wf_xaddr r"
    "xa_af r = xa_af a" "xa_scope_id r = xa_scope_id a"
    "\<And>k. k < af_width (xa_af a) \<Longrightarrow> addr_bit r k \<longleftrightarrow> addr_bit a k \<and> k < l"
proof -
  obtain af w0 w1 w2 w3 sc where a: "a = \<lparr>xa_af = af, xa_32 = [w0, w1, w2, w3], xa_scope_id = sc\<rparr>"
    and af: "af = AF_INET \<or> af = AF_INET6" using wf_xaddrE[OF wf] by metis
  from af show ?thesis
  proof
    assume v4: "af = AF_INET"
    show ?thesis
      using l v4 by (intro that) (auto simp: a netmask_eq addr_and_def wf_xaddr_def addr_bit_def bit_simps bit_word_mask)
  next
    assume v6: "af = AF_INET6"
    have and4: "addr_and a \<lparr>xa_af = AF_INET6, xa_32 = [word_mask l, word_mask (l - 32), word_mask (l - 64),
        word_mask (l - 96)], xa_scope_id = 0\<rparr> =
      Some (a\<lparr>xa_32 := [and w0 (word_mask l), and w1 (word_mask (l - 32)), and w2 (word_mask (l - 64)),
        and w3 (word_mask (l - 96))]\<rparr>)"
      by (simp add: a v6 addr_and_def upt_4 numeral_2_eq_2 numeral_3_eq_3)
    show ?thesis
      using l v6 op_words_bit[of "and" "(\<and>)"]
      by (intro that[OF _ and4]) (auto simp: a netmask_eq wf_xaddr_def addr_bit_def bit_simps)
  qed
qed

text \<open>The host mask selects the other bits.\<close>

lemma hostmask_spec:
  assumes wf: "wf_xaddr a" and l: "l \<le> af_width (xa_af a)"
  obtains m r s where "addr_hostmask (xa_af a) l = Some m" "addr_and a m = Some r" "addr_or a m = Some s"
    "wf_xaddr r" "wf_xaddr s" "xa_af r = xa_af a" "xa_af s = xa_af a" "xa_scope_id s = xa_scope_id a"
    "\<And>k. k < af_width (xa_af a) \<Longrightarrow> addr_bit r k \<longleftrightarrow> addr_bit a k \<and> \<not> k < l"
    "\<And>k. k < af_width (xa_af a) \<Longrightarrow> addr_bit s k \<longleftrightarrow> addr_bit a k \<or> \<not> k < l"
proof -
  obtain af w0 w1 w2 w3 sc where a: "a = \<lparr>xa_af = af, xa_32 = [w0, w1, w2, w3], xa_scope_id = sc\<rparr>"
    and af: "af = AF_INET \<or> af = AF_INET6" using wf_xaddrE[OF wf] by metis
  let ?m = "\<lambda>i. not (word_mask (l - i))"
  from af show ?thesis
  proof
    assume v4: "af = AF_INET"
    show ?thesis
      using l v4 by (intro that) (auto simp: a netmask_eq addr_hostmask_def addr_invert_def addr_and_def
        addr_or_def wf_xaddr_def addr_bit_def bit_simps bit_word_mask)
  next
    assume v6: "af = AF_INET6"
    let ?mask = "\<lparr>xa_af = AF_INET6, xa_32 = [?m 0, ?m 32, ?m 64, ?m 96], xa_scope_id = 0\<rparr>"
    have mask: "addr_hostmask AF_INET6 l = Some ?mask"
      using l v6 by (simp add: a addr_hostmask_def addr_invert_def netmask_eq upt_4 numeral_2_eq_2 numeral_3_eq_3)
    have and4: "addr_and a ?mask = Some (a\<lparr>xa_32 := [and w0 (?m 0), and w1 (?m 32), and w2 (?m 64), and w3 (?m 96)]\<rparr>)"
      and or4: "addr_or a ?mask = Some (a\<lparr>xa_32 := [or w0 (?m 0), or w1 (?m 32), or w2 (?m 64), or w3 (?m 96)]\<rparr>)"
      by (simp_all add: a v6 addr_and_def addr_or_def upt_4 numeral_2_eq_2 numeral_3_eq_3)
    show ?thesis
      using v6 op_words_bit[of "\<lambda>w m. and w (not m)" "\<lambda>x y. x \<and> \<not> y"]
        op_words_bit[of "\<lambda>w m. or w (not m)" "\<lambda>x y. x \<or> \<not> y"]
      by (intro that[OF _ and4 or4]) (auto simp: a mask wf_xaddr_def addr_bit_def bit_simps)
  qed
qed

text \<open>A word is determined by its bits, counted from the top.\<close>

lemma word_bits_eq: "(x :: 32 word) = y \<longleftrightarrow> (\<forall>k < 32. bit x (31 - k) = bit y (31 - k))"
proof (rule iffI)
  assume eq: "\<forall>k < 32. bit x (31 - k) = bit y (31 - k)"
  have "bit x n = bit y n" if "n < 32" for n using that eq[rule_format, of "31 - n"] by simp
  then show "x = y" by (intro bit_word_eqI) simp
qed simp

lemma words_zero_iff:
  assumes "length ws = 4"
  shows "(\<forall>k < 128. \<not> bit (ws ! (k div 32)) (31 - k mod 32)) \<longleftrightarrow> (\<forall>i < 4. (ws ! i :: 32 word) = 0)"
proof (rule iffI; intro allI impI)
  fix i :: nat assume z: "\<forall>k < 128. \<not> bit (ws ! (k div 32)) (31 - k mod 32)" and i: "i < 4"
  have "\<not> bit (ws ! i) (31 - k)" if "k < 32" for k using z[rule_format, of "32 * i + k"] that i by simp
  then show "ws ! i = 0" by (simp add: word_bits_eq)
next
  fix k :: nat assume "\<forall>i < 4. ws ! i = 0" and "k < 128"
  then have "ws ! (k div 32) = 0" by simp
  then show "\<not> bit (ws ! (k div 32)) (31 - k mod 32)" by simp
qed

lemma all0s_iff:
  assumes "wf_xaddr a"
  shows "addr_is_all0s a = 0 \<longleftrightarrow> (\<forall>k < af_width (xa_af a). \<not> addr_bit a k)"
proof -
  have "xa_af a = AF_INET \<or> xa_af a = AF_INET6" using assms by (auto simp: wf_xaddr_def)
  then show ?thesis
  proof
    assume "xa_af a = AF_INET"
    then show ?thesis using word_bits_eq[of "xa_32 a ! 0" 0] by (simp add: addr_is_all0s_def addr_bit_def)
  next
    assume "xa_af a = AF_INET6"
    then show ?thesis using words_zero_iff[of "xa_32 a"] assms
      by (auto simp: addr_is_all0s_def addr_bit_def wf_xaddr_def list_ex_iff)
  qed
qed

lemma host_is_all0s_iff:
  assumes wf: "wf_xaddr a" and l: "l \<le> af_width (xa_af a)"
  shows "addr_host_is_all0s a l = 0 \<longleftrightarrow> host_bits_zero a l"
proof -
  obtain m r where m: "addr_hostmask (xa_af a) l = Some m" "addr_and a m = Some r" "wf_xaddr r"
    "xa_af r = xa_af a" and bit: "\<And>k. k < af_width (xa_af a) \<Longrightarrow> addr_bit r k \<longleftrightarrow> addr_bit a k \<and> \<not> k < l"
    using hostmask_spec[OF wf l] by metis
  then have "addr_host_is_all0s a l = 0 \<longleftrightarrow> (\<forall>k < af_width (xa_af a). \<not> (addr_bit a k \<and> \<not> k < l))"
    by (simp add: addr_host_is_all0s_def all0s_iff)
  then show ?thesis by (auto simp: host_bits_zero_def)
qed

lemma masklen_valid_iff: "wf_xaddr a \<Longrightarrow> masklen_valid (xa_af a) l = 0 \<longleftrightarrow> l \<le> af_width (xa_af a)"
  "masklen_valid (xa_af a) l \<in> {0, -1}"
  by (cases "xa_af a"; simp add: wf_xaddr_def)+

lemma netmatch_in_network:
  assumes wf: "wf_xaddr host" "wf_xaddr net" and zero: "host_bits_zero net l"
  shows "addr_netmatch host net l = 0 \<longleftrightarrow> in_network host net l"
proof (cases "xa_af host = xa_af net \<and> l \<le> af_width (xa_af net)")
  case True
  then obtain m r where m: "addr_netmask (xa_af host) l = Some m" "addr_and host m = Some r" "wf_xaddr r"
      "xa_af r = xa_af host" "xa_scope_id r = xa_scope_id host"
    and bit: "\<And>k. k < af_width (xa_af host) \<Longrightarrow> addr_bit r k \<longleftrightarrow> addr_bit host k \<and> k < l"
    using mask_spec[OF wf(1), of l] by metis
  then have "addr_netmatch host net l = 0 \<longleftrightarrow>
      (\<forall>k < af_width (xa_af net). (addr_bit host k \<and> k < l) = addr_bit net k) \<and>
      (xa_af net = AF_INET6 \<longrightarrow> xa_scope_id host = xa_scope_id net)"
    using True addr_cmp_0[OF m(3) wf(2)] by (simp add: addr_netmatch_def)
  moreover have "(\<forall>k < af_width (xa_af net). (addr_bit host k \<and> k < l) = addr_bit net k) \<longleftrightarrow>
      (\<forall>k < l. addr_bit host k = addr_bit net k)"
    using True zero unfolding host_bits_zero_def by (meson leI less_le_trans)
  ultimately show ?thesis using True by (auto simp: in_network_def)
next
  case False
  then show ?thesis using wf
    by (auto simp: addr_netmatch_def in_network_def addr_netmask_def wf_xaddr_def)
qed

lemma pton_wf: "addr_pton gai p = Some a \<Longrightarrow> wf_xaddr a"
  by (auto simp: addr_pton_def addr_sa_to_xaddr_def wf_xaddr_def split: option.splits sockaddr.splits if_splits)

lemma pton_cidr_Inr:
  assumes "addr_pton_cidr gai p = Inr (net, l)"
  shows "wf_xaddr net \<and> l \<le> af_width (xa_af net) \<and> host_bits_zero net l"
proof -
  have wf: "wf_xaddr net" and "masklen_valid (xa_af net) l \<noteq> -1" and "addr_host_is_all0s net l = 0"
    using assms pton_wf by (auto simp: addr_pton_cidr_def Let_def split: if_splits sum.splits option.splits)
  then have l: "l \<le> af_width (xa_af net)"
    using masklen_valid_iff(1)[OF wf, of l] masklen_valid_iff(2)[of net l] by simp
  with \<open>addr_host_is_all0s net l = 0\<close> wf show ?thesis by (simp add: host_is_all0s_iff)
qed

section \<open>Increment\<close>

lemma unat_succ:
  fixes w :: "32 word"
  shows "w + 1 = 0 \<Longrightarrow> unat w = 2 ^ 32 - 1" and "w + 1 \<noteq> 0 \<Longrightarrow> unat (w + 1) = unat w + 1"
proof -
  show "unat w = 2 ^ 32 - 1" if "w + 1 = 0"
  proof -
    have "w = -1" using that by (simp add: eq_neg_iff_add_eq_0)
    then show ?thesis by (simp add: unsigned_minus_1_eq_mask mask_eq_exp_minus_1)
  qed
qed (simp add: unatSuc add.commute)

lemma increment_loop_value:
  assumes "length ws = 4"
  shows "length (increment_loop 0 ws) = 4 \<and>
    digits_num (2 ^ 32) (map unat (increment_loop 0 ws)) = (digits_num (2 ^ 32) (map unat ws) + 1) mod 2 ^ 128"
proof -
  obtain w0 w1 w2 w3 where ws: "ws = [w0, w1, w2, w3]" using four[OF assms] by blast
  have step: "increment_loop 0 ws =
    (if w3 + 1 \<noteq> 0 then [w0, w1, w2, w3 + 1] else if w2 + 1 \<noteq> 0 then [w0, w1, w2 + 1, 0]
     else if w1 + 1 \<noteq> 0 then [w0, w1 + 1, 0, 0] else [w0 + 1, 0, 0, 0])"
    by (simp add: ws increment_loop.simps numeral_2_eq_2 numeral_3_eq_3 Let_def)
  have less: "unat w < 2 ^ 32" for w :: "32 word" using unsigned_less[of w] by simp
  have mod: "(a + 1) mod 2 ^ 128 = a + 1" if "a + 1 < 2 ^ 128" for a :: nat using that by simp
  note bound = less[of w0] less[of w1] less[of w2] less[of w3]
  consider "w3 + 1 \<noteq> 0" | "w3 + 1 = 0" "w2 + 1 \<noteq> 0" | "w3 + 1 = 0" "w2 + 1 = 0" "w1 + 1 \<noteq> 0"
    | "w3 + 1 = 0" "w2 + 1 = 0" "w1 + 1 = 0" "w0 + 1 \<noteq> 0" | "w3 + 1 = 0" "w2 + 1 = 0" "w1 + 1 = 0" "w0 + 1 = 0"
    by blast
  then show ?thesis
  proof cases
    case 1
    then show ?thesis using unat_succ(2)[of w3] less[of "w3 + 1"] bound step by (simp add: ws)
  next
    case 2
    then show ?thesis using unat_succ(1)[of w3] unat_succ(2)[of w2] less[of "w2 + 1"] bound step by (simp add: ws)
  next
    case 3
    then show ?thesis
      using unat_succ(1)[of w3] unat_succ(1)[of w2] unat_succ(2)[of w1] less[of "w1 + 1"] bound step by (simp add: ws)
  next
    case 4
    then show ?thesis
      using unat_succ(1)[of w3] unat_succ(1)[of w2] unat_succ(1)[of w1] unat_succ(2)[of w0] less[of "w0 + 1"]
        bound step by (simp add: ws)
  next
    case 5
    then show ?thesis
      using unat_succ(1)[of w3] unat_succ(1)[of w2] unat_succ(1)[of w1] unat_succ(1)[of w0] step by (simp add: ws)
  qed
qed

section \<open>Properties\<close>

text \<open>
  C21. \<^verbatim>\<open>addr_cmp\<close> is a total order on the addresses of both families, IPv4 before IPv6 and then
  by number and scope: its sign is that of the difference of their keys.
\<close>

theorem addr_cmp_order:
  assumes "wf_xaddr a" and "wf_xaddr b"
  shows "sgn (addr_cmp a b) = sgn (int (addr_key a) - int (addr_key b))"
  by (rule addr_cmp_key[OF assms])

theorem addr_cmp_order_witness:
  "addr_cmp \<lparr>xa_af = AF_INET, xa_32 = [0xffffffff, 0, 0, 0], xa_scope_id = 0\<rparr>
     \<lparr>xa_af = AF_INET6, xa_32 = [0, 0, 0, 1], xa_scope_id = 0\<rparr> < 0"
  using addr_cmp_order[of "\<lparr>xa_af = AF_INET, xa_32 = [0xffffffff, 0, 0, 0], xa_scope_id = 0\<rparr>"
    "\<lparr>xa_af = AF_INET6, xa_32 = [0, 0, 0, 1], xa_scope_id = 0\<rparr>"]
  by (simp add: wf_xaddr_def addr_key_def addr_value_def sgn_if split: if_splits)

text \<open>
  C22. The CIDR test is exact: against a network that \<^verbatim>\<open>addr_pton_cidr\<close> has accepted,
  \<^verbatim>\<open>addr_netmatch\<close> returns 0 exactly for the hosts of the same family that share the first \<open>l\<close> bits
  of its address, and for IPv6 its scope; the network's other bits are zero.
\<close>

theorem cidr_match_exact:
  assumes "wf_xaddr host" and "addr_pton_cidr gai p = Inr (net, l)"
  shows "(addr_netmatch host net l = 0 \<longleftrightarrow> in_network host net l) \<and> host_bits_zero net l"
  using netmatch_in_network[OF assms(1)] pton_cidr_Inr[OF assms(2)] by blast

definition gai_ex :: getaddrinfo where
  "gai_ex p =
     (if p = ''10.0.0.0'' then
        Some (Some \<lparr>ai_addr = Some (Sockaddr_in 0 0x0a000000), ai_addrlen = 16\<rparr>)
      else if p = ''10.1.2.3'' then
        Some (Some \<lparr>ai_addr = Some (Sockaddr_in 0 0x0a010203), ai_addrlen = 16\<rparr>)
      else None)"

lemma pton_cidr_ex:
  "addr_pton_cidr gai_ex ''10.0.0.0/8'' =
     Inr (\<lparr>xa_af = AF_INET, xa_32 = [0x0a000000, 0, 0, 0], xa_scope_id = 0\<rparr>, 8)"
  by code_simp

theorem cidr_match_exact_witness:
  "in_network \<lparr>xa_af = AF_INET, xa_32 = [0x0a010203, 0, 0, 0], xa_scope_id = 0\<rparr>
     \<lparr>xa_af = AF_INET, xa_32 = [0x0a000000, 0, 0, 0], xa_scope_id = 0\<rparr> 8"
proof -
  have "addr_netmatch \<lparr>xa_af = AF_INET, xa_32 = [0x0a010203, 0, 0, 0], xa_scope_id = 0\<rparr>
     \<lparr>xa_af = AF_INET, xa_32 = [0x0a000000, 0, 0, 0], xa_scope_id = 0\<rparr> 8 = 0" by code_simp
  then show ?thesis
    using cidr_match_exact[OF _ pton_cidr_ex, of "\<lparr>xa_af = AF_INET, xa_32 = [0x0a010203, 0, 0, 0], xa_scope_id = 0\<rparr>"]
    by (simp add: wf_xaddr_def)
qed

text \<open>
  C23. \<^verbatim>\<open>addr_increment\<close> adds one to the number an address denotes, with the carries between the
  words and wrapping at the last address of the family.
\<close>

theorem addr_increment_value:
  assumes "wf_xaddr a"
  shows "addr_value (addr_increment a) = (addr_value a + 1) mod 2 ^ af_width (xa_af a)"
proof -
  obtain af w0 w1 w2 w3 sc where a: "a = \<lparr>xa_af = af, xa_32 = [w0, w1, w2, w3], xa_scope_id = sc\<rparr>"
    and af: "af = AF_INET \<or> af = AF_INET6" using wf_xaddrE[OF assms] by metis
  have "unat (w0 + 1) < 2 ^ 32" using unsigned_less[of "w0 + 1"] by simp
  then have "unat (w0 + 1) = (unat w0 + 1) mod 2 ^ 32"
    using unat_succ[of w0] by (cases "w0 + 1 = 0") simp_all
  then show ?thesis
    using af increment_loop_value[of "[w0, w1, w2, w3]"]
    by (auto simp: a addr_value_def addr_increment_def)
qed

theorem addr_increment_value_witness:
  "addr_value (addr_increment \<lparr>xa_af = AF_INET6, xa_32 = [0, 0, 0xffffffff, 0xffffffff], xa_scope_id = 0\<rparr>) = 2 ^ 64"
  using addr_increment_value[of "\<lparr>xa_af = AF_INET6, xa_32 = [0, 0, 0xffffffff, 0xffffffff], xa_scope_id = 0\<rparr>"]
  by (simp add: wf_xaddr_def addr_value_def)

end
