(* ===== verification/Match.thy ===== *)
theory Match
  imports Prelude
begin

text \<open>
  Patterns and comma-separated lists, \<^verbatim>\<open>match.c\<close>: the wildcard matcher, which runs a
  nondeterministic automaton, pattern lists with negation, the first common item of two
  lists, and filters. C strings are lists of characters without their terminator.
\<close>

section \<open>Wildcard patterns\<close>

text \<open>
  The automaton has a state for each position of the pattern and a final one; a set of
  states is a list of flags, \<^verbatim>\<open>char states[M + 1]\<close>.
\<close>

definition epsilon_closure :: "bool list \<Rightarrow> string \<Rightarrow> nat \<Rightarrow> bool list" where
  "epsilon_closure states pattern M =
     fold (\<lambda>i st. if \<not> st ! i \<or> pattern ! i \<noteq> CHR ''*'' then st else st[i + 1 := True])
       [0..<M] states"

text \<open>The states that can be reached over the input character \<open>c\<close>: the inner loop of \<^verbatim>\<open>match_pattern\<close>.\<close>

definition next_states :: "bool list \<Rightarrow> string \<Rightarrow> nat \<Rightarrow> char \<Rightarrow> bool list" where
  "next_states states pattern M c =
     fold (\<lambda>i st. if \<not> states ! i then st
                  else if pattern ! i = CHR ''*'' then st[i := True]
                  else if pattern ! i = CHR ''?'' \<or> pattern ! i = c then st[i + 1 := True]
                  else st)
       [0..<M] (replicate (M + 1) False)"

fun match_loop :: "string \<Rightarrow> nat \<Rightarrow> string \<Rightarrow> bool list \<Rightarrow> bool" where
  "match_loop pattern M [] states = states ! M"
| "match_loop pattern M (c # s) states =
     (let states' = epsilon_closure (next_states states pattern M c) pattern M
      in if \<not> list_ex (\<lambda>a. a) states' then False else match_loop pattern M s states')"

definition match_pattern :: "string \<Rightarrow> string \<Rightarrow> bool" where
  "match_pattern s pattern =
     (let M = length pattern
      in if M = 0 then s = []
         else match_loop pattern M s
                (epsilon_closure ((replicate (M + 1) False)[0 := True]) pattern M))"

text \<open>What a pattern means: \<^verbatim>\<open>*\<close> stands for any string, \<^verbatim>\<open>?\<close> for any character.\<close>

fun wildcard :: "string \<Rightarrow> string \<Rightarrow> bool" where
  "wildcard [] s = (s = [])"
| "wildcard (p # ps) s =
     (if p = CHR ''*'' then (\<exists>k\<le>length s. wildcard ps (drop k s))
      else (case s of [] \<Rightarrow> False | c # cs \<Rightarrow> (p = CHR ''?'' \<or> p = c) \<and> wildcard ps cs))"

lemma wildcard_star:
  "wildcard (CHR ''*'' # ps) [] = wildcard ps []"
  "wildcard (CHR ''*'' # ps) (c # s) = (wildcard ps (c # s) \<or> wildcard (CHR ''*'' # ps) s)"
proof -
  have "(\<exists>k\<le>length (c # s). wildcard ps (drop k (c # s))) \<longleftrightarrow>
      wildcard ps (c # s) \<or> (\<exists>k\<le>length s. wildcard ps (drop k s))"
    by (metis Suc_le_mono drop0 drop_Suc_Cons length_Cons not0_implies_Suc le0)
  then show "wildcard (CHR ''*'' # ps) (c # s) = (wildcard ps (c # s) \<or> wildcard (CHR ''*'' # ps) s)"
    by simp
qed simp

text \<open>State \<open>j\<close> is active, or reached from an earlier active state over stars only.\<close>

definition starred :: "string \<Rightarrow> bool list \<Rightarrow> nat \<Rightarrow> bool" where
  "starred p st j \<longleftrightarrow> (\<exists>i<j. st ! i \<and> (\<forall>k. i \<le> k \<longrightarrow> k < j \<longrightarrow> p ! k = CHR ''*''))"

lemma starred_Suc: "starred p st (Suc n) \<longleftrightarrow> (st ! n \<or> starred p st n) \<and> p ! n = CHR ''*''"
proof
  assume "starred p st (Suc n)"
  then obtain i where i: "i \<le> n" "st ! i" and k: "\<And>k. i \<le> k \<Longrightarrow> k < Suc n \<Longrightarrow> p ! k = CHR ''*''"
    unfolding starred_def by (metis less_Suc_eq_le)
  then show "(st ! n \<or> starred p st n) \<and> p ! n = CHR ''*''"
    using k[of n] by (auto simp: le_less starred_def)
qed (auto simp: starred_def less_Suc_eq)

lemma closure_prefix:
  fixes p :: string
  assumes "length st = M + 1" and "n \<le> M"
  defines "f \<equiv> \<lambda>n. fold (\<lambda>i st. if \<not> st ! i \<or> p ! i \<noteq> CHR ''*'' then st else st[i + 1 := True]) [0..<n] st"
  shows "length (f n) = M + 1 \<and> (\<forall>j\<le>M. f n ! j \<longleftrightarrow> st ! j \<or> (j \<le> n \<and> starred p st j))"
  using assms(2)
proof (induction n)
  case 0
  then show ?case using assms(1) by (auto simp: f_def starred_def)
next
  case (Suc n)
  then have len: "length (f n) = M + 1" and f: "\<And>j. j \<le> M \<Longrightarrow> f n ! j \<longleftrightarrow> st ! j \<or> (j \<le> n \<and> starred p st j)"
    by auto
  have "f (Suc n) = (if \<not> f n ! n \<or> p ! n \<noteq> CHR ''*'' then f n else (f n)[n + 1 := True])"
    by (simp add: f_def)
  moreover have "starred p st (Suc n) \<longleftrightarrow> f n ! n \<and> p ! n = CHR ''*''"
    using starred_Suc f[of n] Suc.prems by auto
  ultimately show ?case
    using len f Suc.prems by (auto simp: nth_list_update le_Suc_eq)
qed

lemma epsilon_closure_nth:
  assumes "length st = M + 1"
  shows "length (epsilon_closure st p M) = M + 1"
    and "j \<le> M \<Longrightarrow> epsilon_closure st p M ! j \<longleftrightarrow>
           (\<exists>i\<le>j. st ! i \<and> (\<forall>k. i \<le> k \<longrightarrow> k < j \<longrightarrow> p ! k = CHR ''*''))"
proof -
  note c = closure_prefix[OF assms order_refl, of p, folded epsilon_closure_def, unfolded starred_def]
  have split: "(\<exists>i\<le>j. P i) \<longleftrightarrow> P j \<or> (\<exists>i<j. P i)" for P by (auto simp: le_less)
  show "length (epsilon_closure st p M) = M + 1" using c by blast
  show "epsilon_closure st p M ! j \<longleftrightarrow>
      (\<exists>i\<le>j. st ! i \<and> (\<forall>k. i \<le> k \<longrightarrow> k < j \<longrightarrow> p ! k = CHR ''*''))" if "j \<le> M"
    unfolding split using c that by simp
qed

text \<open>Where the automaton goes from state \<open>i\<close> over \<open>c\<close>.\<close>

definition goes :: "string \<Rightarrow> char \<Rightarrow> nat \<Rightarrow> nat \<Rightarrow> bool" where
  "goes p c i j \<longleftrightarrow> (if p ! i = CHR ''*'' then j = i else (p ! i = CHR ''?'' \<or> p ! i = c) \<and> j = i + 1)"

lemma next_states_nth:
  assumes "length st = M + 1"
  shows "length (next_states st p M c) = M + 1"
    and "j \<le> M \<Longrightarrow> next_states st p M c ! j \<longleftrightarrow> (\<exists>i<M. st ! i \<and> goes p c i j)"
proof -
  define f where "f n = fold (\<lambda>i s. if \<not> st ! i then s
       else if p ! i = CHR ''*'' then s[i := True]
       else if p ! i = CHR ''?'' \<or> p ! i = c then s[i + 1 := True] else s) [0..<n] (replicate (M + 1) False)" for n
  have "length (f n) = M + 1 \<and> (\<forall>j\<le>M. f n ! j \<longleftrightarrow> (\<exists>i<n. st ! i \<and> goes p c i j))" if "n \<le> M" for n
    using that
  proof (induction n)
    case 0
    then show ?case by (simp add: f_def del: replicate_Suc)
  next
    case (Suc n)
    have "f (Suc n) = (if \<not> st ! n then f n
       else if p ! n = CHR ''*'' then (f n)[n := True]
       else if p ! n = CHR ''?'' \<or> p ! n = c then (f n)[n + 1 := True] else f n)"
      by (simp add: f_def)
    moreover have "(\<exists>i<Suc n. st ! i \<and> goes p c i j) \<longleftrightarrow> (\<exists>i<n. st ! i \<and> goes p c i j) \<or> (st ! n \<and> goes p c n j)" for j
      by (auto simp: less_Suc_eq)
    ultimately show ?case
      using Suc by (simp add: nth_list_update goes_def[of p c n])
  qed
  from this[of M] show "length (next_states st p M c) = M + 1"
    and "j \<le> M \<Longrightarrow> next_states st p M c ! j \<longleftrightarrow> (\<exists>i<M. st ! i \<and> goes p c i j)"
    by (auto simp: next_states_def f_def)
qed

definition closed :: "string \<Rightarrow> bool list \<Rightarrow> bool" where
  "closed p st \<longleftrightarrow> length st = length p + 1 \<and>
     (\<forall>i<length p. st ! i \<longrightarrow> p ! i = CHR ''*'' \<longrightarrow> st ! (i + 1))"

lemma closure_closed:
  assumes "length st = length p + 1"
  shows "closed p (epsilon_closure st p (length p))"
  unfolding closed_def
proof (intro conjI allI impI)
  note c = epsilon_closure_nth[OF assms]
  show "length (epsilon_closure st p (length p)) = length p + 1" by (rule c)
  fix i assume i: "i < length p" "epsilon_closure st p (length p) ! i" "p ! i = CHR ''*''"
  then obtain i0 where "i0 \<le> i" "st ! i0" "\<forall>k. i0 \<le> k \<longrightarrow> k < i \<longrightarrow> p ! k = CHR ''*''"
    using c(2)[of i p] by auto
  then show "epsilon_closure st p (length p) ! (i + 1)"
    using i c(2)[of "i + 1" p] by (auto simp: less_Suc_eq intro!: exI[of _ i0])
qed

lemma wildcard_skip_stars:
  "i \<le> j \<Longrightarrow> j \<le> length p \<Longrightarrow> (\<forall>k. i \<le> k \<longrightarrow> k < j \<longrightarrow> p ! k = CHR ''*'') \<Longrightarrow>
   wildcard (drop j p) s \<Longrightarrow> wildcard (drop i p) s"
proof (induction "j - i" arbitrary: i)
  case 0
  then show ?case by simp
next
  case (Suc n)
  then have "wildcard (drop (Suc i) p) s" and "i < length p" and "p ! i = CHR ''*''"
    by (auto intro: Suc.hyps(1))
  then show ?case by (auto simp: Cons_nth_drop_Suc[symmetric] intro!: exI[of _ 0])
qed

lemma wildcard_nil_closed:
  "closed p st \<Longrightarrow> i \<le> length p \<Longrightarrow> st ! i \<Longrightarrow> wildcard (drop i p) [] \<Longrightarrow> st ! length p"
proof (induction "length p - i" arbitrary: i)
  case 0
  then show ?case by simp
next
  case (Suc n)
  then have i: "i < length p" by simp
  with Suc.prems(4) have star: "p ! i = CHR ''*''" and "wildcard (drop (Suc i) p) []"
    by (auto simp: Cons_nth_drop_Suc[symmetric] split: if_splits)
  moreover have "st ! Suc i" using Suc.prems(1,3) i star by (simp add: closed_def)
  ultimately show ?case using Suc.hyps(1)[of "Suc i"] Suc.hyps(2) Suc.prems(1) i by simp
qed

text \<open>One input character: the automaton keeps track of the suffixes of the pattern still to match.\<close>

lemma wildcard_step_sound:
  assumes "i < length p" and "goes p c i j" and "wildcard (drop j p) s"
  shows "wildcard (drop i p) (c # s)"
proof (cases "p ! i = CHR ''*''")
  case True
  then have "wildcard (CHR ''*'' # drop (Suc i) p) s"
    using assms by (simp add: goes_def Cons_nth_drop_Suc[symmetric])
  then have "wildcard (CHR ''*'' # drop (Suc i) p) (c # s)" unfolding wildcard_star(2) ..
  then show ?thesis using True assms(1) by (simp add: Cons_nth_drop_Suc[symmetric])
next
  case False
  then show ?thesis using assms by (auto simp: goes_def Cons_nth_drop_Suc[symmetric])
qed

lemma wildcard_step_complete:
  "closed p st \<Longrightarrow> i \<le> length p \<Longrightarrow> st ! i \<Longrightarrow> wildcard (drop i p) (c # s) \<Longrightarrow>
   \<exists>i'<length p. \<exists>j\<le>length p. st ! i' \<and> goes p c i' j \<and> wildcard (drop j p) s"
proof (induction "length p - i" arbitrary: i)
  case 0
  then show ?case by simp
next
  case (Suc n)
  then have i: "i < length p" by simp
  show ?case
  proof (cases "p ! i = CHR ''*''")
    case True
    then have "wildcard (CHR ''*'' # drop (Suc i) p) (c # s)"
      using Suc.prems(4) i by (simp add: Cons_nth_drop_Suc[symmetric])
    then consider "wildcard (drop (Suc i) p) (c # s)" | "wildcard (drop i p) s"
      unfolding wildcard_star(2) using True i by (metis Cons_nth_drop_Suc)
    then show ?thesis
    proof cases
      case 1
      moreover have "st ! Suc i" using Suc.prems(1,3) i True by (simp add: closed_def)
      ultimately show ?thesis using Suc.hyps(1)[of "Suc i"] Suc.hyps(2) Suc.prems(1) i by simp
    next
      case 2
      then show ?thesis using i True Suc.prems(3) by (auto simp: goes_def intro!: exI[of _ i])
    qed
  next
    case False
    then have "goes p c i (Suc i) \<and> wildcard (drop (Suc i) p) s"
      using Suc.prems(4) i by (auto simp: goes_def Cons_nth_drop_Suc[symmetric])
    then show ?thesis using i Suc.prems(3) Suc_leI[OF i] by blast
  qed
qed

lemma match_loop_spec:
  "closed p st \<Longrightarrow> match_loop p (length p) s st \<longleftrightarrow> (\<exists>i\<le>length p. st ! i \<and> wildcard (drop i p) s)"
proof (induction s arbitrary: st)
  case Nil
  then show ?case using wildcard_nil_closed[of p st] by auto
next
  case (Cons c s)
  let ?M = "length p"
  define N where "N = next_states st p ?M c"
  define E where "E = epsilon_closure N p ?M"
  have len: "length st = ?M + 1" using Cons.prems by (simp add: closed_def)
  have N: "length N = ?M + 1" "\<And>j. j \<le> ?M \<Longrightarrow> N ! j \<longleftrightarrow> (\<exists>i<?M. st ! i \<and> goes p c i j)"
    using next_states_nth[OF len] by (auto simp: N_def)
  have E: "closed p E" "length E = ?M + 1" "\<And>j. j \<le> ?M \<Longrightarrow> E ! j \<longleftrightarrow>
      (\<exists>i\<le>j. N ! i \<and> (\<forall>k. i \<le> k \<longrightarrow> k < j \<longrightarrow> p ! k = CHR ''*''))"
    using closure_closed[OF N(1)] epsilon_closure_nth[OF N(1)] by (auto simp: E_def)
  have key: "(\<exists>j\<le>?M. E ! j \<and> wildcard (drop j p) s) \<longleftrightarrow> (\<exists>i\<le>?M. st ! i \<and> wildcard (drop i p) (c # s))"
  proof
    assume "\<exists>j\<le>?M. E ! j \<and> wildcard (drop j p) s"
    then obtain j i where j: "j \<le> ?M" "wildcard (drop j p) s" "i \<le> j" "N ! i"
        "\<forall>k. i \<le> k \<longrightarrow> k < j \<longrightarrow> p ! k = CHR ''*''"
      using E(3) by blast
    then have "wildcard (drop i p) s" using wildcard_skip_stars[of i j p s] by blast
    moreover obtain i' where "i' < ?M" "st ! i'" "goes p c i' i" using N(2)[of i] j by auto
    ultimately show "\<exists>i\<le>?M. st ! i \<and> wildcard (drop i p) (c # s)"
      using wildcard_step_sound[of i' p c i s] by (auto intro: less_imp_le)
  next
    assume "\<exists>i\<le>?M. st ! i \<and> wildcard (drop i p) (c # s)"
    then obtain i' j where "i' < ?M" "j \<le> ?M" "st ! i'" "goes p c i' j" "wildcard (drop j p) s"
      using wildcard_step_complete[OF Cons.prems, of _ c s] by blast
    moreover from this have "E ! j" using E(3)[of j] N(2)[of j] by auto
    ultimately show "\<exists>j\<le>?M. E ! j \<and> wildcard (drop j p) s" by blast
  qed
  have "\<not> list_ex (\<lambda>a. a) E \<Longrightarrow> \<not> (\<exists>j\<le>?M. E ! j \<and> wildcard (drop j p) s)"
    using E(2) by (auto simp: list_ex_length)
  then show ?case
    using Cons.IH[OF E(1)] key by (auto simp: Let_def N_def[symmetric] E_def[symmetric])
qed

lemma match_pattern_wildcard: "match_pattern s pattern = wildcard pattern s"
proof (cases "pattern = []")
  case True
  then show ?thesis by (simp add: match_pattern_def)
next
  case False
  let ?M = "length pattern" and ?I = "(replicate (length pattern + 1) False)[0 := True]"
  have len: "length ?I = ?M + 1" by simp
  have st: "?I ! j \<longleftrightarrow> j = 0" if "j \<le> ?M" for j
    using that by (auto simp: nth_list_update simp del: replicate_Suc)
  define E where "E = epsilon_closure ?I pattern ?M"
  have E: "E ! j \<longleftrightarrow> (\<forall>k<j. pattern ! k = CHR ''*'')" if "j \<le> ?M" for j
  proof -
    have "(\<exists>i\<le>j. ?I ! i \<and> P i) \<longleftrightarrow> P 0" for P
      using st that by (metis le0 le_trans)
    then show ?thesis using epsilon_closure_nth(2)[OF len that, of pattern] unfolding E_def by simp
  qed
  have "match_pattern s pattern \<longleftrightarrow> (\<exists>i\<le>?M. E ! i \<and> wildcard (drop i pattern) s)"
    using False match_loop_spec[OF closure_closed[OF len], of s]
    unfolding match_pattern_def Let_def E_def by simp
  also have "\<dots> \<longleftrightarrow> (\<exists>i\<le>?M. (\<forall>k<i. pattern ! k = CHR ''*'') \<and> wildcard (drop i pattern) s)"
    using E by auto
  also have "\<dots> \<longleftrightarrow> wildcard pattern s"
    using wildcard_skip_stars[of 0 _ pattern s] by (auto intro: exI[of _ 0])
  finally show ?thesis .
qed

section \<open>Pattern lists\<close>

text \<open>\<^verbatim>\<open>isupper\<close> and \<^verbatim>\<open>tolower\<close> of the C locale.\<close>

definition isupper :: "char \<Rightarrow> bool" where
  "isupper c \<longleftrightarrow> 65 \<le> (of_char c :: nat) \<and> (of_char c :: nat) \<le> 90"

definition tolower :: "char \<Rightarrow> char" where
  "tolower c = (if isupper c then char_of (of_char c + 32 :: nat) else c)"

text \<open>
  The loop of \<^verbatim>\<open>match_pattern_list\<close>: \<open>rest\<close> is the pattern from index \<^verbatim>\<open>i\<close> on, and a subpattern is
  copied into \<^verbatim>\<open>sub[1024]\<close>.
\<close>

function match_pattern_list_from :: "string \<Rightarrow> bool \<Rightarrow> int \<Rightarrow> string \<Rightarrow> int" where
  "match_pattern_list_from s dolower got_positive [] = got_positive"
| "match_pattern_list_from s dolower got_positive (x # xs) =
     (let negated = (x = CHR ''!'');
          rest = (if negated then xs else x # xs);
          chunk = takeWhile (\<lambda>c. c \<noteq> CHR '','') (take 1023 rest);
          sub = map (\<lambda>c. if dolower \<and> isupper c then tolower c else c) chunk;
          subi = length chunk;
          rest1 = drop subi rest;
          rest2 = (if rest1 \<noteq> [] \<and> hd rest1 = CHR '','' then tl rest1 else rest1)
      in if subi \<ge> 1023 then 0
         else if match_pattern s sub then
           (if negated then -1 else match_pattern_list_from s dolower 1 rest2)
         else match_pattern_list_from s dolower got_positive rest2)"
  by pat_completeness auto
termination
proof (relation "measure (\<lambda>(s, d, g, xs). length xs)", goal_cases)
  case 1
  show ?case by simp
next
  case (2 s d g x xs negated rest chunk sub subi rest1 rest2)
  then show ?case by (cases "x = CHR '',''") (auto simp: less_Suc_eq_le)
next
  case (3 s d g x xs negated rest chunk sub subi rest1 rest2)
  then show ?case by (cases "x = CHR '',''") (auto simp: less_Suc_eq_le)
qed

definition match_pattern_list :: "string \<Rightarrow> string \<Rightarrow> bool \<Rightarrow> int" where
  "match_pattern_list s pattern dolower = match_pattern_list_from s dolower 0 pattern"

text \<open>
  \<^verbatim>\<open>match_usergroup_pattern_list\<close> of the three platforms. The Windows code replaces the first
  slash of the caller's pattern, which is returned with the result; the Cygwin matcher is a
  parameter.
\<close>

datatype platform = Cygwin | Windows | Other

fun replace_first :: "char \<Rightarrow> char \<Rightarrow> string \<Rightarrow> string" where
  "replace_first a b [] = []"
| "replace_first a b (c # cs) = (if c = a then b # cs else c # replace_first a b cs)"

definition match_usergroup_pattern_list ::
  "platform \<Rightarrow> (string \<Rightarrow> string \<Rightarrow> int) \<Rightarrow> string \<Rightarrow> string \<Rightarrow> int \<times> string" where
  "match_usergroup_pattern_list pl cygwin_ug s pattern =
     (case pl of
        Cygwin \<Rightarrow> (cygwin_ug s pattern, pattern)
      | Windows \<Rightarrow>
          (let pattern' = replace_first (CHR ''/'') (CHR 0x5C) pattern
           in (match_pattern_list s pattern' True, pattern'))
      | Other \<Rightarrow> (match_pattern_list s pattern False, pattern))"

definition lowercase :: "string \<Rightarrow> string" where
  "lowercase s = map tolower s"

definition match_hostname :: "string \<Rightarrow> string \<Rightarrow> int" where
  "match_hostname host pattern = match_pattern_list (lowercase host) pattern True"

section \<open>Comma-separated lists\<close>

text \<open>
  \<^verbatim>\<open>strsep(&s, d)\<close> for a single delimiter: the token before it and the rest, \<^const>\<open>None\<close> for \<^verbatim>\<open>NULL\<close>.
\<close>

definition strsep :: "char \<Rightarrow> string option \<Rightarrow> string option \<times> string option" where
  "strsep d s =
     (case s of
        None \<Rightarrow> (None, None)
      | Some cs \<Rightarrow> (Some (takeWhile (\<lambda>c. c \<noteq> d) cs),
                    if d \<in> set cs then Some (tl (dropWhile (\<lambda>c. c \<noteq> d) cs)) else None))"

definition str_size :: "string option \<Rightarrow> nat" where
  "str_size s = (case s of None \<Rightarrow> 0 | Some cs \<Rightarrow> Suc (length cs))"

lemma strsep_decreases: "(Some p, s') = strsep d s \<Longrightarrow> str_size s' < str_size s"
proof -
  assume step: "(Some p, s') = strsep d s"
  have "length (tl (dropWhile (\<lambda>c. c \<noteq> d) cs)) < length cs" if "d \<in> set cs" for cs
  proof -
    have "dropWhile (\<lambda>c. c \<noteq> d) cs \<noteq> []" using that by (simp add: dropWhile_eq_Nil_conv)
    then have "length (tl (dropWhile (\<lambda>c. c \<noteq> d) cs)) < length (dropWhile (\<lambda>c. c \<noteq> d) cs)" by simp
    also have "\<dots> \<le> length cs" by (rule length_dropWhile_le)
    finally show ?thesis .
  qed
  then show ?thesis
    using step unfolding strsep_def str_size_def by (auto split: option.splits if_splits)
qed

definition MAX_PROP :: nat where
  "MAX_PROP = 40"

text \<open>The first loop of \<^verbatim>\<open>match_list\<close>: the server's proposals, at most \<^verbatim>\<open>MAX_PROP\<close> of them.\<close>

function sproposals :: "nat \<Rightarrow> string option \<Rightarrow> string list" where
  "sproposals i sp =
     (case strsep (CHR '','') sp of
        (None, _) \<Rightarrow> []
      | (Some p, sp') \<Rightarrow>
          if p = [] then [] else if i < MAX_PROP then p # sproposals (i + 1) sp' else [])"
  by pat_completeness auto
termination
  by (relation "measure (\<lambda>(i, sp). str_size sp)") (auto dest: strsep_decreases)

text \<open>
  The second loop: the client's items in turn. It returns the match and the rest of the
  client's string after it.
\<close>

function match_client :: "string list \<Rightarrow> string option \<Rightarrow> (string \<times> string option) option" where
  "match_client props cp =
     (case strsep (CHR '','') cp of
        (None, _) \<Rightarrow> None
      | (Some p, cp') \<Rightarrow>
          if p = [] then None
          else if p \<in> set props then Some (p, cp')
          else match_client props cp')"
  by pat_completeness auto
termination
  by (relation "measure (\<lambda>(ps, cp). str_size cp)") (auto dest: strsep_decreases)

declare sproposals.simps [simp del] match_client.simps [simp del]

text \<open>
  \<^verbatim>\<open>match_list(client, server, &next)\<close>: the item and \<open>next\<close>. By the time the code takes
  \<^verbatim>\<open>strlen(c)\<close>, \<^verbatim>\<open>strsep\<close> has overwritten the first comma of the copy \<open>c\<close> with a NUL.
\<close>

definition match_list :: "string \<Rightarrow> string \<Rightarrow> string option \<times> nat" where
  "match_list client server =
     (let strlen_c = length (takeWhile (\<lambda>c. c \<noteq> CHR '','') client)
      in case match_client (sproposals 0 (Some server)) (Some client) of
           Some (p, None) \<Rightarrow> (Some p, strlen_c)
         | Some (p, Some cp) \<Rightarrow> (Some p, length client - length cp)
         | None \<Rightarrow> (None, strlen_c))"

text \<open>
  \<^verbatim>\<open>filter_list\<close>: \<open>None\<close> when one of the two copies cannot be allocated. The buffer is as long
  as the proposal, so the \<^verbatim>\<open>strlcat\<close> calls never truncate.
\<close>

function filter_loop :: "string \<Rightarrow> bool \<Rightarrow> string \<Rightarrow> string option \<Rightarrow> string" where
  "filter_loop filt denylist fix_prop tmp =
     (case strsep (CHR '','') tmp of
        (None, _) \<Rightarrow> fix_prop
      | (Some cp, tmp') \<Rightarrow>
          (let r = match_pattern_list cp filt False
           in if (denylist \<and> r \<noteq> 1) \<or> (\<not> denylist \<and> r = 1) then
                filter_loop filt denylist
                  ((if fix_prop \<noteq> [] then fix_prop @ '','' else fix_prop) @ cp) tmp'
              else filter_loop filt denylist fix_prop tmp'))"
  by pat_completeness auto
termination
  by (relation "measure (\<lambda>(f, d, x, tmp). str_size tmp)") (auto dest: strsep_decreases)

declare filter_loop.simps [simp del]

definition filter_list :: "libc \<Rightarrow> string \<Rightarrow> string \<Rightarrow> bool \<Rightarrow> string option" where
  "filter_list lc proposal filt denylist =
     (if malloc lc (length proposal + 1) = None then None
      else Some (filter_loop filt denylist [] (Some proposal)))"

definition match_filter_denylist :: "libc \<Rightarrow> string \<Rightarrow> string \<Rightarrow> string option" where
  "match_filter_denylist lc proposal filt = filter_list lc proposal filt True"

definition match_filter_allowlist :: "libc \<Rightarrow> string \<Rightarrow> string \<Rightarrow> string option" where
  "match_filter_allowlist lc proposal filt = filter_list lc proposal filt False"

section \<open>Lists as sequences of items\<close>

fun split_on :: "char \<Rightarrow> string \<Rightarrow> string list" where
  "split_on d [] = [[]]"
| "split_on d (c # cs) =
     (if c = d then [] # split_on d cs
      else (case split_on d cs of [] \<Rightarrow> [[c]] | x # xs \<Rightarrow> (c # x) # xs))"

lemma split_on_ne [simp]: "split_on d s \<noteq> []"
  by (induction s) (auto split: list.splits)

lemma split_on_first:
  "split_on d s = takeWhile (\<lambda>c. c \<noteq> d) s #
     (if d \<in> set s then split_on d (tl (dropWhile (\<lambda>c. c \<noteq> d) s)) else [])"
  by (induction s) (auto split: list.splits)

definition tokens :: "string option \<Rightarrow> string list" where
  "tokens s = (case s of None \<Rightarrow> [] | Some cs \<Rightarrow> split_on (CHR '','') cs)"

lemma tokens_strsep:
  "strsep (CHR '','') s = (Some p, s') \<Longrightarrow> tokens s = p # tokens s'"
  "strsep (CHR '','') s = (None, s') \<Longrightarrow> tokens s = []"
proof -
  show "tokens s = p # tokens s'" if "strsep (CHR '','') s = (Some p, s')"
  proof (cases s)
    case (Some cs)
    then have "tokens s = takeWhile (\<lambda>c. c \<noteq> CHR '','') cs #
        (if CHR '','' \<in> set cs then split_on (CHR '','') (tl (dropWhile (\<lambda>c. c \<noteq> CHR '','') cs)) else [])"
      using split_on_first[of "CHR '',''" cs] by (simp add: tokens_def)
    then show ?thesis using that Some by (auto simp: strsep_def tokens_def)
  qed (use that in \<open>simp add: strsep_def\<close>)
  show "tokens s = []" if "strsep (CHR '','') s = (None, s')"
    using that by (auto simp: strsep_def tokens_def split: option.splits)
qed

text \<open>
  The names in a list, as the loops over \<^verbatim>\<open>strsep\<close> that stop at an empty name see them.
\<close>

definition names :: "string \<Rightarrow> string list" where
  "names s = takeWhile (\<lambda>p. p \<noteq> []) (split_on (CHR '','') s)"

lemma sproposals_tokens:
  "sproposals i sp = take (MAX_PROP - i) (takeWhile (\<lambda>p. p \<noteq> []) (tokens sp))"
proof (induction i sp rule: sproposals.induct)
  case (1 i sp)
  obtain t sp' where step: "strsep (CHR '','') sp = (t, sp')" by fastforce
  show ?case
  proof (cases t)
    case None
    then show ?thesis using step tokens_strsep(2)[of sp sp'] by (simp add: sproposals.simps[of i])
  next
    case (Some p)
    note tok = tokens_strsep(1)[OF step[unfolded Some]]
    show ?thesis
    proof (cases "p \<noteq> [] \<and> i < MAX_PROP")
      case True
      then have "MAX_PROP - i = Suc (MAX_PROP - (i + 1))" by (simp add: Suc_diff_Suc)
      then show ?thesis
        using 1[OF step[symmetric] Some] True step Some tok by (simp add: sproposals.simps[of i])
    next
      case False
      then show ?thesis using step Some tok by (auto simp: sproposals.simps[of i])
    qed
  qed
qed

lemma match_client_tokens:
  "map_option fst (match_client props cp) = find (\<lambda>p. p \<in> set props) (takeWhile (\<lambda>p. p \<noteq> []) (tokens cp))"
proof (induction props cp rule: match_client.induct)
  case (1 props cp)
  obtain t cp' where step: "strsep (CHR '','') cp = (t, cp')" by fastforce
  show ?case
  proof (cases t)
    case None
    then show ?thesis using step tokens_strsep(2)[of cp cp'] by (simp add: match_client.simps[of props cp])
  next
    case (Some p)
    then show ?thesis
      using 1[OF step[symmetric] Some] step tokens_strsep(1)[OF step[unfolded Some]]
      by (simp add: match_client.simps[of props cp])
  qed
qed

lemma match_list_find:
  "fst (match_list client server) =
     find (\<lambda>p. p \<in> set (take MAX_PROP (names server))) (names client)"
proof -
  have "fst (match_list client server) = map_option fst (match_client (sproposals 0 (Some server)) (Some client))"
    by (auto simp: match_list_def Let_def split: option.splits)
  also have "\<dots> = find (\<lambda>p. p \<in> set (take MAX_PROP (names server))) (names client)"
    unfolding match_client_tokens by (simp add: sproposals_tokens names_def tokens_def)
  finally show ?thesis .
qed

text \<open>What is left of the client's string after a match.\<close>

lemma match_client_rest:
  "match_client props cp = Some (p, cp') \<Longrightarrow>
   tokens cp' = tl (dropWhile (\<lambda>p. p \<notin> set props) (tokens cp)) \<and>
   (\<forall>r. cp' = Some r \<longrightarrow> (\<exists>pre. cp = Some (pre @ r)))"
proof (induction props cp rule: match_client.induct)
  case (1 props cp)
  obtain t cp1 where step: "strsep (CHR '','') cp = (t, cp1)" by fastforce
  then obtain q where t: "t = Some q" "q \<noteq> []"
    using "1.prems" by (auto simp: match_client.simps[of props cp] split: option.splits if_splits)
  note tok = tokens_strsep(1)[OF step[unfolded t]]
  have suf: "\<exists>pre. cp = Some (pre @ r)" if "cp1 = Some r" for r
  proof -
    have "cp \<noteq> None" using step t by (auto simp: strsep_def split: option.splits)
    then obtain cs where cs: "cp = Some cs" by blast
    then have "r = tl (dropWhile (\<lambda>c. c \<noteq> CHR '','') cs)"
      using step that by (auto simp: strsep_def split: if_splits)
    moreover have "\<exists>pre. cs = pre @ tl (dropWhile P cs)" for P
      by (metis append_take_drop_id drop_Suc dropWhile_eq_drop tl_drop)
    ultimately show ?thesis using cs by metis
  qed
  show ?case
  proof (cases "q \<in> set props")
    case True
    then show ?thesis
      using "1.prems" step t tok suf by (auto simp: match_client.simps[of props cp])
  next
    case False
    then have rec: "match_client props cp1 = Some (p, cp')"
      using "1.prems" step t by (simp add: match_client.simps[of props cp])
    note ih = "1.IH"[OF step[symmetric] t False rec]
    moreover have "\<exists>pre. cp = Some (pre @ r)" if "cp' = Some r" for r
    proof -
      obtain pre1 where "cp1 = Some (pre1 @ r)" using ih \<open>cp' = Some r\<close> by blast
      from suf[OF this] show ?thesis by (metis append.assoc)
    qed
    ultimately show ?thesis using False tok by simp
  qed
qed

lemma names_tokens: "names s = takeWhile (\<lambda>p. p \<noteq> []) (tokens (Some s))"
  by (simp add: names_def tokens_def)

lemma takeWhile_resume:
  "dropWhile P (takeWhile Q xs) \<noteq> [] \<Longrightarrow> takeWhile Q (tl (dropWhile P xs)) = tl (dropWhile P (takeWhile Q xs))"
  by (induction xs) (auto split: if_splits)

lemma find_dropWhile: "find P xs = Some x \<Longrightarrow> dropWhile (\<lambda>x. \<not> P x) xs \<noteq> []"
  by (induction xs) (auto split: if_splits)

text \<open>Where a list is cut after its first name, no further names follow.\<close>

lemma names_drop_first: "names (drop (length (takeWhile (\<lambda>c. c \<noteq> CHR '','') s)) s) = []"
proof -
  have "dropWhile (\<lambda>c. c \<noteq> CHR '','') s = [] \<or> (\<exists>r. dropWhile (\<lambda>c. c \<noteq> CHR '','') s = CHR '','' # r)"
    by (induction s) auto
  moreover have "drop (length (takeWhile (\<lambda>c. c \<noteq> CHR '','') s)) s = dropWhile (\<lambda>c. c \<noteq> CHR '','') s"
    by (rule dropWhile_eq_drop[symmetric])
  ultimately show ?thesis by (elim disjE exE) (simp_all add: names_def)
qed

lemma match_list_next:
  assumes run: "match_list client server = (r, next)"
  shows "names (drop next client) =
    (if r = None then [] else tl (dropWhile (\<lambda>p. p \<notin> set (take MAX_PROP (names server))) (names client)))"
proof -
  define props where "props = sproposals 0 (Some server)"
  have props: "props = take MAX_PROP (names server)"
    by (simp add: props_def sproposals_tokens names_def tokens_def)
  have find: "map_option fst (match_client props (Some client)) = find (\<lambda>p. p \<in> set props) (names client)"
    by (simp add: match_client_tokens names_tokens)
  consider (none) "match_client props (Some client) = None"
    | (last) p where "match_client props (Some client) = Some (p, None)"
    | (more) p cp where "match_client props (Some client) = Some (p, Some cp)"
  proof (cases "match_client props (Some client)")
    case (Some pc)
    then show ?thesis using last more by (cases pc; cases "snd pc") auto
  qed (rule none)
  then show ?thesis
  proof cases
    case none
    then show ?thesis
      using run by (auto simp: match_list_def props_def[symmetric] names_drop_first)
  next
    case last
    have "tl (dropWhile (\<lambda>p. p \<notin> set props) (tokens (Some client))) = []"
      using match_client_rest[OF last] by (simp add: tokens_def)
    moreover have "dropWhile (\<lambda>p. p \<notin> set props) (names client) \<noteq> []"
      using find last find_dropWhile[of "\<lambda>p. p \<in> set props" "names client" p] by simp
    ultimately show ?thesis
      using run last takeWhile_resume[of "\<lambda>p. p \<notin> set props" "\<lambda>p. p \<noteq> []" "tokens (Some client)"]
      by (auto simp: match_list_def props_def[symmetric] names_drop_first names_tokens[symmetric] props[symmetric])
  next
    case more
    obtain pre where pre: "client = pre @ cp" using match_client_rest[OF more] by auto
    have "dropWhile (\<lambda>p. p \<notin> set props) (names client) \<noteq> []"
      using find more find_dropWhile[of "\<lambda>p. p \<in> set props" "names client" p] by simp
    then have "names cp = tl (dropWhile (\<lambda>p. p \<notin> set props) (names client))"
      using takeWhile_resume[of "\<lambda>p. p \<notin> set props" "\<lambda>p. p \<noteq> []" "tokens (Some client)"]
        match_client_rest[OF more] by (simp add: names_tokens)
    then show ?thesis
      using run more by (auto simp: match_list_def props_def[symmetric] pre props[symmetric])
  qed
qed

section \<open>Pattern lists as lists of items\<close>

text \<open>The items of a pattern list; a trailing comma does not start another one.\<close>

definition items :: "string \<Rightarrow> string list" where
  "items p = (let ts = split_on (CHR '','') p in if last ts = [] then butlast ts else ts)"

definition negated :: "string \<Rightarrow> bool" where
  "negated i \<longleftrightarrow> i \<noteq> [] \<and> hd i = CHR ''!''"

definition body :: "string \<Rightarrow> string" where
  "body i = (if negated i then tl i else i)"

definition hit :: "string \<Rightarrow> bool \<Rightarrow> string \<Rightarrow> bool" where
  "hit s dolower i =
     wildcard (map (\<lambda>c. if dolower \<and> isupper c then tolower c else c) (body i)) s"

fun verdict :: "string \<Rightarrow> bool \<Rightarrow> int \<Rightarrow> string list \<Rightarrow> int" where
  "verdict s d g [] = g"
| "verdict s d g (i # is) =
     (if length (body i) \<ge> 1023 then 0
      else if hit s d i then (if negated i then -1 else verdict s d 1 is)
      else verdict s d g is)"

lemma items_Nil [simp]: "items [] = []"
  by (simp add: items_def)

lemma items_step:
  assumes "xs \<noteq> []"
  defines "i \<equiv> takeWhile (\<lambda>c. c \<noteq> CHR '','') xs"
  defines "r \<equiv> drop (length i) xs"
  shows "items xs = i # items (if r \<noteq> [] \<and> hd r = CHR '','' then tl r else r)"
proof -
  have r: "r = dropWhile (\<lambda>c. c \<noteq> CHR '','') xs"
    unfolding r_def i_def by (rule dropWhile_eq_drop[symmetric])
  show ?thesis
  proof (cases "CHR '','' \<in> set xs")
    case True
    have "r \<noteq> []" using True by (simp add: r dropWhile_eq_Nil_conv)
    moreover have "hd r = CHR '',''" using hd_dropWhile[of "\<lambda>c. c \<noteq> CHR '',''" xs] \<open>r \<noteq> []\<close> by (simp add: r)
    moreover have "split_on (CHR '','') xs = i # split_on (CHR '','') (tl r)"
      using split_on_first[of "CHR '',''" xs] True by (simp add: i_def r)
    ultimately show ?thesis by (simp add: items_def Let_def)
  next
    case False
    then have "split_on (CHR '','') xs = [xs]" "i = xs"
      using split_on_first[of "CHR '',''" xs] by (auto simp: i_def takeWhile_eq_all_conv)
    then show ?thesis using assms(1) by (simp add: items_def r_def)
  qed
qed

lemma takeWhile_take: "takeWhile P (take n xs) = take n (takeWhile P xs)"
  by (induction xs arbitrary: n) (auto simp: take_Cons split: nat.splits)

lemma match_pattern_list_from_verdict:
  "match_pattern_list_from s d g xs = verdict s d g (items xs)"
proof (induction s d g xs rule: match_pattern_list_from.induct)
  case (1 s d g)
  then show ?case by simp
next
  case (2 s d g x xs)
  define neg where "neg = (x = CHR ''!'')"
  define rest where "rest = (if neg then xs else x # xs)"
  define b where "b = takeWhile (\<lambda>c. c \<noteq> CHR '','') rest"
  define r where "r = drop (length b) rest"
  define rest2 where "rest2 = (if r \<noteq> [] \<and> hd r = CHR '','' then tl r else r)"
  have i: "takeWhile (\<lambda>c. c \<noteq> CHR '','') (x # xs) = (if neg then x # b else b)"
    and dr: "drop (length (takeWhile (\<lambda>c. c \<noteq> CHR '','') (x # xs))) (x # xs) = r"
    by (auto simp: neg_def rest_def b_def r_def)
  define it where "it = (if neg then x # b else b)"
  have step: "items (x # xs) = it # items rest2"
    using items_step[of "x # xs", unfolded dr, unfolded i, folded it_def rest2_def] by simp
  have bd: "negated it = neg" "body it = b"
    by (auto simp: it_def negated_def body_def neg_def b_def rest_def)
  show ?case
  proof (cases "length b \<ge> 1023")
    case True
    then have "length (takeWhile (\<lambda>c. c \<noteq> CHR '','') (take 1023 rest)) = 1023"
      by (simp add: takeWhile_take b_def)
    then show ?thesis
      using True step bd by (simp add: neg_def[symmetric] rest_def[symmetric] Let_def)
  next
    case False
    then have tk: "takeWhile (\<lambda>c. c \<noteq> CHR '','') (take 1023 rest) = b"
      by (simp add: takeWhile_take b_def)
    show ?thesis
      using False step bd 2[OF neg_def rest_def tk[symmetric] refl refl refl rest2_def[unfolded r_def]]
      unfolding match_pattern_list_from.simps neg_def[symmetric] rest_def[symmetric] tk Let_def
        r_def[symmetric] rest2_def[symmetric]
      by (simp add: hit_def match_pattern_wildcard)
  qed
qed

text \<open>
  The verdict in closed form: a negated item that matches before any overlong item wins,
  then an overlong item, then a positive match.
\<close>

definition pattern_list_spec :: "string \<Rightarrow> bool \<Rightarrow> string list \<Rightarrow> int" where
  "pattern_list_spec s d is =
     (let short = takeWhile (\<lambda>i. length (body i) < 1023) is
      in if list_ex (\<lambda>i. negated i \<and> hit s d i) short then -1
         else if length short < length is then 0
         else if list_ex (hit s d) is then 1 else 0)"

lemma verdict_closed:
  "g = 0 \<or> g = 1 \<Longrightarrow> verdict s d g is =
     (let short = takeWhile (\<lambda>i. length (body i) < 1023) is
      in if list_ex (\<lambda>i. negated i \<and> hit s d i) short then -1
         else if length short < length is then 0
         else if list_ex (hit s d) is then 1 else g)"
  by (induction "is" arbitrary: g) (auto simp: Let_def)

lemma match_pattern_list_closed: "match_pattern_list s pattern d = pattern_list_spec s d (items pattern)"
  unfolding match_pattern_list_def match_pattern_list_from_verdict pattern_list_spec_def
  by (rule verdict_closed) simp

section \<open>Filters\<close>

fun join :: "char \<Rightarrow> string list \<Rightarrow> string" where
  "join d [] = []"
| "join d [x] = x"
| "join d (x # y # ys) = x @ d # join d (y # ys)"

lemma join_merge: "join d (x # y # ys) = join d ((x @ d # y) # ys)"
  by (cases ys) auto

lemma split_join: "(\<And>x. x \<in> set xs \<Longrightarrow> d \<notin> set x) \<Longrightarrow> xs \<noteq> [] \<Longrightarrow> split_on d (join d xs) = xs"
proof (induction d xs rule: join.induct)
  case (3 d x y ys)
  have app: "d \<notin> set x \<Longrightarrow> split_on d (x @ d # zs) = x # split_on d zs" for x zs
    by (induction x) auto
  show ?case using 3 app[of x "join d (y # ys)"] by simp
next
  case (2 d x)
  then have "d \<notin> set x" by simp
  then show ?case by (induction x) auto
qed simp

lemma split_no_sep: "x \<in> set (split_on d s) \<Longrightarrow> d \<notin> set x"
  by (induction s arbitrary: x) (auto split: if_splits list.splits)

lemma join_split: "join d (split_on d s) = s"
proof (induction s)
  case (Cons c s)
  obtain x xs where sp: "split_on d s = x # xs" by (cases "split_on d s") auto
  with Cons show ?case by (cases xs) auto
qed simp

lemma length_join: "length (join d xs) = sum_list (map length xs) + length xs - 1"
  by (induction d xs rule: join.induct) auto

text \<open>Dropping items of a list makes it shorter, so the filters' buffer is large enough.\<close>

lemma length_join_filter: "length (join d (filter P (split_on d s))) \<le> length s"
proof -
  have "sum_list (map length (filter P xs)) + length (filter P xs) \<le> sum_list (map length xs) + length xs" for xs
    by (induction xs) auto
  then have "length (join d (filter P (split_on d s))) \<le> length (join d (split_on d s))"
    unfolding length_join by (rule diff_le_mono)
  then show ?thesis by (simp add: join_split)
qed

definition kept :: "string \<Rightarrow> bool \<Rightarrow> string \<Rightarrow> bool" where
  "kept filt denylist cp \<longleftrightarrow> (match_pattern_list cp filt False = 1) \<noteq> denylist"

text \<open>Empty items at the front of the result leave no comma behind.\<close>

lemma filter_loop_items:
  "filter_loop filt deny x tmp =
   (let F = filter (kept filt deny) (tokens tmp)
    in join (CHR '','') (if x = [] then dropWhile (\<lambda>i. i = []) F else x # F))"
proof (induction filt deny x tmp rule: filter_loop.induct)
  case (1 filt deny x tmp)
  obtain t tmp' where step: "strsep (CHR '','') tmp = (t, tmp')" by fastforce
  show ?case
  proof (cases t)
    case None
    then show ?thesis using step tokens_strsep(2)[of tmp tmp'] by (simp add: filter_loop.simps[of filt deny x tmp] Let_def)
  next
    case (Some cp)
    note tok = tokens_strsep(1)[OF step[unfolded Some]]
    show ?thesis
    proof (cases "kept filt deny cp")
      case True
      then have keep: "(deny \<and> match_pattern_list cp filt False \<noteq> 1) \<or> (\<not> deny \<and> match_pattern_list cp filt False = 1)"
        by (auto simp: kept_def)
      have "filter_loop filt deny x tmp =
          filter_loop filt deny ((if x \<noteq> [] then x @ '','' else x) @ cp) tmp'"
        using step Some keep by (simp add: filter_loop.simps[of filt deny x tmp] Let_def)
      then show ?thesis
        using 1(1)[OF step[symmetric] Some refl keep] True tok join_merge[of "CHR '',''" x cp] by (auto simp: Let_def)
    next
      case False
      then have keep: "\<not> ((deny \<and> match_pattern_list cp filt False \<noteq> 1) \<or> (\<not> deny \<and> match_pattern_list cp filt False = 1))"
        by (auto simp: kept_def)
      then have "filter_loop filt deny x tmp = filter_loop filt deny x tmp'"
        using step Some by (auto simp: filter_loop.simps[of filt deny x tmp] Let_def)
      then show ?thesis
        using 1(2)[OF step[symmetric] Some refl keep] False tok by simp
    qed
  qed
qed

lemma filter_loop_join:
  "[] \<notin> set (tokens tmp) \<Longrightarrow>
   filter_loop filt deny x tmp = join (CHR '','') ((if x = [] then [] else [x]) @ filter (kept filt deny) (tokens tmp))"
proof -
  assume "[] \<notin> set (tokens tmp)"
  then have "dropWhile (\<lambda>i. i = []) (filter (kept filt deny) (tokens tmp)) = filter (kept filt deny) (tokens tmp)"
    using hd_in_set[of "filter (kept filt deny) (tokens tmp)"] by (auto simp: dropWhile_eq_self_iff)
  then show ?thesis by (simp add: filter_loop_items Let_def)
qed

section \<open>Properties\<close>

text \<open>
  C11. \<^verbatim>\<open>match_pattern\<close>, which simulates a nondeterministic automaton with sets of states, accepts
  exactly the strings the wildcard pattern describes: \<^verbatim>\<open>*\<close> any string, \<^verbatim>\<open>?\<close> any one character,
  and every other character itself.
\<close>

theorem match_pattern_correct: "match_pattern s pattern \<longleftrightarrow> wildcard pattern s"
  by (rule match_pattern_wildcard)

text \<open>
  C12. \<^verbatim>\<open>match_pattern_list\<close> evaluates a comma-separated list of patterns as its items say: it
  returns -1 if a negated item matches, else 1 if a positive item matches, else 0. An item
  of 1023 characters or more makes it return 0, except when a negated item before it matched.
\<close>

theorem match_pattern_list_correct:
  "match_pattern_list s pattern dolower = pattern_list_spec s dolower (items pattern)"
  by (rule match_pattern_list_closed)

text \<open>
  C13. \<^verbatim>\<open>match_list\<close>, which picks the algorithms of a connection and the next authentication
  method, returns the client's first name that is among the first \<^verbatim>\<open>MAX_PROP\<close> names of the
  server, and \<open>next\<close> points to where the search can be resumed: the names from there on are
  those of the client after the match, and there are none if nothing matched.
\<close>

theorem match_list_correct:
  "match_list client server = (r, next) \<Longrightarrow>
   r = find (\<lambda>p. p \<in> set (take MAX_PROP (names server))) (names client) \<and>
   names (drop next client) =
     (if r = None then []
      else tl (dropWhile (\<lambda>p. p \<notin> set (take MAX_PROP (names server))) (names client)))"
  using match_list_next[of client server r "next"] match_list_find[of client server] by simp

theorem match_list_correct_witness:
  "match_list ''gssapi,publickey,password'' ''password,publickey'' = (Some ''publickey'', 17) \<and>
   names (drop 17 ''gssapi,publickey,password'') = [''password'']"
proof -
  have run: "match_list ''gssapi,publickey,password'' ''password,publickey'' = (Some ''publickey'', 17)"
    by code_simp
  have "names ''gssapi,publickey,password'' = [''gssapi'', ''publickey'', ''password'']"
    "take MAX_PROP (names ''password,publickey'') = [''password'', ''publickey'']"
    by (simp_all add: names_def MAX_PROP_def)
  then show ?thesis using match_list_correct[OF run] run by simp
qed

text \<open>
  C14. Filtering a list without empty names keeps exactly the names the pattern list does not
  match (denylist) or does match (allowlist), in their order, and fits the buffer.
\<close>

theorem filter_list_correct:
  assumes "[] \<notin> set (split_on (CHR '','') proposal)" and "malloc lc (length proposal + 1) \<noteq> None"
  shows "filter_list lc proposal filt denylist =
      Some (join (CHR '','') (filter (kept filt denylist) (split_on (CHR '','') proposal))) \<and>
    (filter (kept filt denylist) (split_on (CHR '','') proposal) \<noteq> [] \<longrightarrow>
      split_on (CHR '','') (the (filter_list lc proposal filt denylist)) =
        filter (kept filt denylist) (split_on (CHR '','') proposal)) \<and>
    length (the (filter_list lc proposal filt denylist)) \<le> length proposal"
proof -
  have "filter_list lc proposal filt denylist =
      Some (join (CHR '','') (filter (kept filt denylist) (split_on (CHR '','') proposal)))"
    using assms filter_loop_join[of "Some proposal" filt denylist "[]"]
    by (simp add: filter_list_def tokens_def)
  moreover have "split_on (CHR '','') (join (CHR '','') xs) = xs"
    if "xs \<noteq> []" "set xs \<subseteq> set (split_on (CHR '','') proposal)" for xs
    using that by (intro split_join) (auto dest: split_no_sep)
  ultimately show ?thesis by (auto simp: length_join_filter)
qed

definition lc_match :: libc where
  "lc_match = \<lparr>malloc = (\<lambda>n. Some 4096), pagesize = 4096\<rparr>"

theorem filter_list_correct_witness:
  "filter_list lc_match ''aes,des,aes2'' ''aes*'' True = Some ''des''"
proof -
  have "filter (kept ''aes*'' True) [''aes'', ''des'', ''aes2''] = [''des'']" by code_simp
  then show ?thesis
    using filter_list_correct[of "''aes,des,aes2''" lc_match "''aes*''" True] by (simp add: lc_match_def)
qed

end
