(* ===== verification/AddrMatch.thy ===== *)
theory AddrMatch
  imports Addr Match
begin

text \<open>
  Matching addresses, hosts and users against lists, \<^verbatim>\<open>addrmatch.c\<close> and the two functions of
  \<^verbatim>\<open>match.c\<close> that call it. The loops over \<^verbatim>\<open>strsep\<close> are related to the entries of the list, and the
  CIDR and wildcard tests to what they mean.
\<close>

section \<open>Address lists\<close>

text \<open>
  The loop of \<^verbatim>\<open>addr_match_list\<close>. \<open>addr\<close> is the address as it was given and as it was parsed,
  \<^const>\<open>None\<close> when only the list is checked; \<open>r\<close> is \<^verbatim>\<open>ret\<close>.
\<close>

function addr_list_loop ::
  "getaddrinfo \<Rightarrow> (string \<times> xaddr) option \<Rightarrow> string option \<Rightarrow> int \<Rightarrow> int" where
  "addr_list_loop gai addr list r =
     (case strsep (CHR '','') list of
        (None, _) \<Rightarrow> r
      | (Some cp0, list') \<Rightarrow>
          (let neg = (cp0 \<noteq> [] \<and> hd cp0 = CHR ''!''); cp = (if neg then tl cp0 else cp0)
           in if cp = [] then -2
              else
                (case addr_pton_cidr gai cp of
                   Inr (match_addr, masklen) \<Rightarrow>
                     if (case addr of None \<Rightarrow> False
                         | Some (s, try_addr) \<Rightarrow> addr_netmatch try_addr match_addr masklen = 0)
                     then if neg then -1 else addr_list_loop gai addr list' 1
                     else addr_list_loop gai addr list' r
                 | Inl e \<Rightarrow>
                     if e = -2 then -2
                     else if (case addr of None \<Rightarrow> False | Some (s, try_addr) \<Rightarrow> match_pattern s cp)
                     then if neg then -1 else addr_list_loop gai addr list' 1
                     else addr_list_loop gai addr list' r)))"
  by pat_completeness auto
termination
  by (relation "measure (\<lambda>(gai, addr, list, r). str_size list)") (auto dest: strsep_decreases)

declare addr_list_loop.simps [simp del]

definition addr_match_list :: "getaddrinfo \<Rightarrow> libc \<Rightarrow> string option \<Rightarrow> string \<Rightarrow> int" where
  "addr_match_list gai lc addr list =
     (case addr of
        None \<Rightarrow>
          if malloc lc (length list + 1) = None then -1 else addr_list_loop gai None (Some list) 0
      | Some s \<Rightarrow>
          (case addr_pton gai s of
             None \<Rightarrow> 0
           | Some try_addr \<Rightarrow>
               if malloc lc (length list + 1) = None then -1
               else addr_list_loop gai (Some (s, try_addr)) (Some list) 0))"

definition INET6_ADDRSTRLEN :: nat where
  "INET6_ADDRSTRLEN = 46"

definition VALID_CIDR_CHARS :: string where
  "VALID_CIDR_CHARS = ''0123456789abcdefABCDEF.:/''"

function cidr_list_loop :: "getaddrinfo \<Rightarrow> xaddr option \<Rightarrow> string option \<Rightarrow> int \<Rightarrow> int" where
  "cidr_list_loop gai addr list r =
     (case strsep (CHR '','') list of
        (None, _) \<Rightarrow> r
      | (Some cp, list') \<Rightarrow>
          if cp = [] then -1
          else if length cp > INET6_ADDRSTRLEN + 3 then -1
          else
            (let r1 = (if length (takeWhile (\<lambda>c. c \<in> set VALID_CIDR_CHARS) cp) \<noteq> length cp then -1 else r)
             in case addr_pton_cidr gai cp of
                  Inl e \<Rightarrow> -1
                | Inr (match_addr, masklen) \<Rightarrow>
                    (case addr of
                       None \<Rightarrow> cidr_list_loop gai addr list' r1
                     | Some try_addr \<Rightarrow>
                         if addr_netmatch try_addr match_addr masklen = 0
                         then cidr_list_loop gai addr list' 1 else cidr_list_loop gai addr list' r1)))"
  by pat_completeness auto
termination
  by (relation "measure (\<lambda>(gai, addr, list, r). str_size list)") (auto dest: strsep_decreases)

declare cidr_list_loop.simps [simp del]

definition addr_match_cidr_list :: "getaddrinfo \<Rightarrow> libc \<Rightarrow> string option \<Rightarrow> string \<Rightarrow> int" where
  "addr_match_cidr_list gai lc addr list =
     (case addr of
        None \<Rightarrow>
          if malloc lc (length list + 1) = None then -1 else cidr_list_loop gai None (Some list) 0
      | Some s \<Rightarrow>
          (case addr_pton gai s of
             None \<Rightarrow> 0
           | Some try_addr \<Rightarrow>
               if malloc lc (length list + 1) = None then -1
               else cidr_list_loop gai (Some try_addr) (Some list) 0))"

section \<open>Hosts and users\<close>

definition match_host_and_ip ::
  "getaddrinfo \<Rightarrow> libc \<Rightarrow> string option \<Rightarrow> string option \<Rightarrow> string \<Rightarrow> int" where
  "match_host_and_ip gai lc host ipaddr patterns =
     (let mip = addr_match_list gai lc ipaddr patterns
      in if mip = -2 then -1
         else if host = None \<or> ipaddr = None \<or> mip = -1 then 0
         else
           (let mhost = match_hostname (the host) patterns
            in if mhost = -1 then 0 else if mhost = 0 \<and> mip = 0 then 0 else 1))"

text \<open>
  \<^verbatim>\<open>strrchr(s, c)\<close>: the characters before and after the last \<open>c\<close>.
\<close>

definition strrchr :: "string \<Rightarrow> char \<Rightarrow> (string \<times> string) option" where
  "strrchr s c =
     (if c \<in> set s
      then Some (rev (tl (dropWhile (\<lambda>x. x \<noteq> c) (rev s))), rev (takeWhile (\<lambda>x. x \<noteq> c) (rev s)))
      else None)"

definition match_user ::
  "getaddrinfo \<Rightarrow> libc \<Rightarrow> string option \<Rightarrow> string option \<Rightarrow> string option \<Rightarrow> string \<Rightarrow> int" where
  "match_user gai lc user host ipaddr pattern =
     (if user = None \<and> host = None \<and> ipaddr = None then
        (case strrchr pattern (CHR ''@'') of
           Some (_, p) \<Rightarrow> if match_host_and_ip gai lc None None p < 0 then -1 else 0
         | None \<Rightarrow> 0)
      else
        (case user of
           None \<Rightarrow> 0
         | Some u \<Rightarrow>
             (case strrchr pattern (CHR ''@'') of
                None \<Rightarrow> if match_pattern u pattern then 1 else 0
              | Some (pat, p) \<Rightarrow>
                  if match_pattern u pat then match_host_and_ip gai lc host ipaddr p else 0)))"

section \<open>What the lists mean\<close>

text \<open>The entries of a list, without the negation, and whether they are negated.\<close>

definition entry :: "string \<Rightarrow> bool \<times> string" where
  "entry s = (if s \<noteq> [] \<and> hd s = CHR ''!'' then (True, tl s) else (False, s))"

text \<open>An entry is invalid if it is empty or a network whose mask does not fit its address.\<close>

definition invalid_entry :: "getaddrinfo \<Rightarrow> string \<Rightarrow> bool" where
  "invalid_entry gai s \<longleftrightarrow> snd (entry s) = [] \<or> addr_pton_cidr gai (snd (entry s)) = Inl (-2)"

text \<open>An entry covers an address as a network that contains it, or as a wildcard pattern.\<close>

definition covers :: "getaddrinfo \<Rightarrow> string \<Rightarrow> xaddr \<Rightarrow> string \<Rightarrow> bool" where
  "covers gai s a e \<longleftrightarrow>
     (case addr_pton_cidr gai (snd (entry e)) of
        Inr (net, l) \<Rightarrow> in_network a net l
      | Inl _ \<Rightarrow> wildcard (snd (entry e)) s)"

definition addr_list_verdict :: "getaddrinfo \<Rightarrow> string \<Rightarrow> xaddr \<Rightarrow> string list \<Rightarrow> int" where
  "addr_list_verdict gai s a es =
     (case find (\<lambda>e. invalid_entry gai e \<or> (fst (entry e) \<and> covers gai s a e)) es of
        Some e \<Rightarrow> if invalid_entry gai e then -2 else -1
      | None \<Rightarrow> if list_ex (covers gai s a) es then 1 else 0)"

lemma pton_cidr_Inl: "addr_pton_cidr gai p = Inl e \<Longrightarrow> e = -1 \<or> e = -2"
  by (auto simp: addr_pton_cidr_def Let_def split: if_splits sum.splits option.splits)

lemma covers_netmatch:
  assumes "wf_xaddr a" and "addr_pton_cidr gai (snd (entry e)) = Inr (net, l)"
  shows "addr_netmatch a net l = 0 \<longleftrightarrow> covers gai s a e"
  using netmatch_in_network[OF assms(1)] pton_cidr_Inr[OF assms(2)] assms(2) by (simp add: covers_def)

text \<open>One step of the loop, by the entry it looks at.\<close>

lemma addr_list_loop_step:
  assumes wf: "wf_xaddr a" and tok: "strsep (CHR '','') list = (Some e, list')"
  shows "addr_list_loop gai (Some (s, a)) list r =
    (if invalid_entry gai e then -2
     else if covers gai s a e then if fst (entry e) then -1 else addr_list_loop gai (Some (s, a)) list' 1
     else addr_list_loop gai (Some (s, a)) list' r)"
proof (cases "addr_pton_cidr gai (snd (entry e))")
  case (Inl x)
  then show ?thesis
    using tok pton_cidr_Inl[OF Inl] unfolding addr_list_loop.simps[of gai "Some (s, a)" list]
    by (auto simp: entry_def invalid_entry_def covers_def match_pattern_wildcard Let_def split: if_splits)
next
  case (Inr nl)
  obtain net l where nl: "nl = (net, l)" by fastforce
  show ?thesis
    using tok Inr covers_netmatch[OF wf Inr[unfolded nl], of s]
    unfolding addr_list_loop.simps[of gai "Some (s, a)" list] nl
    by (auto simp: entry_def invalid_entry_def Let_def split: if_splits)
qed

lemma addr_list_loop_verdict:
  assumes wf: "wf_xaddr a"
  shows "addr_list_loop gai (Some (s, a)) list r =
    (let v = addr_list_verdict gai s a (tokens list) in if v = 0 then r else v)"
proof (induction list arbitrary: r rule: measure_induct_rule[of str_size])
  case (less list)
  obtain t list' where step: "strsep (CHR '','') list = (t, list')" by fastforce
  show ?case
  proof (cases t)
    case None
    then show ?thesis using step tokens_strsep(2)[of list list']
      by (simp add: addr_list_loop.simps[of gai "Some (s, a)" list] addr_list_verdict_def)
  next
    case (Some e)
    note IH = less.IH[of list', OF strsep_decreases[of e list' "CHR '',''" list]]
    show ?thesis
      using addr_list_loop_step[OF wf step[unfolded Some], of gai s r] tokens_strsep(1)[OF step[unfolded Some]]
        IH[of r] IH[of 1] step Some
      by (auto simp: addr_list_verdict_def Let_def split: option.splits)
  qed
qed

text \<open>The entries of a CIDR list that make it invalid.\<close>

definition invalid_cidr :: "getaddrinfo \<Rightarrow> string \<Rightarrow> bool" where
  "invalid_cidr gai e \<longleftrightarrow> e = [] \<or> length e > INET6_ADDRSTRLEN + 3 \<or> isl (addr_pton_cidr gai e)"

definition cidr_contains :: "getaddrinfo \<Rightarrow> xaddr \<Rightarrow> string \<Rightarrow> bool" where
  "cidr_contains gai a e \<longleftrightarrow>
     (case addr_pton_cidr gai e of Inr (net, l) \<Rightarrow> in_network a net l | Inl _ \<Rightarrow> False)"

lemma valid_chars_length:
  "length (takeWhile (\<lambda>c. c \<in> A) cp) = length cp \<longleftrightarrow> set cp \<subseteq> A"
  by (metis length_takeWhile_le nth_mem set_takeWhileD subsetI subset_eq takeWhile_eq_all_conv takeWhile_eq_take take_all le_refl)

lemma cidr_list_step:
  assumes wf: "wf_xaddr a" and tok: "strsep (CHR '','') list = (Some e, list')"
  shows "cidr_list_loop gai (Some a) list r =
    (if invalid_cidr gai e then -1
     else if cidr_contains gai a e then cidr_list_loop gai (Some a) list' 1
     else cidr_list_loop gai (Some a) list' (if set e \<subseteq> set VALID_CIDR_CHARS then r else -1))"
proof (cases "addr_pton_cidr gai e")
  case (Inl x)
  then show ?thesis
    using tok unfolding cidr_list_loop.simps[of gai "Some a" list] by (simp add: invalid_cidr_def)
next
  case (Inr nl)
  obtain net l where nl: "nl = (net, l)" by fastforce
  have "addr_netmatch a net l = 0 \<longleftrightarrow> cidr_contains gai a e"
    using netmatch_in_network[OF wf] pton_cidr_Inr[OF Inr[unfolded nl]] Inr nl by (simp add: cidr_contains_def)
  then show ?thesis
    using tok Inr unfolding cidr_list_loop.simps[of gai "Some a" list] nl
    by (simp add: invalid_cidr_def valid_chars_length Let_def)
qed

lemma cidr_list_loop_spec:
  assumes wf: "wf_xaddr a"
  shows "r \<in> {0, 1} \<Longrightarrow> (\<And>e. e \<in> set (tokens list) \<Longrightarrow> set e \<subseteq> set VALID_CIDR_CHARS) \<Longrightarrow>
    cidr_list_loop gai (Some a) list r =
    (if list_ex (invalid_cidr gai) (tokens list) then -1
     else if r = 1 \<or> list_ex (cidr_contains gai a) (tokens list) then 1 else 0)"
proof (induction list arbitrary: r rule: measure_induct_rule[of str_size])
  case (less list)
  obtain t list' where step: "strsep (CHR '','') list = (t, list')" by fastforce
  show ?case
  proof (cases t)
    case None
    then show ?thesis using step tokens_strsep(2)[of list list'] less.prems
      by (auto simp: cidr_list_loop.simps[of gai "Some a" list])
  next
    case (Some e)
    note tok = tokens_strsep(1)[OF step[unfolded Some]]
    have valid: "set x \<subseteq> set VALID_CIDR_CHARS" if "x \<in> set (tokens list')" for x
      using less.prems(2)[of x] tok that by simp
    have e: "set e \<subseteq> set VALID_CIDR_CHARS" using less.prems(2)[of e] tok by simp
    have size: "str_size list' < str_size list" using strsep_decreases[of e list' "CHR '',''" list] step Some by simp
    show ?thesis
      using cidr_list_step[OF wf step[unfolded Some], of gai r] less.IH[OF size less.prems(1) valid]
        less.IH[OF size, of 1, OF _ valid] e less.prems(1) tok by auto
  qed
qed

section \<open>Properties\<close>

text \<open>
  C24. \<^verbatim>\<open>addr_match_list\<close> decides a list of networks, wildcards and negations exactly: -2 if an
  invalid entry comes before a negated one that covers the address, -1 in the opposite case, and
  otherwise 1 if some entry covers it and 0 if none does.
\<close>

theorem addr_match_list_correct:
  "addr_match_list gai lc (Some s) list =
     (case addr_pton gai s of
        None \<Rightarrow> 0
      | Some a \<Rightarrow>
          if malloc lc (length list + 1) = None then -1
          else addr_list_verdict gai s a (split_on (CHR '','') list))"
proof (cases "addr_pton gai s")
  case (Some a)
  then show ?thesis using addr_list_loop_verdict[OF pton_wf[OF Some], of gai s "Some list" 0]
    by (auto simp: addr_match_list_def tokens_def Let_def)
qed (simp add: addr_match_list_def)

text \<open>
  C25. A CIDR list whose entries use only the permitted characters is an error if any entry is
  empty, too long or not a network, and otherwise matches exactly the addresses in one of its
  networks.
\<close>

theorem addr_match_cidr_list_correct:
  assumes "\<And>e. e \<in> set (split_on (CHR '','') list) \<Longrightarrow> set e \<subseteq> set VALID_CIDR_CHARS"
    and "malloc lc (length list + 1) \<noteq> None" and "addr_pton gai s = Some a"
  shows "addr_match_cidr_list gai lc (Some s) list =
    (if list_ex (invalid_cidr gai) (split_on (CHR '','') list) then -1
     else if list_ex (cidr_contains gai a) (split_on (CHR '','') list) then 1 else 0)"
  using cidr_list_loop_spec[OF pton_wf[OF assms(3)], of 0 "Some list" gai] assms
  by (auto simp: addr_match_cidr_list_def tokens_def)

definition lc_am :: libc where
  "lc_am = \<lparr>malloc = Some, pagesize = 4096\<rparr>"

lemma pton_ex: "addr_pton gai_ex ''10.1.2.3'' =
    Some \<lparr>xa_af = AF_INET, xa_32 = [0x0a010203, 0, 0, 0], xa_scope_id = 0\<rparr>"
  by code_simp

lemma in_network_ex: "in_network \<lparr>xa_af = AF_INET, xa_32 = [0x0a010203, 0, 0, 0], xa_scope_id = 0\<rparr>
     \<lparr>xa_af = AF_INET, xa_32 = [0x0a000000, 0, 0, 0], xa_scope_id = 0\<rparr> 8"
proof -
  have "addr_netmatch \<lparr>xa_af = AF_INET, xa_32 = [0x0a010203, 0, 0, 0], xa_scope_id = 0\<rparr>
     \<lparr>xa_af = AF_INET, xa_32 = [0x0a000000, 0, 0, 0], xa_scope_id = 0\<rparr> 8 = 0" by code_simp
  then show ?thesis
    using netmatch_in_network[of _ _ 8] pton_cidr_Inr[OF pton_cidr_ex] by (auto simp: wf_xaddr_def)
qed

theorem addr_match_cidr_list_correct_witness:
  "addr_match_cidr_list gai_ex lc_am (Some ''10.1.2.3'') ''10.0.0.0/8'' = 1"
proof -
  have "split_on (CHR '','') ''10.0.0.0/8'' = [''10.0.0.0/8'']"
    "set ''10.0.0.0/8'' \<subseteq> set VALID_CIDR_CHARS" by (simp_all add: VALID_CIDR_CHARS_def)
  moreover have "\<not> invalid_cidr gai_ex ''10.0.0.0/8''"
    by (simp add: invalid_cidr_def INET6_ADDRSTRLEN_def pton_cidr_ex)
  ultimately show ?thesis
    using addr_match_cidr_list_correct[of "''10.0.0.0/8''" lc_am gai_ex "''10.1.2.3''", OF _ _ pton_ex] in_network_ex
    by (simp add: lc_am_def cidr_contains_def pton_cidr_ex)
qed

text \<open>
  C26. The check for forbidden characters in a CIDR list does not stop: an entry that contains
  one and that \<^verbatim>\<open>getaddrinfo\<close> still parses is matched, and the list is reported as a match and
  not as an error.
\<close>

theorem cidr_list_forbidden_accepted:
  assumes "\<not> set e \<subseteq> set VALID_CIDR_CHARS" and "CHR '','' \<notin> set e" and "\<not> invalid_cidr gai e"
    and "malloc lc (length e + 1) \<noteq> None" and "addr_pton gai s = Some a" and "cidr_contains gai a e"
  shows "addr_match_cidr_list gai lc (Some s) e = 1"
proof -
  have tok: "strsep (CHR '','') (Some e) = (Some e, None)"
    using assms(2) by (auto simp: strsep_def takeWhile_eq_all_conv)
  have "cidr_list_loop gai (Some a) (Some e) 0 = cidr_list_loop gai (Some a) None 1"
    using cidr_list_step[OF pton_wf[OF assms(5)] tok] assms(3,6) by simp
  also have "\<dots> = 1" by (simp add: cidr_list_loop.simps[of gai "Some a" None] strsep_def)
  finally show ?thesis using assms(4,5) by (simp add: addr_match_cidr_list_def)
qed

text \<open>A resolver that accepts a scoped address.\<close>

definition gai_scoped :: getaddrinfo where
  "gai_scoped p =
     (if p = ''fe80::1%lo'' then
        Some (Some \<lparr>ai_addr = Some (Sockaddr_in6 0 0xfe800000 0 0 1 2), ai_addrlen = 28\<rparr>)
      else None)"

theorem cidr_list_forbidden_accepted_witness:
  "addr_match_cidr_list gai_scoped lc_am (Some ''fe80::1%lo'') ''fe80::1%lo'' = 1"
proof -
  let ?a = "\<lparr>xa_af = AF_INET6, xa_32 = [0xfe800000, 0, 0, 1], xa_scope_id = 2\<rparr>"
  have cidr: "addr_pton_cidr gai_scoped ''fe80::1%lo'' = Inr (?a, 128)"
    and pton: "addr_pton gai_scoped ''fe80::1%lo'' = Some ?a" by code_simp+
  have "in_network ?a ?a 128" by (simp add: in_network_def)
  then show ?thesis
    using cidr_list_forbidden_accepted[of "''fe80::1%lo''" gai_scoped lc_am, OF _ _ _ _ pton] cidr
    by (simp add: VALID_CIDR_CHARS_def invalid_cidr_def INET6_ADDRSTRLEN_def lc_am_def cidr_contains_def)
qed

end
