(* ===== verification/Srclimit.thy ===== *)
theory Srclimit
  imports AddrMatch Complex_Main
begin

text \<open>
  Limits and penalties per source address, \<^verbatim>\<open>srclimit.c\<close>. The static variables of the file are a
  record that the operations pass on; \<^const>\<open>None\<close> means that the process ends in \<^verbatim>\<open>fatal\<close>. Times are
  real numbers: the rounding of \<^verbatim>\<open>double\<close> is not modelled.

  A penalty is an object on a heap. The two red-black trees of an address family are lists of
  pointers in the order of the tree: insertion compares with the elements as the tree does and
  refuses an equal one, and removal takes out the element it is given.
\<close>

section \<open>State\<close>

datatype overflow_mode = PER_SOURCE_PENALTY_OVERFLOW_DENY_ALL | PER_SOURCE_PENALTY_OVERFLOW_PERMISSIVE

record per_source_penalty =
  pc_enabled :: bool
  pc_max_sources4 :: int
  pc_max_sources6 :: int
  pc_overflow_mode :: overflow_mode
  pc_overflow_mode6 :: overflow_mode
  pc_penalty_crash :: real
  pc_penalty_grace :: real
  pc_penalty_authfail :: real
  pc_penalty_invaliduser :: real
  pc_penalty_noauth :: real
  pc_penalty_refuseconnection :: real
  pc_penalty_max :: real
  pc_penalty_min :: real

record child_info =
  ch_id :: int
  ch_addr :: xaddr

record penalty =
  p_addr :: xaddr
  p_expiry :: real
  p_active :: bool
  p_reason :: string

text \<open>\<^verbatim>\<open>penalties_by_addr\<close>, \<^verbatim>\<open>penalties_by_expiry\<close> and \<^verbatim>\<open>npenalties\<close> of one address family.\<close>

record penalty_tree =
  t_by_addr :: "nat list"
  t_by_expiry :: "nat list"
  t_npenalties :: nat

record srclimit =
  sl_max_children :: int
  sl_max_persource :: int
  sl_ipv4_masklen :: nat
  sl_ipv6_masklen :: nat
  sl_penalty_cfg :: per_source_penalty
  sl_penalty_exempt :: "string option"
  sl_children :: "child_info list"
  sl_heap :: "nat \<Rightarrow> penalty"
  sl_next :: nat
  sl_tree4 :: penalty_tree
  sl_tree6 :: penalty_tree

text \<open>The library functions the file reaches through \<^verbatim>\<open>addr.c\<close> and \<^verbatim>\<open>addrmatch.c\<close>.\<close>

record sl_env =
  e_gai :: getaddrinfo
  e_gni :: getnameinfo
  e_lc :: libc

definition INT_MAX :: int where "INT_MAX = 2 ^ 31 - 1"
definition NI_MAXHOST :: nat where "NI_MAXHOST = 1025"

section \<open>Connection limits\<close>

definition srclimit_mask_addr :: "xaddr \<Rightarrow> nat \<Rightarrow> xaddr option" where
  "srclimit_mask_addr addr bits =
     (case addr_netmask (xa_af addr) bits of None \<Rightarrow> None | Some xmask \<Rightarrow> addr_and addr xmask)"

text \<open>\<open>peer\<close> is what \<^verbatim>\<open>getpeername\<close> stores for the socket, \<^const>\<open>None\<close> if it fails.\<close>

definition srclimit_peer_addr :: "(sockaddr \<times> nat) option \<Rightarrow> xaddr option" where
  "srclimit_peer_addr peer =
     (case peer of None \<Rightarrow> None | Some (sa, addrlen) \<Rightarrow> addr_sa_to_xaddr sa addrlen)"

definition empty_tree :: penalty_tree where
  "empty_tree = \<lparr>t_by_addr = [], t_by_expiry = [], t_npenalties = 0\<rparr>"

definition srclimit_init ::
  "int \<Rightarrow> int \<Rightarrow> nat \<Rightarrow> nat \<Rightarrow> per_source_penalty \<Rightarrow> string option \<Rightarrow> srclimit \<Rightarrow> srclimit option" where
  "srclimit_init max' persource ipv4len ipv6len penalty_conf penalty_exempt_conf st =
     (if pc_max_sources4 penalty_conf < 0 \<or> pc_max_sources6 penalty_conf < 0 then None
      else
        (let st1 = st\<lparr>sl_max_children := max', sl_ipv4_masklen := ipv4len, sl_ipv6_masklen := ipv6len,
               sl_max_persource := persource, sl_penalty_cfg := penalty_conf,
               sl_penalty_exempt := penalty_exempt_conf, sl_tree4 := (sl_tree4 st)\<lparr>t_by_addr := [], t_by_expiry := []\<rparr>,
               sl_tree6 := (sl_tree6 st)\<lparr>t_by_addr := [], t_by_expiry := []\<rparr>\<rparr>
         in if persource = INT_MAX then Some st1
            else if max' \<le> 0 then None
            else Some (st1\<lparr>sl_children := replicate (nat max')
                   \<lparr>ch_id = -1, ch_addr = \<lparr>xa_af = AF_OTHER 0, xa_32 = [0, 0, 0, 0], xa_scope_id = 0\<rparr>\<rparr>\<rparr>)))"

definition masklen_for :: "xaddr \<Rightarrow> srclimit \<Rightarrow> nat" where
  "masklen_for a st = (if xa_af a = AF_INET then sl_ipv4_masklen st else sl_ipv6_masklen st)"

text \<open>The counting loop: the first unused slot, and the number of slots with the address.\<close>

fun count_loop :: "child_info list \<Rightarrow> xaddr \<Rightarrow> nat \<Rightarrow> nat \<Rightarrow> nat \<Rightarrow> nat \<times> nat" where
  "count_loop [] xb i first_unused count = (first_unused, count)"
| "count_loop (c # cs) xb i first_unused count =
     (if ch_id c = -1 then count_loop cs xb (i + 1) (if i < first_unused then i else first_unused) count
      else if addr_cmp (ch_addr c) xb = 0 then count_loop cs xb (i + 1) first_unused (count + 1)
      else count_loop cs xb (i + 1) first_unused count)"

text \<open>The result says whether the connection is allowed.\<close>

definition srclimit_check_allow ::
  "sl_env \<Rightarrow> (sockaddr \<times> nat) option \<Rightarrow> int \<Rightarrow> srclimit \<Rightarrow> (bool \<times> srclimit) option" where
  "srclimit_check_allow env peer cid st =
     (if sl_max_persource st = INT_MAX then Some (True, st)
      else
        (case srclimit_peer_addr peer of
           None \<Rightarrow> Some (True, st)
         | Some xa \<Rightarrow>
             (case srclimit_mask_addr xa (masklen_for xa st) of
                None \<Rightarrow> Some (True, st)
              | Some xb \<Rightarrow>
                  (let maxc = nat (sl_max_children st);
                       (first_unused, count) = count_loop (take maxc (sl_children st)) xb 0 maxc 0
                   in if addr_ntop (e_gni env) xa NI_MAXHOST = None then Some (True, st)
                      else if first_unused = maxc then Some (False, st)
                      else if first_unused \<ge> maxc then None
                      else if int count \<ge> sl_max_persource st then Some (False, st)
                      else Some (True, st\<lparr>sl_children :=
                             (sl_children st)[first_unused := \<lparr>ch_id = cid, ch_addr = xb\<rparr>]\<rparr>)))))"

fun done_loop :: "int \<Rightarrow> child_info list \<Rightarrow> child_info list" where
  "done_loop cid [] = []"
| "done_loop cid (c # cs) = (if ch_id c = cid then c\<lparr>ch_id := -1\<rparr> # cs else c # done_loop cid cs)"

definition srclimit_done :: "int \<Rightarrow> srclimit \<Rightarrow> srclimit" where
  "srclimit_done cid st =
     (if sl_max_persource st = INT_MAX then st
      else st\<lparr>sl_children := done_loop cid (sl_children st)\<rparr>)"

section \<open>Penalty trees\<close>

fun rb_insert :: "(nat \<Rightarrow> nat \<Rightarrow> int) \<Rightarrow> nat \<Rightarrow> nat list \<Rightarrow> nat option \<times> nat list" where
  "rb_insert cmp p [] = (None, [p])"
| "rb_insert cmp p (x # xs) =
     (let c = cmp p x
      in if c < 0 then (None, p # x # xs)
         else if c = 0 then (Some x, x # xs)
         else (case rb_insert cmp p xs of (e, ys) \<Rightarrow> (e, x # ys)))"

definition penalty_addr_cmp :: "penalty \<Rightarrow> penalty \<Rightarrow> int" where
  "penalty_addr_cmp a b = addr_cmp (p_addr a) (p_addr b)"

definition penalty_expiry_cmp :: "penalty \<Rightarrow> penalty \<Rightarrow> int" where
  "penalty_expiry_cmp a b =
     (if p_expiry a \<noteq> p_expiry b then (if p_expiry a < p_expiry b then -1 else 1)
      else addr_cmp (p_addr a) (p_addr b))"

definition tree_remove :: "nat \<Rightarrow> penalty_tree \<Rightarrow> penalty_tree" where
  "tree_remove p t = t\<lparr>t_by_expiry := remove1 p (t_by_expiry t), t_by_addr := remove1 p (t_by_addr t)\<rparr>"

text \<open>The loop of \<^verbatim>\<open>expire_penalties_from_tree\<close>; \<^verbatim>\<open>RB_FOREACH_SAFE\<close> visits the elements in order.\<close>

fun expire_penalties_from_tree ::
  "real \<Rightarrow> (nat \<Rightarrow> penalty) \<Rightarrow> nat list \<Rightarrow> penalty_tree \<Rightarrow> penalty_tree option" where
  "expire_penalties_from_tree now heap [] t = Some t"
| "expire_penalties_from_tree now heap (p # ps) t =
     (if p_expiry (heap p) \<ge> now then Some t
      else if t_npenalties t = 0 then None
      else expire_penalties_from_tree now heap ps
             ((tree_remove p t)\<lparr>t_npenalties := t_npenalties t - 1\<rparr>))"

definition expire_penalties :: "real \<Rightarrow> srclimit \<Rightarrow> srclimit option" where
  "expire_penalties now st =
     (case expire_penalties_from_tree now (sl_heap st) (t_by_expiry (sl_tree4 st)) (sl_tree4 st) of
        None \<Rightarrow> None
      | Some t4 \<Rightarrow>
          (case expire_penalties_from_tree now (sl_heap st) (t_by_expiry (sl_tree6 st)) (sl_tree6 st) of
             None \<Rightarrow> None
           | Some t6 \<Rightarrow> Some (st\<lparr>sl_tree4 := t4, sl_tree6 := t6\<rparr>)))"

text \<open>Delete the soonest-to-expire penalties while there are too many.\<close>

fun early_expire_from_tree :: "nat \<Rightarrow> penalty_tree \<Rightarrow> nat \<Rightarrow> penalty_tree option" where
  "early_expire_from_tree max_sources t n =
     (if n > max_sources then
        (case t_by_expiry t of
           [] \<Rightarrow> None
         | p # _ \<Rightarrow> early_expire_from_tree max_sources (tree_remove p t) (n - 1))
      else Some (t\<lparr>t_npenalties := n\<rparr>))"

definition srclimit_early_expire_penalties_from_tree :: "nat \<Rightarrow> penalty_tree \<Rightarrow> penalty_tree option" where
  "srclimit_early_expire_penalties_from_tree max_sources t =
     early_expire_from_tree max_sources t (t_npenalties t)"

definition srclimit_early_expire_penalties :: "srclimit \<Rightarrow> srclimit option" where
  "srclimit_early_expire_penalties st =
     (case srclimit_early_expire_penalties_from_tree (nat (pc_max_sources4 (sl_penalty_cfg st))) (sl_tree4 st) of
        None \<Rightarrow> None
      | Some t4 \<Rightarrow>
          (case srclimit_early_expire_penalties_from_tree (nat (pc_max_sources6 (sl_penalty_cfg st)))
                  (sl_tree6 st) of
             None \<Rightarrow> None
           | Some t6 \<Rightarrow> Some (st\<lparr>sl_tree4 := t4, sl_tree6 := t6\<rparr>)))"

text \<open>The variables that the two functions below choose by address family.\<close>

definition tree_of :: "af \<Rightarrow> srclimit \<Rightarrow> penalty_tree" where
  "tree_of af st = (if af = AF_INET then sl_tree4 st else sl_tree6 st)"

definition set_tree :: "af \<Rightarrow> penalty_tree \<Rightarrow> srclimit \<Rightarrow> srclimit" where
  "set_tree af t st = (if af = AF_INET then st\<lparr>sl_tree4 := t\<rparr> else st\<lparr>sl_tree6 := t\<rparr>)"

definition max_sources_of :: "af \<Rightarrow> srclimit \<Rightarrow> nat" where
  "max_sources_of af st =
     nat (if af = AF_INET then pc_max_sources4 (sl_penalty_cfg st) else pc_max_sources6 (sl_penalty_cfg st))"

definition overflow_mode_of :: "af \<Rightarrow> srclimit \<Rightarrow> overflow_mode" where
  "overflow_mode_of af st =
     (if af = AF_INET then pc_overflow_mode (sl_penalty_cfg st) else pc_overflow_mode6 (sl_penalty_cfg st))"

text \<open>
  The exemption at the start of both functions: an address that cannot be printed counts as
  exempt too.
\<close>

definition penalty_exempted :: "sl_env \<Rightarrow> xaddr \<Rightarrow> nat \<Rightarrow> srclimit \<Rightarrow> bool" where
  "penalty_exempted env addr len st =
     (case sl_penalty_exempt st of
        None \<Rightarrow> False
      | Some exempt \<Rightarrow>
          (case addr_ntop (e_gni env) addr len of
             None \<Rightarrow> True
           | Some s \<Rightarrow> addr_match_list (e_gai env) (e_lc env) (Some s) exempt = 1))"

text \<open>The result says whether the connection is allowed, and if not the reason.\<close>

definition srclimit_penalty_check_allow ::
  "sl_env \<Rightarrow> (sockaddr \<times> nat) option \<Rightarrow> real \<Rightarrow> srclimit \<Rightarrow> (string option \<times> srclimit) option" where
  "srclimit_penalty_check_allow env peer now st =
     (if \<not> pc_enabled (sl_penalty_cfg st) then Some (None, st)
      else
        (case srclimit_peer_addr peer of
           None \<Rightarrow> Some (None, st)
         | Some addr \<Rightarrow>
             if penalty_exempted env addr NI_MAXHOST st then Some (None, st)
             else
               (case expire_penalties now st of
                  None \<Rightarrow> None
                | Some st1 \<Rightarrow>
                    (let t = tree_of (xa_af addr) st1
                     in if t_npenalties t \<ge> max_sources_of (xa_af addr) st1 \<and>
                           overflow_mode_of (xa_af addr) st1 = PER_SOURCE_PENALTY_OVERFLOW_DENY_ALL
                        then Some (Some ''too many penalised addresses'', st1)
                        else
                          (case srclimit_mask_addr addr (masklen_for addr st1) of
                             None \<Rightarrow> Some (None, st1)
                           | Some key \<Rightarrow>
                               (case find (\<lambda>p. addr_cmp key (p_addr (sl_heap st1 p)) = 0) (t_by_addr t) of
                                  None \<Rightarrow> Some (None, st1)
                                | Some p \<Rightarrow>
                                    if p_expiry (sl_heap st1 p) < now then
                                      map_option (\<lambda>st2. (None, st2)) (expire_penalties now st1)
                                    else if \<not> p_active (sl_heap st1 p) then Some (None, st1)
                                    else Some (Some (p_reason (sl_heap st1 p)), st1)))))))"

section \<open>Penalising an address\<close>

datatype penalty_type =
    SRCLIMIT_PENALTY_NONE | SRCLIMIT_PENALTY_CRASH | SRCLIMIT_PENALTY_AUTHFAIL
  | SRCLIMIT_PENALTY_GRACE_EXCEEDED | SRCLIMIT_PENALTY_NOAUTH | SRCLIMIT_PENALTY_REFUSECONNECTION
  | SRCLIMIT_PENALTY_INVALIDUSER

text \<open>The \<^verbatim>\<open>switch\<close> over the type: the seconds and the reason; \<^const>\<open>None\<close> returns at once.\<close>

fun penalty_for :: "per_source_penalty \<Rightarrow> penalty_type \<Rightarrow> (real \<times> string) option" where
  "penalty_for cfg SRCLIMIT_PENALTY_NONE = None"
| "penalty_for cfg SRCLIMIT_PENALTY_CRASH = Some (pc_penalty_crash cfg, ''penalty: caused crash'')"
| "penalty_for cfg SRCLIMIT_PENALTY_AUTHFAIL =
     Some (pc_penalty_authfail cfg, ''penalty: failed authentication'')"
| "penalty_for cfg SRCLIMIT_PENALTY_NOAUTH =
     Some (pc_penalty_noauth cfg, ''penalty: connections without attempting authentication'')"
| "penalty_for cfg SRCLIMIT_PENALTY_INVALIDUSER =
     Some (pc_penalty_invaliduser cfg, ''penalty: attempted authentication by invalid user'')"
| "penalty_for cfg SRCLIMIT_PENALTY_REFUSECONNECTION =
     Some (pc_penalty_refuseconnection cfg, ''penalty: connection prohibited by RefuseConnection'')"
| "penalty_for cfg SRCLIMIT_PENALTY_GRACE_EXCEEDED =
     Some (pc_penalty_grace cfg, ''penalty: exceeded LoginGraceTime'')"

text \<open>A new penalty, whose pointer \<open>p\<close> is already in the tree by address.\<close>

definition penalise_new :: "af \<Rightarrow> nat \<Rightarrow> real \<Rightarrow> srclimit \<Rightarrow> srclimit option" where
  "penalise_new af p penalty_secs st =
     (let cfg = sl_penalty_cfg st;
          heap = (if penalty_secs > pc_penalty_min cfg
                  then (sl_heap st)(p := (sl_heap st p)\<lparr>p_active := True\<rparr>) else sl_heap st);
          t = tree_of af st
      in case rb_insert (\<lambda>x y. penalty_expiry_cmp (heap x) (heap y)) p (t_by_expiry t) of
           (Some _, _) \<Rightarrow> None
         | (None, by_expiry) \<Rightarrow>
             (let st1 = set_tree af (t\<lparr>t_by_expiry := by_expiry, t_npenalties := t_npenalties t + 1\<rparr>)
                          (st\<lparr>sl_heap := heap\<rparr>)
              in if t_npenalties t + 1 > max_sources_of af st then srclimit_early_expire_penalties st1
                 else Some st1))"

text \<open>An existing penalty accumulates up to the maximum, and its place in the tree by expiry changes.\<close>

definition penalise_existing ::
  "af \<Rightarrow> nat \<Rightarrow> real \<Rightarrow> real \<Rightarrow> string \<Rightarrow> srclimit \<Rightarrow> srclimit option" where
  "penalise_existing af e now penalty_secs reason st =
     (let cfg = sl_penalty_cfg st;
          t = tree_of af st;
          by_expiry = remove1 e (t_by_expiry t);
          old = sl_heap st e;
          expiry0 = p_expiry old + penalty_secs;
          expiry = (if expiry0 - now > pc_penalty_max cfg then now + pc_penalty_max cfg else expiry0);
          active = (p_active old \<or> expiry - now > pc_penalty_min cfg);
          heap = (sl_heap st)(e := old\<lparr>p_expiry := expiry, p_active := active, p_reason := reason\<rparr>)
      in case rb_insert (\<lambda>x y. penalty_expiry_cmp (heap x) (heap y)) e by_expiry of
           (Some _, _) \<Rightarrow> None
         | (None, by_expiry') \<Rightarrow>
             Some (set_tree af (t\<lparr>t_by_expiry := by_expiry'\<rparr>) (st\<lparr>sl_heap := heap\<rparr>)))"

definition srclimit_penalise ::
  "sl_env \<Rightarrow> xaddr \<Rightarrow> penalty_type \<Rightarrow> real \<Rightarrow> srclimit \<Rightarrow> srclimit option" where
  "srclimit_penalise env addr penalty_type now st =
     (if \<not> pc_enabled (sl_penalty_cfg st) then Some st
      else if penalty_exempted env addr (NI_MAXHOST + 4) st then Some st
      else
        (case penalty_for (sl_penalty_cfg st) penalty_type of
           None \<Rightarrow> Some st
         | Some (penalty_secs, reason) \<Rightarrow>
             if penalty_secs \<le> 0 then Some st
             else
               (case srclimit_mask_addr addr (masklen_for addr st) of
                  None \<Rightarrow> Some st
                | Some masked \<Rightarrow>
                    (case expire_penalties now st of
                       None \<Rightarrow> None
                     | Some st1 \<Rightarrow>
                         (let af = xa_af addr; t = tree_of af st1
                          in if t_npenalties t \<ge> max_sources_of af st1 \<and>
                                overflow_mode_of af st1 = PER_SOURCE_PENALTY_OVERFLOW_DENY_ALL
                             then Some st1
                             else
                               (let p = sl_next st1;
                                    heap = (sl_heap st1)(p := \<lparr>p_addr = masked, p_expiry = now + penalty_secs,
                                             p_active = False, p_reason = reason\<rparr>)
                                in case rb_insert (\<lambda>x y. penalty_addr_cmp (heap x) (heap y)) p (t_by_addr t) of
                                     (None, by_addr) \<Rightarrow>
                                       penalise_new af p penalty_secs
                                         (set_tree af (t\<lparr>t_by_addr := by_addr\<rparr>)
                                            (st1\<lparr>sl_heap := heap, sl_next := p + 1\<rparr>))
                                   | (Some e, _) \<Rightarrow>
                                       penalise_existing af e now penalty_secs reason st1))))))"

end
