(* ===== verification/SrclimitProps.thy ===== *)
theory SrclimitProps
  imports Srclimit "HOL-Library.Product_Lexorder"
begin

text \<open>
  The trees of \<^verbatim>\<open>srclimit.c\<close> stay consistent and within their limits, so that none of its internal
  errors occurs; what a penalty does to later connections; and the limit per source.
\<close>

section \<open>Ordered lists of pointers\<close>

text \<open>A list is ordered by the keys of its elements, without equal ones.\<close>

definition ordered :: "(nat \<Rightarrow> 'k::linorder) \<Rightarrow> nat list \<Rightarrow> bool" where
  "ordered k xs \<longleftrightarrow> sorted_wrt (\<lambda>x y. k x < k y) xs"

lemma ordered_simps [simp]:
  "ordered k []" "ordered k (x # xs) \<longleftrightarrow> (\<forall>y \<in> set xs. k x < k y) \<and> ordered k xs"
  unfolding ordered_def by (simp_all only: sorted_wrt.simps)

lemma ordered_inj: "ordered k xs \<Longrightarrow> x \<in> set xs \<Longrightarrow> y \<in> set xs \<Longrightarrow> k x = k y \<Longrightarrow> x = y"
proof (induction xs)
  case (Cons a xs)
  then show ?case by (metis less_irrefl ordered_simps(2) set_ConsD)
qed simp

lemma ordered_distinct: "ordered k xs \<Longrightarrow> distinct xs"
  by (induction xs) auto

lemma ordered_remove1: "ordered k xs \<Longrightarrow> ordered k (remove1 p xs)"
  by (induction xs) (auto dest: notin_set_remove1)

lemma ordered_cong: "(\<And>x. x \<in> set xs \<Longrightarrow> k' x = k x) \<Longrightarrow> ordered k' xs = ordered k xs"
  by (induction xs) auto

text \<open>\<open>cmp p x\<close> has the sign of the comparison of the keys.\<close>

definition cmp_agrees :: "(nat \<Rightarrow> nat \<Rightarrow> int) \<Rightarrow> (nat \<Rightarrow> 'k::linorder) \<Rightarrow> nat \<Rightarrow> nat \<Rightarrow> bool" where
  "cmp_agrees cmp k p x \<longleftrightarrow> (cmp p x < 0 \<longleftrightarrow> k p < k x) \<and> (cmp p x = 0 \<longleftrightarrow> k p = k x)"

lemma rb_insert_spec:
  assumes "ordered k xs" and "\<And>x. x \<in> set xs \<Longrightarrow> cmp_agrees cmp k p x"
  shows "case rb_insert cmp p xs of
      (Some e, ys) \<Rightarrow> ys = xs \<and> e \<in> set xs \<and> k e = k p
    | (None, ys) \<Rightarrow> p \<notin> set xs \<and> (\<forall>x \<in> set xs. k x \<noteq> k p) \<and> ordered k ys \<and> set ys = insert p (set xs) \<and>
        length ys = Suc (length xs)"
  using assms
proof (induction xs)
  case (Cons x xs)
  have agree: "cmp_agrees cmp k p x" and IH: "case rb_insert cmp p xs of
      (Some e, ys) \<Rightarrow> ys = xs \<and> e \<in> set xs \<and> k e = k p
    | (None, ys) \<Rightarrow> p \<notin> set xs \<and> (\<forall>x \<in> set xs. k x \<noteq> k p) \<and> ordered k ys \<and> set ys = insert p (set xs) \<and>
        length ys = Suc (length xs)"
    using Cons by auto
  consider "k p < k x" | "k p = k x" | "k x < k p" by fastforce
  then show ?case
  proof cases
    case 1
    then have "cmp p x < 0" using agree by (simp add: cmp_agrees_def)
    moreover have "k p < k y" if "y \<in> set xs" for y using 1 that Cons.prems(1) by (auto intro: less_trans)
    ultimately show ?thesis using 1 Cons.prems(1) by auto
  next
    case 2
    then have "cmp p x = 0" using agree by (simp add: cmp_agrees_def)
    then show ?thesis using 2 by simp
  next
    case 3
    then have "\<not> cmp p x < 0" "cmp p x \<noteq> 0" using agree by (auto simp: cmp_agrees_def)
    then show ?thesis using 3 IH Cons.prems(1) by (auto split: option.splits)
  qed
qed simp

section \<open>Consistent trees\<close>

definition akey :: "(nat \<Rightarrow> penalty) \<Rightarrow> nat \<Rightarrow> nat" where
  "akey h p = addr_key (p_addr (h p))"

definition ekey :: "(nat \<Rightarrow> penalty) \<Rightarrow> nat \<Rightarrow> real \<times> nat" where
  "ekey h p = (p_expiry (h p), akey h p)"

definition tree_ok :: "(nat \<Rightarrow> penalty) \<Rightarrow> nat \<Rightarrow> af \<Rightarrow> penalty_tree \<Rightarrow> bool" where
  "tree_ok h nx af t \<longleftrightarrow> ordered (akey h) (t_by_addr t) \<and> ordered (ekey h) (t_by_expiry t) \<and>
     set (t_by_expiry t) = set (t_by_addr t) \<and> t_npenalties t = length (t_by_expiry t) \<and>
     (\<forall>p \<in> set (t_by_addr t). p < nx \<and> wf_xaddr (p_addr (h p)) \<and> xa_af (p_addr (h p)) = af)"

lemma addr_cmp_agrees:
  assumes "wf_xaddr (p_addr (h p))" and "wf_xaddr (p_addr (h x))"
  shows "cmp_agrees (\<lambda>x y. penalty_addr_cmp (h x) (h y)) (akey h) p x"
    and "cmp_agrees (\<lambda>x y. penalty_expiry_cmp (h x) (h y)) (ekey h) p x"
proof -
  have "sgn (addr_cmp (p_addr (h p)) (p_addr (h x))) = sgn (int (akey h p) - int (akey h x))"
    using addr_cmp_key[OF assms] by (simp add: akey_def)
  then have "(addr_cmp (p_addr (h p)) (p_addr (h x)) < 0 \<longleftrightarrow> akey h p < akey h x) \<and>
      (addr_cmp (p_addr (h p)) (p_addr (h x)) = 0 \<longleftrightarrow> akey h p = akey h x)"
    by (auto simp: sgn_if split: if_splits)
  then show "cmp_agrees (\<lambda>x y. penalty_addr_cmp (h x) (h y)) (akey h) p x"
    "cmp_agrees (\<lambda>x y. penalty_expiry_cmp (h x) (h y)) (ekey h) p x"
    by (auto simp: cmp_agrees_def penalty_addr_cmp_def penalty_expiry_cmp_def ekey_def)
qed

lemma tree_ok_cong:
  assumes "\<And>p. p \<in> set (t_by_addr t) \<Longrightarrow> h' p = h p" and "nx \<le> nx'" and "tree_ok h nx af t"
  shows "tree_ok h' nx' af t"
proof -
  have "ordered (akey h') (t_by_addr t) = ordered (akey h) (t_by_addr t)"
    by (rule ordered_cong) (simp add: assms(1) akey_def)
  moreover have "ordered (ekey h') (t_by_expiry t) = ordered (ekey h) (t_by_expiry t)"
    using assms(1,3) by (intro ordered_cong) (auto simp: akey_def ekey_def tree_ok_def)
  ultimately show ?thesis using assms by (auto simp: tree_ok_def intro: less_le_trans)
qed

lemma tree_ok_remove:
  assumes ok: "tree_ok h nx af t" and p: "p \<in> set (t_by_expiry t)"
  shows "tree_ok h nx af ((tree_remove p t)\<lparr>t_npenalties := t_npenalties t - 1\<rparr>)"
  using ok p ordered_distinct[of "akey h" "t_by_addr t"] ordered_distinct[of "ekey h" "t_by_expiry t"]
  by (auto simp: tree_ok_def tree_remove_def ordered_remove1 length_remove1)

lemma expire_from_tree_spec:
  assumes "tree_ok h nx af t"
  shows "\<exists>t'. expire_penalties_from_tree now h (t_by_expiry t) t = Some t' \<and> tree_ok h nx af t' \<and>
    set (t_by_addr t') = {p \<in> set (t_by_addr t). now \<le> p_expiry (h p)} \<and> t_npenalties t' \<le> t_npenalties t"
  using assms
proof (induction "t_by_expiry t" arbitrary: t)
  case Nil
  then show ?case by (auto simp: tree_ok_def)
next
  case (Cons p ps)
  have ps: "t_by_expiry t = p # ps" using Cons.hyps(2) by simp
  have ord: "ordered (ekey h) (p # ps)" and eq: "set (t_by_addr t) = insert p (set ps)"
    and n: "t_npenalties t = Suc (length ps)" using Cons.prems ps by (auto simp: tree_ok_def)
  show ?case
  proof (cases "now \<le> p_expiry (h p)")
    case True
    then have "now \<le> p_expiry (h q)" if "q \<in> set ps" for q
      using ord that by (fastforce simp: ekey_def less_prod_def)
    then show ?thesis using True Cons.prems eq ps by auto
  next
    case False
    let ?t = "(tree_remove p t)\<lparr>t_npenalties := t_npenalties t - 1\<rparr>"
    have rest: "t_by_expiry ?t = ps" by (simp add: tree_remove_def ps)
    have "distinct (t_by_addr t)" using Cons.prems ordered_distinct by (auto simp: tree_ok_def)
    then have set: "set (t_by_addr ?t) = set (t_by_addr t) - {p}" by (simp add: tree_remove_def)
    have ok: "tree_ok h nx af ?t" using tree_ok_remove[OF Cons.prems] ps by simp
    from Cons.hyps(1)[OF rest[symmetric] ok] obtain t' where
      "expire_penalties_from_tree now h ps ?t = Some t'" "tree_ok h nx af t'"
      "set (t_by_addr t') = {q \<in> set (t_by_addr ?t). now \<le> p_expiry (h q)}" "t_npenalties t' \<le> t_npenalties ?t"
      unfolding rest by blast
    then show ?thesis using False ps n set by auto
  qed
qed

lemma early_expire_from_tree_spec:
  assumes "tree_ok h nx af (t\<lparr>t_npenalties := n\<rparr>)"
  shows "\<exists>t'. early_expire_from_tree m t n = Some t' \<and> tree_ok h nx af t' \<and> t_npenalties t' = min n m \<and>
    set (t_by_addr t') \<subseteq> set (t_by_addr t) \<and>
    (\<forall>r \<in> set (t_by_addr t) - set (t_by_addr t'). \<forall>q \<in> set (t_by_addr t'). p_expiry (h r) \<le> p_expiry (h q))"
  using assms
proof (induction n arbitrary: t)
  case 0
  then show ?case by (auto simp: early_expire_from_tree.simps[of m t 0])
next
  case (Suc n)
  show ?case
  proof (cases "Suc n > m")
    case False
    then show ?thesis using Suc.prems by (auto simp: early_expire_from_tree.simps[of m t "Suc n"])
  next
    case True
    from Suc.prems obtain p ps where ps: "t_by_expiry t = p # ps" by (cases "t_by_expiry t") (auto simp: tree_ok_def)
    have ok: "tree_ok h nx af ((tree_remove p t)\<lparr>t_npenalties := n\<rparr>)"
      using tree_ok_remove[OF Suc.prems, of p] ps by (simp add: tree_remove_def)
    have ord: "ordered (ekey h) (p # ps)" and eq: "set (t_by_addr t) = insert p (set ps)"
      and dist: "distinct (t_by_addr t)" "p \<notin> set ps"
      using Suc.prems ps ordered_distinct by (auto simp: tree_ok_def)
    have first: "p_expiry (h p) \<le> p_expiry (h q)" if "q \<in> set ps" for q
      using ord that by (fastforce simp: ekey_def less_prod_def)
    have set: "set (t_by_addr (tree_remove p t)) = set ps" using dist eq by (auto simp: tree_remove_def)
    from Suc.IH[OF ok] obtain t' where t': "early_expire_from_tree m (tree_remove p t) n = Some t'"
      "tree_ok h nx af t'" "t_npenalties t' = min n m" "set (t_by_addr t') \<subseteq> set ps"
      "\<forall>r \<in> set ps - set (t_by_addr t'). \<forall>q \<in> set (t_by_addr t'). p_expiry (h r) \<le> p_expiry (h q)"
      unfolding set by blast
    then show ?thesis using True ps eq first
      by (auto simp: early_expire_from_tree.simps[of m t "Suc n"])
  qed
qed

section \<open>Consistent states\<close>

definition sl_ok :: "srclimit \<Rightarrow> bool" where
  "sl_ok st \<longleftrightarrow> (\<forall>af \<in> {AF_INET, AF_INET6}. tree_ok (sl_heap st) (sl_next st) af (tree_of af st) \<and>
     t_npenalties (tree_of af st) \<le> max_sources_of af st)"

lemma sl_okD:
  assumes "sl_ok st" and "af = AF_INET \<or> af = AF_INET6"
  shows "tree_ok (sl_heap st) (sl_next st) af (tree_of af st)" "t_npenalties (tree_of af st) \<le> max_sources_of af st"
  using assms by (auto simp: sl_ok_def)

lemma tree_of_set_tree [simp]:
  "tree_of af (set_tree af' t st) = (if af = AF_INET \<longleftrightarrow> af' = AF_INET then t else tree_of af st)"
  "sl_heap (set_tree af t st) = sl_heap st" "sl_next (set_tree af t st) = sl_next st"
  "sl_penalty_cfg (set_tree af t st) = sl_penalty_cfg st"
  "max_sources_of af (set_tree af' t st) = max_sources_of af st"
  by (auto simp: tree_of_def set_tree_def max_sources_of_def)

lemma tree_of_heap [simp]:
  "tree_of af (st\<lparr>sl_heap := h\<rparr>) = tree_of af st" "tree_of af (st\<lparr>sl_next := n\<rparr>) = tree_of af st"
  "max_sources_of af (st\<lparr>sl_heap := h\<rparr>) = max_sources_of af st"
  "max_sources_of af (st\<lparr>sl_next := n\<rparr>) = max_sources_of af st"
  "max_sources_of af (st\<lparr>sl_tree4 := t4\<rparr>) = max_sources_of af st"
  "max_sources_of af (st\<lparr>sl_tree6 := t6\<rparr>) = max_sources_of af st"
  by (simp_all add: tree_of_def max_sources_of_def)

text \<open>The penalties of a family, as a map from the key of the address.\<close>

definition penalties :: "srclimit \<Rightarrow> af \<Rightarrow> nat \<Rightarrow> penalty option" where
  "penalties st af k =
     map_option (sl_heap st) (find (\<lambda>p. akey (sl_heap st) p = k) (t_by_addr (tree_of af st)))"

lemma penalties_iff:
  assumes "tree_ok (sl_heap st) nx af (tree_of af st)"
  shows "penalties st af k = Some q \<longleftrightarrow>
    (\<exists>p \<in> set (t_by_addr (tree_of af st)). akey (sl_heap st) p = k \<and> q = sl_heap st p)"
proof -
  have ord: "ordered (akey (sl_heap st)) (t_by_addr (tree_of af st))"
    using assms by (simp add: tree_ok_def)
  show ?thesis
  proof
    assume "penalties st af k = Some q"
    then show "\<exists>p \<in> set (t_by_addr (tree_of af st)). akey (sl_heap st) p = k \<and> q = sl_heap st p"
      by (auto simp: penalties_def find_Some_iff)
  next
    assume "\<exists>p \<in> set (t_by_addr (tree_of af st)). akey (sl_heap st) p = k \<and> q = sl_heap st p"
    then obtain p where p: "p \<in> set (t_by_addr (tree_of af st))" "akey (sl_heap st) p = k" "q = sl_heap st p" by blast
    then obtain x where x: "find (\<lambda>p. akey (sl_heap st) p = k) (t_by_addr (tree_of af st)) = Some x"
      by (metis (mono_tags, lifting) find_None_iff not_Some_eq)
    then have "x \<in> set (t_by_addr (tree_of af st))" "akey (sl_heap st) x = k" by (auto simp: find_Some_iff)
    with ordered_inj[OF ord] p have "x = p" by blast
    with x p show "penalties st af k = Some q" by (simp add: penalties_def)
  qed
qed

section \<open>Expiry\<close>

text \<open>The penalties that are still in force at a time.\<close>

definition live :: "srclimit \<Rightarrow> real \<Rightarrow> af \<Rightarrow> nat \<Rightarrow> penalty option" where
  "live st now af k =
     (case penalties st af k of
        None \<Rightarrow> None
      | Some q \<Rightarrow> if now \<le> p_expiry q then Some q else None)"

lemma live_Some: "live st now af k = Some q \<longleftrightarrow> penalties st af k = Some q \<and> now \<le> p_expiry q"
  by (auto simp: live_def split: option.splits)

lemma option_ext: "(\<And>q. a = Some q \<longleftrightarrow> b = Some q) \<Longrightarrow> a = b"
  by (cases a; cases b) auto

lemma expire_penalties_spec:
  assumes ok: "sl_ok st"
  obtains t4 t6 where "expire_penalties now st = Some (st\<lparr>sl_tree4 := t4, sl_tree6 := t6\<rparr>)"
    "sl_ok (st\<lparr>sl_tree4 := t4, sl_tree6 := t6\<rparr>)"
    "\<And>af. af = AF_INET \<or> af = AF_INET6 \<Longrightarrow> penalties (st\<lparr>sl_tree4 := t4, sl_tree6 := t6\<rparr>) af = live st now af"
proof -
  obtain t4 where t4: "expire_penalties_from_tree now (sl_heap st) (t_by_expiry (sl_tree4 st)) (sl_tree4 st) = Some t4"
      "tree_ok (sl_heap st) (sl_next st) AF_INET t4"
      "set (t_by_addr t4) = {p \<in> set (t_by_addr (sl_tree4 st)). now \<le> p_expiry (sl_heap st p)}"
      "t_npenalties t4 \<le> t_npenalties (sl_tree4 st)"
    using expire_from_tree_spec[of "sl_heap st" "sl_next st" AF_INET "sl_tree4 st" now] sl_okD[OF ok, of AF_INET]
    by (auto simp: tree_of_def)
  obtain t6 where t6: "expire_penalties_from_tree now (sl_heap st) (t_by_expiry (sl_tree6 st)) (sl_tree6 st) = Some t6"
      "tree_ok (sl_heap st) (sl_next st) AF_INET6 t6"
      "set (t_by_addr t6) = {p \<in> set (t_by_addr (sl_tree6 st)). now \<le> p_expiry (sl_heap st p)}"
      "t_npenalties t6 \<le> t_npenalties (sl_tree6 st)"
    using expire_from_tree_spec[of "sl_heap st" "sl_next st" AF_INET6 "sl_tree6 st" now] sl_okD[OF ok, of AF_INET6]
    by (auto simp: tree_of_def)
  let ?st = "st\<lparr>sl_tree4 := t4, sl_tree6 := t6\<rparr>"
  have ok': "sl_ok ?st"
    using ok t4 t6 by (auto simp: sl_ok_def tree_of_def max_sources_of_def)
  have "penalties ?st af = live st now af" if af: "af = AF_INET \<or> af = AF_INET6" for af
  proof
    fix k
    have "penalties ?st af k = Some q \<longleftrightarrow> penalties st af k = Some q \<and> now \<le> p_expiry q" for q
      using penalties_iff[OF sl_okD(1)[OF ok' af], of k q] penalties_iff[OF sl_okD(1)[OF ok af], of k q] t4(3) t6(3)
      by (auto simp: tree_of_def)
    then show "penalties ?st af k = live st now af k"
      by (intro option_ext) (simp add: live_Some)
  qed
  then show ?thesis using that t4(1) t6(1) ok' by (simp add: expire_penalties_def)
qed

lemma npenalties_card:
  assumes t: "tree_ok (sl_heap st) nx af (tree_of af st)"
  shows "t_npenalties (tree_of af st) = card (dom (penalties st af))"
proof -
  let ?t = "tree_of af st" and ?k = "akey (sl_heap st)"
  have "dom (penalties st af) = ?k ` set (t_by_addr ?t)"
    using penalties_iff[OF t] by (auto simp: dom_def)
  moreover have "inj_on ?k (set (t_by_addr ?t))"
    using t ordered_inj[of ?k "t_by_addr ?t"] by (auto simp: inj_on_def tree_ok_def)
  moreover have "card (set (t_by_addr ?t)) = t_npenalties ?t"
    using t ordered_distinct[of "ekey (sl_heap st)" "t_by_expiry ?t"]
    by (simp add: tree_ok_def distinct_card[symmetric])
  ultimately show ?thesis by (simp add: card_image)
qed

section \<open>Adding and accumulating penalties\<close>

lemma mask_addr_wf:
  assumes "wf_xaddr a" and "srclimit_mask_addr a l = Some m"
  shows "wf_xaddr m \<and> xa_af m = xa_af a"
proof -
  have l: "l \<le> af_width (xa_af a)"
    using assms by (cases "xa_af a") (auto simp: srclimit_mask_addr_def addr_netmask_def wf_xaddr_def split: if_splits)
  from mask_spec[OF assms(1) l] show ?thesis using assms(2) by (metis option.inject option.simps(5) srclimit_mask_addr_def)
qed

text \<open>The heap may change where a tree does not point.\<close>

lemma tree_ok_upd:
  "tree_ok h nx af t \<Longrightarrow> p \<notin> set (t_by_addr t) \<Longrightarrow> nx \<le> nx' \<Longrightarrow> tree_ok (h(p := x)) nx' af t"
  by (rule tree_ok_cong[of t "h(p := x)" h nx nx' af]) auto

lemma tree_ok_insert:
  assumes ok: "tree_ok h nx af t" and p: "p \<notin> set (t_by_addr t)" and new: "wf_xaddr (p_addr x)" "xa_af (p_addr x) = af"
    and fresh: "p < nx'" "nx \<le> nx'" and h': "h' = h(p := x)" and x2: "p_addr x2 = p_addr x" and h2: "h2 = h(p := x2)"
    and ins: "rb_insert (\<lambda>x y. penalty_addr_cmp (h' x) (h' y)) p (t_by_addr t) = (None, ys)"
  shows "\<exists>zs. rb_insert (\<lambda>x y. penalty_expiry_cmp (h2 x) (h2 y)) p (t_by_expiry t) = (None, zs) \<and>
    tree_ok h2 nx' af \<lparr>t_by_addr = ys, t_by_expiry = zs, t_npenalties = t_npenalties t + 1\<rparr> \<and>
    set ys = insert p (set (t_by_addr t)) \<and> (\<forall>q \<in> set (t_by_addr t). akey h q \<noteq> addr_key (p_addr x))"
proof -
  have t1: "tree_ok h' nx' af t" and t2: "tree_ok h2 nx' af t"
    using tree_ok_upd[OF ok p fresh(2)] by (simp_all add: h' h2)
  have wf: "wf_xaddr (p_addr (h' q))" "wf_xaddr (p_addr (h2 q))" if "q \<in> insert p (set (t_by_addr t))" for q
    using that t1 t2 new by (auto simp: tree_ok_def h' h2 x2)
  have A: "p \<notin> set (t_by_addr t) \<and> (\<forall>q \<in> set (t_by_addr t). akey h' q \<noteq> akey h' p) \<and> ordered (akey h') ys \<and>
      set ys = insert p (set (t_by_addr t)) \<and> length ys = Suc (length (t_by_addr t))"
    using rb_insert_spec[of "akey h'" "t_by_addr t" "\<lambda>x y. penalty_addr_cmp (h' x) (h' y)" p]
      addr_cmp_agrees(1)[of h' p] wf(1) t1 ins by (simp add: tree_ok_def)
  have keys: "akey h2 q = akey h' q" for q by (simp add: akey_def h' h2 x2)
  have E: "case rb_insert (\<lambda>x y. penalty_expiry_cmp (h2 x) (h2 y)) p (t_by_expiry t) of
      (Some e, zs) \<Rightarrow> zs = t_by_expiry t \<and> e \<in> set (t_by_expiry t) \<and> ekey h2 e = ekey h2 p
    | (None, zs) \<Rightarrow> p \<notin> set (t_by_expiry t) \<and> (\<forall>x \<in> set (t_by_expiry t). ekey h2 x \<noteq> ekey h2 p) \<and>
        ordered (ekey h2) zs \<and> set zs = insert p (set (t_by_expiry t)) \<and> length zs = Suc (length (t_by_expiry t))"
    using rb_insert_spec[of "ekey h2" "t_by_expiry t" "\<lambda>x y. penalty_expiry_cmp (h2 x) (h2 y)" p]
      addr_cmp_agrees(2)[of h2 p] wf(2) t2 by (simp add: tree_ok_def)
  have same: "set (t_by_expiry t) = set (t_by_addr t)" using ok by (simp add: tree_ok_def)
  have "\<not> (e \<in> set (t_by_expiry t) \<and> ekey h2 e = ekey h2 p)" for e
    using A same by (auto simp: ekey_def keys)
  then obtain zs where zs: "rb_insert (\<lambda>x y. penalty_expiry_cmp (h2 x) (h2 y)) p (t_by_expiry t) = (None, zs)"
      "ordered (ekey h2) zs" "set zs = insert p (set (t_by_expiry t))" "length zs = Suc (length (t_by_expiry t))"
    using E by (auto split: prod.splits option.splits)
  have "ordered (akey h2) ys" using A ordered_cong[of ys "akey h2" "akey h'"] keys by simp
  moreover have "\<forall>q \<in> set ys. q < nx' \<and> wf_xaddr (p_addr (h2 q)) \<and> xa_af (p_addr (h2 q)) = af"
    using A t2 wf(2) fresh new x2 by (auto simp: tree_ok_def h2)
  ultimately have "tree_ok h2 nx' af \<lparr>t_by_addr = ys, t_by_expiry = zs, t_npenalties = t_npenalties t + 1\<rparr>"
    using A zs same ok by (auto simp: tree_ok_def)
  moreover have "\<forall>q \<in> set (t_by_addr t). akey h q \<noteq> addr_key (p_addr x)"
    using A p by (auto simp: akey_def h' split: if_splits)
  ultimately show ?thesis using zs A by auto
qed

text \<open>What dropping the soonest-to-expire penalties leaves of a map \<open>m\<close>.\<close>

definition trimmed :: "nat \<Rightarrow> (nat \<Rightarrow> penalty option) \<Rightarrow> (nat \<Rightarrow> penalty option) \<Rightarrow> bool" where
  "trimmed n m m' \<longleftrightarrow> m' \<subseteq>\<^sub>m m \<and> card (dom m') = min n (card (dom m)) \<and>
     (\<forall>r \<in> ran (m |` (- dom m')). \<forall>q \<in> ran m'. p_expiry r \<le> p_expiry q)"

lemma trimmed_trees:
  assumes ok: "tree_ok (sl_heap st) nx af (tree_of af st)" "tree_ok (sl_heap st) nx af (tree_of af st')"
    and heap: "sl_heap st' = sl_heap st"
    and sub: "set (t_by_addr (tree_of af st')) \<subseteq> set (t_by_addr (tree_of af st))"
    and drop: "\<forall>r \<in> set (t_by_addr (tree_of af st)) - set (t_by_addr (tree_of af st')).
        \<forall>q \<in> set (t_by_addr (tree_of af st')). p_expiry (sl_heap st r) \<le> p_expiry (sl_heap st q)"
    and n: "t_npenalties (tree_of af st') = min n (t_npenalties (tree_of af st))"
  shows "trimmed n (penalties st af) (penalties st' af)"
proof -
  note ok' = ok(2)[folded heap]
  note iff = penalties_iff[OF ok(1)] penalties_iff[OF ok']
  have "penalties st' af \<subseteq>\<^sub>m penalties st af"
    unfolding map_le_def dom_def using iff sub heap by (auto, metis subsetD)
  moreover have "card (dom (penalties st' af)) = min n (card (dom (penalties st af)))"
    using n npenalties_card[OF ok(1)] npenalties_card[OF ok'] by simp
  moreover have "p_expiry r \<le> p_expiry q"
    if r: "r \<in> ran (penalties st af |` (- dom (penalties st' af)))" and q: "q \<in> ran (penalties st' af)" for r q
  proof -
    obtain k where k: "penalties st af k = Some r" "penalties st' af k = None"
      using r by (auto simp: ran_def restrict_map_def split: if_splits)
    then obtain p where p: "p \<in> set (t_by_addr (tree_of af st))" "akey (sl_heap st) p = k" "r = sl_heap st p"
      using iff(1) by auto
    have "p \<notin> set (t_by_addr (tree_of af st'))" using iff(2)[of k r] k p heap by auto
    moreover obtain p' where "p' \<in> set (t_by_addr (tree_of af st'))" "q = sl_heap st p'"
      using q iff(2) heap by (auto simp: ran_def)
    ultimately show ?thesis using drop p by auto
  qed
  ultimately show ?thesis by (auto simp: trimmed_def)
qed

lemma early_expire_tree:
  assumes "tree_ok h nx af t"
  obtains t' where "srclimit_early_expire_penalties_from_tree m t = Some t'" "tree_ok h nx af t'"
    "t_npenalties t' = min m (t_npenalties t)" "set (t_by_addr t') \<subseteq> set (t_by_addr t)"
    "\<forall>r \<in> set (t_by_addr t) - set (t_by_addr t'). \<forall>q \<in> set (t_by_addr t'). p_expiry (h r) \<le> p_expiry (h q)"
  using early_expire_from_tree_spec[of h nx af "t_npenalties t" t m] assms
  by (auto simp: srclimit_early_expire_penalties_from_tree_def min.commute)

lemma early_expire_spec:
  assumes ok: "\<And>af. af = AF_INET \<or> af = AF_INET6 \<Longrightarrow> tree_ok (sl_heap st) (sl_next st) af (tree_of af st)"
  obtains t4 t6 where "srclimit_early_expire_penalties st = Some (st\<lparr>sl_tree4 := t4, sl_tree6 := t6\<rparr>)"
    "sl_ok (st\<lparr>sl_tree4 := t4, sl_tree6 := t6\<rparr>)"
    "\<And>af. af = AF_INET \<or> af = AF_INET6 \<Longrightarrow>
       trimmed (max_sources_of af st) (penalties st af) (penalties (st\<lparr>sl_tree4 := t4, sl_tree6 := t6\<rparr>) af)"
proof -
  obtain t4 where t4: "srclimit_early_expire_penalties_from_tree (max_sources_of AF_INET st) (tree_of AF_INET st) = Some t4"
      "tree_ok (sl_heap st) (sl_next st) AF_INET t4"
      "t_npenalties t4 = min (max_sources_of AF_INET st) (t_npenalties (tree_of AF_INET st))"
      "set (t_by_addr t4) \<subseteq> set (t_by_addr (tree_of AF_INET st))"
      "\<forall>r \<in> set (t_by_addr (tree_of AF_INET st)) - set (t_by_addr t4). \<forall>q \<in> set (t_by_addr t4).
         p_expiry (sl_heap st r) \<le> p_expiry (sl_heap st q)"
    using early_expire_tree[OF ok[of AF_INET]] by metis
  obtain t6 where t6: "srclimit_early_expire_penalties_from_tree (max_sources_of AF_INET6 st) (tree_of AF_INET6 st) = Some t6"
      "tree_ok (sl_heap st) (sl_next st) AF_INET6 t6"
      "t_npenalties t6 = min (max_sources_of AF_INET6 st) (t_npenalties (tree_of AF_INET6 st))"
      "set (t_by_addr t6) \<subseteq> set (t_by_addr (tree_of AF_INET6 st))"
      "\<forall>r \<in> set (t_by_addr (tree_of AF_INET6 st)) - set (t_by_addr t6). \<forall>q \<in> set (t_by_addr t6).
         p_expiry (sl_heap st r) \<le> p_expiry (sl_heap st q)"
    using early_expire_tree[OF ok[of AF_INET6]] by metis
  let ?st = "st\<lparr>sl_tree4 := t4, sl_tree6 := t6\<rparr>"
  have trees: "tree_of AF_INET ?st = t4" "tree_of AF_INET6 ?st = t6" by (simp_all add: tree_of_def)
  have ok': "sl_ok ?st" using t4(2,3) t6(2,3) by (auto simp: sl_ok_def trees max_sources_of_def)
  have "trimmed (max_sources_of af st) (penalties st af) (penalties ?st af)" if "af = AF_INET \<or> af = AF_INET6" for af
    using that t4 t6 ok by (elim disjE; intro trimmed_trees[of st "sl_next st" af ?st]) (auto simp: trees)
  then show ?thesis using that t4(1) t6(1) ok'
    by (simp add: srclimit_early_expire_penalties_def max_sources_of_def tree_of_def)
qed

abbreviation other_af :: "af \<Rightarrow> af" where
  "other_af af \<equiv> (if af = AF_INET then AF_INET6 else AF_INET)"

text \<open>The state with a new penalty \<open>x\<close> in both trees of its family.\<close>

lemma inserted_state:
  assumes ok: "sl_ok st" and af: "af = AF_INET \<or> af = AF_INET6"
    and h2: "h2 = (sl_heap st)(sl_next st := x)"
    and t1: "tree_ok h2 (sl_next st + 1) af t1" and ys: "set (t_by_addr t1) = insert (sl_next st) (set (t_by_addr (tree_of af st)))"
    and new: "\<forall>q \<in> set (t_by_addr (tree_of af st)). akey (sl_heap st) q \<noteq> addr_key (p_addr x)"
  defines "st1 \<equiv> set_tree af t1 (st\<lparr>sl_heap := h2, sl_next := sl_next st + 1\<rparr>)"
  shows "\<And>a. a = AF_INET \<or> a = AF_INET6 \<Longrightarrow> tree_ok (sl_heap st1) (sl_next st1) a (tree_of a st1)"
    and "penalties st1 af = (penalties st af)(addr_key (p_addr x) \<mapsto> x)"
    and "penalties st1 (other_af af) = penalties st (other_af af)"
    and "penalties st af (addr_key (p_addr x)) = None"
proof -
  let ?p = "sl_next st"
  have t: "tree_ok (sl_heap st) ?p a (tree_of a st)" if "a = AF_INET \<or> a = AF_INET6" for a
    by (rule sl_okD(1)[OF ok that])
  have fresh: "?p \<notin> set (t_by_addr (tree_of a st))" if "a = AF_INET \<or> a = AF_INET6" for a
    using t[OF that] by (auto simp: tree_ok_def)
  have trees: "tree_of af st1 = t1" "tree_of (other_af af) st1 = tree_of (other_af af) st" "sl_heap st1 = h2"
    "sl_next st1 = ?p + 1"
    using af by (auto simp: st1_def)
  have other: "other_af af = AF_INET \<or> other_af af = AF_INET6" by simp
  show ok1: "tree_ok (sl_heap st1) (sl_next st1) a (tree_of a st1)" if "a = AF_INET \<or> a = AF_INET6" for a
  proof (cases "a = af")
    case False
    then have "a = other_af af" using that af by auto
    then show ?thesis using tree_ok_upd[OF t[OF other] fresh[OF other], of "?p + 1" x] trees by (simp add: h2)
  qed (use t1 trees in simp)
  note iff = penalties_iff[OF ok1[OF af]] penalties_iff[OF t[OF af]]
  have keys: "akey h2 q = akey (sl_heap st) q \<and> h2 q = sl_heap st q" if "q \<noteq> ?p" for q
    using that by (simp add: akey_def h2)
  show none: "penalties st af (addr_key (p_addr x)) = None" using iff(2) new by (metis option.exhaust_sel)
  have "penalties st1 af k = Some q \<longleftrightarrow> ((penalties st af)(addr_key (p_addr x) \<mapsto> x)) k = Some q" for k q
  proof -
    have p: "akey h2 ?p = addr_key (p_addr x)" "h2 ?p = x" by (simp_all add: akey_def h2)
    have "penalties st1 af k = Some q \<longleftrightarrow> (akey h2 ?p = k \<and> q = h2 ?p) \<or>
        (\<exists>r \<in> set (t_by_addr (tree_of af st)). akey h2 r = k \<and> q = h2 r)"
      using iff(1)[of k q] trees ys by auto
    also have "\<dots> \<longleftrightarrow> (addr_key (p_addr x) = k \<and> q = x) \<or>
        (\<exists>r \<in> set (t_by_addr (tree_of af st)). akey (sl_heap st) r = k \<and> q = sl_heap st r)"
      using p keys fresh[OF af] by metis
    also have "\<dots> \<longleftrightarrow> (addr_key (p_addr x) = k \<and> q = x) \<or> penalties st af k = Some q"
      using iff(2)[of k q] by simp
    finally show ?thesis using none by auto
  qed
  then show "penalties st1 af = (penalties st af)(addr_key (p_addr x) \<mapsto> x)" by (intro ext option_ext)
  have "penalties st1 (other_af af) k = Some q \<longleftrightarrow> penalties st (other_af af) k = Some q" for k q
    using penalties_iff[OF ok1[OF other], of k q] penalties_iff[OF t[OF other], of k q] keys fresh[OF other] trees
    by (metis (no_types, lifting))
  then show "penalties st1 (other_af af) = penalties st (other_af af)" by (intro ext option_ext)
qed

lemma trimmed_id: "card (dom m) \<le> n \<Longrightarrow> finite (dom m) \<Longrightarrow> trimmed n m m' \<Longrightarrow> m' = m"
  by (auto simp: trimmed_def intro!: map_le_antisym)
     (metis card_subset_eq map_le_def map_le_implies_dom_le min.absorb2)

lemma penalise_new_spec:
  assumes ok: "sl_ok st" and af: "af = AF_INET \<or> af = AF_INET6"
    and x: "wf_xaddr (p_addr x)" "xa_af (p_addr x) = af" "\<not> p_active x"
    and h: "h = (sl_heap st)(sl_next st := x)"
    and ins: "rb_insert (\<lambda>x y. penalty_addr_cmp (h x) (h y)) (sl_next st) (t_by_addr (tree_of af st)) = (None, ys)"
    and x2: "x2 = x\<lparr>p_active := secs > pc_penalty_min (sl_penalty_cfg st)\<rparr>"
  shows "\<exists>st'. penalise_new af (sl_next st) secs (set_tree af ((tree_of af st)\<lparr>t_by_addr := ys\<rparr>)
        (st\<lparr>sl_heap := h, sl_next := sl_next st + 1\<rparr>)) = Some st' \<and> sl_ok st' \<and>
      trimmed (max_sources_of af st) ((penalties st af)(addr_key (p_addr x) \<mapsto> x2)) (penalties st' af) \<and>
      penalties st af (addr_key (p_addr x)) = None"
proof -
  let ?p = "sl_next st" and ?t = "tree_of af st"
  define h2 where "h2 = (sl_heap st)(?p := x2)"
  have heap: "(if secs > pc_penalty_min (sl_penalty_cfg st) then h(?p := (h ?p)\<lparr>p_active := True\<rparr>) else h) = h2"
    using x(3) x2 by (auto simp: h h2_def)
  have t: "tree_ok (sl_heap st) ?p af ?t" by (rule sl_okD(1)[OF ok af])
  then have fresh: "?p \<notin> set (t_by_addr ?t)" by (auto simp: tree_ok_def)
  have addr: "p_addr x2 = p_addr x" by (simp add: x2)
  obtain zs where zs: "rb_insert (\<lambda>x y. penalty_expiry_cmp (h2 x) (h2 y)) ?p (t_by_expiry ?t) = (None, zs)"
      "tree_ok h2 (?p + 1) af \<lparr>t_by_addr = ys, t_by_expiry = zs, t_npenalties = t_npenalties ?t + 1\<rparr>"
      "set ys = insert ?p (set (t_by_addr ?t))" "\<forall>q \<in> set (t_by_addr ?t). akey (sl_heap st) q \<noteq> addr_key (p_addr x)"
    using tree_ok_insert[OF t fresh x(1,2) _ _ h addr h2_def ins, of "?p + 1"] by auto
  let ?t1 = "?t\<lparr>t_by_addr := ys, t_by_expiry := zs, t_npenalties := t_npenalties ?t + 1\<rparr>"
  let ?st0 = "set_tree af (?t\<lparr>t_by_addr := ys\<rparr>) (st\<lparr>sl_heap := h, sl_next := ?p + 1\<rparr>)"
  define st1 where "st1 = set_tree af ?t1 (st\<lparr>sl_heap := h2, sl_next := ?p + 1\<rparr>)"
  have t1: "tree_ok h2 (?p + 1) af ?t1" using zs(2) by (simp add: tree_ok_def)
  have st0: "tree_of af ?st0 = ?t\<lparr>t_by_addr := ys\<rparr>" "sl_heap ?st0 = h" "sl_penalty_cfg ?st0 = sl_penalty_cfg st"
    "max_sources_of af ?st0 = max_sources_of af st" by simp_all
  have upd: "set_tree af ?t1 (?st0\<lparr>sl_heap := h2\<rparr>) = st1" by (simp add: st1_def set_tree_def)
  have run: "penalise_new af ?p secs ?st0 =
      (if t_npenalties ?t + 1 > max_sources_of af st then srclimit_early_expire_penalties st1 else Some st1)"
    unfolding penalise_new_def Let_def st0 heap using zs(1) upd by simp
  note st1 = inserted_state[OF ok af h2_def t1, folded st1_def, unfolded addr, simplified, OF zs(3,4)]
  have maxs: "max_sources_of a st1 = max_sources_of a st" for a by (simp add: st1_def)
  show ?thesis
  proof (cases "t_npenalties ?t + 1 > max_sources_of af st")
    case True
    obtain t4 t6 where "srclimit_early_expire_penalties st1 = Some (st1\<lparr>sl_tree4 := t4, sl_tree6 := t6\<rparr>)"
      "sl_ok (st1\<lparr>sl_tree4 := t4, sl_tree6 := t6\<rparr>)"
      "trimmed (max_sources_of af st1) (penalties st1 af) (penalties (st1\<lparr>sl_tree4 := t4, sl_tree6 := t6\<rparr>) af)"
      using early_expire_spec[of st1] st1(1) af by metis
    then show ?thesis using run True st1 maxs by auto
  next
    case False
    have n1: "t_npenalties (tree_of af st1) = t_npenalties ?t + 1" by (simp add: st1_def)
    have "t_npenalties (tree_of a st1) \<le> max_sources_of a st1" if "a = AF_INET \<or> a = AF_INET6" for a
      using that sl_okD(2)[OF ok that] False af by (auto simp: st1_def)
    then have "sl_ok st1" using st1(1) by (auto simp: sl_ok_def)
    moreover have "trimmed (max_sources_of af st) (penalties st1 af) (penalties st1 af)"
      using False n1 npenalties_card[OF st1(1)[OF af]] by (auto simp: trimmed_def ran_def restrict_map_def)
    ultimately show ?thesis using run False st1 by auto
  qed
qed

lemma tree_ok_reinsert:
  assumes ok: "tree_ok h nx af t" and e: "e \<in> set (t_by_addr t)" and x: "p_addr x = p_addr (h e)" and h': "h' = h(e := x)"
  obtains zs where "rb_insert (\<lambda>x y. penalty_expiry_cmp (h' x) (h' y)) e (remove1 e (t_by_expiry t)) = (None, zs)"
    "tree_ok h' nx af (t\<lparr>t_by_expiry := zs\<rparr>)"
proof -
  let ?es = "remove1 e (t_by_expiry t)"
  have dist: "distinct (t_by_expiry t)" and eq: "set (t_by_expiry t) = set (t_by_addr t)"
    using ok ordered_distinct by (auto simp: tree_ok_def)
  then have set: "set ?es = set (t_by_addr t) - {e}" and len: "Suc (length ?es) = length (t_by_expiry t)"
    using e length_remove1[of e "t_by_expiry t"] length_pos_if_in_set[of e "t_by_expiry t"] by auto
  have keys: "akey h' q = akey h q" for q by (simp add: akey_def h' x)
  have wf: "wf_xaddr (p_addr (h' q))" "xa_af (p_addr (h' q)) = af" "q < nx" if "q \<in> set (t_by_addr t)" for q
    using ok that x e by (auto simp: tree_ok_def h')
  have "h' q = h q" if "q \<in> set ?es" for q
  proof -
    have "q \<noteq> e" using that set by blast
    then show ?thesis by (simp add: h')
  qed
  then have "ordered (ekey h') ?es = ordered (ekey h) ?es"
    by (intro ordered_cong) (simp add: ekey_def keys)
  then have ord: "ordered (ekey h') ?es" using ok ordered_remove1 by (auto simp: tree_ok_def)
  have agree: "cmp_agrees (\<lambda>x y. penalty_expiry_cmp (h' x) (h' y)) (ekey h') e q" if "q \<in> set ?es" for q
    using addr_cmp_agrees(2)[of h' e q] wf(1) e set that by auto
  have none: "\<not> (q \<in> set ?es \<and> ekey h' q = ekey h' e)" for q
    using ordered_inj[of "akey h" "t_by_addr t" q e] ok e set by (auto simp: ekey_def keys tree_ok_def)
  obtain zs where zs: "rb_insert (\<lambda>x y. penalty_expiry_cmp (h' x) (h' y)) e ?es = (None, zs)"
      "ordered (ekey h') zs" "set zs = insert e (set ?es)" "length zs = Suc (length ?es)"
    using rb_insert_spec[of "ekey h'" ?es "\<lambda>x y. penalty_expiry_cmp (h' x) (h' y)" e, OF ord agree] none
    by (auto split: prod.splits option.splits)
  have "ordered (akey h') (t_by_addr t)" using ok ordered_cong[of "t_by_addr t" "akey h'" "akey h"] keys by (simp add: tree_ok_def)
  then have "tree_ok h' nx af (t\<lparr>t_by_expiry := zs\<rparr>)"
    using ok wf zs set len e by (auto simp: tree_ok_def)
  then show ?thesis using that zs(1) by blast
qed

text \<open>The penalty an address has after another one of \<open>secs\<close> seconds.\<close>

definition accumulated :: "per_source_penalty \<Rightarrow> xaddr \<Rightarrow> real \<Rightarrow> real \<Rightarrow> string \<Rightarrow> penalty option \<Rightarrow> penalty" where
  "accumulated cfg masked now secs reason old =
     (case old of
        None \<Rightarrow> \<lparr>p_addr = masked, p_expiry = now + secs, p_active = secs > pc_penalty_min cfg, p_reason = reason\<rparr>
      | Some q \<Rightarrow>
          (let expiry = min (p_expiry q + secs) (now + pc_penalty_max cfg)
           in q\<lparr>p_expiry := expiry, p_active := (p_active q \<or> expiry - now > pc_penalty_min cfg), p_reason := reason\<rparr>))"

lemma penalise_existing_spec:
  assumes ok: "sl_ok st" and af: "af = AF_INET \<or> af = AF_INET6" and e: "e \<in> set (t_by_addr (tree_of af st))"
    and x: "x = accumulated (sl_penalty_cfg st) masked now secs reason (Some (sl_heap st e))"
  shows "\<exists>st'. penalise_existing af e now secs reason st = Some st' \<and> sl_ok st' \<and>
    penalties st' af = (penalties st af)(akey (sl_heap st) e \<mapsto> x) \<and>
    penalties st af (akey (sl_heap st) e) = Some (sl_heap st e)"
proof -
  let ?t = "tree_of af st"
  define h' where "h' = (sl_heap st)(e := x)"
  have t: "tree_ok (sl_heap st) (sl_next st) a (tree_of a st)" if "a = AF_INET \<or> a = AF_INET6" for a
    by (rule sl_okD(1)[OF ok that])
  have addr: "p_addr x = p_addr (sl_heap st e)" by (simp add: x accumulated_def Let_def)
  obtain zs where zs: "rb_insert (\<lambda>x y. penalty_expiry_cmp (h' x) (h' y)) e (remove1 e (t_by_expiry ?t)) = (None, zs)"
    "tree_ok h' (sl_next st) af (?t\<lparr>t_by_expiry := zs\<rparr>)"
    using tree_ok_reinsert[OF t[OF af] e addr h'_def] by blast
  define st' where "st' = set_tree af (?t\<lparr>t_by_expiry := zs\<rparr>) (st\<lparr>sl_heap := h'\<rparr>)"
  let ?old = "sl_heap st e" and ?cfg = "sl_penalty_cfg st"
  let ?exp = "if p_expiry ?old + secs - now > pc_penalty_max ?cfg then now + pc_penalty_max ?cfg else p_expiry ?old + secs"
  have "?exp = min (p_expiry ?old + secs) (now + pc_penalty_max ?cfg)" by auto
  then have heap: "(sl_heap st)(e := ?old\<lparr>p_expiry := ?exp, p_active := (p_active ?old \<or> ?exp - now > pc_penalty_min ?cfg),
      p_reason := reason\<rparr>) = h'" unfolding h'_def x accumulated_def by (simp add: Let_def)
  have run: "penalise_existing af e now secs reason st = Some st'"
    unfolding penalise_existing_def Let_def heap zs(1) st'_def by simp
  have other: "e \<notin> set (t_by_addr (tree_of (other_af af) st))"
    using t[OF af] t[of "other_af af"] e af by (auto simp: tree_ok_def)
  have ok': "tree_ok (sl_heap st') (sl_next st') a (tree_of a st')" if "a = AF_INET \<or> a = AF_INET6" for a
  proof (cases "a = af")
    case False
    then have "a = other_af af" using that af by auto
    then show ?thesis using tree_ok_upd[OF t[OF that], of e "sl_next st" x] other af by (auto simp: st'_def h'_def)
  qed (use zs(2) in \<open>simp add: st'_def\<close>)
  have "t_npenalties (tree_of a st') = t_npenalties (tree_of a st)" for a
    by (auto simp: st'_def tree_of_def set_tree_def)
  then have "sl_ok st'" using ok ok' by (auto simp: sl_ok_def st'_def)
  have keys: "akey h' q = akey (sl_heap st) q" for q by (simp add: akey_def h'_def addr)
  have inj: "q = e" if "q \<in> set (t_by_addr ?t)" "akey (sl_heap st) q = akey (sl_heap st) e" for q
    using ordered_inj[of "akey (sl_heap st)" "t_by_addr ?t" q e] t[OF af] that e by (auto simp: tree_ok_def)
  note iff = penalties_iff[OF ok'[OF af]] penalties_iff[OF t[OF af]]
  have old: "penalties st af (akey (sl_heap st) e) = Some ?old" using iff(2) e by blast
  have "penalties st' af k = Some q \<longleftrightarrow> ((penalties st af)(akey (sl_heap st) e \<mapsto> x)) k = Some q" for k q
  proof -
    have "penalties st' af k = Some q \<longleftrightarrow> (\<exists>r \<in> set (t_by_addr ?t). akey (sl_heap st) r = k \<and> q = h' r)"
      using iff(1)[of k q] by (simp add: st'_def keys)
    also have "\<dots> \<longleftrightarrow> (if k = akey (sl_heap st) e then q = x
        else (\<exists>r \<in> set (t_by_addr ?t). akey (sl_heap st) r = k \<and> q = sl_heap st r))"
      using inj e unfolding h'_def by (metis fun_upd_apply)
    finally show ?thesis using iff(2)[of k q] by auto
  qed
  then have "penalties st' af = (penalties st af)(akey (sl_heap st) e \<mapsto> x)" by (intro ext option_ext)
  with run \<open>sl_ok st'\<close> old show ?thesis by blast
qed

section \<open>The two entry points\<close>

text \<open>The table of a family is full, for the penalties \<open>m\<close> in force.\<close>

definition table_full :: "srclimit \<Rightarrow> af \<Rightarrow> (nat \<Rightarrow> penalty option) \<Rightarrow> bool" where
  "table_full st af m \<longleftrightarrow> card (dom m) \<ge> max_sources_of af st"

lemma peer_wf: "srclimit_peer_addr peer = Some a \<Longrightarrow> wf_xaddr a"
  by (auto simp: srclimit_peer_addr_def addr_sa_to_xaddr_def wf_xaddr_def split: option.splits sockaddr.splits if_splits)

lemma expired_frame:
  "max_sources_of af (st\<lparr>sl_tree4 := t4, sl_tree6 := t6\<rparr>) = max_sources_of af st"
  "overflow_mode_of af (st\<lparr>sl_tree4 := t4, sl_tree6 := t6\<rparr>) = overflow_mode_of af st"
  "masklen_for a (st\<lparr>sl_tree4 := t4, sl_tree6 := t6\<rparr>) = masklen_for a st"
  by (simp_all add: max_sources_of_def overflow_mode_of_def masklen_for_def)

lemma find_penalty:
  assumes ok: "sl_ok st" and af: "af = AF_INET \<or> af = AF_INET6" and key: "wf_xaddr key" "xa_af key = af"
  shows "map_option (sl_heap st) (find (\<lambda>p. addr_cmp key (p_addr (sl_heap st p)) = 0) (t_by_addr (tree_of af st))) =
    penalties st af (addr_key key)"
proof -
  have "(addr_cmp key (p_addr (sl_heap st p)) = 0) = (akey (sl_heap st) p = addr_key key)"
    if "p \<in> set (t_by_addr (tree_of af st))" for p
  proof -
    have "wf_xaddr (p_addr (sl_heap st p))" using sl_okD(1)[OF ok af] that by (auto simp: tree_ok_def)
    from addr_cmp_key[OF key(1) this] show ?thesis by (auto simp: akey_def sgn_if split: if_splits)
  qed
  then have "find (\<lambda>p. addr_cmp key (p_addr (sl_heap st p)) = 0) (t_by_addr (tree_of af st)) =
      find (\<lambda>p. akey (sl_heap st) p = addr_key key) (t_by_addr (tree_of af st))"
    by (intro find_cong) auto
  then show ?thesis by (simp add: penalties_def)
qed

lemma penalty_check_spec:
  assumes ok: "sl_ok st" and on: "pc_enabled (sl_penalty_cfg st)" and addr: "srclimit_peer_addr peer = Some a"
    and ex: "\<not> penalty_exempted env a NI_MAXHOST st" and key: "srclimit_mask_addr a (masklen_for a st) = Some masked"
    and m: "m = live st now (xa_af a)"
  shows "\<exists>st'. sl_ok st' \<and> srclimit_penalty_check_allow env peer now st =
    Some (if table_full st (xa_af a) m \<and> overflow_mode_of (xa_af a) st = PER_SOURCE_PENALTY_OVERFLOW_DENY_ALL
          then Some ''too many penalised addresses''
          else (case m (addr_key masked) of
                  Some q \<Rightarrow> if p_active q then Some (p_reason q) else None
                | None \<Rightarrow> None), st')"
proof -
  have wf: "wf_xaddr a" using peer_wf[OF addr] .
  then have af: "xa_af a = AF_INET \<or> xa_af a = AF_INET6" by (auto simp: wf_xaddr_def)
  obtain t4 t6 where exp: "expire_penalties now st = Some (st\<lparr>sl_tree4 := t4, sl_tree6 := t6\<rparr>)"
    and ok1: "sl_ok (st\<lparr>sl_tree4 := t4, sl_tree6 := t6\<rparr>)"
    and pen: "penalties (st\<lparr>sl_tree4 := t4, sl_tree6 := t6\<rparr>) (xa_af a) = m"
    using expire_penalties_spec[OF ok, of now] af unfolding m by metis
  let ?st = "st\<lparr>sl_tree4 := t4, sl_tree6 := t6\<rparr>"
  have full: "t_npenalties (tree_of (xa_af a) ?st) \<ge> max_sources_of (xa_af a) ?st \<longleftrightarrow> table_full st (xa_af a) m"
    using npenalties_card[OF sl_okD(1)[OF ok1 af]] pen by (simp add: table_full_def)
  note find = find_penalty[OF ok1 af, of masked, unfolded pen]
  have mwf: "wf_xaddr masked" "xa_af masked = xa_af a" using mask_addr_wf[OF wf key] by auto
  have now: "\<not> p_expiry q < now" if "m k = Some q" for k q using that by (auto simp: m live_Some)
  show ?thesis
  proof (cases "find (\<lambda>p. addr_cmp masked (p_addr (sl_heap st p)) = 0) (t_by_addr (tree_of (xa_af a) ?st))")
    case None
    then have "m (addr_key masked) = None" using find[OF mwf] by simp
    then show ?thesis using on addr ex exp ok1 full key None expired_frame
      by (intro exI[of _ ?st]) (simp add: srclimit_penalty_check_allow_def Let_def)
  next
    case (Some p)
    then have mk: "m (addr_key masked) = Some (sl_heap st p)" using find[OF mwf] by simp
    then show ?thesis using on addr ex exp ok1 full key Some expired_frame now[OF mk]
      by (intro exI[of _ ?st]) (simp add: srclimit_penalty_check_allow_def Let_def)
  qed
qed

lemma trimmed_refl: "card (dom m) \<le> n \<Longrightarrow> trimmed n m m"
  by (auto simp: trimmed_def ran_def restrict_map_def)

text \<open>The insertion by address finds the penalty of the address, or there is none.\<close>

lemma penalise_insert:
  assumes ok: "sl_ok st" and af: "af = AF_INET \<or> af = AF_INET6"
    and x: "wf_xaddr masked" "xa_af masked = af"
      "x = \<lparr>p_addr = masked, p_expiry = now + secs, p_active = False, p_reason = reason\<rparr>"
    and h: "h = (sl_heap st)(sl_next st := x)" and m: "m = penalties st af"
  shows "\<exists>st'. (case rb_insert (\<lambda>x y. penalty_addr_cmp (h x) (h y)) (sl_next st) (t_by_addr (tree_of af st)) of
         (None, by_addr) \<Rightarrow> penalise_new af (sl_next st) secs
           (set_tree af ((tree_of af st)\<lparr>t_by_addr := by_addr\<rparr>) (st\<lparr>sl_heap := h, sl_next := sl_next st + 1\<rparr>))
       | (Some e, _) \<Rightarrow> penalise_existing af e now secs reason st) = Some st' \<and> sl_ok st' \<and>
     trimmed (max_sources_of af st)
       (m(addr_key masked \<mapsto> accumulated (sl_penalty_cfg st) masked now secs reason (m (addr_key masked))))
       (penalties st' af)"
proof -
  let ?t = "tree_of af st" and ?p = "sl_next st" and ?cfg = "sl_penalty_cfg st"
  have t: "tree_ok (sl_heap st) ?p af ?t" by (rule sl_okD(1)[OF ok af])
  then have fresh: "?p \<notin> set (t_by_addr ?t)" by (auto simp: tree_ok_def)
  have th: "tree_ok h ?p af ?t" using tree_ok_upd[OF t fresh] by (simp add: h)
  obtain r ys where ins: "rb_insert (\<lambda>x y. penalty_addr_cmp (h x) (h y)) ?p (t_by_addr ?t) = (r, ys)" by fastforce
  show ?thesis
  proof (cases r)
    case None
    have x': "wf_xaddr (p_addr x)" "xa_af (p_addr x) = af" "\<not> p_active x" using x by simp_all
    have new: "m (addr_key masked) = None \<Longrightarrow> accumulated ?cfg masked now secs reason (m (addr_key masked)) =
        x\<lparr>p_active := secs > pc_penalty_min ?cfg\<rparr>" by (simp add: accumulated_def x)
    show ?thesis using penalise_new_spec[OF ok af x' h, of ys _ secs, OF _ refl] ins None x(3) m new by auto
  next
    case (Some e)
    have "cmp_agrees (\<lambda>x y. penalty_addr_cmp (h x) (h y)) (akey h) ?p q" if "q \<in> set (t_by_addr ?t)" for q
      using addr_cmp_agrees(1)[of h ?p q] th that x by (auto simp: tree_ok_def h)
    then have e: "e \<in> set (t_by_addr ?t)" "akey h e = akey h ?p"
      using rb_insert_spec[of "akey h" "t_by_addr ?t" "\<lambda>x y. penalty_addr_cmp (h x) (h y)" ?p] th ins Some
      by (auto simp: tree_ok_def)
    then have "e \<noteq> ?p" using fresh by auto
    then have key: "akey (sl_heap st) e = addr_key masked" using e(2) by (simp add: akey_def h x)
    obtain st' where st': "penalise_existing af e now secs reason st = Some st'" "sl_ok st'"
      "penalties st' af = m(addr_key masked \<mapsto> accumulated ?cfg masked now secs reason (Some (sl_heap st e)))"
      "m (addr_key masked) = Some (sl_heap st e)"
      using penalise_existing_spec[OF ok af e(1) refl, of now secs reason masked] key m by auto
    have "card (dom m) \<le> max_sources_of af st" using npenalties_card[OF t] sl_okD(2)[OF ok af] m by simp
    then have "trimmed (max_sources_of af st) (penalties st' af) (penalties st' af)"
      using st'(3,4) by (intro trimmed_refl) (simp add: insert_absorb domI)
    then show ?thesis using st' ins Some by simp
  qed
qed

lemma penalise_spec:
  assumes ok: "sl_ok st" and wf: "wf_xaddr a" and on: "pc_enabled (sl_penalty_cfg st)"
    and ex: "\<not> penalty_exempted env a (NI_MAXHOST + 4) st"
    and pen: "penalty_for (sl_penalty_cfg st) ty = Some (secs, reason)" "secs > 0"
    and key: "srclimit_mask_addr a (masklen_for a st) = Some masked" and m: "m = live st now (xa_af a)"
  shows "\<exists>st'. srclimit_penalise env a ty now st = Some st' \<and> sl_ok st' \<and>
    (if table_full st (xa_af a) m \<and> overflow_mode_of (xa_af a) st = PER_SOURCE_PENALTY_OVERFLOW_DENY_ALL
     then penalties st' (xa_af a) = m
     else trimmed (max_sources_of (xa_af a) st)
            (m(addr_key masked \<mapsto> accumulated (sl_penalty_cfg st) masked now secs reason (m (addr_key masked))))
            (penalties st' (xa_af a)))"
proof -
  have af: "xa_af a = AF_INET \<or> xa_af a = AF_INET6" using wf by (auto simp: wf_xaddr_def)
  obtain t4 t6 where exp: "expire_penalties now st = Some (st\<lparr>sl_tree4 := t4, sl_tree6 := t6\<rparr>)"
    and ok1: "sl_ok (st\<lparr>sl_tree4 := t4, sl_tree6 := t6\<rparr>)"
    and pen1: "penalties (st\<lparr>sl_tree4 := t4, sl_tree6 := t6\<rparr>) (xa_af a) = m"
    using expire_penalties_spec[OF ok, of now] af unfolding m by metis
  define st1 where "st1 = st\<lparr>sl_tree4 := t4, sl_tree6 := t6\<rparr>"
  note ok1 = ok1[folded st1_def] and pen1 = pen1[folded st1_def] and exp = exp[folded st1_def]
  have frame: "sl_penalty_cfg st1 = sl_penalty_cfg st" "overflow_mode_of (xa_af a) st1 = overflow_mode_of (xa_af a) st"
      "max_sources_of (xa_af a) st1 = max_sources_of (xa_af a) st"
    using expired_frame by (simp_all add: st1_def)
  have full: "t_npenalties (tree_of (xa_af a) st1) \<ge> max_sources_of (xa_af a) st1 \<longleftrightarrow> table_full st (xa_af a) m"
    using npenalties_card[OF sl_okD(1)[OF ok1 af]] pen1 frame by (simp add: table_full_def)
  note ins = penalise_insert[OF ok1 af conjunct1[OF mask_addr_wf[OF wf key]] conjunct2[OF mask_addr_wf[OF wf key]]
    refl refl pen1[symmetric], where now = now and secs = secs and reason = reason, unfolded frame]
  show ?thesis
  proof (cases "table_full st (xa_af a) m \<and> overflow_mode_of (xa_af a) st = PER_SOURCE_PENALTY_OVERFLOW_DENY_ALL")
    case True
    then show ?thesis using on ex pen key exp full frame ok1 pen1 by (simp add: srclimit_penalise_def Let_def)
  next
    case False
    let ?x = "\<lparr>p_addr = masked, p_expiry = now + secs, p_active = False, p_reason = reason\<rparr>"
    let ?h = "(sl_heap st1)(sl_next st1 := ?x)" and ?t = "tree_of (xa_af a) st1"
    have "srclimit_penalise env a ty now st =
      (case rb_insert (\<lambda>x y. penalty_addr_cmp (?h x) (?h y)) (sl_next st1) (t_by_addr ?t) of
         (None, by_addr) \<Rightarrow> penalise_new (xa_af a) (sl_next st1) secs
           (set_tree (xa_af a) (?t\<lparr>t_by_addr := by_addr\<rparr>) (st1\<lparr>sl_heap := ?h, sl_next := sl_next st1 + 1\<rparr>))
       | (Some e, _) \<Rightarrow> penalise_existing (xa_af a) e now secs reason st1)"
      using False on ex pen key exp full frame by (auto simp: srclimit_penalise_def Let_def)
    then show ?thesis using False ins by (simp only: if_False)
  qed
qed

section \<open>Connections\<close>

text \<open>The slots that an address occupies.\<close>

definition used_by :: "nat \<Rightarrow> child_info \<Rightarrow> bool" where
  "used_by k c \<longleftrightarrow> ch_id c \<noteq> -1 \<and> addr_key (ch_addr c) = k"

definition children_ok :: "srclimit \<Rightarrow> bool" where
  "children_ok st \<longleftrightarrow> (\<forall>c \<in> set (sl_children st). ch_id c \<noteq> -1 \<longrightarrow> wf_xaddr (ch_addr c)) \<and>
     (sl_max_persource st \<noteq> INT_MAX \<longrightarrow> length (sl_children st) = nat (sl_max_children st)) \<and>
     (\<forall>k. int (length (filter (used_by k) (sl_children st))) \<le> max 0 (sl_max_persource st))"

lemma count_loop_spec:
  assumes "wf_xaddr xb" and "\<forall>c \<in> set cs. ch_id c \<noteq> -1 \<longrightarrow> wf_xaddr (ch_addr c)"
  shows "snd (count_loop cs xb i fu n) = n + length (filter (used_by (addr_key xb)) cs) \<and>
    fst (count_loop cs xb i fu n) \<le> fu \<and>
    (fst (count_loop cs xb i fu n) < fu \<longrightarrow> i \<le> fst (count_loop cs xb i fu n) \<and>
       fst (count_loop cs xb i fu n) < i + length cs \<and> ch_id (cs ! (fst (count_loop cs xb i fu n) - i)) = -1)"
  using assms(2)
proof (induction cs arbitrary: i fu n)
  case (Cons c cs)
  have cmp: "(addr_cmp (ch_addr c) xb = 0) = (addr_key (ch_addr c) = addr_key xb)" if "ch_id c \<noteq> -1"
    using addr_cmp_key[of "ch_addr c" xb] assms(1) Cons.prems that by (auto simp: sgn_if split: if_splits)
  define u where "u = (if ch_id c = -1 \<and> i < fu then i else fu)"
  define m where "m = (if used_by (addr_key xb) c then n + 1 else n)"
  let ?r = "count_loop cs xb (i + 1) u m"
  have r: "count_loop (c # cs) xb i fu n = ?r" using cmp by (auto simp: u_def m_def used_by_def)
  have IH: "snd ?r = m + length (filter (used_by (addr_key xb)) cs)" "fst ?r \<le> u"
    "fst ?r < u \<Longrightarrow> i + 1 \<le> fst ?r \<and> fst ?r < i + 1 + length cs \<and> ch_id (cs ! (fst ?r - (i + 1))) = -1"
    using Cons.IH[of "i + 1" u m] Cons.prems by auto
  have "i \<le> fst ?r \<and> fst ?r < i + length (c # cs) \<and> ch_id ((c # cs) ! (fst ?r - i)) = -1" if "fst ?r < fu"
  proof (cases "fst ?r < u")
    case True
    then have "fst ?r - i = Suc (fst ?r - (i + 1))" using IH(3)[OF True] by linarith
    then show ?thesis using IH(3)[OF True] by simp
  next
    case False
    then have "fst ?r = i" "ch_id c = -1" using IH(2) that by (auto simp: u_def split: if_splits)
    then show ?thesis by simp
  qed
  moreover have "u \<le> fu" by (simp add: u_def)
  ultimately show ?case using IH(1,2) unfolding r by (auto simp: m_def)
qed simp

lemma filter_used_update:
  "j < length cs \<Longrightarrow> ch_id (cs ! j) = -1 \<Longrightarrow>
   length (filter (used_by k) (cs[j := c])) = length (filter (used_by k) cs) + (if used_by k c then 1 else 0)"
  by (induction cs arbitrary: j) (auto simp: used_by_def nth_Cons split: nat.splits)

lemma count_loop_le: "fst (count_loop cs xb i fu n) \<le> fu"
proof (induction cs arbitrary: i fu n)
  case (Cons c cs)
  show ?case using Cons.IH[of "i + 1" i n] Cons.IH[of "i + 1" fu n] Cons.IH[of "i + 1" fu "n + 1"] by auto
qed simp

lemma count_loop_full:
  "i + length cs \<le> fu \<Longrightarrow> fst (count_loop cs xb i fu n) = fu \<longleftrightarrow> (\<forall>c \<in> set cs. ch_id c \<noteq> -1)"
proof (induction cs arbitrary: i n)
  case (Cons c cs)
  have "fst (count_loop cs xb (i + 1) i n) \<noteq> fu"
    using count_loop_le[of cs xb "i + 1" i n] Cons.prems by simp
  then show ?case using Cons.IH[of "i + 1"] Cons.prems by auto
qed simp

lemma done_loop_used: "length (filter (used_by k) (done_loop cid cs)) \<le> length (filter (used_by k) cs)"
  by (induction cs) (auto simp: used_by_def)

lemma done_loop_set:
  "c \<in> set (done_loop cid cs) \<Longrightarrow> ch_id c \<noteq> -1 \<Longrightarrow> c \<in> set cs" "length (done_loop cid cs) = length cs"
  by (induction cs) (auto split: if_splits)

lemma check_allow_spec:
  assumes ok: "children_ok st" and limit: "sl_max_persource st \<noteq> INT_MAX" and addr: "srclimit_peer_addr peer = Some xa"
    and mask: "srclimit_mask_addr xa (masklen_for xa st) = Some xb" and name: "addr_ntop (e_gni env) xa NI_MAXHOST \<noteq> None"
  shows "\<exists>st'. srclimit_check_allow env peer cid st =
    Some ((\<exists>c \<in> set (sl_children st). ch_id c = -1) \<and>
          int (length (filter (used_by (addr_key xb)) (sl_children st))) < sl_max_persource st, st') \<and> children_ok st'"
proof -
  let ?cs = "sl_children st" and ?n = "nat (sl_max_children st)"
  have len: "length ?cs = ?n" and wf: "\<forall>c \<in> set ?cs. ch_id c \<noteq> -1 \<longrightarrow> wf_xaddr (ch_addr c)"
    and lim: "\<And>k. int (length (filter (used_by k) ?cs)) \<le> max 0 (sl_max_persource st)"
    using ok limit by (auto simp: children_ok_def)
  have xb: "wf_xaddr xb" using mask_addr_wf[OF peer_wf[OF addr] mask] by simp
  obtain fu count where loop: "count_loop ?cs xb 0 ?n 0 = (fu, count)" by fastforce
  note spec = count_loop_spec[OF xb wf, of 0 ?n 0, unfolded loop, simplified]
  have full: "fu = ?n \<longleftrightarrow> (\<forall>c \<in> set ?cs. ch_id c \<noteq> -1)" using count_loop_full[of 0 ?cs ?n xb 0] len loop by simp
  have run: "srclimit_check_allow env peer cid st =
      (if fu = ?n then Some (False, st)
       else if fu \<ge> ?n then None
       else if int count \<ge> sl_max_persource st then Some (False, st)
       else Some (True, st\<lparr>sl_children := ?cs[fu := \<lparr>ch_id = cid, ch_addr = xb\<rparr>]\<rparr>))"
    using limit addr mask name loop len by (auto simp: srclimit_check_allow_def)
  show ?thesis
  proof (cases "fu = ?n \<or> int count \<ge> sl_max_persource st")
    case True
    then show ?thesis using run ok spec full by auto
  next
    case False
    then have fu: "fu < ?n" "ch_id (?cs ! fu) = -1" using spec by auto
    let ?new = "\<lparr>ch_id = cid, ch_addr = xb\<rparr>"
    let ?st = "st\<lparr>sl_children := ?cs[fu := ?new]\<rparr>"
    have "int (length (filter (used_by k) (?cs[fu := ?new]))) \<le> max 0 (sl_max_persource st)" for k
      using filter_used_update[of fu ?cs k ?new] fu len lim[of k] False spec by (auto simp: used_by_def)
    then have "children_ok ?st" using len wf xb set_update_subset_insert[of ?cs fu ?new]
      by (auto simp: children_ok_def)
    then show ?thesis using run False fu spec full by auto
  qed
qed

section \<open>Runs\<close>

text \<open>Two states agree on the connections and their limits.\<close>

definition same_children :: "srclimit \<Rightarrow> srclimit \<Rightarrow> bool" where
  "same_children st st' \<longleftrightarrow> sl_children st' = sl_children st \<and> sl_max_children st' = sl_max_children st \<and>
     sl_max_persource st' = sl_max_persource st"

lemma same_children_simps [simp]:
  "same_children st st" "same_children st (set_tree af t st') = same_children st st'"
  "same_children st (st'\<lparr>sl_heap := h\<rparr>) = same_children st st'" "same_children st (st'\<lparr>sl_next := n\<rparr>) = same_children st st'"
  "same_children st (st'\<lparr>sl_tree4 := t4\<rparr>) = same_children st st'" "same_children st (st'\<lparr>sl_tree6 := t6\<rparr>) = same_children st st'"
  by (auto simp: same_children_def set_tree_def)

lemma same_children_trans: "same_children a b \<Longrightarrow> same_children b c \<Longrightarrow> same_children a c"
  by (simp add: same_children_def)

lemma same_children_expire:
  "expire_penalties now st' = Some st'' \<Longrightarrow> same_children st st' \<Longrightarrow> same_children st st''"
  "srclimit_early_expire_penalties st' = Some st'' \<Longrightarrow> same_children st st' \<Longrightarrow> same_children st st''"
  by (auto simp: expire_penalties_def srclimit_early_expire_penalties_def split: option.splits)

lemma same_children_new: "penalise_new af p secs st' = Some st'' \<Longrightarrow> same_children st st' \<Longrightarrow> same_children st st''"
  by (auto simp: penalise_new_def Let_def split: prod.splits option.splits if_splits intro: same_children_expire)

lemma same_children_existing:
  "penalise_existing af e now secs reason st' = Some st'' \<Longrightarrow> same_children st st' \<Longrightarrow> same_children st st''"
  by (auto simp: penalise_existing_def Let_def split: prod.splits option.splits)

lemma same_children_penalise:
  assumes "srclimit_penalise env a ty now st = Some st'"
  shows "same_children st st'"
  using assms
  by (auto simp: srclimit_penalise_def Let_def split: if_splits option.splits prod.splits
    dest!: same_children_expire(1)[OF _ same_children_simps(1)] intro: same_children_existing same_children_new)

lemma same_children_check:
  assumes "srclimit_penalty_check_allow env peer now st = Some (r, st')"
  shows "same_children st st'"
  using assms
  by (auto simp: srclimit_penalty_check_allow_def Let_def split: if_splits option.splits
    dest!: same_children_expire(1)[OF _ same_children_simps(1)] intro: same_children_trans)

lemma same_children_ok: "same_children st st' \<Longrightarrow> children_ok st \<Longrightarrow> children_ok st'"
  by (simp add: same_children_def children_ok_def)

datatype sl_event =
    Check_allow "(sockaddr \<times> nat) option" int
  | Done int
  | Penalty_check "(sockaddr \<times> nat) option" real
  | Penalise xaddr penalty_type real

fun sl_do :: "sl_env \<Rightarrow> sl_event \<Rightarrow> srclimit \<Rightarrow> srclimit option" where
  "sl_do env (Check_allow peer cid) st = map_option snd (srclimit_check_allow env peer cid st)"
| "sl_do env (Done cid) st = Some (srclimit_done cid st)"
| "sl_do env (Penalty_check peer now) st = map_option snd (srclimit_penalty_check_allow env peer now st)"
| "sl_do env (Penalise a ty now) st = srclimit_penalise env a ty now st"

fun event_ok :: "sl_event \<Rightarrow> bool" where
  "event_ok (Penalise a ty now) = wf_xaddr a"
| "event_ok _ = True"

text \<open>
  The states of a server from the initialisation of the file's static variables, which are zero
  before it, by any sequence of calls.
\<close>

inductive srclimit_run :: "srclimit \<Rightarrow> bool" where
  sl_start: "sl_children st0 = [] \<Longrightarrow> t_npenalties (sl_tree4 st0) = 0 \<Longrightarrow> t_npenalties (sl_tree6 st0) = 0 \<Longrightarrow>
    srclimit_init mx persource l4 l6 cfg ex st0 = Some st \<Longrightarrow> srclimit_run st"
| sl_step: "srclimit_run st \<Longrightarrow> event_ok e \<Longrightarrow> sl_do env e st = Some st' \<Longrightarrow> srclimit_run st'"

lemma penalise_returns:
  assumes ok: "sl_ok st" and wf: "wf_xaddr a"
  shows "\<exists>st'. srclimit_penalise env a ty now st = Some st' \<and> sl_ok st'"
proof -
  consider "\<not> pc_enabled (sl_penalty_cfg st) \<or> penalty_exempted env a (NI_MAXHOST + 4) st"
    | "penalty_for (sl_penalty_cfg st) ty = None"
    | secs reason where "penalty_for (sl_penalty_cfg st) ty = Some (secs, reason)"
        "secs \<le> 0 \<or> srclimit_mask_addr a (masklen_for a st) = None"
    | secs reason masked where "pc_enabled (sl_penalty_cfg st)" "\<not> penalty_exempted env a (NI_MAXHOST + 4) st"
        "penalty_for (sl_penalty_cfg st) ty = Some (secs, reason)" "secs > 0"
        "srclimit_mask_addr a (masklen_for a st) = Some masked"
    by (metis linorder_not_less option.exhaust surj_pair)
  then show ?thesis
  proof cases
    case 4
    then show ?thesis using penalise_spec[OF ok wf 4 refl] by blast
  qed (use ok in \<open>auto simp: srclimit_penalise_def\<close>)
qed

lemma penalty_check_returns:
  assumes ok: "sl_ok st"
  shows "\<exists>r st'. srclimit_penalty_check_allow env peer now st = Some (r, st') \<and> sl_ok st'"
proof -
  obtain t4 t6 where exp: "expire_penalties now st = Some (st\<lparr>sl_tree4 := t4, sl_tree6 := t6\<rparr>)"
    "sl_ok (st\<lparr>sl_tree4 := t4, sl_tree6 := t6\<rparr>)"
    using expire_penalties_spec[OF ok, of now] by metis
  consider "\<not> pc_enabled (sl_penalty_cfg st) \<or> srclimit_peer_addr peer = None"
    | a where "srclimit_peer_addr peer = Some a"
        "penalty_exempted env a NI_MAXHOST st \<or> srclimit_mask_addr a (masklen_for a st) = None"
    | a masked where "pc_enabled (sl_penalty_cfg st)" "srclimit_peer_addr peer = Some a"
        "\<not> penalty_exempted env a NI_MAXHOST st" "srclimit_mask_addr a (masklen_for a st) = Some masked"
    by (metis option.exhaust)
  then show ?thesis
  proof cases
    case 1
    then show ?thesis using ok by (auto simp: srclimit_penalty_check_allow_def split: option.splits)
  next
    case (2 a)
    then show ?thesis using ok exp expired_frame(3)
      by (auto simp: srclimit_penalty_check_allow_def Let_def)
  next
    case (3 a masked)
    then show ?thesis using penalty_check_spec[OF ok 3 refl] by blast
  qed
qed

lemma check_allow_returns:
  assumes ok: "children_ok st"
  shows "\<exists>r st'. srclimit_check_allow env peer cid st = Some (r, st') \<and> children_ok st' \<and>
    sl_heap st' = sl_heap st \<and> sl_next st' = sl_next st \<and> sl_tree4 st' = sl_tree4 st \<and> sl_tree6 st' = sl_tree6 st \<and>
    sl_penalty_cfg st' = sl_penalty_cfg st"
proof -
  have frame: "sl_heap st' = sl_heap st \<and> sl_next st' = sl_next st \<and> sl_tree4 st' = sl_tree4 st \<and>
      sl_tree6 st' = sl_tree6 st \<and> sl_penalty_cfg st' = sl_penalty_cfg st"
    if "srclimit_check_allow env peer cid st = Some (r, st')" for r st'
    using that by (auto simp: srclimit_check_allow_def Let_def split: if_splits option.splits prod.splits)
  consider "sl_max_persource st = INT_MAX \<or> srclimit_peer_addr peer = None"
    | xa where "srclimit_peer_addr peer = Some xa"
        "srclimit_mask_addr xa (masklen_for xa st) = None \<or> addr_ntop (e_gni env) xa NI_MAXHOST = None"
    | xa xb where "sl_max_persource st \<noteq> INT_MAX" "srclimit_peer_addr peer = Some xa"
        "srclimit_mask_addr xa (masklen_for xa st) = Some xb" "addr_ntop (e_gni env) xa NI_MAXHOST \<noteq> None"
    by (metis option.exhaust)
  then have "\<exists>r st'. srclimit_check_allow env peer cid st = Some (r, st') \<and> children_ok st'"
  proof cases
    case 1
    then show ?thesis using ok by (auto simp: srclimit_check_allow_def split: option.splits)
  next
    case (2 xa)
    then show ?thesis using ok by (auto simp: srclimit_check_allow_def split: option.splits prod.splits)
  next
    case (3 xa xb)
    then show ?thesis using check_allow_spec[OF ok 3] by blast
  qed
  then show ?thesis using frame by blast
qed

lemma sl_ok_cong:
  "sl_heap st' = sl_heap st \<Longrightarrow> sl_next st' = sl_next st \<Longrightarrow> sl_tree4 st' = sl_tree4 st \<Longrightarrow> sl_tree6 st' = sl_tree6 st \<Longrightarrow>
   sl_penalty_cfg st' = sl_penalty_cfg st \<Longrightarrow> sl_ok st \<Longrightarrow> sl_ok st'"
  by (simp add: sl_ok_def tree_of_def max_sources_of_def)

lemma sl_do_returns:
  assumes "sl_ok st" and "children_ok st" and "event_ok e"
  shows "\<exists>st'. sl_do env e st = Some st' \<and> sl_ok st' \<and> children_ok st'"
proof (cases e)
  case (Check_allow peer cid)
  then show ?thesis using check_allow_returns[OF assms(2), of env peer cid] sl_ok_cong[OF _ _ _ _ _ assms(1)] by auto
next
  case (Done cid)
  have "int (length (filter (used_by k) (done_loop cid (sl_children st)))) \<le> max 0 (sl_max_persource st)" for k
  proof -
    have "int (length (filter (used_by k) (done_loop cid (sl_children st)))) \<le> int (length (filter (used_by k) (sl_children st)))"
      using done_loop_used by simp
    also have "\<dots> \<le> max 0 (sl_max_persource st)" using assms(2) by (simp add: children_ok_def)
    finally show ?thesis .
  qed
  moreover have "wf_xaddr (ch_addr c)" if "c \<in> set (done_loop cid (sl_children st))" "ch_id c \<noteq> -1" for c
    using done_loop_set(1)[OF that] assms(2) that(2) by (simp add: children_ok_def)
  ultimately have "children_ok (srclimit_done cid st)"
    using assms(2) by (cases "sl_max_persource st = INT_MAX")
      (simp_all add: children_ok_def srclimit_done_def done_loop_set(2))
  moreover have "sl_ok (srclimit_done cid st)"
    by (rule sl_ok_cong[OF _ _ _ _ _ assms(1)]) (auto simp: srclimit_done_def)
  ultimately show ?thesis using Done by simp
next
  case (Penalty_check peer now)
  then show ?thesis
    using penalty_check_returns[OF assms(1), of env peer now] same_children_check same_children_ok[OF _ assms(2)] by fastforce
next
  case (Penalise a ty now)
  then show ?thesis
    using penalise_returns[OF assms(1), of a env ty now] same_children_penalise same_children_ok[OF _ assms(2)] assms(3) by fastforce
qed

lemma srclimit_run_inv: "srclimit_run st \<Longrightarrow> sl_ok st \<and> children_ok st"
proof (induction rule: srclimit_run.induct)
  case (sl_start st0 mx persource l4 l6 cfg ex st)
  then show ?case
    by (auto simp: srclimit_init_def Let_def sl_ok_def tree_ok_def tree_of_def max_sources_of_def children_ok_def
      used_by_def split: if_splits)
next
  case (sl_step st e env st')
  then show ?case using sl_do_returns[of st e env] by auto
qed

section \<open>A concrete server\<close>

definition cfg_ex :: per_source_penalty where
  "cfg_ex = \<lparr>pc_enabled = True, pc_max_sources4 = 2, pc_max_sources6 = 2,
     pc_overflow_mode = PER_SOURCE_PENALTY_OVERFLOW_PERMISSIVE, pc_overflow_mode6 = PER_SOURCE_PENALTY_OVERFLOW_PERMISSIVE,
     pc_penalty_crash = 90, pc_penalty_grace = 10, pc_penalty_authfail = 20, pc_penalty_invaliduser = 5,
     pc_penalty_noauth = 1, pc_penalty_refuseconnection = 10, pc_penalty_max = 600, pc_penalty_min = 15\<rparr>"

definition addr_ex :: xaddr where
  "addr_ex = \<lparr>xa_af = AF_INET, xa_32 = [0x0a010203, 0, 0, 0], xa_scope_id = 0\<rparr>"

definition sl_zero :: srclimit where
  "sl_zero = \<lparr>sl_max_children = 0, sl_max_persource = 0, sl_ipv4_masklen = 0, sl_ipv6_masklen = 0,
     sl_penalty_cfg = cfg_ex, sl_penalty_exempt = None, sl_children = [],
     sl_heap = (\<lambda>_. \<lparr>p_addr = addr_ex, p_expiry = 0, p_active = False, p_reason = []\<rparr>), sl_next = 0,
     sl_tree4 = empty_tree, sl_tree6 = empty_tree\<rparr>"

definition sl_one :: srclimit where
  "sl_one = the (srclimit_init 4 2 32 64 cfg_ex None sl_zero)"

definition env_ex :: sl_env where
  "env_ex = \<lparr>e_gai = gai_ex, e_gni = (\<lambda>_ _ _. Some ''10.1.2.3''), e_lc = \<lparr>malloc = Some, pagesize = 4096\<rparr>\<rparr>"

lemmas sl_ex_defs = cfg_ex_def addr_ex_def sl_zero_def sl_one_def env_ex_def empty_tree_def srclimit_init_def INT_MAX_def

lemma sl_one_run: "srclimit_run sl_one"
  by (rule sl_start[of sl_zero 4 2 32 64 cfg_ex None]) (simp_all add: sl_ex_defs)

lemma mask_ex: "srclimit_mask_addr addr_ex (masklen_for addr_ex sl_one) = Some addr_ex"
  by (simp add: srclimit_mask_addr_def masklen_for_def addr_netmask_def addr_and_def sl_ex_defs)

lemma addr_ex_wf: "wf_xaddr addr_ex"
  by (simp add: addr_ex_def wf_xaddr_def)

lemma live_ex: "live sl_one now AF_INET = Map.empty"
  by (rule ext) (simp add: live_def penalties_def tree_of_def sl_ex_defs)

section \<open>Properties\<close>

text \<open>
  C27. None of the internal errors of \<^verbatim>\<open>srclimit.c\<close> occurs: in every state that calls can reach, any
  further call returns, whatever the peers, the times and the configuration; the trees hold no
  more penalties than configured, and no source holds more slots than \<^verbatim>\<open>PerSourceMaxStartups\<close>.
\<close>

theorem srclimit_never_fatal:
  assumes "srclimit_run st"
  shows "(\<forall>env e. event_ok e \<longrightarrow> (\<exists>st'. sl_do env e st = Some st')) \<and>
    (\<forall>af \<in> {AF_INET, AF_INET6}. t_npenalties (tree_of af st) \<le> max_sources_of af st) \<and>
    (\<forall>k. int (length (filter (used_by k) (sl_children st))) \<le> max 0 (sl_max_persource st))"
  using srclimit_run_inv[OF assms] sl_do_returns[of st] unfolding sl_ok_def children_ok_def by blast

theorem srclimit_never_fatal_witness:
  "\<exists>st'. sl_do env_ex (Penalise addr_ex SRCLIMIT_PENALTY_AUTHFAIL 0) sl_one = Some st'"
  using srclimit_never_fatal[OF sl_one_run] addr_ex_wf by (metis event_ok.simps(1))

text \<open>
  C28. A connection is refused for a penalty exactly when the masked address has an active one
  that has not expired, or when the table is full and configured to refuse everyone.
\<close>

theorem penalty_check_correct:
  assumes "srclimit_run st" and "pc_enabled (sl_penalty_cfg st)" and "srclimit_peer_addr peer = Some a"
    and "\<not> penalty_exempted env a NI_MAXHOST st" and "srclimit_mask_addr a (masklen_for a st) = Some masked"
  shows "map_option fst (srclimit_penalty_check_allow env peer now st) =
    Some (if table_full st (xa_af a) (live st now (xa_af a)) \<and>
             overflow_mode_of (xa_af a) st = PER_SOURCE_PENALTY_OVERFLOW_DENY_ALL
          then Some ''too many penalised addresses''
          else (case live st now (xa_af a) (addr_key masked) of
                  Some q \<Rightarrow> if p_active q then Some (p_reason q) else None
                | None \<Rightarrow> None))"
  using penalty_check_spec[OF conjunct1[OF srclimit_run_inv[OF assms(1)]] assms(2-5) refl, of now] by auto

theorem penalty_check_correct_witness:
  "map_option fst (srclimit_penalty_check_allow env_ex (Some (Sockaddr_in 22 0x0a010203, 16)) 3 sl_one) = Some None"
proof -
  have peer: "srclimit_peer_addr (Some (Sockaddr_in 22 0x0a010203, 16)) = Some addr_ex"
    by (simp add: srclimit_peer_addr_def addr_sa_to_xaddr_def sizeof_sockaddr_in_def addr_ex_def)
  have "pc_enabled (sl_penalty_cfg sl_one)" "\<not> penalty_exempted env_ex addr_ex NI_MAXHOST sl_one"
    "xa_af addr_ex = AF_INET" "overflow_mode_of AF_INET sl_one = PER_SOURCE_PENALTY_OVERFLOW_PERMISSIVE"
    by (simp_all add: penalty_exempted_def overflow_mode_of_def sl_ex_defs)
  then show ?thesis using penalty_check_correct[OF sl_one_run _ peer _ mask_ex, of env_ex 3] by (simp add: live_ex)
qed

text \<open>
  C29. Penalising an address adds to its penalty up to the maximum and activates it beyond the
  minimum, keeps all other penalties that have not expired, and, if that makes too many, drops
  only those that expire first; a full table that refuses everyone stays as it is.
\<close>

theorem penalise_correct:
  assumes "srclimit_run st" and "wf_xaddr a" and "pc_enabled (sl_penalty_cfg st)"
    and "\<not> penalty_exempted env a (NI_MAXHOST + 4) st"
    and "penalty_for (sl_penalty_cfg st) ty = Some (secs, reason)" and "secs > 0"
    and "srclimit_mask_addr a (masklen_for a st) = Some masked" and "m = live st now (xa_af a)"
  shows "\<exists>st'. srclimit_penalise env a ty now st = Some st' \<and>
    (if table_full st (xa_af a) m \<and> overflow_mode_of (xa_af a) st = PER_SOURCE_PENALTY_OVERFLOW_DENY_ALL
     then penalties st' (xa_af a) = m
     else trimmed (max_sources_of (xa_af a) st)
            (m(addr_key masked \<mapsto> accumulated (sl_penalty_cfg st) masked now secs reason (m (addr_key masked))))
            (penalties st' (xa_af a)))"
  using penalise_spec[OF conjunct1[OF srclimit_run_inv[OF assms(1)]] assms(2-8)] by blast

theorem penalise_correct_witness:
  "\<exists>st'. srclimit_penalise env_ex addr_ex SRCLIMIT_PENALTY_AUTHFAIL 0 sl_one = Some st' \<and>
     penalties st' AF_INET = [addr_key addr_ex \<mapsto>
       \<lparr>p_addr = addr_ex, p_expiry = 20, p_active = True, p_reason = ''penalty: failed authentication''\<rparr>]"
proof -
  have h: "pc_enabled (sl_penalty_cfg sl_one)" "\<not> penalty_exempted env_ex addr_ex (NI_MAXHOST + 4) sl_one"
    "penalty_for (sl_penalty_cfg sl_one) SRCLIMIT_PENALTY_AUTHFAIL = Some (20, ''penalty: failed authentication'')"
    "xa_af addr_ex = AF_INET" "overflow_mode_of AF_INET sl_one = PER_SOURCE_PENALTY_OVERFLOW_PERMISSIVE"
    "max_sources_of AF_INET sl_one = 2" "sl_penalty_cfg sl_one = cfg_ex" "pc_penalty_min cfg_ex = 15"
    by (simp_all add: penalty_exempted_def overflow_mode_of_def max_sources_of_def sl_ex_defs)
  from penalise_correct[OF sl_one_run addr_ex_wf h(1-3) _ mask_ex refl, of 0]
  obtain st' where st': "srclimit_penalise env_ex addr_ex SRCLIMIT_PENALTY_AUTHFAIL 0 sl_one = Some st'"
    "trimmed 2 [addr_key addr_ex \<mapsto> \<lparr>p_addr = addr_ex, p_expiry = 20, p_active = True,
       p_reason = ''penalty: failed authentication''\<rparr>] (penalties st' AF_INET)"
    using h by (auto simp: live_ex accumulated_def)
  then show ?thesis using trimmed_id[OF _ _ st'(2)] by simp
qed

end
