(* ===== verification/Poly1305Props.thy ===== *)
theory Poly1305Props
  imports Poly1305
begin

unbundle bit_operations_syntax

text \<open>
  The tag of \<^verbatim>\<open>poly1305_auth\<close> is the one of the specification: a polynomial in the clamped
  first half of the key over the blocks of the message, modulo \<open>2^130 - 5\<close>, plus the second
  half. The proof follows the limbs: \<open>carried\<close> bounds them between two blocks, \<open>added\<close> after
  the addition of a block and \<open>full\<close> after the last carry; within these bounds no sum or
  product wraps around.
\<close>

section \<open>Words as integers\<close>

lemma uint_add_ok: "uint x + uint y < 2 ^ LENGTH('a) \<Longrightarrow> uint (x + y :: 'a::len word) = uint x + uint y"
  by (simp add: uint_add_lem)

lemma uint_mul_ok: "uint x * uint y < 2 ^ LENGTH('a) \<Longrightarrow> uint (x * y :: 'a::len word) = uint x * uint y"
  by (simp add: uint_mult_lem)

lemma uint_less: "uint (x :: 8 word) < 2 ^ 8" "uint (y :: 32 word) < 2 ^ 32" "uint (z :: 64 word) < 2 ^ 64"
  using uint_bounded[of x] uint_bounded[of y] uint_bounded[of z] by simp_all

lemma uint_widen: "uint (ucast (x :: 32 word) :: 64 word) = uint x"
  using uint_less(2)[of x] by (simp add: unsigned_ucast_eq take_bit_int_eq_self)

lemma uint_mul32: "uint (mul32x32_64 a b) = uint a * uint b"
proof -
  have "uint a * uint b < 2 ^ 32 * 2 ^ 32"
    using uint_less by (intro mult_strict_mono') auto
  then show ?thesis
    unfolding mul32x32_64_def by (subst uint_mul_ok) (simp_all add: uint_widen)
qed

lemma mask26: "(0x3ffffff :: 'a::len word) = mask 26"
  by (simp add: mask_eq_exp_minus_1)

lemma uint_take_bit: "uint (take_bit n (x :: 'a::len word)) = uint x mod 2 ^ n"
  unfolding unsigned_take_bit_eq by (rule take_bit_eq_mod)

lemma uint_drop_bit: "uint (drop_bit n (x :: 'a::len word)) = uint x div 2 ^ n"
  by (subst unsigned_drop_bit_eq, subst drop_bit_eq_div)
    (simp add: take_bit_int_eq_self uint_bounded)

lemma low26: "uint ((x :: 32 word) AND 0x3ffffff) = uint x mod 2 ^ 26"
  unfolding mask26 take_bit_eq_mask[symmetric] by (rule uint_take_bit)

lemma low26_ucast: "uint (ucast (x :: 64 word) AND 0x3ffffff :: 32 word) = uint x mod 2 ^ 26"
  unfolding low26 by (simp add: unsigned_ucast_eq take_bit_eq_mod mod_mod_cancel)

lemma high26_ucast:
  assumes "uint (x :: 64 word) < 2 ^ 58"
  shows "uint (ucast (drop_bit 26 x) :: 32 word) = uint x div 2 ^ 26"
proof -
  have "uint x div 2 ^ 26 < 2 ^ 32" using assms by simp
  moreover have "0 \<le> uint x div 2 ^ 26" by (simp add: pos_imp_zdiv_nonneg_iff)
  ultimately have "take_bit 32 (uint x div 2 ^ 26) = uint x div 2 ^ 26"
    by (rule take_bit_int_eq_self[rotated])
  then show ?thesis unfolding unsigned_ucast_eq uint_drop_bit by simp
qed

lemma mul_value:
  fixes h0 h1 h2 h3 h4 r0 r1 r2 r3 r4 :: int
  assumes t: "t0 = h0 * r0 + h1 * (r4 * 5) + h2 * (r3 * 5) + h3 * (r2 * 5) + h4 * (r1 * 5)"
    "t1 = h0 * r1 + h1 * r0 + h2 * (r4 * 5) + h3 * (r3 * 5) + h4 * (r2 * 5)"
    "t2 = h0 * r2 + h1 * r1 + h2 * r0 + h3 * (r4 * 5) + h4 * (r3 * 5)"
    "t3 = h0 * r3 + h1 * r2 + h2 * r1 + h3 * r0 + h4 * (r4 * 5)"
    "t4 = h0 * r4 + h1 * r3 + h2 * r2 + h3 * r1 + h4 * r0"
  shows "(h0 + h1 * 2^26 + h2 * 2^52 + h3 * 2^78 + h4 * 2^104) *
         (r0 + r1 * 2^26 + r2 * 2^52 + r3 * 2^78 + r4 * 2^104) =
         (t0 + t1 * 2^26 + t2 * 2^52 + t3 * 2^78 + t4 * 2^104) +
         (2^130 - 5) * (h1*r4 + h2*r3 + h3*r2 + h4*r1 + (h2*r4 + h3*r3 + h4*r2) * 2^26 +
                        (h3*r4 + h4*r3) * 2^52 + h4*r4 * 2^78)"
  unfolding t by (simp add: algebra_simps)

lemma carry_value:
  fixes t0 :: int
  assumes u: "u1 = t1 + t0 div 2^26" "u2 = t2 + u1 div 2^26" "u3 = t3 + u2 div 2^26" "u4 = t4 + u3 div 2^26"
  shows "t0 + t1 * 2^26 + t2 * 2^52 + t3 * 2^78 + t4 * 2^104 =
    (t0 mod 2^26 + u4 div 2^26 * 5) + (u1 mod 2^26) * 2^26 + (u2 mod 2^26) * 2^52 +
    (u3 mod 2^26) * 2^78 + (u4 mod 2^26) * 2^104 + (2^130 - 5) * (u4 div 2^26)"
proof -
  have m: "x mod 2^26 = x - 2^26 * (x div 2^26)" for x :: int
    by (simp add: minus_mult_div_eq_mod)
  show ?thesis unfolding m u(4) u(3) u(2) u(1) by (simp add: algebra_simps)
qed

text \<open>The number that limbs stand for, and the bounds that they keep.\<close>

definition limbs_value :: "limbs \<Rightarrow> int" where
  "limbs_value h =
     (case h of (h0, h1, h2, h3, h4) \<Rightarrow>
        uint h0 + uint h1 * 2 ^ 26 + uint h2 * 2 ^ 52 + uint h3 * 2 ^ 78 + uint h4 * 2 ^ 104)"

fun clamped :: "limbs \<Rightarrow> bool" where
  "clamped (r0, r1, r2, r3, r4) \<longleftrightarrow>
     uint r0 \<le> 0x3ffffff \<and> uint r1 \<le> 0x3ffff03 \<and> uint r2 \<le> 0x3ffc0ff \<and> uint r3 \<le> 0x3f03fff \<and>
     uint r4 \<le> 0xfffff"

fun carried :: "limbs \<Rightarrow> bool" where
  "carried (h0, h1, h2, h3, h4) \<longleftrightarrow>
     uint h0 \<le> 2810000000 \<and> uint h1 < 2 ^ 26 \<and> uint h2 < 2 ^ 26 \<and> uint h3 < 2 ^ 26 \<and> uint h4 < 2 ^ 26"

fun added :: "limbs \<Rightarrow> bool" where
  "added (h0, h1, h2, h3, h4) \<longleftrightarrow>
     uint h0 \<le> 2877108863 \<and> uint h1 \<le> 0x7fffffe \<and> uint h2 \<le> 0x7fffffe \<and> uint h3 \<le> 0x7fffffe \<and>
     uint h4 \<le> 0x5ffffff"

lemma dot_bound:
  fixes h0 b0 :: "32 word"
  assumes "added (h0, h1, h2, h3, h4)"
    and "uint b0 \<le> Ba" "uint b1 \<le> Bb" "uint b2 \<le> Bc" "uint b3 \<le> Bd" "uint b4 \<le> Be"
  shows "uint h0 * uint b0 + uint h1 * uint b1 + uint h2 * uint b2 + uint h3 * uint b3 + uint h4 * uint b4 \<le>
         2877108863 * Ba + 0x7fffffe * Bb + 0x7fffffe * Bc + 0x7fffffe * Bd + 0x5ffffff * Be"
  using assms by (intro add_mono mult_mono) auto

lemma dot_word:
  assumes "uint a0 * uint b0 + uint a1 * uint b1 + uint a2 * uint b2 + uint a3 * uint b3 + uint a4 * uint b4 \<le> n" and "n < 2 ^ 64"
  shows "uint (mul32x32_64 a0 b0 + mul32x32_64 a1 b1 + mul32x32_64 a2 b2 + mul32x32_64 a3 b3 + mul32x32_64 a4 b4) =
    uint a0 * uint b0 + uint a1 * uint b1 + uint a2 * uint b2 + uint a3 * uint b3 + uint a4 * uint b4"
proof -
  let ?S = "uint a0 * uint b0 + uint a1 * uint b1 + uint a2 * uint b2 + uint a3 * uint b3 + uint a4 * uint b4"
  have "uint (mul32x32_64 a0 b0 + mul32x32_64 a1 b1 + mul32x32_64 a2 b2 + mul32x32_64 a3 b3 +
              mul32x32_64 a4 b4) = ?S mod 2 ^ 64"
    by (simp add: uint_word_ariths uint_mul32 mod_simps)
  also have "\<dots> = ?S" using assms by (intro mod_pos_pos_trivial) simp_all
  finally show ?thesis .
qed

lemma times5: "uint (x :: 32 word) \<le> 858993459 \<Longrightarrow> uint (x * 5) = uint x * 5"
  by (subst uint_mul_ok) simp_all

lemma carry_step:
  assumes t: "uint (t :: 64 word) = T" and c: "uint (c :: 64 word) = C" and "T + C < 2 ^ 58"
  shows "uint (t + c) = T + C"
    "uint (ucast (t + c) AND 0x3ffffff :: 32 word) = (T + C) mod 2 ^ 26"
    "uint (ucast (ucast (drop_bit 26 (t + c)) :: 32 word) :: 64 word) = (T + C) div 2 ^ 26"
    "uint (ucast (drop_bit 26 (t + c)) :: 32 word) = (T + C) div 2 ^ 26"
proof -
  show s: "uint (t + c) = T + C" using assms by (subst uint_add_ok) simp_all
  show "uint (ucast (t + c) AND 0x3ffffff :: 32 word) = (T + C) mod 2 ^ 26"
    unfolding low26_ucast s ..
  show b: "uint (ucast (drop_bit 26 (t + c)) :: 32 word) = (T + C) div 2 ^ 26"
    using assms s by (subst high26_ucast) simp_all
  then show "uint (ucast (ucast (drop_bit 26 (t + c)) :: 32 word) :: 64 word) = (T + C) div 2 ^ 26"
    by (simp add: uint_widen)
qed

lemma carry_sums:
  assumes t1: "uint t1 \<le> 2 ^ 58 - 2 ^ 39" and t2: "uint t2 \<le> 2 ^ 58 - 2 ^ 33" and t3: "uint t3 \<le> 2 ^ 58 - 2 ^ 33"
    and t4: "uint t4 \<le> 36660000000000000"
  shows "carried (poly1305_carry_sums t0 t1 t2 t3 t4)"
    and "limbs_value (poly1305_carry_sums t0 t1 t2 t3 t4) mod (2 ^ 130 - 5) =
      (uint t0 + uint t1 * 2^26 + uint t2 * 2^52 + uint t3 * 2^78 + uint t4 * 2^104) mod (2 ^ 130 - 5)"
proof -
  have c: "uint t0 div 2 ^ 26 < 2 ^ 38" using uint_less(3)[of t0] by simp
  have h0: "uint (ucast t0 AND 0x3ffffff :: 32 word) = uint t0 mod 2 ^ 26" by (rule low26_ucast)
  define u1 where "u1 = uint t1 + uint t0 div 2 ^ 26"
  have s1: "u1 < 2 ^ 58" using t1 c by (simp add: u1_def)
  note c1 = carry_step[OF refl uint_drop_bit[of 26 t0] s1[unfolded u1_def], folded u1_def]
  define u2 where "u2 = uint t2 + u1 div 2 ^ 26"
  have s2: "u2 < 2 ^ 58" using t2 s1 by (simp add: u2_def)
  note c2 = carry_step[OF refl c1(3) s2[unfolded u2_def], folded u2_def]
  define u3 where "u3 = uint t3 + u2 div 2 ^ 26"
  have s3: "u3 < 2 ^ 58" using t3 s2 by (simp add: u3_def)
  note c3 = carry_step[OF refl c2(3) s3[unfolded u3_def], folded u3_def]
  define u4 where "u4 = uint t4 + u3 div 2 ^ 26"
  have s4: "u4 < 2 ^ 58" using t4 s3 by (simp add: u4_def)
  note c4 = carry_step[OF refl c3(3) s4[unfolded u4_def], folded u4_def]
  have b: "u4 div 2 ^ 26 \<le> 546300000" using t4 s3 by (simp add: u4_def)
  have b5: "uint (ucast (drop_bit 26 (t4 + ucast (ucast (drop_bit 26 (t3 + ucast (ucast (drop_bit 26
       (t2 + ucast (ucast (drop_bit 26 (t1 + drop_bit 26 t0)) :: 32 word))) :: 32 word))) :: 32 word))) * 5 :: 32 word) =
    u4 div 2 ^ 26 * 5" using b by (subst times5) (simp_all add: c4)
  have m: "uint t0 mod 2 ^ 26 < 2 ^ 26" by simp
  note sum = uint_add_ok[of "ucast t0 AND 0x3ffffff :: 32 word", unfolded h0]
  show "carried (poly1305_carry_sums t0 t1 t2 t3 t4)" 
    unfolding poly1305_carry_sums_def Let_def carried.simps
    using b b5 m by (subst sum) (simp_all add: c1 c2 c3 c4)
  show "limbs_value (poly1305_carry_sums t0 t1 t2 t3 t4) mod (2 ^ 130 - 5) =
      (uint t0 + uint t1 * 2^26 + uint t2 * 2^52 + uint t3 * 2^78 + uint t4 * 2^104) mod (2 ^ 130 - 5)"
    unfolding carry_value[OF u1_def u2_def u3_def u4_def] mod_mult_self2
    unfolding poly1305_carry_sums_def Let_def limbs_value_def prod.case
    using b b5 m by (subst sum) (simp_all add: c1 c2 c3 c4)
qed

lemma poly1305_mul_correct:
  assumes r: "clamped r" and h: "added h"
  shows "carried (poly1305_mul r h)"
    and "limbs_value (poly1305_mul r h) mod (2^130 - 5) = limbs_value h * limbs_value r mod (2^130 - 5)"
proof -
  obtain r0 r1 r2 r3 r4 where r': "r = (r0, r1, r2, r3, r4)" by (metis prod_cases5)
  obtain h0 h1 h2 h3 h4 where h': "h = (h0, h1, h2, h3, h4)" by (metis prod_cases5)
  note R = r[unfolded r' clamped.simps] and H = h[unfolded h' added.simps]
  have s: "uint (r1 * 5) = uint r1 * 5" "uint (r2 * 5) = uint r2 * 5"
      "uint (r3 * 5) = uint r3 * 5" "uint (r4 * 5) = uint r4 * 5"
    using R by (simp_all add: times5)
  have b0: "uint h0 * uint r0 + uint h1 * uint (r4 * 5) + uint h2 * uint (r3 * 5) + uint h3 * uint (r2 * 5) +
      uint h4 * uint (r1 * 5) \<le> 2 ^ 64 - 1"
    by (rule order.trans[OF dot_bound[where ?Ba = "0x3ffffff" and ?Bb = "0xfffff * 5" and ?Bc = "0x3f03fff * 5" and ?Bd = "0x3ffc0ff * 5" and ?Be = "0x3ffff03 * 5", OF h[unfolded h']]])
      (use R s in simp_all)
  have b1: "uint h0 * uint r1 + uint h1 * uint r0 + uint h2 * uint (r4 * 5) + uint h3 * uint (r3 * 5) +
      uint h4 * uint (r2 * 5) \<le> 2 ^ 58 - 2 ^ 39"
    by (rule order.trans[OF dot_bound[where ?Ba = "0x3ffff03" and ?Bb = "0x3ffffff" and ?Bc = "0xfffff * 5" and ?Bd = "0x3f03fff * 5" and ?Be = "0x3ffc0ff * 5", OF h[unfolded h']]])
      (use R s in simp_all)
  have b2: "uint h0 * uint r2 + uint h1 * uint r1 + uint h2 * uint r0 + uint h3 * uint (r4 * 5) +
      uint h4 * uint (r3 * 5) \<le> 2 ^ 58 - 2 ^ 33"
    by (rule order.trans[OF dot_bound[where ?Ba = "0x3ffc0ff" and ?Bb = "0x3ffff03" and ?Bc = "0x3ffffff" and ?Bd = "0xfffff * 5" and ?Be = "0x3f03fff * 5", OF h[unfolded h']]])
      (use R s in simp_all)
  have b3: "uint h0 * uint r3 + uint h1 * uint r2 + uint h2 * uint r1 + uint h3 * uint r0 +
      uint h4 * uint (r4 * 5) \<le> 2 ^ 58 - 2 ^ 33"
    by (rule order.trans[OF dot_bound[where ?Ba = "0x3f03fff" and ?Bb = "0x3ffc0ff" and ?Bc = "0x3ffff03" and ?Bd = "0x3ffffff" and ?Be = "0xfffff * 5", OF h[unfolded h']]])
      (use R s in simp_all)
  have b4: "uint h0 * uint r4 + uint h1 * uint r3 + uint h2 * uint r2 + uint h3 * uint r1 +
      uint h4 * uint r0 \<le> 36660000000000000"
    by (rule order.trans[OF dot_bound[where ?Ba = "0xfffff" and ?Bb = "0x3f03fff" and ?Bc = "0x3ffc0ff" and ?Bd = "0x3ffff03" and ?Be = "0x3ffffff", OF h[unfolded h']]])
      (use R s in simp_all)
  note w = dot_word[OF b0, simplified] dot_word[OF b1, simplified] dot_word[OF b2, simplified] dot_word[OF b3, simplified] dot_word[OF b4, simplified]
  note C = carry_sums[where ?t0.0 = "mul32x32_64 h0 r0 + mul32x32_64 h1 (r4 * 5) + mul32x32_64 h2 (r3 * 5) +
              mul32x32_64 h3 (r2 * 5) + mul32x32_64 h4 (r1 * 5)",
      OF b1[folded w] b2[folded w] b3[folded w] b4[folded w]]
  have eq: "poly1305_mul r h = poly1305_carry_sums 
             (mul32x32_64 h0 r0 + mul32x32_64 h1 (r4 * 5) + mul32x32_64 h2 (r3 * 5) +
              mul32x32_64 h3 (r2 * 5) + mul32x32_64 h4 (r1 * 5))
             (mul32x32_64 h0 r1 + mul32x32_64 h1 r0 + mul32x32_64 h2 (r4 * 5) +
              mul32x32_64 h3 (r3 * 5) + mul32x32_64 h4 (r2 * 5))
             (mul32x32_64 h0 r2 + mul32x32_64 h1 r1 + mul32x32_64 h2 r0 +
              mul32x32_64 h3 (r4 * 5) + mul32x32_64 h4 (r3 * 5))
             (mul32x32_64 h0 r3 + mul32x32_64 h1 r2 + mul32x32_64 h2 r1 +
              mul32x32_64 h3 r0 + mul32x32_64 h4 (r4 * 5))
             (mul32x32_64 h0 r4 + mul32x32_64 h1 r3 + mul32x32_64 h2 r2 +
              mul32x32_64 h3 r1 + mul32x32_64 h4 r0)"
    by (simp add: poly1305_mul_def r' h' Let_def)
  show "carried (poly1305_mul r h)"
    unfolding eq by (rule C(1))
  show "limbs_value (poly1305_mul r h) mod (2^130 - 5) = limbs_value h * limbs_value r mod (2^130 - 5)"
    unfolding eq C(2) w s unfolding limbs_value_def r' h' prod.case
    unfolding mul_value[OF refl refl refl refl refl] mod_mult_self2 ..
qed

section \<open>Reading bytes and adding a block\<close>

lemma or_shift:
  assumes "uint (x :: 'a::len word) < 2 ^ n"
  shows "uint (x OR push_bit n y) = (uint x + uint y * 2 ^ n) mod 2 ^ LENGTH('a)"
proof -
  have "take_bit n x = x"
    using assms by (metis take_bit_int_eq_self uint_ge_0 unsigned_take_bit_eq word_uint_eqI)
  then have "\<not> bit x k \<or> \<not> bit (push_bit n y) k" for k
    by (metis bit_push_bit_iff bit_take_bit_iff linorder_not_less)
  then have "x OR push_bit n y = x + push_bit n y" by (simp add: disjunctive_add)
  also have "\<dots> = word_of_int (uint x + uint y * 2 ^ n)" by (simp add: push_bit_eq_mult)
  finally show ?thesis
    by (simp only: uint_word_of_int)
qed

text \<open>Bytes as numbers, least significant first.\<close>

fun le_num :: "byte list \<Rightarrow> int" where
  "le_num [] = 0"
| "le_num (x # xs) = uint x + 256 * le_num xs"

fun le_bytes :: "nat \<Rightarrow> int \<Rightarrow> byte list" where
  "le_bytes 0 v = []"
| "le_bytes (Suc n) v = word_of_int v # le_bytes n (v div 256)"

lemma U8TO32_LE_value:
  "uint (U8TO32_LE p) = uint (p ! 0) + uint (p ! 1) * 2 ^ 8 + uint (p ! 2) * 2 ^ 16 + uint (p ! 3) * 2 ^ 24"
proof -
  have w: "uint (ucast (b :: byte) :: 32 word) = uint b" for b
    using uint_less(1)[of b] by (simp add: unsigned_ucast_eq take_bit_int_eq_self)
  note b = uint_less(1)[of "p ! 0"] uint_less(1)[of "p ! 1"] uint_less(1)[of "p ! 2"] uint_less(1)[of "p ! 3"]
  have 1: "uint (ucast (p ! 0) OR push_bit 8 (ucast (p ! 1)) :: 32 word) = uint (p ! 0) + uint (p ! 1) * 2 ^ 8"
    using b by (subst or_shift) (simp_all add: w del: One_nat_def)
  have 2: "uint ((ucast (p ! 0) OR push_bit 8 (ucast (p ! 1))) OR push_bit 16 (ucast (p ! 2)) :: 32 word) =
      uint (p ! 0) + uint (p ! 1) * 2 ^ 8 + uint (p ! 2) * 2 ^ 16"
    using b by (subst or_shift) (simp_all add: w 1 del: One_nat_def)
  have "uint (((ucast (p ! 0) OR push_bit 8 (ucast (p ! 1))) OR push_bit 16 (ucast (p ! 2))) OR
      push_bit 24 (ucast (p ! 3)) :: 32 word) =
      uint (p ! 0) + uint (p ! 1) * 2 ^ 8 + uint (p ! 2) * 2 ^ 16 + uint (p ! 3) * 2 ^ 24"
    using b by (subst or_shift) (simp_all add: w 2 del: One_nat_def)
  then show ?thesis by (simp add: U8TO32_LE_def or.assoc)
qed

lemma le_num_words:
  assumes "length m = 16"
  shows "le_num m = uint (U8TO32_LE m) + uint (U8TO32_LE (drop 4 m)) * 2 ^ 32 +
         uint (U8TO32_LE (drop 8 m)) * 2 ^ 64 + uint (U8TO32_LE (drop 12 m)) * 2 ^ 96"
proof -
  have "\<exists>a0 a1 a2 a3 a4 a5 a6 a7 a8 a9 aa ab ac ad ae af. m = [a0,a1,a2,a3,a4,a5,a6,a7,a8,a9,aa,ab,ac,ad,ae,af]"
    using assms by (auto simp: numeral_eq_Suc length_Suc_conv)
  then show ?thesis by (auto simp: U8TO32_LE_value)
qed

lemma limb_window:
  "uint (poly1305_window hi lo n) = (uint lo + uint hi * 2 ^ 32) div 2 ^ n mod 2 ^ 26"
proof -
  have "uint (ucast lo OR push_bit 32 (ucast hi) :: 64 word) = uint lo + uint hi * 2 ^ 32"
    using uint_less(2)[of lo] uint_less(2)[of hi] by (subst or_shift) (simp_all add: uint_widen)
  then have "uint (push_bit 32 (ucast hi) OR ucast lo :: 64 word) = uint lo + uint hi * 2 ^ 32"
    by (simp only: or.commute)
  then have v: "uint (drop_bit n (push_bit 32 (ucast hi) OR ucast lo :: 64 word) AND 0x3ffffff) =
      (uint lo + uint hi * 2 ^ 32) div 2 ^ n mod 2 ^ 26"
    unfolding mask26 take_bit_eq_mask[symmetric] uint_take_bit uint_drop_bit by (simp only:)
  have "(uint lo + uint hi * 2 ^ 32) div 2 ^ n mod 2 ^ 26 < 2 ^ 32"
    by (rule order.strict_trans[OF pos_mod_bound]) simp_all
  then show ?thesis
    unfolding poly1305_window_def unsigned_ucast_eq v by (intro take_bit_int_eq_self) simp_all
qed

lemma window_split:
  fixes lo hi :: int
  assumes "0 \<le> lo" "lo < 2 ^ 32" "i + n = 32" "i + j = 26"
  shows "(lo + hi * 2 ^ 32) div 2 ^ n mod 2 ^ 26 = lo div 2 ^ n + 2 ^ i * (hi mod 2 ^ j)"
proof -
  have e: "(2 :: int) ^ 32 = 2 ^ i * 2 ^ n" using assms(3) by (metis power_add)
  have "lo + hi * 2 ^ 32 = lo + (hi * 2 ^ i) * 2 ^ n" by (simp only: e mult.assoc)
  then have "(lo + hi * 2 ^ 32) div 2 ^ n = lo div 2 ^ n + hi * 2 ^ i"
    by (simp only: div_mult_self1) simp
  moreover have "lo div 2 ^ n < 2 ^ i"
  proof -
    have "lo div 2 ^ n * 2 ^ n = lo - lo mod 2 ^ n" by (simp add: minus_mod_eq_div_mult)
    also have "\<dots> \<le> lo" by simp
    also have "\<dots> < 2 ^ i * 2 ^ n" using assms(2) by (simp only: e)
    finally show ?thesis by simp
  qed
  moreover have "0 \<le> lo div 2 ^ n" using assms by (simp add: pos_imp_zdiv_nonneg_iff)
  ultimately have "(lo + hi * 2 ^ 32) div 2 ^ n mod (2 ^ i * 2 ^ j) = lo div 2 ^ n + 2 ^ i * (hi mod 2 ^ j)"
    by (simp add: zmod_zmult2_eq)
  moreover have "(2 :: int) ^ 26 = 2 ^ i * 2 ^ j" using assms(4) by (metis power_add)
  ultimately show ?thesis by (simp only:)
qed

lemma block_value:
  fixes t0 :: int
  assumes "0 \<le> t0" "t0 < 2 ^ 32" "0 \<le> t1" "t1 < 2 ^ 32" "0 \<le> t2" "t2 < 2 ^ 32"
  shows "t0 mod 2 ^ 26 + ((t0 + t1 * 2 ^ 32) div 2 ^ 26 mod 2 ^ 26) * 2 ^ 26 +
    ((t1 + t2 * 2 ^ 32) div 2 ^ 20 mod 2 ^ 26) * 2 ^ 52 +
    ((t2 + t3 * 2 ^ 32) div 2 ^ 14 mod 2 ^ 26) * 2 ^ 78 + (t3 div 2 ^ 8) * 2 ^ 104 =
    t0 + t1 * 2 ^ 32 + t2 * 2 ^ 64 + t3 * 2 ^ 96"
proof -
  have m: "x mod 2 ^ k = x - 2 ^ k * (x div 2 ^ k)" for x :: int and k
    by (simp add: minus_mult_div_eq_mod)
  have w: "(t0 + t1 * 2 ^ 32) div 2 ^ 26 mod 2 ^ 26 = t0 div 2 ^ 26 + 2 ^ 6 * (t1 mod 2 ^ 20)"
    "(t1 + t2 * 2 ^ 32) div 2 ^ 20 mod 2 ^ 26 = t1 div 2 ^ 20 + 2 ^ 12 * (t2 mod 2 ^ 14)"
    "(t2 + t3 * 2 ^ 32) div 2 ^ 14 mod 2 ^ 26 = t2 div 2 ^ 14 + 2 ^ 18 * (t3 mod 2 ^ 8)"
    using assms by (intro window_split; simp)+
  show ?thesis unfolding w unfolding m by (simp add: algebra_simps)
qed

lemma high_limb:
  assumes "hibit = 0 \<or> hibit = push_bit 24 1"
  shows "uint (drop_bit 8 (t :: 32 word) OR hibit) = uint t div 2 ^ 8 + uint hibit"
    and "uint (drop_bit 8 (t :: 32 word) OR hibit) < 2 ^ 25"
proof -
  have t: "uint (drop_bit 8 t) < 2 ^ 24"
    using uint_less(2)[of t] unfolding uint_drop_bit by simp
  show 1: "uint (drop_bit 8 t OR hibit) = uint t div 2 ^ 8 + uint hibit"
    using assms
  proof
    assume "hibit = push_bit 24 1"
    then show ?thesis using or_shift[OF t, of 1] t
      by (simp add: uint_drop_bit mod_pos_pos_trivial pos_imp_zdiv_nonneg_iff)
  qed (simp add: uint_drop_bit)
  show "uint (drop_bit 8 t OR hibit) < 2 ^ 25"
    using t assms unfolding 1 unfolding uint_drop_bit by auto
qed

lemma poly1305_add_correct:
  assumes h: "carried h" and m: "length m = 16" and b: "hibit = 0 \<or> hibit = push_bit 24 1"
  shows "added (poly1305_add m hibit h)"
    and "limbs_value (poly1305_add m hibit h) = limbs_value h + le_num m + uint hibit * 2 ^ 104"
proof -
  obtain h0 h1 h2 h3 h4 where h': "h = (h0, h1, h2, h3, h4)" by (metis prod_cases5)
  note H = h[unfolded h' carried.simps]
  define a0 where "a0 = U8TO32_LE m AND 0x3ffffff"
  define a1 where "a1 = poly1305_window (U8TO32_LE (drop 4 m)) (U8TO32_LE m) 26"
  define a2 where "a2 = poly1305_window (U8TO32_LE (drop 8 m)) (U8TO32_LE (drop 4 m)) 20"
  define a3 where "a3 = poly1305_window (U8TO32_LE (drop 12 m)) (U8TO32_LE (drop 8 m)) 14"
  define a4 where "a4 = (drop_bit 8 (U8TO32_LE (drop 12 m)) OR hibit)"
  have eq: "poly1305_add m hibit h = (h0 + a0, h1 + a1, h2 + a2, h3 + a3, h4 + a4)"
    by (simp add: poly1305_add_def h' Let_def a0_def a1_def a2_def a3_def a4_def)
  have A: "uint a0 < 2 ^ 26" "uint a1 < 2 ^ 26" "uint a2 < 2 ^ 26" "uint a3 < 2 ^ 26"
    unfolding a0_def a1_def a2_def a3_def low26 limb_window by (rule pos_mod_bound; simp)+
  have A4: "uint a4 < 2 ^ 25" unfolding a4_def by (rule high_limb(2)[OF b])
  have v: "uint a0 + uint a1 * 2 ^ 26 + uint a2 * 2 ^ 52 + uint a3 * 2 ^ 78 + uint a4 * 2 ^ 104 =
      le_num m + uint hibit * 2 ^ 104"
    unfolding a0_def a1_def a2_def a3_def a4_def low26 limb_window high_limb(1)[OF b] le_num_words[OF m] distrib_right
      block_value[OF uint_ge_0 uint_less(2) uint_ge_0 uint_less(2) uint_ge_0 uint_less(2), symmetric]
    by (simp only: add.assoc)
  have S: "uint (h0 + a0) = uint h0 + uint a0" "uint (h1 + a1) = uint h1 + uint a1"
    "uint (h2 + a2) = uint h2 + uint a2" "uint (h3 + a3) = uint h3 + uint a3" "uint (h4 + a4) = uint h4 + uint a4"
    using H A A4 by (subst uint_add_ok; simp)+
  show "added (poly1305_add m hibit h)"
    using H A A4 by (simp add: eq S)
  show "limbs_value (poly1305_add m hibit h) = limbs_value h + le_num m + uint hibit * 2 ^ 104"
    using v unfolding eq unfolding limbs_value_def h' prod.case S by simp
qed

section \<open>The reference and the clamped key\<close>

text \<open>The multiplier and the addend that the key stands for.\<close>

definition poly1305_r :: "byte list \<Rightarrow> int" where
  "poly1305_r key = le_num (take 16 key) AND 0x0ffffffc0ffffffc0ffffffc0fffffff"

definition poly1305_s :: "byte list \<Rightarrow> int" where
  "poly1305_s key = le_num (take 16 (drop 16 key))"

lemma le_num_nonneg: "0 \<le> le_num m"
  by (induction m) simp_all

lemma le_num_less: "le_num m < 256 ^ length m"
proof (induction m)
  case (Cons x m)
  have "uint x \<le> 255" using uint_less(1)[of x] by simp
  moreover have "le_num m \<le> 256 ^ length m - 1" using Cons by simp
  ultimately show ?case by simp
qed simp

lemma and_word: "uint (x AND y :: 32 word) = uint x AND uint y"
  by (simp add: unsigned_and_eq)

lemma int_and_mono: "0 \<le> (x :: int) \<Longrightarrow> 0 \<le> y \<Longrightarrow> x AND y \<le> y"
  by (rule AND_upper2)

lemma and_step:
  "x AND y = (x AND y mod 2 ^ 26) + (x div 2 ^ 26 AND y div 2 ^ 26) * 2 ^ 26" for x y :: int
proof -
  have "push_bit 26 (drop_bit 26 (x AND y)) + take_bit 26 (x AND y) = (x AND y)"
    by (rule bits_ident)
  moreover have "take_bit 26 (x AND y) = (x AND take_bit 26 y)"
    by (auto simp: bit_eq_iff bit_simps)
  ultimately have "push_bit 26 (drop_bit 26 x AND drop_bit 26 y) + (x AND take_bit 26 y) = (x AND y)"
    by (simp only: drop_bit_and)
  then show ?thesis
    by (simp only: push_bit_eq_mult take_bit_eq_mod drop_bit_eq_div add.commute)
qed

lemma div_step: "(K :: int) div 2 ^ m div 2 ^ 26 = K div 2 ^ (m + 26)"
  by (simp add: div_mult2_eq[symmetric] power_add zdiv_zmult2_eq)

lemma clamp_bits:
  fixes K :: int
  shows "K AND 0x0ffffffc0ffffffc0ffffffc0fffffff =
    (K AND 0x3ffffff) + (K div 2 ^ 26 AND 0x3ffff03) * 2 ^ 26 + (K div 2 ^ 52 AND 0x3ffc0ff) * 2 ^ 52 +
    (K div 2 ^ 78 AND 0x3f03fff) * 2 ^ 78 + (K div 2 ^ 104 AND 0xfffff) * 2 ^ 104"
proof -
  have 1: "K AND 0x0ffffffc0ffffffc0ffffffc0fffffff =
      (K AND 0x3ffffff) + (K div 2 ^ 26 AND 0x3ffffff03ffffff03ffffff03) * 2 ^ 26"
    by (rule trans[OF and_step]) simp
  have 2: "K div 2 ^ 26 AND 0x3ffffff03ffffff03ffffff03 =
      (K div 2 ^ 26 AND 0x3ffff03) + (K div 2 ^ 52 AND 0xffffffc0ffffffc0ff) * 2 ^ 26"
    by (rule trans[OF and_step]) (simp add: zdiv_zmult2_eq[symmetric])
  have 3: "K div 2 ^ 52 AND 0xffffffc0ffffffc0ff =
      (K div 2 ^ 52 AND 0x3ffc0ff) + (K div 2 ^ 78 AND 0x3ffffff03fff) * 2 ^ 26"
    by (rule trans[OF and_step]) (simp add: zdiv_zmult2_eq[symmetric])
  have 4: "K div 2 ^ 78 AND 0x3ffffff03fff =
      (K div 2 ^ 78 AND 0x3f03fff) + (K div 2 ^ 104 AND 0xfffff) * 2 ^ 26"
    by (rule trans[OF and_step]) (simp add: zdiv_zmult2_eq[symmetric])
  show ?thesis unfolding 1 2 3 4 by simp
qed

lemma div_less_pow:
  assumes "(x :: int) < a * 2 ^ n" shows "x div 2 ^ n < a"
proof -
  have "x div 2 ^ n * 2 ^ n = x - x mod 2 ^ n" by (simp add: minus_mod_eq_div_mult)
  also have "\<dots> \<le> x" by simp
  also note assms
  finally show ?thesis by simp
qed

lemma and_low:
  fixes a m :: int
  assumes "m = m mod 2 ^ 26"
  shows "a AND m = (a mod 2 ^ 26) AND m"
proof -
  have "a AND take_bit 26 m = (take_bit 26 a AND take_bit 26 m)"
    by (auto simp: bit_eq_iff bit_simps)
  then show ?thesis using assms by (simp only: take_bit_eq_mod)
qed

lemma shift_limb:
  fixes hi lo :: "32 word"
  assumes "n + k = 32" and m: "uint m = uint m mod 2 ^ 26"
  shows "uint ((drop_bit n lo OR push_bit k hi) AND m) = ((uint lo div 2 ^ n + uint hi * 2 ^ k) AND uint m)"
proof -
  have "uint lo < 2 ^ k * 2 ^ n" using assms(1) uint_less(2)[of lo] by (metis add.commute power_add)
  then have "uint (drop_bit n lo) < 2 ^ k"
    unfolding uint_drop_bit by (rule div_less_pow)
  then have "uint (drop_bit n lo OR push_bit k hi) mod 2 ^ 26 = (uint lo div 2 ^ n + uint hi * 2 ^ k) mod 2 ^ 26"
    by (subst or_shift) (simp_all add: uint_drop_bit mod_mod_cancel)
  then show ?thesis
    unfolding and_word by (subst (1 2) and_low[OF m]) (simp only:)
qed

lemma words_take:
  assumes "length key = 32"
  shows "U8TO32_LE (take 16 key) = U8TO32_LE key"
    "U8TO32_LE (drop 4 (take 16 key)) = U8TO32_LE (drop 4 key)"
    "U8TO32_LE (drop 8 (take 16 key)) = U8TO32_LE (drop 8 key)"
    "U8TO32_LE (drop 12 (take 16 key)) = U8TO32_LE (drop 12 key)"
  using assms by (simp_all add: U8TO32_LE_def)

lemma div_shift: "(a + b * 2 ^ n) div 2 ^ n = a div 2 ^ n + b" for a b :: int
  by simp

section \<open>The loop over the message\<close>

lemma key_windows:
  fixes t0 :: int
  assumes K: "K = t0 + t1 * 2 ^ 32 + t2 * 2 ^ 64 + t3 * 2 ^ 96"
    and t: "0 \<le> t0" "t0 < 2 ^ 32" "0 \<le> t1" "t1 < 2 ^ 32" "0 \<le> t2" "t2 < 2 ^ 32"
  shows "K mod 2 ^ 26 = t0 mod 2 ^ 26"
    "K div 2 ^ 26 mod 2 ^ 26 = (t0 div 2 ^ 26 + t1 * 2 ^ 6) mod 2 ^ 26"
    "K div 2 ^ 52 mod 2 ^ 26 = (t1 div 2 ^ 20 + t2 * 2 ^ 12) mod 2 ^ 26"
    "K div 2 ^ 78 = t2 div 2 ^ 14 + t3 * 2 ^ 18"
    "K div 2 ^ 104 = t3 div 2 ^ 8"
proof -
  have K0: "K = t0 + (t1 * 2 ^ 6 + t2 * 2 ^ 38 + t3 * 2 ^ 70) * 2 ^ 26" unfolding K by simp
  have K1: "K div 2 ^ 32 = t1 + t2 * 2 ^ 32 + t3 * 2 ^ 64"
  proof -
    have "K = t0 + (t1 + t2 * 2 ^ 32 + t3 * 2 ^ 64) * 2 ^ 32" unfolding K by simp
    then show ?thesis using t unfolding div_shift by (simp only: div_shift div_pos_pos_trivial)
  qed
  have K2: "K div 2 ^ 64 = t2 + t3 * 2 ^ 32"
  proof -
    have "K div 2 ^ 64 = K div 2 ^ 32 div 2 ^ 32" by (simp add: zdiv_zmult2_eq[symmetric])
    also have "K div 2 ^ 32 = t1 + (t2 + t3 * 2 ^ 32) * 2 ^ 32" unfolding K1 by simp
    finally show ?thesis using t by (simp only: div_shift div_pos_pos_trivial)
  qed
  have K3: "K div 2 ^ 96 = t3"
  proof -
    have "K div 2 ^ 96 = K div 2 ^ 64 div 2 ^ 32" by (simp add: zdiv_zmult2_eq[symmetric])
    then show ?thesis unfolding K2 using t by (simp only: div_shift div_pos_pos_trivial)
  qed
  show "K mod 2 ^ 26 = t0 mod 2 ^ 26" unfolding K0 by (rule mod_mult_self1)
  have "K div 2 ^ 26 = (t0 div 2 ^ 26 + t1 * 2 ^ 6) + (t2 * 2 ^ 12 + t3 * 2 ^ 44) * 2 ^ 26"
    unfolding K0 div_shift by simp
  then show "K div 2 ^ 26 mod 2 ^ 26 = (t0 div 2 ^ 26 + t1 * 2 ^ 6) mod 2 ^ 26"
    by (simp only: mod_mult_self1)
  have "K div 2 ^ 52 = K div 2 ^ 32 div 2 ^ 20" by (simp add: zdiv_zmult2_eq[symmetric])
  also have "\<dots> = (t1 + (t2 * 2 ^ 12 + t3 * 2 ^ 44) * 2 ^ 20) div 2 ^ 20" unfolding K1 by simp
  also have "\<dots> = (t1 div 2 ^ 20 + t2 * 2 ^ 12) + (t3 * 2 ^ 18) * 2 ^ 26" unfolding div_shift by simp
  finally show "K div 2 ^ 52 mod 2 ^ 26 = (t1 div 2 ^ 20 + t2 * 2 ^ 12) mod 2 ^ 26"
    by (simp only: mod_mult_self1)
  have "K div 2 ^ 78 = K div 2 ^ 64 div 2 ^ 14" by (simp add: zdiv_zmult2_eq[symmetric])
  also have "\<dots> = (t2 + t3 * 2 ^ 18 * 2 ^ 14) div 2 ^ 14" unfolding K2 by simp
  finally show "K div 2 ^ 78 = t2 div 2 ^ 14 + t3 * 2 ^ 18" unfolding div_shift .
  have "K div 2 ^ 104 = K div 2 ^ 96 div 2 ^ 8" by (simp add: zdiv_zmult2_eq[symmetric])
  then show "K div 2 ^ 104 = t3 div 2 ^ 8" unfolding K3 .
qed

lemma clamp_correct:
  assumes key: "length key = 32"
  shows "clamped (poly1305_clamp key)" and "limbs_value (poly1305_clamp key) = poly1305_r key"
proof -
  define t0 where "t0 = U8TO32_LE key"
  define t1 where "t1 = U8TO32_LE (drop 4 key)"
  define t2 where "t2 = U8TO32_LE (drop 8 key)"
  define t3 where "t3 = U8TO32_LE (drop 12 key)"
  have K: "le_num (take 16 key) = uint t0 + uint t1 * 2 ^ 32 + uint t2 * 2 ^ 64 + uint t3 * 2 ^ 96"
    using le_num_words[of "take 16 key"] key unfolding words_take[OF key] t0_def t1_def t2_def t3_def by simp
  note W = key_windows[OF K uint_ge_0 uint_less(2) uint_ge_0 uint_less(2) uint_ge_0 uint_less(2)]
  have c: "poly1305_clamp key = (t0 AND 0x3ffffff, (drop_bit 26 t0 OR push_bit 6 t1) AND 0x3ffff03,
      (drop_bit 20 t1 OR push_bit 12 t2) AND 0x3ffc0ff, (drop_bit 14 t2 OR push_bit 18 t3) AND 0x3f03fff,
      drop_bit 8 t3 AND 0xfffff)"
    unfolding poly1305_clamp_def Let_def t0_def t1_def t2_def t3_def ..
  have u: "uint (x AND y :: 32 word) \<le> uint y" for x y
    unfolding and_word by (rule AND_upper2) simp_all
  show "clamped (poly1305_clamp key)"
    unfolding c clamped.simps using u[of t0 "0x3ffffff"] u[of _ "0x3ffff03"] u[of _ "0x3ffc0ff"] u[of _ "0x3f03fff"] u[of _ "0xfffff"]
    by simp
  let ?K = "le_num (take 16 key)"
  have low: "(x AND m) = (y AND m)" if "x mod 2 ^ 26 = y mod 2 ^ 26" "m = m mod 2 ^ 26" for x y m :: int
    using that(1) and_low[where a = x, OF that(2)] and_low[where a = y, OF that(2)] by simp
  have r0: "uint (t0 AND 0x3ffffff) = (?K AND 0x3ffffff)"
    unfolding and_word by (rule trans[OF low[OF W(1)[symmetric]]]) simp_all
  have r1: "uint ((drop_bit 26 t0 OR push_bit 6 t1) AND 0x3ffff03) = (?K div 2 ^ 26 AND 0x3ffff03)"
    by (rule trans[OF shift_limb trans[OF low[OF W(2)[symmetric]]]]) simp_all
  have r2: "uint ((drop_bit 20 t1 OR push_bit 12 t2) AND 0x3ffc0ff) = (?K div 2 ^ 52 AND 0x3ffc0ff)"
    by (rule trans[OF shift_limb trans[OF low[OF W(3)[symmetric]]]]) simp_all
  have r3: "uint ((drop_bit 14 t2 OR push_bit 18 t3) AND 0x3f03fff) = (?K div 2 ^ 78 AND 0x3f03fff)"
    unfolding W(4) by (rule trans[OF shift_limb]) simp_all
  have r4: "uint (drop_bit 8 t3 AND 0xfffff) = (?K div 2 ^ 104 AND 0xfffff)"
    unfolding W(5) and_word uint_drop_bit by simp
  show "limbs_value (poly1305_clamp key) = poly1305_r key"
    unfolding c limbs_value_def prod.case r0 r1 r2 r3 r4 poly1305_r_def clamp_bits ..
qed

text \<open>The polynomial: each block, with a 1 byte after it, is a coefficient.\<close>

function poly1305_acc :: "int \<Rightarrow> int \<Rightarrow> byte list \<Rightarrow> int" where
  "poly1305_acc r a m =
     (if m = [] then a
      else poly1305_acc r ((a + le_num (take 16 m @ [1])) * r mod (2 ^ 130 - 5)) (drop 16 m))"
  by pat_completeness auto
termination
  by (relation "measure (\<lambda>(r, a, m). length m)") auto

declare poly1305_acc.simps [simp del]

lemma le_num_append: "le_num (xs @ ys) = le_num xs + 256 ^ length xs * le_num ys"
  by (induction xs) (simp_all add: algebra_simps)

lemma le_num_zeros: "le_num (replicate n 0) = 0"
  by (induction n) simp_all

lemma absorb_mod: "(x + y) * r mod (q :: int) = (x mod q + y) * r mod q"
  by (metis mod_add_left_eq mod_mult_left_eq)

lemma blocks_correct:
  assumes "clamped r" and "carried h"
  shows "carried (poly1305_blocks r m h) \<and>
    limbs_value (poly1305_blocks r m h) mod (2 ^ 130 - 5) =
      poly1305_acc (limbs_value r) (limbs_value h mod (2 ^ 130 - 5)) m"
  using assms
proof (induction r m h rule: poly1305_blocks.induct)
  case (1 r m h)
  let ?p = "2 ^ 130 - 5 :: int"
  consider "length m \<ge> 16" | "m = []" | "0 < length m" "length m < 16" by fastforce
  then show ?case
  proof cases
    case 1
    let ?h = "poly1305_mul r (poly1305_add (take 16 m) (push_bit 24 1) h)"
    have a: "added (poly1305_add (take 16 m) (push_bit 24 1) h)"
      "limbs_value (poly1305_add (take 16 m) (push_bit 24 1) h) = limbs_value h + le_num (take 16 m @ [1])"
      using poly1305_add_correct[OF "1.prems"(2), of "take 16 m" "push_bit 24 1"] 1 
      by (simp_all add: le_num_append)
    note m = poly1305_mul_correct[OF "1.prems"(1) a(1)]
    have v: "limbs_value ?h mod ?p = (limbs_value h mod ?p + le_num (take 16 m @ [1])) * limbs_value r mod ?p"
      unfolding m(2) a(2) by (rule absorb_mod)
    have "poly1305_blocks r m h = poly1305_blocks r (drop 16 m) ?h"
      using 1 by (simp add: poly1305_blocks.simps[of r m h])
    moreover have "poly1305_acc (limbs_value r) (limbs_value h mod ?p) m =
        poly1305_acc (limbs_value r) (limbs_value ?h mod ?p) (drop 16 m)"
      using 1 unfolding v by (subst poly1305_acc.simps) auto
    ultimately show ?thesis using "1.IH"[OF 1 "1.prems"(1) m(1)] by simp
  next
    case 2
    then show ?thesis
      using "1.prems" by (simp add: poly1305_blocks.simps[of r "[]" h] poly1305_acc.simps[of _ _ "[]"])
  next
    case 3
    let ?b = "m @ 1 # replicate (15 - length m) 0"
    have n: "le_num ?b = le_num (m @ [1])" by (simp add: le_num_append le_num_zeros)
    have a: "added (poly1305_add ?b 0 h)" "limbs_value (poly1305_add ?b 0 h) = limbs_value h + le_num (m @ [1])"
      using poly1305_add_correct[OF "1.prems"(2), of ?b 0] 3 n by simp_all
    note mm = poly1305_mul_correct[OF "1.prems"(1) a(1)]
    have "poly1305_blocks r m h = poly1305_mul r (poly1305_add ?b 0 h)"
      using 3 by (simp add: poly1305_blocks.simps[of r m h])
    moreover have "poly1305_acc (limbs_value r) (limbs_value h mod ?p) m = 
      (limbs_value h mod ?p + le_num (m @ [1])) * limbs_value r mod ?p"
      using 3 by (subst poly1305_acc.simps) (simp add: poly1305_acc.simps[of _ _ "[]"])
    moreover have "limbs_value (poly1305_mul r (poly1305_add ?b 0 h)) mod ?p =
      (limbs_value h mod ?p + le_num (m @ [1])) * limbs_value r mod ?p"
      unfolding mm(2) a(2) by (rule absorb_mod)
    ultimately show ?thesis using mm(1) by simp
  qed
qed

section \<open>The last carry\<close>

fun full :: "limbs \<Rightarrow> bool" where
  "full (h0, h1, h2, h3, h4) \<longleftrightarrow>
     uint h0 < 2 ^ 26 \<and> uint h1 < 2 ^ 26 \<and> uint h2 < 2 ^ 26 \<and> uint h3 < 2 ^ 26 \<and> uint h4 < 2 ^ 26"

lemma step32:
  assumes "uint (h :: 32 word) = H" and "uint b = B" and "H + B < 2 ^ 32"
  shows "uint (h + b) = H + B" "uint ((h + b) AND 0x3ffffff) = (H + B) mod 2 ^ 26"
    "uint (drop_bit 26 (h + b)) = (H + B) div 2 ^ 26"
proof -
  show s: "uint (h + b) = H + B" using assms by (subst uint_add_ok) simp_all
  show "uint ((h + b) AND 0x3ffffff) = (H + B) mod 2 ^ 26" unfolding low26 s ..
  show "uint (drop_bit 26 (h + b)) = (H + B) div 2 ^ 26" unfolding uint_drop_bit s ..
qed

lemma carry_low:
  fixes h0 :: int
  assumes "0 \<le> h0" "h0 \<le> 2810000000" "0 \<le> h1" "h1 < 2 ^ 26" "0 \<le> h2" "h2 < 2 ^ 26" "0 \<le> h3" "h3 < 2 ^ 26"
    "0 \<le> h4" "h4 < 2 ^ 26"
    and x: "0 \<le> x0" "x0 < 2 ^ 26" "0 \<le> x1" "x1 < 2 ^ 26" "0 \<le> x2" "x2 < 2 ^ 26" "0 \<le> x3" "x3 < 2 ^ 26"
      "0 \<le> x4" "x4 < 2 ^ 26" "0 \<le> y0" "y0 < 2 ^ 26"
    and e: "h0 = x0 + 2 ^ 26 * b0" "h1 + b0 = x1 + 2 ^ 26 * b1" "h2 + b1 = x2 + 2 ^ 26 * b2"
      "h3 + b2 = x3 + 2 ^ 26 * b3" "h4 + b3 = x4 + 2 ^ 26 * b4" "x0 + b4 * 5 = y0 + 2 ^ 26 * c"
  shows "b0 \<le> 41" "b1 \<le> 1" "b2 \<le> 1" "b3 \<le> 1" "b4 \<le> 1" "0 \<le> b0" "0 \<le> b1" "0 \<le> b2" "0 \<le> b3" "0 \<le> b4" "0 \<le> c"
    "x1 + c < 2 ^ 26"
    "y0 + (x1 + c) * 2 ^ 26 + x2 * 2 ^ 52 + x3 * 2 ^ 78 + x4 * 2 ^ 104 + (2 ^ 130 - 5) * b4 =
     h0 + h1 * 2 ^ 26 + h2 * 2 ^ 52 + h3 * 2 ^ 78 + h4 * 2 ^ 104"
proof -
  have p: "(2 :: int) ^ 26 = 67108864" by simp
  note A = assms[unfolded p] and X = x[unfolded p] and E = e[unfolded p]
  show b0: "0 \<le> b0" "b0 \<le> 41" using A by - linarith+
  show b1: "0 \<le> b1" "b1 \<le> 1" using A b0 by - linarith+
  show b2: "0 \<le> b2" "b2 \<le> 1" using A b1 by - linarith+
  show b3: "0 \<le> b3" "b3 \<le> 1" using A b2 by - linarith+
  show b4: "0 \<le> b4" "b4 \<le> 1" using A b3 by - linarith+
  show c: "0 \<le> c" using X E b4 by linarith
  have c1: "c \<le> 1" using X E b4 by linarith
  show "x1 + c < 2 ^ 26"
  proof (cases "b4 \<le> 0")
    case True
    then have "c \<le> 0" using X E by linarith
    then show ?thesis using X unfolding p by linarith
  next
    case False
    then have "b3 \<ge> 1" using A by linarith
    then have "b2 \<ge> 1" using A by linarith
    then have "b1 \<ge> 1" using A by linarith
    then show ?thesis using A b0 c1 unfolding p by linarith
  qed
  show "y0 + (x1 + c) * 2 ^ 26 + x2 * 2 ^ 52 + x3 * 2 ^ 78 + x4 * 2 ^ 104 + (2 ^ 130 - 5) * b4 =
     h0 + h1 * 2 ^ 26 + h2 * 2 ^ 52 + h3 * 2 ^ 78 + h4 * 2 ^ 104"
    using e by simp
qed

lemma split26: "0 \<le> x mod 2 ^ 26" "x mod 2 ^ 26 < 2 ^ 26" "x = x mod 2 ^ 26 + 2 ^ 26 * (x div 2 ^ 26)" for x :: int
  by simp_all

lemma poly1305_carry_correct:
  assumes "carried h"
  shows "full (poly1305_carry h)"
    and "limbs_value (poly1305_carry h) mod (2 ^ 130 - 5) = limbs_value h mod (2 ^ 130 - 5)"
proof -
  obtain h0 h1 h2 h3 h4 where h': "h = (h0, h1, h2, h3, h4)" by (metis prod_cases5)
  have H: "uint h0 \<le> 2810000000" "uint h1 < 2 ^ 26" "uint h2 < 2 ^ 26" "uint h3 < 2 ^ 26" "uint h4 < 2 ^ 26"
    using assms unfolding h' carried.simps by simp_all
  define b0 where "b0 = uint h0 div 2 ^ 26"
  define x0 where "x0 = uint h0 mod 2 ^ 26"
  define b1 where "b1 = (uint h1 + b0) div 2 ^ 26"
  define x1 where "x1 = (uint h1 + b0) mod 2 ^ 26"
  define b2 where "b2 = (uint h2 + b1) div 2 ^ 26"
  define x2 where "x2 = (uint h2 + b1) mod 2 ^ 26"
  define b3 where "b3 = (uint h3 + b2) div 2 ^ 26"
  define x3 where "x3 = (uint h3 + b2) mod 2 ^ 26"
  define b4 where "b4 = (uint h4 + b3) div 2 ^ 26"
  define x4 where "x4 = (uint h4 + b3) mod 2 ^ 26"
  define y0 where "y0 = (x0 + b4 * 5) mod 2 ^ 26"
  define c where "c = (x0 + b4 * 5) div 2 ^ 26"
  note x = split26(1,2)[of "uint h0", folded x0_def] split26(1,2)[of "uint h1 + b0", folded x1_def]
    split26(1,2)[of "uint h2 + b1", folded x2_def] split26(1,2)[of "uint h3 + b2", folded x3_def]
    split26(1,2)[of "uint h4 + b3", folded x4_def] split26(1,2)[of "x0 + b4 * 5", folded y0_def]
  note e = split26(3)[of "uint h0", folded x0_def b0_def] split26(3)[of "uint h1 + b0", folded x1_def b1_def]
    split26(3)[of "uint h2 + b1", folded x2_def b2_def] split26(3)[of "uint h3 + b2", folded x3_def b3_def]
    split26(3)[of "uint h4 + b3", folded x4_def b4_def] split26(3)[of "x0 + b4 * 5", folded y0_def c_def]
  note L = carry_low[OF uint_ge_0 H(1) uint_ge_0 H(2) uint_ge_0 H(3) uint_ge_0 H(4) uint_ge_0 H(5) x e]
  have 0: "uint (h0 AND 0x3ffffff) = x0" "uint (drop_bit 26 h0) = b0"
    unfolding low26 uint_drop_bit x0_def b0_def by (rule refl)+
  note s1 = step32[OF refl 0(2), of h1, folded x1_def b1_def]
  have 1: "uint h1 + b0 < 2 ^ 32" using H(2-5) L(1-10) by simp
  note s2 = step32[OF refl s1(3)[OF 1], of h2, folded x2_def b2_def]
  have 2: "uint h2 + b1 < 2 ^ 32" using H(2-5) L(1-10) by simp
  note s3 = step32[OF refl s2(3)[OF 2], of h3, folded x3_def b3_def]
  have 3: "uint h3 + b2 < 2 ^ 32" using H(2-5) L(1-10) by simp
  note s4 = step32[OF refl s3(3)[OF 3], of h4, folded x4_def b4_def]
  have 4: "uint h4 + b3 < 2 ^ 32" using H(2-5) L(1-10) by simp
  have 5: "uint (drop_bit 26 (h4 + drop_bit 26 (h3 + drop_bit 26 (h2 + drop_bit 26 (h1 + drop_bit 26 h0)))) * 5) = b4 * 5"
    using L(5) s4(3)[OF 4] by (subst times5) simp_all
  note s5 = step32[OF 0(1) 5, folded y0_def c_def]
  have 6: "x0 + b4 * 5 < 2 ^ 32" using x(1,2) L(5,10) by simp
  have 7: "uint (((h1 + drop_bit 26 h0) AND 0x3ffffff) + drop_bit 26 ((h0 AND 0x3ffffff) +
      drop_bit 26 (h4 + drop_bit 26 (h3 + drop_bit 26 (h2 + drop_bit 26 (h1 + drop_bit 26 h0)))) * 5)) = x1 + c"
    by (rule step32(1)[OF s1(2)[OF 1] s5(3)[OF 6]]) (use L(12) in simp)
  note U = s1(2)[OF 1] s2(2)[OF 2] s3(2)[OF 3] s4(2)[OF 4] s5(2)[OF 6] 7
  show "full (poly1305_carry h)"
    unfolding poly1305_carry_def h' prod.case Let_def full.simps U using x L(12) by blast
  have "limbs_value (poly1305_carry h) + (2 ^ 130 - 5) * b4 = limbs_value h"
    unfolding poly1305_carry_def limbs_value_def h' prod.case Let_def U by (rule L(13))
  then show "limbs_value (poly1305_carry h) mod (2 ^ 130 - 5) = limbs_value h mod (2 ^ 130 - 5)"
    by (metis mod_mult_self2)
qed

section \<open>The conditional subtraction\<close>

lemma select_mask:
  "(h AND NOT (0 :: 32 word)) OR (g AND 0) = h" "(h AND NOT (- 1 :: 32 word)) OR (g AND - 1) = g"
  by simp_all

lemma borrow_bit:
  assumes "0 \<le> a" "a < 2 ^ 26 + 2" "uint (x :: 32 word) = a"
  shows "drop_bit 31 (x - push_bit 26 1) - 1 = (if a < 2 ^ 26 then 0 else (- 1 :: 32 word))"
proof -
  have p: "push_bit 26 1 = (67108864 :: 32 word)" by simp
  have u: "uint (x - 67108864) = (a - 2 ^ 26) mod 2 ^ 32" using assms(3) by (simp add: uint_word_ariths)
  show ?thesis
  proof (cases "a < 2 ^ 26")
    case True
    then have "(a - 2 ^ 26) mod 2 ^ 32 = a - 2 ^ 26 + 2 ^ 32"
      using assms(1) by (intro int_mod_pos_eq[of _ _ "-1"]) simp_all
    then have "uint (drop_bit 31 (x - 67108864)) = (a - 2 ^ 26 + 2 ^ 32) div 2 ^ 31" 
      unfolding uint_drop_bit u by (simp only:)
    also have "\<dots> = 1" using True assms(1) by (intro int_div_pos_eq[of _ _ _ "a - 2 ^ 26 + 2 ^ 31"]) simp_all
    finally have "drop_bit 31 (x - 67108864) = 1" by (metis uint_1_eq word_uint_eqI)
    then show ?thesis using True p by simp
  next
    case False
    then have "(a - 2 ^ 26) mod 2 ^ 32 = a - 2 ^ 26" using assms by (intro mod_pos_pos_trivial) simp_all
    then have "uint (drop_bit 31 (x - 67108864)) = (a - 2 ^ 26) div 2 ^ 31" 
      unfolding uint_drop_bit u by (simp only:)
    also have "\<dots> = 0" using False assms by (intro div_pos_pos_trivial) simp_all
    finally have "drop_bit 31 (x - 67108864) = 0" by (simp add: uint_0_iff)
    then show ?thesis using False p by simp
  qed
qed

lemma reduce_low:
  fixes h0 :: int
  assumes "0 \<le> h0" "h0 < 2 ^ 26" "0 \<le> h1" "h1 < 2 ^ 26" "0 \<le> h2" "h2 < 2 ^ 26" "0 \<le> h3" "h3 < 2 ^ 26"
    "0 \<le> h4" "h4 < 2 ^ 26"
    and x: "0 \<le> x0" "x0 < 2 ^ 26" "0 \<le> x1" "x1 < 2 ^ 26" "0 \<le> x2" "x2 < 2 ^ 26" "0 \<le> x3" "x3 < 2 ^ 26"
    and e: "h0 + 5 = x0 + 2 ^ 26 * b0" "h1 + b0 = x1 + 2 ^ 26 * b1" "h2 + b1 = x2 + 2 ^ 26 * b2"
      "h3 + b2 = x3 + 2 ^ 26 * b3"
    and v: "v = h0 + h1 * 2 ^ 26 + h2 * 2 ^ 52 + h3 * 2 ^ 78 + h4 * 2 ^ 104"
  shows "0 \<le> b0" "b0 \<le> 1" "0 \<le> b1" "b1 \<le> 1" "0 \<le> b2" "b2 \<le> 1" "0 \<le> b3" "b3 \<le> 1"
    "h4 + b3 < 2 ^ 26 \<Longrightarrow> v mod (2 ^ 130 - 5) = v"
    "\<not> h4 + b3 < 2 ^ 26 \<Longrightarrow> v mod (2 ^ 130 - 5) = x0 + x1 * 2 ^ 26 + x2 * 2 ^ 52 + x3 * 2 ^ 78"
    "\<not> h4 + b3 < 2 ^ 26 \<Longrightarrow> h4 + b3 = 2 ^ 26"
proof -
  have p: "(2 :: int) ^ 26 = 67108864" by simp
  note A = assms[unfolded p] and X = x[unfolded p] and E = e[unfolded p]
  show b0: "0 \<le> b0" "b0 \<le> 1" using A by - linarith+
  show b1: "0 \<le> b1" "b1 \<le> 1" using A b0 by - linarith+
  show b2: "0 \<le> b2" "b2 \<le> 1" using A b1 by - linarith+
  show b3: "0 \<le> b3" "b3 \<le> 1" using A b2 by - linarith+
  have w: "v + 5 = x0 + x1 * 2 ^ 26 + x2 * 2 ^ 52 + x3 * 2 ^ 78 + (h4 + b3) * 2 ^ 104"
    unfolding v using e by simp
  have nn: "0 \<le> v" unfolding v using assms(1,3,5,7,9) by simp
  {
    assume "h4 + b3 < 2 ^ 26"
    then have "v < 2 ^ 130 - 5" using w X by simp
    then show "v mod (2 ^ 130 - 5) = v" using nn by (intro mod_pos_pos_trivial)
  }
  assume big: "\<not> h4 + b3 < 2 ^ 26"
  show t: "h4 + b3 = 2 ^ 26" using big A b3 unfolding p by linarith
  let ?r = "x0 + x1 * 2 ^ 26 + x2 * 2 ^ 52 + x3 * 2 ^ 78"
  have "v = ?r + (2 ^ 130 - 5)" using w unfolding t by simp
  moreover have "0 \<le> ?r" "?r < 2 ^ 130 - 5" using X by simp_all
  ultimately show "v mod (2 ^ 130 - 5) = ?r" by (simp only: mod_add_self2 mod_pos_pos_trivial)
qed

section \<open>Output\<close>

lemma poly1305_reduce_correct:
  assumes "full h"
  shows "full (poly1305_reduce h)"
    and "limbs_value (poly1305_reduce h) = limbs_value h mod (2 ^ 130 - 5)"
proof -
  obtain h0 h1 h2 h3 h4 where h': "h = (h0, h1, h2, h3, h4)" by (metis prod_cases5)
  have H: "uint h0 < 2 ^ 26" "uint h1 < 2 ^ 26" "uint h2 < 2 ^ 26" "uint h3 < 2 ^ 26" "uint h4 < 2 ^ 26"
    using assms unfolding h' full.simps by simp_all
  define b0 where "b0 = (uint h0 + 5) div 2 ^ 26"
  define x0 where "x0 = (uint h0 + 5) mod 2 ^ 26"
  define b1 where "b1 = (uint h1 + b0) div 2 ^ 26"
  define x1 where "x1 = (uint h1 + b0) mod 2 ^ 26"
  define b2 where "b2 = (uint h2 + b1) div 2 ^ 26"
  define x2 where "x2 = (uint h2 + b1) mod 2 ^ 26"
  define b3 where "b3 = (uint h3 + b2) div 2 ^ 26"
  define x3 where "x3 = (uint h3 + b2) mod 2 ^ 26"
  note x = split26(1,2)[of "uint h0 + 5", folded x0_def] split26(1,2)[of "uint h1 + b0", folded x1_def]
    split26(1,2)[of "uint h2 + b1", folded x2_def] split26(1,2)[of "uint h3 + b2", folded x3_def]
  note e = split26(3)[of "uint h0 + 5", folded x0_def b0_def] split26(3)[of "uint h1 + b0", folded x1_def b1_def]
    split26(3)[of "uint h2 + b1", folded x2_def b2_def] split26(3)[of "uint h3 + b2", folded x3_def b3_def]
  have v: "limbs_value h = uint h0 + uint h1 * 2 ^ 26 + uint h2 * 2 ^ 52 + uint h3 * 2 ^ 78 + uint h4 * 2 ^ 104"
    unfolding limbs_value_def h' prod.case ..
  note L = reduce_low[OF uint_ge_0 H(1) uint_ge_0 H(2) uint_ge_0 H(3) uint_ge_0 H(4) uint_ge_0 H(5) x e v]
  have 0: "uint h0 + 5 < 2 ^ 32" using H by simp
  have five: "uint (5 :: 32 word) = 5" by simp
  note s0 = step32[OF refl five 0, folded x0_def b0_def]
  note s1 = step32[OF refl s0(3), of h1, folded x1_def b1_def]
  have 1: "uint h1 + b0 < 2 ^ 32" using H(2) L(1-8) by simp
  note s2 = step32[OF refl s1(3)[OF 1], of h2, folded x2_def b2_def]
  have 2: "uint h2 + b1 < 2 ^ 32" using H(3) L(1-8) by simp
  note s3 = step32[OF refl s2(3)[OF 2], of h3, folded x3_def b3_def]
  have 3: "uint h3 + b2 < 2 ^ 32" using H(4) L(1-8) by simp
  have 4: "uint h4 + b3 < 2 ^ 32" using H(5) L(1-8) by simp
  note s4 = step32(1)[OF refl s3(3)[OF 3] 4]
  let ?g4 = "h4 + drop_bit 26 (h3 + drop_bit 26 (h2 + drop_bit 26 (h1 + drop_bit 26 (h0 + 5))))"
  have m: "drop_bit 31 (?g4 - push_bit 26 1) - 1 = (if uint h4 + b3 < 2 ^ 26 then 0 else - 1)"
    by (rule borrow_bit[OF _ _ s4]) (use H(5) L(7,8) in simp_all)
  have r: "poly1305_reduce h = (if uint h4 + b3 < 2 ^ 26 then h else
      ((h0 + 5) AND 0x3ffffff, (h1 + drop_bit 26 (h0 + 5)) AND 0x3ffffff,
       (h2 + drop_bit 26 (h1 + drop_bit 26 (h0 + 5))) AND 0x3ffffff,
       (h3 + drop_bit 26 (h2 + drop_bit 26 (h1 + drop_bit 26 (h0 + 5)))) AND 0x3ffffff, ?g4 - push_bit 26 1))"
    unfolding poly1305_reduce_def h' prod.case Let_def m
    by (cases "uint h4 + b3 < 2 ^ 26") (simp_all only: if_True if_False select_mask)
  have g: "uint (?g4 - push_bit 26 1) = 0" if "\<not> uint h4 + b3 < 2 ^ 26"
  proof -
    have "uint ?g4 = 2 ^ 26" using s4 L(11)[OF that] by (simp only:)
    then have "?g4 = push_bit 26 1" by (intro word_uint_eqI) simp
    then show ?thesis by simp
  qed
  note U = s0(2) s1(2)[OF 1] s2(2)[OF 2] s3(2)[OF 3] g
  show "full (poly1305_reduce h)"
  proof (cases "uint h4 + b3 < 2 ^ 26")
    case True
    then show ?thesis using assms r by simp
  next
    case False
    then show ?thesis unfolding r if_not_P[OF False] full.simps U(1-4) U(5)[OF False] using x by simp
  qed
  show "limbs_value (poly1305_reduce h) = limbs_value h mod (2 ^ 130 - 5)"
  proof (cases "uint h4 + b3 < 2 ^ 26")
    case True
    show ?thesis unfolding r if_P[OF True] L(9)[OF True] ..
  next
    case False
    show ?thesis
      unfolding r if_not_P[OF False] L(10)[OF False] unfolding limbs_value_def prod.case U(1-4) U(5)[OF False] by simp
  qed
qed

lemma le_bytes_cong: "v mod 256 ^ n = w mod 256 ^ n \<Longrightarrow> le_bytes n v = le_bytes n w"
proof (induction n arbitrary: v w)
  case (Suc n)
  have "v mod 256 = w mod 256"
    using Suc.prems by (metis dvd_triv_left mod_mod_cancel power_Suc)
  then have "(word_of_int v :: byte) = word_of_int w"
    by (simp add: word_of_int_eq_iff take_bit_eq_mod)
  moreover have "v div 256 mod 256 ^ n = w div 256 mod 256 ^ n"
  proof -
    have z: "x mod (256 * 256 ^ n) = 256 * (x div 256 mod 256 ^ n) + x mod 256" for x :: int
      by (rule zmod_zmult2_eq) simp
    have "256 * (v div 256 mod 256 ^ n) + v mod 256 = 256 * (w div 256 mod 256 ^ n) + w mod 256"
      using Suc.prems unfolding power_Suc z .
    then have "256 * (v div 256 mod 256 ^ n) = 256 * (w div 256 mod 256 ^ n)"
      unfolding \<open>v mod 256 = w mod 256\<close> add_right_cancel .
    then show ?thesis by (rule mult_left_cancel[THEN iffD1, rotated]) (rule zero_neq_numeral[symmetric])
  qed
  then have "le_bytes n (v div 256) = le_bytes n (w div 256)" by (rule Suc.IH)
  ultimately show ?case by (simp only: le_bytes.simps)
qed simp

lemma le_bytes_add: "le_bytes (m + n) v = le_bytes m v @ le_bytes n (v div 256 ^ m)"
  by (induction m arbitrary: v) (simp_all add: zdiv_zmult2_eq)

lemma U32TO8_LE_bytes: "U32TO8_LE f = le_bytes 4 (uint f)"
proof -
  have d: "ucast (drop_bit n f) = (word_of_int (uint f div 2 ^ n) :: byte)" for n
    by (simp only: ucast_eq uint_drop_bit)
  have "le_bytes 4 (uint f) = [word_of_int (uint f), word_of_int (uint f div 2 ^ 8),
      word_of_int (uint f div 2 ^ 16), word_of_int (uint f div 2 ^ 24)]"
    by (simp add: numeral_eq_Suc zdiv_zmult2_eq[symmetric])
  then show ?thesis unfolding U32TO8_LE_def d by (simp only: ucast_eq)
qed

lemma mod_shift:
  fixes lo hi :: int
  assumes "0 \<le> lo" "lo < 2 ^ a" "a + b = 32"
  shows "(lo + hi * 2 ^ a) mod 2 ^ 32 = lo + 2 ^ a * (hi mod 2 ^ b)"
proof -
  have "(2 :: int) ^ 32 = 2 ^ a * 2 ^ b" using assms(3) by (metis power_add)
  moreover have "(lo + hi * 2 ^ a) mod (2 ^ a * 2 ^ b) = lo + 2 ^ a * (hi mod 2 ^ b)"
    using assms(1,2) by (simp add: zmod_zmult2_eq)
  ultimately show ?thesis by (simp only:)
qed

lemma chunks:
  fixes h0 :: int
  assumes "0 \<le> h0" "h0 < 2 ^ 26" "0 \<le> h1" "h1 < 2 ^ 26" "0 \<le> h2" "h2 < 2 ^ 26" "0 \<le> h3" "h3 < 2 ^ 26"
  shows "((h0 + h1 * 2 ^ 26) mod 2 ^ 32 + (h1 div 2 ^ 6 + h2 * 2 ^ 20) mod 2 ^ 32 * 2 ^ 32 +
    (h2 div 2 ^ 12 + h3 * 2 ^ 14) mod 2 ^ 32 * 2 ^ 64 + (h3 div 2 ^ 18 + h4 * 2 ^ 8) mod 2 ^ 32 * 2 ^ 96) mod 2 ^ 128 =
    (h0 + h1 * 2 ^ 26 + h2 * 2 ^ 52 + h3 * 2 ^ 78 + h4 * 2 ^ 104) mod 2 ^ 128"
proof -
  have d: "h1 div 2 ^ 6 < 2 ^ 20" "h2 div 2 ^ 12 < 2 ^ 14" "h3 div 2 ^ 18 < 2 ^ 8"
    by (rule div_less_pow; use assms in simp)+
  have n: "0 \<le> h1 div 2 ^ 6" "0 \<le> h2 div 2 ^ 12" "0 \<le> h3 div 2 ^ 18"
    using assms by (simp_all add: pos_imp_zdiv_nonneg_iff)
  have w: "(h0 + h1 * 2 ^ 26) mod 2 ^ 32 = h0 + 2 ^ 26 * (h1 mod 2 ^ 6)"
    "(h1 div 2 ^ 6 + h2 * 2 ^ 20) mod 2 ^ 32 = h1 div 2 ^ 6 + 2 ^ 20 * (h2 mod 2 ^ 12)"
    "(h2 div 2 ^ 12 + h3 * 2 ^ 14) mod 2 ^ 32 = h2 div 2 ^ 12 + 2 ^ 14 * (h3 mod 2 ^ 18)"
    "(h3 div 2 ^ 18 + h4 * 2 ^ 8) mod 2 ^ 32 = h3 div 2 ^ 18 + 2 ^ 8 * (h4 mod 2 ^ 24)"
    by (rule mod_shift[OF assms(1,2)], simp, rule mod_shift[OF n(1) d(1)], simp,
        rule mod_shift[OF n(2) d(2)], simp, rule mod_shift[OF n(3) d(3)], simp)
  have m: "x mod 2 ^ k = x - 2 ^ k * (x div 2 ^ k)" for x :: int and k
    by (simp add: minus_mult_div_eq_mod)
  have "h0 + h1 * 2 ^ 26 + h2 * 2 ^ 52 + h3 * 2 ^ 78 + h4 * 2 ^ 104 =
    (h0 + 2 ^ 26 * (h1 mod 2 ^ 6)) + (h1 div 2 ^ 6 + 2 ^ 20 * (h2 mod 2 ^ 12)) * 2 ^ 32 +
    (h2 div 2 ^ 12 + 2 ^ 14 * (h3 mod 2 ^ 18)) * 2 ^ 64 +
    (h3 div 2 ^ 18 + 2 ^ 8 * (h4 mod 2 ^ 24)) * 2 ^ 96 + (h4 div 2 ^ 24) * 2 ^ 128"
    unfolding m by (simp add: algebra_simps)
  then show ?thesis unfolding w by (simp only: mod_mult_self1)
qed

lemma words_half:
  assumes "length key = 32"
  shows "poly1305_s key = uint (U8TO32_LE (drop 16 key)) + uint (U8TO32_LE (drop 20 key)) * 2 ^ 32 +
    uint (U8TO32_LE (drop 24 key)) * 2 ^ 64 + uint (U8TO32_LE (drop 28 key)) * 2 ^ 96"
  using assms le_num_words[of "drop 16 key"] by (simp add: poly1305_s_def add.commute)

text \<open>The bytes of four 32-bit sums added with carry.\<close>

lemma carry_bytes:
  fixes f0 f1 f2 f3 :: "64 word"
  assumes f: "uint f0 < 2 ^ 33" "uint f1 < 2 ^ 33" "uint f2 < 2 ^ 33" "uint f3 < 2 ^ 33"
    and g: "g1 = f1 + drop_bit 32 f0" "g2 = f2 + drop_bit 32 g1" "g3 = f3 + drop_bit 32 g2"
  shows "U32TO8_LE f0 @ U32TO8_LE g1 @ U32TO8_LE g2 @ U32TO8_LE g3 =
    le_bytes 16 (uint f0 + uint f1 * 2 ^ 32 + uint f2 * 2 ^ 64 + uint f3 * 2 ^ 96)"
proof -
  have c: "uint (a + drop_bit 32 b) = uint a + uint b div 2 ^ 32 \<and> uint (a + drop_bit 32 b) < 2 ^ 34"
    if "uint a < 2 ^ 33" "uint b < 2 ^ 34" for a b :: "64 word"
  proof -
    have "uint b div 2 ^ 32 < 4" by (rule div_less_pow) (use that in simp)
    moreover from this have "uint (a + drop_bit 32 b) = uint a + uint b div 2 ^ 32"
      using that by (subst uint_add_ok) (simp_all add: uint_drop_bit)
    ultimately show ?thesis using that by simp
  qed
  have g1: "uint g1 = uint f1 + uint f0 div 2 ^ 32" "uint g1 < 2 ^ 34" using c[of f1 f0] f g by simp_all
  have g2: "uint g2 = uint f2 + uint g1 div 2 ^ 32" "uint g2 < 2 ^ 34" using c[of f2 g1] f g g1 by simp_all
  have g3: "uint g3 = uint f3 + uint g2 div 2 ^ 32" using c[of f3 g2] f g g2 by simp_all
  define w where "w = uint f0 + uint f1 * 2 ^ 32 + uint f2 * 2 ^ 64 + uint f3 * 2 ^ 96"
  have step: "le_bytes (4 + n) (x + y * 2 ^ 32) = le_bytes 4 x @ le_bytes n (y + x div 2 ^ 32)" for n and x y :: int
  proof -
    have "le_bytes 4 (x + y * 2 ^ 32) = le_bytes 4 x" by (rule le_bytes_cong) simp
    then show ?thesis unfolding le_bytes_add by simp
  qed
  have "w = uint f0 + (uint f1 + (uint f2 + uint f3 * 2 ^ 32) * 2 ^ 32) * 2 ^ 32" by (simp add: w_def)
  then have "le_bytes (4 + 12) w = le_bytes 4 (uint f0) @ le_bytes 12 (uint g1 + (uint f2 + uint f3 * 2 ^ 32) * 2 ^ 32)"
    by (simp only: step g1) (simp only: ac_simps)
  also have "le_bytes 12 (uint g1 + (uint f2 + uint f3 * 2 ^ 32) * 2 ^ 32) =
      le_bytes 4 (uint g1) @ le_bytes 8 (uint g2 + uint f3 * 2 ^ 32)"
    using step[of 8 "uint g1" "uint f2 + uint f3 * 2 ^ 32"] by (simp add: g2 algebra_simps)
  also have "le_bytes 8 (uint g2 + uint f3 * 2 ^ 32) = le_bytes 4 (uint g2) @ le_bytes 4 (uint g3)"
    using step[of 4 "uint g2" "uint f3"] by (simp add: g3 algebra_simps)
  finally show ?thesis unfolding U32TO8_LE_bytes w_def by simp
qed

section \<open>The tag\<close>

lemma poly1305_out_correct:
  assumes h: "full h" and key: "length key = 32"
  shows "poly1305_out key h = le_bytes 16 (limbs_value h + poly1305_s key)"
proof -
  obtain h0 h1 h2 h3 h4 where h': "h = (h0, h1, h2, h3, h4)" by (metis prod_cases5)
  have H: "uint h0 < 2 ^ 26" "uint h1 < 2 ^ 26" "uint h2 < 2 ^ 26" "uint h3 < 2 ^ 26"
    using h unfolding h' full.simps by simp_all
  have c0: "uint (h0 OR push_bit 26 h1) = (uint h0 + uint h1 * 2 ^ 26) mod 2 ^ 32"
    using or_shift[OF H(1), of h1] by simp
  have d: "uint (drop_bit 6 h1) < 2 ^ 20" "uint (drop_bit 12 h2) < 2 ^ 14" "uint (drop_bit 18 h3) < 2 ^ 8"
    unfolding uint_drop_bit by (rule div_less_pow; use H in simp)+
  have c1: "uint (drop_bit 6 h1 OR push_bit 20 h2) = (uint h1 div 2 ^ 6 + uint h2 * 2 ^ 20) mod 2 ^ 32"
    using or_shift[OF d(1), of h2] unfolding uint_drop_bit by simp
  have c2: "uint (drop_bit 12 h2 OR push_bit 14 h3) = (uint h2 div 2 ^ 12 + uint h3 * 2 ^ 14) mod 2 ^ 32"
    using or_shift[OF d(2), of h3] unfolding uint_drop_bit by simp
  have c3: "uint (drop_bit 18 h3 OR push_bit 8 h4) = (uint h3 div 2 ^ 18 + uint h4 * 2 ^ 8) mod 2 ^ 32"
    using or_shift[OF d(3), of h4] unfolding uint_drop_bit by simp
  have f: "uint (ucast a + ucast b :: 64 word) = uint a + uint b \<and> uint a + uint b < 2 ^ 33" for a b :: "32 word"
    using uint_less(2)[of a] uint_less(2)[of b] by (auto simp: uint_add_ok uint_widen)
  define k where "k = (\<lambda>i. U8TO32_LE (drop i key))"
  let ?f = "\<lambda>a i. ucast a + ucast (k i) :: 64 word"
  have "poly1305_out key h = le_bytes 16
      (uint (?f (h0 OR push_bit 26 h1) 16) + uint (?f (drop_bit 6 h1 OR push_bit 20 h2) 20) * 2 ^ 32 +
       uint (?f (drop_bit 12 h2 OR push_bit 14 h3) 24) * 2 ^ 64 + uint (?f (drop_bit 18 h3 OR push_bit 8 h4) 28) * 2 ^ 96)"
    unfolding poly1305_out_def h' prod.case Let_def k_def
    by (rule carry_bytes[OF _ _ _ _ refl refl refl]) (simp_all only: f)
  also have "\<dots> = le_bytes 16 (limbs_value h + poly1305_s key)"
  proof (rule le_bytes_cong)
    define C where "C = (uint h0 + uint h1 * 2 ^ 26) mod 2 ^ 32 +
      (uint h1 div 2 ^ 6 + uint h2 * 2 ^ 20) mod 2 ^ 32 * 2 ^ 32 +
      (uint h2 div 2 ^ 12 + uint h3 * 2 ^ 14) mod 2 ^ 32 * 2 ^ 64 +
      (uint h3 div 2 ^ 18 + uint h4 * 2 ^ 8) mod 2 ^ 32 * 2 ^ 96"
    have "C mod 2 ^ 128 = limbs_value h mod 2 ^ 128"
      unfolding C_def limbs_value_def h' prod.case
      by (rule chunks) (use H in simp_all)
    moreover have "uint (?f (h0 OR push_bit 26 h1) 16) + uint (?f (drop_bit 6 h1 OR push_bit 20 h2) 20) * 2 ^ 32 +
       uint (?f (drop_bit 12 h2 OR push_bit 14 h3) 24) * 2 ^ 64 + uint (?f (drop_bit 18 h3 OR push_bit 8 h4) 28) * 2 ^ 96 =
       C + poly1305_s key"
      unfolding words_half[OF key] C_def f[THEN conjunct1] c0 c1 c2 c3 k_def
      by (simp only: distrib_right add.assoc add.left_commute add.commute)
    moreover have "(256 :: int) ^ 16 = 2 ^ 128" by simp
    ultimately show "(uint (?f (h0 OR push_bit 26 h1) 16) + uint (?f (drop_bit 6 h1 OR push_bit 20 h2) 20) * 2 ^ 32 +
       uint (?f (drop_bit 12 h2 OR push_bit 14 h3) 24) * 2 ^ 64 + uint (?f (drop_bit 18 h3 OR push_bit 8 h4) 28) * 2 ^ 96) mod 256 ^ 16 =
       (limbs_value h + poly1305_s key) mod 256 ^ 16"
      by (metis mod_add_left_eq)
  qed
  finally show ?thesis .
qed

text \<open>The specification of the tag.\<close>

definition poly1305_spec :: "byte list \<Rightarrow> byte list \<Rightarrow> byte list" where
  "poly1305_spec m key = le_bytes 16 (poly1305_acc (poly1305_r key) 0 m + poly1305_s key)"

text \<open>
  C30. The authenticator of \<^verbatim>\<open>poly1305.c\<close>, computed on 26-bit limbs with delayed carries, is the
  Poly1305 tag: no 32-bit or 64-bit operation overflows in a way that matters and the result
  is the polynomial modulo \<open>2^130 - 5\<close> plus the key's second half, for every message.
\<close>

theorem poly1305_correct:
  assumes key: "length key = 32"
  shows "poly1305_auth m key = poly1305_spec m key"
proof -
  let ?p = "2 ^ 130 - 5 :: int"
  let ?h = "poly1305_blocks (poly1305_clamp key) m (0, 0, 0, 0, 0)"
  have z: "carried (0, 0, 0, 0, 0)" "limbs_value (0, 0, 0, 0, 0) mod ?p = 0"
    by (simp_all add: limbs_value_def)
  note b = blocks_correct[OF clamp_correct(1)[OF key] z(1), of m, unfolded z(2) clamp_correct(2)[OF key]]
  note c = poly1305_carry_correct[OF b[THEN conjunct1]]
  note r = poly1305_reduce_correct[OF c(1)]
  show ?thesis
    unfolding poly1305_auth_def poly1305_out_correct[OF r(1) key] r(2) c(2) b[THEN conjunct2] poly1305_spec_def ..
qed

theorem poly1305_correct_witness:
  "poly1305_auth (map (\<lambda>c. of_nat (of_char c)) ''Cryptographic Forum Research Group'')
     [0x85, 0xd6, 0xbe, 0x78, 0x57, 0x55, 0x6d, 0x33, 0x7f, 0x44, 0x52, 0xfe, 0x42, 0xd5, 0x06, 0xa8,
      0x01, 0x03, 0x80, 0x8a, 0xfb, 0x0d, 0xb2, 0xfd, 0x4a, 0xbf, 0xf6, 0xaf, 0x41, 0x49, 0xf5, 0x1b] =
   [0xa8, 0x06, 0x1d, 0xc1, 0x30, 0x51, 0x36, 0xc6, 0xc2, 0x2b, 0x8b, 0xaf, 0x0c, 0x01, 0x27, 0xa9]"
  by (subst poly1305_correct, simp, code_simp)

end
