(* ===== verification/Proc.thy ===== *)
theory Proc
  imports Prelude
begin

text \<open>
  Operations that may end the process. \<^verbatim>\<open>fatal\<close>, \<^verbatim>\<open>logdie\<close> and \<^verbatim>\<open>ssh_packet_disconnect\<close> do not
  return; such an operation yields \<^const>\<open>None\<close> on the inputs where it calls them, and otherwise
  what an operation of \<open>Prelude\<close> yields. An operation on a part of a state is lifted to the
  whole by the part's selector and update.
\<close>

type_synonym ('s, 'a) proc = "'s \<Rightarrow> ((ssherr + 'a) \<times> 's) option"

definition fatal :: "('s, 'a) proc" where
  "fatal s = None"

definition of_op :: "('s, 'a) op \<Rightarrow> ('s, 'a) proc" where
  "of_op m s = Some (m s)"

definition pret :: "'a \<Rightarrow> ('s, 'a) proc" where
  "pret x = of_op (ret x)"

definition perr :: "ssherr \<Rightarrow> ('s, 'a) proc" where
  "perr e = of_op (err e)"

definition pmodify :: "('s \<Rightarrow> 's) \<Rightarrow> ('s, unit) proc" where
  "pmodify f = of_op (modify_op f)"

definition pbind :: "('s, 'a) proc \<Rightarrow> ('a \<Rightarrow> ('s, 'b) proc) \<Rightarrow> ('s, 'b) proc" where
  "pbind m f s =
     (case m s of
        None \<Rightarrow> None
      | Some (Inl e, s') \<Rightarrow> Some (Inl e, s')
      | Some (Inr x, s') \<Rightarrow> f x s')"

definition zoom :: "('s \<Rightarrow> 'x) \<Rightarrow> (('x \<Rightarrow> 'x) \<Rightarrow> 's \<Rightarrow> 's) \<Rightarrow> ('x, 'a) op \<Rightarrow> ('s, 'a) op" where
  "zoom get upd m s = (case m (get s) of (r, x) \<Rightarrow> (r, upd (\<lambda>_. x) s))"

definition pzoom :: "('s \<Rightarrow> 'x) \<Rightarrow> (('x \<Rightarrow> 'x) \<Rightarrow> 's \<Rightarrow> 's) \<Rightarrow> ('x, 'a) proc \<Rightarrow> ('s, 'a) proc" where
  "pzoom get upd m s = map_option (\<lambda>(r, x). (r, upd (\<lambda>_. x) s)) (m (get s))"

named_theorems proc_simps \<open>evaluation of the combinators of processes\<close>

lemma proc_basic [proc_simps]:
  "fatal s = None" "of_op m s = Some (m s)" "pret x s = Some (Inr x, s)" "perr e s = Some (Inl e, s)"
  "pmodify f s = Some (Inr (), f s)"
  by (simp_all add: fatal_def of_op_def pret_def perr_def pmodify_def op_simps)

lemma pbind_pret [proc_simps]: "pbind (pret x) f s = f x s"
  by (simp add: pbind_def proc_basic)

lemma pbind_perr [proc_simps]: "pbind (perr e) f s = Some (Inl e, s)"
  by (simp add: pbind_def proc_basic)

lemma pbind_pmodify [proc_simps]: "pbind (pmodify g) f s = f () (g s)"
  by (simp add: pbind_def proc_basic)

lemma pbind_fatal [proc_simps]: "pbind fatal f s = None"
  by (simp add: pbind_def proc_basic)

lemma pbind_Inr: "m s = Some (Inr x, s') \<Longrightarrow> pbind m f s = f x s'"
  by (simp add: pbind_def)

lemma pbind_Inl: "m s = Some (Inl e, s') \<Longrightarrow> pbind m f s = Some (Inl e, s')"
  by (simp add: pbind_def)

lemma pbind_op [proc_simps]:
  "pbind (of_op m) f s = (case m s of (Inl e, s') \<Rightarrow> Some (Inl e, s') | (Inr x, s') \<Rightarrow> f x s')"
  by (simp add: pbind_def proc_basic split: prod.splits sum.splits)

lemma pbind_InrE:
  assumes "pbind m f s = Some (Inr y, t)"
  obtains x s' where "m s = Some (Inr x, s')" and "f x s' = Some (Inr y, t)"
  using assms by (auto simp: pbind_def split: option.splits prod.splits sum.splits)

text \<open>A process keeps a predicate if every result it returns satisfies it.\<close>

definition pkeeps :: "('s \<Rightarrow> bool) \<Rightarrow> ('s, 'a) proc \<Rightarrow> bool" where
  "pkeeps P m \<longleftrightarrow> (\<forall>s r s'. P s \<longrightarrow> m s = Some (r, s') \<longrightarrow> P s')"

named_theorems pkeeps_rules \<open>processes that keep an invariant\<close>

lemma pkeepsI: "(\<And>s r s'. P s \<Longrightarrow> m s = Some (r, s') \<Longrightarrow> P s') \<Longrightarrow> pkeeps P m"
  by (auto simp: pkeeps_def)

lemma pkeepsD: "pkeeps P m \<Longrightarrow> P s \<Longrightarrow> m s = Some (r, s') \<Longrightarrow> P s'"
  by (auto simp: pkeeps_def)

lemma pkeeps_basic [pkeeps_rules]: "pkeeps P fatal" "pkeeps P (pret x)" "pkeeps P (perr e)"
  by (auto simp: pkeeps_def proc_basic)

lemma pkeeps_of_op [pkeeps_rules]: "keeps P m \<Longrightarrow> pkeeps P (of_op m)"
  by (auto simp: pkeeps_def keeps_def proc_basic)

lemma pkeeps_modify: "(\<And>s. P s \<Longrightarrow> P (f s)) \<Longrightarrow> pkeeps P (pmodify f)"
  by (auto simp: pkeeps_def proc_basic)

lemma pkeeps_bind [pkeeps_rules]:
  assumes "pkeeps P m" and "\<And>x. pkeeps P (f x)"
  shows "pkeeps P (pbind m f)"
proof (rule pkeepsI)
  fix s r s' assume P: "P s" and run: "pbind m f s = Some (r, s')"
  obtain a t where m: "m s = Some (a, t)"
    using run by (auto simp: pbind_def split: option.splits)
  have "P t" by (rule pkeepsD[OF assms(1) P m])
  then show "P s'"
    using run m pkeepsD[OF assms(2)] by (cases a) (auto simp: pbind_def)
qed

lemma pkeeps_if [pkeeps_rules]:
  "\<lbrakk>c \<Longrightarrow> pkeeps P m; \<not> c \<Longrightarrow> pkeeps P n\<rbrakk> \<Longrightarrow> pkeeps P (if c then m else n)"
  by simp

end
