(* ===== verification/Codec.thy ===== *)
theory Codec
  imports BufferProps
begin

text \<open>
  Composition of the buffer's writers and readers: what a sequence of \<^verbatim>\<open>sshbuf_put_*\<close> calls
  appends, and what a sequence of \<^verbatim>\<open>sshbuf_get_*\<close> calls returns on the bytes written. The
  encoders and decoders of the key exchange and of the packet layer are such sequences.
\<close>

text \<open>With an allocator that does not fail, \<open>m\<close> appends \<open>bs\<close> to a writable buffer with room.\<close>

definition writes :: "(sshbuf, unit) op \<Rightarrow> byte list \<Rightarrow> bool" where
  "writes m bs \<longleftrightarrow>
     (\<forall>b. wf_sshbuf b \<longrightarrow> writable b \<longrightarrow> length (contents b) + length bs \<le> b_max_size b \<longrightarrow>
        (\<exists>b'. m b = (Inr (), b') \<and> wf_sshbuf b' \<and> writable b' \<and> b_max_size b' = b_max_size b \<and>
              contents b' = contents b @ bs))"

text \<open>On a buffer that starts with \<open>bs\<close>, \<open>m\<close> returns \<open>x\<close> and consumes exactly \<open>bs\<close>.\<close>

definition reads :: "(sshbuf, 'a) op \<Rightarrow> byte list \<Rightarrow> 'a \<Rightarrow> bool" where
  "reads m bs x \<longleftrightarrow>
     (\<forall>b rest. wf_sshbuf b \<longrightarrow> contents b = bs @ rest \<longrightarrow>
        (\<exists>b'. m b = (Inr x, b') \<and> wf_sshbuf b' \<and> contents b' = rest))"

lemma writesE:
  assumes "writes m bs" and "wf_sshbuf b" and "writable b"
    and "length (contents b) + length bs \<le> b_max_size b"
  obtains b' where "m b = (Inr (), b')" and "wf_sshbuf b'" and "writable b'"
    and "b_max_size b' = b_max_size b" and "contents b' = contents b @ bs"
  using assms unfolding writes_def by blast

lemma readsE:
  assumes "reads m bs x" and "wf_sshbuf b" and "contents b = bs @ rest"
  obtains b' where "m b = (Inr x, b')" and "wf_sshbuf b'" and "contents b' = rest"
  using assms unfolding reads_def by blast

lemma writes_ret: "writes (ret ()) []"
  by (simp add: writes_def op_simps)

lemma writes_bind:
  assumes "writes m bs" and "writes n cs"
  shows "writes (bind_op m (\<lambda>_. n)) (bs @ cs)"
  unfolding writes_def
proof (intro allI impI)
  fix b assume b: "wf_sshbuf b" "writable b" "length (contents b) + length (bs @ cs) \<le> b_max_size b"
  then have fit: "length (contents b) + length bs \<le> b_max_size b" by simp
  obtain b1 where b1: "m b = (Inr (), b1)" "wf_sshbuf b1" "writable b1" "b_max_size b1 = b_max_size b"
      "contents b1 = contents b @ bs"
    by (rule writesE[OF assms(1) b(1,2) fit])
  have fit1: "length (contents b1) + length cs \<le> b_max_size b1" using b(3) unfolding b1 by simp
  obtain b2 where b2: "n b1 = (Inr (), b2)" "wf_sshbuf b2" "writable b2" "b_max_size b2 = b_max_size b1"
      "contents b2 = contents b1 @ cs"
    by (rule writesE[OF assms(2) b1(2,3) fit1])
  then show "\<exists>b'. bind_op m (\<lambda>_. n) b = (Inr (), b') \<and> wf_sshbuf b' \<and> writable b' \<and>
      b_max_size b' = b_max_size b \<and> contents b' = contents b @ bs @ cs"
    using b1 by (auto simp: bind_op_def)
qed

lemma writes_seq_op:
  "(\<And>x. x \<in> set xs \<Longrightarrow> writes (f x) (g x)) \<Longrightarrow> writes (seq_op f xs) (concat (map g xs))"
  by (induction xs) (simp_all add: writes_ret writes_bind)

lemma reads_ret: "reads (ret x) [] x"
  by (simp add: reads_def op_simps)

lemma reads_bind:
  assumes "reads m bs x" and "reads (f x) cs y"
  shows "reads (bind_op m f) (bs @ cs) y"
  unfolding reads_def
proof (intro allI impI)
  fix b rest assume b: "wf_sshbuf b" "contents b = (bs @ cs) @ rest"
  obtain b1 where b1: "m b = (Inr x, b1)" "wf_sshbuf b1" "contents b1 = cs @ rest"
    using readsE[OF assms(1) b(1)] b(2) by (metis append_assoc)
  obtain b2 where "f x b1 = (Inr y, b2)" "wf_sshbuf b2" "contents b2 = rest"
    by (rule readsE[OF assms(2) b1(2,3)])
  then show "\<exists>b'. bind_op m f b = (Inr y, b') \<and> wf_sshbuf b' \<and> contents b' = rest"
    using b1 by (auto simp: bind_op_def)
qed

lemma reads_bind_ret:
  assumes "reads m bs x" and "f x = ret y"
  shows "reads (bind_op m f) bs y"
  using reads_bind[OF assms(1), of f "[]" y] assms(2) by (simp add: reads_ret)

lemma reads_map_op:
  "(\<And>i. i < length xs \<Longrightarrow> reads (f (xs ! i)) (g (ys ! i)) (ys ! i)) \<Longrightarrow> length ys = length xs \<Longrightarrow>
   reads (map_op f xs) (concat (map g ys)) ys"
proof (induction xs arbitrary: ys)
  case Nil
  then show ?case by (simp add: reads_ret)
next
  case (Cons x xs)
  obtain z zs where ys: "ys = z # zs" using Cons.prems(2) by (cases ys) auto
  have hd: "reads (f x) (g z) z" using Cons.prems(1)[of 0] by (simp add: ys)
  have "reads (map_op f xs) (concat (map g zs)) zs"
  proof (rule Cons.IH)
    show "reads (f (xs ! i)) (g (zs ! i)) (zs ! i)" if "i < length xs" for i
      using Cons.prems(1)[of "Suc i"] that by (simp add: ys)
    show "length zs = length xs" using Cons.prems(2) by (simp add: ys)
  qed
  then have tl: "reads (bind_op (map_op f xs) (\<lambda>ys. ret (z # ys))) (concat (map g zs)) (z # zs)"
    by (rule reads_bind_ret) simp
  have "reads (map_op f (x # xs)) (g z @ concat (map g zs)) (z # zs)"
    unfolding map_op.simps by (rule reads_bind[OF hd]) (rule tl)
  then show ?case by (simp add: ys)
qed

section \<open>The primitive writers and readers\<close>

lemma buffer_bytes: "wf_sshbuf b \<Longrightarrow> mem_read 0 (sshbuf_len b) b = contents b"
  using mem_read_contents[of b 0 "sshbuf_len b"] sshbuf_len_contents[of b]
  by (simp del: length_contents)

lemma writes_put:
  assumes mem: "\<And>n. malloc lc n \<noteq> None"
  shows "writes (sshbuf_put lc v) v"
  unfolding writes_def using put_fits[OF _ mem] by (simp add: add.commute)

lemma writes_ints:
  assumes mem: "\<And>n. malloc lc n \<noteq> None"
  shows "writes (sshbuf_put_u8 lc x8) [x8]" and "writes (sshbuf_put_u32 lc x32) (POKE_U32 x32)"
    and "writes (sshbuf_put_u64 lc x64) (POKE_U64 x64)"
  by (simp_all add: put_ints_eq writes_put[OF mem])

lemma writes_string:
  assumes mem: "\<And>n. malloc lc n \<noteq> None"
  shows "writes (sshbuf_put_string lc v) (enc_string v)"
  unfolding writes_def
proof (intro allI impI)
  fix b assume b: "wf_sshbuf b" "writable b" "length (contents b) + length (enc_string v) \<le> b_max_size b"
  then have "length v \<le> SSHBUF_SIZE_MAX - 4" using wf_sshbufD(6)[OF b(1)] by simp
  then show "\<exists>b'. sshbuf_put_string lc v b = (Inr (), b') \<and> wf_sshbuf b' \<and> writable b' \<and>
      b_max_size b' = b_max_size b \<and> contents b' = contents b @ enc_string v"
    using put_string_eq[OF b(1)] writesE[OF writes_put[OF mem] b] by metis
qed

lemma writes_cstring:
  assumes mem: "\<And>n. malloc lc n \<noteq> None" and nul: "0 \<notin> set v"
  shows "writes (sshbuf_put_cstring lc (Some v)) (enc_string v)"
proof -
  have "takeWhile (\<lambda>x. x \<noteq> 0) v = v" using nul by (auto simp: takeWhile_eq_all_conv)
  then show ?thesis
    unfolding sshbuf_put_cstring_def option.case by (simp only: writes_string[OF mem])
qed

lemma writes_stringb:
  assumes mem: "\<And>n. malloc lc n \<noteq> None" and wf: "wf_sshbuf w"
  shows "writes (sshbuf_put_stringb lc (Some w)) (enc_string (contents w))"
  using wf by (simp add: sshbuf_put_stringb_def writes_string[OF mem] mem_read_contents
      sshbuf_len_contents del: length_contents)

lemma reads_get: "reads (sshbuf_get (length v)) v v"
  unfolding reads_def
proof (intro allI impI)
  fix b rest assume "wf_sshbuf b" "contents b = v @ rest"
  then show "\<exists>b'. sshbuf_get (length v) b = (Inr v, b') \<and> wf_sshbuf b' \<and> contents b' = rest"
    using get_spec(1)[of b "length v"] by (simp del: length_contents)
qed

lemma reads_consume: "reads (sshbuf_consume (length v)) v ()"
  unfolding reads_def
proof (intro allI impI)
  fix b rest assume "wf_sshbuf b" "contents b = v @ rest"
  then show "\<exists>b'. sshbuf_consume (length v) b = (Inr (), b') \<and> wf_sshbuf b' \<and> contents b' = rest"
    using consume_spec(1)[of b "length v"] by (auto simp del: length_contents)
qed

lemma reads_string:
  assumes mem: "\<And>n. malloc lc n \<noteq> None" and len: "length v \<le> SSHBUF_SIZE_MAX - 4"
  shows "reads sshbuf_get_string_direct (enc_string v) v"
    and "reads (sshbuf_get_string lc) (enc_string v) v"
proof -
  show direct: "reads sshbuf_get_string_direct (enc_string v) v"
    unfolding reads_def using get_string_direct_spec wire_string_enc[OF len] by fastforce
  show "reads (sshbuf_get_string lc) (enc_string v) v"
    unfolding sshbuf_get_string_def using direct by (rule reads_bind_ret) (simp add: mem)
qed

lemma reads_ints:
  "reads sshbuf_get_u8 [x8] x8" "reads sshbuf_get_u32 (POKE_U32 x32) x32"
  "reads sshbuf_get_u64 (POKE_U64 x64) x64"
proof -
  show "reads sshbuf_get_u8 [x8] x8"
    unfolding reads_def using get_spec(1)[of _ 1] by (fastforce simp: get_ints_eq bind_op_def op_simps)
  show "reads sshbuf_get_u32 (POKE_U32 x32) x32"
    unfolding reads_def using get_u32_contents by blast
  show "reads sshbuf_get_u64 (POKE_U64 x64) x64"
    unfolding reads_def using get_u64_contents by blast
qed

lemma memchr_None: "memchr c v = None \<longleftrightarrow> c \<notin> set v"
  by (induction v) auto

lemma reads_cstring:
  assumes mem: "\<And>n. malloc lc n \<noteq> None" and len: "length v \<le> SSHBUF_SIZE_MAX - 4" and nul: "0 \<notin> set v"
  shows "reads (sshbuf_get_cstring lc) (enc_string v) v"
  unfolding reads_def
proof (intro allI impI)
  fix b rest assume b: "wf_sshbuf b" "contents b = enc_string v @ rest"
  have w: "wire_string (contents b) = Inr (v, rest)" using b wire_string_enc[OF len] by simp
  then obtain b' where "sshbuf_get_string_direct b = (Inr v, b')" "wf_sshbuf b'" "contents b' = rest"
    using get_string_direct_spec[OF b(1)] by auto
  moreover have "memchr 0 v = None" using nul by (simp add: memchr_None)
  ultimately show "\<exists>b'. sshbuf_get_cstring lc b = (Inr v, b') \<and> wf_sshbuf b' \<and> contents b' = rest"
    using peek_string_spec[OF b(1)] w mem by (simp add: sshbuf_get_cstring_def)
qed

end
