(* ===== verification/Digest.thy ===== *)
theory Digest
  imports Match
begin

unbundle bit_operations_syntax

text \<open>
  Message digests and HMAC: the wrappers of \<^verbatim>\<open>digest-openssl.c\<close> around the digests of
  libcrypto, and the construction of \<^verbatim>\<open>hmac.c\<close> on top of them. libcrypto is a parameter, the
  record \<open>evp_md\<close> of the functions the code calls, whose contexts are opaque; its documented
  behaviour is the hypothesis \<open>evp_md_spec\<close>. Under it the HMAC code computes the function
  of RFC 2104, for every message computed with one context.
\<close>

section \<open>Digests of libcrypto\<close>

text \<open>A context of libcrypto, seen only by libcrypto.\<close>

type_synonym opaque = "byte list"

text \<open>
  The functions on digest contexts; \<^const>\<open>None\<close> is a failure. A digest type, the result of
  \<^verbatim>\<open>EVP_sha256()\<close> and the like, is named by the name the table gives it.
\<close>

record evp_md =
  EVP_MD_CTX_new :: "opaque option"
  EVP_DigestInit_ex :: "opaque \<Rightarrow> string \<Rightarrow> opaque option"
  EVP_MD_CTX_copy_ex :: "opaque \<Rightarrow> opaque \<Rightarrow> opaque option"
  EVP_DigestUpdate :: "opaque \<Rightarrow> byte list \<Rightarrow> opaque option"
  EVP_DigestFinal_ex :: "opaque \<Rightarrow> (byte list \<times> opaque) option"
  EVP_MD_CTX_block_size :: "opaque \<Rightarrow> nat"
  EVP_Digest :: "byte list \<Rightarrow> string \<Rightarrow> byte list option"

definition SSH_DIGEST_MAX_LENGTH :: nat where "SSH_DIGEST_MAX_LENGTH = 64"

definition SSH_DIGEST_MD5 :: int where "SSH_DIGEST_MD5 = 0"
definition SSH_DIGEST_SHA1 :: int where "SSH_DIGEST_SHA1 = 1"
definition SSH_DIGEST_SHA256 :: int where "SSH_DIGEST_SHA256 = 2"
definition SSH_DIGEST_SHA384 :: int where "SSH_DIGEST_SHA384 = 3"
definition SSH_DIGEST_SHA512 :: int where "SSH_DIGEST_SHA512 = 4"
definition SSH_DIGEST_MAX :: int where "SSH_DIGEST_MAX = 5"

lemmas digest_ids =
  SSH_DIGEST_MD5_def SSH_DIGEST_SHA1_def SSH_DIGEST_SHA256_def SSH_DIGEST_SHA384_def
  SSH_DIGEST_SHA512_def SSH_DIGEST_MAX_def

record ssh_digest =
  sd_id :: int
  sd_name :: string
  digest_len :: nat

definition digests :: "ssh_digest list" where
  "digests =
    [\<lparr>sd_id = SSH_DIGEST_MD5, sd_name = ''MD5'', digest_len = 16\<rparr>,
     \<lparr>sd_id = SSH_DIGEST_SHA1, sd_name = ''SHA1'', digest_len = 20\<rparr>,
     \<lparr>sd_id = SSH_DIGEST_SHA256, sd_name = ''SHA256'', digest_len = 32\<rparr>,
     \<lparr>sd_id = SSH_DIGEST_SHA384, sd_name = ''SHA384'', digest_len = 48\<rparr>,
     \<lparr>sd_id = SSH_DIGEST_SHA512, sd_name = ''SHA512'', digest_len = 64\<rparr>]"

text \<open>
  Every entry of the table has its function in a build with OpenSSL, so the last test of the code, for
  an entry without one, never applies.
\<close>

definition ssh_digest_by_alg :: "int \<Rightarrow> ssh_digest option" where
  "ssh_digest_by_alg alg =
     (if alg < 0 \<or> alg \<ge> SSH_DIGEST_MAX then None
      else if sd_id (digests ! nat alg) \<noteq> alg then None
      else Some (digests ! nat alg))"

definition strcasecmp_eq :: "string \<Rightarrow> string \<Rightarrow> bool" where
  "strcasecmp_eq a b \<longleftrightarrow> map tolower a = map tolower b"

definition ssh_digest_alg_by_name :: "string \<Rightarrow> int" where
  "ssh_digest_alg_by_name name =
     (case find (\<lambda>d. strcasecmp_eq name (sd_name d)) digests of
        None \<Rightarrow> - 1 | Some d \<Rightarrow> sd_id d)"

definition ssh_digest_alg_name :: "int \<Rightarrow> string option" where
  "ssh_digest_alg_name alg = map_option sd_name (ssh_digest_by_alg alg)"

definition ssh_digest_bytes :: "int \<Rightarrow> nat" where
  "ssh_digest_bytes alg = (case ssh_digest_by_alg alg of None \<Rightarrow> 0 | Some d \<Rightarrow> digest_len d)"

record ssh_digest_ctx =
  dc_alg :: int
  mdctx :: opaque

definition sizeof_ssh_digest_ctx :: nat where "sizeof_ssh_digest_ctx = 16"

definition UINT_MAX :: nat where "UINT_MAX = 2 ^ 32 - 1"

definition ssh_digest_blocksize :: "evp_md \<Rightarrow> ssh_digest_ctx \<Rightarrow> nat" where
  "ssh_digest_blocksize e ctx = EVP_MD_CTX_block_size e (mdctx ctx)"

definition ssh_digest_start :: "libc \<Rightarrow> evp_md \<Rightarrow> int \<Rightarrow> ssh_digest_ctx option" where
  "ssh_digest_start lc e alg =
     (case ssh_digest_by_alg alg of
        None \<Rightarrow> None
      | Some d \<Rightarrow>
          if malloc lc sizeof_ssh_digest_ctx = None then None
          else (case EVP_MD_CTX_new e of
             None \<Rightarrow> None
           | Some c \<Rightarrow> (case EVP_DigestInit_ex e c (sd_name d) of
                None \<Rightarrow> None
              | Some c' \<Rightarrow> Some \<lparr>dc_alg = alg, mdctx = c'\<rparr>)))"

text \<open>\<^verbatim>\<open>ssh_digest_copy_state\<close> as an operation on the context \<^verbatim>\<open>to\<close>.\<close>

definition ssh_digest_copy_state :: "evp_md \<Rightarrow> ssh_digest_ctx \<Rightarrow> (ssh_digest_ctx, unit) op" where
  "ssh_digest_copy_state e from to =
     (if dc_alg from \<noteq> dc_alg to then err SSH_ERR_INVALID_ARGUMENT to
      else (case EVP_MD_CTX_copy_ex e (mdctx to) (mdctx from) of
         None \<Rightarrow> err SSH_ERR_LIBCRYPTO_ERROR to
       | Some c \<Rightarrow> ret () (to\<lparr>mdctx := c\<rparr>)))"

definition ssh_digest_update :: "evp_md \<Rightarrow> byte list \<Rightarrow> (ssh_digest_ctx, unit) op" where
  "ssh_digest_update e m ctx =
     (case EVP_DigestUpdate e (mdctx ctx) m of
        None \<Rightarrow> err SSH_ERR_LIBCRYPTO_ERROR ctx
      | Some c \<Rightarrow> ret () (ctx\<lparr>mdctx := c\<rparr>))"

text \<open>The result of \<^verbatim>\<open>ssh_digest_final\<close> is what it writes at \<^verbatim>\<open>d\<close>.\<close>

definition ssh_digest_final :: "evp_md \<Rightarrow> nat \<Rightarrow> (ssh_digest_ctx, byte list) op" where
  "ssh_digest_final e dlen ctx =
     (case ssh_digest_by_alg (dc_alg ctx) of
        None \<Rightarrow> err SSH_ERR_INVALID_ARGUMENT ctx
      | Some d \<Rightarrow>
          if dlen > UINT_MAX then err SSH_ERR_INVALID_ARGUMENT ctx
          else if dlen < digest_len d then err SSH_ERR_INVALID_ARGUMENT ctx
          else (case EVP_DigestFinal_ex e (mdctx ctx) of
             None \<Rightarrow> err SSH_ERR_LIBCRYPTO_ERROR ctx
           | Some (out, c) \<Rightarrow>
               if length out \<noteq> digest_len d then err SSH_ERR_INTERNAL_ERROR (ctx\<lparr>mdctx := c\<rparr>)
               else ret out (ctx\<lparr>mdctx := c\<rparr>)))"

definition ssh_digest_memory :: "evp_md \<Rightarrow> int \<Rightarrow> byte list \<Rightarrow> nat \<Rightarrow> ssherr + byte list" where
  "ssh_digest_memory e alg m dlen =
     (case ssh_digest_by_alg alg of
        None \<Rightarrow> Inl SSH_ERR_INVALID_ARGUMENT
      | Some d \<Rightarrow>
          if dlen > UINT_MAX then Inl SSH_ERR_INVALID_ARGUMENT
          else if dlen < digest_len d then Inl SSH_ERR_INVALID_ARGUMENT
          else (case EVP_Digest e m (sd_name d) of
             None \<Rightarrow> Inl SSH_ERR_LIBCRYPTO_ERROR
           | Some out \<Rightarrow> Inr out))"

text \<open>Looking an entry of a table up by its name.\<close>

lemma find_distinct:
  "distinct (map f xs) \<Longrightarrow> x \<in> set xs \<Longrightarrow> find (\<lambda>y. f y = f x) xs = Some x"
  by (induction xs) force+

section \<open>HMAC\<close>

record ssh_hmac_ctx =
  hc_alg :: int
  ictx :: ssh_digest_ctx
  octx :: ssh_digest_ctx
  digest :: ssh_digest_ctx
  hc_buf :: "byte list"

definition sizeof_ssh_hmac_ctx :: nat where "sizeof_ssh_hmac_ctx = 48"

text \<open>Operations on the three digest contexts; \<^verbatim>\<open>hmac.c\<close> turns every failure into -1.\<close>

definition neg1 :: "(ssherr + 'a) \<times> 's \<Rightarrow> (ssherr + 'a) \<times> 's" where
  "neg1 r = (case r of (Inl _, s) \<Rightarrow> (Inl SSH_ERR_INTERNAL_ERROR, s) | (Inr x, s) \<Rightarrow> (Inr x, s))"

definition on_ictx :: "(ssh_digest_ctx, 'a) op \<Rightarrow> (ssh_hmac_ctx, 'a) op" where
  "on_ictx m ctx = (case neg1 (m (ictx ctx)) of (r, c) \<Rightarrow> (r, ctx\<lparr>ictx := c\<rparr>))"

definition on_octx :: "(ssh_digest_ctx, 'a) op \<Rightarrow> (ssh_hmac_ctx, 'a) op" where
  "on_octx m ctx = (case neg1 (m (octx ctx)) of (r, c) \<Rightarrow> (r, ctx\<lparr>octx := c\<rparr>))"

definition on_digest :: "(ssh_digest_ctx, 'a) op \<Rightarrow> (ssh_hmac_ctx, 'a) op" where
  "on_digest m ctx = (case neg1 (m (digest ctx)) of (r, c) \<Rightarrow> (r, ctx\<lparr>digest := c\<rparr>))"

definition ssh_hmac_bytes :: "int \<Rightarrow> nat" where
  "ssh_hmac_bytes alg = ssh_digest_bytes alg"

definition ssh_hmac_start :: "libc \<Rightarrow> evp_md \<Rightarrow> int \<Rightarrow> ssh_hmac_ctx option" where
  "ssh_hmac_start lc e alg =
     (if malloc lc sizeof_ssh_hmac_ctx = None then None
      else case (ssh_digest_start lc e alg, ssh_digest_start lc e alg, ssh_digest_start lc e alg) of
        (Some i, Some ou, Some d) \<Rightarrow>
          if malloc lc (ssh_digest_blocksize e i) = None then None
          else Some \<lparr>hc_alg = alg, ictx = i, octx = ou, digest = d,
                     hc_buf = replicate (ssh_digest_blocksize e i) 0\<rparr>
      | _ \<Rightarrow> None)"

text \<open>Writing bytes at the start of a block of memory.\<close>

definition overwrite :: "byte list \<Rightarrow> byte list \<Rightarrow> byte list" where
  "overwrite bs mem = bs @ drop (length bs) mem"

definition hmac_load_key :: "evp_md \<Rightarrow> byte list \<Rightarrow> (ssh_hmac_ctx, unit) op" where
  "hmac_load_key e key ctx =
     (let buf_len = length (hc_buf ctx)
      in if length key \<le> buf_len then ret () (ctx\<lparr>hc_buf := overwrite key (hc_buf ctx)\<rparr>)
         else (case ssh_digest_memory e (hc_alg ctx) key buf_len of
            Inl _ \<Rightarrow> err SSH_ERR_INTERNAL_ERROR ctx
          | Inr out \<Rightarrow> ret () (ctx\<lparr>hc_buf := overwrite out (hc_buf ctx)\<rparr>)))"

definition hmac_xor_buf :: "byte \<Rightarrow> (ssh_hmac_ctx, unit) op" where
  "hmac_xor_buf x = modify_op (\<lambda>ctx. ctx\<lparr>hc_buf := map (\<lambda>b. b XOR x) (hc_buf ctx)\<rparr>)"

definition ssh_hmac_init :: "evp_md \<Rightarrow> byte list option \<Rightarrow> (ssh_hmac_ctx, unit) op" where
  "ssh_hmac_init e key =
     bind_op
       (case key of
          None \<Rightarrow> ret ()
        | Some k \<Rightarrow>
            bind_op (hmac_load_key e k) (\<lambda>_.
            bind_op (hmac_xor_buf 0x36) (\<lambda>_.
            bind_op (\<lambda>ctx. on_ictx (ssh_digest_update e (hc_buf ctx)) ctx) (\<lambda>_.
            bind_op (hmac_xor_buf (0x36 XOR 0x5c)) (\<lambda>_.
            bind_op (\<lambda>ctx. on_octx (ssh_digest_update e (hc_buf ctx)) ctx) (\<lambda>_.
            modify_op (\<lambda>ctx. ctx\<lparr>hc_buf := replicate (length (hc_buf ctx)) 0\<rparr>)))))))
       (\<lambda>_ ctx. on_digest (ssh_digest_copy_state e (ictx ctx)) ctx)"

definition ssh_hmac_update :: "evp_md \<Rightarrow> byte list \<Rightarrow> (ssh_hmac_ctx, unit) op" where
  "ssh_hmac_update e m = on_digest (ssh_digest_update e m)"

definition ssh_hmac_final :: "evp_md \<Rightarrow> nat \<Rightarrow> (ssh_hmac_ctx, byte list) op" where
  "ssh_hmac_final e dlen ctx =
     (let len = ssh_digest_bytes (hc_alg ctx)
      in if dlen < len then err SSH_ERR_INTERNAL_ERROR ctx
         else bind_op (on_digest (ssh_digest_final e len)) (\<lambda>out.
              bind_op (modify_op (\<lambda>ctx. ctx\<lparr>hc_buf := overwrite out (hc_buf ctx)\<rparr>)) (\<lambda>_.
              bind_op (\<lambda>ctx. on_digest (ssh_digest_copy_state e (octx ctx)) ctx) (\<lambda>_.
              bind_op (\<lambda>ctx. on_digest (ssh_digest_update e (take len (hc_buf ctx))) ctx) (\<lambda>_.
              on_digest (ssh_digest_final e dlen))))) ctx)"

section \<open>What libcrypto documents\<close>

text \<open>
  \<open>H\<close> names the digest functions, \<open>B\<close> their block sizes, and \<open>fed c\<close> is the digest of a
  context with the bytes fed to it so far. The functions are total here: the laws are stated for every
  context, although the code only uses those it has initialised.
\<close>

definition evp_md_spec ::
  "evp_md \<Rightarrow> (string \<Rightarrow> byte list \<Rightarrow> byte list) \<Rightarrow> (string \<Rightarrow> nat) \<Rightarrow>
   (opaque \<Rightarrow> string \<times> byte list) \<Rightarrow> bool" where
  "evp_md_spec e H B fed \<longleftrightarrow>
     EVP_MD_CTX_new e \<noteq> None \<and>
     (\<forall>c. \<forall>d\<in>set digests. \<exists>c'. EVP_DigestInit_ex e c (sd_name d) = Some c' \<and>
        fed c' = (sd_name d, [])) \<and>
     (\<forall>c d. \<exists>c'. EVP_MD_CTX_copy_ex e c d = Some c' \<and> fed c' = fed d) \<and>
     (\<forall>c m. \<exists>c'. EVP_DigestUpdate e c m = Some c' \<and> fed c' = (fst (fed c), snd (fed c) @ m)) \<and>
     (\<forall>c. \<exists>c'. EVP_DigestFinal_ex e c = Some (H (fst (fed c)) (snd (fed c)), c')) \<and>
     (\<forall>c. EVP_MD_CTX_block_size e c = B (fst (fed c))) \<and>
     (\<forall>d\<in>set digests. (\<forall>m. EVP_Digest e m (sd_name d) = Some (H (sd_name d) m)) \<and>
        digest_len d \<le> B (sd_name d) \<and> B (sd_name d) \<le> 128 \<and>
        (\<forall>m. length (H (sd_name d) m) = digest_len d))"

text \<open>RFC 2104, for a hash function with its block size.\<close>

definition hmac_key :: "(byte list \<Rightarrow> byte list) \<Rightarrow> nat \<Rightarrow> byte list \<Rightarrow> byte list" where
  "hmac_key h b k = (let k' = (if length k \<le> b then k else h k) in k' @ replicate (b - length k') 0)"

definition hmac :: "(byte list \<Rightarrow> byte list) \<Rightarrow> nat \<Rightarrow> byte list \<Rightarrow> byte list \<Rightarrow> byte list" where
  "hmac h b k m =
     h (map (\<lambda>x. x XOR 0x5c) (hmac_key h b k) @ h (map (\<lambda>x. x XOR 0x36) (hmac_key h b k) @ m))"


section \<open>HMAC is the function of RFC 2104\<close>

text \<open>The equations of the wrappers under the hypothesis on libcrypto.\<close>

lemma evp_md_specE:
  assumes "evp_md_spec e H B fed"
  obtains new init copy upd fin where
    "EVP_MD_CTX_new e = Some new"
    and "\<And>c d. d \<in> set digests \<Longrightarrow> EVP_DigestInit_ex e c (sd_name d) = Some (init c d)"
    and "\<And>c d. d \<in> set digests \<Longrightarrow> fed (init c d) = (sd_name d, [])"
    and "\<And>c d. EVP_MD_CTX_copy_ex e c d = Some (copy c d)" and "\<And>c d. fed (copy c d) = fed d"
    and "\<And>c m. EVP_DigestUpdate e c m = Some (upd c m)"
    and "\<And>c m. fed (upd c m) = (fst (fed c), snd (fed c) @ m)"
    and "\<And>c. EVP_DigestFinal_ex e c = Some (H (fst (fed c)) (snd (fed c)), fin c)"
proof (rule that)
  note spec = assms[unfolded evp_md_spec_def]
  show "EVP_MD_CTX_new e = Some (the (EVP_MD_CTX_new e))" using spec by simp
  have pick: "\<exists>x. f = Some x \<and> P x \<Longrightarrow> f = Some (the f)" "\<exists>x. f = Some x \<and> P x \<Longrightarrow> P (the f)"
    for f :: "opaque option" and P by auto
  show "EVP_DigestInit_ex e c (sd_name d) = Some (the (EVP_DigestInit_ex e c (sd_name d)))"
    and "fed (the (EVP_DigestInit_ex e c (sd_name d))) = (sd_name d, [])"
    if "d \<in> set digests" for c and d :: ssh_digest
    using spec that pick[of "EVP_DigestInit_ex e c (sd_name d)" "\<lambda>c'. fed c' = (sd_name d, [])"]
    by blast+
  show "EVP_MD_CTX_copy_ex e c d = Some (the (EVP_MD_CTX_copy_ex e c d))"
    and "fed (the (EVP_MD_CTX_copy_ex e c d)) = fed d" for c d
    using spec pick[of "EVP_MD_CTX_copy_ex e c d" "\<lambda>c'. fed c' = fed d"] by blast+
  show "EVP_DigestUpdate e c m = Some (the (EVP_DigestUpdate e c m))"
    and "fed (the (EVP_DigestUpdate e c m)) = (fst (fed c), snd (fed c) @ m)" for c m
    using spec pick[of "EVP_DigestUpdate e c m" "\<lambda>c'. fed c' = (fst (fed c), snd (fed c) @ m)"]
    by blast+
  show "EVP_DigestFinal_ex e c =
      Some (H (fst (fed c)) (snd (fed c)), snd (the (EVP_DigestFinal_ex e c)))" for c
    using spec by (metis option.sel snd_conv)
qed

lemma ssh_digest_by_alg_in: "ssh_digest_by_alg alg = Some d \<Longrightarrow> d \<in> set digests"
proof -
  assume "ssh_digest_by_alg alg = Some d"
  then have "nat alg < length digests" and "digests ! nat alg = d"
    by (auto simp: ssh_digest_by_alg_def digest_ids digests_def split: if_splits)
  then show "d \<in> set digests" by (metis nth_mem)
qed

lemma evp_md_spec_sizes:
  assumes "evp_md_spec e H B fed" and "ssh_digest_by_alg alg = Some d"
  shows "digest_len d \<le> B (sd_name d)" and "B (sd_name d) \<le> 128"
    and "length (H (sd_name d) m) = digest_len d" and "EVP_Digest e m (sd_name d) = Some (H (sd_name d) m)"
  using assms(1) ssh_digest_by_alg_in[OF assms(2)] by (auto simp: evp_md_spec_def)

text \<open>A context of \<^verbatim>\<open>hmac.c\<close>: just started, and loaded with a key.\<close>

definition hmac_ctx_ok :: "(string \<Rightarrow> nat) \<Rightarrow> (opaque \<Rightarrow> string \<times> byte list) \<Rightarrow> ssh_digest \<Rightarrow>
  byte list \<Rightarrow> byte list \<Rightarrow> ssh_hmac_ctx \<Rightarrow> bool" where
  "hmac_ctx_ok B fed d i ou ctx \<longleftrightarrow>
     ssh_digest_by_alg (hc_alg ctx) = Some d \<and> dc_alg (ictx ctx) = hc_alg ctx \<and>
     dc_alg (octx ctx) = hc_alg ctx \<and> dc_alg (digest ctx) = hc_alg ctx \<and>
     fed (mdctx (ictx ctx)) = (sd_name d, i) \<and> fed (mdctx (octx ctx)) = (sd_name d, ou) \<and>
     length (hc_buf ctx) = B (sd_name d)"

definition hmac_fresh :: "(string \<Rightarrow> nat) \<Rightarrow> (opaque \<Rightarrow> string \<times> byte list) \<Rightarrow> ssh_digest \<Rightarrow>
  ssh_hmac_ctx \<Rightarrow> bool" where
  "hmac_fresh B fed d ctx \<longleftrightarrow>
     hmac_ctx_ok B fed d [] [] ctx \<and> hc_buf ctx = replicate (B (sd_name d)) 0"

definition hmac_keyed :: "(string \<Rightarrow> byte list \<Rightarrow> byte list) \<Rightarrow> (string \<Rightarrow> nat) \<Rightarrow>
  (opaque \<Rightarrow> string \<times> byte list) \<Rightarrow> ssh_digest \<Rightarrow> byte list \<Rightarrow> ssh_hmac_ctx \<Rightarrow> bool" where
  "hmac_keyed H B fed d k ctx \<longleftrightarrow>
     (let kp = hmac_key (H (sd_name d)) (B (sd_name d)) k
      in hmac_ctx_ok B fed d (map (\<lambda>x. x XOR 0x36) kp) (map (\<lambda>x. x XOR 0x5c) kp) ctx)"

lemma ssh_hmac_start_fresh:
  assumes spec: "evp_md_spec e H B fed" and mem: "\<And>n. malloc lc n \<noteq> None"
    and d: "ssh_digest_by_alg alg = Some d"
  obtains ctx where "ssh_hmac_start lc e alg = Some ctx" and "hmac_fresh B fed d ctx" and "hc_alg ctx = alg"
proof -
  obtain c where c: "ssh_digest_start lc e alg = Some c" "dc_alg c = alg" "fed (mdctx c) = (sd_name d, [])"
    by (rule evp_md_specE[OF spec]) (auto simp: ssh_digest_start_def d mem ssh_digest_by_alg_in[OF d])
  moreover have "ssh_digest_blocksize e c = B (sd_name d)"
    using spec c(3) by (auto simp: ssh_digest_blocksize_def evp_md_spec_def)
  ultimately show ?thesis
    using that d mem by (auto simp: ssh_hmac_start_def hmac_fresh_def hmac_ctx_ok_def)
qed

lemma hmac_load_key_fresh:
  assumes spec: "evp_md_spec e H B fed" and fresh: "hmac_fresh B fed d ctx"
  shows "hmac_load_key e k ctx = (Inr (), ctx\<lparr>hc_buf := hmac_key (H (sd_name d)) (B (sd_name d)) k\<rparr>)"
proof -
  have d: "ssh_digest_by_alg (hc_alg ctx) = Some d" and b: "hc_buf ctx = replicate (B (sd_name d)) 0"
    using fresh by (auto simp: hmac_fresh_def hmac_ctx_ok_def)
  note sz = evp_md_spec_sizes[OF spec d]
  have "B (sd_name d) \<le> UINT_MAX" using sz(2) by (simp add: UINT_MAX_def)
  then show ?thesis
    using sz(1) d
    by (auto simp: hmac_load_key_def b hmac_key_def overwrite_def ssh_digest_memory_def Let_def
      sz(3,4) op_simps)
qed

lemma xor_twice_byte: "(x XOR 54) XOR 106 = x XOR (92 :: byte)"
  by (simp add: xor.assoc)

lemma ssh_hmac_init_key:
  assumes spec: "evp_md_spec e H B fed" and fresh: "hmac_fresh B fed d ctx"
  obtains ctx' where "ssh_hmac_init e (Some k) ctx = (Inr (), ctx')"
    and "hmac_keyed H B fed d k ctx'" and "hc_alg ctx' = hc_alg ctx"
proof -
  have len: "length (hmac_key (H (sd_name d)) (B (sd_name d)) k) = B (sd_name d)"
    using evp_md_spec_sizes[OF spec] fresh
    by (auto simp: hmac_key_def Let_def hmac_fresh_def hmac_ctx_ok_def)
  obtain new init copy upd fin where e:
    "\<And>c d. EVP_MD_CTX_copy_ex e c d = Some (copy c d)" "\<And>c d. fed (copy c d) = fed d"
    "\<And>c m. EVP_DigestUpdate e c m = Some (upd c m)"
    "\<And>c m. fed (upd c m) = (fst (fed c), snd (fed c) @ m)"
    by (rule evp_md_specE[OF spec]) blast
  show ?thesis
    using that fresh len
    by (auto simp: ssh_hmac_init_def bind_op_def hmac_load_key_fresh[OF spec fresh] hmac_xor_buf_def
      modify_op_def on_ictx_def on_octx_def on_digest_def neg1_def ssh_digest_update_def
      ssh_digest_copy_state_def e hmac_keyed_def hmac_ctx_ok_def hmac_fresh_def Let_def op_simps
      comp_def xor_twice_byte)
qed

text \<open>One message: the calls \<^verbatim>\<open>mac.c\<close> makes, on a loaded context.\<close>

lemma ssh_hmac_message:
  assumes spec: "evp_md_spec e H B fed" and keyed: "hmac_keyed H B fed d k ctx"
    and dlen: "digest_len d \<le> dlen" "dlen \<le> UINT_MAX"
  obtains ctx' where
    "bind_op (ssh_hmac_init e None) (\<lambda>_. bind_op (ssh_hmac_update e a) (\<lambda>_.
       bind_op (ssh_hmac_update e b) (\<lambda>_. ssh_hmac_final e dlen))) ctx =
     (Inr (hmac (H (sd_name d)) (B (sd_name d)) k (a @ b)), ctx')"
    and "hmac_keyed H B fed d k ctx'" and "hc_alg ctx' = hc_alg ctx"
proof -
  have d: "ssh_digest_by_alg (hc_alg ctx) = Some d"
    using keyed by (auto simp: hmac_keyed_def hmac_ctx_ok_def Let_def)
  note sz = evp_md_spec_sizes[OF spec d]
  obtain new init copy upd fin where e:
    "\<And>c d. EVP_MD_CTX_copy_ex e c d = Some (copy c d)" "\<And>c d. fed (copy c d) = fed d"
    "\<And>c m. EVP_DigestUpdate e c m = Some (upd c m)"
    "\<And>c m. fed (upd c m) = (fst (fed c), snd (fed c) @ m)"
    "\<And>c. EVP_DigestFinal_ex e c = Some (H (fst (fed c)) (snd (fed c)), fin c)"
    by (rule evp_md_specE[OF spec]) blast
  have "digest_len d \<le> UINT_MAX" using dlen by simp
  then show ?thesis
    using that keyed dlen sz d
    by (auto simp: ssh_hmac_init_def ssh_hmac_update_def ssh_hmac_final_def bind_op_def
      modify_op_def on_digest_def neg1_def ssh_digest_update_def ssh_digest_final_def
      ssh_digest_copy_state_def ssh_digest_bytes_def e hmac_keyed_def hmac_ctx_ok_def Let_def op_simps
      overwrite_def hmac_def)
qed

end
