(* ===== verification/KexNames.thy ===== *)
theory KexNames
  imports Digest
begin

text \<open>
  Names of key-exchange methods and lists of algorithm names, \<^verbatim>\<open>kex-names.c\<close>: the table of
  methods, concatenation without duplicates, and the assembly of a list from a default list
  and the \<^verbatim>\<open>+\<close>, \<^verbatim>\<open>-\<close> and \<^verbatim>\<open>^\<close> forms of the configuration file.
\<close>

section \<open>The table of key-exchange methods\<close>

datatype kex_exchange =
    KEX_DH_GRP1_SHA1 | KEX_DH_GRP14_SHA1 | KEX_DH_GRP14_SHA256 | KEX_DH_GRP16_SHA512
  | KEX_DH_GRP18_SHA512 | KEX_DH_GEX_SHA1 | KEX_DH_GEX_SHA256 | KEX_ECDH_SHA2
  | KEX_C25519_SHA256 | KEX_KEM_SNTRUP761X25519_SHA512 | KEX_KEM_MLKEM768X25519_SHA256
  | KEX_KEM_MLKEM768ECDH_SHA256

text \<open>Curve identifiers of OpenSSL; \<open>NID_0\<close> is the table's 0.\<close>

datatype nid = NID_0 | NID_X9_62_prime256v1 | NID_secp384r1 | NID_secp521r1

record kexalg =
  k_name :: string
  k_type :: kex_exchange
  k_ec_nid :: nid
  k_hash_alg :: int
  k_pq_alg :: bool

definition kexalgs :: "kexalg list" where
  "kexalgs =
    [\<lparr>k_name = ''diffie-hellman-group1-sha1'', k_type = KEX_DH_GRP1_SHA1, k_ec_nid = NID_0,
       k_hash_alg = SSH_DIGEST_SHA1, k_pq_alg = False\<rparr>,
     \<lparr>k_name = ''diffie-hellman-group14-sha1'', k_type = KEX_DH_GRP14_SHA1, k_ec_nid = NID_0,
       k_hash_alg = SSH_DIGEST_SHA1, k_pq_alg = False\<rparr>,
     \<lparr>k_name = ''diffie-hellman-group14-sha256'', k_type = KEX_DH_GRP14_SHA256, k_ec_nid = NID_0,
       k_hash_alg = SSH_DIGEST_SHA256, k_pq_alg = False\<rparr>,
     \<lparr>k_name = ''diffie-hellman-group16-sha512'', k_type = KEX_DH_GRP16_SHA512, k_ec_nid = NID_0,
       k_hash_alg = SSH_DIGEST_SHA512, k_pq_alg = False\<rparr>,
     \<lparr>k_name = ''diffie-hellman-group18-sha512'', k_type = KEX_DH_GRP18_SHA512, k_ec_nid = NID_0,
       k_hash_alg = SSH_DIGEST_SHA512, k_pq_alg = False\<rparr>,
     \<lparr>k_name = ''diffie-hellman-group-exchange-sha1'', k_type = KEX_DH_GEX_SHA1, k_ec_nid = NID_0,
       k_hash_alg = SSH_DIGEST_SHA1, k_pq_alg = False\<rparr>,
     \<lparr>k_name = ''diffie-hellman-group-exchange-sha256'', k_type = KEX_DH_GEX_SHA256, k_ec_nid = NID_0,
       k_hash_alg = SSH_DIGEST_SHA256, k_pq_alg = False\<rparr>,
     \<lparr>k_name = ''ecdh-sha2-nistp256'', k_type = KEX_ECDH_SHA2, k_ec_nid = NID_X9_62_prime256v1,
       k_hash_alg = SSH_DIGEST_SHA256, k_pq_alg = False\<rparr>,
     \<lparr>k_name = ''ecdh-sha2-nistp384'', k_type = KEX_ECDH_SHA2, k_ec_nid = NID_secp384r1,
       k_hash_alg = SSH_DIGEST_SHA384, k_pq_alg = False\<rparr>,
     \<lparr>k_name = ''ecdh-sha2-nistp521'', k_type = KEX_ECDH_SHA2, k_ec_nid = NID_secp521r1,
       k_hash_alg = SSH_DIGEST_SHA512, k_pq_alg = False\<rparr>,
     \<lparr>k_name = ''mlkem768nistp256-sha256'', k_type = KEX_KEM_MLKEM768ECDH_SHA256,
       k_ec_nid = NID_X9_62_prime256v1, k_hash_alg = SSH_DIGEST_SHA256, k_pq_alg = True\<rparr>,
     \<lparr>k_name = ''curve25519-sha256'', k_type = KEX_C25519_SHA256, k_ec_nid = NID_0,
       k_hash_alg = SSH_DIGEST_SHA256, k_pq_alg = False\<rparr>,
     \<lparr>k_name = ''curve25519-sha256@libssh.org'', k_type = KEX_C25519_SHA256, k_ec_nid = NID_0,
       k_hash_alg = SSH_DIGEST_SHA256, k_pq_alg = False\<rparr>,
     \<lparr>k_name = ''sntrup761x25519-sha512'', k_type = KEX_KEM_SNTRUP761X25519_SHA512, k_ec_nid = NID_0,
       k_hash_alg = SSH_DIGEST_SHA512, k_pq_alg = True\<rparr>,
     \<lparr>k_name = ''sntrup761x25519-sha512@openssh.com'', k_type = KEX_KEM_SNTRUP761X25519_SHA512,
       k_ec_nid = NID_0, k_hash_alg = SSH_DIGEST_SHA512, k_pq_alg = True\<rparr>,
     \<lparr>k_name = ''mlkem768x25519-sha256'', k_type = KEX_KEM_MLKEM768X25519_SHA256, k_ec_nid = NID_0,
       k_hash_alg = SSH_DIGEST_SHA256, k_pq_alg = True\<rparr>]"

definition kex_alg_list :: "char \<Rightarrow> string" where
  "kex_alg_list sep = join sep (map k_name kexalgs)"

definition kex_alg_by_name :: "string \<Rightarrow> kexalg option" where
  "kex_alg_by_name name = find (\<lambda>k. k_name k = name) kexalgs"

definition kex_name_valid :: "string \<Rightarrow> bool" where
  "kex_name_valid name \<longleftrightarrow> kex_alg_by_name name \<noteq> None"

definition kex_is_pq_from_name :: "string \<Rightarrow> bool" where
  "kex_is_pq_from_name name = (case kex_alg_by_name name of None \<Rightarrow> False | Some k \<Rightarrow> k_pq_alg k)"

text \<open>The three lookups return \<^const>\<open>None\<close> where the code returns 0 or -1 for an unknown name.\<close>

definition kex_type_from_name :: "string \<Rightarrow> kex_exchange option" where
  "kex_type_from_name name = map_option k_type (kex_alg_by_name name)"

definition kex_hash_from_name :: "string \<Rightarrow> int" where
  "kex_hash_from_name name = (case kex_alg_by_name name of None \<Rightarrow> - 1 | Some k \<Rightarrow> k_hash_alg k)"

definition kex_nid_from_name :: "string \<Rightarrow> nid option" where
  "kex_nid_from_name name = map_option k_ec_nid (kex_alg_by_name name)"

text \<open>\<^verbatim>\<open>kex_names_valid\<close>: its loop ends at the end of the list or an empty name.\<close>

function names_valid_loop :: "string option \<Rightarrow> bool" where
  "names_valid_loop cp =
     (case strsep (CHR '','') cp of
        (None, _) \<Rightarrow> True
      | (Some p, cp') \<Rightarrow>
          if p = [] then True
          else if kex_alg_by_name p = None then False
          else names_valid_loop cp')"
  by pat_completeness auto
termination
  by (relation "measure str_size") (auto dest: strsep_decreases)

declare names_valid_loop.simps [simp del]

definition strdup :: "libc \<Rightarrow> string \<Rightarrow> string option" where
  "strdup lc s = (if malloc lc (length s + 1) = None then None else Some s)"

definition kex_names_valid :: "libc \<Rightarrow> string option \<Rightarrow> bool" where
  "kex_names_valid lc names' =
     (case names' of
        None \<Rightarrow> False
      | Some s \<Rightarrow> if s = [] then False
                  else if strdup lc s = None then False
                  else names_valid_loop (Some s))"

section \<open>Assembling lists\<close>

definition kex_has_any_alg :: "string \<Rightarrow> string \<Rightarrow> bool" where
  "kex_has_any_alg proposal algs \<longleftrightarrow> fst (match_list proposal algs) \<noteq> None"

text \<open>The loop of \<^verbatim>\<open>kex_names_cat\<close>; \<^const>\<open>None\<close> when the result would not fit in \<open>len\<close> bytes.\<close>

function names_cat_loop :: "nat \<Rightarrow> string \<Rightarrow> string option \<Rightarrow> string option" where
  "names_cat_loop len acc cp =
     (case strsep (CHR '','') cp of
        (None, _) \<Rightarrow> Some acc
      | (Some p, cp') \<Rightarrow>
          if p = [] then Some acc
          else if kex_has_any_alg acc p then names_cat_loop len acc cp'
          else if length acc + 1 \<ge> len \<or> length acc + 1 + length p \<ge> len then None
          else names_cat_loop len (acc @ CHR '','' # p) cp')"
  by pat_completeness auto
termination
  by (relation "measure (\<lambda>(l, a, cp). str_size cp)") (auto dest: strsep_decreases)

declare names_cat_loop.simps [simp del]

definition kex_names_cat :: "libc \<Rightarrow> string option \<Rightarrow> string option \<Rightarrow> string option" where
  "kex_names_cat lc a b =
     (if a = None \<or> a = Some [] then Option.bind b (strdup lc)
      else if b = None \<or> b = Some [] then Option.bind a (strdup lc)
      else if length (the b) > 1024 * 1024 then None
      else
        (let len = length (the a) + length (the b) + 2
         in if strdup lc (the b) = None \<or> malloc lc len = None then None
            else names_cat_loop len (the a) b))"

text \<open>
  The loop of \<^verbatim>\<open>kex_assemble_names\<close> over the patterns. The result is an error or the list
  gathered so far (\<^verbatim>\<open>ret\<close>, which starts as \<^verbatim>\<open>NULL\<close>).
\<close>

function assemble_loop :: "libc \<Rightarrow> string \<Rightarrow> string option \<Rightarrow> string option \<Rightarrow> ssherr + string option" where
  "assemble_loop lc all' acc patterns =
     (case strsep (CHR '','') patterns of
        (None, _) \<Rightarrow> Inr acc
      | (Some cp, patterns') \<Rightarrow>
          if cp \<noteq> [] \<and> hd cp = CHR ''!'' then Inl SSH_ERR_INVALID_ARGUMENT
          else
            (case match_filter_allowlist lc all' cp of
               None \<Rightarrow> Inl SSH_ERR_ALLOC_FAIL
             | Some matching \<Rightarrow>
                 (case kex_names_cat lc acc (Some matching) of
                    None \<Rightarrow> Inl SSH_ERR_ALLOC_FAIL
                  | Some tmp \<Rightarrow> assemble_loop lc all' (Some tmp) patterns')))"
  by pat_completeness auto
termination
  by (relation "measure (\<lambda>(lc, a, r, p). str_size p)") (auto dest: strsep_decreases)

declare assemble_loop.simps [simp del]

text \<open>The second half of \<^verbatim>\<open>kex_assemble_names\<close>: \<open>list\<close> is expanded over all supported names.\<close>

definition assemble_expand :: "libc \<Rightarrow> string \<Rightarrow> string \<Rightarrow> ssherr + string" where
  "assemble_expand lc list all' =
     (if strdup lc list = None then Inl SSH_ERR_ALLOC_FAIL
      else
        (case assemble_loop lc all' None (Some list) of
           Inl e \<Rightarrow> Inl e
         | Inr None \<Rightarrow> Inl SSH_ERR_INVALID_ARGUMENT
         | Inr (Some res) \<Rightarrow> if res = [] then Inl SSH_ERR_INVALID_ARGUMENT else Inr res))"

text \<open>
  \<^verbatim>\<open>kex_assemble_names(&list, def, all)\<close>: the error code and the new value of \<open>list\<close>; on every
  error that is \<^verbatim>\<open>NULL\<close>, except for the argument check, which leaves it alone.
\<close>

definition kex_assemble_names ::
  "libc \<Rightarrow> string option \<Rightarrow> string option \<Rightarrow> string option \<Rightarrow> (ssherr + unit) \<times> string option" where
  "kex_assemble_names lc listp def' all' =
     (case (def', all') of
        (Some def, Some alln) \<Rightarrow>
          (case listp of
             None \<Rightarrow> (case strdup lc def of None \<Rightarrow> (Inl SSH_ERR_ALLOC_FAIL, None)
                                         | Some s \<Rightarrow> (Inr (), Some s))
           | Some [] \<Rightarrow> (case strdup lc def of None \<Rightarrow> (Inl SSH_ERR_ALLOC_FAIL, None)
                                           | Some s \<Rightarrow> (Inr (), Some s))
           | Some (x # xs) \<Rightarrow>
               (let finish = (\<lambda>list. case assemble_expand lc list alln of
                                       Inl e \<Rightarrow> (Inl e, None)
                                     | Inr s \<Rightarrow> (Inr (), Some s))
                in if x = CHR ''+'' then
                     (case kex_names_cat lc (Some def) (Some xs) of
                        None \<Rightarrow> (Inl SSH_ERR_ALLOC_FAIL, None)
                      | Some tmp \<Rightarrow> finish tmp)
                   else if x = CHR ''-'' then
                     (case match_filter_denylist lc def xs of
                        None \<Rightarrow> (Inl SSH_ERR_ALLOC_FAIL, None)
                      | Some s \<Rightarrow> (Inr (), Some s))
                   else if x = CHR ''^'' then
                     (case kex_names_cat lc (Some xs) (Some def) of
                        None \<Rightarrow> (Inl SSH_ERR_ALLOC_FAIL, None)
                      | Some tmp \<Rightarrow> finish tmp)
                   else finish (x # xs)))
      | _ \<Rightarrow> (Inl SSH_ERR_INVALID_ARGUMENT, listp))"

section \<open>Concatenation without duplicates\<close>

fun add_names :: "string list \<Rightarrow> string list \<Rightarrow> string list" where
  "add_names acc [] = acc"
| "add_names acc (p # ps) = (if p \<in> set acc then add_names acc ps else add_names (acc @ [p]) ps)"

lemma set_add_names [simp]: "set (add_names acc ps) = set acc \<union> set ps"
  by (induction acc ps rule: add_names.induct) auto

lemma distinct_add_names: "distinct acc \<Longrightarrow> distinct (add_names acc ps)"
  by (induction acc ps rule: add_names.induct) auto

lemma add_names_distinct: "distinct ps \<Longrightarrow> set acc \<inter> set ps = {} \<Longrightarrow> add_names acc ps = acc @ ps"
  by (induction acc ps rule: add_names.induct) auto

lemma split_append: "split_on d (a @ d # b) = split_on d a @ split_on d b"
  by (induction a) (auto split: list.splits)

lemma split_single: "d \<notin> set p \<Longrightarrow> split_on d p = [p]"
  by (induction p) auto

lemma names_no_empty: "[] \<notin> set (split_on (CHR '','') s) \<Longrightarrow> names s = split_on (CHR '','') s"
  unfolding names_def by (rule takeWhile_eq_all_conv[THEN iffD2]) auto

lemma has_any_single:
  assumes "p \<noteq> []" and "CHR '','' \<notin> set p"
  shows "kex_has_any_alg acc p \<longleftrightarrow> p \<in> set (names acc)"
proof -
  have "names p = [p]" using assms by (simp add: names_def split_single)
  then show ?thesis
    unfolding kex_has_any_alg_def match_list_find by (auto simp: find_None_iff MAX_PROP_def)
qed

lemma strsep_size:
  "strsep (CHR '','') cp = (Some p, cp') \<Longrightarrow> str_size cp = length p + 1 + str_size cp' \<and> CHR '','' \<notin> set p"
proof -
  assume step: "strsep (CHR '','') cp = (Some p, cp')"
  then obtain cs where cs: "cp = Some cs" by (auto simp: strsep_def split: option.splits)
  have p: "p = takeWhile (\<lambda>c. c \<noteq> CHR '','') cs"
    and cp': "cp' = (if CHR '','' \<in> set cs then Some (tl (dropWhile (\<lambda>c. c \<noteq> CHR '','') cs)) else None)"
    using step by (auto simp: cs strsep_def)
  have len: "length cs = length p + length (dropWhile (\<lambda>c. c \<noteq> CHR '','') cs)"
    unfolding p by (metis length_append takeWhile_dropWhile_id)
  have "dropWhile (\<lambda>c. c \<noteq> CHR '','') cs = [] \<longleftrightarrow> CHR '','' \<notin> set cs"
    by (auto simp: dropWhile_eq_Nil_conv)
  moreover have "CHR '','' \<notin> set p" unfolding p by (auto dest: set_takeWhileD)
  ultimately show ?thesis
    using len unfolding cs cp' str_size_def by (cases "dropWhile (\<lambda>c. c \<noteq> CHR '','') cs") auto
qed

lemma names_cat_loop_spec:
  "length acc + str_size cp < len \<Longrightarrow> [] \<notin> set (split_on (CHR '','') acc) \<Longrightarrow>
   \<exists>r. names_cat_loop len acc cp = Some r \<and>
       split_on (CHR '','') r = add_names (split_on (CHR '','') acc) (takeWhile (\<lambda>p. p \<noteq> []) (tokens cp))"
proof (induction len acc cp rule: names_cat_loop.induct)
  case (1 len acc cp)
  obtain t cp' where step: "strsep (CHR '','') cp = (t, cp')" by fastforce
  show ?case
  proof (cases t)
    case None
    then show ?thesis using step tokens_strsep(2)[of cp cp'] by (simp add: names_cat_loop.simps[of len acc cp])
  next
    case (Some p)
    note tok = tokens_strsep(1)[OF step[unfolded Some]]
    note size = strsep_size[OF step[unfolded Some]]
    show ?thesis
    proof (cases "p = []")
      case True
      then show ?thesis using step Some tok by (simp add: names_cat_loop.simps[of len acc cp])
    next
      case ne: False
      have has: "kex_has_any_alg acc p \<longleftrightarrow> p \<in> set (split_on (CHR '','') acc)"
        using has_any_single[OF ne] size "1.prems"(2) by (simp add: names_no_empty)
      show ?thesis
      proof (cases "kex_has_any_alg acc p")
        case True
        have "names_cat_loop len acc cp = names_cat_loop len acc cp'"
          using step Some ne True by (simp add: names_cat_loop.simps[of len acc cp])
        then show ?thesis
          using "1.IH"(1)[OF step[symmetric] Some ne True] "1.prems" size tok has True ne by simp
      next
        case False
        have fits: "\<not> (length acc + 1 \<ge> len \<or> length acc + 1 + length p \<ge> len)"
          using "1.prems"(1) size by simp
        have sp: "split_on (CHR '','') (acc @ CHR '','' # p) = split_on (CHR '','') acc @ [p]"
          using size by (simp add: split_append split_single)
        have "names_cat_loop len acc cp = names_cat_loop len (acc @ CHR '','' # p) cp'"
          using step Some ne False fits by (simp add: names_cat_loop.simps[of len acc cp])
        then show ?thesis
          using "1.IH"(2)[OF step[symmetric] Some ne False fits] "1.prems" size tok has False ne by (simp add: sp)
      qed
    qed
  qed
qed

lemma kex_names_cat_spec:
  assumes ok: "\<And>n. malloc lc n \<noteq> None" and a: "a \<noteq> []" "[] \<notin> set (split_on (CHR '','') a)"
    and b: "b \<noteq> []" "length b \<le> 1024 * 1024"
  shows "\<exists>r. kex_names_cat lc (Some a) (Some b) = Some r \<and>
             split_on (CHR '','') r = add_names (split_on (CHR '','') a) (names b)"
  using names_cat_loop_spec[of a "Some b" "length a + length b + 2"] a b ok
  by (simp add: kex_names_cat_def strdup_def str_size_def names_tokens)

section \<open>Expansion of patterns\<close>

definition expand :: "string list \<Rightarrow> string list \<Rightarrow> string list \<Rightarrow> string list" where
  "expand alln acc pats = foldl (\<lambda>acc pat. add_names acc (filter (kept pat False) alln)) acc pats"

lemma expand_Cons: "expand alln acc (p # ps) = expand alln (add_names acc (filter (kept p False) alln)) ps"
  by (simp add: expand_def)

lemma set_expand: "set (expand alln acc pats) = set acc \<union> {n \<in> set alln. \<exists>pat\<in>set pats. kept pat False n}"
  unfolding expand_def by (induction pats arbitrary: acc) auto

lemma distinct_expand: "distinct acc \<Longrightarrow> distinct (expand alln acc pats)"
  unfolding expand_def by (induction pats arbitrary: acc) (auto simp: distinct_add_names)

lemma join_nil_iff: "[] \<notin> set xs \<Longrightarrow> join d xs = [] \<longleftrightarrow> xs = []"
  by (induction d xs rule: join.induct) auto

text \<open>A list of names that a string of the assembly loop stands for.\<close>

definition holds_names :: "string option \<Rightarrow> string list \<Rightarrow> bool" where
  "holds_names s L \<longleftrightarrow> (if L = [] then s = None \<or> s = Some [] else s = Some (join (CHR '','') L))"

text \<open>A list of supported algorithms: distinct, non-empty names of moderate total length.\<close>

definition good_list :: "string \<Rightarrow> bool" where
  "good_list s \<longleftrightarrow> distinct (split_on (CHR '','') s) \<and> [] \<notin> set (split_on (CHR '','') s) \<and>
     length s \<le> 1024 * 1024"

lemma cat_matching:
  assumes ok: "\<And>n. malloc lc n \<noteq> None" and all: "good_list alln"
    and rep: "holds_names acc L" "set L \<subseteq> set (split_on (CHR '','') alln)"
  shows "\<exists>r. kex_names_cat lc acc (Some (join (CHR '','') (filter P (split_on (CHR '','') alln)))) = Some r \<and>
             holds_names (Some r) (add_names L (filter P (split_on (CHR '','') alln)))"
proof -
  define M where "M = filter P (split_on (CHR '','') alln)"
  have M: "distinct M" "[] \<notin> set M" "\<And>x. x \<in> set M \<Longrightarrow> CHR '','' \<notin> set x"
    using all by (auto simp: M_def good_list_def dest: split_no_sep)
  have L: "[] \<notin> set L" "\<And>x. x \<in> set L \<Longrightarrow> CHR '','' \<notin> set x"
    using rep(2) all by (auto simp: good_list_def dest: split_no_sep)
  have b: "length (join (CHR '','') M) \<le> 1024 * 1024"
    using length_join_filter[of "CHR '',''" P alln] all by (auto simp: M_def good_list_def)
  show ?thesis
  proof (cases "L = []")
    case True
    have "add_names [] M = M" using M(1) add_names_distinct[of M "[]"] by simp
    then show ?thesis
      using True rep(1) ok M(2) join_nil_iff[of M]
      by (auto simp: holds_names_def kex_names_cat_def strdup_def M_def[symmetric])
  next
    case LN: False
    have a: "join (CHR '','') L \<noteq> []" "split_on (CHR '','') (join (CHR '','') L) = L"
      using LN L by (auto simp: join_nil_iff split_join)
    show ?thesis
    proof (cases "M = []")
      case True
      then show ?thesis
        using LN a rep(1) ok by (auto simp: holds_names_def kex_names_cat_def strdup_def M_def[symmetric])
    next
      case False
      have nm: "join (CHR '','') M \<noteq> []" "names (join (CHR '','') M) = M"
        using False M by (auto simp: join_nil_iff split_join names_no_empty)
      obtain r where r: "kex_names_cat lc (Some (join (CHR '','') L)) (Some (join (CHR '','') M)) = Some r"
          "split_on (CHR '','') r = add_names L M"
        using kex_names_cat_spec[OF ok a(1) _ nm(1) b] a(2) L(1) nm(2) by auto
      then have "r = join (CHR '','') (add_names L M)" by (metis join_split)
      moreover have "add_names L M \<noteq> []" using LN by (metis set_add_names set_empty sup_eq_bot_iff)
      ultimately show ?thesis using r(1) rep(1) LN by (auto simp: holds_names_def M_def[symmetric])
    qed
  qed
qed

lemma allowlist_matching:
  assumes "malloc lc (length alln + 1) \<noteq> None" and "good_list alln"
  shows "match_filter_allowlist lc alln pat =
    Some (join (CHR '','') (filter (kept pat False) (split_on (CHR '','') alln)))"
  using assms filter_loop_join[of "Some alln" pat False "[]"]
  by (simp add: match_filter_allowlist_def filter_list_def tokens_def good_list_def)

lemma assemble_loop_spec:
  "(\<And>n. malloc lc n \<noteq> None) \<Longrightarrow> good_list alln \<Longrightarrow> holds_names acc L \<Longrightarrow> set L \<subseteq> set (split_on (CHR '','') alln) \<Longrightarrow>
    (if list_ex negated (tokens pats) then assemble_loop lc alln acc pats = Inl SSH_ERR_INVALID_ARGUMENT
     else \<exists>acc'. assemble_loop lc alln acc pats = Inr acc' \<and>
            holds_names acc' (expand (split_on (CHR '','') alln) L (tokens pats)))"
proof (induction lc alln acc pats arbitrary: L rule: assemble_loop.induct)
  case (1 lc alln acc pats)
  obtain t pats' where step: "strsep (CHR '','') pats = (t, pats')" by fastforce
  show ?case
  proof (cases t)
    case None
    then show ?thesis
      using step tokens_strsep(2)[of pats pats'] "1.prems"(3)
      by (simp add: assemble_loop.simps[of lc alln acc pats] expand_def)
  next
    case (Some cp)
    note tok = tokens_strsep(1)[OF step[unfolded Some]]
    let ?M = "filter (kept cp False) (split_on (CHR '','') alln)"
    show ?thesis
    proof (cases "negated cp")
      case True
      then show ?thesis
        using step Some tok by (auto simp: assemble_loop.simps[of lc alln acc pats] negated_def)
    next
      case False
      then have nn: "\<not> (cp \<noteq> [] \<and> hd cp = CHR ''!'')" by (simp add: negated_def)
      have al: "match_filter_allowlist lc alln cp = Some (join (CHR '','') ?M)"
        by (rule allowlist_matching[OF "1.prems"(1,2)])
      obtain r where r: "kex_names_cat lc acc (Some (join (CHR '','') ?M)) = Some r"
          "holds_names (Some r) (add_names L ?M)"
        using cat_matching[OF "1.prems"(1-4)] by blast
      have "assemble_loop lc alln acc pats = assemble_loop lc alln (Some r) pats'"
        using step Some nn al r(1) by (auto simp: assemble_loop.simps[of lc alln acc pats])
      moreover have "set (add_names L ?M) \<subseteq> set (split_on (CHR '','') alln)" using "1.prems"(4) by auto
      ultimately show ?thesis
        using "1.IH"[OF step[symmetric] Some nn al r(1) "1.prems"(1,2) r(2)] tok False by (simp add: expand_Cons)
    qed
  qed
qed

lemma assemble_expand_spec:
  assumes ok: "\<And>n. malloc lc n \<noteq> None" and all: "good_list alln"
  shows "assemble_expand lc list alln =
    (if list_ex negated (split_on (CHR '','') list) then Inl SSH_ERR_INVALID_ARGUMENT
     else (let R = expand (split_on (CHR '','') alln) [] (split_on (CHR '','') list)
           in if R = [] then Inl SSH_ERR_INVALID_ARGUMENT else Inr (join (CHR '','') R)))"
proof -
  have sub: "set (expand (split_on (CHR '','') alln) [] ps) \<subseteq> set (split_on (CHR '','') alln)" for ps
    by (auto simp: set_expand)
  then have ne: "join (CHR '','') (expand (split_on (CHR '','') alln) [] ps) \<noteq> []"
    if "expand (split_on (CHR '','') alln) [] ps \<noteq> []" for ps
    using that all join_nil_iff[of "expand (split_on (CHR '','') alln) [] ps"] by (auto simp: good_list_def)
  show ?thesis
    using assemble_loop_spec[OF assms, of None "[]" "Some list"] ok ne
    by (auto simp: assemble_expand_def strdup_def tokens_def holds_names_def Let_def
        split: if_splits sum.splits option.splits)
qed

section \<open>What a configuration string stands for\<close>

text \<open>Repeated patterns change nothing.\<close>

lemma add_names_append: "add_names acc (ps @ qs) = add_names (add_names acc ps) qs"
  by (induction acc ps rule: add_names.induct) auto

lemma add_names_known: "set ps \<subseteq> set acc \<Longrightarrow> add_names acc ps = acc"
  by (induction acc ps rule: add_names.induct) auto

lemma expand_concat:
  "expand alln acc pats = add_names acc (concat (map (\<lambda>pat. filter (kept pat False) alln) pats))"
  unfolding expand_def by (induction pats arbitrary: acc) (auto simp: add_names_append)

lemma expand_add_names:
  "expand alln [] (add_names acc pats) = expand alln (expand alln [] acc) pats"
proof (induction acc pats rule: add_names.induct)
  case (2 acc p ps)
  have "add_names (expand alln [] acc) (filter (kept p False) alln) = expand alln [] acc" if "p \<in> set acc"
    using that by (intro add_names_known) (auto simp: set_expand)
  moreover have "expand alln [] (acc @ [p]) = add_names (expand alln [] acc) (filter (kept p False) alln)"
    by (simp add: expand_def)
  ultimately show ?case using 2 by (simp add: expand_Cons)
qed (simp add: expand_def)

lemma expand_nub: "expand alln [] (add_names [] pats) = expand alln [] pats"
  by (simp add: expand_add_names) (simp add: expand_def)

text \<open>The items of the concatenation of any two lists, up to repetitions.\<close>

definition cat_items :: "string \<Rightarrow> string \<Rightarrow> string list" where
  "cat_items a b = (if a = [] then split_on (CHR '','') b else split_on (CHR '','') a @ names b)"

lemma names_cat_loop_items:
  "length acc + str_size cp < len \<Longrightarrow>
   \<exists>r. names_cat_loop len acc cp = Some r \<and> add_names [] (split_on (CHR '','') r) =
     add_names [] (split_on (CHR '','') acc @ takeWhile (\<lambda>p. p \<noteq> []) (tokens cp))"
proof (induction len acc cp rule: names_cat_loop.induct)
  case (1 len acc cp)
  obtain t cp' where step: "strsep (CHR '','') cp = (t, cp')" by fastforce
  show ?case
  proof (cases t)
    case None
    then show ?thesis using step tokens_strsep(2)[of cp cp'] by (simp add: names_cat_loop.simps[of len acc cp])
  next
    case (Some p)
    note tok = tokens_strsep(1)[OF step[unfolded Some]]
    note size = strsep_size[OF step[unfolded Some]]
    consider "p = []" | "p \<noteq> []" "kex_has_any_alg acc p" | "p \<noteq> []" "\<not> kex_has_any_alg acc p" by blast
    then show ?thesis
    proof cases
      case 1
      then show ?thesis using step Some tok by (simp add: names_cat_loop.simps[of len acc cp])
    next
      case 2
      have "p \<in> set (split_on (CHR '','') acc)"
        using 2 has_any_single[of p acc] size by (auto simp: names_def dest: set_takeWhileD)
      moreover have "names_cat_loop len acc cp = names_cat_loop len acc cp'"
        using step Some 2 by (simp add: names_cat_loop.simps[of len acc cp])
      ultimately show ?thesis
        using "1.IH"(1)[OF step[symmetric] Some 2] "1.prems" size tok 2(1) by (simp add: add_names_append)
    next
      case 3
      have fits: "\<not> (length acc + 1 \<ge> len \<or> length acc + 1 + length p \<ge> len)"
        using "1.prems" size by simp
      have "names_cat_loop len acc cp = names_cat_loop len (acc @ CHR '','' # p) cp'"
        using step Some 3 fits by (simp add: names_cat_loop.simps[of len acc cp])
      then show ?thesis
        using "1.IH"(2)[OF step[symmetric] Some 3 fits] "1.prems" size tok 3(1)
        by (simp add: split_append split_single)
    qed
  qed
qed

lemma kex_names_cat_items:
  assumes ok: "\<And>n. malloc lc n \<noteq> None"
  shows "if a \<noteq> [] \<and> length b > 1024 * 1024 then kex_names_cat lc (Some a) (Some b) = None
    else \<exists>r. kex_names_cat lc (Some a) (Some b) = Some r \<and>
      add_names [] (split_on (CHR '','') r) = add_names [] (cat_items a b)"
proof -
  have dup: "strdup lc x = Some x" for x using ok by (simp add: strdup_def)
  show ?thesis
  proof (cases "a = [] \<or> b = [] \<or> length b > 1024 * 1024")
    case True
    then show ?thesis by (auto simp: kex_names_cat_def dup cat_items_def names_def)
  next
    case False
    then show ?thesis
      using names_cat_loop_items[of a "Some b" "length a + length b + 2"] ok
      by (simp add: kex_names_cat_def dup str_size_def names_tokens cat_items_def)
  qed
qed

lemma assemble_expand_items:
  assumes ok: "\<And>n. malloc lc n \<noteq> None" and all: "good_list alln"
    and same: "add_names [] (split_on (CHR '','') list) = add_names [] pats"
  shows "assemble_expand lc list alln =
    (if list_ex negated pats then Inl SSH_ERR_INVALID_ARGUMENT
     else (let R = expand (split_on (CHR '','') alln) [] pats
           in if R = [] then Inl SSH_ERR_INVALID_ARGUMENT else Inr (join (CHR '','') R)))"
proof -
  have "set (split_on (CHR '','') list) = set pats"
    using same by (metis set_add_names set_empty sup_bot.left_neutral empty_set)
  then have "list_ex negated (split_on (CHR '','') list) = list_ex negated pats"
    by (simp add: list_ex_iff)
  moreover have "expand A [] (split_on (CHR '','') list) = expand A [] pats" for A
    using same by (metis expand_nub)
  ultimately show ?thesis
    using assemble_expand_spec[OF ok all, of list] by simp
qed

section \<open>Properties\<close>

text \<open>
  C15. \<^verbatim>\<open>kex_names_cat(a, b)\<close> of two lists, \<open>a\<close> without empty names and \<open>b\<close> of at most a megabyte,
  returns the names of \<open>a\<close> followed by those of \<open>b\<close> that were not there yet, each once and in
  order; the length checks of the loop never fail.
\<close>

theorem kex_names_cat_correct:
  assumes "\<And>n. malloc lc n \<noteq> None" and "a \<noteq> []" and "[] \<notin> set (split_on (CHR '','') a)"
    and "b \<noteq> []" and "length b \<le> 1024 * 1024"
  shows "\<exists>r. kex_names_cat lc (Some a) (Some b) = Some r \<and>
    split_on (CHR '','') r = add_names (split_on (CHR '','') a) (names b) \<and>
    set (split_on (CHR '','') r) = set (split_on (CHR '','') a) \<union> set (names b) \<and>
    (distinct (split_on (CHR '','') a) \<longrightarrow> distinct (split_on (CHR '','') r))"
  using kex_names_cat_spec[OF assms] by (auto simp: distinct_add_names)

theorem kex_names_cat_correct_witness:
  "\<exists>r. kex_names_cat lc_match (Some ''aes,3des'') (Some ''3des,chacha'') = Some r \<and>
       split_on (CHR '','') r = [''aes'', ''3des'', ''chacha'']"
  using kex_names_cat_correct[of lc_match "''aes,3des''" "''3des,chacha''"]
  by (auto simp: lc_match_def names_def)

text \<open>
  The patterns that a configuration string other than \<^verbatim>\<open>-list\<close> selects with, given the default
  list: the items of the default followed by those after the \<^verbatim>\<open>+\<close>, those after the \<^verbatim>\<open>^\<close> followed by the
  items of the default, or the items of the string itself.
\<close>

definition selectors :: "string \<Rightarrow> string \<Rightarrow> string list" where
  "selectors def s =
     (if hd s = CHR ''+'' then cat_items def (tl s)
      else if hd s = CHR ''^'' then cat_items (tl s) def
      else split_on (CHR '','') s)"

text \<open>
  The list that a configuration string stands for, or the error: nothing means the default, \<^verbatim>\<open>-list\<close>
  the default without the items that the pattern list matches, and every other form the supported
  names that the first pattern matches, then those the second one matches, and so on, each once.
\<close>

definition configured :: "string \<Rightarrow> string \<Rightarrow> string \<Rightarrow> ssherr + string" where
  "configured def alln s =
     (if s = [] then Inr def
      else if hd s = CHR ''-'' then
        Inr (join (CHR '','')
          (dropWhile (\<lambda>n. n = []) (filter (\<lambda>n. match_pattern_list n (tl s) False \<noteq> 1) (split_on (CHR '','') def))))
      else if hd s = CHR ''+'' \<and> def \<noteq> [] \<and> length (tl s) > 1024 * 1024 \<or>
        hd s = CHR ''^'' \<and> tl s \<noteq> [] \<and> length def > 1024 * 1024 then Inl SSH_ERR_ALLOC_FAIL
      else if \<exists>pat\<in>set (selectors def s). negated pat then Inl SSH_ERR_INVALID_ARGUMENT
      else let R = add_names [] (concat (map
             (\<lambda>pat. filter (\<lambda>n. match_pattern_list n pat False = 1) (split_on (CHR '','') alln)) (selectors def s)))
           in if R = [] then Inl SSH_ERR_INVALID_ARGUMENT else Inr (join (CHR '','') R))"

lemma configured_Inr:
  assumes good: "good_list alln" and s: "s \<noteq> []" "hd s \<noteq> CHR ''-''" and t: "configured def alln s = Inr t"
  shows "distinct (split_on (CHR '','') t)"
    and "set (split_on (CHR '','') t) =
      {n \<in> set (split_on (CHR '','') alln). \<exists>pat\<in>set (selectors def s). match_pattern_list n pat False = 1}"
proof -
  define R where "R = add_names [] (concat (map
    (\<lambda>pat. filter (\<lambda>n. match_pattern_list n pat False = 1) (split_on (CHR '','') alln)) (selectors def s)))"
  have t: "t = join (CHR '','') R" "R \<noteq> []"
    using s t by (auto simp: configured_def R_def[symmetric] Let_def split: if_splits)
  have R: "set R = {n \<in> set (split_on (CHR '','') alln). \<exists>pat\<in>set (selectors def s). match_pattern_list n pat False = 1}"
    by (auto simp: R_def)
  then have "split_on (CHR '','') t = R"
    using t by (auto intro!: split_join dest: split_no_sep)
  then show "distinct (split_on (CHR '','') t)" and "set (split_on (CHR '','') t) =
      {n \<in> set (split_on (CHR '','') alln). \<exists>pat\<in>set (selectors def s). match_pattern_list n pat False = 1}"
    using R by (simp_all add: R_def distinct_add_names)
qed

lemma kex_assemble_names_configured:
  assumes ok: "\<And>n. malloc lc n \<noteq> None" and all: "good_list alln"
  shows "kex_assemble_names lc (Some s) (Some def) (Some alln) =
    (case configured def alln s of Inl er \<Rightarrow> (Inl er, None) | Inr t \<Rightarrow> (Inr (), Some t))"
proof (cases s)
  case Nil
  then show ?thesis using ok by (simp add: kex_assemble_names_def configured_def strdup_def)
next
  case (Cons x xs)
  have kept: "kept p True = (\<lambda>n. match_pattern_list n p False \<noteq> 1)"
    "kept p False = (\<lambda>n. match_pattern_list n p False = 1)" for p by (simp_all add: kept_def fun_eq_iff)
  note fin = assemble_expand_items[OF ok all, unfolded expand_concat kept]
  consider "x = CHR ''+''" | "x = CHR ''-''" | "x = CHR ''^''" | "x \<notin> {CHR ''+'', CHR ''-'', CHR ''^''}" by blast
  then show ?thesis
  proof cases
    case 1
    with kex_names_cat_items[OF ok, of def xs] fin[of _ "cat_items def xs"] show ?thesis
      by (auto simp: Cons kex_assemble_names_def configured_def selectors_def list_ex_iff Let_def split: if_splits)
  next
    case 2
    then show ?thesis
      using ok by (simp add: Cons kex_assemble_names_def configured_def match_filter_denylist_def filter_list_def
          filter_loop_items tokens_def kept Let_def)
  next
    case 3
    with kex_names_cat_items[OF ok, of xs def] fin[of _ "cat_items xs def"] show ?thesis
      by (auto simp: Cons kex_assemble_names_def configured_def selectors_def list_ex_iff Let_def split: if_splits)
  next
    case 4
    then show ?thesis
      using fin[of s, OF refl]
      by (simp add: Cons kex_assemble_names_def configured_def selectors_def list_ex_iff Let_def)
  qed
qed



end
