(* ===== verification/Cipher.thy ===== *)
theory Cipher
  imports KexNames Compat SshbufGetput Poly1305
begin

unbundle bit_operations_syntax

text \<open>
  Packet ciphers: the table and the operations of \<^verbatim>\<open>cipher.c\<close> and the ChaCha20-Poly1305
  construction of \<^verbatim>\<open>cipher-chachapoly-libcrypto.c\<close>. The block and stream ciphers of libcrypto
  are a parameter, the record \<open>evp_cipher\<close>; Poly1305 is the code modelled in \<open>Poly1305\<close>.
\<close>

section \<open>Ciphers of libcrypto\<close>

text \<open>
  The functions on cipher contexts, \<^const>\<open>None\<close> for a failure. \<open>EVP_Cipher\<close> stands for the call
  with an output, \<open>EVP_Cipher_aad\<close> for the one whose output is \<^verbatim>\<open>NULL\<close> and \<open>EVP_Cipher_final\<close> for
  the one whose input is \<^verbatim>\<open>NULL\<close> too; the control requests for GCM have a field each.
\<close>

record evp_cipher =
  EVP_CIPHER_CTX_new :: "opaque option"
  EVP_CipherInit :: "opaque \<Rightarrow> string option \<Rightarrow> byte list option \<Rightarrow> byte list option \<Rightarrow> int \<Rightarrow> opaque option"
  EVP_Cipher :: "opaque \<Rightarrow> byte list \<Rightarrow> (byte list \<times> opaque) option"
  EVP_Cipher_aad :: "opaque \<Rightarrow> byte list \<Rightarrow> opaque option"
  EVP_Cipher_final :: "opaque \<Rightarrow> opaque option"
  EVP_CTRL_GCM_SET_IV_FIXED :: "opaque \<Rightarrow> byte list option \<Rightarrow> opaque option"
  EVP_CTRL_GCM_IV_GEN :: "opaque \<Rightarrow> nat \<Rightarrow> (byte list \<times> opaque) option"
  EVP_CTRL_GCM_SET_TAG :: "opaque \<Rightarrow> byte list \<Rightarrow> opaque option"
  EVP_CTRL_GCM_GET_TAG :: "opaque \<Rightarrow> nat \<Rightarrow> byte list option"
  EVP_CIPHER_CTX_key_length :: "opaque \<Rightarrow> int"
  EVP_CIPHER_CTX_set_key_length :: "opaque \<Rightarrow> nat \<Rightarrow> opaque option"
  EVP_CIPHER_CTX_iv_length :: "opaque \<Rightarrow> int"
  EVP_CIPHER_CTX_get_iv :: "opaque \<Rightarrow> nat \<Rightarrow> byte list option"

section \<open>ChaCha20-Poly1305\<close>

record chachapoly_ctx =
  main_evp :: opaque
  header_evp :: opaque

definition sizeof_chachapoly_ctx :: nat where "sizeof_chachapoly_ctx = 16"

definition POLY1305_TAGLEN :: nat where "POLY1305_TAGLEN = 16"
definition POLY1305_KEYLEN :: nat where "POLY1305_KEYLEN = 32"

definition chachapoly_new :: "libc \<Rightarrow> evp_cipher \<Rightarrow> byte list \<Rightarrow> nat \<Rightarrow> chachapoly_ctx option" where
  "chachapoly_new lc e key keylen =
     (if keylen \<noteq> 32 + 32 then None
      else if malloc lc sizeof_chachapoly_ctx = None then None
      else (case (EVP_CIPHER_CTX_new e, EVP_CIPHER_CTX_new e) of
         (Some m, Some h) \<Rightarrow>
           (case EVP_CipherInit e m (Some ''chacha20'') (Some (take 32 key)) None 1 of
              None \<Rightarrow> None
            | Some m' \<Rightarrow>
                (case EVP_CipherInit e h (Some ''chacha20'') (Some (take 32 (drop 32 key))) None 1 of
                   None \<Rightarrow> None
                 | Some h' \<Rightarrow>
                     if EVP_CIPHER_CTX_iv_length e h' \<noteq> 16 then None
                     else Some \<lparr>main_evp = m', header_evp = h'\<rparr>))
       | _ \<Rightarrow> None))"

text \<open>
  One use of a context: set the initial vector, then run the cipher over the data. Both
  failures are the same error to the caller.
\<close>

definition evp_with_iv :: "evp_cipher \<Rightarrow> byte list \<Rightarrow> int \<Rightarrow> byte list \<Rightarrow> (opaque, byte list) op" where
  "evp_with_iv e iv enc data c =
     (case EVP_CipherInit e c None None (Some iv) enc of
        None \<Rightarrow> err SSH_ERR_LIBCRYPTO_ERROR c
      | Some c' \<Rightarrow> (case EVP_Cipher e c' data of
           None \<Rightarrow> err SSH_ERR_LIBCRYPTO_ERROR c'
         | Some (out, c'') \<Rightarrow> ret out c''))"

definition on_main :: "(opaque, 'a) op \<Rightarrow> (chachapoly_ctx, 'a) op" where
  "on_main f ctx = (case f (main_evp ctx) of (r, c) \<Rightarrow> (r, ctx\<lparr>main_evp := c\<rparr>))"

definition on_header :: "(opaque, 'a) op \<Rightarrow> (chachapoly_ctx, 'a) op" where
  "on_header f ctx = (case f (header_evp ctx) of (r, c) \<Rightarrow> (r, ctx\<lparr>header_evp := c\<rparr>))"

definition seqbuf :: "byte \<Rightarrow> 32 word \<Rightarrow> byte list" where
  "seqbuf counter seqnr = counter # replicate 7 0 @ POKE_U64 (ucast seqnr)"

text \<open>\<^verbatim>\<open>chachapoly_crypt\<close>; \<open>src\<close> starts at the source pointer, the result is what is written at \<^verbatim>\<open>dest\<close>.\<close>

definition chachapoly_crypt ::
  "evp_cipher \<Rightarrow> 32 word \<Rightarrow> byte list \<Rightarrow> nat \<Rightarrow> nat \<Rightarrow> bool \<Rightarrow> (chachapoly_ctx, byte list) op" where
  "chachapoly_crypt e seqnr src len aadlen do_encrypt =
     bind_op (on_main (evp_with_iv e (seqbuf 0 seqnr) 1 (replicate POLY1305_KEYLEN 0))) (\<lambda>poly_key.
     bind_op
       (if \<not> do_encrypt \<and>
           timingsafe_bcmp (poly1305_auth (take (aadlen + len) src) poly_key)
             (drop (aadlen + len) src) POLY1305_TAGLEN \<noteq> 0
        then err SSH_ERR_MAC_INVALID else ret ()) (\<lambda>_.
     bind_op
       (if aadlen \<noteq> 0 then on_header (evp_with_iv e (seqbuf 0 seqnr) 1 (take aadlen src))
        else ret []) (\<lambda>hdr.
     bind_op (on_main (evp_with_iv e (seqbuf 1 seqnr) 1 (take len (drop aadlen src)))) (\<lambda>body.
     ret (if do_encrypt then hdr @ body @ poly1305_auth (hdr @ body) poly_key
          else hdr @ body)))))"

definition chachapoly_get_length ::
  "evp_cipher \<Rightarrow> 32 word \<Rightarrow> byte list \<Rightarrow> nat \<Rightarrow> (chachapoly_ctx, 32 word) op" where
  "chachapoly_get_length e seqnr cp len =
     (if len < 4 then err SSH_ERR_MESSAGE_INCOMPLETE
      else bind_op (on_header (evp_with_iv e (seqbuf 0 seqnr) 0 (take 4 cp))) (\<lambda>buf.
           ret (PEEK_U32 buf)))"

section \<open>The table of ciphers\<close>

definition CFLAG_CBC :: "32 word" where "CFLAG_CBC = 1"
definition CFLAG_CHACHAPOLY :: "32 word" where "CFLAG_CHACHAPOLY = 2"
definition CFLAG_NONE :: "32 word" where "CFLAG_NONE = 8"
definition CFLAG_INTERNAL :: "32 word" where "CFLAG_INTERNAL = CFLAG_NONE"

lemmas cflags = CFLAG_CBC_def CFLAG_CHACHAPOLY_def CFLAG_NONE_def CFLAG_INTERNAL_def

text \<open>\<open>evptype\<close> names the cipher type of libcrypto.\<close>

record sshcipher =
  c_name :: string
  block_size :: nat
  key_len :: nat
  iv_len :: nat
  auth_len :: nat
  c_flags :: "32 word"
  evptype :: "string option"

definition mk_cipher ::
  "string \<Rightarrow> nat \<Rightarrow> nat \<Rightarrow> nat \<Rightarrow> nat \<Rightarrow> 32 word \<Rightarrow> string option \<Rightarrow> sshcipher" where
  "mk_cipher n b k i a f t =
     \<lparr>c_name = n, block_size = b, key_len = k, iv_len = i, auth_len = a, c_flags = f, evptype = t\<rparr>"

definition ciphers :: "sshcipher list" where
  "ciphers =
    [mk_cipher ''3des-cbc'' 8 24 0 0 CFLAG_CBC (Some ''des_ede3_cbc''),
     mk_cipher ''aes128-cbc'' 16 16 0 0 CFLAG_CBC (Some ''aes_128_cbc''),
     mk_cipher ''aes192-cbc'' 16 24 0 0 CFLAG_CBC (Some ''aes_192_cbc''),
     mk_cipher ''aes256-cbc'' 16 32 0 0 CFLAG_CBC (Some ''aes_256_cbc''),
     mk_cipher ''aes128-ctr'' 16 16 0 0 0 (Some ''aes_128_ctr''),
     mk_cipher ''aes192-ctr'' 16 24 0 0 0 (Some ''aes_192_ctr''),
     mk_cipher ''aes256-ctr'' 16 32 0 0 0 (Some ''aes_256_ctr''),
     mk_cipher ''aes128-gcm@openssh.com'' 16 16 12 16 0 (Some ''aes_128_gcm''),
     mk_cipher ''aes256-gcm@openssh.com'' 16 32 12 16 0 (Some ''aes_256_gcm''),
     mk_cipher ''chacha20-poly1305@openssh.com'' 8 64 0 16 CFLAG_CHACHAPOLY None,
     mk_cipher ''none'' 8 0 0 0 CFLAG_NONE None]"

definition has_flag :: "sshcipher \<Rightarrow> 32 word \<Rightarrow> bool" where
  "has_flag c f \<longleftrightarrow> c_flags c AND f \<noteq> 0"

definition cipher_alg_list :: "char \<Rightarrow> bool \<Rightarrow> string" where
  "cipher_alg_list sep auth_only =
     join sep (map c_name (filter (\<lambda>c. \<not> has_flag c CFLAG_INTERNAL \<and>
       \<not> (auth_only \<and> auth_len c = 0)) ciphers))"

definition compression_alg_list :: "bool \<Rightarrow> string" where
  "compression_alg_list compression =
     (if compression then ''zlib@openssh.com,none'' else ''none,zlib@openssh.com'')"

definition cipher_blocksize :: "sshcipher \<Rightarrow> nat" where
  "cipher_blocksize c = block_size c"

definition cipher_keylen :: "sshcipher \<Rightarrow> nat" where
  "cipher_keylen c = key_len c"

definition cipher_seclen :: "sshcipher \<Rightarrow> nat" where
  "cipher_seclen c = (if c_name c = ''3des-cbc'' then 14 else cipher_keylen c)"

definition cipher_authlen :: "sshcipher \<Rightarrow> nat" where
  "cipher_authlen c = auth_len c"

definition cipher_ivlen :: "sshcipher \<Rightarrow> nat" where
  "cipher_ivlen c =
     (if iv_len c \<noteq> 0 \<or> has_flag c CFLAG_CHACHAPOLY then iv_len c else block_size c)"

definition cipher_is_cbc :: "sshcipher \<Rightarrow> bool" where
  "cipher_is_cbc c \<longleftrightarrow> has_flag c CFLAG_CBC"

definition cipher_is_internal :: "sshcipher \<Rightarrow> bool" where
  "cipher_is_internal c \<longleftrightarrow> has_flag c CFLAG_INTERNAL"

definition cipher_by_name :: "string \<Rightarrow> sshcipher option" where
  "cipher_by_name name = find (\<lambda>c. c_name c = name) ciphers"

function ciphers_valid_loop :: "bool \<Rightarrow> string option \<Rightarrow> bool" where
  "ciphers_valid_loop found cp =
     (case strsep (CHR '','') cp of
        (None, _) \<Rightarrow> found
      | (Some p, cp') \<Rightarrow>
          if p = [] then found
          else (case cipher_by_name p of
             None \<Rightarrow> False
           | Some c \<Rightarrow> if has_flag c CFLAG_INTERNAL then False
                       else ciphers_valid_loop True cp'))"
  by pat_completeness auto
termination
  by (relation "measure (str_size \<circ> snd)") (auto dest: strsep_decreases)

declare ciphers_valid_loop.simps [simp del]

definition ciphers_valid :: "libc \<Rightarrow> string option \<Rightarrow> bool" where
  "ciphers_valid lc names' =
     (case names' of
        None \<Rightarrow> False
      | Some s \<Rightarrow> s \<noteq> [] \<and> strdup lc s \<noteq> None \<and> ciphers_valid_loop False (Some s))"

section \<open>Operations\<close>

record sshcipher_ctx =
  plaintext :: bool
  encrypt :: bool
  evp :: "opaque option"
  cp_ctx :: "chachapoly_ctx option"
  cipher :: sshcipher

definition sizeof_sshcipher_ctx :: nat where "sizeof_sshcipher_ctx = 296"

definition cipher_ctx_is_plaintext :: "sshcipher_ctx \<Rightarrow> bool" where
  "cipher_ctx_is_plaintext cc = plaintext cc"

text \<open>A call of libcrypto on a context, with the error for its failure.\<close>

definition evp_or :: "ssherr \<Rightarrow> opaque option \<Rightarrow> ssherr + opaque" where
  "evp_or er r = (case r of None \<Rightarrow> Inl er | Some c \<Rightarrow> Inr c)"

definition bind_sum :: "'e + 'a \<Rightarrow> ('a \<Rightarrow> 'e + 'b) \<Rightarrow> 'e + 'b" where
  "bind_sum x f = (case x of Inl er \<Rightarrow> Inl er | Inr y \<Rightarrow> f y)"

text \<open>Setting up a context of libcrypto in \<^verbatim>\<open>cipher_init\<close>.\<close>

definition evp_setup ::
  "evp_cipher \<Rightarrow> sshcipher \<Rightarrow> byte list \<Rightarrow> nat \<Rightarrow> byte list option \<Rightarrow> bool \<Rightarrow> ssherr + opaque" where
  "evp_setup e c key keylen iv do_encrypt =
     bind_sum (evp_or SSH_ERR_ALLOC_FAIL (EVP_CIPHER_CTX_new e)) (\<lambda>p.
     bind_sum (evp_or SSH_ERR_LIBCRYPTO_ERROR
       (EVP_CipherInit e p (evptype c) None iv (if do_encrypt then 1 else 0))) (\<lambda>p.
     bind_sum
       (if cipher_authlen c \<noteq> 0
        then evp_or SSH_ERR_LIBCRYPTO_ERROR (EVP_CTRL_GCM_SET_IV_FIXED e p iv) else Inr p) (\<lambda>p.
     bind_sum
       (let klen = EVP_CIPHER_CTX_key_length e p
        in if klen > 0 \<and> int keylen \<noteq> klen
           then evp_or SSH_ERR_LIBCRYPTO_ERROR (EVP_CIPHER_CTX_set_key_length e p keylen)
           else Inr p) (\<lambda>p.
     evp_or SSH_ERR_LIBCRYPTO_ERROR (EVP_CipherInit e p None (Some key) None (- 1))))))"

definition cipher_init ::
  "libc \<Rightarrow> evp_cipher \<Rightarrow> sshcipher \<Rightarrow> byte list \<Rightarrow> nat \<Rightarrow> byte list option \<Rightarrow> nat \<Rightarrow> bool \<Rightarrow>
   ssherr + sshcipher_ctx" where
  "cipher_init lc e c key keylen iv ivlen do_encrypt =
     (if malloc lc sizeof_sshcipher_ctx = None then Inl SSH_ERR_ALLOC_FAIL
      else if keylen < key_len c \<or> (iv \<noteq> None \<and> ivlen < cipher_ivlen c)
      then Inl SSH_ERR_INVALID_ARGUMENT
      else let cc = \<lparr>plaintext = has_flag c CFLAG_NONE, encrypt = do_encrypt, evp = None,
                     cp_ctx = None, cipher = c\<rparr>
        in if has_flag c CFLAG_CHACHAPOLY then
             (case chachapoly_new lc e key keylen of
                None \<Rightarrow> Inl SSH_ERR_INVALID_ARGUMENT
              | Some p \<Rightarrow> Inr (cc\<lparr>cp_ctx := Some p\<rparr>))
           else if has_flag c CFLAG_NONE then Inr cc
           else bind_sum (evp_setup e c key keylen iv do_encrypt) (\<lambda>p. Inr (cc\<lparr>evp := Some p\<rparr>)))"

definition on_evp :: "ssherr \<Rightarrow> (opaque \<Rightarrow> opaque option) \<Rightarrow> (sshcipher_ctx, unit) op" where
  "on_evp er f cc =
     (case f (the (evp cc)) of
        None \<Rightarrow> err er cc
      | Some p \<Rightarrow> ret () (cc\<lparr>evp := Some p\<rparr>))"

definition when_op :: "bool \<Rightarrow> ('s, unit) op \<Rightarrow> ('s, unit) op" where
  "when_op b m = (if b then m else ret ())"

text \<open>The part of \<^verbatim>\<open>cipher_crypt\<close> that runs a cipher of libcrypto.\<close>

definition evp_crypt ::
  "evp_cipher \<Rightarrow> byte list \<Rightarrow> nat \<Rightarrow> nat \<Rightarrow> nat \<Rightarrow> (sshcipher_ctx, byte list) op" where
  "evp_crypt e src len aadlen authlen cc =
     bind_op (if authlen \<noteq> 0 \<and> authlen \<noteq> cipher_authlen (cipher cc)
              then err SSH_ERR_INVALID_ARGUMENT else ret ()) (\<lambda>_.
     bind_op (when_op (authlen \<noteq> 0) (on_evp SSH_ERR_LIBCRYPTO_ERROR
       (\<lambda>p. map_option snd (EVP_CTRL_GCM_IV_GEN e p 1)))) (\<lambda>_.
     bind_op (when_op (authlen \<noteq> 0 \<and> \<not> encrypt cc) (on_evp SSH_ERR_LIBCRYPTO_ERROR
       (\<lambda>p. EVP_CTRL_GCM_SET_TAG e p (take authlen (drop (aadlen + len) src))))) (\<lambda>_.
     bind_op (when_op (aadlen \<noteq> 0 \<and> authlen \<noteq> 0) (on_evp SSH_ERR_LIBCRYPTO_ERROR
       (\<lambda>p. EVP_Cipher_aad e p (take aadlen src)))) (\<lambda>_.
     bind_op (if len mod block_size (cipher cc) \<noteq> 0 then err SSH_ERR_INVALID_ARGUMENT else ret ()) (\<lambda>_.
     bind_op (\<lambda>cc. case EVP_Cipher e (the (evp cc)) (take len (drop aadlen src)) of
         None \<Rightarrow> err SSH_ERR_LIBCRYPTO_ERROR cc
       | Some (out, p) \<Rightarrow> ret out (cc\<lparr>evp := Some p\<rparr>)) (\<lambda>body.
     bind_op (when_op (authlen \<noteq> 0) (on_evp
       (if encrypt cc then SSH_ERR_LIBCRYPTO_ERROR else SSH_ERR_MAC_INVALID)
       (EVP_Cipher_final e))) (\<lambda>_.
     bind_op
       (if authlen \<noteq> 0 \<and> encrypt cc then
          (\<lambda>cc. case EVP_CTRL_GCM_GET_TAG e (the (evp cc)) authlen of
             None \<Rightarrow> err SSH_ERR_LIBCRYPTO_ERROR cc
           | Some tag \<Rightarrow> ret tag cc)
        else ret []) (\<lambda>tag.
     ret (take aadlen src @ body @ tag))))))))) cc"

definition cipher_crypt ::
  "evp_cipher \<Rightarrow> 32 word \<Rightarrow> byte list \<Rightarrow> nat \<Rightarrow> nat \<Rightarrow> nat \<Rightarrow> (sshcipher_ctx, byte list) op" where
  "cipher_crypt e seqnr src len aadlen authlen cc =
     (if has_flag (cipher cc) CFLAG_CHACHAPOLY then
        (case chachapoly_crypt e seqnr src len aadlen (encrypt cc) (the (cp_ctx cc)) of
           (r, p) \<Rightarrow> (r, cc\<lparr>cp_ctx := Some p\<rparr>))
      else if has_flag (cipher cc) CFLAG_NONE then ret (take (aadlen + len) src) cc
      else evp_crypt e src len aadlen authlen cc)"

definition cipher_get_length ::
  "evp_cipher \<Rightarrow> 32 word \<Rightarrow> byte list \<Rightarrow> nat \<Rightarrow> (sshcipher_ctx, 32 word) op" where
  "cipher_get_length e seqnr cp len cc =
     (if has_flag (cipher cc) CFLAG_CHACHAPOLY then
        (case chachapoly_get_length e seqnr cp len (the (cp_ctx cc)) of
           (r, p) \<Rightarrow> (r, cc\<lparr>cp_ctx := Some p\<rparr>))
      else if len < 4 then err SSH_ERR_MESSAGE_INCOMPLETE cc
      else ret (PEEK_U32 cp) cc)"

text \<open>The result of \<^verbatim>\<open>cipher_get_keyiv\<close> is what it writes at \<^verbatim>\<open>iv\<close>.\<close>

definition cipher_get_keyiv :: "evp_cipher \<Rightarrow> nat \<Rightarrow> (sshcipher_ctx, byte list) op" where
  "cipher_get_keyiv e len cc =
     (if has_flag (cipher cc) CFLAG_CHACHAPOLY then
        (if len \<noteq> 0 then err SSH_ERR_INVALID_ARGUMENT else ret []) cc
      else if has_flag (cipher cc) CFLAG_NONE then ret [] cc
      else let evplen = EVP_CIPHER_CTX_iv_length e (the (evp cc))
        in if evplen = 0 then ret [] cc
           else if evplen < 0 then err SSH_ERR_LIBCRYPTO_ERROR cc
           else if nat evplen \<noteq> len then err SSH_ERR_INVALID_ARGUMENT cc
           else if cipher_authlen (cipher cc) \<noteq> 0 then
             (case EVP_CTRL_GCM_IV_GEN e (the (evp cc)) len of
                None \<Rightarrow> err SSH_ERR_LIBCRYPTO_ERROR cc
              | Some (iv, p) \<Rightarrow> ret iv (cc\<lparr>evp := Some p\<rparr>))
           else (case EVP_CIPHER_CTX_get_iv e (the (evp cc)) len of
                None \<Rightarrow> err SSH_ERR_LIBCRYPTO_ERROR cc
              | Some iv \<Rightarrow> ret iv cc))"


section \<open>ChaCha20-Poly1305 seals and opens packets\<close>

text \<open>
  What libcrypto documents of \<^verbatim>\<open>EVP_chacha20\<close>: after a key of 32 bytes and an initial vector of
  16 are set, the data is combined with the key stream they determine. \<open>ks\<close> is the key
  stream and \<open>keyof\<close> the key a context was loaded with.
\<close>

definition xor_stream :: "(nat \<Rightarrow> byte) \<Rightarrow> byte list \<Rightarrow> byte list" where
  "xor_stream f bs = map2 (XOR) bs (map f [0..<length bs])"

definition evp_chacha20 ::
  "evp_cipher \<Rightarrow> (byte list \<Rightarrow> byte list \<Rightarrow> nat \<Rightarrow> byte) \<Rightarrow> (opaque \<Rightarrow> byte list) \<Rightarrow> bool" where
  "evp_chacha20 e ks keyof \<longleftrightarrow>
     EVP_CIPHER_CTX_new e \<noteq> None \<and>
     (\<forall>c key enc. length key = 32 \<longrightarrow>
        (\<exists>c'. EVP_CipherInit e c (Some ''chacha20'') (Some key) None enc = Some c' \<and>
           keyof c' = key \<and> EVP_CIPHER_CTX_iv_length e c' = 16)) \<and>
     (\<forall>c iv enc. length iv = 16 \<longrightarrow>
        (\<exists>c'. EVP_CipherInit e c None None (Some iv) enc = Some c' \<and> keyof c' = keyof c \<and>
           (\<forall>data. \<exists>c''. EVP_Cipher e c' data = Some (xor_stream (ks (keyof c) iv) data, c'') \<and>
              keyof c'' = keyof c)))"

lemma length_xor_stream [simp]: "length (xor_stream f bs) = length bs"
  by (simp add: xor_stream_def)

lemma xor_stream_nth: "i < length bs \<Longrightarrow> xor_stream f bs ! i = bs ! i XOR f i"
  by (simp add: xor_stream_def)

lemma xor_stream_twice [simp]: "xor_stream f (xor_stream f bs) = bs"
  by (rule nth_equalityI) (simp_all add: xor_stream_nth xor.assoc)

lemma take_xor_stream: "take n (xor_stream f bs) = xor_stream f (take n bs)"
  by (rule nth_equalityI) (simp_all add: xor_stream_nth)

lemma length_seqbuf [simp]: "length (seqbuf b n) = 16"
  by (simp add: seqbuf_def POKE_U64_def)

lemma length_poly1305_auth [simp]: "length (poly1305_auth m key) = 16"
  by (simp add: poly1305_auth_def poly1305_out_def U32TO8_LE_def Let_def split: prod.splits)

lemma evp_with_iv_chacha:
  assumes "evp_chacha20 e ks keyof" and "length iv = 16"
  obtains c' where "evp_with_iv e iv enc data c = (Inr (xor_stream (ks (keyof c) iv) data), c')"
    and "keyof c' = keyof c"
proof -
  obtain c1 where c1: "EVP_CipherInit e c None None (Some iv) enc = Some c1" "keyof c1 = keyof c"
    and run: "\<forall>data. \<exists>c''. EVP_Cipher e c1 data = Some (xor_stream (ks (keyof c) iv) data, c'') \<and>
      keyof c'' = keyof c"
    using assms unfolding evp_chacha20_def by blast
  obtain c2 where "EVP_Cipher e c1 data = Some (xor_stream (ks (keyof c) iv) data, c2)" "keyof c2 = keyof c"
    using run by blast
  then show ?thesis using c1 that by (simp add: evp_with_iv_def op_simps)
qed

text \<open>The packet that is sent, and the one-time key of its tag.\<close>

definition packet_poly_key :: "(byte list \<Rightarrow> byte list \<Rightarrow> nat \<Rightarrow> byte) \<Rightarrow> byte list \<Rightarrow> 32 word \<Rightarrow> byte list" where
  "packet_poly_key ks key seqnr = xor_stream (ks (take 32 key) (seqbuf 0 seqnr)) (replicate 32 0)"

definition packet_crypt ::
  "(byte list \<Rightarrow> byte list \<Rightarrow> nat \<Rightarrow> byte) \<Rightarrow> byte list \<Rightarrow> 32 word \<Rightarrow> nat \<Rightarrow> byte list \<Rightarrow> byte list" where
  "packet_crypt ks key seqnr aadlen bs =
     xor_stream (ks (take 32 (drop 32 key)) (seqbuf 0 seqnr)) (take aadlen bs) @
     xor_stream (ks (take 32 key) (seqbuf 1 seqnr)) (drop aadlen bs)"

definition packet_tag :: "(byte list \<Rightarrow> byte list \<Rightarrow> nat \<Rightarrow> byte) \<Rightarrow> byte list \<Rightarrow> 32 word \<Rightarrow> byte list \<Rightarrow> byte list" where
  "packet_tag ks key seqnr bs = poly1305_auth bs (packet_poly_key ks key seqnr)"

lemma length_packet_crypt [simp]: "length (packet_crypt ks key seqnr aadlen bs) = length bs"
  by (simp add: packet_crypt_def)

lemma packet_crypt_twice [simp]:
  "packet_crypt ks key seqnr aadlen (packet_crypt ks key seqnr aadlen bs) = bs"
proof (cases "aadlen \<le> length bs")
  case False
  then have "drop aadlen bs = []" by simp
  with False show ?thesis by (simp add: packet_crypt_def xor_stream_def[of _ "[]"])
qed (simp add: packet_crypt_def min_def)

definition chachapoly_keyed :: "(opaque \<Rightarrow> byte list) \<Rightarrow> byte list \<Rightarrow> chachapoly_ctx \<Rightarrow> bool" where
  "chachapoly_keyed keyof key ctx \<longleftrightarrow>
     keyof (main_evp ctx) = take 32 key \<and> keyof (header_evp ctx) = take 32 (drop 32 key)"

lemma chachapoly_new_keyed:
  assumes e: "evp_chacha20 e ks keyof" and mem: "\<And>n. malloc lc n \<noteq> None" and key: "length key = 64"
  obtains ctx where "chachapoly_new lc e key 64 = Some ctx" and "chachapoly_keyed keyof key ctx"
proof -
  obtain c where c: "EVP_CIPHER_CTX_new e = Some c" using e by (auto simp: evp_chacha20_def)
  have "\<exists>c'. EVP_CipherInit e c (Some ''chacha20'') (Some k) None 1 = Some c' \<and> keyof c' = k \<and>
      EVP_CIPHER_CTX_iv_length e c' = 16" if "length k = 32" for k
    using e that by (simp add: evp_chacha20_def)
  from this[of "take 32 key"] this[of "take 32 (drop 32 key)"] show ?thesis
    using key mem c that by (auto simp: chachapoly_new_def chachapoly_keyed_def)
qed

text \<open>Both directions of \<^verbatim>\<open>chachapoly_crypt\<close> on a keyed context.\<close>

lemma chachapoly_crypt_keyed:
  assumes e: "evp_chacha20 e ks keyof" and keyed: "chachapoly_keyed keyof key ctx"
    and len: "aadlen + len + (if enc then 0 else 16) \<le> length src"
  obtains ctx' where "chachapoly_crypt e seqnr src len aadlen enc ctx =
      (let bs = take (aadlen + len) src; out = packet_crypt ks key seqnr aadlen bs
       in if enc then Inr (out @ packet_tag ks key seqnr out)
          else if take 16 (drop (aadlen + len) src) = packet_tag ks key seqnr bs then Inr out
          else Inl SSH_ERR_MAC_INVALID, ctx')"
    and "chachapoly_keyed keyof key ctx'"
proof -
  have k: "keyof (main_evp ctx) = take 32 key" "keyof (header_evp ctx) = take 32 (drop 32 key)"
    using keyed by (auto simp: chachapoly_keyed_def)
  obtain c1 where c1: "evp_with_iv e (seqbuf 0 seqnr) 1 (replicate 32 0) (main_evp ctx) =
      (Inr (packet_poly_key ks key seqnr), c1)" "keyof c1 = take 32 key"
    using evp_with_iv_chacha[OF e length_seqbuf] k(1) unfolding packet_poly_key_def by metis
  obtain h where h: "evp_with_iv e (seqbuf 0 seqnr) 1 (take aadlen src) (header_evp ctx) =
      (Inr (xor_stream (ks (take 32 (drop 32 key)) (seqbuf 0 seqnr)) (take aadlen src)), h)"
      "keyof h = take 32 (drop 32 key)"
    using evp_with_iv_chacha[OF e length_seqbuf] k(2) by metis
  obtain c2 where c2: "evp_with_iv e (seqbuf 1 seqnr) 1 (take len (drop aadlen src)) c1 =
      (Inr (xor_stream (ks (take 32 key) (seqbuf 1 seqnr)) (take len (drop aadlen src))), c2)"
      "keyof c2 = take 32 key"
    using evp_with_iv_chacha[OF e length_seqbuf] c1(2) by metis
  have out: "packet_crypt ks key seqnr aadlen (take (aadlen + len) src) =
      xor_stream (ks (take 32 (drop 32 key)) (seqbuf 0 seqnr)) (take aadlen src) @
      xor_stream (ks (take 32 key) (seqbuf 1 seqnr)) (take len (drop aadlen src))"
    using len by (simp add: packet_crypt_def take_drop min_def add.commute)
  have tag: "timingsafe_bcmp (poly1305_auth bs pk) t 16 = 0 \<longleftrightarrow> take 16 t = poly1305_auth bs pk"
    if "16 \<le> length t" for bs pk t using that by (auto simp: timingsafe_bcmp_eq)
  have nil: "xor_stream f [] = []" for f by (simp add: xor_stream_def)
  have crypt0: "packet_crypt ks key seqnr 0 bs = xor_stream (ks (take 32 key) (seqbuf 1 seqnr)) bs"
    for bs by (simp add: packet_crypt_def nil)
  note defs = chachapoly_crypt_def bind_op_def on_main_def on_header_def op_simps POLY1305_KEYLEN_def
    POLY1305_TAGLEN_def out packet_tag_def Let_def
  have "\<exists>ctx'. chachapoly_crypt e seqnr src len aadlen enc ctx =
      (let bs = take (aadlen + len) src; out = packet_crypt ks key seqnr aadlen bs
       in if enc then Inr (out @ packet_tag ks key seqnr out)
          else if take 16 (drop (aadlen + len) src) = packet_tag ks key seqnr bs then Inr out
          else Inl SSH_ERR_MAC_INVALID, ctx') \<and> chachapoly_keyed keyof key ctx'"
    using len c1 h c2 k tag[of "drop (aadlen + len) src"]
    by (cases "aadlen = 0"; cases enc;
        cases "take 16 (drop (aadlen + len) src) = packet_tag ks key seqnr (take (aadlen + len) src)")
       (simp_all add: defs chachapoly_keyed_def nil crypt0)
  then show ?thesis using that by blast
qed

lemma keeps_evp_with_iv:
  assumes e: "evp_chacha20 e ks keyof" and iv: "length iv = 16"
  shows "keeps (chachapoly_keyed keyof key) (on_main (evp_with_iv e iv enc data))"
    and "keeps (chachapoly_keyed keyof key) (on_header (evp_with_iv e iv enc data))"
proof -
  have "keyof (snd (evp_with_iv e iv enc data c)) = keyof c" for c
    using evp_with_iv_chacha[OF e iv, of enc data c] by (metis snd_conv)
  then show "keeps (chachapoly_keyed keyof key) (on_main (evp_with_iv e iv enc data))"
    "keeps (chachapoly_keyed keyof key) (on_header (evp_with_iv e iv enc data))"
    by (auto simp: keeps_def on_main_def on_header_def chachapoly_keyed_def split: prod.splits)
       (metis snd_conv)+
qed

lemma keeps_chachapoly_crypt:
  assumes "evp_chacha20 e ks keyof"
  shows "keeps (chachapoly_keyed keyof key) (chachapoly_crypt e seqnr src len aadlen enc)"
  unfolding chachapoly_crypt_def
  by (intro keeps_rules keeps_evp_with_iv[OF assms] length_seqbuf)

lemma chachapoly_crypts_keyed:
  assumes e: "evp_chacha20 e ks keyof" and keyed: "chachapoly_keyed keyof key ctx"
  shows "chachapoly_keyed keyof key
    (fold (\<lambda>(seqnr, src, len, aadlen, enc) c. snd (chachapoly_crypt e seqnr src len aadlen enc c)) calls ctx)"
  using keyed
  by (induction calls arbitrary: ctx) (auto intro: keepsD[OF keeps_chachapoly_crypt[OF e]])


lemma chachapoly_get_length_keyed:
  assumes e: "evp_chacha20 e ks keyof" and keyed: "chachapoly_keyed keyof key ctx"
    and aad: "4 \<le> aadlen" "aadlen \<le> length bs" "4 \<le> len"
  shows "fst (chachapoly_get_length e seqnr (packet_crypt ks key seqnr aadlen bs @ rest) len ctx) =
    Inr (PEEK_U32 (take 4 bs))"
proof -
  have k: "keyof (header_evp ctx) = take 32 (drop 32 key)"
    using keyed by (simp add: chachapoly_keyed_def)
  have hdr: "take 4 (packet_crypt ks key seqnr aadlen bs @ rest) =
      xor_stream (ks (take 32 (drop 32 key)) (seqbuf 0 seqnr)) (take 4 bs)"
    using aad by (simp add: packet_crypt_def take_xor_stream)
  obtain h where "evp_with_iv e (seqbuf 0 seqnr) 0
      (xor_stream (ks (take 32 (drop 32 key)) (seqbuf 0 seqnr)) (take 4 bs)) (header_evp ctx) =
      (Inr (take 4 bs), h)"
    using evp_with_iv_chacha[OF e length_seqbuf, of 0 seqnr 0
        "xor_stream (ks (take 32 (drop 32 key)) (seqbuf 0 seqnr)) (take 4 bs)" "header_evp ctx"]
    unfolding k by (metis xor_stream_twice)
  then show ?thesis
    using aad(3)
    by (simp add: chachapoly_get_length_def bind_op_def on_header_def op_simps hdr del: take_append)
qed

text \<open>
  C32. ChaCha20-Poly1305 packets. Two contexts made from the same key of 64 bytes, after any
  other uses of either: what one seals under a sequence number is as long as the packet
  with 16 bytes more, the other reads its length field from the first bytes and opens it
  to the packet. Opening anything else of that length succeeds only if its last 16 bytes
  are the Poly1305 tag of the rest, under the key stream's first block for that sequence
  number; otherwise the result is \<^const>\<open>SSH_ERR_MAC_INVALID\<close>.
\<close>

theorem chachapoly_seal_open:
  assumes e: "evp_chacha20 e ks keyof" and mem: "\<And>n. malloc lc n \<noteq> None" and key: "length key = 64"
    and src: "length src = aadlen + len" and forged: "length forged = aadlen + len + 16"
    and aad: "4 \<le> aadlen"
  shows "let run = fold (\<lambda>(seqnr, src, len, aadlen, enc) c.
          snd (chachapoly_crypt e seqnr src len aadlen enc c));
      a = run calls_a (the (chachapoly_new lc e key 64));
      b = run calls_b (the (chachapoly_new lc e key 64));
      open_b = (\<lambda>bs. fst (chachapoly_crypt e seqnr bs len aadlen False b))
    in \<exists>sealed. fst (chachapoly_crypt e seqnr src len aadlen True a) = Inr sealed \<and>
         length sealed = length src + 16 \<and> open_b sealed = Inr src \<and>
         fst (chachapoly_get_length e seqnr sealed (length sealed) b) = Inr (PEEK_U32 (take 4 src)) \<and>
         (drop (aadlen + len) forged \<noteq>
            poly1305_auth (take (aadlen + len) forged) (packet_poly_key ks key seqnr) \<longrightarrow>
          open_b forged = Inl SSH_ERR_MAC_INVALID)"
proof -
  define run where "run = fold (\<lambda>(seqnr, src, len, aadlen, enc) c.
    snd (chachapoly_crypt e seqnr src len aadlen enc c))"
  obtain c where c: "chachapoly_new lc e key 64 = Some c" "chachapoly_keyed keyof key c"
    using chachapoly_new_keyed[OF e mem key] by blast
  have keyed: "chachapoly_keyed keyof key (run calls c)" for calls
    unfolding run_def by (rule chachapoly_crypts_keyed[OF e c(2)])
  define out where "out = packet_crypt ks key seqnr aadlen src"
  define sealed where "sealed = out @ packet_tag ks key seqnr out"
  have seal: "fst (chachapoly_crypt e seqnr src len aadlen True (run calls_a c)) = Inr sealed"
  proof (rule chachapoly_crypt_keyed[OF e keyed[of calls_a], of aadlen len True src seqnr])
  qed (simp_all add: src sealed_def out_def Let_def)
  have opened: "fst (chachapoly_crypt e seqnr bs len aadlen False (run calls_b c)) =
      (if drop (aadlen + len) bs = packet_tag ks key seqnr (take (aadlen + len) bs)
       then Inr (packet_crypt ks key seqnr aadlen (take (aadlen + len) bs))
       else Inl SSH_ERR_MAC_INVALID)" if "length bs = aadlen + len + 16" for bs
  proof (rule chachapoly_crypt_keyed[OF e keyed[of calls_b], of aadlen len False bs seqnr])
  qed (simp_all add: that Let_def)
  have len_out: "length out = aadlen + len" by (simp add: out_def src)
  have "length sealed = length src + 16" by (simp add: sealed_def len_out src packet_tag_def)
  moreover have "fst (chachapoly_crypt e seqnr sealed len aadlen False (run calls_b c)) = Inr src"
    using opened[of sealed] by (simp add: sealed_def len_out packet_tag_def) (simp add: out_def)
  moreover have "fst (chachapoly_get_length e seqnr sealed (length sealed) (run calls_b c)) =
      Inr (PEEK_U32 (take 4 src))"
    unfolding sealed_def out_def using src aad
    by (intro chachapoly_get_length_keyed[OF e keyed]) auto
  ultimately show ?thesis
    using seal opened[OF forged] c(1) unfolding Let_def run_def[symmetric] packet_tag_def by auto
qed

text \<open>A key stream with the properties of \<^verbatim>\<open>EVP_chacha20\<close>: contexts hold the key and the vector.\<close>

definition toy_stream :: "byte list \<Rightarrow> byte list \<Rightarrow> nat \<Rightarrow> byte" where
  "toy_stream key iv i = hd key + 3 * hd iv + 5 * last iv + 7 * of_nat i"

definition toy_cipher :: evp_cipher where
  "toy_cipher =
     \<lparr>EVP_CIPHER_CTX_new = Some [],
      EVP_CipherInit = (\<lambda>c ty key iv enc. Some
        ((case iv of None \<Rightarrow> replicate 16 0 | Some v \<Rightarrow> v) @
         (case key of None \<Rightarrow> drop 16 c | Some k \<Rightarrow> k))),
      EVP_Cipher = (\<lambda>c bs. Some (xor_stream (toy_stream (drop 16 c) (take 16 c)) bs, c)),
      EVP_Cipher_aad = (\<lambda>c bs. Some c), EVP_Cipher_final = Some,
      EVP_CTRL_GCM_SET_IV_FIXED = (\<lambda>c iv. Some c), EVP_CTRL_GCM_IV_GEN = (\<lambda>c n. Some ([], c)),
      EVP_CTRL_GCM_SET_TAG = (\<lambda>c t. Some c), EVP_CTRL_GCM_GET_TAG = (\<lambda>c n. Some (replicate n 0)),
      EVP_CIPHER_CTX_key_length = (\<lambda>c. 32), EVP_CIPHER_CTX_set_key_length = (\<lambda>c n. Some c),
      EVP_CIPHER_CTX_iv_length = (\<lambda>c. 16), EVP_CIPHER_CTX_get_iv = (\<lambda>c n. Some (take n (take 16 c)))\<rparr>"


lemma toy_cipher_chacha20: "evp_chacha20 toy_cipher toy_stream (drop 16)"
  by (auto simp: evp_chacha20_def toy_cipher_def)

text \<open>A packet with a length field of 4 bytes and 8 more, and one with a wrong tag.\<close>

theorem chachapoly_seal_open_witness:
  "let key = replicate 32 1 @ replicate 32 2; c = the (chachapoly_new lc_match toy_cipher key 64);
       src = [0, 0, 0, 8, 1, 2, 3, 4, 5, 6, 7, 9]
   in \<exists>sealed. fst (chachapoly_crypt toy_cipher 3 src 8 4 True c) = Inr sealed \<and> length sealed = 28 \<and>
        fst (chachapoly_crypt toy_cipher 3 sealed 8 4 False c) = Inr src \<and>
        fst (chachapoly_get_length toy_cipher 3 sealed 28 c) = Inr 8 \<and>
        fst (chachapoly_crypt toy_cipher 3 (replicate 28 0) 8 4 False c) = Inl SSH_ERR_MAC_INVALID"
proof -
  have mem: "\<And>n. malloc lc_match n \<noteq> None" by (simp add: lc_match_def)
  have tag: "poly1305_auth (replicate 12 0) (packet_poly_key toy_stream
      (replicate 32 1 @ replicate 32 2) 3) \<noteq> replicate 16 0"
    by code_simp
  have "PEEK_U32 [0, 0, 0, 8] = 8" by code_simp
  then show ?thesis
    using chachapoly_seal_open[OF toy_cipher_chacha20 mem, where key = "replicate 32 1 @ replicate 32 2"
      and src = "[0, 0, 0, 8, 1, 2, 3, 4, 5, 6, 7, 9]" and len = 8 and aadlen = 4 and seqnr = 3
      and forged = "replicate 28 0" and calls_a = "[]" and calls_b = "[]"] tag
    by (auto simp: Let_def)
qed

end
