(* ===== verification/Proposal.thy ===== *)
theory Proposal
  imports Proc Codec Cipher
begin

unbundle bit_operations_syntax

text \<open>
  Proposals of the key exchange: the default lists of \<^verbatim>\<open>myproposal.h\<close>, the quirks of
  \<^verbatim>\<open>compat.c\<close>, and filling, encoding and decoding a proposal in \<^verbatim>\<open>kex.c\<close>. A proposal is the
  list of its \<open>PROPOSAL_MAX\<close> strings; the wire carries the characters as bytes.
\<close>

section \<open>Characters and bytes\<close>

definition byte_of_char :: "char \<Rightarrow> byte" where
  "byte_of_char c = of_nat (of_char c)"

definition char_of_byte :: "byte \<Rightarrow> char" where
  "char_of_byte b = char_of (unat b)"

definition bytes_of :: "string \<Rightarrow> byte list" where
  "bytes_of s = map byte_of_char s"

text \<open>The C string at the start of an array of bytes: it ends before the first NUL.\<close>

definition cstr :: "byte list \<Rightarrow> string" where
  "cstr bs = map char_of_byte (takeWhile (\<lambda>b. b \<noteq> 0) bs)"

section \<open>Quirks of the peer\<close>

definition SSH_BUG_UTF8TTYMODE :: "32 word" where "SSH_BUG_UTF8TTYMODE = 0x00000001"
definition SSH_BUG_SIGTYPE :: "32 word" where "SSH_BUG_SIGTYPE = 0x00000002"
definition SSH_BUG_SIGTYPE74 :: "32 word" where "SSH_BUG_SIGTYPE74 = 0x00000004"
definition SSH_OLD_SESSIONID :: "32 word" where "SSH_OLD_SESSIONID = 0x00000010"
definition SSH_BUG_DEBUG :: "32 word" where "SSH_BUG_DEBUG = 0x00000040"
definition SSH_BUG_SCANNER :: "32 word" where "SSH_BUG_SCANNER = 0x00000800"
definition SSH_OLD_DHGEX :: "32 word" where "SSH_OLD_DHGEX = 0x00004000"
definition SSH_BUG_NOREKEY :: "32 word" where "SSH_BUG_NOREKEY = 0x00008000"
definition SSH_BUG_EXTEOF :: "32 word" where "SSH_BUG_EXTEOF = 0x00200000"
definition SSH_BUG_PROBE :: "32 word" where "SSH_BUG_PROBE = 0x00400000"
definition SSH_OLD_FORWARD_ADDR :: "32 word" where "SSH_OLD_FORWARD_ADDR = 0x01000000"
definition SSH_NEW_OPENSSH :: "32 word" where "SSH_NEW_OPENSSH = 0x04000000"
definition SSH_BUG_DYNAMIC_RPORT :: "32 word" where "SSH_BUG_DYNAMIC_RPORT = 0x08000000"
definition SSH_BUG_CURVE25519PAD :: "32 word" where "SSH_BUG_CURVE25519PAD = 0x10000000"
definition SSH_BUG_HOSTKEYS :: "32 word" where "SSH_BUG_HOSTKEYS = 0x20000000"
definition SSH_BUG_DHGEX_LARGE :: "32 word" where "SSH_BUG_DHGEX_LARGE = 0x40000000"

text \<open>The table of \<^verbatim>\<open>compat_banner\<close>: patterns of version strings and the flags they set.\<close>

definition banner_checks :: "(string \<times> 32 word) list" where
  "banner_checks =
    [(''OpenSSH_2.*,OpenSSH_3.0*,OpenSSH_3.1*'', SSH_BUG_EXTEOF OR SSH_OLD_FORWARD_ADDR OR SSH_BUG_SIGTYPE),
     (''OpenSSH_3.*'', SSH_OLD_FORWARD_ADDR OR SSH_BUG_SIGTYPE),
     (''Sun_SSH_1.0*'', SSH_BUG_NOREKEY OR SSH_BUG_EXTEOF OR SSH_BUG_SIGTYPE),
     (''OpenSSH_2*,OpenSSH_3*,OpenSSH_4*'', SSH_BUG_SIGTYPE),
     (''OpenSSH_5*'', SSH_NEW_OPENSSH OR SSH_BUG_DYNAMIC_RPORT OR SSH_BUG_SIGTYPE),
     (''OpenSSH_6.6.1*'', SSH_NEW_OPENSSH OR SSH_BUG_SIGTYPE),
     (''OpenSSH_6.5*,OpenSSH_6.6*'', SSH_NEW_OPENSSH OR SSH_BUG_CURVE25519PAD OR SSH_BUG_SIGTYPE),
     (''OpenSSH_7.4*'', SSH_NEW_OPENSSH OR SSH_BUG_SIGTYPE OR SSH_BUG_SIGTYPE74),
     (''OpenSSH_7.0*,OpenSSH_7.1*,OpenSSH_7.2*,OpenSSH_7.3*,OpenSSH_7.5*,OpenSSH_7.6*,OpenSSH_7.7*'',
        SSH_NEW_OPENSSH OR SSH_BUG_SIGTYPE),
     (''OpenSSH*'', SSH_NEW_OPENSSH),
     (''*MindTerm*'', 0),
     (''3.0.*'', SSH_BUG_DEBUG),
     (''3.0 SecureCRT*'', SSH_OLD_SESSIONID),
     (''1.7 SecureFX*'', SSH_OLD_SESSIONID),
     (''Cisco-1.*'', SSH_BUG_DHGEX_LARGE OR SSH_BUG_HOSTKEYS),
     (''*SSH_Version_Mapper*'', SSH_BUG_SCANNER),
     (''PuTTY_Local:*,PuTTY-Release-0.5*,PuTTY_Release_0.5*,PuTTY_Release_0.60*,'' @
      ''PuTTY_Release_0.61*,PuTTY_Release_0.62*,PuTTY_Release_0.63*,PuTTY_Release_0.64*'', SSH_OLD_DHGEX),
     (''FuTTY*'', SSH_OLD_DHGEX),
     (''Probe-*'', SSH_BUG_PROBE),
     (''TeraTerm SSH*,TTSSH/1.5.*,TTSSH/2.1*,TTSSH/2.2*,TTSSH/2.3*,TTSSH/2.4*,TTSSH/2.5*,'' @
      ''TTSSH/2.6*,TTSSH/2.70*,TTSSH/2.71*,TTSSH/2.72*'', SSH_BUG_HOSTKEYS),
     (''WinSCP_release_4*,WinSCP_release_5.0*,WinSCP_release_5.1,WinSCP_release_5.1.*,'' @
      ''WinSCP_release_5.5,WinSCP_release_5.5.*,WinSCP_release_5.6,WinSCP_release_5.6.*,'' @
      ''WinSCP_release_5.7,WinSCP_release_5.7.1,WinSCP_release_5.7.2,WinSCP_release_5.7.3,'' @
      ''WinSCP_release_5.7.4'', SSH_OLD_DHGEX),
     (''ConfD-*'', SSH_BUG_UTF8TTYMODE),
     (''Twisted_*'', 0),
     (''Twisted*'', SSH_BUG_DEBUG)]"

definition compat_banner :: "string \<Rightarrow> 32 word" where
  "compat_banner version =
     (case find (\<lambda>(pat, bugs). match_pattern_list version pat False = 1) banner_checks of
        None \<Rightarrow> 0 | Some (pat, bugs) \<Rightarrow> bugs)"

text \<open>\<^verbatim>\<open>compat_kex_proposal\<close>; \<^const>\<open>None\<close> is \<^verbatim>\<open>fatal\<close>.\<close>

definition compat_kex_proposal :: "libc \<Rightarrow> 32 word \<Rightarrow> string \<Rightarrow> string option" where
  "compat_kex_proposal lc flags p =
     (if flags AND (SSH_BUG_CURVE25519PAD OR SSH_OLD_DHGEX) = 0 then strdup lc p
      else let cp = (if flags AND SSH_BUG_CURVE25519PAD \<noteq> 0
                     then match_filter_denylist lc p ''curve25519-sha256@libssh.org'' else Some p)
        in case cp of
             None \<Rightarrow> None
           | Some c \<Rightarrow>
               (case (if flags AND SSH_OLD_DHGEX \<noteq> 0
                      then match_filter_denylist lc c
                        ''diffie-hellman-group-exchange-sha256,diffie-hellman-group-exchange-sha1''
                      else Some c) of
                  None \<Rightarrow> None
                | Some c' \<Rightarrow> if c' = [] then None else Some c'))"

section \<open>Proposals\<close>

definition PROPOSAL_KEX_ALGS :: nat where "PROPOSAL_KEX_ALGS = 0"
definition PROPOSAL_SERVER_HOST_KEY_ALGS :: nat where "PROPOSAL_SERVER_HOST_KEY_ALGS = 1"
definition PROPOSAL_ENC_ALGS_CTOS :: nat where "PROPOSAL_ENC_ALGS_CTOS = 2"
definition PROPOSAL_ENC_ALGS_STOC :: nat where "PROPOSAL_ENC_ALGS_STOC = 3"
definition PROPOSAL_MAC_ALGS_CTOS :: nat where "PROPOSAL_MAC_ALGS_CTOS = 4"
definition PROPOSAL_MAC_ALGS_STOC :: nat where "PROPOSAL_MAC_ALGS_STOC = 5"
definition PROPOSAL_COMP_ALGS_CTOS :: nat where "PROPOSAL_COMP_ALGS_CTOS = 6"
definition PROPOSAL_COMP_ALGS_STOC :: nat where "PROPOSAL_COMP_ALGS_STOC = 7"
definition PROPOSAL_MAX :: nat where "PROPOSAL_MAX = 10"

lemmas proposal_ids =
  PROPOSAL_KEX_ALGS_def PROPOSAL_SERVER_HOST_KEY_ALGS_def PROPOSAL_ENC_ALGS_CTOS_def
  PROPOSAL_ENC_ALGS_STOC_def PROPOSAL_MAC_ALGS_CTOS_def PROPOSAL_MAC_ALGS_STOC_def
  PROPOSAL_COMP_ALGS_CTOS_def PROPOSAL_COMP_ALGS_STOC_def

definition KEX_COOKIE_LEN :: nat where "KEX_COOKIE_LEN = 16"

type_synonym proposal = "string list"

definition KEX_SERVER_KEX :: string where
  "KEX_SERVER_KEX =
     ''mlkem768x25519-sha256,sntrup761x25519-sha512,sntrup761x25519-sha512@openssh.com,'' @
     ''curve25519-sha256,curve25519-sha256@libssh.org,ecdh-sha2-nistp256,ecdh-sha2-nistp384,'' @
     ''ecdh-sha2-nistp521''"

definition KEX_CLIENT_KEX :: string where
  "KEX_CLIENT_KEX = KEX_SERVER_KEX @
     '',diffie-hellman-group-exchange-sha256,diffie-hellman-group16-sha512,'' @
     ''diffie-hellman-group18-sha512,diffie-hellman-group14-sha256''"

definition KEX_DEFAULT_PK_ALG :: string where
  "KEX_DEFAULT_PK_ALG =
     ''ssh-ed25519-cert-v01@openssh.com,ecdsa-sha2-nistp256-cert-v01@openssh.com,'' @
     ''ecdsa-sha2-nistp384-cert-v01@openssh.com,ecdsa-sha2-nistp521-cert-v01@openssh.com,'' @
     ''sk-ssh-ed25519-cert-v01@openssh.com,sk-ecdsa-sha2-nistp256-cert-v01@openssh.com,'' @
     ''webauthn-sk-ecdsa-sha2-nistp256-cert-v01@openssh.com,rsa-sha2-512-cert-v01@openssh.com,'' @
     ''rsa-sha2-256-cert-v01@openssh.com,ssh-ed25519,ecdsa-sha2-nistp256,ecdsa-sha2-nistp384,'' @
     ''ecdsa-sha2-nistp521,sk-ssh-ed25519@openssh.com,sk-ecdsa-sha2-nistp256@openssh.com,'' @
     ''webauthn-sk-ecdsa-sha2-nistp256@openssh.com,rsa-sha2-512,rsa-sha2-256''"

definition KEX_SERVER_ENCRYPT :: string where
  "KEX_SERVER_ENCRYPT =
     ''chacha20-poly1305@openssh.com,aes128-gcm@openssh.com,aes256-gcm@openssh.com,'' @
     ''aes128-ctr,aes192-ctr,aes256-ctr''"

text \<open>The Windows build leaves SHA-1 out.\<close>

definition KEX_SERVER_MAC :: "bool \<Rightarrow> string" where
  "KEX_SERVER_MAC windows =
     (if windows then
        ''umac-64-etm@openssh.com,umac-128-etm@openssh.com,hmac-sha2-256-etm@openssh.com,'' @
        ''hmac-sha2-512-etm@openssh.com,umac-64@openssh.com,umac-128@openssh.com,hmac-sha2-256,'' @
        ''hmac-sha2-512,''
      else
        ''umac-64-etm@openssh.com,umac-128-etm@openssh.com,hmac-sha2-256-etm@openssh.com,'' @
        ''hmac-sha2-512-etm@openssh.com,hmac-sha1-etm@openssh.com,umac-64@openssh.com,'' @
        ''umac-128@openssh.com,hmac-sha2-256,hmac-sha2-512,hmac-sha1'')"

definition KEX_DEFAULT_COMP :: string where
  "KEX_DEFAULT_COMP = ''none,zlib@openssh.com''"

definition KEX_SERVER :: "bool \<Rightarrow> proposal" where
  "KEX_SERVER windows =
    [KEX_SERVER_KEX, KEX_DEFAULT_PK_ALG, KEX_SERVER_ENCRYPT, KEX_SERVER_ENCRYPT,
     KEX_SERVER_MAC windows, KEX_SERVER_MAC windows, KEX_DEFAULT_COMP, KEX_DEFAULT_COMP, [], []]"

definition KEX_CLIENT :: "bool \<Rightarrow> proposal" where
  "KEX_CLIENT windows =
    [KEX_CLIENT_KEX, KEX_DEFAULT_PK_ALG, KEX_SERVER_ENCRYPT, KEX_SERVER_ENCRYPT,
     KEX_SERVER_MAC windows, KEX_SERVER_MAC windows, KEX_DEFAULT_COMP, KEX_DEFAULT_COMP, [], []]"

text \<open>The markers a side appends to its list of methods in the first exchange.\<close>

definition kex_signals :: "bool \<Rightarrow> string" where
  "kex_signals server =
     (if server then ''ext-info-s,kex-strict-s-v00@openssh.com''
      else ''ext-info-c,kex-strict-c-v00@openssh.com'')"

text \<open>\<^verbatim>\<open>kex_proposal_populate_entries\<close>; \<^verbatim>\<open>xstrdup\<close> and the other failures end the process.\<close>

definition kex_proposal_populate_entries ::
  "libc \<Rightarrow> bool \<Rightarrow> bool \<Rightarrow> 32 word \<Rightarrow> string option \<Rightarrow> string option \<Rightarrow> string option \<Rightarrow>
   string option \<Rightarrow> string option \<Rightarrow> proposal option" where
  "kex_proposal_populate_entries lc windows server flags kexalgos ciphers' macs' comp' hkalgs =
     (let defprop = (if server then KEX_SERVER windows else KEX_CLIENT windows);
          pick = (\<lambda>v i. strdup lc (case v of None \<Rightarrow> defprop ! i | Some s \<Rightarrow> s))
      in case kex_names_cat lc (Some (case kexalgos of None \<Rightarrow> defprop ! PROPOSAL_KEX_ALGS | Some k \<Rightarrow> k))
                (Some (kex_signals server)) of
           None \<Rightarrow> None
         | Some cp \<Rightarrow>
             those (map (\<lambda>i.
               if i = PROPOSAL_KEX_ALGS then compat_kex_proposal lc flags cp
               else if i = PROPOSAL_ENC_ALGS_CTOS \<or> i = PROPOSAL_ENC_ALGS_STOC then pick ciphers' i
               else if i = PROPOSAL_MAC_ALGS_CTOS \<or> i = PROPOSAL_MAC_ALGS_STOC then pick macs' i
               else if i = PROPOSAL_COMP_ALGS_CTOS \<or> i = PROPOSAL_COMP_ALGS_STOC then pick comp' i
               else if i = PROPOSAL_SERVER_HOST_KEY_ALGS then pick hkalgs i
               else pick None i) [0..<PROPOSAL_MAX]))"

definition kex_prop2buf :: "libc \<Rightarrow> proposal \<Rightarrow> (sshbuf, unit) op" where
  "kex_prop2buf lc proposal =
     bind_op (modify_op (sshbuf_reset lc)) (\<lambda>_.
     bind_op (seq_op (\<lambda>_. sshbuf_put_u8 lc 0) [0..<KEX_COOKIE_LEN]) (\<lambda>_.
     bind_op (seq_op (\<lambda>i. sshbuf_put_cstring lc (Some (bytes_of (proposal ! i)))) [0..<PROPOSAL_MAX]) (\<lambda>_.
     bind_op (sshbuf_put_u8 lc 0) (\<lambda>_.
     sshbuf_put_u32 lc 0))))"

text \<open>
  \<^verbatim>\<open>kex_buf2prop\<close> reads a read-only view of the buffer (\<^verbatim>\<open>sshbuf_fromb\<close>), which is dropped at
  the end; the result is the byte \<^verbatim>\<open>first_kex_follows\<close> and the proposal.
\<close>

definition kex_buf2prop :: "libc \<Rightarrow> sshbuf \<Rightarrow> ssherr + byte \<times> proposal" where
  "kex_buf2prop lc raw =
     (if malloc lc (PROPOSAL_MAX * 8) = None then Inl SSH_ERR_ALLOC_FAIL
      else if sshbuf_insane raw then Inl SSH_ERR_ALLOC_FAIL
      else (case sshbuf_from lc (sshbuf_ptr raw) (mem_read 0 (sshbuf_len raw) raw) of
         None \<Rightarrow> Inl SSH_ERR_ALLOC_FAIL
       | Some b \<Rightarrow> fst (
           bind_op (sshbuf_consume KEX_COOKIE_LEN) (\<lambda>_.
           bind_op (map_op (\<lambda>_. sshbuf_get_cstring lc) [0..<PROPOSAL_MAX]) (\<lambda>ps.
           bind_op sshbuf_get_u8 (\<lambda>v.
           bind_op sshbuf_get_u32 (\<lambda>_.
           ret (v, map cstr ps))))) b)))"


section \<open>Decoding inverts encoding\<close>

lemma unat_byte_of: "unat (byte_of_char c) = of_char c"
proof -
  have "of_char c < (256 :: nat)" by (rule nat_of_char_less_256)
  then show ?thesis by (simp add: byte_of_char_def unat_of_nat)
qed

lemma char_of_byte_of [simp]: "char_of_byte (byte_of_char c) = c"
  by (simp add: char_of_byte_def unat_byte_of)

lemma byte_of_0: "byte_of_char c = 0 \<longleftrightarrow> c = CHR 0x00"
proof
  assume "byte_of_char c = 0"
  then have "of_char c = (of_char (CHR 0x00) :: nat)" using unat_byte_of[of c] by simp
  then show "c = CHR 0x00" by (simp only: of_char_eq_iff)
qed (simp add: byte_of_char_def)

lemma bytes_of_nul: "CHR 0x00 \<notin> set s \<Longrightarrow> 0 \<notin> set (bytes_of s)"
  by (auto simp: bytes_of_def byte_of_0 dest: sym[of 0])

lemma cstr_bytes_of: "CHR 0x00 \<notin> set s \<Longrightarrow> cstr (bytes_of s) = s"
proof -
  assume "CHR 0x00 \<notin> set s"
  then have "takeWhile (\<lambda>b. b \<noteq> 0) (bytes_of s) = bytes_of s"
    using bytes_of_nul by (auto simp: takeWhile_eq_all_conv)
  then have "cstr (bytes_of s) = map char_of_byte (bytes_of s)" unfolding cstr_def by (rule arg_cong)
  then show ?thesis by (simp add: bytes_of_def comp_def)
qed

text \<open>The bytes of an encoded proposal after the cookie.\<close>

definition enc_proposal :: "proposal \<Rightarrow> byte list" where
  "enc_proposal ps = concat (map (enc_string \<circ> bytes_of) ps) @ [0] @ POKE_U32 0"

lemma nth_upt_list: "length xs = n \<Longrightarrow> map (\<lambda>i. f (xs ! i)) [0..<n] = map f xs"
  by (rule nth_equalityI) auto

lemma writes_proposal:
  assumes mem: "\<And>n. malloc lc n \<noteq> None" and len: "length ps = PROPOSAL_MAX"
    and nul: "\<And>p. p \<in> set ps \<Longrightarrow> CHR 0x00 \<notin> set p"
  shows "writes (bind_op (seq_op (\<lambda>_. sshbuf_put_u8 lc 0) [0..<KEX_COOKIE_LEN]) (\<lambda>_.
     bind_op (seq_op (\<lambda>i. sshbuf_put_cstring lc (Some (bytes_of (ps ! i)))) [0..<PROPOSAL_MAX]) (\<lambda>_.
     bind_op (sshbuf_put_u8 lc 0) (\<lambda>_. sshbuf_put_u32 lc 0)))) (replicate 16 0 @ enc_proposal ps)"
proof -
  have cookie: "writes (seq_op (\<lambda>_. sshbuf_put_u8 lc 0) [0..<KEX_COOKIE_LEN]) (replicate 16 0)"
    using writes_seq_op[of "[0..<KEX_COOKIE_LEN]" "\<lambda>_. sshbuf_put_u8 lc 0" "\<lambda>_. [0]"]
      writes_ints(1)[OF mem] by (simp add: KEX_COOKIE_LEN_def upt_rec numeral_eq_Suc)
  have "writes (sshbuf_put_cstring lc (Some (bytes_of (ps ! i)))) (enc_string (bytes_of (ps ! i)))"
    if "i \<in> set [0..<PROPOSAL_MAX]" for i
    using that len nul by (intro writes_cstring mem bytes_of_nul) auto
  then have strings: "writes (seq_op (\<lambda>i. sshbuf_put_cstring lc (Some (bytes_of (ps ! i)))) [0..<PROPOSAL_MAX])
      (concat (map (enc_string \<circ> bytes_of) ps))"
    using writes_seq_op[of "[0..<PROPOSAL_MAX]" "\<lambda>i. sshbuf_put_cstring lc (Some (bytes_of (ps ! i)))"
        "\<lambda>i. (enc_string \<circ> bytes_of) (ps ! i)"] nth_upt_list[OF len, of "enc_string \<circ> bytes_of"]
    by simp
  show ?thesis
    unfolding enc_proposal_def
    by (intro writes_bind cookie strings writes_ints[OF mem])
qed

lemma reads_proposal:
  assumes mem: "\<And>n. malloc lc n \<noteq> None" and len: "length ps = PROPOSAL_MAX"
    and nul: "\<And>p. p \<in> set ps \<Longrightarrow> CHR 0x00 \<notin> set p"
    and size: "\<And>p. p \<in> set ps \<Longrightarrow> length p \<le> SSHBUF_SIZE_MAX - 4"
    and cookie: "length cookie = KEX_COOKIE_LEN"
  shows "reads (bind_op (sshbuf_consume KEX_COOKIE_LEN) (\<lambda>_.
           bind_op (map_op (\<lambda>_. sshbuf_get_cstring lc) [0..<PROPOSAL_MAX]) (\<lambda>ps.
           bind_op sshbuf_get_u8 (\<lambda>v. bind_op sshbuf_get_u32 (\<lambda>_. ret (v, map cstr ps))))))
         (cookie @ enc_proposal ps) (0, ps)"
proof -
  have strings: "reads (map_op (\<lambda>_. sshbuf_get_cstring lc) [0..<PROPOSAL_MAX])
      (concat (map enc_string (map bytes_of ps))) (map bytes_of ps)"
  proof (intro reads_map_op reads_cstring mem)
    fix i assume "i < length [0..<PROPOSAL_MAX]"
    then have i: "i < length ps" by (simp add: len)
    show "length (map bytes_of ps ! i) \<le> SSHBUF_SIZE_MAX - 4"
      using size[of "ps ! i"] i by (simp add: bytes_of_def)
    show "0 \<notin> set (map bytes_of ps ! i)" using bytes_of_nul[OF nul[of "ps ! i"]] i by simp
  qed (simp add: len)
  have cs: "map cstr (map bytes_of ps) = ps"
    using nul by (simp add: map_idI cstr_bytes_of)
  have tail: "reads (bind_op sshbuf_get_u8 (\<lambda>v. bind_op sshbuf_get_u32 (\<lambda>_.
      ret (v, map cstr (map bytes_of ps))))) ([0] @ POKE_U32 0) (0, ps)"
    unfolding cs by (intro reads_bind[OF reads_ints(1)] reads_bind_ret[OF reads_ints(2)] refl)
  have "reads (bind_op (map_op (\<lambda>_. sshbuf_get_cstring lc) [0..<PROPOSAL_MAX]) (\<lambda>ps.
      bind_op sshbuf_get_u8 (\<lambda>v. bind_op sshbuf_get_u32 (\<lambda>_. ret (v, map cstr ps)))))
    (enc_proposal ps) (0, ps)"
    unfolding enc_proposal_def map_map[symmetric] by (rule reads_bind[OF strings]) (rule tail)
  then show ?thesis
    by (rule reads_bind[OF reads_consume[of cookie, unfolded cookie]])
qed

lemma view_of_buffer:
  assumes wf: "wf_sshbuf raw" and mem: "\<And>n. malloc lc n \<noteq> None"
  obtains v where "sshbuf_from lc (sshbuf_ptr raw) (mem_read 0 (sshbuf_len raw) raw) = Some v"
    and "wf_sshbuf v" and "contents v = contents raw"
proof -
  obtain v where "sshbuf_from lc (sshbuf_ptr raw) (contents raw) = Some v"
    using wf_ptr[OF wf] contents_SIZE_MAX[OF wf] mem[of sizeof_sshbuf]
    by (auto simp: sshbuf_from_def Let_def simp del: length_contents)
  then show ?thesis using that sshbuf_from_wf[of lc _ _ v] unfolding buffer_bytes[OF wf] by blast
qed

lemma kex_buf2prop_enc:
  assumes mem: "\<And>n. malloc lc n \<noteq> None" and ps: "length ps = PROPOSAL_MAX" "\<And>p. p \<in> set ps \<Longrightarrow> CHR 0x00 \<notin> set p"
    and size: "\<And>p. p \<in> set ps \<Longrightarrow> length p \<le> SSHBUF_SIZE_MAX - 4"
    and cookie: "length cookie = KEX_COOKIE_LEN"
    and raw: "wf_sshbuf raw" "contents raw = cookie @ enc_proposal ps"
  shows "kex_buf2prop lc raw = Inr (0, ps)"
proof -
  obtain v where v: "sshbuf_from lc (sshbuf_ptr raw) (mem_read 0 (sshbuf_len raw) raw) = Some v"
      "wf_sshbuf v" "contents v = (cookie @ enc_proposal ps) @ []"
    using view_of_buffer[OF raw(1) mem] raw(2) by (metis append_Nil2)
  show ?thesis
  proof (rule readsE[OF reads_proposal[OF mem ps size cookie] v(2,3)])
    fix t assume run: "bind_op (sshbuf_consume KEX_COOKIE_LEN) (\<lambda>_.
      bind_op (map_op (\<lambda>_. sshbuf_get_cstring lc) [0..<PROPOSAL_MAX]) (\<lambda>ps.
      bind_op sshbuf_get_u8 (\<lambda>v. bind_op sshbuf_get_u32 (\<lambda>_. ret (v, map cstr ps))))) v =
      (Inr (0, ps), t)"
    show ?thesis
      using mem[of "PROPOSAL_MAX * 8"] wf_sshbufD(1)[OF raw(1)] by (simp add: kex_buf2prop_def v(1) run)
  qed
qed

text \<open>
  C33. A proposal of ten lists that fits the buffer is encoded by \<^verbatim>\<open>kex_prop2buf\<close>, and every
  buffer that holds the encoding, with whatever cookie in front, is decoded by
  \<^verbatim>\<open>kex_buf2prop\<close> to the same proposal with \<^verbatim>\<open>first_kex_follows\<close> zero.
\<close>

theorem kex_proposal_roundtrip:
  assumes mem: "\<And>n. malloc lc n \<noteq> None"
    and b: "wf_sshbuf b" "writable b" "SSHBUF_SIZE_INIT \<le> b_max_size b"
    and ps: "length ps = PROPOSAL_MAX" "\<And>p. p \<in> set ps \<Longrightarrow> CHR 0x00 \<notin> set p"
    and room: "16 + length (enc_proposal ps) \<le> b_max_size b"
    and cookie: "length cookie = KEX_COOKIE_LEN"
  shows "\<exists>b'. kex_prop2buf lc ps b = (Inr (), b') \<and> wf_sshbuf b' \<and> writable b' \<and>
     contents b' = replicate KEX_COOKIE_LEN 0 @ enc_proposal ps \<and>
     (\<forall>raw. wf_sshbuf raw \<longrightarrow> contents raw = cookie @ drop KEX_COOKIE_LEN (contents b') \<longrightarrow>
        kex_buf2prop lc raw = Inr (0, ps))"
proof -
  define c where "c = sshbuf_reset lc b"
  have c: "wf_sshbuf c" "contents c = []" "b_max_size c = b_max_size b" "writable c"
    using reset_wf[OF b(1), of lc] reset_limits[of b lc] b
    by (auto simp: c_def reset_safe_def same_limits_def writable_def)
  have fit: "length (contents c) + length (replicate 16 (0 :: byte) @ enc_proposal ps) \<le> b_max_size c"
    using room unfolding c by simp
  obtain b' where run: "kex_prop2buf lc ps b = (Inr (), b')" and b': "wf_sshbuf b'" "writable b'"
      "contents b' = replicate KEX_COOKIE_LEN 0 @ enc_proposal ps"
  proof (rule writesE[OF writes_proposal[OF mem ps] c(1,4) fit])
  qed (auto simp: c(2) c_def[symmetric] kex_prop2buf_def op_simps KEX_COOKIE_LEN_def[symmetric] intro: that)
  have size: "length p \<le> SSHBUF_SIZE_MAX - 4" if "p \<in> set ps" for p
  proof -
    have "4 + length p \<le> length (enc_proposal ps)"
      using that member_le_sum_list[of "4 + length p" "map (\<lambda>p. 4 + length p) ps"]
      by (simp add: enc_proposal_def length_concat bytes_of_def comp_def)
    then show ?thesis using room wf_sshbufD(6)[OF b(1)] by simp
  qed
  show ?thesis
  proof (intro exI conjI allI impI)
    fix raw assume raw: "wf_sshbuf raw" "contents raw = cookie @ drop KEX_COOKIE_LEN (contents b')"
    then have cont: "contents raw = cookie @ enc_proposal ps"
      unfolding b'(3) by simp
    show "kex_buf2prop lc raw = Inr (0, ps)"
      by (rule kex_buf2prop_enc[OF mem ps size cookie raw(1) cont])
  qed (rule run b')+
qed

text \<open>A small proposal in a new buffer.\<close>

theorem kex_proposal_roundtrip_witness:
  "let ps = replicate 9 ''none'' @ [''a,b'']
   in \<exists>b'. kex_prop2buf lc_ok ps buf0 = (Inr (), b') \<and>
        (\<exists>raw. sshbuf_poke 0 (replicate 16 7) b' = (Inr (), raw) \<and> kex_buf2prop lc_ok raw = Inr (0, ps))"
proof -
  define ps where "ps = replicate 9 ''none'' @ [''a,b'']"
  have ps: "length ps = PROPOSAL_MAX" "\<And>p. p \<in> set ps \<Longrightarrow> CHR 0x00 \<notin> set p"
    by (auto simp: ps_def PROPOSAL_MAX_def)
  have max: "b_max_size buf0 = SSHBUF_SIZE_MAX" by (simp add: buf0_def)
  have len: "length (enc_proposal ps) = 84"
    by (simp add: ps_def enc_proposal_def bytes_of_def numeral_eq_Suc)
  have "SSHBUF_SIZE_INIT \<le> b_max_size buf0" "16 + length (enc_proposal ps) \<le> b_max_size buf0"
    unfolding max len by (simp_all add: SSHBUF_SIZE_INIT_def SSHBUF_SIZE_MAX_def)
  moreover have "length (replicate 16 (7 :: byte)) = KEX_COOKIE_LEN" by (simp add: KEX_COOKIE_LEN_def)
  ultimately obtain b' where b': "kex_prop2buf lc_ok ps buf0 = (Inr (), b')" "wf_sshbuf b'" "writable b'"
      "contents b' = replicate KEX_COOKIE_LEN 0 @ enc_proposal ps"
    and rt: "\<forall>raw. wf_sshbuf raw \<longrightarrow> contents raw = replicate 16 7 @ drop KEX_COOKIE_LEN (contents b') \<longrightarrow>
        kex_buf2prop lc_ok raw = Inr (0, ps)"
    using kex_proposal_roundtrip[OF lc_ok_malloc buf0_wf(1,2) _ ps] by blast
  have "\<exists>raw. sshbuf_poke 0 (replicate 16 7) b' = (Inr (), raw) \<and> wf_sshbuf raw \<and>
      contents raw = replicate 16 7 @ drop KEX_COOKIE_LEN (contents b')"
    using poke_spec[OF b'(2) _ b'(3), of 0 "replicate 16 7"] unfolding b'(4)
    by (simp add: KEX_COOKIE_LEN_def)
  then show ?thesis using b'(1) rt unfolding Let_def ps_def[symmetric] by blast
qed

end
