(* ===== verification/Mac.thy ===== *)
theory Mac
  imports KexNames Compat SshbufGetput
begin

text \<open>
  Message authentication codes of packets, \<^verbatim>\<open>mac.c\<close>: the table of algorithms, setting up,
  keying, computing and checking a MAC. The digest MACs run on the HMAC code of \<open>Digest\<close>; the
  functions of \<^verbatim>\<open>umac.c\<close> are a parameter with opaque contexts.
\<close>

record umac_lib =
  umac_new :: "byte list \<Rightarrow> opaque option"
  umac_update :: "opaque \<Rightarrow> byte list \<Rightarrow> opaque"
  umac_final :: "opaque \<Rightarrow> byte list \<Rightarrow> byte list \<times> opaque"
  umac128_new :: "byte list \<Rightarrow> opaque option"
  umac128_update :: "opaque \<Rightarrow> byte list \<Rightarrow> opaque"
  umac128_final :: "opaque \<Rightarrow> byte list \<Rightarrow> byte list \<times> opaque"

definition SSH_DIGEST :: int where "SSH_DIGEST = 1"
definition SSH_UMAC :: int where "SSH_UMAC = 2"
definition SSH_UMAC128 :: int where "SSH_UMAC128 = 3"

lemmas mac_types = SSH_DIGEST_def SSH_UMAC_def SSH_UMAC128_def

record macalg =
  ma_name :: string
  ma_type :: int
  ma_alg :: int
  truncatebits :: nat
  ma_key_len :: nat
  ma_len :: nat
  ma_etm :: bool

definition hmac_alg :: "string \<Rightarrow> int \<Rightarrow> nat \<Rightarrow> bool \<Rightarrow> macalg" where
  "hmac_alg name alg bits e =
     \<lparr>ma_name = name, ma_type = SSH_DIGEST, ma_alg = alg, truncatebits = bits,
      ma_key_len = 0, ma_len = 0, ma_etm = e\<rparr>"

definition umac_alg :: "string \<Rightarrow> int \<Rightarrow> nat \<Rightarrow> bool \<Rightarrow> macalg" where
  "umac_alg name ty len e =
     \<lparr>ma_name = name, ma_type = ty, ma_alg = 0, truncatebits = 0,
      ma_key_len = 128, ma_len = len, ma_etm = e\<rparr>"

definition macs :: "macalg list" where
  "macs =
    [hmac_alg ''hmac-sha1'' SSH_DIGEST_SHA1 0 False,
     hmac_alg ''hmac-sha1-96'' SSH_DIGEST_SHA1 96 False,
     hmac_alg ''hmac-sha2-256'' SSH_DIGEST_SHA256 0 False,
     hmac_alg ''hmac-sha2-512'' SSH_DIGEST_SHA512 0 False,
     hmac_alg ''hmac-md5'' SSH_DIGEST_MD5 0 False,
     hmac_alg ''hmac-md5-96'' SSH_DIGEST_MD5 96 False,
     umac_alg ''umac-64@openssh.com'' SSH_UMAC 64 False,
     umac_alg ''umac-128@openssh.com'' SSH_UMAC128 128 False,
     hmac_alg ''hmac-sha1-etm@openssh.com'' SSH_DIGEST_SHA1 0 True,
     hmac_alg ''hmac-sha1-96-etm@openssh.com'' SSH_DIGEST_SHA1 96 True,
     hmac_alg ''hmac-sha2-256-etm@openssh.com'' SSH_DIGEST_SHA256 0 True,
     hmac_alg ''hmac-sha2-512-etm@openssh.com'' SSH_DIGEST_SHA512 0 True,
     hmac_alg ''hmac-md5-etm@openssh.com'' SSH_DIGEST_MD5 0 True,
     hmac_alg ''hmac-md5-96-etm@openssh.com'' SSH_DIGEST_MD5 96 True,
     umac_alg ''umac-64-etm@openssh.com'' SSH_UMAC 64 True,
     umac_alg ''umac-128-etm@openssh.com'' SSH_UMAC128 128 True]"

record sshmac =
  m_name :: "string option"
  m_enabled :: bool
  mac_len :: nat
  m_key :: "byte list option"
  m_key_len :: nat
  m_type :: int
  etm :: bool
  hmac_ctx :: "ssh_hmac_ctx option"
  umac_ctx :: "opaque option"

definition mac_alg_list :: "char \<Rightarrow> string" where
  "mac_alg_list sep = join sep (map ma_name macs)"

definition mac_setup_by_alg :: "libc \<Rightarrow> evp_md \<Rightarrow> macalg \<Rightarrow> (sshmac, unit) op" where
  "mac_setup_by_alg lc e a =
     bind_op (modify_op (\<lambda>m. m\<lparr>m_type := ma_type a\<rparr>)) (\<lambda>_.
     bind_op
       (if ma_type a = SSH_DIGEST then
          (\<lambda>m. case ssh_hmac_start lc e (ma_alg a) of
             None \<Rightarrow> err SSH_ERR_ALLOC_FAIL (m\<lparr>hmac_ctx := None\<rparr>)
           | Some c \<Rightarrow> ret () (m\<lparr>hmac_ctx := Some c, mac_len := ssh_hmac_bytes (ma_alg a),
                               m_key_len := ssh_hmac_bytes (ma_alg a)\<rparr>))
        else modify_op (\<lambda>m. m\<lparr>mac_len := ma_len a div 8, m_key_len := ma_key_len a div 8,
                              umac_ctx := None\<rparr>)) (\<lambda>_.
     modify_op (\<lambda>m. (if truncatebits a \<noteq> 0 then m\<lparr>mac_len := truncatebits a div 8\<rparr> else m)
                       \<lparr>etm := ma_etm a\<rparr>)))"

definition mac_alg_by_name :: "string \<Rightarrow> macalg option" where
  "mac_alg_by_name name = find (\<lambda>a. ma_name a = name) macs"

definition mac_setup :: "libc \<Rightarrow> evp_md \<Rightarrow> string \<Rightarrow> (sshmac, unit) op" where
  "mac_setup lc e name =
     (case mac_alg_by_name name of
        None \<Rightarrow> err SSH_ERR_INVALID_ARGUMENT
      | Some a \<Rightarrow> mac_setup_by_alg lc e a)"

text \<open>\<^verbatim>\<open>mac_setup\<close> without an object only looks the name up.\<close>

definition mac_setup_null :: "string \<Rightarrow> bool" where
  "mac_setup_null name \<longleftrightarrow> mac_alg_by_name name \<noteq> None"

text \<open>The digest context of a MAC, used by a call whose failure becomes the given error.\<close>

definition on_hmac :: "ssherr \<Rightarrow> (ssh_hmac_ctx, 'a) op \<Rightarrow> ssh_hmac_ctx \<Rightarrow> (sshmac, 'a) op" where
  "on_hmac er f c m =
     (case f c of
        (Inl _, c') \<Rightarrow> (Inl er, m\<lparr>hmac_ctx := Some c'\<rparr>)
      | (Inr x, c') \<Rightarrow> (Inr x, m\<lparr>hmac_ctx := Some c'\<rparr>))"

definition mac_init :: "evp_md \<Rightarrow> umac_lib \<Rightarrow> (sshmac, unit) op" where
  "mac_init e um m =
     (case m_key m of
        None \<Rightarrow> err SSH_ERR_INVALID_ARGUMENT m
      | Some key \<Rightarrow>
          if m_type m = SSH_DIGEST then
            (case hmac_ctx m of
               None \<Rightarrow> err SSH_ERR_INVALID_ARGUMENT m
             | Some c \<Rightarrow> on_hmac SSH_ERR_INVALID_ARGUMENT
                           (ssh_hmac_init e (Some (take (m_key_len m) key))) c m)
          else if m_type m = SSH_UMAC then
            (case umac_new um key of
               None \<Rightarrow> err SSH_ERR_ALLOC_FAIL (m\<lparr>umac_ctx := None\<rparr>)
             | Some c \<Rightarrow> ret () (m\<lparr>umac_ctx := Some c\<rparr>))
          else if m_type m = SSH_UMAC128 then
            (case umac128_new um key of
               None \<Rightarrow> err SSH_ERR_ALLOC_FAIL (m\<lparr>umac_ctx := None\<rparr>)
             | Some c \<Rightarrow> ret () (m\<lparr>umac_ctx := Some c\<rparr>))
          else err SSH_ERR_INVALID_ARGUMENT m)"

text \<open>\<^verbatim>\<open>put_u32\<close> and \<^verbatim>\<open>put_u64\<close> of \<^verbatim>\<open>misc.c\<close>.\<close>

definition put_u32 :: "32 word \<Rightarrow> byte list" where
  "put_u32 v = [ucast (drop_bit 24 v), ucast (drop_bit 16 v), ucast (drop_bit 8 v), ucast v]"

definition put_u64 :: "64 word \<Rightarrow> byte list" where
  "put_u64 v = map (\<lambda>n. ucast (drop_bit n v)) [56, 48, 40, 32, 24, 16, 8, 0]"

text \<open>
  The code of \<^verbatim>\<open>mac_compute\<close> that fills the static block \<^verbatim>\<open>u.m\<close>; \<open>u\<close> is what an earlier call
  left there. The contexts are read without a test for \<^verbatim>\<open>NULL\<close>.
\<close>

definition mac_fill ::
  "evp_md \<Rightarrow> umac_lib \<Rightarrow> byte list \<Rightarrow> 32 word \<Rightarrow> byte list \<Rightarrow> (sshmac, byte list) op" where
  "mac_fill e um u seqno data m =
     (if m_type m = SSH_DIGEST then
        bind_op (on_hmac SSH_ERR_LIBCRYPTO_ERROR
          (bind_op (ssh_hmac_init e None) (\<lambda>_.
           bind_op (ssh_hmac_update e (put_u32 seqno)) (\<lambda>_.
           bind_op (ssh_hmac_update e data) (\<lambda>_.
           ssh_hmac_final e SSH_DIGEST_MAX_LENGTH)))) (the (hmac_ctx m)))
          (\<lambda>out. ret (overwrite out u)) m
      else if m_type m = SSH_UMAC then
        (let (out, c) = umac_final um (umac_update um (the (umac_ctx m)) data) (POKE_U64 (ucast seqno))
         in (Inr (overwrite out u), m\<lparr>umac_ctx := Some c\<rparr>))
      else if m_type m = SSH_UMAC128 then
        (let (out, c) = umac128_final um (umac128_update um (the (umac_ctx m)) data) (put_u64 (ucast seqno))
         in (Inr (overwrite out u), m\<lparr>umac_ctx := Some c\<rparr>))
      else err SSH_ERR_INVALID_ARGUMENT m)"

text \<open>
  \<^verbatim>\<open>mac_compute\<close>; \<open>dlen\<close> is \<^const>\<open>None\<close> when \<^verbatim>\<open>digest\<close> is \<^verbatim>\<open>NULL\<close>, and the result is what is
  copied to \<^verbatim>\<open>digest\<close>.
\<close>

definition mac_compute ::
  "evp_md \<Rightarrow> umac_lib \<Rightarrow> byte list \<Rightarrow> 32 word \<Rightarrow> byte list \<Rightarrow> nat option \<Rightarrow> (sshmac, byte list) op" where
  "mac_compute e um u seqno data dlen m =
     (if mac_len m > SSH_DIGEST_MAX_LENGTH then err SSH_ERR_INTERNAL_ERROR m
      else bind_op (mac_fill e um u seqno data) (\<lambda>um m.
             ret (case dlen of None \<Rightarrow> [] | Some n \<Rightarrow> take (min n (mac_len m)) um) m) m)"

definition mac_check ::
  "evp_md \<Rightarrow> umac_lib \<Rightarrow> byte list \<Rightarrow> 32 word \<Rightarrow> byte list \<Rightarrow> byte list \<Rightarrow> (sshmac, unit) op" where
  "mac_check e um u seqno data theirmac m =
     (if mac_len m > length theirmac then err SSH_ERR_INVALID_ARGUMENT m
      else bind_op (mac_compute e um u seqno data (Some SSH_DIGEST_MAX_LENGTH)) (\<lambda>ourmac m.
             if timingsafe_bcmp ourmac theirmac (mac_len m) \<noteq> 0 then err SSH_ERR_MAC_INVALID m
             else ret () m) m)"

definition mac_clear :: "sshmac \<Rightarrow> sshmac" where
  "mac_clear m = m\<lparr>hmac_ctx := None, umac_ctx := None\<rparr>"

function mac_valid_loop :: "bool \<Rightarrow> string option \<Rightarrow> bool" where
  "mac_valid_loop found cp =
     (case strsep (CHR '','') cp of
        (None, _) \<Rightarrow> found
      | (Some p, cp') \<Rightarrow>
          if p = [] then found
          else if \<not> mac_setup_null p then False
          else mac_valid_loop True cp')"
  by pat_completeness auto
termination
  by (relation "measure (str_size \<circ> snd)") (auto dest: strsep_decreases)

declare mac_valid_loop.simps [simp del]

definition mac_valid :: "libc \<Rightarrow> string option \<Rightarrow> bool" where
  "mac_valid lc names' =
     (case names' of
        None \<Rightarrow> False
      | Some s \<Rightarrow> s \<noteq> [] \<and> strdup lc s \<noteq> None \<and> mac_valid_loop False (Some s))"


section \<open>The digest MACs are HMACs of the sequence number and the data\<close>

lemma macs_distinct: "distinct (map ma_name macs)"
  by code_simp

lemma macs_by_name: "a \<in> set macs \<Longrightarrow> mac_alg_by_name (ma_name a) = Some a"
  unfolding mac_alg_by_name_def by (rule find_distinct[OF macs_distinct])

lemma macs_digest_lengths:
  "list_all (\<lambda>a. ma_type a = SSH_DIGEST \<longrightarrow>
     (case ssh_digest_by_alg (ma_alg a) of
        None \<Rightarrow> False
      | Some d \<Rightarrow> truncatebits a div 8 \<le> digest_len d \<and> digest_len d \<le> SSH_DIGEST_MAX_LENGTH)) macs"
  by code_simp

lemma macs_digest:
  assumes "a \<in> set macs" and "ma_type a = SSH_DIGEST"
  obtains d where "ssh_digest_by_alg (ma_alg a) = Some d" and "truncatebits a div 8 \<le> digest_len d"
    and "digest_len d \<le> SSH_DIGEST_MAX_LENGTH"
  using assms macs_digest_lengths that by (fastforce simp: list_all_iff split: option.splits)

text \<open>The number of bytes of a tag.\<close>

definition tag_len :: "macalg \<Rightarrow> nat" where
  "tag_len a = (if truncatebits a \<noteq> 0 then truncatebits a div 8 else ssh_digest_bytes (ma_alg a))"

text \<open>A digest MAC that is set up and loaded with a key.\<close>

definition mac_ready :: "(string \<Rightarrow> byte list \<Rightarrow> byte list) \<Rightarrow> (string \<Rightarrow> nat) \<Rightarrow>
  (opaque \<Rightarrow> string \<times> byte list) \<Rightarrow> ssh_digest \<Rightarrow> byte list \<Rightarrow> nat \<Rightarrow> sshmac \<Rightarrow> bool" where
  "mac_ready H B fed d k len m \<longleftrightarrow>
     m_type m = SSH_DIGEST \<and> mac_len m = len \<and>
     (\<exists>c. hmac_ctx m = Some c \<and> hmac_keyed H B fed d k c)"

lemma mac_setup_init_ready:
  assumes spec: "evp_md_spec e H B fed" and mem: "\<And>n. malloc lc n \<noteq> None"
    and a: "a \<in> set macs" "ma_type a = SSH_DIGEST" and d: "ssh_digest_by_alg (ma_alg a) = Some d"
    and k: "length k = ssh_digest_bytes (ma_alg a)"
  shows "mac_ready H B fed d k (tag_len a)
    (snd (mac_init e um (snd (mac_setup lc e (ma_name a) m0)\<lparr>m_key := Some k\<rparr>)))"
proof -
  obtain c where c: "ssh_hmac_start lc e (ma_alg a) = Some c" "hmac_fresh B fed d c"
    using ssh_hmac_start_fresh[OF spec mem d] by blast
  obtain c' where "ssh_hmac_init e (Some k) c = (Inr (), c')" "hmac_keyed H B fed d k c'"
    using ssh_hmac_init_key[OF spec c(2)] by blast
  then show ?thesis
    using c(1) a(2) k
    by (simp add: mac_setup_def macs_by_name[OF a(1)] mac_setup_by_alg_def bind_op_def modify_op_def
      op_simps mac_init_def on_hmac_def mac_ready_def tag_len_def ssh_hmac_bytes_def)
qed

lemma mac_compute_ready:
  assumes spec: "evp_md_spec e H B fed" and ready: "mac_ready H B fed d k len m"
    and d: "digest_len d \<le> SSH_DIGEST_MAX_LENGTH" "len \<le> digest_len d"
  obtains m' where "mac_compute e um u seqno data dlen m =
      (Inr (case dlen of None \<Rightarrow> []
         | Some n \<Rightarrow> take (min n len) (hmac (H (sd_name d)) (B (sd_name d)) k (put_u32 seqno @ data))), m')"
    and "mac_ready H B fed d k len m'"
proof -
  obtain c where c: "hmac_ctx m = Some c" "hmac_keyed H B fed d k c"
    using ready by (auto simp: mac_ready_def)
  have sz: "SSH_DIGEST_MAX_LENGTH \<le> UINT_MAX" by (simp add: SSH_DIGEST_MAX_LENGTH_def UINT_MAX_def)
  obtain c' where c': "bind_op (ssh_hmac_init e None) (\<lambda>_. bind_op (ssh_hmac_update e (put_u32 seqno)) (\<lambda>_.
       bind_op (ssh_hmac_update e data) (\<lambda>_. ssh_hmac_final e SSH_DIGEST_MAX_LENGTH))) c =
     (Inr (hmac (H (sd_name d)) (B (sd_name d)) k (put_u32 seqno @ data)), c')"
    "hmac_keyed H B fed d k c'"
    using ssh_hmac_message[OF spec c(2) d(1) sz] by blast
  have "ssh_digest_by_alg (hc_alg c) = Some d"
    using c(2) by (auto simp: hmac_keyed_def hmac_ctx_ok_def Let_def)
  then have "length (hmac (H (sd_name d)) (B (sd_name d)) k (put_u32 seqno @ data)) = digest_len d"
    by (simp add: hmac_def evp_md_spec_sizes[OF spec])
  then show ?thesis
    using ready d that c'
    by (simp add: mac_compute_def mac_fill_def bind_op_def c(1) on_hmac_def op_simps mac_ready_def
      overwrite_def split: option.splits)
qed

lemma mac_computes_ready:
  assumes spec: "evp_md_spec e H B fed" and ready: "mac_ready H B fed d k len m"
    and d: "digest_len d \<le> SSH_DIGEST_MAX_LENGTH" "len \<le> digest_len d"
  shows "mac_ready H B fed d k len
    (fold (\<lambda>(u, s, data, n) m. snd (mac_compute e um u s data n m)) earlier m)"
  using ready
proof (induction earlier arbitrary: m)
  case (Cons x xs)
  obtain u s data n where x: "x = (u, s, data, n)" by (cases x)
  obtain m' where "snd (mac_compute e um u s data n m) = m'" "mac_ready H B fed d k len m'"
    using mac_compute_ready[OF spec Cons.prems d, of um u s data n] by (metis snd_conv)
  then show ?case using Cons.IH x by simp
qed simp

text \<open>
  C31. A digest MAC of the table, set up and loaded with a key, computes the HMAC of RFC 2104
  over the packet's sequence number followed by the data, cut to the algorithm's tag length,
  whatever it was used for before and whatever its static buffer holds. A check accepts
  exactly the tags that begin with it. The digests of libcrypto are assumed to behave as
  documented and allocations to succeed.
\<close>

theorem mac_compute_hmac:
  assumes spec: "evp_md_spec e H B fed" and mem: "\<And>n. malloc lc n \<noteq> None"
    and a: "a \<in> set macs" "ma_type a = SSH_DIGEST"
    and k: "length k = ssh_digest_bytes (ma_alg a)"
  shows "let h = H (the (ssh_digest_alg_name (ma_alg a))); b = B (the (ssh_digest_alg_name (ma_alg a)));
      m1 = snd (mac_setup lc e (ma_name a) m0);
      m2 = snd (mac_init e um (m1\<lparr>m_key := Some k\<rparr>));
      m = fold (\<lambda>(u, s, data, n) m. snd (mac_compute e um u s data n m)) earlier m2;
      tag = take (tag_len a) (hmac h b k (put_u32 seqno @ data))
    in fst (mac_compute e um u seqno data (Some SSH_DIGEST_MAX_LENGTH) m) = Inr tag \<and>
       fst (mac_check e um u seqno data theirmac m) =
         (if length theirmac < tag_len a then Inl SSH_ERR_INVALID_ARGUMENT
          else if take (tag_len a) theirmac = tag then Inr () else Inl SSH_ERR_MAC_INVALID)"
proof -
  obtain d where d: "ssh_digest_by_alg (ma_alg a) = Some d"
    and len: "truncatebits a div 8 \<le> digest_len d" "digest_len d \<le> SSH_DIGEST_MAX_LENGTH"
    using macs_digest[OF a] by blast
  have n: "the (ssh_digest_alg_name (ma_alg a)) = sd_name d" by (simp add: ssh_digest_alg_name_def d)
  have tl: "tag_len a \<le> digest_len d" using len by (simp add: tag_len_def ssh_digest_bytes_def d)
  define m where "m = fold (\<lambda>(u, s, data, n) m. snd (mac_compute e um u s data n m)) earlier
    (snd (mac_init e um (snd (mac_setup lc e (ma_name a) m0)\<lparr>m_key := Some k\<rparr>)))"
  have ready: "mac_ready H B fed d k (tag_len a) m"
    unfolding m_def
    by (rule mac_computes_ready[OF spec mac_setup_init_ready[OF spec mem a d k] len(2) tl])
  define tag where "tag = take (tag_len a) (hmac (H (sd_name d)) (B (sd_name d)) k (put_u32 seqno @ data))"
  obtain m' where m': "mac_compute e um u seqno data (Some SSH_DIGEST_MAX_LENGTH) m = (Inr tag, m')"
    and ready': "mac_ready H B fed d k (tag_len a) m'"
    using mac_compute_ready[OF spec ready len(2) tl, of um u seqno data "Some SSH_DIGEST_MAX_LENGTH"]
      len(2) tl by (auto simp: tag_def min.absorb2)
  have "length tag = tag_len a"
    using tl by (simp add: tag_def hmac_def evp_md_spec_sizes[OF spec d])
  then have "fst (mac_check e um u seqno data theirmac m) =
      (if length theirmac < tag_len a then Inl SSH_ERR_INVALID_ARGUMENT
       else if take (tag_len a) theirmac = tag then Inr () else Inl SSH_ERR_MAC_INVALID)"
    using ready ready' m'
    by (auto simp: mac_check_def mac_ready_def bind_op_def op_simps timingsafe_bcmp_eq)
  with m' show ?thesis unfolding Let_def n m_def[symmetric] tag_def by simp
qed


text \<open>A digest library whose contexts hold the number of the digest and the bytes fed to it.\<close>

definition toy_digest :: "string \<Rightarrow> byte list \<Rightarrow> byte list" where
  "toy_digest n m =
     replicate (case find (\<lambda>d. sd_name d = n) digests of None \<Rightarrow> 0 | Some d \<Rightarrow> digest_len d)
       (fold (\<lambda>x a. 3 * a + x) m 1)"

definition toy_fed :: "opaque \<Rightarrow> string \<times> byte list" where
  "toy_fed c = (sd_name (digests ! (unat (hd c) mod 5)), tl c)"

definition toy_number :: "string \<Rightarrow> byte" where
  "toy_number n = (if n = ''MD5'' then 0 else if n = ''SHA1'' then 1 else if n = ''SHA256'' then 2
     else if n = ''SHA384'' then 3 else 4)"

definition toy_md :: evp_md where
  "toy_md =
     \<lparr>EVP_MD_CTX_new = Some [0],
      EVP_DigestInit_ex = (\<lambda>c n. Some [toy_number n]),
      EVP_MD_CTX_copy_ex = (\<lambda>to from. Some from),
      EVP_DigestUpdate = (\<lambda>c m. Some (hd c # tl c @ m)),
      EVP_DigestFinal_ex = (\<lambda>c. Some (toy_digest (fst (toy_fed c)) (snd (toy_fed c)), c)),
      EVP_MD_CTX_block_size = (\<lambda>c. 64),
      EVP_Digest = (\<lambda>m n. Some (toy_digest n m))\<rparr>"

lemma toy_md_spec: "evp_md_spec toy_md toy_digest (\<lambda>_. 64) toy_fed"
proof -
  have "d \<in> set digests \<Longrightarrow> toy_fed [toy_number (sd_name d)] = (sd_name d, [])" for d
    by (auto simp: digests_def toy_fed_def toy_number_def)
  moreover have "d \<in> set digests \<Longrightarrow> length (toy_digest (sd_name d) m) = digest_len d" for d m
    by (auto simp: digests_def toy_digest_def)
  moreover have "d \<in> set digests \<Longrightarrow> digest_len d \<le> 64" for d by (auto simp: digests_def)
  ultimately show ?thesis
    by (auto simp: evp_md_spec_def toy_md_def toy_fed_def)
qed

definition toy_umac :: umac_lib where
  "toy_umac =
     \<lparr>umac_new = Some, umac_update = (@), umac_final = (\<lambda>c n. (take 8 c, [])),
      umac128_new = Some, umac128_update = (@), umac128_final = (\<lambda>c n. (take 16 c, []))\<rparr>"

definition blank_mac :: sshmac where
  "blank_mac =
     \<lparr>m_name = None, m_enabled = False, mac_len = 0, m_key = None, m_key_len = 0, m_type = 0,
      etm = False, hmac_ctx = None, umac_ctx = None\<rparr>"

text \<open>\<open>hmac-md5-96\<close> with a key of 16 bytes, after the MAC of another packet.\<close>

theorem mac_compute_hmac_witness:
  "let m = snd (mac_compute toy_md toy_umac [] 6 [1, 2] (Some 64)
             (snd (mac_init toy_md toy_umac (snd (mac_setup lc_match toy_md ''hmac-md5-96'' blank_mac)
               \<lparr>m_key := Some (replicate 16 5)\<rparr>))))
   in fst (mac_compute toy_md toy_umac (replicate 64 9) 7 [1, 2, 3] (Some SSH_DIGEST_MAX_LENGTH) m) =
        Inr (replicate 12 161) \<and>
      fst (mac_check toy_md toy_umac [] 7 [1, 2, 3] (replicate 12 161) m) = Inr ()"
proof -
  have mem: "\<And>n. malloc lc_match n \<noteq> None" by (simp add: lc_match_def)
  define a where "a = hmac_alg ''hmac-md5-96'' SSH_DIGEST_MD5 96 False"
  have a: "a \<in> set macs" "ma_type a = SSH_DIGEST" by (simp_all add: a_def macs_def hmac_alg_def)
  have k: "length (replicate 16 (5 :: byte)) = ssh_digest_bytes (ma_alg a)" unfolding a_def by code_simp
  have tag: "take (tag_len a) (hmac (toy_digest (the (ssh_digest_alg_name (ma_alg a)))) 64
      (replicate 16 5) (put_u32 7 @ [1, 2, 3])) = replicate 12 161"
    unfolding a_def by code_simp
  have len: "tag_len a = 12" and nm: "ma_name a = ''hmac-md5-96''" unfolding a_def by code_simp+
  show ?thesis
    using mac_compute_hmac[OF toy_md_spec mem a k, of blank_mac toy_umac "[([], 6, [1, 2], Some 64)]"
        7 "[1, 2, 3]" "replicate 64 9" "replicate 12 161"]
      mac_compute_hmac[OF toy_md_spec mem a k, of blank_mac toy_umac "[([], 6, [1, 2], Some 64)]"
        7 "[1, 2, 3]" "[]" "replicate 12 161"]
    unfolding Let_def nm len tag[unfolded len] by simp
qed

end
