(* ===== verification/Kex.thy ===== *)
theory Kex
  imports Proposal Mac
begin

unbundle bit_operations_syntax

text \<open>
  The key exchange engine of \<^verbatim>\<open>kex.c\<close>, the parts that send nothing: negotiation of the
  algorithms, extension information and derivation of keys, on the records of \<^verbatim>\<open>kex.h\<close>. The
  functions of \<^verbatim>\<open>sshkey.c\<close> that look host key algorithms up are a parameter.
\<close>

section \<open>State\<close>

datatype mode = MODE_IN | MODE_OUT

definition COMP_NONE :: "32 word" where "COMP_NONE = 0"
definition COMP_DELAYED :: "32 word" where "COMP_DELAYED = 2"

record sshenc =
  enc_name :: "string option"
  enc_cipher :: "sshcipher option"
  enc_enabled :: bool
  enc_key_len :: nat
  enc_iv_len :: nat
  enc_block_size :: nat
  enc_key :: "byte list option"
  enc_iv :: "byte list option"

record sshcomp =
  comp_type :: "32 word"
  comp_enabled :: bool
  comp_name :: "string option"

record newkeys =
  nk_enc :: sshenc
  nk_mac :: sshmac
  nk_comp :: sshcomp

text \<open>The zeroed object of \<^verbatim>\<open>calloc(1, sizeof(struct newkeys))\<close>.\<close>

definition newkeys_zero :: newkeys where
  "newkeys_zero =
     \<lparr>nk_enc = \<lparr>enc_name = None, enc_cipher = None, enc_enabled = False, enc_key_len = 0,
        enc_iv_len = 0, enc_block_size = 0, enc_key = None, enc_iv = None\<rparr>,
      nk_mac = \<lparr>m_name = None, m_enabled = False, mac_len = 0, m_key = None, m_key_len = 0,
        m_type = 0, etm = False, hmac_ctx = None, umac_ctx = None\<rparr>,
      nk_comp = \<lparr>comp_type = COMP_NONE, comp_enabled = False, comp_name = None\<rparr>\<rparr>"

definition sizeof_newkeys :: nat where "sizeof_newkeys = 152"

definition KEX_INIT_SENT :: "32 word" where "KEX_INIT_SENT = 0x0001"
definition KEX_INITIAL :: "32 word" where "KEX_INITIAL = 0x0002"
definition KEX_HAS_PUBKEY_HOSTBOUND :: "32 word" where "KEX_HAS_PUBKEY_HOSTBOUND = 0x0004"
definition KEX_RSA_SHA2_256_SUPPORTED :: "32 word" where "KEX_RSA_SHA2_256_SUPPORTED = 0x0008"
definition KEX_RSA_SHA2_512_SUPPORTED :: "32 word" where "KEX_RSA_SHA2_512_SUPPORTED = 0x0010"
definition KEX_HAS_PING :: "32 word" where "KEX_HAS_PING = 0x0020"
definition KEX_HAS_EXT_INFO_IN_AUTH :: "32 word" where "KEX_HAS_EXT_INFO_IN_AUTH = 0x0040"
definition KEX_HAS_NEWAGENT :: "32 word" where "KEX_HAS_NEWAGENT = 0x0080"
definition KEX_INIT_RECVD :: "32 word" where "KEX_INIT_RECVD = 0x0100"

lemmas kex_flags =
  KEX_INIT_SENT_def KEX_INITIAL_def KEX_HAS_PUBKEY_HOSTBOUND_def KEX_RSA_SHA2_256_SUPPORTED_def
  KEX_RSA_SHA2_512_SUPPORTED_def KEX_HAS_PING_def KEX_HAS_EXT_INFO_IN_AUTH_def
  KEX_HAS_NEWAGENT_def KEX_INIT_RECVD_def

record kex =
  k_newkeys :: "mode \<Rightarrow> newkeys option"
  we_need :: nat
  dh_need :: nat
  k_server :: bool
  kx_name :: "string option"
  hostkey_alg :: "string option"
  hostkey_type :: int
  hostkey_nid :: int
  kex_type :: "32 word"
  server_sig_algs :: "string option"
  ext_info_c :: bool
  ext_info_s :: bool
  kex_strict :: bool
  ext_info_received :: int
  k_my :: sshbuf
  k_peer :: sshbuf
  client_version :: sshbuf
  server_version :: sshbuf
  session_id :: sshbuf
  k_done :: bool
  k_flags :: "32 word"
  hash_alg :: int
  k_nid :: "nid option"
  failed_choice :: "string option"

definition kex_flag :: "32 word \<Rightarrow> kex \<Rightarrow> bool" where
  "kex_flag f k \<longleftrightarrow> k_flags k AND f \<noteq> 0"

definition set_flag :: "32 word \<Rightarrow> kex \<Rightarrow> kex" where
  "set_flag f k = k\<lparr>k_flags := k_flags k OR f\<rparr>"

definition clear_flag :: "32 word \<Rightarrow> kex \<Rightarrow> kex" where
  "clear_flag f k = k\<lparr>k_flags := k_flags k AND NOT f\<rparr>"

definition sizeof_kex :: nat where "sizeof_kex = 5200"

definition kex_new :: "libc \<Rightarrow> kex option" where
  "kex_new lc =
     (case (malloc lc sizeof_kex, sshbuf_new lc, sshbuf_new lc, sshbuf_new lc, sshbuf_new lc,
            sshbuf_new lc) of
        (Some _, Some peer, Some my, Some cv, Some sv, Some sid) \<Rightarrow> Some
          \<lparr>k_newkeys = (\<lambda>_. None), we_need = 0, dh_need = 0, k_server = False, kx_name = None,
           hostkey_alg = None, hostkey_type = 0, hostkey_nid = 0, kex_type = 0,
           server_sig_algs = None, ext_info_c = False, ext_info_s = False, kex_strict = False,
           ext_info_received = 0, k_my = my, k_peer = peer, client_version = cv,
           server_version = sv, session_id = sid, k_done = False, k_flags = 0, hash_alg = 0,
           k_nid = None, failed_choice = None\<rparr>
      | _ \<Rightarrow> None)"

text \<open>What the code uses of \<^verbatim>\<open>sshkey.c\<close>.\<close>

record sshkey_lib =
  sshkey_type_from_name :: "string \<Rightarrow> int"
  sshkey_ecdsa_nid_from_name :: "string \<Rightarrow> int"
  sshkey_sigalg_by_name :: "string \<Rightarrow> string option"
  sshkey_alg_list :: "string option"

definition KEY_UNSPEC :: int where "KEY_UNSPEC = 12"

section \<open>Choosing algorithms\<close>

definition choose_enc :: "string \<Rightarrow> string \<Rightarrow> (sshenc, unit) op" where
  "choose_enc client server =
     (case fst (match_list client server) of
        None \<Rightarrow> err SSH_ERR_NO_CIPHER_ALG_MATCH
      | Some name \<Rightarrow>
          bind_op (modify_op (\<lambda>e. e\<lparr>enc_cipher := cipher_by_name name\<rparr>)) (\<lambda>_.
          (case cipher_by_name name of
             None \<Rightarrow> err SSH_ERR_INTERNAL_ERROR
           | Some c \<Rightarrow> modify_op (\<lambda>e. e\<lparr>enc_name := Some name, enc_enabled := False, enc_iv := None,
               enc_iv_len := cipher_ivlen c, enc_key := None, enc_key_len := cipher_keylen c,
               enc_block_size := cipher_blocksize c\<rparr>))))"

definition choose_mac :: "libc \<Rightarrow> evp_md \<Rightarrow> string \<Rightarrow> string \<Rightarrow> (sshmac, unit) op" where
  "choose_mac lc e client server =
     (case fst (match_list client server) of
        None \<Rightarrow> err SSH_ERR_NO_MAC_ALG_MATCH
      | Some name \<Rightarrow>
          (\<lambda>m. case mac_setup lc e name m of
             (Inl _, m') \<Rightarrow> err SSH_ERR_INTERNAL_ERROR m'
           | (Inr _, m') \<Rightarrow> ret () (m'\<lparr>m_name := Some name, m_key := None, m_enabled := False\<rparr>)))"

definition choose_comp :: "string \<Rightarrow> string \<Rightarrow> (sshcomp, unit) op" where
  "choose_comp client server =
     (case fst (match_list client server) of
        None \<Rightarrow> err SSH_ERR_NO_COMPRESS_ALG_MATCH
      | Some name \<Rightarrow>
          if name = ''zlib@openssh.com''
          then modify_op (\<lambda>c. c\<lparr>comp_type := COMP_DELAYED, comp_name := Some name\<rparr>)
          else if name = ''none''
          then modify_op (\<lambda>c. c\<lparr>comp_type := COMP_NONE, comp_name := Some name\<rparr>)
          else err SSH_ERR_INTERNAL_ERROR)"

text \<open>The numbers of \<^verbatim>\<open>enum kex_exchange\<close>; 0 is what \<^verbatim>\<open>kex_type_from_name\<close> returns for no method.\<close>

fun kex_exchange_num :: "kex_exchange option \<Rightarrow> 32 word" where
  "kex_exchange_num None = 0"
| "kex_exchange_num (Some KEX_DH_GRP1_SHA1) = 1"
| "kex_exchange_num (Some KEX_DH_GRP14_SHA1) = 2"
| "kex_exchange_num (Some KEX_DH_GRP14_SHA256) = 3"
| "kex_exchange_num (Some KEX_DH_GRP16_SHA512) = 4"
| "kex_exchange_num (Some KEX_DH_GRP18_SHA512) = 5"
| "kex_exchange_num (Some KEX_DH_GEX_SHA1) = 6"
| "kex_exchange_num (Some KEX_DH_GEX_SHA256) = 7"
| "kex_exchange_num (Some KEX_ECDH_SHA2) = 8"
| "kex_exchange_num (Some KEX_C25519_SHA256) = 9"
| "kex_exchange_num (Some KEX_KEM_SNTRUP761X25519_SHA512) = 10"
| "kex_exchange_num (Some KEX_KEM_MLKEM768X25519_SHA256) = 11"
| "kex_exchange_num (Some KEX_KEM_MLKEM768ECDH_SHA256) = 12"

definition KEX_MAX :: "32 word" where "KEX_MAX = 13"

definition choose_kex :: "string \<Rightarrow> string \<Rightarrow> (kex, unit) op" where
  "choose_kex client server =
     bind_op (modify_op (\<lambda>k. k\<lparr>kx_name := fst (match_list client server)\<rparr>)) (\<lambda>_.
     (case fst (match_list client server) of
        None \<Rightarrow> err SSH_ERR_NO_KEX_ALG_MATCH
      | Some name \<Rightarrow>
          if \<not> kex_name_valid name then err SSH_ERR_INTERNAL_ERROR
          else modify_op (\<lambda>k. k\<lparr>kex_type := kex_exchange_num (kex_type_from_name name),
                 hash_alg := kex_hash_from_name name, k_nid := kex_nid_from_name name\<rparr>)))"

definition choose_hostkeyalg :: "sshkey_lib \<Rightarrow> string \<Rightarrow> string \<Rightarrow> (kex, unit) op" where
  "choose_hostkeyalg kl client server =
     bind_op (modify_op (\<lambda>k. k\<lparr>hostkey_alg := fst (match_list client server)\<rparr>)) (\<lambda>_.
     (case fst (match_list client server) of
        None \<Rightarrow> err SSH_ERR_NO_HOSTKEY_ALG_MATCH
      | Some name \<Rightarrow>
          bind_op (modify_op (\<lambda>k. k\<lparr>hostkey_type := sshkey_type_from_name kl name\<rparr>)) (\<lambda>_.
          if sshkey_type_from_name kl name = KEY_UNSPEC then err SSH_ERR_INTERNAL_ERROR
          else modify_op (\<lambda>k. k\<lparr>hostkey_nid := sshkey_ecdsa_nid_from_name kl name\<rparr>))))"

text \<open>The first name of a list: the string before the first comma.\<close>

definition first_name :: "string \<Rightarrow> string" where
  "first_name s = takeWhile (\<lambda>c. c \<noteq> CHR '','') s"

definition proposals_match :: "proposal \<Rightarrow> proposal \<Rightarrow> bool" where
  "proposals_match my peer \<longleftrightarrow>
     first_name (my ! PROPOSAL_KEX_ALGS) = first_name (peer ! PROPOSAL_KEX_ALGS) \<and>
     first_name (my ! PROPOSAL_SERVER_HOST_KEY_ALGS) =
       first_name (peer ! PROPOSAL_SERVER_HOST_KEY_ALGS)"

definition kexalgs_contains :: "proposal \<Rightarrow> string \<Rightarrow> bool" where
  "kexalgs_contains peer ext = kex_has_any_alg (peer ! PROPOSAL_KEX_ALGS) ext"

text \<open>The signalling of the peer in the first exchange, and the end of the process on a violation.\<close>

definition check_signalling :: "proposal \<Rightarrow> 32 word \<Rightarrow> (kex, unit) proc" where
  "check_signalling peer seq k =
     (if \<not> kex_flag KEX_INITIAL k then pret () k
      else let k' = (if k_server k
                     then k\<lparr>ext_info_c := kexalgs_contains peer ''ext-info-c'',
                            kex_strict := kexalgs_contains peer ''kex-strict-c-v00@openssh.com''\<rparr>
                     else k\<lparr>ext_info_s := kexalgs_contains peer ''ext-info-s'',
                            kex_strict := kexalgs_contains peer ''kex-strict-s-v00@openssh.com''\<rparr>)
        in if kex_strict k' \<and> seq \<noteq> 0 then fatal k' else pret () k')"

definition check_rsa_sha2 :: "proposal \<Rightarrow> kex \<Rightarrow> kex" where
  "check_rsa_sha2 peer k =
     (if k_server k \<and> kex_flag KEX_INITIAL k then
        (let hk = peer ! PROPOSAL_SERVER_HOST_KEY_ALGS;
             k1 = (if kex_has_any_alg hk ''rsa-sha2-256,rsa-sha2-256-cert-v01@openssh.com''
                   then set_flag KEX_RSA_SHA2_256_SUPPORTED k else k)
         in if kex_has_any_alg hk ''rsa-sha2-512,rsa-sha2-512-cert-v01@openssh.com''
            then set_flag KEX_RSA_SHA2_512_SUPPORTED k1 else k1)
      else k)"

text \<open>A failed choice is remembered with the peer's list.\<close>

definition remember :: "proposal \<Rightarrow> nat \<Rightarrow> (kex, unit) op \<Rightarrow> (kex, unit) op" where
  "remember peer i m k =
     (case m k of
        (Inl er, k') \<Rightarrow> (Inl er, k'\<lparr>failed_choice := Some (peer ! i)\<rparr>)
      | (Inr x, k') \<Rightarrow> (Inr x, k'))"

text \<open>The algorithms of one direction: the body of the loop over the modes.\<close>

definition choose_newkeys ::
  "libc \<Rightarrow> evp_md \<Rightarrow> proposal \<Rightarrow> proposal \<Rightarrow> bool \<Rightarrow> (nat \<times> ssherr) option \<times> newkeys" where
  "choose_newkeys lc e cprop sprop ctos =
     (let nenc = (if ctos then PROPOSAL_ENC_ALGS_CTOS else PROPOSAL_ENC_ALGS_STOC);
          nmac = (if ctos then PROPOSAL_MAC_ALGS_CTOS else PROPOSAL_MAC_ALGS_STOC);
          ncomp = (if ctos then PROPOSAL_COMP_ALGS_CTOS else PROPOSAL_COMP_ALGS_STOC);
          nk = newkeys_zero
      in case choose_enc (cprop ! nenc) (sprop ! nenc) (nk_enc nk) of
           (Inl er, en) \<Rightarrow> (Some (nenc, er), nk\<lparr>nk_enc := en\<rparr>)
         | (Inr _, en) \<Rightarrow>
             (let nk = nk\<lparr>nk_enc := en\<rparr>;
                  rm = (if cipher_authlen (the (enc_cipher en)) = 0
                        then choose_mac lc e (cprop ! nmac) (sprop ! nmac) (nk_mac nk)
                        else (Inr (), nk_mac nk))
              in case rm of
                   (Inl er, m) \<Rightarrow> (Some (nmac, er), nk\<lparr>nk_mac := m\<rparr>)
                 | (Inr _, m) \<Rightarrow>
                     (let nk = nk\<lparr>nk_mac := m\<rparr>
                      in case choose_comp (cprop ! ncomp) (sprop ! ncomp) (nk_comp nk) of
                           (Inl er, c) \<Rightarrow> (Some (ncomp, er), nk\<lparr>nk_comp := c\<rparr>)
                         | (Inr _, c) \<Rightarrow> (None, nk\<lparr>nk_comp := c\<rparr>))))"

definition mode_ctos :: "kex \<Rightarrow> mode \<Rightarrow> bool" where
  "mode_ctos k m \<longleftrightarrow> (\<not> k_server k \<and> m = MODE_OUT) \<or> (k_server k \<and> m = MODE_IN)"

definition choose_mode ::
  "libc \<Rightarrow> evp_md \<Rightarrow> proposal \<Rightarrow> proposal \<Rightarrow> proposal \<Rightarrow> mode \<Rightarrow> (kex, unit) op" where
  "choose_mode lc e cprop sprop peer m k =
     (if malloc lc sizeof_newkeys = None then err SSH_ERR_ALLOC_FAIL k
      else case choose_newkeys lc e cprop sprop (mode_ctos k m) of
        (Some (i, er), nk) \<Rightarrow>
          err er (k\<lparr>k_newkeys := (k_newkeys k)(m := Some nk), failed_choice := Some (peer ! i)\<rparr>)
      | (None, nk) \<Rightarrow> ret () (k\<lparr>k_newkeys := (k_newkeys k)(m := Some nk)\<rparr>))"

definition newkeys_need :: "newkeys \<Rightarrow> nat" where
  "newkeys_need nk =
     max (max (max (enc_key_len (nk_enc nk)) (enc_block_size (nk_enc nk))) (enc_iv_len (nk_enc nk)))
       (m_key_len (nk_mac nk))"

definition newkeys_dh_need :: "newkeys \<Rightarrow> nat" where
  "newkeys_dh_need nk =
     max (max (max (cipher_seclen (the (enc_cipher (nk_enc nk)))) (enc_block_size (nk_enc nk)))
       (enc_iv_len (nk_enc nk))) (m_key_len (nk_mac nk))"

definition set_needs :: "kex \<Rightarrow> kex" where
  "set_needs k =
     (let nin = the (k_newkeys k MODE_IN); nout = the (k_newkeys k MODE_OUT)
      in k\<lparr>we_need := max (newkeys_need nin) (newkeys_need nout),
           dh_need := max (newkeys_dh_need nin) (newkeys_dh_need nout)\<rparr>)"

text \<open>The result of \<^verbatim>\<open>kex_choose_conf\<close> says whether to skip the next packet of the peer.\<close>

definition kex_choose_conf ::
  "libc \<Rightarrow> evp_md \<Rightarrow> sshkey_lib \<Rightarrow> 32 word \<Rightarrow> (kex, bool) proc" where
  "kex_choose_conf lc e kl seq k =
     (case kex_buf2prop lc (k_my k) of
        Inl er \<Rightarrow> perr er k
      | Inr (_, my) \<Rightarrow>
          (case kex_buf2prop lc (k_peer k) of
             Inl er \<Rightarrow> perr er k
           | Inr (first_kex_follows, peer) \<Rightarrow>
               (let cprop = (if k_server k then peer else my);
                    sprop = (if k_server k then my else peer)
                in pbind (check_signalling peer seq) (\<lambda>_.
                   pbind (pmodify (check_rsa_sha2 peer)) (\<lambda>_.
                   pbind (of_op (remember peer PROPOSAL_KEX_ALGS
                     (choose_kex (cprop ! PROPOSAL_KEX_ALGS) (sprop ! PROPOSAL_KEX_ALGS)))) (\<lambda>_.
                   pbind (of_op (remember peer PROPOSAL_SERVER_HOST_KEY_ALGS
                     (choose_hostkeyalg kl (cprop ! PROPOSAL_SERVER_HOST_KEY_ALGS)
                       (sprop ! PROPOSAL_SERVER_HOST_KEY_ALGS)))) (\<lambda>_.
                   pbind (of_op (choose_mode lc e cprop sprop peer MODE_IN)) (\<lambda>_.
                   pbind (of_op (choose_mode lc e cprop sprop peer MODE_OUT)) (\<lambda>_.
                   pbind (pmodify set_needs) (\<lambda>_.
                   pret (first_kex_follows \<noteq> 0 \<and> \<not> proposals_match my peer)))))))) k)))"

section \<open>Extension information\<close>

definition kex_ext_info_check_ver ::
  "byte list \<Rightarrow> string \<Rightarrow> 32 word \<Rightarrow> (kex, unit) op" where
  "kex_ext_info_check_ver val want_ver flag =
     (if memchr 0 val \<noteq> None then err SSH_ERR_INVALID_FORMAT
      else modify_op (if cstr val = want_ver then set_flag flag else id))"

definition kex_ext_info_client_parse :: "libc \<Rightarrow> string \<Rightarrow> byte list \<Rightarrow> (kex, unit) proc" where
  "kex_ext_info_client_parse lc name value k =
     (if name = ''server-sig-algs'' then
        (if memchr 0 value \<noteq> None then perr SSH_ERR_INVALID_FORMAT
         else if strdup lc (cstr value) = None then fatal
         else pmodify (\<lambda>k. k\<lparr>server_sig_algs := Some (cstr value)\<rparr>)) k
      else if ext_info_received k = 1 \<and> name = ''publickey-hostbound@openssh.com'' then
        of_op (kex_ext_info_check_ver value ''0'' KEX_HAS_PUBKEY_HOSTBOUND) k
      else if ext_info_received k = 1 \<and> name = ''ping@openssh.com'' then
        of_op (kex_ext_info_check_ver value ''0'' KEX_HAS_PING) k
      else if ext_info_received k = 1 \<and> name = ''agent-forward'' then
        of_op (kex_ext_info_check_ver value ''0'' KEX_HAS_NEWAGENT) k
      else pret () k)"

definition kex_ext_info_server_parse :: "string \<Rightarrow> byte list \<Rightarrow> (kex, unit) proc" where
  "kex_ext_info_server_parse name value =
     (if name = ''ext-info-in-auth@openssh.com''
      then of_op (kex_ext_info_check_ver value ''0'' KEX_HAS_EXT_INFO_IN_AUTH)
      else pret ())"

text \<open>The signature algorithms the server announces: those of the allowed list, once each.\<close>

function sig_algs_loop :: "sshkey_lib \<Rightarrow> string \<Rightarrow> string option \<Rightarrow> string option \<Rightarrow> string option" where
  "sig_algs_loop kl sigalgs algs acc =
     (case strsep (CHR '','') algs of
        (None, _) \<Rightarrow> acc
      | (Some alg, algs') \<Rightarrow>
          if alg = [] then acc
          else sig_algs_loop kl sigalgs algs'
            (case sshkey_sigalg_by_name kl alg of
               None \<Rightarrow> acc
             | Some sigalg \<Rightarrow>
                 if \<not> kex_has_any_alg sigalg sigalgs then acc
                 else (case acc of
                    None \<Rightarrow> Some sigalg
                  | Some a \<Rightarrow> if kex_has_any_alg sigalg a then acc else Some (a @ '','' @ sigalg))))"
  by pat_completeness auto
termination
  by (relation "measure (\<lambda>(kl, s, algs, acc). str_size algs)") (auto dest: strsep_decreases)

declare sig_algs_loop.simps [simp del]

definition kex_set_server_sig_algs :: "libc \<Rightarrow> sshkey_lib \<Rightarrow> string \<Rightarrow> (kex, unit) proc" where
  "kex_set_server_sig_algs lc kl allowed =
     (case sshkey_alg_list kl of
        None \<Rightarrow> fatal
      | Some sigalgs \<Rightarrow>
          if strdup lc allowed = None then fatal
          else pmodify (\<lambda>k. k\<lparr>server_sig_algs := Some
            (case sig_algs_loop kl sigalgs (Some allowed) None of None \<Rightarrow> [] | Some s \<Rightarrow> s)\<rparr>))"

section \<open>Keys\<close>

text \<open>One hash over the given pieces, as \<^verbatim>\<open>derive_key\<close> computes it.\<close>

definition hash_pieces :: "libc \<Rightarrow> evp_md \<Rightarrow> int \<Rightarrow> byte list list \<Rightarrow> ssherr + byte list" where
  "hash_pieces lc e alg ps =
     (case ssh_digest_start lc e alg of
        None \<Rightarrow> Inl SSH_ERR_LIBCRYPTO_ERROR
      | Some ctx \<Rightarrow>
          (case bind_op (seq_op (ssh_digest_update e) ps)
                  (\<lambda>_. ssh_digest_final e (ssh_digest_bytes alg)) ctx of
             (Inl _, _) \<Rightarrow> Inl SSH_ERR_LIBCRYPTO_ERROR
           | (Inr d, _) \<Rightarrow> Inr d))"

text \<open>The loop that lengthens the key; \<open>have\<close> is the number of bytes written so far.\<close>

function derive_expand ::
  "libc \<Rightarrow> evp_md \<Rightarrow> int \<Rightarrow> byte list \<Rightarrow> byte list \<Rightarrow> nat \<Rightarrow> nat \<Rightarrow> byte list \<Rightarrow> ssherr + byte list" where
  "derive_expand lc e alg shared hash need have acc =
     (if need > have \<and> ssh_digest_bytes alg > 0 then
        (case hash_pieces lc e alg [shared, hash, take have acc] of
           Inl er \<Rightarrow> Inl er
         | Inr d \<Rightarrow> derive_expand lc e alg shared hash need (have + ssh_digest_bytes alg)
                     (take have acc @ d))
      else Inr acc)"
  by pat_completeness auto
termination
  by (relation "measure (\<lambda>(lc, e, alg, shared, hash, need, have, acc). need - have)") auto

declare derive_expand.simps [simp del]

definition derive_key ::
  "libc \<Rightarrow> evp_md \<Rightarrow> char \<Rightarrow> nat \<Rightarrow> byte list \<Rightarrow> byte list \<Rightarrow> kex \<Rightarrow> ssherr + byte list" where
  "derive_key lc e c need hash shared k =
     (let mdsz = ssh_digest_bytes (hash_alg k)
      in if mdsz = 0 then Inl SSH_ERR_INVALID_ARGUMENT
         else if malloc lc (ROUNDUP need mdsz) = None then Inl SSH_ERR_ALLOC_FAIL
         else (case hash_pieces lc e (hash_alg k) [shared, hash, [byte_of_char c],
                 mem_read 0 (sshbuf_len (session_id k)) (session_id k)] of
            Inl er \<Rightarrow> Inl er
          | Inr d \<Rightarrow> derive_expand lc e (hash_alg k) shared hash need mdsz d))"

definition set_session_id :: "libc \<Rightarrow> byte list \<Rightarrow> (kex, unit) op" where
  "set_session_id lc hash k =
     (if kex_flag KEX_INITIAL k then
        (if sshbuf_len (session_id k) \<noteq> 0 then err SSH_ERR_INTERNAL_ERROR k
         else zoom session_id session_id_update (sshbuf_put lc hash) k)
      else if sshbuf_len (session_id k) = 0 then err SSH_ERR_INTERNAL_ERROR k
      else ret () k)"

text \<open>The keys A to F, and where each direction takes its own from.\<close>

definition install_keys :: "byte list list \<Rightarrow> mode \<Rightarrow> kex \<Rightarrow> kex" where
  "install_keys keys m k =
     (let nk = the (k_newkeys k m); i = (if mode_ctos k m then 0 else 1)
      in k\<lparr>k_newkeys := (k_newkeys k)(m := Some (nk
           \<lparr>nk_enc := (nk_enc nk)\<lparr>enc_iv := Some (keys ! i), enc_key := Some (keys ! (i + 2))\<rparr>,
            nk_mac := (nk_mac nk)\<lparr>m_key := Some (keys ! (i + 4))\<rparr>\<rparr>))\<rparr>)"

definition kex_derive_keys :: "libc \<Rightarrow> evp_md \<Rightarrow> byte list \<Rightarrow> byte list \<Rightarrow> (kex, unit) op" where
  "kex_derive_keys lc e hash shared =
     bind_op (set_session_id lc hash) (\<lambda>_.
     bind_op (map_op (\<lambda>c k. (derive_key lc e c (we_need k) hash shared k, k)) ''ABCDEF'') (\<lambda>keys.
     modify_op (\<lambda>k. install_keys keys MODE_OUT (install_keys keys MODE_IN k))))"


section \<open>Both sides choose the same algorithms\<close>

text \<open>When each choice succeeds, and what it leaves.\<close>

definition kex_ok :: "string \<Rightarrow> string \<Rightarrow> bool" where
  "kex_ok client server \<longleftrightarrow>
     (case fst (match_list client server) of None \<Rightarrow> False | Some n \<Rightarrow> kex_name_valid n)"

definition hostkey_ok :: "sshkey_lib \<Rightarrow> string \<Rightarrow> string \<Rightarrow> bool" where
  "hostkey_ok kl client server \<longleftrightarrow>
     (case fst (match_list client server) of
        None \<Rightarrow> False | Some n \<Rightarrow> sshkey_type_from_name kl n \<noteq> KEY_UNSPEC)"

lemma remember_Inr: "remember peer i m k = (Inr x, k') \<longleftrightarrow> m k = (Inr x, k')"
  by (auto simp: remember_def split: prod.splits sum.splits)

lemma choose_kex_Inr:
  "choose_kex client server k = (Inr (), k') \<longleftrightarrow>
   kex_ok client server \<and>
   k' = (let n = the (fst (match_list client server))
         in k\<lparr>kx_name := Some n, kex_type := kex_exchange_num (kex_type_from_name n),
              hash_alg := kex_hash_from_name n, k_nid := kex_nid_from_name n\<rparr>)"
  by (auto simp: choose_kex_def kex_ok_def op_simps Let_def split: option.splits)

lemma choose_hostkeyalg_Inr:
  "choose_hostkeyalg kl client server k = (Inr (), k') \<longleftrightarrow>
   hostkey_ok kl client server \<and>
   k' = (let n = the (fst (match_list client server))
         in k\<lparr>hostkey_alg := Some n, hostkey_type := sshkey_type_from_name kl n,
              hostkey_nid := sshkey_ecdsa_nid_from_name kl n\<rparr>)"
  by (auto simp: choose_hostkeyalg_def hostkey_ok_def op_simps Let_def split: option.splits)

lemma choose_mode_Inr:
  "choose_mode lc e cprop sprop peer m k = (Inr (), k') \<longleftrightarrow>
   malloc lc sizeof_newkeys \<noteq> None \<and> fst (choose_newkeys lc e cprop sprop (mode_ctos k m)) = None \<and>
   k' = k\<lparr>k_newkeys := (k_newkeys k)(m := Some (snd (choose_newkeys lc e cprop sprop (mode_ctos k m))))\<rparr>"
  by (cases "choose_newkeys lc e cprop sprop (mode_ctos k m)")
    (auto simp: choose_mode_def op_simps split: option.splits)

text \<open>The signalling changes none of the fields that hold the choices.\<close>

text \<open>
  The name by which the peer announces strict key exchange, and the case in which its KEXINIT ends the
  process: the first exchange, announced strict, with a packet before the KEXINIT.
\<close>

definition strict_marker :: "kex \<Rightarrow> string" where
  "strict_marker k = (if k_server k then ''kex-strict-c-v00@openssh.com'' else ''kex-strict-s-v00@openssh.com'')"

definition strict_violation :: "proposal \<Rightarrow> 32 word \<Rightarrow> kex \<Rightarrow> bool" where
  "strict_violation peer seq k \<longleftrightarrow> kex_flag KEX_INITIAL k \<and> kexalgs_contains peer (strict_marker k) \<and> seq \<noteq> 0"

lemma check_signalling_violation: "check_signalling peer seq k = None \<longleftrightarrow> strict_violation peer seq k"
  by (auto simp: check_signalling_def strict_violation_def strict_marker_def proc_simps Let_def)

lemma check_signalling_passes:
  "\<not> strict_violation peer seq k \<Longrightarrow>
   \<exists>k'. check_signalling peer seq k = Some (Inr (), k') \<and> k_server k' = k_server k"
  by (auto simp: check_signalling_def strict_violation_def strict_marker_def proc_simps Let_def)

lemma check_rsa_sha2_frame: "k_server (check_rsa_sha2 peer k) = k_server k"
  by (auto simp: check_rsa_sha2_def set_flag_def Let_def)

definition choice_ok :: "libc \<Rightarrow> evp_md \<Rightarrow> sshkey_lib \<Rightarrow> proposal \<Rightarrow> proposal \<Rightarrow> bool" where
  "choice_ok lc e kl cprop sprop \<longleftrightarrow>
     kex_ok (cprop ! PROPOSAL_KEX_ALGS) (sprop ! PROPOSAL_KEX_ALGS) \<and>
     hostkey_ok kl (cprop ! PROPOSAL_SERVER_HOST_KEY_ALGS) (sprop ! PROPOSAL_SERVER_HOST_KEY_ALGS) \<and>
     malloc lc sizeof_newkeys \<noteq> None \<and>
     fst (choose_newkeys lc e cprop sprop True) = None \<and> fst (choose_newkeys lc e cprop sprop False) = None"

text \<open>What the exchange agrees on, as a function of the client's and the server's proposal.\<close>

definition chosen :: "libc \<Rightarrow> evp_md \<Rightarrow> sshkey_lib \<Rightarrow> proposal \<Rightarrow> proposal \<Rightarrow> kex \<Rightarrow> bool" where
  "chosen lc e kl cprop sprop k \<longleftrightarrow>
     (let kn = the (fst (match_list (cprop ! PROPOSAL_KEX_ALGS) (sprop ! PROPOSAL_KEX_ALGS)));
          hn = the (fst (match_list (cprop ! PROPOSAL_SERVER_HOST_KEY_ALGS)
                      (sprop ! PROPOSAL_SERVER_HOST_KEY_ALGS)));
          nk = (\<lambda>m. snd (choose_newkeys lc e cprop sprop (mode_ctos k m)))
      in kx_name k = Some kn \<and> kex_type k = kex_exchange_num (kex_type_from_name kn) \<and>
         hash_alg k = kex_hash_from_name kn \<and> k_nid k = kex_nid_from_name kn \<and>
         hostkey_alg k = Some hn \<and> hostkey_type k = sshkey_type_from_name kl hn \<and>
         hostkey_nid k = sshkey_ecdsa_nid_from_name kl hn \<and>
         k_newkeys k = (\<lambda>m. Some (nk m)) \<and>
         we_need k = max (newkeys_need (nk MODE_IN)) (newkeys_need (nk MODE_OUT)) \<and>
         dh_need k = max (newkeys_dh_need (nk MODE_IN)) (newkeys_dh_need (nk MODE_OUT)))"


lemma pbind_op_cases:
  "pbind (of_op m) f s = Some (Inr y, t) \<longleftrightarrow> (\<exists>x s'. m s = (Inr x, s') \<and> f x s' = Some (Inr y, t))"
  by (auto simp: proc_simps split: prod.splits sum.splits)

text \<open>The choices made in order, from the state after the signalling.\<close>

definition choices ::
  "libc \<Rightarrow> evp_md \<Rightarrow> sshkey_lib \<Rightarrow> proposal \<Rightarrow> proposal \<Rightarrow> proposal \<Rightarrow> (kex, unit) op" where
  "choices lc e kl cprop sprop peer =
     bind_op (remember peer PROPOSAL_KEX_ALGS
       (choose_kex (cprop ! PROPOSAL_KEX_ALGS) (sprop ! PROPOSAL_KEX_ALGS))) (\<lambda>_.
     bind_op (remember peer PROPOSAL_SERVER_HOST_KEY_ALGS
       (choose_hostkeyalg kl (cprop ! PROPOSAL_SERVER_HOST_KEY_ALGS)
         (sprop ! PROPOSAL_SERVER_HOST_KEY_ALGS))) (\<lambda>_.
     bind_op (choose_mode lc e cprop sprop peer MODE_IN) (\<lambda>_.
     bind_op (choose_mode lc e cprop sprop peer MODE_OUT) (\<lambda>_.
     modify_op set_needs))))"

lemma bind_op_Inr_iff:
  "bind_op m f s = (Inr y, t) \<longleftrightarrow> (\<exists>x s'. m s = (Inr x, s') \<and> f x s' = (Inr y, t))"
  by (auto simp: bind_op_def split: prod.splits sum.splits)

lemma choices_Inr:
  "choices lc e kl cprop sprop peer k = (Inr (), k') \<longleftrightarrow>
   choice_ok lc e kl cprop sprop \<and>
   (\<exists>k1 k2. choose_kex (cprop ! PROPOSAL_KEX_ALGS) (sprop ! PROPOSAL_KEX_ALGS) k = (Inr (), k1) \<and>
      choose_hostkeyalg kl (cprop ! PROPOSAL_SERVER_HOST_KEY_ALGS)
        (sprop ! PROPOSAL_SERVER_HOST_KEY_ALGS) k1 = (Inr (), k2) \<and>
      k' = set_needs (k2\<lparr>k_newkeys := (\<lambda>m. Some (snd (choose_newkeys lc e cprop sprop (mode_ctos k m))))\<rparr>))"
proof -
  define F where "F b = snd (choose_newkeys lc e cprop sprop b)" for b
  have modes: "f(MODE_IN \<mapsto> F False, MODE_OUT \<mapsto> F True) = (\<lambda>m. Some (F (m = MODE_OUT)))"
    "f(MODE_IN \<mapsto> F True, MODE_OUT \<mapsto> F False) = (\<lambda>m. Some (F (m = MODE_IN)))"
    for f :: "mode \<Rightarrow> newkeys option"
    by (rule ext, rename_tac m, case_tac m; simp)+
  have "choices lc e kl cprop sprop peer k = (Inr (), k') \<longleftrightarrow>
    (\<exists>k1 k2 k3 k4. choose_kex (cprop ! PROPOSAL_KEX_ALGS) (sprop ! PROPOSAL_KEX_ALGS) k = (Inr (), k1) \<and>
      choose_hostkeyalg kl (cprop ! PROPOSAL_SERVER_HOST_KEY_ALGS)
        (sprop ! PROPOSAL_SERVER_HOST_KEY_ALGS) k1 = (Inr (), k2) \<and>
      choose_mode lc e cprop sprop peer MODE_IN k2 = (Inr (), k3) \<and>
      choose_mode lc e cprop sprop peer MODE_OUT k3 = (Inr (), k4) \<and> k' = set_needs k4)"
    by (auto simp: choices_def bind_op_Inr_iff remember_Inr modify_op_eq)
  then show ?thesis
    unfolding choose_kex_Inr choose_mode_Inr choose_hostkeyalg_Inr choice_ok_def Let_def mode_ctos_def
    by (cases "k_server k") (auto simp: modes[unfolded F_def])
qed

lemma choices_chosen:
  "choices lc e kl cprop sprop peer k = (Inr (), k') \<Longrightarrow>
   chosen lc e kl cprop sprop k' \<and> k_server k' = k_server k"
  unfolding choices_Inr choose_kex_Inr choose_hostkeyalg_Inr
  by (auto simp: chosen_def set_needs_def Let_def mode_ctos_def)

lemma choices_succeed:
  "choice_ok lc e kl cprop sprop \<Longrightarrow> \<exists>k'. choices lc e kl cprop sprop peer k = (Inr (), k')"
  unfolding choices_Inr choose_kex_Inr choose_hostkeyalg_Inr by (simp add: choice_ok_def)


lemma kex_choose_conf_run:
  assumes my: "kex_buf2prop lc (k_my k) = Inr (f1, my)"
    and peer: "kex_buf2prop lc (k_peer k) = Inr (f2, peer)"
    and k0: "check_signalling peer seq k = Some (Inr (), k0)"
  shows "kex_choose_conf lc e kl seq k =
    (case choices lc e kl (if k_server k then peer else my) (if k_server k then my else peer) peer
        (check_rsa_sha2 peer k0) of
       (Inl er, k') \<Rightarrow> Some (Inl er, k')
     | (Inr _, k') \<Rightarrow> Some (Inr (f2 \<noteq> 0 \<and> \<not> proposals_match my peer), k'))"
  unfolding kex_choose_conf_def my peer sum.case prod.case Let_def choices_def
    pbind_Inr[of "check_signalling peer seq", OF k0]
  by (simp add: proc_simps op_simps bind_op_def split: prod.splits sum.splits)

lemma kex_choose_conf_choices:
  assumes my: "kex_buf2prop lc (k_my k) = Inr (f1, my)"
    and peer: "kex_buf2prop lc (k_peer k) = Inr (f2, peer)"
    and timely: "\<not> strict_violation peer seq k"
  obtains k1 where "k_server k1 = k_server k" and "kex_choose_conf lc e kl seq k =
    (case choices lc e kl (if k_server k then peer else my) (if k_server k then my else peer) peer k1 of
       (Inl er, k') \<Rightarrow> Some (Inl er, k')
     | (Inr _, k') \<Rightarrow> Some (Inr (f2 \<noteq> 0 \<and> \<not> proposals_match my peer), k'))"
proof -
  obtain k0 where k0: "check_signalling peer seq k = Some (Inr (), k0)" "k_server k0 = k_server k"
    using check_signalling_passes[OF timely] by blast
  then show ?thesis
    using that[of "check_rsa_sha2 peer k0"] kex_choose_conf_run[OF my peer k0(1)]
    by (simp add: check_rsa_sha2_frame)
qed

lemma kex_choose_conf_ends:
  assumes "kex_buf2prop lc (k_my k) = Inr (f1, my)" and "kex_buf2prop lc (k_peer k) = Inr (f2, peer)"
    and "strict_violation peer seq k"
  shows "kex_choose_conf lc e kl seq k = None"
  using assms(1,2) check_signalling_violation[THEN iffD2, OF assms(3)]
  by (simp add: kex_choose_conf_def Let_def pbind_def)

lemma kex_choose_conf_outcome:
  assumes "kex_buf2prop lc (k_my k) = Inr (f1, my)" and "kex_buf2prop lc (k_peer k) = Inr (f2, peer)"
    and timely: "\<not> strict_violation peer seq k"
    and "cprop = (if k_server k then peer else my)" and "sprop = (if k_server k then my else peer)"
  obtains r k' where "kex_choose_conf lc e kl seq k = Some (r, k')" and "isl r \<longleftrightarrow> \<not> choice_ok lc e kl cprop sprop"
    and "choice_ok lc e kl cprop sprop \<Longrightarrow> chosen lc e kl cprop sprop k'" and
    "choice_ok lc e kl cprop sprop \<Longrightarrow> k_server k' = k_server k"
proof (rule kex_choose_conf_choices[OF assms(1,2) timely])
  fix k1 assume k1: "k_server k1 = k_server k" and eq: "kex_choose_conf lc e kl seq k =
    (case choices lc e kl (if k_server k then peer else my) (if k_server k then my else peer) peer k1 of
       (Inl er, k') \<Rightarrow> Some (Inl er, k')
     | (Inr _, k') \<Rightarrow> Some (Inr (f2 \<noteq> 0 \<and> \<not> proposals_match my peer), k'))"
  obtain a t where run: "choices lc e kl cprop sprop peer k1 = (a, t)" by fastforce
  have conf: "kex_choose_conf lc e kl seq k =
      Some (case a of Inl er \<Rightarrow> Inl er | Inr _ \<Rightarrow> Inr (f2 \<noteq> 0 \<and> \<not> proposals_match my peer), t)"
    using eq run assms(4,5) by (simp split: sum.splits)
  have ok: "choice_ok lc e kl cprop sprop \<longleftrightarrow> a = Inr ()"
    using run choices_succeed[of lc e kl cprop sprop peer k1] choices_Inr[of lc e kl cprop sprop peer k1 t]
    by (metis prod.inject)
  show thesis
  proof (rule that[OF conf])
    assume "choice_ok lc e kl cprop sprop"
    then show "chosen lc e kl cprop sprop t" and "k_server t = k_server k"
      using choices_chosen[of lc e kl cprop sprop peer k1 t] run ok k1 by auto
  qed (simp add: ok split: sum.splits)
qed

text \<open>The fields in which two ends that have chosen agree.\<close>

lemma chosen_agree:
  assumes roles: "\<not> k_server c" "k_server s"
    and ok: "choice_ok lc e kl cprop sprop"
    and C: "chosen lc e kl cprop sprop c" and S: "chosen lc e kl cprop sprop s"
  shows "kx_name c = kx_name s" "kex_type c = kex_type s" "hash_alg c = hash_alg s"
    "hostkey_alg c = hostkey_alg s" "we_need c = we_need s" "dh_need c = dh_need s"
    "k_newkeys c MODE_OUT = k_newkeys s MODE_IN" "k_newkeys c MODE_IN = k_newkeys s MODE_OUT"
    "kx_name c = find (\<lambda>n. n \<in> set (take MAX_PROP (names (sprop ! PROPOSAL_KEX_ALGS))))
       (names (cprop ! PROPOSAL_KEX_ALGS))"
proof -
  note C = C[unfolded chosen_def Let_def] and S = S[unfolded chosen_def Let_def]
  have m: "mode_ctos c MODE_OUT" "\<not> mode_ctos c MODE_IN" "mode_ctos s MODE_IN" "\<not> mode_ctos s MODE_OUT"
    using roles by (simp_all add: mode_ctos_def)
  show "kx_name c = kx_name s" "kex_type c = kex_type s" "hash_alg c = hash_alg s"
    "hostkey_alg c = hostkey_alg s" "we_need c = we_need s" "dh_need c = dh_need s"
    "k_newkeys c MODE_OUT = k_newkeys s MODE_IN" "k_newkeys c MODE_IN = k_newkeys s MODE_OUT"
    using C S m by (simp_all add: max.commute)
  show "kx_name c = find (\<lambda>n. n \<in> set (take MAX_PROP (names (sprop ! PROPOSAL_KEX_ALGS))))
       (names (cprop ! PROPOSAL_KEX_ALGS))"
    using C ok match_list_find[of "cprop ! PROPOSAL_KEX_ALGS" "sprop ! PROPOSAL_KEX_ALGS"]
    by (auto simp: choice_ok_def kex_ok_def split: option.splits)
qed

text \<open>
  C34. Negotiation. A client and a server have each received the other's proposal, in the first or in a
  later exchange, the KEXINITs having any sequence numbers. An end's choice ends its process exactly
  when the exchange is the first, the peer announces strict key exchange and the peer's KEXINIT was not
  its packet number 0; the other end does not learn of that here and may go on to choose. When both
  choices return, either both fail or both choose the same: the same key exchange method, the first of
  the client's names that the server lists, the same host key algorithm, the same digest, the same
  amount of key material, and for each direction the same cipher, MAC and compression, the client's
  outgoing keys being set up like the server's incoming ones. Both ends have the same libraries and
  the same memory.
\<close>

theorem kex_negotiation_agrees:
  assumes roles: "\<not> k_server c" "k_server s"
    and client: "kex_buf2prop lc (k_my c) = Inr (f1, cprop)" "kex_buf2prop lc (k_peer s) = Inr (f2, cprop)"
    and server: "kex_buf2prop lc (k_my s) = Inr (f3, sprop)" "kex_buf2prop lc (k_peer c) = Inr (f4, sprop)"
  shows "(kex_choose_conf lc e kl qc c = None \<longleftrightarrow> kex_flag KEX_INITIAL c \<and> qc \<noteq> 0 \<and>
       kexalgs_contains sprop ''kex-strict-s-v00@openssh.com'') \<and>
     (kex_choose_conf lc e kl qs s = None \<longleftrightarrow> kex_flag KEX_INITIAL s \<and> qs \<noteq> 0 \<and>
       kexalgs_contains cprop ''kex-strict-c-v00@openssh.com'') \<and>
     (\<forall>rc c' rs s'. kex_choose_conf lc e kl qc c = Some (rc, c') \<and> kex_choose_conf lc e kl qs s = Some (rs, s') \<longrightarrow>
        isl rc = isl rs \<and>
        (\<not> isl rc \<longrightarrow>
           kx_name c' = kx_name s' \<and>
           kx_name c' = find (\<lambda>n. n \<in> set (take MAX_PROP (names (sprop ! PROPOSAL_KEX_ALGS))))
             (names (cprop ! PROPOSAL_KEX_ALGS)) \<and>
           kex_type c' = kex_type s' \<and> hash_alg c' = hash_alg s' \<and> hostkey_alg c' = hostkey_alg s' \<and>
           we_need c' = we_need s' \<and> dh_need c' = dh_need s' \<and>
           k_newkeys c' MODE_OUT = k_newkeys s' MODE_IN \<and> k_newkeys c' MODE_IN = k_newkeys s' MODE_OUT))"
proof -
  have cc: "cprop = (if k_server c then sprop else cprop)" "sprop = (if k_server c then cprop else sprop)"
    and ss: "cprop = (if k_server s then cprop else sprop)" "sprop = (if k_server s then sprop else cprop)"
    using roles by simp_all
  have C: "if strict_violation sprop qc c then kex_choose_conf lc e kl qc c = None
     else \<exists>r k. kex_choose_conf lc e kl qc c = Some (r, k) \<and> (isl r \<longleftrightarrow> \<not> choice_ok lc e kl cprop sprop) \<and>
       (choice_ok lc e kl cprop sprop \<longrightarrow> chosen lc e kl cprop sprop k \<and> \<not> k_server k)"
    using kex_choose_conf_ends[OF client(1) server(2), of qc e kl] roles
      kex_choose_conf_outcome[OF client(1) server(2) _ cc, of qc e kl] by metis
  have S: "if strict_violation cprop qs s then kex_choose_conf lc e kl qs s = None
     else \<exists>r k. kex_choose_conf lc e kl qs s = Some (r, k) \<and> (isl r \<longleftrightarrow> \<not> choice_ok lc e kl cprop sprop) \<and>
       (choice_ok lc e kl cprop sprop \<longrightarrow> chosen lc e kl cprop sprop k \<and> k_server k)"
    using kex_choose_conf_ends[OF server(1) client(2), of qs e kl] roles
      kex_choose_conf_outcome[OF server(1) client(2) _ ss, of qs e kl] by metis
  show ?thesis
  proof (intro conjI allI impI)
    show "kex_choose_conf lc e kl qc c = None \<longleftrightarrow> kex_flag KEX_INITIAL c \<and> qc \<noteq> 0 \<and>
        kexalgs_contains sprop ''kex-strict-s-v00@openssh.com''"
      using C roles by (auto simp: strict_violation_def strict_marker_def split: if_splits)
    show "kex_choose_conf lc e kl qs s = None \<longleftrightarrow> kex_flag KEX_INITIAL s \<and> qs \<noteq> 0 \<and>
        kexalgs_contains cprop ''kex-strict-c-v00@openssh.com''"
      using S roles by (auto simp: strict_violation_def strict_marker_def split: if_splits)
    fix rc c' rs s'
    assume "kex_choose_conf lc e kl qc c = Some (rc, c') \<and> kex_choose_conf lc e kl qs s = Some (rs, s')"
    then have R: "isl rc \<longleftrightarrow> \<not> choice_ok lc e kl cprop sprop" "isl rs \<longleftrightarrow> \<not> choice_ok lc e kl cprop sprop"
      and K: "choice_ok lc e kl cprop sprop \<Longrightarrow> chosen lc e kl cprop sprop c' \<and> \<not> k_server c'"
        "choice_ok lc e kl cprop sprop \<Longrightarrow> chosen lc e kl cprop sprop s' \<and> k_server s'"
      using C S by (auto split: if_splits)
    show "isl rc = isl rs" using R by simp
    assume "\<not> isl rc"
    then have "choice_ok lc e kl cprop sprop" using R by simp
    note chosen_agree[OF _ _ this, of c' s'] and K[OF this]
    then show "kx_name c' = kx_name s'" and "kx_name c' = find (\<lambda>n. n \<in> set (take MAX_PROP
        (names (sprop ! PROPOSAL_KEX_ALGS)))) (names (cprop ! PROPOSAL_KEX_ALGS))"
      and "kex_type c' = kex_type s'" and "hash_alg c' = hash_alg s'" and "hostkey_alg c' = hostkey_alg s'"
      and "we_need c' = we_need s'" and "dh_need c' = dh_need s'"
      and "k_newkeys c' MODE_OUT = k_newkeys s' MODE_IN" and "k_newkeys c' MODE_IN = k_newkeys s' MODE_OUT"
      by simp_all
  qed
qed


text \<open>A client that prefers a method the server lacks, and AES in counter mode with HMAC.\<close>

definition demo_buf :: "proposal \<Rightarrow> sshbuf" where
  "demo_buf ps = the (sshbuf_from lc_ok (Some 1) (replicate 16 0 @ enc_proposal ps))"

definition demo_kex :: "bool \<Rightarrow> proposal \<Rightarrow> proposal \<Rightarrow> kex" where
  "demo_kex server my peer =
     (the (kex_new lc_ok))\<lparr>k_server := server, k_my := demo_buf my, k_peer := demo_buf peer,
                           k_flags := KEX_INITIAL\<rparr>"

definition demo_keys :: sshkey_lib where
  "demo_keys =
     \<lparr>sshkey_type_from_name = (\<lambda>n. if n = ''ssh-ed25519'' then 2 else KEY_UNSPEC),
      sshkey_ecdsa_nid_from_name = (\<lambda>n. - 1), sshkey_sigalg_by_name = Some,
      sshkey_alg_list = Some ''ssh-ed25519''\<rparr>"

definition demo_client :: proposal where
  "demo_client = [''sntrup761x25519-sha512,curve25519-sha256,ext-info-c'', ''ssh-ed25519'',
     ''aes128-ctr'', ''aes128-ctr'', ''hmac-sha2-256'', ''hmac-sha2-256'', ''none'', ''none'', [], []]"

definition demo_server :: proposal where
  "demo_server = [''curve25519-sha256'', ''ssh-ed25519'',
     ''aes256-ctr,aes128-ctr'', ''aes128-ctr'', ''hmac-sha2-256'', ''hmac-sha2-256'', ''none'', ''none'', [], []]"

lemma demo_buf_dec:
  assumes "ps \<in> {demo_client, demo_server}"
  shows "kex_buf2prop lc_ok (demo_buf ps) = Inr (0, ps)"
proof -
  have ps: "length ps = PROPOSAL_MAX" "\<And>p. p \<in> set ps \<Longrightarrow> CHR 0x00 \<notin> set p"
    "\<And>p. p \<in> set ps \<Longrightarrow> length p \<le> 100" "length (enc_proposal ps) \<le> 300"
    using assms by (auto simp: demo_client_def demo_server_def PROPOSAL_MAX_def enc_proposal_def bytes_of_def)
  then have "length (replicate 16 0 @ enc_proposal ps) \<le> SSHBUF_SIZE_MAX"
    by (simp add: SSHBUF_SIZE_MAX_def)
  then obtain b where b: "sshbuf_from lc_ok (Some 1) (replicate 16 0 @ enc_proposal ps) = Some b"
    by (auto simp: sshbuf_from_def Let_def lc_ok_def)
  then have d: "demo_buf ps = b" by (simp only: demo_buf_def option.sel)
  have "length p \<le> SSHBUF_SIZE_MAX - 4" if "p \<in> set ps" for p
    using ps(3)[OF that] by (simp add: SSHBUF_SIZE_MAX_def)
  then show ?thesis
    using sshbuf_from_wf[OF b] ps(1,2)
    by (intro kex_buf2prop_enc[where cookie = "replicate 16 0"] lc_ok_malloc)
      (auto simp: d KEX_COOKIE_LEN_def)
qed

lemma demo_choice_ok: "choice_ok lc_ok toy_md demo_keys demo_client demo_server"
  by code_simp

lemma demo_strict:
  "\<not> kexalgs_contains demo_server ''kex-strict-s-v00@openssh.com''"
  "\<not> kexalgs_contains demo_client ''kex-strict-c-v00@openssh.com''"
  by code_simp+

text \<open>The first exchange, and one in which the keys are replaced later.\<close>

theorem kex_negotiation_agrees_witness:
  "(\<exists>rc c' rs s'.
     kex_choose_conf lc_ok toy_md demo_keys 0 (demo_kex False demo_client demo_server) = Some (rc, c') \<and>
     kex_choose_conf lc_ok toy_md demo_keys 0 (demo_kex True demo_server demo_client) = Some (rs, s') \<and>
     \<not> isl rc \<and> \<not> isl rs \<and> kx_name c' = Some ''curve25519-sha256'' \<and> kx_name s' = kx_name c' \<and>
     k_newkeys c' MODE_OUT = k_newkeys s' MODE_IN) \<and>
   (\<exists>rc c' rs s'.
     kex_choose_conf lc_ok toy_md demo_keys 70 ((demo_kex False demo_client demo_server)\<lparr>k_flags := 0\<rparr>) = Some (rc, c') \<and>
     kex_choose_conf lc_ok toy_md demo_keys 52 ((demo_kex True demo_server demo_client)\<lparr>k_flags := 0\<rparr>) = Some (rs, s') \<and>
     \<not> isl rc \<and> \<not> isl rs \<and> kx_name c' = Some ''curve25519-sha256'' \<and> kx_name s' = kx_name c' \<and>
     k_newkeys c' MODE_OUT = k_newkeys s' MODE_IN)"
proof -
  let ?c = "\<lambda>f. (demo_kex False demo_client demo_server)\<lparr>k_flags := f\<rparr>"
  let ?s = "\<lambda>f. (demo_kex True demo_server demo_client)\<lparr>k_flags := f\<rparr>"
  have r: "\<not> k_server (?c f)" "k_server (?s f)" for f by (simp_all add: demo_kex_def)
  have b: "kex_buf2prop lc_ok (k_my (?c f)) = Inr (0, demo_client)"
    "kex_buf2prop lc_ok (k_peer (?s f)) = Inr (0, demo_client)"
    "kex_buf2prop lc_ok (k_my (?s f)) = Inr (0, demo_server)"
    "kex_buf2prop lc_ok (k_peer (?c f)) = Inr (0, demo_server)" for f
    by (simp_all add: demo_kex_def demo_buf_dec)
  have timely: "\<not> strict_violation demo_server q (?c f)" for q f
    using r demo_strict by (simp add: strict_violation_def strict_marker_def)
  have chooses: "\<exists>rc c'. kex_choose_conf lc_ok toy_md demo_keys q (?c f) = Some (rc, c') \<and> \<not> isl rc" for q f
    by (rule kex_choose_conf_outcome[OF b(1,4) timely, where cprop = demo_client and sprop = demo_server
          and e = toy_md and kl = demo_keys])
      (use r demo_choice_ok in auto)
  have n: "find (\<lambda>n. n \<in> set (take MAX_PROP (names (demo_server ! PROPOSAL_KEX_ALGS))))
      (names (demo_client ! PROPOSAL_KEX_ALGS)) = Some ''curve25519-sha256''"
    by code_simp
  have "\<exists>rc c' rs s'. kex_choose_conf lc_ok toy_md demo_keys qc (?c f) = Some (rc, c') \<and>
     kex_choose_conf lc_ok toy_md demo_keys qs (?s f) = Some (rs, s') \<and>
     \<not> isl rc \<and> \<not> isl rs \<and> kx_name c' = Some ''curve25519-sha256'' \<and> kx_name s' = kx_name c' \<and>
     k_newkeys c' MODE_OUT = k_newkeys s' MODE_IN" for qc qs f
  proof -
    note agree = kex_negotiation_agrees[OF r[of f] b[of f], of toy_md demo_keys qc qs, unfolded n]
    obtain rc c' where c: "kex_choose_conf lc_ok toy_md demo_keys qc (?c f) = Some (rc, c')" "\<not> isl rc"
      using chooses by blast
    obtain rs s' where s: "kex_choose_conf lc_ok toy_md demo_keys qs (?s f) = Some (rs, s')"
      using agree demo_strict(2) by (cases "kex_choose_conf lc_ok toy_md demo_keys qs (?s f)") auto
    show ?thesis
      using agree c s by auto
  qed
  from this[of 0 KEX_INITIAL 0] this[of 70 0 52] show ?thesis by (simp add: demo_kex_def)
qed

end
