(* ===== verification/KexKeys.thy ===== *)
theory KexKeys
  imports Kex
begin

unbundle bit_operations_syntax

text \<open>
  The keys of a key exchange: the derivation of \<^verbatim>\<open>kex.c\<close> computes the function of RFC 4253,
  section 7.2, both sides install the same keys crosswise, and what negotiation and derivation
  leave behind satisfies the length checks of \<^verbatim>\<open>cipher_init\<close> and \<^verbatim>\<open>mac_init\<close>.
\<close>

section \<open>The key derivation function\<close>

text \<open>\<open>n\<close> blocks after the first; \<open>kh\<close> is the secret with the hash, \<open>x\<close> the letter with the session id.\<close>

primrec kdf :: "(byte list \<Rightarrow> byte list) \<Rightarrow> byte list \<Rightarrow> byte list \<Rightarrow> nat \<Rightarrow> byte list" where
  "kdf h kh x 0 = h (kh @ x)"
| "kdf h kh x (Suc n) = kdf h kh x n @ h (kh @ kdf h kh x n)"

lemma length_kdf: "(\<And>m. length (h m) = l) \<Longrightarrow> length (kdf h kh x n) = l * Suc n"
  by (induction n) auto

lemma seq_update_fed:
  assumes spec: "evp_md_spec e H B fed"
  obtains ctx' where "seq_op (ssh_digest_update e) ps ctx = (Inr (), ctx')" and "dc_alg ctx' = dc_alg ctx"
    and "fed (mdctx ctx') = (fst (fed (mdctx ctx)), snd (fed (mdctx ctx)) @ concat ps)"
proof -
  obtain upd where upd: "\<And>c m. EVP_DigestUpdate e c m = Some (upd c m)"
    "\<And>c m. fed (upd c m) = (fst (fed c), snd (fed c) @ m)"
    by (rule evp_md_specE[OF spec]) blast
  have "\<exists>ctx'. seq_op (ssh_digest_update e) ps ctx = (Inr (), ctx') \<and> dc_alg ctx' = dc_alg ctx \<and>
    fed (mdctx ctx') = (fst (fed (mdctx ctx)), snd (fed (mdctx ctx)) @ concat ps)"
  proof (induction ps arbitrary: ctx)
    case (Cons p ps)
    show ?case
      using Cons.IH[of "ctx\<lparr>mdctx := upd (mdctx ctx) p\<rparr>"]
      by (simp add: bind_op_def ssh_digest_update_def upd op_simps)
  qed (simp add: op_simps)
  then show ?thesis using that by blast
qed

lemma hash_pieces_spec:
  assumes spec: "evp_md_spec e H B fed" and mem: "\<And>n. malloc lc n \<noteq> None"
    and d: "ssh_digest_by_alg alg = Some d"
  shows "hash_pieces lc e alg ps = Inr (H (sd_name d) (concat ps))"
proof -
  obtain ctx where ctx: "ssh_digest_start lc e alg = Some ctx" "dc_alg ctx = alg"
      "fed (mdctx ctx) = (sd_name d, [])"
    by (rule evp_md_specE[OF spec]) (auto simp: ssh_digest_start_def d mem ssh_digest_by_alg_in[OF d])
  obtain ctx' where ctx': "seq_op (ssh_digest_update e) ps ctx = (Inr (), ctx')" "dc_alg ctx' = alg"
      "fed (mdctx ctx') = (sd_name d, concat ps)"
    using seq_update_fed[OF spec, of ps ctx] ctx by (metis append_Nil fst_conv snd_conv)
  obtain fin where fin: "\<And>c. EVP_DigestFinal_ex e c = Some (H (fst (fed c)) (snd (fed c)), fin c)"
    by (rule evp_md_specE[OF spec]) blast
  note sz = evp_md_spec_sizes[OF spec d]
  have "digest_len d \<le> UINT_MAX" using sz(1,2) by (simp add: UINT_MAX_def)
  then show ?thesis
    using ctx ctx' d sz(3)
    by (simp add: hash_pieces_def bind_op_def ssh_digest_final_def ssh_digest_bytes_def fin op_simps)
qed

text \<open>The number of blocks after the first that \<open>need\<close> bytes take.\<close>

definition more_blocks :: "nat \<Rightarrow> nat \<Rightarrow> nat" where
  "more_blocks need mdsz = (need - 1) div mdsz"

lemma derive_expand_spec:
  assumes spec: "evp_md_spec e H B fed" and mem: "\<And>n. malloc lc n \<noteq> None"
    and d: "ssh_digest_by_alg alg = Some d" and need: "0 < need" and pos: "0 < digest_len d"
    and h: "h = H (sd_name d)" and j: "j \<le> more_blocks need (digest_len d)"
  shows "derive_expand lc e alg shared hash need (digest_len d * Suc j) (kdf h (shared @ hash) x j) =
    Inr (kdf h (shared @ hash) x (more_blocks need (digest_len d)))"
  using j
proof (induction "more_blocks need (digest_len d) - j" arbitrary: j)
  case 0
  then have j: "j = more_blocks need (digest_len d)" by simp
  have "need - 1 < digest_len d * Suc j"
    unfolding j more_blocks_def using pos dividend_less_times_div by (simp add: mult.commute)
  then have "\<not> need > digest_len d * Suc j" using need by linarith
  then show ?case by (simp add: derive_expand.simps[of lc] j)
next
  case (Suc i)
  then have j: "Suc j \<le> more_blocks need (digest_len d)" by simp
  have "digest_len d * Suc j \<le> digest_len d * more_blocks need (digest_len d)" using j by (rule mult_le_mono2)
  also have "\<dots> \<le> need - 1" by (simp add: more_blocks_def)
  finally have more: "need > digest_len d * Suc j" using need by linarith
  have len: "length (kdf h (shared @ hash) x j) = digest_len d * Suc j"
    by (rule length_kdf) (simp add: h evp_md_spec_sizes(3)[OF spec d])
  then have all: "take (digest_len d * Suc j) (kdf h (shared @ hash) x j) = kdf h (shared @ hash) x j"
    by simp
  have "derive_expand lc e alg shared hash need (digest_len d * Suc j) (kdf h (shared @ hash) x j) =
    derive_expand lc e alg shared hash need (digest_len d * Suc (Suc j)) (kdf h (shared @ hash) x (Suc j))"
    using more pos
    by (subst derive_expand.simps)
      (simp add: ssh_digest_bytes_def d all hash_pieces_spec[OF spec mem d] h[symmetric] add.commute
        del: mult_Suc_right add: mult_Suc_right[of _ "Suc j"])
  also have "\<dots> = Inr (kdf h (shared @ hash) x (more_blocks need (digest_len d)))"
    using Suc.hyps(2) j by (intro Suc.hyps(1)) auto
  finally show ?case .
qed

text \<open>The key of letter \<open>c\<close>.\<close>

definition session_key :: "(byte list \<Rightarrow> byte list) \<Rightarrow> nat \<Rightarrow> nat \<Rightarrow> byte list \<Rightarrow> byte list \<Rightarrow> byte list \<Rightarrow> char \<Rightarrow> byte list" where
  "session_key h mdsz need shared hash sid c = kdf h (shared @ hash) (byte_of_char c # sid) (more_blocks need mdsz)"

lemma length_session_key:
  assumes "\<And>m. length (h m) = mdsz" and "0 < mdsz"
  shows "need \<le> length (session_key h mdsz need shared hash sid c)"
proof -
  have "need - 1 < mdsz * Suc (more_blocks need mdsz)"
    using dividend_less_times_div[OF assms(2), of "need - 1"] by (simp add: more_blocks_def)
  then show ?thesis unfolding session_key_def length_kdf[OF assms(1)] by simp
qed

lemma digest_len_pos: "ssh_digest_by_alg alg = Some d \<Longrightarrow> 0 < digest_len d"
proof -
  have "list_all (\<lambda>d. 0 < digest_len d) digests" by code_simp
  then show "ssh_digest_by_alg alg = Some d \<Longrightarrow> 0 < digest_len d"
    using ssh_digest_by_alg_in[of alg d] by (simp add: list_all_iff)
qed

lemma derive_key_spec:
  assumes spec: "evp_md_spec e H B fed" and mem: "\<And>n. malloc lc n \<noteq> None"
    and d: "ssh_digest_by_alg (hash_alg k) = Some d" and need: "0 < need"
    and sid: "wf_sshbuf (session_id k)"
  shows "derive_key lc e c need hash shared k =
    Inr (session_key (H (sd_name d)) (digest_len d) need shared hash (contents (session_id k)) c)"
  using derive_expand_spec[OF spec mem d need digest_len_pos[OF d] refl, of 0 shared hash
      "byte_of_char c # contents (session_id k)"] digest_len_pos[OF d]
  by (simp add: derive_key_def ssh_digest_bytes_def d mem Let_def
    hash_pieces_spec[OF spec mem d] buffer_bytes[OF sid] session_key_def)

text \<open>The keys of one direction, as \<^const>\<open>install_keys\<close> stores them.\<close>

definition keyed :: "(char \<Rightarrow> byte list) \<Rightarrow> bool \<Rightarrow> newkeys \<Rightarrow> newkeys" where
  "keyed K ctos nk =
     nk\<lparr>nk_enc := (nk_enc nk)\<lparr>enc_iv := Some (K (if ctos then CHR ''A'' else CHR ''B'')),
                              enc_key := Some (K (if ctos then CHR ''C'' else CHR ''D''))\<rparr>,
        nk_mac := (nk_mac nk)\<lparr>m_key := Some (K (if ctos then CHR ''E'' else CHR ''F''))\<rparr>\<rparr>"

text \<open>The session id is the hash of the first exchange: not set before it, set ever after.\<close>

definition sid_ready :: "byte list \<Rightarrow> byte list \<Rightarrow> kex \<Rightarrow> bool" where
  "sid_ready hash sid k \<longleftrightarrow> wf_sshbuf (session_id k) \<and>
     (if kex_flag KEX_INITIAL k
      then contents (session_id k) = [] \<and> writable (session_id k) \<and>
           length hash \<le> b_max_size (session_id k) \<and> sid = hash
      else contents (session_id k) = sid \<and> sid \<noteq> [])"

lemma set_session_id_ready:
  assumes "sid_ready hash sid k" and mem: "\<And>n. malloc lc n \<noteq> None"
  obtains b where "set_session_id lc hash k = (Inr (), k\<lparr>session_id := b\<rparr>)" and "wf_sshbuf b"
    and "contents b = sid"
proof (cases "kex_flag KEX_INITIAL k")
  case True
  then have r: "wf_sshbuf (session_id k)" "contents (session_id k) = []" "writable (session_id k)"
      "length hash \<le> b_max_size (session_id k)" "sid = hash"
    using assms(1) by (auto simp: sid_ready_def)
  obtain b where "sshbuf_put lc hash (session_id k) = (Inr (), b)" "wf_sshbuf b" "contents b = sid"
    using put_fits[OF r(1) mem r(3), of hash] r(2,4,5) by auto
  then show ?thesis
    using that True sshbuf_len_contents[OF r(1)] r(2)
    by (simp add: set_session_id_def zoom_def)
next
  case False
  then show ?thesis
    using that[of "session_id k"] assms(1) sshbuf_len_contents[of "session_id k"]
    by (auto simp: set_session_id_def sid_ready_def op_simps simp del: length_contents)
qed

lemma kex_derive_keys_spec:
  assumes spec: "evp_md_spec e H B fed" and mem: "\<And>n. malloc lc n \<noteq> None"
    and d: "ssh_digest_by_alg (hash_alg k) = Some d" and need: "0 < we_need k"
    and sid: "sid_ready hash sid k" and nk: "\<And>m. k_newkeys k m = Some (nk m)"
    and K: "K = session_key (H (sd_name d)) (digest_len d) (we_need k) shared hash sid"
  obtains b where "wf_sshbuf b" and "contents b = sid" and "kex_derive_keys lc e hash shared k =
    (Inr (), k\<lparr>session_id := b, k_newkeys := (\<lambda>m. Some (keyed K (mode_ctos k m) (nk m)))\<rparr>)"
proof (rule set_session_id_ready[OF sid mem])
  fix b assume b: "set_session_id lc hash k = (Inr (), k\<lparr>session_id := b\<rparr>)" "wf_sshbuf b" "contents b = sid"
  define k1 where "k1 = k\<lparr>session_id := b\<rparr>"
  have dk: "derive_key lc e c (we_need k1) hash shared k1 = Inr (K c)" for c
    using derive_key_spec[OF spec mem, of k1 d "we_need k1" c hash shared] d need b
    by (simp add: k1_def K)
  have keys: "map_op (\<lambda>c k. (derive_key lc e c (we_need k) hash shared k, k)) cs k1 = (Inr (map K cs), k1)" for cs
    by (induction cs) (simp_all add: bind_op_def dk op_simps)
  have modes: "f(MODE_IN := Some x, MODE_OUT := Some y) =
      (\<lambda>m. Some (case m of MODE_IN \<Rightarrow> x | MODE_OUT \<Rightarrow> y))" for f :: "mode \<Rightarrow> newkeys option" and x y
    by (rule ext, rename_tac m, case_tac m; simp)
  have "install_keys (map K ''ABCDEF'') MODE_OUT (install_keys (map K ''ABCDEF'') MODE_IN k1) =
      k1\<lparr>k_newkeys := (\<lambda>m. Some (keyed K (mode_ctos k m) (nk m)))\<rparr>"
    by (auto simp: install_keys_def keyed_def mode_ctos_def nk k1_def Let_def modes fun_eq_iff
      split: mode.splits)
  then show thesis
    using that[of b] b by (simp add: kex_derive_keys_def bind_op_def b keys k1_def[symmetric] op_simps
      del: list.map map_op.simps)
qed

section \<open>Both sides hold the same keys\<close>

text \<open>
  C35. Key derivation. When a client and a server with the same negotiated algorithms derive
  keys from the same secret and exchange hash, both succeed and hold the same keys: initial
  vectors, encryption and MAC keys of letters A, C, E for the client's direction and B, D, F for
  the server's, each the bytes K1, K2, ... of RFC 4253 with K1 the hash of secret, exchange
  hash, letter and session id and each further block the hash of secret, exchange hash and
  all blocks before it, up to the amount needed. The session id is the exchange hash of the
  first exchange and stays what it was in every later one.
\<close>

theorem kex_derive_keys_agree:
  assumes spec: "evp_md_spec e H B fed" and mem: "\<And>n. malloc lc n \<noteq> None"
    and roles: "\<not> k_server c" "k_server s"
    and same: "hash_alg c = hash_alg s" "we_need c = we_need s"
    and d: "ssh_digest_by_alg (hash_alg s) = Some d" and need: "0 < we_need s"
    and out: "k_newkeys c MODE_OUT = Some n1" "k_newkeys s MODE_IN = Some n1"
    and inn: "k_newkeys c MODE_IN = Some n2" "k_newkeys s MODE_OUT = Some n2"
    and sid: "sid_ready hash sid c" "sid_ready hash sid s"
  shows "\<exists>c' s'. kex_derive_keys lc e hash shared c = (Inr (), c') \<and>
     kex_derive_keys lc e hash shared s = (Inr (), s') \<and>
     contents (session_id c') = sid \<and> contents (session_id s') = sid \<and>
     (let K = session_key (H (sd_name d)) (digest_len d) (we_need s) shared hash sid
      in k_newkeys c' MODE_OUT = Some (keyed K True n1) \<and> k_newkeys s' MODE_IN = Some (keyed K True n1) \<and>
         k_newkeys c' MODE_IN = Some (keyed K False n2) \<and> k_newkeys s' MODE_OUT = Some (keyed K False n2) \<and>
         (\<forall>x. we_need s \<le> length (K x)))"
proof -
  define K where "K = session_key (H (sd_name d)) (digest_len d) (we_need s) shared hash sid"
  have nc: "k_newkeys c m = Some (case m of MODE_IN \<Rightarrow> n2 | MODE_OUT \<Rightarrow> n1)"
    and ns: "k_newkeys s m = Some (case m of MODE_IN \<Rightarrow> n1 | MODE_OUT \<Rightarrow> n2)" for m
    using out inn by (auto split: mode.split)
  have dc: "ssh_digest_by_alg (hash_alg c) = Some d" and needc: "0 < we_need c"
    and Kc: "K = session_key (H (sd_name d)) (digest_len d) (we_need c) shared hash sid"
    using same d need by (simp_all add: K_def)
  obtain bc where bc: "contents bc = sid" "kex_derive_keys lc e hash shared c = (Inr (), c\<lparr>session_id := bc,
      k_newkeys := (\<lambda>m. Some (keyed K (mode_ctos c m) (case m of MODE_IN \<Rightarrow> n2 | MODE_OUT \<Rightarrow> n1)))\<rparr>)"
    by (rule kex_derive_keys_spec[OF spec mem dc needc sid(1) nc Kc])
  obtain bs where bs: "contents bs = sid" "kex_derive_keys lc e hash shared s = (Inr (), s\<lparr>session_id := bs,
      k_newkeys := (\<lambda>m. Some (keyed K (mode_ctos s m) (case m of MODE_IN \<Rightarrow> n1 | MODE_OUT \<Rightarrow> n2)))\<rparr>)"
    by (rule kex_derive_keys_spec[OF spec mem d need sid(2) ns K_def])
  have len: "we_need s \<le> length (K x)" for x
    unfolding K_def by (rule length_session_key[OF evp_md_spec_sizes(3)[OF spec d] digest_len_pos[OF d]])
  show ?thesis
    unfolding K_def[symmetric] using roles len by (simp add: bc bs mode_ctos_def)
qed

text \<open>A first exchange with SHA-256 where 48 bytes are needed, so that each key takes two blocks.\<close>

definition demo_side :: "bool \<Rightarrow> kex" where
  "demo_side server =
     (the (kex_new lc_ok))\<lparr>k_server := server, k_flags := KEX_INITIAL, hash_alg := SSH_DIGEST_SHA256,
       we_need := 48, k_newkeys := (\<lambda>_. Some newkeys_zero)\<rparr>"

lemma kex_new_sid: "session_id (the (kex_new lc_ok)) = buf0"
  by (simp add: kex_new_def sshbuf_new_ok lc_ok_malloc) (simp add: lc_ok_def)

lemma buf0_sid: "length hash \<le> 64 \<Longrightarrow> session_id k = buf0 \<Longrightarrow> k_flags k = KEX_INITIAL \<Longrightarrow> sid_ready hash hash k"
  using sshbuf_new_wf[OF sshbuf_new_ok]
  by (simp add: sid_ready_def kex_flag_def kex_flags buf0_def SSHBUF_SIZE_MAX_def)

theorem kex_derive_keys_agree_witness:
  "\<exists>c' s' K. kex_derive_keys lc_ok toy_md [1, 2, 3] [4] (demo_side False) = (Inr (), c') \<and>
     kex_derive_keys lc_ok toy_md [1, 2, 3] [4] (demo_side True) = (Inr (), s') \<and>
     contents (session_id c') = [1, 2, 3] \<and> k_newkeys c' MODE_OUT = k_newkeys s' MODE_IN \<and>
     k_newkeys c' MODE_OUT = Some (keyed K True newkeys_zero) \<and> 48 \<le> length (K CHR ''C'')"
proof -
  have sid: "sid_ready [1, 2, 3] [1, 2, 3] (demo_side b)" for b
    by (rule buf0_sid) (simp_all add: demo_side_def kex_new_sid)
  have d: "ssh_digest_by_alg (hash_alg (demo_side True)) =
      Some \<lparr>sd_id = SSH_DIGEST_SHA256, sd_name = ''SHA256'', digest_len = 32\<rparr>"
    by (simp add: demo_side_def) code_simp
  let ?K = "session_key (toy_digest ''SHA256'') 32 48 [4] [1, 2, 3] [1, 2, 3]"
  have f: "\<not> k_server (demo_side False)" "k_server (demo_side True)" "hash_alg (demo_side False) = hash_alg (demo_side True)"
    "we_need (demo_side False) = we_need (demo_side True)" "0 < we_need (demo_side True)"
    "we_need (demo_side True) = 48" "\<And>b m. k_newkeys (demo_side b) m = Some newkeys_zero"
    by (simp_all add: demo_side_def)
  note run = kex_derive_keys_agree[OF toy_md_spec lc_ok_malloc f(1-4) d f(5) f(7) f(7) f(7) f(7) sid sid,
      of "[4]", unfolded Let_def f(6)]
  then obtain c' s' where "kex_derive_keys lc_ok toy_md [1, 2, 3] [4] (demo_side False) = (Inr (), c')"
      "kex_derive_keys lc_ok toy_md [1, 2, 3] [4] (demo_side True) = (Inr (), s')"
      "contents (session_id c') = [1, 2, 3]" "k_newkeys c' MODE_OUT = Some (keyed ?K True newkeys_zero)"
      "k_newkeys s' MODE_IN = Some (keyed ?K True newkeys_zero)" "48 \<le> length (?K CHR ''C'')"
    by auto
  then show ?thesis by (intro exI[of _ c'] exI[of _ s'] exI[of _ ?K]) simp
qed

section \<open>The keys fit the ciphers and MACs\<close>

lemma find_in: "find P xs = Some x \<Longrightarrow> x \<in> set xs"
  by (auto simp: find_Some_iff)

lemma ciphers_block_size: "c \<in> set ciphers \<Longrightarrow> 0 < cipher_blocksize c"
proof -
  have "list_all (\<lambda>c. 0 < cipher_blocksize c) ciphers" by code_simp
  then show "c \<in> set ciphers \<Longrightarrow> 0 < cipher_blocksize c" by (simp add: list_all_iff)
qed

lemma valid_kex_digest: "kex_name_valid n \<Longrightarrow> \<exists>d. ssh_digest_by_alg (kex_hash_from_name n) = Some d"
proof -
  have "list_all (\<lambda>k. ssh_digest_by_alg (k_hash_alg k) \<noteq> None) kexalgs" by code_simp
  then show "kex_name_valid n \<Longrightarrow> \<exists>d. ssh_digest_by_alg (kex_hash_from_name n) = Some d"
    by (auto simp: kex_name_valid_def kex_hash_from_name_def kex_alg_by_name_def list_all_iff
      split: option.splits dest: find_in)
qed

lemma macs_types: "a \<in> set macs \<Longrightarrow> ma_type a \<in> {SSH_DIGEST, SSH_UMAC, SSH_UMAC128}"
proof -
  have "list_all (\<lambda>a. ma_type a \<in> {SSH_DIGEST, SSH_UMAC, SSH_UMAC128}) macs" by code_simp
  then show "a \<in> set macs \<Longrightarrow> ma_type a \<in> {SSH_DIGEST, SSH_UMAC, SSH_UMAC128}" by (simp add: list_all_iff)
qed

text \<open>What the choices leave in the keys of a direction: a cipher of the table and, unless it authenticates, a MAC.\<close>

definition well_chosen :: "newkeys \<Rightarrow> bool" where
  "well_chosen nk \<longleftrightarrow>
     (case enc_cipher (nk_enc nk) of
        None \<Rightarrow> False
      | Some c \<Rightarrow> c \<in> set ciphers \<and> enc_key_len (nk_enc nk) = cipher_keylen c \<and>
          enc_iv_len (nk_enc nk) = cipher_ivlen c \<and> enc_block_size (nk_enc nk) = cipher_blocksize c \<and>
          (cipher_authlen c = 0 \<longrightarrow>
             m_type (nk_mac nk) \<in> {SSH_DIGEST, SSH_UMAC, SSH_UMAC128} \<and>
             (m_type (nk_mac nk) = SSH_DIGEST \<longrightarrow> hmac_ctx (nk_mac nk) \<noteq> None)))"

text \<open>Well-typed keys: also the bytes are there, as many as the cipher and the MAC read.\<close>

definition well_keyed :: "newkeys \<Rightarrow> bool" where
  "well_keyed nk \<longleftrightarrow> well_chosen nk \<and>
     (case (enc_key (nk_enc nk), enc_iv (nk_enc nk), m_key (nk_mac nk)) of
        (Some key, Some iv, Some mk) \<Rightarrow>
          enc_key_len (nk_enc nk) \<le> length key \<and> enc_iv_len (nk_enc nk) \<le> length iv \<and>
          m_key_len (nk_mac nk) \<le> length mk
      | _ \<Rightarrow> False)"

lemma choose_enc_well:
  "choose_enc client server en = (Inr (), en') \<Longrightarrow>
   \<exists>c\<in>set ciphers. enc_cipher en' = Some c \<and> enc_key_len en' = cipher_keylen c \<and>
     enc_iv_len en' = cipher_ivlen c \<and> enc_block_size en' = cipher_blocksize c"
  by (auto simp: choose_enc_def op_simps cipher_by_name_def dest!: find_in split: option.splits)

lemma choose_mac_well:
  assumes "choose_mac lc e client server m = (Inr (), m')"
  shows "m_type m' \<in> {SSH_DIGEST, SSH_UMAC, SSH_UMAC128} \<and> (m_type m' = SSH_DIGEST \<longrightarrow> hmac_ctx m' \<noteq> None)"
proof -
  obtain name m1 where "mac_setup lc e name m = (Inr (), m1)"
      and m': "m' = m1\<lparr>m_name := Some name, m_key := None, m_enabled := False\<rparr>"
    using assms by (auto simp: choose_mac_def op_simps split: option.splits prod.splits sum.splits)
  then obtain a where a: "a \<in> set macs" and run: "mac_setup_by_alg lc e a m = (Inr (), m1)"
    by (auto simp: mac_setup_def mac_alg_by_name_def op_simps dest: find_in split: option.splits)
  have "m_type m1 = ma_type a \<and> (ma_type a = SSH_DIGEST \<longrightarrow> hmac_ctx m1 \<noteq> None)"
    using run by (auto simp: mac_setup_by_alg_def op_simps bind_op_def split: if_splits option.splits)
  then show ?thesis using macs_types[OF a] by (simp add: m')
qed

lemma choose_newkeys_parts:
  assumes "fst (choose_newkeys lc e cprop sprop ctos) = None"
  obtains i j en m where "choose_enc (cprop ! i) (sprop ! i) (nk_enc newkeys_zero) = (Inr (), en)"
    and "cipher_authlen (the (enc_cipher en)) = 0 \<Longrightarrow>
      choose_mac lc e (cprop ! j) (sprop ! j) (nk_mac newkeys_zero) = (Inr (), m)"
    and "nk_enc (snd (choose_newkeys lc e cprop sprop ctos)) = en"
    and "nk_mac (snd (choose_newkeys lc e cprop sprop ctos)) = m"
proof -
  define i where "i = (if ctos then PROPOSAL_ENC_ALGS_CTOS else PROPOSAL_ENC_ALGS_STOC)"
  define j where "j = (if ctos then PROPOSAL_MAC_ALGS_CTOS else PROPOSAL_MAC_ALGS_STOC)"
  define l where "l = (if ctos then PROPOSAL_COMP_ALGS_CTOS else PROPOSAL_COMP_ALGS_STOC)"
  obtain re en where E: "choose_enc (cprop ! i) (sprop ! i) (nk_enc newkeys_zero) = (re, en)" by fastforce
  obtain rm m where M: "(if cipher_authlen (the (enc_cipher en)) = 0
      then choose_mac lc e (cprop ! j) (sprop ! j) (nk_mac newkeys_zero)
      else (Inr (), nk_mac newkeys_zero)) = (rm, m)" by fastforce
  obtain rc c where C: "choose_comp (cprop ! l) (sprop ! l) (nk_comp newkeys_zero) = (rc, c)" by fastforce
  have eq: "choose_newkeys lc e cprop sprop ctos =
      (case re of Inl er \<Rightarrow> (Some (i, er), newkeys_zero\<lparr>nk_enc := en\<rparr>) | Inr _ \<Rightarrow>
       case rm of Inl er \<Rightarrow> (Some (j, er), newkeys_zero\<lparr>nk_enc := en, nk_mac := m\<rparr>) | Inr _ \<Rightarrow>
       case rc of Inl er \<Rightarrow> (Some (l, er), newkeys_zero\<lparr>nk_enc := en, nk_mac := m, nk_comp := c\<rparr>) | Inr _ \<Rightarrow>
         (None, newkeys_zero\<lparr>nk_enc := en, nk_mac := m, nk_comp := c\<rparr>))"
    using M unfolding choose_newkeys_def Let_def i_def[symmetric] j_def[symmetric] l_def[symmetric]
    by (cases "cipher_authlen (the (enc_cipher en)) = 0"; cases re; cases rm; cases rc; simp add: E C)
  have r: "re = Inr ()" "rm = Inr ()" "rc = Inr ()"
    using assms by (auto simp: eq split: sum.splits)
  then show ?thesis
    using that[of i en j m] E M by (simp add: eq split: if_splits)
qed

lemma choose_newkeys_well:
  assumes "fst (choose_newkeys lc e cprop sprop ctos) = None"
  shows "well_chosen (snd (choose_newkeys lc e cprop sprop ctos))"
proof (rule choose_newkeys_parts[OF assms])
  fix i j en m
  assume *: "choose_enc (cprop ! i) (sprop ! i) (nk_enc newkeys_zero) = (Inr (), en)"
    "cipher_authlen (the (enc_cipher en)) = 0 \<Longrightarrow>
      choose_mac lc e (cprop ! j) (sprop ! j) (nk_mac newkeys_zero) = (Inr (), m)"
    "nk_enc (snd (choose_newkeys lc e cprop sprop ctos)) = en"
    "nk_mac (snd (choose_newkeys lc e cprop sprop ctos)) = m"
  show ?thesis using choose_enc_well[OF *(1)] choose_mac_well[OF *(2)] by (auto simp: well_chosen_def *(3,4))
qed

lemma newkeys_need_pos: "well_chosen nk \<Longrightarrow> 0 < newkeys_need nk"
  using ciphers_block_size by (auto simp: well_chosen_def newkeys_need_def less_max_iff_disj split: option.splits)

lemma keyed_well:
  "well_chosen nk \<Longrightarrow> (\<And>c. newkeys_need nk \<le> length (K c)) \<Longrightarrow> well_keyed (keyed K b nk)"
  by (auto simp: well_keyed_def keyed_def well_chosen_def newkeys_need_def split: option.splits)

text \<open>Negotiation touches neither the session id nor what decides whether it is to be set.\<close>

lemma set_flag_other: "f AND g = 0 \<Longrightarrow> kex_flag g (set_flag f k) = kex_flag g k"
  by (simp add: kex_flag_def set_flag_def bit.conj_disj_distrib2)

lemma signalling_frame:
  assumes "check_signalling peer seq k = Some (Inr (), k0)"
  shows "session_id (check_rsa_sha2 peer k0) = session_id k"
    and "kex_flag KEX_INITIAL (check_rsa_sha2 peer k0) = kex_flag KEX_INITIAL k"
proof -
  have k0: "session_id k0 = session_id k" "k_flags k0 = k_flags k"
    using assms by (auto simp: check_signalling_def proc_simps Let_def split: if_splits)
  have "kex_flag KEX_INITIAL (set_flag KEX_RSA_SHA2_256_SUPPORTED k') = kex_flag KEX_INITIAL k'"
    "kex_flag KEX_INITIAL (set_flag KEX_RSA_SHA2_512_SUPPORTED k') = kex_flag KEX_INITIAL k'" for k'
    by (rule set_flag_other, simp add: kex_flags)+
  then have "kex_flag KEX_INITIAL (check_rsa_sha2 peer k0) = kex_flag KEX_INITIAL k0"
    by (simp add: check_rsa_sha2_def Let_def)
  then show "kex_flag KEX_INITIAL (check_rsa_sha2 peer k0) = kex_flag KEX_INITIAL k"
    using k0(2) by (simp add: kex_flag_def)
  show "session_id (check_rsa_sha2 peer k0) = session_id k"
    using k0(1) by (simp add: check_rsa_sha2_def set_flag_def Let_def)
qed

lemma choices_frame:
  "choices lc e kl cprop sprop peer k = (Inr (), k') \<Longrightarrow>
   session_id k' = session_id k \<and> k_flags k' = k_flags k"
  unfolding choices_Inr choose_kex_Inr choose_hostkeyalg_Inr by (auto simp: set_needs_def Let_def)

lemma kex_choose_conf_Inr:
  assumes run: "kex_choose_conf lc e kl seq k = Some (Inr skip, k')"
  obtains cprop sprop where "chosen lc e kl cprop sprop k'" and "choice_ok lc e kl cprop sprop"
    and "session_id k' = session_id k" and "kex_flag KEX_INITIAL k' = kex_flag KEX_INITIAL k"
proof -
  obtain f1 my f2 peer where dec: "kex_buf2prop lc (k_my k) = Inr (f1, my)" "kex_buf2prop lc (k_peer k) = Inr (f2, peer)"
    using run by (auto simp: kex_choose_conf_def proc_simps split: sum.splits)
  obtain k0 where k0: "check_signalling peer seq k = Some (Inr (), k0)"
    using run by (auto simp: kex_choose_conf_def dec Let_def elim: pbind_InrE)
  have "choices lc e kl (if k_server k then peer else my) (if k_server k then my else peer) peer
      (check_rsa_sha2 peer k0) = (Inr (), k')"
    using kex_choose_conf_run[OF dec k0, of e kl] run by (auto split: prod.splits sum.splits)
  then show ?thesis
    using that choices_chosen choices_Inr choices_frame signalling_frame[OF k0] unfolding kex_flag_def by metis
qed

text \<open>
  C36. Well-typed keys. Whenever negotiation and key derivation succeed, in a first exchange or
  a later one, each direction holds a cipher of the table with the key length, vector length
  and block size of that cipher, at least so many bytes of key and of vector, and, unless
  the cipher authenticates, an initialised MAC with at least as many key bytes as it reads:
  what \<^verbatim>\<open>ssh_set_newkeys\<close> hands to \<^verbatim>\<open>mac_init\<close> and \<^verbatim>\<open>cipher_init\<close> has the lengths they rely on.
\<close>

theorem negotiated_keys_well_typed:
  assumes spec: "evp_md_spec e H B fed" and mem: "\<And>n. malloc lc n \<noteq> None"
    and conf: "kex_choose_conf lc e kl seq k = Some (Inr skip, k1)" and sid: "sid_ready hash sid k"
  shows "\<exists>k2. kex_derive_keys lc e hash shared k1 = (Inr (), k2) \<and>
     (\<forall>m. \<exists>nk. k_newkeys k2 m = Some nk \<and> well_keyed nk)"
proof -
  obtain cprop sprop where ch: "chosen lc e kl cprop sprop k1" and ok: "choice_ok lc e kl cprop sprop"
      and frame: "session_id k1 = session_id k" "kex_flag KEX_INITIAL k1 = kex_flag KEX_INITIAL k"
    by (rule kex_choose_conf_Inr[OF conf])
  have sid1: "sid_ready hash sid k1" using sid by (simp add: sid_ready_def frame)
  define nk where "nk m = snd (choose_newkeys lc e cprop sprop (mode_ctos k1 m))" for m
  have nks: "k_newkeys k1 m = Some (nk m)" for m
    using ch by (simp add: chosen_def Let_def nk_def)
  have well: "well_chosen (nk m)" for m
    unfolding nk_def using ok by (intro choose_newkeys_well) (cases "mode_ctos k1 m"; simp add: choice_ok_def)
  have need: "newkeys_need (nk m) \<le> we_need k1" for m
    using ch by (cases m) (simp_all add: chosen_def Let_def nk_def)
  then have pos: "0 < we_need k1" using newkeys_need_pos[OF well[of MODE_IN]] by (meson less_le_trans)
  obtain d where d: "ssh_digest_by_alg (hash_alg k1) = Some d"
    using ch ok valid_kex_digest by (fastforce simp: chosen_def Let_def choice_ok_def kex_ok_def split: option.splits)
  define K where "K = session_key (H (sd_name d)) (digest_len d) (we_need k1) shared hash sid"
  have len: "newkeys_need (nk m) \<le> length (K x)" for m x
    unfolding K_def using length_session_key[OF evp_md_spec_sizes(3)[OF spec d] digest_len_pos[OF d]] need
    by (meson le_trans)
  show ?thesis
    by (rule kex_derive_keys_spec[OF spec mem d pos sid1 nks K_def]) (simp add: keyed_well[OF well len])
qed

theorem negotiated_keys_well_typed_witness:
  "\<exists>skip k1 k2 nk. kex_choose_conf lc_ok toy_md demo_keys 0 (demo_kex False demo_client demo_server) = Some (Inr skip, k1) \<and>
     kex_derive_keys lc_ok toy_md [1, 2, 3] [4] k1 = (Inr (), k2) \<and>
     k_newkeys k2 MODE_OUT = Some nk \<and> well_keyed nk"
proof -
  let ?k = "demo_kex False demo_client demo_server"
  have b: "kex_buf2prop lc_ok (k_my ?k) = Inr (0, demo_client)" "kex_buf2prop lc_ok (k_peer ?k) = Inr (0, demo_server)"
    by (simp_all add: demo_kex_def demo_buf_dec)
  have r: "demo_client = (if k_server ?k then demo_server else demo_client)"
    "demo_server = (if k_server ?k then demo_client else demo_server)" by (simp_all add: demo_kex_def)
  obtain rc k1 where "kex_choose_conf lc_ok toy_md demo_keys 0 ?k = Some (rc, k1)" and "\<not> isl rc"
    by (rule kex_choose_conf_outcome[OF b _ r, where e = toy_md and kl = demo_keys and seq = 0])
      (use demo_choice_ok in \<open>auto simp: strict_violation_def\<close>)
  then obtain skip where conf: "kex_choose_conf lc_ok toy_md demo_keys 0 ?k = Some (Inr skip, k1)"
    by (cases rc) auto
  have sid: "sid_ready [1, 2, 3] [1, 2, 3] ?k"
    by (rule buf0_sid) (simp_all add: demo_kex_def kex_new_sid)
  show ?thesis
    using negotiated_keys_well_typed[OF toy_md_spec lc_ok_malloc conf sid, of "[4]"] conf by blast
qed

end
