(* ===== verification/Packet.thy ===== *)
theory Packet
  imports KexKeys
begin

unbundle bit_operations_syntax

text \<open>
  The state of the packet layer and its operations of \<^verbatim>\<open>packet.c\<close> up to a finished packet in
  the output buffer: the interface that composes and parses messages, compression, the
  installation of keys, the limits that ask for new keys, padding, authentication and
  encryption.
\<close>

section \<open>What the packet layer uses\<close>

text \<open>
  The functions of zlib: a call gets the stream, the input that is left and the room for
  output, and returns a status, the output, the number of input bytes used and the stream.
\<close>

datatype zstatus =
  Z_OK | Z_STREAM_END | Z_NEED_DICT | Z_ERRNO | Z_STREAM_ERROR | Z_DATA_ERROR | Z_MEM_ERROR |
  Z_BUF_ERROR | Z_VERSION_ERROR

record zlib =
  deflateInit :: "int \<Rightarrow> zstatus \<times> opaque"
  deflate :: "opaque \<Rightarrow> byte list \<Rightarrow> nat \<Rightarrow> zstatus \<times> byte list \<times> nat \<times> opaque"
  inflateInit :: "zstatus \<times> opaque"
  inflate :: "opaque \<Rightarrow> byte list \<Rightarrow> nat \<Rightarrow> zstatus \<times> byte list \<times> nat \<times> opaque"

text \<open>What a system call on the connection returns.\<close>

datatype io_result = Io_bytes "byte list" | Io_count nat | Io_again | Io_failed | Io_timeout

text \<open>
  The libraries and the outside world: the bytes of \<^verbatim>\<open>arc4random_buf\<close>, the readings of
  \<^verbatim>\<open>monotime\<close> and the results of system calls, each numbered from the start of the process.
  \<open>e_u\<close> is the static block of \<^verbatim>\<open>mac_compute\<close>.
\<close>

record penv =
  e_lc :: libc
  e_md :: evp_md
  e_um :: umac_lib
  e_u :: "byte list"
  e_ev :: evp_cipher
  e_z :: zlib
  e_keys :: sshkey_lib
  e_random :: "nat \<Rightarrow> byte"
  e_clock :: "nat \<Rightarrow> int"
  e_io :: "nat \<Rightarrow> io_result"

section \<open>State\<close>

record packet_state =
  seqnr :: "32 word"
  packets :: "32 word"
  blocks :: "64 word"
  pbytes :: "64 word"

text \<open>
  \<^verbatim>\<open>struct session_state\<close>. The MAC that \<^verbatim>\<open>packet_discard_mac\<close> may point to is the incoming one,
  so the field says whether it does. The hook for fuzzing is not set.
\<close>

record session_state =
  connection_in :: int
  connection_out :: int
  remote_protocol_flags :: "32 word"
  receive_context :: "sshcipher_ctx option"
  send_context :: "sshcipher_ctx option"
  s_input :: sshbuf
  s_output :: sshbuf
  outgoing_packet :: sshbuf
  incoming_packet :: sshbuf
  compression_buffer :: "sshbuf option"
  compression_in_stream :: opaque
  compression_out_stream :: opaque
  compression_in_started :: bool
  compression_out_started :: bool
  compression_in_failures :: int
  compression_out_failures :: int
  max_packet_size :: "32 word"
  s_initialized :: bool
  start_time :: int
  interactive_mode :: int
  server_side :: bool
  after_authentication :: bool
  keep_alive_timeouts :: int
  packet_timeout_ms :: int
  s_newkeys :: "mode \<Rightarrow> newkeys option"
  p_read :: packet_state
  p_send :: packet_state
  hard_max_blocks :: "mode \<Rightarrow> 64 word"
  max_blocks :: "mode \<Rightarrow> 64 word"
  rekey_limit :: "64 word"
  rekey_interval :: "32 word"
  rekey_time :: int
  extra_pad :: byte
  packet_discard :: "32 word"
  packet_discard_mac_already :: nat
  packet_discard_mac :: bool
  packlen :: "32 word"
  rekeying :: bool
  s_mux :: bool
  qos_interactive :: int
  qos_other :: int
  set_maxsize_called :: bool
  outgoing :: "(byte \<times> sshbuf) list"

text \<open>
  The handlers of \<^verbatim>\<open>ssh->dispatch\<close> that \<^verbatim>\<open>kex.c\<close> and \<^verbatim>\<open>dispatch.c\<close> install; a handler of another
  part of the program is a number.
\<close>

datatype dispatch_fn =
  Kex_protocol_error | Kex_input_kexinit | Kex_input_newkeys | Kex_input_ext_info |
  Dispatch_protocol_error | Dispatch_protocol_ignore | Other_handler nat

text \<open>\<^verbatim>\<open>struct ssh\<close>, with the number of random bytes, clock readings and system calls so far.\<close>

record ssh =
  sh_state :: session_state
  sh_kex :: "kex option"
  sh_dispatch :: "nat \<Rightarrow> dispatch_fn option"
  dispatch_skip_packets :: int
  sh_compat :: "32 word"
  sh_random :: nat
  sh_clock :: nat
  sh_calls :: nat

definition PACKET_MAX_SIZE :: nat where "PACKET_MAX_SIZE = 256 * 1024"
definition MAX_PACKETS :: "32 word" where "MAX_PACKETS = push_bit 31 1"
definition DISPATCH_MAX :: nat where "DISPATCH_MAX = 255"

definition SSH_MSG_NONE :: byte where "SSH_MSG_NONE = 0"
definition SSH2_MSG_MIN :: byte where "SSH2_MSG_MIN = 1"
definition SSH2_MSG_TRANSPORT_MIN :: byte where "SSH2_MSG_TRANSPORT_MIN = 1"
definition SSH2_MSG_TRANSPORT_MAX :: byte where "SSH2_MSG_TRANSPORT_MAX = 49"
definition SSH2_MSG_CONNECTION_MIN :: byte where "SSH2_MSG_CONNECTION_MIN = 80"
definition SSH2_MSG_CONNECTION_MAX :: byte where "SSH2_MSG_CONNECTION_MAX = 127"
definition SSH2_MSG_DISCONNECT :: byte where "SSH2_MSG_DISCONNECT = 1"
definition SSH2_MSG_IGNORE :: byte where "SSH2_MSG_IGNORE = 2"
definition SSH2_MSG_UNIMPLEMENTED :: byte where "SSH2_MSG_UNIMPLEMENTED = 3"
definition SSH2_MSG_DEBUG :: byte where "SSH2_MSG_DEBUG = 4"
definition SSH2_MSG_SERVICE_REQUEST :: byte where "SSH2_MSG_SERVICE_REQUEST = 5"
definition SSH2_MSG_SERVICE_ACCEPT :: byte where "SSH2_MSG_SERVICE_ACCEPT = 6"
definition SSH2_MSG_EXT_INFO :: byte where "SSH2_MSG_EXT_INFO = 7"
definition SSH2_MSG_KEXINIT :: byte where "SSH2_MSG_KEXINIT = 20"
definition SSH2_MSG_NEWKEYS :: byte where "SSH2_MSG_NEWKEYS = 21"
definition SSH2_MSG_USERAUTH_SUCCESS :: byte where "SSH2_MSG_USERAUTH_SUCCESS = 52"
definition SSH2_MSG_PING :: byte where "SSH2_MSG_PING = 192"
definition SSH2_MSG_PONG :: byte where "SSH2_MSG_PONG = 193"
definition SSH2_DISCONNECT_PROTOCOL_ERROR :: "32 word" where "SSH2_DISCONNECT_PROTOCOL_ERROR = 2"

lemmas msg_numbers =
  SSH_MSG_NONE_def SSH2_MSG_MIN_def SSH2_MSG_TRANSPORT_MIN_def SSH2_MSG_TRANSPORT_MAX_def
  SSH2_MSG_CONNECTION_MIN_def SSH2_MSG_CONNECTION_MAX_def SSH2_MSG_DISCONNECT_def
  SSH2_MSG_IGNORE_def SSH2_MSG_UNIMPLEMENTED_def SSH2_MSG_DEBUG_def SSH2_MSG_SERVICE_REQUEST_def
  SSH2_MSG_SERVICE_ACCEPT_def SSH2_MSG_EXT_INFO_def SSH2_MSG_KEXINIT_def SSH2_MSG_NEWKEYS_def
  SSH2_MSG_USERAUTH_SUCCESS_def SSH2_MSG_PING_def SSH2_MSG_PONG_def

text \<open>A \<^verbatim>\<open>NULL\<close> buffer: every check of it fails.\<close>

definition null_sshbuf :: sshbuf where
  "null_sshbuf =
     \<lparr>b_self = None, b_d = None, b_cd = None, b_mem = [], b_off = 0, b_size = 0, b_max_size = 0,
      b_alloc = 0, b_readonly = False, b_refcount = 0, b_parent = None\<rparr>"

definition packet_state_zero :: packet_state where
  "packet_state_zero = \<lparr>seqnr = 0, packets = 0, blocks = 0, pbytes = 0\<rparr>"

definition sizeof_ssh :: nat where "sizeof_ssh = 2200"
definition sizeof_session_state :: nat where "sizeof_session_state = 560"
definition sizeof_packet :: nat where "sizeof_packet = 32"

definition ssh_alloc_session_state :: "penv \<Rightarrow> ssh option" where
  "ssh_alloc_session_state e =
     (case (malloc (e_lc e) sizeof_ssh, malloc (e_lc e) sizeof_session_state, kex_new (e_lc e),
            sshbuf_new (e_lc e), sshbuf_new (e_lc e), sshbuf_new (e_lc e), sshbuf_new (e_lc e)) of
        (Some _, Some _, Some k, Some i, Some out, Some og, Some ic) \<Rightarrow> Some
          \<lparr>sh_state =
             \<lparr>connection_in = - 1, connection_out = - 1, remote_protocol_flags = 0,
              receive_context = None, send_context = None, s_input = i, s_output = out,
              outgoing_packet = og, incoming_packet = ic, compression_buffer = None,
              compression_in_stream = [], compression_out_stream = [],
              compression_in_started = False, compression_out_started = False,
              compression_in_failures = 0, compression_out_failures = 0,
              max_packet_size = 32768, s_initialized = True, start_time = 0,
              interactive_mode = 1, server_side = False, after_authentication = False,
              keep_alive_timeouts = 0, packet_timeout_ms = - 1, s_newkeys = (\<lambda>_. None),
              p_read = packet_state_zero, p_send = packet_state_zero,
              hard_max_blocks = (\<lambda>_. 0), max_blocks = (\<lambda>_. 0), rekey_limit = 0,
              rekey_interval = 0, rekey_time = 0, extra_pad = 0, packet_discard = 0,
              packet_discard_mac_already = 0, packet_discard_mac = False, packlen = 0,
              rekeying = True, s_mux = False, qos_interactive = - 1, qos_other = - 1,
              set_maxsize_called = False, outgoing = []\<rparr>,
           sh_kex = Some k, sh_dispatch = (\<lambda>_. None), dispatch_skip_packets = 0, sh_compat = 0,
           sh_random = 0, sh_clock = 0, sh_calls = 0\<rparr>
      | _ \<Rightarrow> None)"

section \<open>Access to the parts of the state\<close>

definition on_state :: "(session_state, 'a) op \<Rightarrow> (ssh, 'a) op" where
  "on_state = zoom sh_state sh_state_update"

definition on_input :: "(sshbuf, 'a) op \<Rightarrow> (ssh, 'a) op" where
  "on_input m = on_state (zoom s_input s_input_update m)"

definition on_output :: "(sshbuf, 'a) op \<Rightarrow> (ssh, 'a) op" where
  "on_output m = on_state (zoom s_output s_output_update m)"

definition on_outgoing :: "(sshbuf, 'a) op \<Rightarrow> (ssh, 'a) op" where
  "on_outgoing m = on_state (zoom outgoing_packet outgoing_packet_update m)"

definition on_incoming :: "(sshbuf, 'a) op \<Rightarrow> (ssh, 'a) op" where
  "on_incoming m = on_state (zoom incoming_packet incoming_packet_update m)"

text \<open>Objects behind a pointer that the code reads without a test: \<^verbatim>\<open>NULL\<close> ends the process.\<close>

definition on_kex :: "(kex, 'a) op \<Rightarrow> (ssh, 'a) proc" where
  "on_kex m s =
     (case sh_kex s of
        None \<Rightarrow> None
      | Some k \<Rightarrow> (case m k of (r, k') \<Rightarrow> Some (r, s\<lparr>sh_kex := Some k'\<rparr>)))"

definition on_compression :: "(sshbuf, 'a) op \<Rightarrow> (ssh, 'a) proc" where
  "on_compression m s =
     (case compression_buffer (sh_state s) of
        None \<Rightarrow> None
      | Some b \<Rightarrow> (case m b of (r, b') \<Rightarrow>
          Some (r, s\<lparr>sh_state := (sh_state s)\<lparr>compression_buffer := Some b'\<rparr>\<rparr>)))"

definition on_context :: "mode \<Rightarrow> (sshcipher_ctx, 'a) op \<Rightarrow> (ssh, 'a) proc" where
  "on_context m f s =
     (let st = sh_state s in
      case (if m = MODE_OUT then send_context st else receive_context st) of
        None \<Rightarrow> None
      | Some c \<Rightarrow> (case f c of (r, c') \<Rightarrow> Some (r, s\<lparr>sh_state :=
          (if m = MODE_OUT then st\<lparr>send_context := Some c'\<rparr>
           else st\<lparr>receive_context := Some c'\<rparr>)\<rparr>)))"

definition on_newkeys :: "mode \<Rightarrow> (newkeys, 'a) op \<Rightarrow> (ssh, 'a) proc" where
  "on_newkeys m f s =
     (case s_newkeys (sh_state s) m of
        None \<Rightarrow> None
      | Some nk \<Rightarrow> (case f nk of (r, nk') \<Rightarrow> Some (r, s\<lparr>sh_state :=
          (sh_state s)\<lparr>s_newkeys := (s_newkeys (sh_state s))(m := Some nk')\<rparr>\<rparr>)))"

definition on_mac :: "mode \<Rightarrow> (sshmac, 'a) op \<Rightarrow> (ssh, 'a) proc" where
  "on_mac m f = on_newkeys m (zoom nk_mac nk_mac_update f)"

definition set_state :: "(session_state \<Rightarrow> session_state) \<Rightarrow> (ssh, unit) proc" where
  "set_state f = pmodify (sh_state_update f)"

definition pget :: "('s \<Rightarrow> 'a) \<Rightarrow> ('s, 'a) proc" where
  "pget f s = pret (f s) s"

definition pwhen :: "bool \<Rightarrow> ('s, unit) proc \<Rightarrow> ('s, unit) proc" where
  "pwhen b m = (if b then m else pret ())"

definition arc4random_buf :: "penv \<Rightarrow> nat \<Rightarrow> (ssh, byte list) proc" where
  "arc4random_buf e n s =
     Some (Inr (map (\<lambda>i. e_random e (sh_random s + i)) [0..<n]), s\<lparr>sh_random := sh_random s + n\<rparr>)"

definition monotime :: "penv \<Rightarrow> (ssh, int) proc" where
  "monotime e s = Some (Inr (e_clock e (sh_clock s)), s\<lparr>sh_clock := sh_clock s + 1\<rparr>)"

definition system_call :: "penv \<Rightarrow> (ssh, io_result) proc" where
  "system_call e s = Some (Inr (e_io e (sh_calls s)), s\<lparr>sh_calls := sh_calls s + 1\<rparr>)"

section \<open>Composing and parsing messages\<close>

definition sshpkt_put :: "penv \<Rightarrow> byte list \<Rightarrow> (ssh, unit) op" where
  "sshpkt_put e v = on_outgoing (sshbuf_put (e_lc e) v)"

definition sshpkt_putb :: "penv \<Rightarrow> sshbuf option \<Rightarrow> (ssh, unit) op" where
  "sshpkt_putb e b = on_outgoing (sshbuf_putb (e_lc e) b)"

definition sshpkt_put_u8 :: "penv \<Rightarrow> byte \<Rightarrow> (ssh, unit) op" where
  "sshpkt_put_u8 e val = on_outgoing (sshbuf_put_u8 (e_lc e) val)"

definition sshpkt_put_u32 :: "penv \<Rightarrow> 32 word \<Rightarrow> (ssh, unit) op" where
  "sshpkt_put_u32 e val = on_outgoing (sshbuf_put_u32 (e_lc e) val)"

definition sshpkt_put_u64 :: "penv \<Rightarrow> 64 word \<Rightarrow> (ssh, unit) op" where
  "sshpkt_put_u64 e val = on_outgoing (sshbuf_put_u64 (e_lc e) val)"

definition sshpkt_put_string :: "penv \<Rightarrow> byte list \<Rightarrow> (ssh, unit) op" where
  "sshpkt_put_string e v = on_outgoing (sshbuf_put_string (e_lc e) v)"

definition sshpkt_put_cstring :: "penv \<Rightarrow> byte list option \<Rightarrow> (ssh, unit) op" where
  "sshpkt_put_cstring e v = on_outgoing (sshbuf_put_cstring (e_lc e) v)"

definition sshpkt_put_stringb :: "penv \<Rightarrow> sshbuf option \<Rightarrow> (ssh, unit) op" where
  "sshpkt_put_stringb e v = on_outgoing (sshbuf_put_stringb (e_lc e) v)"

definition sshpkt_get :: "nat \<Rightarrow> (ssh, byte list) op" where
  "sshpkt_get len = on_incoming (sshbuf_get len)"

definition sshpkt_get_u8 :: "(ssh, byte) op" where
  "sshpkt_get_u8 = on_incoming sshbuf_get_u8"

definition sshpkt_get_u32 :: "(ssh, 32 word) op" where
  "sshpkt_get_u32 = on_incoming sshbuf_get_u32"

definition sshpkt_get_u64 :: "(ssh, 64 word) op" where
  "sshpkt_get_u64 = on_incoming sshbuf_get_u64"

definition sshpkt_get_string :: "penv \<Rightarrow> (ssh, byte list) op" where
  "sshpkt_get_string e = on_incoming (sshbuf_get_string (e_lc e))"

definition sshpkt_get_string_direct :: "(ssh, byte list) op" where
  "sshpkt_get_string_direct = on_incoming sshbuf_get_string_direct"

definition sshpkt_peek_string_direct :: "ssh \<Rightarrow> ssherr + byte list" where
  "sshpkt_peek_string_direct s = sshbuf_peek_string_direct (incoming_packet (sh_state s))"

definition sshpkt_get_cstring :: "penv \<Rightarrow> (ssh, byte list) op" where
  "sshpkt_get_cstring e = on_incoming (sshbuf_get_cstring (e_lc e))"

definition sshpkt_get_end :: "(ssh, unit) op" where
  "sshpkt_get_end s =
     (if sshbuf_len (incoming_packet (sh_state s)) > 0 then err SSH_ERR_UNEXPECTED_TRAILING_DATA
      else ret ()) s"

definition ssh_packet_remaining :: "ssh \<Rightarrow> nat" where
  "ssh_packet_remaining s = sshbuf_len (incoming_packet (sh_state s))"

definition sshpkt_start :: "penv \<Rightarrow> byte \<Rightarrow> (ssh, unit) op" where
  "sshpkt_start e type =
     on_outgoing (\<lambda>b. sshbuf_put (e_lc e) [0, 0, 0, 0, 0, type] (sshbuf_reset (e_lc e) b))"

definition sshpkt_add_padding :: "byte \<Rightarrow> (ssh, unit) op" where
  "sshpkt_add_padding pad = on_state (modify_op (\<lambda>st. st\<lparr>extra_pad := pad\<rparr>))"

text \<open>The loop of \<^verbatim>\<open>sshpkt_msg_ignore\<close>: four bytes of each random number, lowest first.\<close>

fun msg_ignore_loop :: "penv \<Rightarrow> nat \<Rightarrow> nat \<Rightarrow> 32 word \<Rightarrow> (ssh, unit) proc" where
  "msg_ignore_loop e i 0 rnd = pret ()"
| "msg_ignore_loop e i (Suc n) rnd =
     pbind (if i mod 4 = 0
            then pbind (arc4random_buf e 4) (\<lambda>r. pret (PEEK_U32 r)) else pret rnd) (\<lambda>rnd.
     pbind (of_op (sshpkt_put_u8 e (ucast rnd AND 0xff))) (\<lambda>_.
     msg_ignore_loop e (i + 1) n (drop_bit 8 rnd)))"

definition sshpkt_msg_ignore :: "penv \<Rightarrow> 32 word \<Rightarrow> (ssh, unit) proc" where
  "sshpkt_msg_ignore e nbytes =
     pbind (of_op (sshpkt_start e SSH2_MSG_IGNORE)) (\<lambda>_.
     pbind (of_op (sshpkt_put_u32 e nbytes)) (\<lambda>_.
     msg_ignore_loop e 0 (unat nbytes) 0))"

section \<open>Compression\<close>

definition ssh_packet_init_compression :: "penv \<Rightarrow> (ssh, unit) proc" where
  "ssh_packet_init_compression e s =
     (if compression_buffer (sh_state s) \<noteq> None then pret () s
      else (case sshbuf_new (e_lc e) of
         None \<Rightarrow> perr SSH_ERR_ALLOC_FAIL s
       | Some b \<Rightarrow> set_state (\<lambda>st. st\<lparr>compression_buffer := Some b\<rparr>) s))"

definition start_compression_out :: "penv \<Rightarrow> int \<Rightarrow> (ssh, unit) proc" where
  "start_compression_out e level =
     (if level < 1 \<or> level > 9 then perr SSH_ERR_INVALID_ARGUMENT
      else case deflateInit (e_z e) level of (status, z) \<Rightarrow>
        pbind (set_state (\<lambda>st. st\<lparr>compression_out_stream := z\<rparr>)) (\<lambda>_.
        if status = Z_OK then set_state (\<lambda>st. st\<lparr>compression_out_started := True\<rparr>)
        else if status = Z_MEM_ERROR then perr SSH_ERR_ALLOC_FAIL
        else perr SSH_ERR_INTERNAL_ERROR))"

definition start_compression_in :: "penv \<Rightarrow> (ssh, unit) proc" where
  "start_compression_in e =
     (case inflateInit (e_z e) of (status, z) \<Rightarrow>
        pbind (set_state (\<lambda>st. st\<lparr>compression_in_stream := z\<rparr>)) (\<lambda>_.
        if status = Z_OK then set_state (\<lambda>st. st\<lparr>compression_in_started := True\<rparr>)
        else if status = Z_MEM_ERROR then perr SSH_ERR_ALLOC_FAIL
        else perr SSH_ERR_INTERNAL_ERROR))"

text \<open>
  The loops of \<^verbatim>\<open>compress_buffer\<close> and \<^verbatim>\<open>uncompress_buffer\<close>; \<open>inp\<close> is the input that is left. The
  only calls compress the outgoing and uncompress the incoming packet into the compression
  buffer. \<^const>\<open>None\<close> is also the result of a loop that does not end.
\<close>

partial_function (option) compress_loop ::
  "penv \<Rightarrow> byte list \<Rightarrow> ssh \<Rightarrow> ((ssherr + unit) \<times> ssh) option" where
  "compress_loop e inp s =
     (case deflate (e_z e) (compression_out_stream (sh_state s)) inp 4096 of
        (status, out, used, z) \<Rightarrow>
          (let s1 = s\<lparr>sh_state := (sh_state s)\<lparr>compression_out_stream := z\<rparr>\<rparr>
           in if status = Z_MEM_ERROR then Some (Inl SSH_ERR_ALLOC_FAIL, s1)
              else if status = Z_OK then
                (case on_compression (sshbuf_put (e_lc e) out) s1 of
                   None \<Rightarrow> None
                 | Some (r, s2) \<Rightarrow>
                     (case r of
                        Inl er \<Rightarrow> Some (Inl er, s2)
                      | Inr _ \<Rightarrow> if 4096 - length out = 0 then compress_loop e (drop used inp) s2
                                 else Some (Inr (), s2)))
              else Some (Inl SSH_ERR_INVALID_FORMAT, s1\<lparr>sh_state := (sh_state s1)
                \<lparr>compression_out_failures := compression_out_failures (sh_state s1) + 1\<rparr>\<rparr>)))"

partial_function (option) uncompress_loop ::
  "penv \<Rightarrow> byte list \<Rightarrow> ssh \<Rightarrow> ((ssherr + unit) \<times> ssh) option" where
  "uncompress_loop e inp s =
     (case inflate (e_z e) (compression_in_stream (sh_state s)) inp 4096 of
        (status, out, used, z) \<Rightarrow>
          (let s1 = s\<lparr>sh_state := (sh_state s)\<lparr>compression_in_stream := z\<rparr>\<rparr>
           in if status = Z_OK then
                (case on_compression (sshbuf_put (e_lc e) out) s1 of
                   None \<Rightarrow> None
                 | Some (r, s2) \<Rightarrow>
                     (case r of
                        Inl er \<Rightarrow> Some (Inl er, s2)
                      | Inr _ \<Rightarrow> uncompress_loop e (drop used inp) s2))
              else if status = Z_BUF_ERROR then Some (Inr (), s1)
              else if status = Z_DATA_ERROR then Some (Inl SSH_ERR_INVALID_FORMAT, s1)
              else if status = Z_MEM_ERROR then Some (Inl SSH_ERR_ALLOC_FAIL, s1)
              else Some (Inl SSH_ERR_INTERNAL_ERROR, s1\<lparr>sh_state := (sh_state s1)
                \<lparr>compression_in_failures := compression_in_failures (sh_state s1) + 1\<rparr>\<rparr>)))"

definition compress_buffer :: "penv \<Rightarrow> (ssh, unit) proc" where
  "compress_buffer e s =
     (let b = outgoing_packet (sh_state s)
      in if \<not> compression_out_started (sh_state s) then perr SSH_ERR_INTERNAL_ERROR s
         else if sshbuf_len b = 0 then pret () s
         else if sshbuf_mutable_ptr b = None then perr SSH_ERR_INTERNAL_ERROR s
         else compress_loop e (mem_read 0 (sshbuf_len b) b) s)"

definition uncompress_buffer :: "penv \<Rightarrow> (ssh, unit) proc" where
  "uncompress_buffer e s =
     (let b = incoming_packet (sh_state s)
      in if \<not> compression_in_started (sh_state s) then perr SSH_ERR_INTERNAL_ERROR s
         else if sshbuf_mutable_ptr b = None then perr SSH_ERR_INTERNAL_ERROR s
         else uncompress_loop e (mem_read 0 (sshbuf_len b) b) s)"

text \<open>The statements shared by the two functions that switch compression on.\<close>

definition start_delayed :: "penv \<Rightarrow> mode \<Rightarrow> (ssh, unit) proc" where
  "start_delayed e m =
     pbind (ssh_packet_init_compression e) (\<lambda>_.
     pbind (if m = MODE_OUT then start_compression_out e 6 else start_compression_in e) (\<lambda>_.
     on_newkeys m (modify_op (nk_comp_update (\<lambda>c. c\<lparr>comp_enabled := True\<rparr>)))))"

definition delayed_comp :: "mode \<Rightarrow> ssh \<Rightarrow> bool" where
  "delayed_comp m s =
     (case s_newkeys (sh_state s) m of
        None \<Rightarrow> False
      | Some nk \<Rightarrow> \<not> comp_enabled (nk_comp nk) \<and> comp_type (nk_comp nk) = COMP_DELAYED)"

definition ssh_packet_enable_delayed_compress :: "penv \<Rightarrow> (ssh, unit) proc" where
  "ssh_packet_enable_delayed_compress e =
     pbind (set_state (\<lambda>st. st\<lparr>after_authentication := True\<rparr>)) (\<lambda>_.
     pbind (\<lambda>s. pwhen (delayed_comp MODE_IN s) (start_delayed e MODE_IN) s) (\<lambda>_.
     (\<lambda>s. pwhen (delayed_comp MODE_OUT s) (start_delayed e MODE_OUT) s)))"

section \<open>Keys\<close>

definition ssh_clear_newkeys :: "mode \<Rightarrow> ssh \<Rightarrow> ssh" where
  "ssh_clear_newkeys m s =
     s\<lparr>sh_kex := map_option (\<lambda>k. k\<lparr>k_newkeys := (k_newkeys k)(m := None)\<rparr>) (sh_kex s)\<rparr>"

definition clear_counts :: "packet_state \<Rightarrow> packet_state" where
  "clear_counts ps = ps\<lparr>packets := 0, blocks := 0\<rparr>"

definition set_context :: "mode \<Rightarrow> sshcipher_ctx option \<Rightarrow> session_state \<Rightarrow> session_state" where
  "set_context m c st = (if m = MODE_OUT then st\<lparr>send_context := c\<rparr> else st\<lparr>receive_context := c\<rparr>)"

definition init_context :: "penv \<Rightarrow> mode \<Rightarrow> (ssh, unit) proc" where
  "init_context e m s =
     (let en = nk_enc (the (s_newkeys (sh_state s) m))
      in case cipher_init (e_lc e) (e_ev e) (the (enc_cipher en)) (the (enc_key en)) (enc_key_len en)
               (enc_iv en) (enc_iv_len en) (m = MODE_OUT) of
           Inl er \<Rightarrow> pbind (set_state (set_context m None)) (\<lambda>_. perr er) s
         | Inr c \<Rightarrow> set_state (set_context m (Some c)) s)"

definition set_block_limits :: "mode \<Rightarrow> session_state \<Rightarrow> session_state" where
  "set_block_limits m st =
     (let bs = enc_block_size (nk_enc (the (s_newkeys st m)));
          hard = (if bs \<ge> 16 then push_bit (bs * 2) 1 else push_bit 30 1 div of_nat bs);
          soft = (if rekey_limit st \<noteq> 0 then min hard (rekey_limit st div of_nat bs) else hard)
      in st\<lparr>hard_max_blocks := (hard_max_blocks st)(m := hard), max_blocks := (max_blocks st)(m := soft)\<rparr>)"

definition ssh_set_newkeys :: "penv \<Rightarrow> mode \<Rightarrow> (ssh, unit) proc" where
  "ssh_set_newkeys e m s =
     (case sh_kex s of
        None \<Rightarrow> None
      | Some k \<Rightarrow>
          pbind (set_state (\<lambda>st. (if m = MODE_OUT then p_send_update clear_counts st
                                  else p_read_update clear_counts st)
                    \<lparr>s_newkeys := (s_newkeys st)(m := k_newkeys k m)\<rparr>)) (\<lambda>_.
          (case k_newkeys k m of
             None \<Rightarrow> perr SSH_ERR_INTERNAL_ERROR
           | Some nk \<Rightarrow>
               pbind (pmodify (ssh_clear_newkeys m)) (\<lambda>_.
               pbind (pwhen (cipher_authlen (the (enc_cipher (nk_enc nk))) = 0)
                 (on_mac m (mac_init (e_md e) (e_um e)))) (\<lambda>_.
               pbind (on_mac m (modify_op (m_enabled_update (\<lambda>_. True)))) (\<lambda>_.
               pbind (init_context e m) (\<lambda>_.
               pbind (\<lambda>s. pwhen (delayed_comp m s \<and> after_authentication (sh_state s))
                            (start_delayed e m) s) (\<lambda>_.
               set_state (set_block_limits m)))))))) s)"

section \<open>Limits\<close>

definition ssh_packet_is_rekeying :: "ssh \<Rightarrow> bool" where
  "ssh_packet_is_rekeying s \<longleftrightarrow>
     rekeying (sh_state s) \<or> (case sh_kex s of None \<Rightarrow> False | Some k \<Rightarrow> \<not> k_done k)"

definition ssh_packet_check_rekey_blocklimit :: "nat \<Rightarrow> bool \<Rightarrow> ssh \<Rightarrow> bool" where
  "ssh_packet_check_rekey_blocklimit packet_len hard s =
     (let st = sh_state s; mx = (if hard then hard_max_blocks st else max_blocks st)
      in if packets (p_send st) > MAX_PACKETS \<or> packets (p_read st) > MAX_PACKETS then True
         else (case s_newkeys st MODE_OUT of
            None \<Rightarrow> False
          | Some nk \<Rightarrow>
              (let out_blocks = (of_nat (ROUNDUP packet_len (enc_block_size (nk_enc nk))) :: 32 word)
               in (mx MODE_OUT \<noteq> 0 \<and> blocks (p_send st) + ucast out_blocks > mx MODE_OUT) \<or>
                  (mx MODE_IN \<noteq> 0 \<and> blocks (p_read st) > mx MODE_IN))))"

definition ssh_packet_need_rekeying :: "penv \<Rightarrow> nat \<Rightarrow> (ssh, bool) proc" where
  "ssh_packet_need_rekeying e outbound_packet_len s =
     (let st = sh_state s
      in if \<not> after_authentication st then pret False s
         else if ssh_packet_is_rekeying s then pret False s
         else if packets (p_send st) = 0 \<and> packets (p_read st) = 0 then pret False s
         else if rekey_interval st \<noteq> 0 then
           pbind (monotime e) (\<lambda>now.
             if rekey_time st + uint (rekey_interval st) \<le> now then pret True
             else pret (ssh_packet_check_rekey_blocklimit outbound_packet_len False s)) s
         else pret (ssh_packet_check_rekey_blocklimit outbound_packet_len False s) s)"

definition ssh_packet_check_rekey_preauth :: "(ssh, unit) op" where
  "ssh_packet_check_rekey_preauth s =
     (if after_authentication (sh_state s) then ret () s
      else if ssh_packet_check_rekey_blocklimit 0 True s then err SSH_ERR_NEED_REKEY s
      else ret () s)"

definition ssh_packet_log_type :: "byte \<Rightarrow> bool" where
  "ssh_packet_log_type type \<longleftrightarrow> type \<notin> {SSH2_MSG_PING, SSH2_MSG_PONG, 94, 95, 93}"

definition ssh_packet_type_is_kex :: "byte \<Rightarrow> bool" where
  "ssh_packet_type_is_kex type \<longleftrightarrow>
     type \<ge> SSH2_MSG_TRANSPORT_MIN \<and> type \<le> SSH2_MSG_TRANSPORT_MAX \<and>
     type \<noteq> SSH2_MSG_SERVICE_REQUEST \<and> type \<noteq> SSH2_MSG_SERVICE_ACCEPT \<and> type \<noteq> SSH2_MSG_EXT_INFO"

section \<open>Finishing a packet\<close>

text \<open>What the code derives from the keys of a direction.\<close>

definition nk_authlen :: "newkeys option \<Rightarrow> nat" where
  "nk_authlen nk = (case nk of None \<Rightarrow> 0 | Some k \<Rightarrow> cipher_authlen (the (enc_cipher (nk_enc k))))"

definition nk_mac_of :: "newkeys option \<Rightarrow> sshmac option" where
  "nk_mac_of nk =
     (case nk of None \<Rightarrow> None | Some k \<Rightarrow> if nk_authlen nk \<noteq> 0 then None else Some (nk_mac k))"

definition mac_on :: "newkeys option \<Rightarrow> bool" where
  "mac_on nk = (case nk_mac_of nk of None \<Rightarrow> False | Some m \<Rightarrow> m_enabled m)"

definition mac_etm :: "newkeys option \<Rightarrow> bool" where
  "mac_etm nk = (case nk_mac_of nk of None \<Rightarrow> False | Some m \<Rightarrow> etm m)"

definition nk_maclen :: "newkeys option \<Rightarrow> nat" where
  "nk_maclen nk = (if mac_on nk then mac_len (the (nk_mac_of nk)) else 0)"

definition nk_block_size :: "newkeys option \<Rightarrow> nat" where
  "nk_block_size nk = (case nk of None \<Rightarrow> 8 | Some k \<Rightarrow> enc_block_size (nk_enc k))"

definition nk_aadlen :: "newkeys option \<Rightarrow> nat" where
  "nk_aadlen nk = (if (mac_on nk \<and> mac_etm nk) \<or> nk_authlen nk \<noteq> 0 then 4 else 0)"

definition comp_on :: "newkeys option \<Rightarrow> bool" where
  "comp_on nk = (case nk of None \<Rightarrow> False | Some k \<Rightarrow> comp_enabled (nk_comp k))"

definition compress_outgoing :: "penv \<Rightarrow> (ssh, unit) proc" where
  "compress_outgoing e =
     pbind (of_op (on_outgoing (sshbuf_consume 5))) (\<lambda>_.
     pbind (on_compression (modify_op (sshbuf_reset (e_lc e)))) (\<lambda>_.
     pbind (compress_buffer e) (\<lambda>_.
     pbind (of_op (on_outgoing (modify_op (sshbuf_reset (e_lc e))))) (\<lambda>_.
     pbind (of_op (sshpkt_put e [0, 0, 0, 0, 0])) (\<lambda>_.
     (\<lambda>s. of_op (sshpkt_putb e (compression_buffer (sh_state s))) s))))))"

text \<open>The length of the padding, in unsigned characters; \<open>len\<close> is the length to be encrypted.\<close>

definition choose_padding :: "nat \<Rightarrow> nat \<Rightarrow> (session_state, byte) op" where
  "choose_padding bs len st =
     (let padlen0 = (of_nat (bs - len mod bs) :: byte);
          padlen = (if padlen0 < 4 then padlen0 + of_nat bs else padlen0);
          tmp = extra_pad st
      in if tmp = 0 then ret padlen st
         else let ep = (of_nat (ROUNDUP (unat tmp) bs) :: byte); st1 = st\<lparr>extra_pad := ep\<rparr>
           in if ep < tmp then err SSH_ERR_INVALID_ARGUMENT st1
              else let t = (of_nat ((len + unat padlen) mod unat ep) :: byte)
                in if t > ep then err SSH_ERR_INVALID_ARGUMENT st1
                   else let pl = padlen + (ep - t)
                     in if pl < padlen then err SSH_ERR_INVALID_ARGUMENT st1
                        else ret pl (st1\<lparr>extra_pad := 0\<rparr>))"

definition pad_outgoing :: "penv \<Rightarrow> newkeys option \<Rightarrow> (ssh, unit) proc" where
  "pad_outgoing e nk s =
     (let len = sshbuf_len (outgoing_packet (sh_state s)) - nk_aadlen nk
      in pbind (of_op (on_state (choose_padding (nk_block_size nk) len))) (\<lambda>padlen.
         pbind (of_op (on_outgoing (sshbuf_reserve (e_lc e) (unat padlen)))) (\<lambda>i.
         pbind (if nk = None then pret True
                else on_context MODE_OUT (\<lambda>c. ret (cipher_ctx_is_plaintext c) c)) (\<lambda>plain.
         pbind (if plain then pret (replicate (unat padlen) 0)
                else arc4random_buf e (unat padlen)) (\<lambda>pad.
         pbind (of_op (on_outgoing (modify_op (mem_write i pad)))) (\<lambda>_.
         (\<lambda>s. if sshbuf_mutable_ptr (outgoing_packet (sh_state s)) = None
              then perr SSH_ERR_INTERNAL_ERROR s
              else of_op (on_outgoing (modify_op (\<lambda>b. mem_write (b_off b)
                     (POKE_U32 (of_nat (sshbuf_len b - 4)) @ [padlen]) b))) s)))))) s)"

text \<open>
  Authentication and encryption into the output buffer; the result is the length of the
  packet. If the cipher fails, what it has left in the reserved bytes is not modelled.
\<close>

definition seal_outgoing :: "penv \<Rightarrow> newkeys option \<Rightarrow> (ssh, nat) proc" where
  "seal_outgoing e nk s =
     (let b = outgoing_packet (sh_state s); len = sshbuf_len b; src = mem_read 0 len b;
          sq = seqnr (p_send (sh_state s));
          mac = (\<lambda>bs. on_mac MODE_OUT (mac_compute (e_md e) (e_um e) (e_u e) sq bs (Some SSH_DIGEST_MAX_LENGTH)))
      in pbind (if mac_on nk \<and> \<not> mac_etm nk then mac src else pret []) (\<lambda>macbuf.
         pbind (of_op (on_output (sshbuf_reserve (e_lc e) (len + nk_authlen nk)))) (\<lambda>i.
         pbind (on_context MODE_OUT (cipher_crypt (e_ev e) sq src (len - nk_aadlen nk) (nk_aadlen nk)
                  (nk_authlen nk))) (\<lambda>out.
         pbind (of_op (on_output (modify_op (mem_write i out)))) (\<lambda>_.
         pbind (pwhen (mac_on nk)
           (pbind (if mac_etm nk then mac (take len out) else pret macbuf) (\<lambda>macbuf.
            of_op (on_output (sshbuf_put (e_lc e) (take (nk_maclen nk) macbuf)))))) (\<lambda>_.
         pret len))))) s)"

definition count_sent :: "penv \<Rightarrow> newkeys option \<Rightarrow> nat \<Rightarrow> (ssh, unit) proc" where
  "count_sent e nk len =
     pbind (set_state (p_send_update (seqnr_update (\<lambda>n. n + 1)))) (\<lambda>_ s.
       if seqnr (p_send (sh_state s)) = 0 \<and>
          (case sh_kex s of None \<Rightarrow> True | Some k \<Rightarrow> kex_flag KEX_INITIAL k) then None
       else pbind (set_state (p_send_update (packets_update (\<lambda>n. n + 1)))) (\<lambda>_ s.
         if packets (p_send (sh_state s)) = 0 then perr SSH_ERR_NEED_REKEY s
         else pbind (set_state (p_send_update
                (\<lambda>p. p\<lparr>blocks := blocks p + of_nat (len div nk_block_size nk),
                       pbytes := pbytes p + of_nat len\<rparr>))) (\<lambda>_.
              of_op (on_outgoing (modify_op (sshbuf_reset (e_lc e))))) s) s)"

definition after_sent :: "penv \<Rightarrow> byte \<Rightarrow> (ssh, unit) proc" where
  "after_sent e type s =
     (if type = SSH2_MSG_NEWKEYS then
        (case sh_kex s of
           None \<Rightarrow> None
         | Some k \<Rightarrow> pbind (pwhen (kex_strict k) (set_state (p_send_update (seqnr_update (\<lambda>_. 0)))))
             (\<lambda>_. ssh_set_newkeys e MODE_OUT) s)
      else if type = SSH2_MSG_USERAUTH_SUCCESS \<and> server_side (sh_state s)
      then ssh_packet_enable_delayed_compress e s
      else pret () s)"

definition packet_type :: "sshbuf \<Rightarrow> byte" where
  "packet_type b = mem_read 5 1 b ! 0"

definition ssh_packet_send2_wrapped :: "penv \<Rightarrow> (ssh, unit) proc" where
  "ssh_packet_send2_wrapped e s =
     (let nk = s_newkeys (sh_state s) MODE_OUT; b = outgoing_packet (sh_state s)
      in if sshbuf_ptr b = None then None
         else pbind (pwhen (comp_on nk) (compress_outgoing e)) (\<lambda>_.
              pbind (pad_outgoing e nk) (\<lambda>_.
              pbind (seal_outgoing e nk) (\<lambda>len.
              pbind (count_sent e nk len) (\<lambda>_.
              after_sent e (packet_type b))))) s)"

end
