(* ===== verification/Transport.thy ===== *)
theory Transport
  imports Packet
begin

unbundle bit_operations_syntax

text \<open>
  Sending and receiving packets (\<^verbatim>\<open>packet.c\<close>), the messages of the key exchange (\<^verbatim>\<open>kex.c\<close>) and
  their dispatch (\<^verbatim>\<open>dispatch.c\<close>).
\<close>

section \<open>Sending\<close>

text \<open>
  \<^verbatim>\<open>ssh_packet_send2\<close> and \<^verbatim>\<open>kex_start_rekex\<close> call each other. The bodies take the function they call
  as an argument; \<open>ssh_packet_send2\<close> ties them together to a depth given as a number.
\<close>

definition set_outgoing_packet :: "sshbuf \<Rightarrow> (ssh, unit) proc" where
  "set_outgoing_packet b = set_state (\<lambda>st. st\<lparr>outgoing_packet := b\<rparr>)"

text \<open>The loop that sends the queue; the argument is the queue, which \<^verbatim>\<open>state->outgoing\<close> holds.\<close>

primrec send_queue :: "penv \<Rightarrow> (ssh, unit) proc \<Rightarrow> (byte \<times> sshbuf) list \<Rightarrow> (ssh, unit) proc" where
  "send_queue e rekex [] = pret ()"
| "send_queue e rekex (p # ps) =
     pbind (ssh_packet_need_rekeying e (sshbuf_len (snd p))) (\<lambda>need.
       if need then rekex
       else pbind (set_state (\<lambda>st. st\<lparr>outgoing_packet := snd p, outgoing := ps\<rparr>)) (\<lambda>_.
            pbind (ssh_packet_send2_wrapped e) (\<lambda>_.
            send_queue e rekex ps)))"

definition enqueue_packet :: "penv \<Rightarrow> byte \<Rightarrow> (ssh, unit) proc" where
  "enqueue_packet e type s =
     (if malloc (e_lc e) sizeof_packet = None then perr SSH_ERR_ALLOC_FAIL s
      else pbind (set_state (\<lambda>st. st\<lparr>outgoing := outgoing st @ [(type, outgoing_packet st)]\<rparr>)) (\<lambda>_.
        (case sshbuf_new (e_lc e) of
           None \<Rightarrow> pbind (set_outgoing_packet null_sshbuf) (\<lambda>_. perr SSH_ERR_ALLOC_FAIL)
         | Some b \<Rightarrow> set_outgoing_packet b)) s)"

definition send2_with :: "penv \<Rightarrow> (ssh, unit) proc \<Rightarrow> (ssh, unit) proc" where
  "send2_with e rekex s =
     (let b = outgoing_packet (sh_state s); type = packet_type b; is_kex = ssh_packet_type_is_kex type
      in if sshbuf_len b < 6 then perr SSH_ERR_INTERNAL_ERROR s
         else pbind (if is_kex then pret False else ssh_packet_need_rekeying e (sshbuf_len b)) (\<lambda>need_rekey.
              pbind (\<lambda>s. pwhen (\<not> rekeying (sh_state s) \<and> \<not> is_kex) (of_op ssh_packet_check_rekey_preauth) s) (\<lambda>_ s.
                if (need_rekey \<or> rekeying (sh_state s)) \<and> \<not> is_kex then
                  pbind (enqueue_packet e type) (\<lambda>_. if need_rekey then rekex else pret ()) s
                else
                  pbind (pwhen (type = SSH2_MSG_KEXINIT) (set_state (\<lambda>st. st\<lparr>rekeying := True\<rparr>))) (\<lambda>_.
                  pbind (ssh_packet_send2_wrapped e) (\<lambda>_.
                    if type = SSH2_MSG_NEWKEYS then
                      pbind (set_state (\<lambda>st. st\<lparr>rekeying := False\<rparr>)) (\<lambda>_.
                      pbind (monotime e) (\<lambda>now.
                      pbind (set_state (\<lambda>st. st\<lparr>rekey_time := now\<rparr>)) (\<lambda>_ s.
                      send_queue e rekex (outgoing (sh_state s)) s)))
                    else pret ())) s)) s)"

definition ssh_packet_send_mux :: "penv \<Rightarrow> (ssh, unit) proc" where
  "ssh_packet_send_mux e s =
     (let b = outgoing_packet (sh_state s); len = sshbuf_len b; type = packet_type b
      in if sh_kex s \<noteq> None then perr SSH_ERR_INTERNAL_ERROR s
         else if len < 6 then perr SSH_ERR_INTERNAL_ERROR s
         else if sshbuf_mutable_ptr b = None then perr SSH_ERR_INTERNAL_ERROR s
         else pbind (pwhen (type \<ge> SSH2_MSG_CONNECTION_MIN \<and> type \<le> SSH2_MSG_CONNECTION_MAX)
                (pbind (of_op (on_outgoing (modify_op (\<lambda>b.
                    mem_write (b_off b) (POKE_U32 (of_nat (len - 4))) b)))) (\<lambda>_ s.
                 of_op (on_output (sshbuf_putb (e_lc e) (Some (outgoing_packet (sh_state s))))) s))) (\<lambda>_.
              of_op (on_outgoing (modify_op (sshbuf_reset (e_lc e))))) s)"

definition send_with :: "penv \<Rightarrow> (ssh, unit) proc \<Rightarrow> (ssh, unit) proc" where
  "send_with e send2 s = (if s_mux (sh_state s) then ssh_packet_send_mux e else send2) s"

definition kex_send_kexinit_with :: "penv \<Rightarrow> (ssh, unit) proc \<Rightarrow> (ssh, unit) proc" where
  "kex_send_kexinit_with e send s =
     (case sh_kex s of
        None \<Rightarrow> perr SSH_ERR_INTERNAL_ERROR s
      | Some k \<Rightarrow>
          if kex_flag KEX_INIT_SENT k then pret () s
          else pbind (on_kex (modify_op (\<lambda>k. k\<lparr>k_done := False\<rparr>))) (\<lambda>_.
            if sshbuf_len (k_my k) < KEX_COOKIE_LEN then perr SSH_ERR_INVALID_FORMAT
            else if sshbuf_mutable_ptr (k_my k) = None then perr SSH_ERR_INTERNAL_ERROR
            else
              pbind (arc4random_buf e KEX_COOKIE_LEN) (\<lambda>cookie.
              pbind (on_kex (modify_op (\<lambda>k. k\<lparr>k_my := mem_write (b_off (k_my k)) cookie (k_my k)\<rparr>))) (\<lambda>_.
              pbind (of_op (sshpkt_start e SSH2_MSG_KEXINIT)) (\<lambda>_.
              pbind (\<lambda>s. of_op (sshpkt_putb e (map_option k_my (sh_kex s))) s) (\<lambda>_.
              pbind send (\<lambda>_.
              on_kex (modify_op (set_flag KEX_INIT_SENT)))))))) s)"

definition kex_start_rekex_with :: "penv \<Rightarrow> (ssh, unit) proc \<Rightarrow> (ssh, unit) proc" where
  "kex_start_rekex_with e send s =
     (case sh_kex s of
        None \<Rightarrow> perr SSH_ERR_INTERNAL_ERROR s
      | Some k \<Rightarrow>
          if \<not> k_done k then perr SSH_ERR_INTERNAL_ERROR s
          else pbind (on_kex (modify_op (\<lambda>k. k\<lparr>k_done := False\<rparr>))) (\<lambda>_.
               kex_send_kexinit_with e send) s)"

primrec ssh_packet_send2 :: "nat \<Rightarrow> penv \<Rightarrow> (ssh, unit) proc" where
  "ssh_packet_send2 0 e = fatal"
| "ssh_packet_send2 (Suc n) e =
     send2_with e (kex_start_rekex_with e (send_with e (ssh_packet_send2 n e)))"

text \<open>The depth at which a call is made: one packet, and the KEXINIT that it may cause.\<close>

definition SEND_DEPTH :: nat where "SEND_DEPTH = 2"

definition sshpkt_send :: "penv \<Rightarrow> (ssh, unit) proc" where
  "sshpkt_send e = send_with e (ssh_packet_send2 SEND_DEPTH e)"

definition kex_send_kexinit :: "penv \<Rightarrow> (ssh, unit) proc" where
  "kex_send_kexinit e = kex_send_kexinit_with e (sshpkt_send e)"

definition kex_start_rekex :: "penv \<Rightarrow> (ssh, unit) proc" where
  "kex_start_rekex e = kex_start_rekex_with e (sshpkt_send e)"

definition ssh_packet_check_rekey :: "penv \<Rightarrow> (ssh, unit) proc" where
  "ssh_packet_check_rekey e =
     pbind (of_op ssh_packet_check_rekey_preauth) (\<lambda>_.
     pbind (ssh_packet_need_rekeying e 0) (\<lambda>need.
     if need then kex_start_rekex e else pret ()))"

text \<open>\<^verbatim>\<open>sshpkt_disconnect\<close>; \<open>msg\<close> is the formatted message, at most 1023 bytes.\<close>

definition sshpkt_disconnect :: "penv \<Rightarrow> byte list \<Rightarrow> (ssh, unit) proc" where
  "sshpkt_disconnect e msg =
     pbind (of_op (sshpkt_start e SSH2_MSG_DISCONNECT)) (\<lambda>_.
     pbind (of_op (sshpkt_put_u32 e SSH2_DISCONNECT_PROTOCOL_ERROR)) (\<lambda>_.
     pbind (of_op (sshpkt_put_cstring e (Some (take 1023 msg)))) (\<lambda>_.
     pbind (of_op (sshpkt_put_cstring e (Some []))) (\<lambda>_.
     sshpkt_send e))))"

text \<open>
  Writing to the connection. The result of \<^verbatim>\<open>write\<close> is a count; \<^const>\<open>Io_again\<close> is an interrupted
  or blocking call. Waiting with \<^verbatim>\<open>ppoll\<close>, repeated as long as it is interrupted, is one system
  call: \<^const>\<open>Io_timeout\<close> if the time ran out, otherwise the loop goes on to write.
\<close>

definition ssh_packet_have_data_to_write :: "ssh \<Rightarrow> bool" where
  "ssh_packet_have_data_to_write s \<longleftrightarrow> sshbuf_len (s_output (sh_state s)) \<noteq> 0"

definition ssh_packet_write_poll :: "penv \<Rightarrow> (ssh, unit) proc" where
  "ssh_packet_write_poll e s =
     (if sshbuf_len (s_output (sh_state s)) > 0 then
        pbind (system_call e) (\<lambda>r.
          (case r of
             Io_again \<Rightarrow> pret ()
           | Io_count n \<Rightarrow>
               if n = 0 then perr SSH_ERR_CONN_CLOSED else of_op (on_output (sshbuf_consume n))
           | _ \<Rightarrow> perr SSH_ERR_SYSTEM_ERROR)) s
      else pret () s)"

partial_function (option) write_loop :: "penv \<Rightarrow> ssh \<Rightarrow> ((ssherr + unit) \<times> ssh) option" where
  "write_loop e s =
     (if \<not> ssh_packet_have_data_to_write s then Some (Inr (), s)
      else if e_io e (sh_calls s) = Io_timeout
      then Some (Inl SSH_ERR_CONN_TIMEOUT, s\<lparr>sh_calls := sh_calls s + 1\<rparr>)
      else (case ssh_packet_write_poll e (s\<lparr>sh_calls := sh_calls s + 1\<rparr>) of
              None \<Rightarrow> None
            | Some (r, s') \<Rightarrow> (case r of Inl er \<Rightarrow> Some (Inl er, s') | Inr _ \<Rightarrow> write_loop e s')))"

definition ssh_packet_write_wait :: "penv \<Rightarrow> (ssh, unit) proc" where
  "ssh_packet_write_wait e = pbind (ssh_packet_write_poll e) (\<lambda>_. write_loop e)"

section \<open>Receiving\<close>

partial_function (option) discard_fill :: "libc \<Rightarrow> nat \<Rightarrow> sshbuf \<Rightarrow> ((ssherr + unit) \<times> sshbuf) option" where
  "discard_fill lc dlen b =
     (if sshbuf_len b < dlen then
        (case sshbuf_put lc (replicate 1024 0x61) b of
           (r, b') \<Rightarrow> (case r of Inl er \<Rightarrow> Some (Inl er, b') | Inr _ \<Rightarrow> discard_fill lc dlen b'))
      else Some (Inr (), b))"

definition ssh_packet_stop_discard :: "penv \<Rightarrow> (ssh, unit) proc" where
  "ssh_packet_stop_discard e s =
     (let st = sh_state s;
          dlen = (if PACKET_MAX_SIZE > packet_discard_mac_already st
                  then PACKET_MAX_SIZE - packet_discard_mac_already st else PACKET_MAX_SIZE)
      in if packet_discard_mac st then
           pbind (pzoom sh_state sh_state_update (pzoom incoming_packet incoming_packet_update
             (discard_fill (e_lc e) dlen))) (\<lambda>_ s.
           pbind (\<lambda>s. map_option (\<lambda>(r, s'). (Inr (), s'))
             (on_mac MODE_IN (mac_compute (e_md e) (e_um e) (e_u e) (seqnr (p_read (sh_state s)))
               (mem_read 0 dlen (incoming_packet (sh_state s))) None) s)) (\<lambda>_.
           perr SSH_ERR_MAC_INVALID) s) s
         else perr SSH_ERR_MAC_INVALID s)"

definition ssh_packet_start_discard :: "penv \<Rightarrow> newkeys option \<Rightarrow> nat \<Rightarrow> nat \<Rightarrow> (ssh, unit) proc" where
  "ssh_packet_start_discard e nk mac_already discard =
     (if nk = None \<or> \<not> cipher_is_cbc (the (enc_cipher (nk_enc (the nk)))) \<or> mac_etm nk then
        pbind (sshpkt_disconnect e (bytes_of ''Packet corrupt'')) (\<lambda>_. perr SSH_ERR_MAC_INVALID)
      else
        pbind (pwhen (mac_on nk) (set_state (\<lambda>st. st\<lparr>packet_discard_mac := True,
                 packet_discard_mac_already := mac_already\<rparr>))) (\<lambda>_ s.
        if sshbuf_len (s_input (sh_state s)) \<ge> discard then ssh_packet_stop_discard e s
        else set_state (\<lambda>st. st\<lparr>packet_discard := of_nat (discard - sshbuf_len (s_input st))\<rparr>) s))"

text \<open>The result of reading: the type, 0 if no packet is complete, and the sequence number.\<close>

type_synonym packet_read = "byte \<times> 32 word option"

definition no_packet :: "(ssh, packet_read) proc" where
  "no_packet = pret (SSH_MSG_NONE, None)"

definition then_no_packet :: "(ssh, unit) proc \<Rightarrow> (ssh, packet_read) proc" where
  "then_no_packet m = pbind m (\<lambda>_. no_packet)"

definition bad_packlen :: "32 word \<Rightarrow> bool" where
  "bad_packlen n \<longleftrightarrow> unat n < 1 + 4 \<or> unat n > PACKET_MAX_SIZE"

definition ssh_packet_read_poll2_mux :: "penv \<Rightarrow> (ssh, packet_read) proc" where
  "ssh_packet_read_poll2_mux e s =
     (let b = s_input (sh_state s);
          finish = (\<lambda>s. let n = unat (packlen (sh_state s)); b = s_input (sh_state s)
            in if sshbuf_len b < n + 4 then no_packet s
               else pbind (of_op (on_incoming (modify_op (sshbuf_reset (e_lc e))))) (\<lambda>_.
                    pbind (of_op (on_incoming (sshbuf_put (e_lc e) (mem_read 4 n b)))) (\<lambda>_.
                    pbind (of_op (on_input (sshbuf_consume (n + 4)))) (\<lambda>_.
                    pbind (of_op sshpkt_get_u8) (\<lambda>_.
                    pbind (of_op sshpkt_get_u8) (\<lambda>type.
                    pbind (set_state (\<lambda>st. st\<lparr>packlen := 0\<rparr>)) (\<lambda>_.
                    pret (type, None))))))) s)
      in if sh_kex s \<noteq> None then perr SSH_ERR_INTERNAL_ERROR s
         else if sshbuf_ptr b = None then perr SSH_ERR_INTERNAL_ERROR s
         else if packlen (sh_state s) = 0 then
           (if sshbuf_len b < 4 + 1 then no_packet s
            else pbind (set_state (\<lambda>st. st\<lparr>packlen := PEEK_U32 (mem_read 0 4 b)\<rparr>)) (\<lambda>_ s.
              if bad_packlen (packlen (sh_state s)) then perr SSH_ERR_MESSAGE_INCOMPLETE s
              else finish s) s)
         else finish s)"

text \<open>
  The start of a packet, while \<^verbatim>\<open>packlen\<close> is 0: find the length. The result says whether reading
  goes on.
\<close>

definition read_length_aad :: "penv \<Rightarrow> (ssh, bool) proc" where
  "read_length_aad e s =
     (let b = s_input (sh_state s); n = sshbuf_len b
      in case on_context MODE_IN (cipher_get_length (e_ev e) (seqnr (p_read (sh_state s)))
               (mem_read 0 n b) n) s of
           None \<Rightarrow> None
         | Some (Inl _, s1) \<Rightarrow> pret False s1
         | Some (Inr len, s1) \<Rightarrow>
             pbind (set_state (\<lambda>st. st\<lparr>packlen := len\<rparr>)) (\<lambda>_.
             if bad_packlen len then
               pbind (sshpkt_disconnect e (bytes_of ''Packet corrupt'')) (\<lambda>_. perr SSH_ERR_CONN_CORRUPT)
             else pbind (of_op (on_incoming (modify_op (sshbuf_reset (e_lc e))))) (\<lambda>_. pret True)) s1)"

definition read_length_block :: "penv \<Rightarrow> newkeys option \<Rightarrow> (ssh, bool) proc" where
  "read_length_block e nk s =
     (let b = s_input (sh_state s); bs = nk_block_size nk
      in if sshbuf_len b < bs then pret False s
         else pbind (of_op (on_incoming (modify_op (sshbuf_reset (e_lc e))))) (\<lambda>_.
              pbind (of_op (on_incoming (sshbuf_reserve (e_lc e) bs))) (\<lambda>i.
              pbind (on_context MODE_IN (cipher_crypt (e_ev e) (seqnr (p_send (sh_state s)))
                       (mem_read 0 (sshbuf_len b) b) bs 0 0)) (\<lambda>out.
              pbind (of_op (on_incoming (modify_op (mem_write i out)))) (\<lambda>_.
              pbind (set_state (\<lambda>st. st\<lparr>packlen := PEEK_U32 (mem_read 0 4 (incoming_packet st))\<rparr>)) (\<lambda>_ s.
              if bad_packlen (packlen (sh_state s)) then
                pbind (ssh_packet_start_discard e nk 0 PACKET_MAX_SIZE) (\<lambda>_. pret False) s
              else pbind (of_op (on_input (sshbuf_consume bs))) (\<lambda>_. pret True) s))))) s)"

definition read_length :: "penv \<Rightarrow> newkeys option \<Rightarrow> (ssh, bool) proc" where
  "read_length e nk s =
     (if packlen (sh_state s) \<noteq> 0 then pret True
      else if nk_aadlen nk \<noteq> 0 then read_length_aad e else read_length_block e nk) s"

text \<open>The number of encrypted bytes still to come, in unsigned integers.\<close>

definition read_need :: "newkeys option \<Rightarrow> 32 word \<Rightarrow> 32 word" where
  "read_need nk len = (if nk_aadlen nk \<noteq> 0 then len else 4 + len - of_nat (nk_block_size nk))"

definition input_bytes :: "ssh \<Rightarrow> byte list" where
  "input_bytes s = mem_read 0 (sshbuf_len (s_input (sh_state s))) (s_input (sh_state s))"

definition check_mac :: "penv \<Rightarrow> byte list \<Rightarrow> byte list \<Rightarrow> (ssh, unit) proc" where
  "check_mac e data theirmac s =
     on_mac MODE_IN (mac_check (e_md e) (e_um e) (e_u e) (seqnr (p_read (sh_state s))) data theirmac) s"

text \<open>Authentication and decryption of the rest of the packet; the result says whether to go on.\<close>

definition open_clear_mac :: "penv \<Rightarrow> newkeys option \<Rightarrow> nat \<Rightarrow> (ssh, bool) proc" where
  "open_clear_mac e nk need s =
     (let ic = incoming_packet (sh_state s); bs = nk_block_size nk
      in case check_mac e (mem_read 0 (sshbuf_len ic) ic) (take (nk_maclen nk) (input_bytes s)) s of
           None \<Rightarrow> None
         | Some (Inr _, s1) \<Rightarrow> pret True s1
         | Some (Inl er, s1) \<Rightarrow>
             if er \<noteq> SSH_ERR_MAC_INVALID then perr er s1
             else if need + bs > PACKET_MAX_SIZE then perr SSH_ERR_INTERNAL_ERROR s1
             else pbind (ssh_packet_start_discard e nk (sshbuf_len ic) (PACKET_MAX_SIZE - need - bs))
                    (\<lambda>_. pret False) s1)"

definition open_incoming :: "penv \<Rightarrow> newkeys option \<Rightarrow> nat \<Rightarrow> (ssh, bool) proc" where
  "open_incoming e nk need s =
     (let aad = nk_aadlen nk; auth = nk_authlen nk; inp = input_bytes s
      in pbind (pwhen (mac_on nk \<and> mac_etm nk) (check_mac e (take (aad + need) inp)
           (take (nk_maclen nk) (drop (aad + need + auth) inp)))) (\<lambda>_.
         pbind (of_op (on_incoming (sshbuf_reserve (e_lc e) (aad + need)))) (\<lambda>i.
         pbind (on_context MODE_IN (cipher_crypt (e_ev e) (seqnr (p_read (sh_state s))) inp need aad auth)) (\<lambda>out.
         pbind (of_op (on_incoming (modify_op (mem_write i out)))) (\<lambda>_.
         pbind (of_op (on_input (sshbuf_consume (aad + need + auth)))) (\<lambda>_.
           if mac_on nk then
             pbind (if mac_etm nk then pret True else open_clear_mac e nk need) (\<lambda>go.
             if go then pbind (of_op (on_input (sshbuf_consume (nk_maclen nk)))) (\<lambda>_. pret True)
             else pret False)
           else pret True))))) s)"

definition count_read :: "newkeys option \<Rightarrow> (ssh, 32 word) proc" where
  "count_read nk s =
     (let sq = seqnr (p_read (sh_state s))
      in pbind (set_state (p_read_update (seqnr_update (\<lambda>n. n + 1)))) (\<lambda>_ s.
           if seqnr (p_read (sh_state s)) = 0 \<and>
              (case sh_kex s of None \<Rightarrow> True | Some k \<Rightarrow> kex_flag KEX_INITIAL k) then None
           else pbind (set_state (p_read_update (packets_update (\<lambda>n. n + 1)))) (\<lambda>_ s.
             if packets (p_read (sh_state s)) = 0 then perr SSH_ERR_NEED_REKEY s
             else pbind (set_state (\<lambda>st. p_read_update
                    (\<lambda>p. p\<lparr>blocks := blocks p + ucast ((packlen st + 4) div of_nat (nk_block_size nk)),
                           pbytes := pbytes p + ucast (packlen st + 4)\<rparr>) st)) (\<lambda>_. pret sq) s) s) s)"

text \<open>The format \<^verbatim>\<open>%d\<close> of a number that is not negative.\<close>

fun show_nat :: "nat \<Rightarrow> string" where
  "show_nat n = (if n < 10 then [char_of (48 + n)] else show_nat (n div 10) @ [char_of (48 + n mod 10)])"

declare show_nat.simps [simp del]

definition disconnect_wait :: "penv \<Rightarrow> string \<Rightarrow> ssherr \<Rightarrow> (ssh, 'a) proc" where
  "disconnect_wait e msg er =
     pbind (sshpkt_disconnect e (bytes_of msg)) (\<lambda>_.
     pbind (ssh_packet_write_wait e) (\<lambda>_. perr er))"

definition uncompress_incoming :: "penv \<Rightarrow> (ssh, unit) proc" where
  "uncompress_incoming e =
     pbind (on_compression (modify_op (sshbuf_reset (e_lc e)))) (\<lambda>_.
     pbind (uncompress_buffer e) (\<lambda>_.
     pbind (of_op (on_incoming (modify_op (sshbuf_reset (e_lc e))))) (\<lambda>_ s.
     of_op (on_incoming (sshbuf_putb (e_lc e) (compression_buffer (sh_state s)))) s)))"

definition unpad_incoming :: "penv \<Rightarrow> newkeys option \<Rightarrow> (ssh, byte) proc" where
  "unpad_incoming e nk s =
     (let padlen = mem_read 4 1 (incoming_packet (sh_state s)) ! 0
      in if sshbuf_ptr (incoming_packet (sh_state s)) = None then None
         else if padlen < 4 then
           disconnect_wait e (''Corrupted padlen '' @ show_nat (unat padlen) @ '' on input.'')
             SSH_ERR_CONN_CORRUPT s
         else pbind (of_op (on_incoming (sshbuf_consume (4 + 1)))) (\<lambda>_.
              pbind (of_op (on_incoming (sshbuf_consume_end (unat padlen)))) (\<lambda>_.
              pbind (pwhen (comp_on nk) (uncompress_incoming e)) (\<lambda>_.
              pbind (of_op sshpkt_get_u8) (\<lambda>type.
              if type < SSH2_MSG_MIN then
                disconnect_wait e (''Invalid ssh2 packet type: '' @ show_nat (unat type)) SSH_ERR_PROTOCOL_ERROR
              else pret type)))) s)"

text \<open>The end of \<^verbatim>\<open>ssh_packet_read_poll2\<close>, where the error of the first call is overwritten.\<close>

definition finish_read :: "penv \<Rightarrow> byte \<Rightarrow> (ssh, unit) proc" where
  "finish_read e type s =
     pbind (if type = SSH2_MSG_USERAUTH_SUCCESS \<and> \<not> server_side (sh_state s)
            then (\<lambda>s. map_option (\<lambda>(r, s'). (Inr (), s')) (ssh_packet_enable_delayed_compress e s))
            else pret ()) (\<lambda>_.
     pbind (set_state (\<lambda>st. st\<lparr>packlen := 0\<rparr>)) (\<lambda>_.
     pbind (\<lambda>s. if type = SSH2_MSG_NEWKEYS then
                  (case sh_kex s of
                     None \<Rightarrow> None
                   | Some k \<Rightarrow> pwhen (kex_strict k) (set_state (p_read_update (seqnr_update (\<lambda>_. 0)))) s)
                else pret () s) (\<lambda>_.
     ssh_packet_check_rekey e))) s"

definition ssh_packet_read_poll2 :: "penv \<Rightarrow> (ssh, packet_read) proc" where
  "ssh_packet_read_poll2 e s =
     (let nk = s_newkeys (sh_state s) MODE_IN
      in if s_mux (sh_state s) then ssh_packet_read_poll2_mux e s
         else if packet_discard (sh_state s) \<noteq> 0 then no_packet s
         else pbind (read_length e nk) (\<lambda>go s.
           let need = read_need nk (packlen (sh_state s))
           in if \<not> go then no_packet s
              else if unat need mod nk_block_size nk \<noteq> 0 then
                then_no_packet (ssh_packet_start_discard e nk 0 (PACKET_MAX_SIZE - nk_block_size nk)) s
              else if sshbuf_len (s_input (sh_state s)) <
                      nk_aadlen nk + unat need + nk_authlen nk + nk_maclen nk then no_packet s
              else pbind (open_incoming e nk (unat need)) (\<lambda>go.
                if \<not> go then no_packet
                else pbind (count_read nk) (\<lambda>sq.
                     pbind (unpad_incoming e nk) (\<lambda>type.
                     pbind (finish_read e type) (\<lambda>_.
                     pret (type, Some sq))))) s) s)"

text \<open>Messages that the packet layer handles itself: whether the message is one, with its effect.\<close>

definition transport_message :: "penv \<Rightarrow> byte \<Rightarrow> (ssh, bool) proc" where
  "transport_message e type =
     (if type = SSH2_MSG_IGNORE then pret True
      else if type = SSH2_MSG_DEBUG then
        pbind (of_op sshpkt_get_u8) (\<lambda>_.
        pbind (of_op (sshpkt_get_string e)) (\<lambda>_.
        pbind (of_op sshpkt_get_string_direct) (\<lambda>_. pret True)))
      else if type = SSH2_MSG_UNIMPLEMENTED then pbind (of_op sshpkt_get_u32) (\<lambda>_. pret True)
      else if type = SSH2_MSG_PING then
        pbind (of_op sshpkt_get_string_direct) (\<lambda>d s.
          if \<not> after_authentication (sh_state s) \<or> ssh_packet_is_rekeying s then pret True s
          else pbind (of_op (sshpkt_start e SSH2_MSG_PONG)) (\<lambda>_.
               pbind (of_op (sshpkt_put_string e d)) (\<lambda>_.
               pbind (sshpkt_send e) (\<lambda>_. pret True))) s)
      else if type = SSH2_MSG_PONG then pbind (of_op sshpkt_get_string_direct) (\<lambda>_. pret True)
      else pret False)"

definition strict_initial :: "ssh \<Rightarrow> bool" where
  "strict_initial s =
     (case sh_kex s of None \<Rightarrow> False | Some k \<Rightarrow> kex_flag KEX_INITIAL k \<and> kex_strict k)"

text \<open>One round of the loop of \<^verbatim>\<open>ssh_packet_read_poll_seqnr\<close>: a result, or another round.\<close>

definition read_poll_step :: "penv \<Rightarrow> (ssh, packet_read option) proc" where
  "read_poll_step e =
     pbind (ssh_packet_read_poll2 e) (\<lambda>(type, sq).
       if type = 0 then pret (Some (type, sq))
       else pbind (set_state (\<lambda>st. st\<lparr>keep_alive_timeouts := 0\<rparr>)) (\<lambda>_.
         if type = SSH2_MSG_DISCONNECT then
           pbind (of_op sshpkt_get_u32) (\<lambda>_.
           pbind (of_op (sshpkt_get_string e)) (\<lambda>_. perr SSH_ERR_DISCONNECTED))
         else (\<lambda>s. if strict_initial s then pret (Some (type, sq)) s
           else pbind (transport_message e type) (\<lambda>handled s.
             if handled then pret None s
             else if (case sh_kex s of None \<Rightarrow> False | Some k \<Rightarrow> kex_flag KEX_INIT_RECVD k) \<and>
                     \<not> ssh_packet_type_is_kex type then perr SSH_ERR_PROTOCOL_ERROR s
             else pret (Some (type, sq)) s) s)))"

partial_function (option) ssh_packet_read_poll_seqnr ::
  "penv \<Rightarrow> ssh \<Rightarrow> ((ssherr + packet_read) \<times> ssh) option" where
  "ssh_packet_read_poll_seqnr e s =
     (case read_poll_step e s of
        None \<Rightarrow> None
      | Some (r, s') \<Rightarrow>
          (case r of
             Inl er \<Rightarrow> Some (Inl er, s')
           | Inr res \<Rightarrow> (case res of None \<Rightarrow> ssh_packet_read_poll_seqnr e s' | Some p \<Rightarrow> Some (Inr p, s'))))"

definition ssh_packet_process_incoming :: "penv \<Rightarrow> byte list \<Rightarrow> (ssh, unit) proc" where
  "ssh_packet_process_incoming e buf s =
     (let len = (of_nat (length buf) :: 32 word)
      in if packet_discard (sh_state s) \<noteq> 0 then
           pbind (set_state (\<lambda>st. st\<lparr>keep_alive_timeouts := 0\<rparr>)) (\<lambda>_.
           pbind (pwhen (len \<ge> packet_discard (sh_state s)) (ssh_packet_stop_discard e)) (\<lambda>_.
           set_state (\<lambda>st. st\<lparr>packet_discard := packet_discard st - len\<rparr>))) s
         else of_op (on_input (sshbuf_put (e_lc e) buf)) s)"

text \<open>
  Reading into a buffer (\<^verbatim>\<open>sshbuf-misc.c\<close>); \<open>rd\<close> is what \<^verbatim>\<open>read\<close> returns, at most \<open>maxlen\<close> bytes. The
  result is the number of bytes read.
\<close>

definition sshbuf_read :: "libc \<Rightarrow> nat \<Rightarrow> io_result \<Rightarrow> (sshbuf, nat) op" where
  "sshbuf_read lc maxlen rd =
     bind_op (sshbuf_reserve lc maxlen) (\<lambda>i.
       let bs = (case rd of Io_bytes bs \<Rightarrow> take maxlen bs | _ \<Rightarrow> []); adjust = maxlen - length bs
       in bind_op (modify_op (mem_write i bs)) (\<lambda>_ b.
            (case (if adjust \<noteq> 0 then sshbuf_consume_end adjust b else (Inr (), b)) of
               (Inl _, b') \<Rightarrow> err SSH_ERR_INTERNAL_ERROR (mem_write (i + length bs) (replicate adjust 0) b')
             | (Inr _, b') \<Rightarrow>
                 (case rd of
                    Io_bytes _ \<Rightarrow> if bs = [] then err SSH_ERR_SYSTEM_ERROR b' else ret (length bs) b'
                  | _ \<Rightarrow> err SSH_ERR_SYSTEM_ERROR b'))))"

text \<open>The system call is counted even if the buffer has no room for its bytes.\<close>

definition ssh_packet_process_read :: "penv \<Rightarrow> (ssh, unit) proc" where
  "ssh_packet_process_read e =
     pbind (system_call e) (\<lambda>rd.
     pbind (of_op (on_input (sshbuf_read (e_lc e) PACKET_MAX_SIZE rd))) (\<lambda>rlen s.
       if packet_discard (sh_state s) \<noteq> 0 then
         pbind (of_op (on_input (sshbuf_consume_end rlen))) (\<lambda>_.
         pbind (set_state (\<lambda>st. st\<lparr>keep_alive_timeouts := 0\<rparr>)) (\<lambda>_.
         pbind (pwhen (rlen \<ge> unat (packet_discard (sh_state s))) (ssh_packet_stop_discard e)) (\<lambda>_.
         set_state (\<lambda>st. st\<lparr>packet_discard := packet_discard st - of_nat rlen\<rparr>)))) s
       else pret () s))"

text \<open>
  \<^verbatim>\<open>ssh_packet_read_seqnr\<close>: read from the connection until a packet is complete. Waiting for
  data, repeated as long as it is interrupted, is one system call and reading up to 8192
  bytes another.
\<close>

partial_function (option) read_seqnr_loop :: "penv \<Rightarrow> ssh \<Rightarrow> ((ssherr + packet_read) \<times> ssh) option" where
  "read_seqnr_loop e s =
     (case ssh_packet_read_poll_seqnr e s of
        None \<Rightarrow> None
      | Some (r, s1) \<Rightarrow>
          (case r of
             Inl er \<Rightarrow> Some (Inl er, s1)
           | Inr p \<Rightarrow>
               if fst p \<noteq> SSH_MSG_NONE then Some (Inr p, s1)
               else let w = e_io e (sh_calls s1); rd = e_io e (sh_calls s1 + 1);
                        s2 = s1\<lparr>sh_calls := sh_calls s1 + 1\<rparr>; s3 = s1\<lparr>sh_calls := sh_calls s1 + 2\<rparr>
                 in if w = Io_failed then Some (Inl SSH_ERR_SYSTEM_ERROR, s2)
                    else if w = Io_timeout then Some (Inl SSH_ERR_CONN_TIMEOUT, s2)
                    else (case rd of
                       Io_bytes bs \<Rightarrow>
                         if bs = [] then Some (Inl SSH_ERR_CONN_CLOSED, s3)
                         else (case ssh_packet_process_incoming e (take 8192 bs) s3 of
                            None \<Rightarrow> None
                          | Some (r, s4) \<Rightarrow>
                              (case r of Inl er \<Rightarrow> Some (Inl er, s4) | Inr _ \<Rightarrow> read_seqnr_loop e s4))
                     | _ \<Rightarrow> Some (Inl SSH_ERR_SYSTEM_ERROR, s3))))"

definition ssh_packet_read_seqnr :: "penv \<Rightarrow> (ssh, packet_read) proc" where
  "ssh_packet_read_seqnr e = pbind (ssh_packet_write_wait e) (\<lambda>_. read_seqnr_loop e)"

section \<open>Settings\<close>

definition int_max :: int where "int_max = 2 ^ 31 - 1"

definition ssh_packet_set_timeout :: "int \<Rightarrow> int \<Rightarrow> session_state \<Rightarrow> session_state" where
  "ssh_packet_set_timeout timeout count st =
     (if timeout \<le> 0 \<or> count \<le> 0 then st\<lparr>packet_timeout_ms := - 1\<rparr>
      else if int_max div 1000 div count < timeout then st\<lparr>packet_timeout_ms := int_max\<rparr>
      else st\<lparr>packet_timeout_ms := timeout * count * 1000\<rparr>)"

definition ssh_packet_set_mux :: "ssh \<Rightarrow> ssh" where
  "ssh_packet_set_mux s =
     s\<lparr>sh_state := (sh_state s)\<lparr>s_mux := True, rekeying := False\<rparr>, sh_kex := None\<rparr>"

definition ssh_packet_set_maxsize :: "32 word \<Rightarrow> session_state \<Rightarrow> int \<times> session_state" where
  "ssh_packet_set_maxsize n st =
     (if set_maxsize_called st then (- 1, st)
      else if n < 4 * 1024 \<or> n > 1024 * 1024 then (- 1, st)
      else (uint n, st\<lparr>set_maxsize_called := True, max_packet_size := n\<rparr>))"

definition ssh_packet_set_rekey_limits :: "64 word \<Rightarrow> 32 word \<Rightarrow> session_state \<Rightarrow> session_state" where
  "ssh_packet_set_rekey_limits bs seconds st =
     (if bs = 0 \<and> seconds = 0 then st else st\<lparr>rekey_limit := bs, rekey_interval := seconds\<rparr>)"

definition ssh_packet_get_rekey_timeout :: "penv \<Rightarrow> (ssh, int) proc" where
  "ssh_packet_get_rekey_timeout e s =
     pbind (monotime e) (\<lambda>now. pret
       (let seconds = rekey_time (sh_state s) + uint (rekey_interval (sh_state s)) - now
        in if seconds \<le> 0 then 1 else seconds)) s"

definition ssh_packet_set_server :: "(ssh, unit) proc" where
  "ssh_packet_set_server =
     pbind (set_state (\<lambda>st. st\<lparr>server_side := True\<rparr>)) (\<lambda>_.
     on_kex (modify_op (\<lambda>k. k\<lparr>k_server := True\<rparr>)))"

definition ssh_packet_set_authenticated :: "(ssh, unit) proc" where
  "ssh_packet_set_authenticated = set_state (\<lambda>st. st\<lparr>after_authentication := True\<rparr>)"

definition ssh_packet_set_postauth :: "penv \<Rightarrow> (ssh, unit) proc" where
  "ssh_packet_set_postauth e =
     pbind (set_state (\<lambda>st. st\<lparr>after_authentication := True, rekeying := False\<rparr>)) (\<lambda>_.
     ssh_packet_enable_delayed_compress e)"

definition ssh_packet_not_very_much_data_to_write :: "ssh \<Rightarrow> bool" where
  "ssh_packet_not_very_much_data_to_write s \<longleftrightarrow>
     sshbuf_len (s_output (sh_state s)) <
       (if interactive_mode (sh_state s) \<noteq> 0 then 16384 else 128 * 1024)"

definition ssh_packet_interactive_data_to_write :: "ssh \<Rightarrow> bool" where
  "ssh_packet_interactive_data_to_write s \<longleftrightarrow>
     interactive_mode (sh_state s) \<noteq> 0 \<and> sshbuf_len (s_output (sh_state s)) < 256"

definition ssh_packet_inc_alive_timeouts :: "(ssh, int) proc" where
  "ssh_packet_inc_alive_timeouts =
     pbind (set_state (keep_alive_timeouts_update (\<lambda>n. n + 1))) (\<lambda>_.
     pget (\<lambda>s. keep_alive_timeouts (sh_state s)))"

definition ssh_packet_set_alive_timeouts :: "int \<Rightarrow> session_state \<Rightarrow> session_state" where
  "ssh_packet_set_alive_timeouts ka st = st\<lparr>keep_alive_timeouts := ka\<rparr>"

definition ssh_packet_set_protocol_flags :: "32 word \<Rightarrow> session_state \<Rightarrow> session_state" where
  "ssh_packet_set_protocol_flags flags st = st\<lparr>remote_protocol_flags := flags\<rparr>"

definition ssh_packet_get_bytes :: "session_state \<Rightarrow> 64 word \<times> 64 word" where
  "ssh_packet_get_bytes st = (pbytes (p_read st), pbytes (p_send st))"

text \<open>The options that the next two set on the socket are left out.\<close>

definition ssh_packet_set_interactive :: "int \<Rightarrow> session_state \<Rightarrow> session_state" where
  "ssh_packet_set_interactive interactive st = st\<lparr>interactive_mode := interactive\<rparr>"

definition ssh_packet_set_qos :: "int \<Rightarrow> int \<Rightarrow> session_state \<Rightarrow> session_state" where
  "ssh_packet_set_qos qi qo st = st\<lparr>qos_interactive := qi, qos_other := qo\<rparr>"

text \<open>\<open>msg\<close> is the formatted message; a failure ends the process.\<close>

definition ssh_packet_send_debug :: "penv \<Rightarrow> byte list \<Rightarrow> (ssh, unit) proc" where
  "ssh_packet_send_debug e msg s =
     (if sh_compat s AND SSH_BUG_DEBUG \<noteq> 0 then pret () s
      else case
        (pbind (of_op (sshpkt_start e SSH2_MSG_DEBUG)) (\<lambda>_.
         pbind (of_op (sshpkt_put_u8 e 0)) (\<lambda>_.
         pbind (of_op (sshpkt_put_cstring e (Some (take 1023 msg)))) (\<lambda>_.
         pbind (of_op (sshpkt_put_cstring e (Some []))) (\<lambda>_.
         pbind (sshpkt_send e) (\<lambda>_. ssh_packet_write_wait e)))))) s of
          Some (Inr _, s') \<Rightarrow> Some (Inr (), s')
        | _ \<Rightarrow> None)"

definition ssh_packet_set_connection :: "penv \<Rightarrow> int \<Rightarrow> int \<Rightarrow> ssh option \<Rightarrow> ssh option" where
  "ssh_packet_set_connection e fd_in fd_out s0 =
     (case cipher_by_name ''none'' of
        None \<Rightarrow> None
      | Some c \<Rightarrow>
          (case (case s0 of None \<Rightarrow> ssh_alloc_session_state e | Some s \<Rightarrow> Some s) of
             None \<Rightarrow> None
           | Some s \<Rightarrow>
               (case (cipher_init (e_lc e) (e_ev e) c [] 0 None 0 True,
                      cipher_init (e_lc e) (e_ev e) c [] 0 None 0 False) of
                  (Inr sc, Inr rc) \<Rightarrow> Some (s\<lparr>sh_clock := sh_clock s + 1, sh_state := (sh_state s)
                    \<lparr>start_time := e_clock e (sh_clock s), connection_in := fd_in, connection_out := fd_out,
                     send_context := Some sc, receive_context := Some rc, s_newkeys := (\<lambda>_. None)\<rparr>\<rparr>)
                | _ \<Rightarrow> None)))"

section \<open>Dispatch\<close>

definition ssh_dispatch_init :: "dispatch_fn option \<Rightarrow> ssh \<Rightarrow> ssh" where
  "ssh_dispatch_init dflt s =
     s\<lparr>sh_dispatch := (\<lambda>i. if i < DISPATCH_MAX then dflt else sh_dispatch s i)\<rparr>"

definition ssh_dispatch_range :: "nat \<Rightarrow> nat \<Rightarrow> dispatch_fn option \<Rightarrow> ssh \<Rightarrow> ssh" where
  "ssh_dispatch_range from to fn s =
     s\<lparr>sh_dispatch := (\<lambda>i. if from \<le> i \<and> i \<le> to \<and> i < DISPATCH_MAX then fn else sh_dispatch s i)\<rparr>"

definition ssh_dispatch_set :: "byte \<Rightarrow> dispatch_fn option \<Rightarrow> ssh \<Rightarrow> ssh" where
  "ssh_dispatch_set type fn s = s\<lparr>sh_dispatch := (sh_dispatch s)(unat type := fn)\<rparr>"

definition send_unimplemented :: "penv \<Rightarrow> 32 word \<Rightarrow> (ssh, unit) proc" where
  "send_unimplemented e sq =
     pbind (of_op (sshpkt_start e SSH2_MSG_UNIMPLEMENTED)) (\<lambda>_.
     pbind (of_op (sshpkt_put_u32 e sq)) (\<lambda>_.
     sshpkt_send e))"

text \<open>An error of \<^verbatim>\<open>dispatch_protocol_error\<close> ends the process.\<close>

definition dispatch_protocol_error :: "penv \<Rightarrow> 32 word \<Rightarrow> (ssh, unit) proc" where
  "dispatch_protocol_error e sq s =
     (case pbind (send_unimplemented e sq) (\<lambda>_. ssh_packet_write_wait e) s of
        Some (Inr _, s') \<Rightarrow> Some (Inr (), s')
      | _ \<Rightarrow> None)"

definition kex_protocol_error :: "penv \<Rightarrow> 32 word \<Rightarrow> (ssh, unit) proc" where
  "kex_protocol_error e sq s =
     (case sh_kex s of
        None \<Rightarrow> None
      | Some k \<Rightarrow> if kex_flag KEX_INITIAL k \<and> kex_strict k then None else send_unimplemented e sq s)"

definition kex_reset_dispatch :: "ssh \<Rightarrow> ssh" where
  "kex_reset_dispatch =
     ssh_dispatch_range (unat SSH2_MSG_TRANSPORT_MIN) (unat SSH2_MSG_TRANSPORT_MAX) (Some Kex_protocol_error)"

section \<open>Messages of the key exchange\<close>

definition put_cstrings :: "penv \<Rightarrow> string list \<Rightarrow> (sshbuf, unit) op" where
  "put_cstrings e = seq_op (\<lambda>x. sshbuf_put_cstring (e_lc e) (Some (bytes_of x)))"

text \<open>The two functions write to a new buffer, which is the object of the operation beside the exchange.\<close>

definition kex_compose_ext_info_server :: "penv \<Rightarrow> (kex \<times> sshbuf, unit) op" where
  "kex_compose_ext_info_server e kb =
     (case kb of (k, m) \<Rightarrow>
       (case (case server_sig_algs k of None \<Rightarrow> sshkey_alg_list (e_keys e) | Some a \<Rightarrow> Some a) of
          None \<Rightarrow> (Inl SSH_ERR_ALLOC_FAIL, kb)
        | Some algs \<Rightarrow>
            (case bind_op (sshbuf_put_u32 (e_lc e) 4) (\<lambda>_.
                  put_cstrings e [''server-sig-algs'', algs, ''publickey-hostbound@openssh.com'', ''0'',
                    ''ping@openssh.com'', ''0'', ''agent-forward'', ''0'']) m of
               (r, m') \<Rightarrow> (r, (k\<lparr>server_sig_algs := Some algs\<rparr>, m')))))"

definition kex_compose_ext_info_client :: "penv \<Rightarrow> (sshbuf, unit) op" where
  "kex_compose_ext_info_client e =
     bind_op (sshbuf_put_u32 (e_lc e) 1) (\<lambda>_.
     put_cstrings e [''ext-info-in-auth@openssh.com'', ''0''])"

definition kex_maybe_send_ext_info :: "penv \<Rightarrow> (ssh, unit) proc" where
  "kex_maybe_send_ext_info e s =
     (case sh_kex s of
        None \<Rightarrow> None
      | Some k \<Rightarrow>
          if \<not> kex_flag KEX_INITIAL k then pret () s
          else if \<not> ext_info_c k \<and> \<not> ext_info_s k then pret () s
          else (case sshbuf_new (e_lc e) of
             None \<Rightarrow> None
           | Some m \<Rightarrow>
               (case (if ext_info_c k then kex_compose_ext_info_server e (k, m) else (Inr (), (k, m))) of
                  (r1, (k1, m1)) \<Rightarrow>
                    (case (if \<not> isl r1 \<and> ext_info_s k then kex_compose_ext_info_client e m1 else (r1, m1)) of
                       (r2, m2) \<Rightarrow>
                         pbind (pmodify (sh_kex_update (\<lambda>_. Some k1))) (\<lambda>_.
                         pbind (of_op (\<lambda>s. (r2, s))) (\<lambda>_.
                         pbind (of_op (sshpkt_start e SSH2_MSG_EXT_INFO)) (\<lambda>_.
                         pbind (of_op (sshpkt_putb e (Some m2))) (\<lambda>_.
                         sshpkt_send e)))) s))))"

definition kex_server_update_ext_info :: "penv \<Rightarrow> (ssh, unit) proc" where
  "kex_server_update_ext_info e s =
     (case sh_kex s of
        None \<Rightarrow> None
      | Some k \<Rightarrow>
          if \<not> kex_flag KEX_HAS_EXT_INFO_IN_AUTH k then pret () s
          else pbind (of_op (sshpkt_start e SSH2_MSG_EXT_INFO)) (\<lambda>_.
               pbind (of_op (sshpkt_put_u32 e 1)) (\<lambda>_.
               pbind (of_op (sshpkt_put_cstring e (Some (bytes_of ''server-sig-algs'')))) (\<lambda>_.
               pbind (of_op (sshpkt_put_cstring e (map_option bytes_of (server_sig_algs k)))) (\<lambda>_.
               sshpkt_send e)))) s)"

definition kex_send_newkeys :: "penv \<Rightarrow> (ssh, unit) proc" where
  "kex_send_newkeys e =
     pbind (pmodify kex_reset_dispatch) (\<lambda>_.
     pbind (of_op (sshpkt_start e SSH2_MSG_NEWKEYS)) (\<lambda>_.
     pbind (sshpkt_send e) (\<lambda>_.
     pbind (pmodify (ssh_dispatch_set SSH2_MSG_NEWKEYS (Some Kex_input_newkeys))) (\<lambda>_.
     kex_maybe_send_ext_info e))))"

text \<open>A process on the exchange, run inside the connection.\<close>

definition pon_kex :: "(kex, 'a) proc \<Rightarrow> (ssh, 'a) proc" where
  "pon_kex m s =
     (case sh_kex s of
        None \<Rightarrow> None
      | Some k \<Rightarrow> map_option (\<lambda>(r, k'). (r, s\<lparr>sh_kex := Some k'\<rparr>)) (m k))"

primrec ext_info_loop :: "penv \<Rightarrow> nat \<Rightarrow> (ssh, unit) proc" where
  "ext_info_loop e 0 = pret ()"
| "ext_info_loop e (Suc n) =
     pbind (of_op (sshpkt_get_cstring e)) (\<lambda>name.
     pbind (of_op (sshpkt_get_string e)) (\<lambda>val.
     pbind (pon_kex (\<lambda>k. (if k_server k then kex_ext_info_server_parse (cstr name) val
                          else kex_ext_info_client_parse (e_lc e) (cstr name) val) k)) (\<lambda>_.
     ext_info_loop e n)))"

definition kex_input_ext_info :: "penv \<Rightarrow> 32 word \<Rightarrow> (ssh, unit) proc" where
  "kex_input_ext_info e sq s =
     (case sh_kex s of
        None \<Rightarrow> None
      | Some k \<Rightarrow>
          pbind (on_kex (modify_op (\<lambda>k. k\<lparr>ext_info_received := ext_info_received k + 1\<rparr>))) (\<lambda>_.
          if ext_info_received k + 1 > (if k_server k then 1 else 2) then dispatch_protocol_error e sq
          else
            pbind (pmodify (ssh_dispatch_set SSH2_MSG_EXT_INFO (Some Kex_protocol_error))) (\<lambda>_.
            pbind (of_op sshpkt_get_u32) (\<lambda>ninfo.
            if ninfo \<ge> 1024 then dispatch_protocol_error e sq
            else pbind (ext_info_loop e (unat ninfo)) (\<lambda>_. of_op sshpkt_get_end)))) s)"

text \<open>Removal of the signalling names from the own proposal after the first exchange.\<close>

definition strip_signals :: "penv \<Rightarrow> (kex, unit) op" where
  "strip_signals e k =
     (case kex_buf2prop (e_lc e) (k_my k) of
        Inl er \<Rightarrow> err er k
      | Inr (_, prop) \<Rightarrow>
          (case match_filter_denylist (e_lc e) (prop ! PROPOSAL_KEX_ALGS) (kex_signals (k_server k)) of
             None \<Rightarrow> err SSH_ERR_INTERNAL_ERROR k
           | Some cp \<Rightarrow>
               (case kex_prop2buf (e_lc e) (prop[PROPOSAL_KEX_ALGS := cp]) (k_my k) of
                  (Inl _, b) \<Rightarrow> err SSH_ERR_INTERNAL_ERROR (k\<lparr>k_my := b\<rparr>)
                | (Inr _, b) \<Rightarrow> ret () (k\<lparr>k_my := b\<rparr>))))"

definition kex_input_newkeys :: "penv \<Rightarrow> (ssh, unit) proc" where
  "kex_input_newkeys e s =
     (case sh_kex s of
        None \<Rightarrow> None
      | Some k \<Rightarrow>
          pbind (pmodify (\<lambda>s. if ext_info_c k \<and> kex_flag KEX_INITIAL k
                   then ssh_dispatch_set SSH2_MSG_EXT_INFO (Some Kex_input_ext_info) s else s)) (\<lambda>_.
          pbind (pmodify (ssh_dispatch_set SSH2_MSG_NEWKEYS (Some Kex_protocol_error))) (\<lambda>_.
          pbind (pmodify (ssh_dispatch_set SSH2_MSG_KEXINIT (Some Kex_input_kexinit))) (\<lambda>_.
          pbind (of_op sshpkt_get_end) (\<lambda>_.
          pbind (ssh_set_newkeys e MODE_IN) (\<lambda>_.
          pbind (pwhen (kex_flag KEX_INITIAL k) (on_kex (strip_signals e))) (\<lambda>_.
          on_kex (modify_op (\<lambda>k. clear_flag (KEX_INIT_SENT OR KEX_INIT_RECVD)
            ((clear_flag KEX_INITIAL (k\<lparr>k_done := True\<rparr>))\<lparr>k_peer := sshbuf_reset (e_lc e) (k_peer k)\<rparr>)))))))))  s)"

text \<open>\<^verbatim>\<open>kex_choose_conf\<close> inside the connection: it may ask to skip the next packet.\<close>

definition choose_conf :: "penv \<Rightarrow> 32 word \<Rightarrow> (ssh, unit) proc" where
  "choose_conf e sq =
     pbind (pon_kex (kex_choose_conf (e_lc e) (e_md e) (e_keys e) sq)) (\<lambda>skip.
     pmodify (\<lambda>s. if skip then s\<lparr>dispatch_skip_packets := 1\<rparr> else s))"

text \<open>
  \<^verbatim>\<open>kex_input_kexinit\<close>; \<open>methods\<close> are the entries of \<^verbatim>\<open>kex->kex\<close>, the start of each key exchange
  method.
\<close>

definition kex_input_kexinit ::
  "penv \<Rightarrow> (32 word \<Rightarrow> (ssh, unit) proc option) \<Rightarrow> 32 word \<Rightarrow> (ssh, unit) proc" where
  "kex_input_kexinit e methods sq s =
     (case sh_kex s of
        None \<Rightarrow> perr SSH_ERR_INTERNAL_ERROR s
      | Some k \<Rightarrow>
          if kex_flag KEX_INIT_RECVD k then None
          else
            pbind (on_kex (modify_op (\<lambda>k. set_flag KEX_INIT_RECVD (k\<lparr>kx_name := None\<rparr>)))) (\<lambda>_.
            pbind (pmodify (ssh_dispatch_set SSH2_MSG_KEXINIT (Some Kex_protocol_error))) (\<lambda>_ s.
            let ic = incoming_packet (sh_state s)
            in if sshbuf_ptr ic = None then perr SSH_ERR_INTERNAL_ERROR s
               else
                 pbind (on_kex (zoom k_peer k_peer_update
                          (sshbuf_put (e_lc e) (mem_read 0 (sshbuf_len ic) ic)))) (\<lambda>_.
                 pbind (of_op (seq_op (\<lambda>_. bind_op sshpkt_get_u8 (\<lambda>_. ret ())) [0..<KEX_COOKIE_LEN])) (\<lambda>_.
                 pbind (of_op (seq_op (\<lambda>_. bind_op sshpkt_get_string_direct (\<lambda>_. ret ())) [0..<PROPOSAL_MAX])) (\<lambda>_.
                 pbind (of_op sshpkt_get_u8) (\<lambda>_.
                 pbind (of_op sshpkt_get_u32) (\<lambda>_.
                 pbind (of_op sshpkt_get_end) (\<lambda>_.
                 pbind (\<lambda>s. pwhen (case sh_kex s of None \<Rightarrow> True | Some k \<Rightarrow> \<not> kex_flag KEX_INIT_SENT k)
                          (kex_send_kexinit e) s) (\<lambda>_.
                 pbind (choose_conf e sq) (\<lambda>_ s.
                 (case sh_kex s of
                    None \<Rightarrow> None
                  | Some k \<Rightarrow>
                      (case (if kex_type k < KEX_MAX then methods (kex_type k) else None) of
                         None \<Rightarrow> perr SSH_ERR_INTERNAL_ERROR s
                       | Some m \<Rightarrow> m s)))))))))) s)) s)"

definition kex_ready :: "penv \<Rightarrow> proposal \<Rightarrow> (ssh, unit) proc" where
  "kex_ready e proposal =
     pbind (on_kex (zoom k_my k_my_update (kex_prop2buf (e_lc e) proposal))) (\<lambda>_.
     pbind (on_kex (modify_op (\<lambda>k. k\<lparr>k_flags := KEX_INITIAL\<rparr>))) (\<lambda>_.
     pmodify (ssh_dispatch_set SSH2_MSG_KEXINIT (Some Kex_input_kexinit) \<circ> kex_reset_dispatch)))"

definition kex_setup :: "penv \<Rightarrow> proposal \<Rightarrow> (ssh, unit) proc" where
  "kex_setup e proposal =
     pbind (kex_ready e proposal) (\<lambda>_ s.
       (case kex_send_kexinit e s of
          None \<Rightarrow> None
        | Some (Inr _, s') \<Rightarrow> Some (Inr (), s')
        | Some (Inl er, s') \<Rightarrow> Some (Inl er, s'\<lparr>sh_kex := None\<rparr>)))"

section \<open>The dispatch loop\<close>

text \<open>\<open>other\<close> are the handlers of the other parts of the program.\<close>

definition run_handler ::
  "penv \<Rightarrow> (32 word \<Rightarrow> (ssh, unit) proc option) \<Rightarrow> (nat \<Rightarrow> byte \<Rightarrow> 32 word \<Rightarrow> (ssh, unit) proc) \<Rightarrow>
   dispatch_fn \<Rightarrow> byte \<Rightarrow> 32 word \<Rightarrow> (ssh, unit) proc" where
  "run_handler e methods other fn type sq =
     (case fn of
        Kex_protocol_error \<Rightarrow> kex_protocol_error e sq
      | Kex_input_kexinit \<Rightarrow> kex_input_kexinit e methods sq
      | Kex_input_newkeys \<Rightarrow> kex_input_newkeys e
      | Kex_input_ext_info \<Rightarrow> kex_input_ext_info e sq
      | Dispatch_protocol_error \<Rightarrow> dispatch_protocol_error e sq
      | Dispatch_protocol_ignore \<Rightarrow> pret ()
      | Other_handler n \<Rightarrow> other n type sq)"

text \<open>The handling of one packet: whether it ran a handler, after which \<^verbatim>\<open>*done\<close> is tested.\<close>

definition dispatch_packet ::
  "penv \<Rightarrow> (32 word \<Rightarrow> (ssh, unit) proc option) \<Rightarrow> (nat \<Rightarrow> byte \<Rightarrow> 32 word \<Rightarrow> (ssh, unit) proc) \<Rightarrow>
   byte \<Rightarrow> 32 word \<Rightarrow> (ssh, bool) proc" where
  "dispatch_packet e methods other type sq s =
     (if type > 0 \<and> unat type < DISPATCH_MAX \<and> sh_dispatch s (unat type) \<noteq> None then
        (if dispatch_skip_packets s \<noteq> 0 then
           pbind (pmodify (dispatch_skip_packets_update (\<lambda>n. n - 1))) (\<lambda>_. pret False) s
         else pbind (run_handler e methods other (the (sh_dispatch s (unat type))) type sq) (\<lambda>_. pret True) s)
      else pbind (sshpkt_disconnect e (bytes_of (''protocol error: rcvd type '' @ show_nat (unat type))))
             (\<lambda>_. perr SSH_ERR_DISCONNECTED) s)"

text \<open>
  \<^verbatim>\<open>ssh_dispatch_run\<close>; \<open>block\<close> is the mode and \<open>fin\<close> the test of \<^verbatim>\<open>*done\<close>, always false when \<^verbatim>\<open>done\<close> is
  \<^verbatim>\<open>NULL\<close>.
\<close>

partial_function (option) ssh_dispatch_run ::
  "penv \<Rightarrow> (32 word \<Rightarrow> (ssh, unit) proc option) \<Rightarrow> (nat \<Rightarrow> byte \<Rightarrow> 32 word \<Rightarrow> (ssh, unit) proc) \<Rightarrow>
   bool \<Rightarrow> (ssh \<Rightarrow> bool) \<Rightarrow> ssh \<Rightarrow> ((ssherr + unit) \<times> ssh) option" where
  "ssh_dispatch_run e methods other block fin s =
     (case (if block then ssh_packet_read_seqnr e s else ssh_packet_read_poll_seqnr e s) of
        None \<Rightarrow> None
      | Some (r, s1) \<Rightarrow>
          (case r of
             Inl er \<Rightarrow> Some (Inl er, s1)
           | Inr p \<Rightarrow>
               if \<not> block \<and> fst p = SSH_MSG_NONE then Some (Inr (), s1)
               else (case dispatch_packet e methods other (fst p) (case snd p of None \<Rightarrow> 0 | Some n \<Rightarrow> n) s1 of
                       None \<Rightarrow> None
                     | Some (r, s2) \<Rightarrow>
                         (case r of
                            Inl er \<Rightarrow> Some (Inl er, s2)
                          | Inr ok \<Rightarrow> if ok \<and> fin s2 then Some (Inr (), s2)
                                      else ssh_dispatch_run e methods other block fin s2))))"

end
