(* ===== verification/TransportProps.thy ===== *)
theory TransportProps
  imports Transport
begin

text \<open>
  Sending a packet ends. A packet may ask for new keys, which sends a KEXINIT by the same function;
  the second call never asks again.
\<close>

section \<open>Processes that return\<close>

text \<open>The process returns, and unless it returns an error its result satisfies \<open>Q\<close>.\<close>

fun runs :: "((ssherr + 'a) \<times> 's) option \<Rightarrow> ('a \<Rightarrow> 's \<Rightarrow> bool) \<Rightarrow> bool" where
  "runs None Q = False"
| "runs (Some (Inl e, s)) Q = True"
| "runs (Some (Inr x, s)) Q = Q x s"

named_theorems runs_simps \<open>weakest conditions for a process to return\<close>

lemma runs_conv: "runs m Q \<longleftrightarrow> (\<exists>r s. m = Some (r, s) \<and> (case r of Inl _ \<Rightarrow> True | Inr x \<Rightarrow> Q x s))"
  by (cases "(m, Q)" rule: runs.cases) auto

lemma runs_mono: "runs m Q \<Longrightarrow> (\<And>x s. Q x s \<Longrightarrow> R x s) \<Longrightarrow> runs m R"
  by (cases "(m, Q)" rule: runs.cases) auto

lemma runs_bind [runs_simps]: "runs (pbind m f s) Q = runs (m s) (\<lambda>x s'. runs (f x s') Q)"
  by (auto simp: pbind_def split: option.splits prod.splits sum.splits)

lemma pbind_assoc: "pbind (pbind m f) g = pbind m (\<lambda>x. pbind (f x) g)"
  by (auto simp: pbind_def fun_eq_iff split: option.splits prod.splits sum.splits)

lemma runs_bindI: "runs (m s) R \<Longrightarrow> (\<And>x s'. R x s' \<Longrightarrow> runs (f x s') Q) \<Longrightarrow> runs (pbind m f s) Q"
  unfolding runs_bind by (rule runs_mono)

lemma runs_basic [runs_simps]:
  "runs (pret x s) Q = Q x s" "runs (perr e s) Q"
  by (simp_all add: proc_simps)

lemma runs_pmodify [runs_simps]: "runs (pmodify f s) Q = Q () (f s)"
  by (simp add: proc_simps)

lemma runs_of_op [runs_simps]:
  "runs (of_op m s) Q = (case m s of (Inl _, _) \<Rightarrow> True | (Inr x, s') \<Rightarrow> Q x s')"
  by (auto simp: proc_simps split: prod.splits sum.splits)

lemma runs_set_state [runs_simps]:
  "runs (set_state f s) Q = Q () (sh_state_update f s)"
  by (simp add: set_state_def proc_simps)

lemma runs_pwhen [runs_simps]: "runs (pwhen b m s) Q = (if b then runs (m s) Q else Q () s)"
  by (simp add: pwhen_def runs_basic)

lemma runs_random [runs_simps]:
  "runs (arc4random_buf e n s) Q =
     Q (map (\<lambda>i. e_random e (sh_random s + i)) [0..<n]) (s\<lparr>sh_random := sh_random s + n\<rparr>)"
  by (simp add: arc4random_buf_def)

lemma runs_monotime [runs_simps]:
  "runs (monotime e s) Q = Q (e_clock e (sh_clock s)) (s\<lparr>sh_clock := sh_clock s + 1\<rparr>)"
  by (simp add: monotime_def)

lemma runs_on_kex [runs_simps]:
  "runs (on_kex m s) Q \<longleftrightarrow> (\<exists>k. sh_kex s = Some k \<and>
     (case m k of (Inl _, _) \<Rightarrow> True | (Inr x, k') \<Rightarrow> Q x (s\<lparr>sh_kex := Some k'\<rparr>)))"
  by (auto simp: on_kex_def split: option.splits prod.splits sum.splits)

lemma runs_on_context [runs_simps]:
  "runs (on_context MODE_OUT m s) Q \<longleftrightarrow> (\<exists>c. send_context (sh_state s) = Some c \<and>
     (case m c of (Inl _, _) \<Rightarrow> True
      | (Inr x, c') \<Rightarrow> Q x (s\<lparr>sh_state := (sh_state s)\<lparr>send_context := Some c'\<rparr>\<rparr>)))"
  by (auto simp: on_context_def Let_def split: option.splits prod.splits sum.splits)

lemma runs_on_newkeys [runs_simps]:
  "runs (on_newkeys m f s) Q \<longleftrightarrow> (\<exists>nk. s_newkeys (sh_state s) m = Some nk \<and>
     (case f nk of (Inl _, _) \<Rightarrow> True
      | (Inr x, nk') \<Rightarrow> Q x (s\<lparr>sh_state := (sh_state s)\<lparr>s_newkeys := (s_newkeys (sh_state s))(m := Some nk')\<rparr>\<rparr>)))"
  by (auto simp: on_newkeys_def split: option.splits prod.splits sum.splits)

lemma runs_on_compression [runs_simps]:
  "runs (on_compression m s) Q \<longleftrightarrow> (\<exists>b. compression_buffer (sh_state s) = Some b \<and>
     (case m b of (Inl _, _) \<Rightarrow> True
      | (Inr x, b') \<Rightarrow> Q x (s\<lparr>sh_state := (sh_state s)\<lparr>compression_buffer := Some b'\<rparr>\<rparr>)))"
  by (auto simp: on_compression_def split: option.splits prod.splits sum.splits)

section \<open>The invariant of a connection that sends\<close>

definition good_nk :: "newkeys option \<Rightarrow> sshbuf option \<Rightarrow> bool" where
  "good_nk nk b \<longleftrightarrow> (comp_on nk \<longrightarrow> b \<noteq> None)"

definition sendable :: "newkeys option \<Rightarrow> ssh \<Rightarrow> bool" where
  "sendable nk s \<longleftrightarrow>
     (\<exists>k. sh_kex s = Some k \<and> \<not> kex_flag KEX_INITIAL k \<and> \<not> comp_on (k_newkeys k MODE_OUT)) \<and>
     send_context (sh_state s) \<noteq> None \<and> (s_newkeys (sh_state s) MODE_OUT = None \<longleftrightarrow> nk = None) \<and>
     good_nk nk (compression_buffer (sh_state s)) \<and>
     good_nk (s_newkeys (sh_state s) MODE_OUT) (compression_buffer (sh_state s)) \<and> good_sshbuf (outgoing_packet (sh_state s)) \<and>
     (\<forall>p\<in>set (outgoing (sh_state s)). good_sshbuf (snd p) \<and> 6 \<le> sshbuf_len (snd p))"

text \<open>The output that zlib still has to deliver is finite.\<close>

definition deflate_ends :: "penv \<Rightarrow> (opaque \<Rightarrow> byte list \<Rightarrow> nat) \<Rightarrow> bool" where
  "deflate_ends e pending \<longleftrightarrow>
     (\<forall>z inp. case deflate (e_z e) z inp 4096 of (status, out, used, z') \<Rightarrow>
        status = Z_OK \<and> 4096 \<le> length out \<longrightarrow> pending z' (drop used inp) < pending z inp)"

lemma good_ops:
  assumes "good_sshbuf b"
  shows "sshbuf_put lc v b = (r, b') \<Longrightarrow> good_sshbuf b'"
    and "sshbuf_consume n b = (r, b') \<Longrightarrow> good_sshbuf b'"
    and "sshbuf_reserve lc n b = (q, b') \<Longrightarrow> good_sshbuf b'"
    and "good_sshbuf (sshbuf_reset lc b)"
  using good_call[OF assms, of "Call_put v" lc] good_call[OF assms, of "Call_consume n" lc]
    good_call[OF assms, of "Call_reserve n" lc] good_call[OF assms, of Call_reset lc]
  by auto

lemma good_write: "good_sshbuf b \<Longrightarrow> i + length bs \<le> b_alloc b \<Longrightarrow> good_sshbuf (mem_write i bs b)"
  by (simp add: good_sshbuf_def mem_write_wf buf_frame)

lemma mem_write_len: "sshbuf_len (mem_write i bs b) = sshbuf_len b"
  by (simp add: sshbuf_len_def sshbuf_insane_def buf_frame)

text \<open>A part of the state that an operation works on, for the parts that hold buffers.\<close>

lemma zoomed:
  "zoom g u m s = (case m (g s) of (r, x) \<Rightarrow> (r, u (\<lambda>_. x) s))"
  by (simp add: zoom_def)

lemmas on_defs = on_state_def on_input_def on_output_def on_outgoing_def on_incoming_def zoomed

lemma compress_loop_runs:
  assumes z: "deflate_ends e pending" and s: "sendable nk s" and b: "compression_buffer (sh_state s) \<noteq> None"
  shows "runs (compress_loop e inp s) (\<lambda>_ s'. sendable nk s' \<and> compression_buffer (sh_state s') \<noteq> None)"
  using s b
proof (induction "pending (compression_out_stream (sh_state s)) inp" arbitrary: s inp rule: less_induct)
  case less
  obtain status out used z' where d:
      "deflate (e_z e) (compression_out_stream (sh_state s)) inp 4096 = (status, out, used, z')"
    by (metis prod_cases4)
  show ?case
  proof (cases "status = Z_OK")
    case True
    define s1 where "s1 = s\<lparr>sh_state := (sh_state s)\<lparr>compression_out_stream := z'\<rparr>\<rparr>"
    obtain b where b: "compression_buffer (sh_state s) = Some b" using less.prems by auto
    obtain r b' where put: "sshbuf_put (e_lc e) out b = (r, b')" by fastforce
    define s2 where "s2 = s1\<lparr>sh_state := (sh_state s1)\<lparr>compression_buffer := Some b'\<rparr>\<rparr>"
    have on: "on_compression (sshbuf_put (e_lc e) out) s1 = Some (r, s2)"
      using b put by (simp add: on_compression_def s1_def s2_def)
    have s2: "sendable nk s2" "compression_buffer (sh_state s2) \<noteq> None"
      using less.prems by (auto simp: s2_def s1_def sendable_def good_nk_def)
    have dec: "pending z' (drop used inp) < pending (compression_out_stream (sh_state s)) inp" if "4096 \<le> length out"
      using z[unfolded deflate_ends_def, rule_format, of inp "compression_out_stream (sh_state s)"] d True that
      by simp
    have st: "compression_out_stream (sh_state s2) = z'" by (simp add: s2_def s1_def)
    have "compress_loop e inp s =
        (case r of Inl er \<Rightarrow> Some (Inl er, s2)
         | Inr _ \<Rightarrow> if 4096 - length out = 0 then compress_loop e (drop used inp) s2 else Some (Inr (), s2))"
      by (subst compress_loop.simps) (simp add: d True on flip: s1_def)
    then show ?thesis
      using s2 less.hyps[of s2 "drop used inp"] dec st by (cases r) auto
  next
    case False
    then show ?thesis by (subst compress_loop.simps) (auto simp: d Let_def)
  qed
qed

section \<open>Sending a packet\<close>

lemma sendable_simps:
  "sendable nk (s\<lparr>sh_random := n\<rparr>) = sendable nk s" "sendable nk (s\<lparr>sh_clock := n\<rparr>) = sendable nk s"
  "sendable nk (s\<lparr>sh_state := (sh_state s)\<lparr>s_output := b\<rparr>\<rparr>) = sendable nk s"
  "sendable nk (s\<lparr>sh_state := (sh_state s)\<lparr>extra_pad := p\<rparr>\<rparr>) = sendable nk s"
  by (simp_all add: sendable_def)

lemma sendable_outgoing:
  "sendable nk s \<Longrightarrow> good_sshbuf b \<Longrightarrow> sendable nk (s\<lparr>sh_state := (sh_state s)\<lparr>outgoing_packet := b\<rparr>\<rparr>)"
  by (simp add: sendable_def)

lemma runs_outgoing:
  assumes s: "sendable nk s"
    and m: "\<And>x b'. good_sshbuf (outgoing_packet (sh_state s)) \<Longrightarrow>
      m (outgoing_packet (sh_state s)) = (Inr x, b') \<Longrightarrow> good_sshbuf b' \<and> P x b'"
  shows "runs (of_op (on_outgoing m) s) (\<lambda>x s'. sendable nk s' \<and> P x (outgoing_packet (sh_state s')))"
proof -
  obtain r b' where "m (outgoing_packet (sh_state s)) = (r, b')" by fastforce
  moreover have "good_sshbuf (outgoing_packet (sh_state s))" using s by (simp add: sendable_def)
  ultimately show ?thesis
    using m[of _ b'] s by (cases r) (auto simp: runs_simps on_defs sendable_outgoing)
qed

abbreviation out_len :: "ssh \<Rightarrow> nat" where
  "out_len s \<equiv> sshbuf_len (outgoing_packet (sh_state s))"

lemma put_len:
  assumes "good_sshbuf b" and "sshbuf_put lc v b = (Inr u, b')"
  shows "good_sshbuf b' \<and> sshbuf_len b' = sshbuf_len b + length v"
  using assms good_ops(1)[OF assms] put_spec[of b lc v "Inr u" b']
  by (auto simp: good_sshbuf_def sshbuf_len_contents simp del: length_contents)

lemma reserve_len:
  assumes "good_sshbuf b" and "sshbuf_reserve lc n b = (Inr i, b')"
  shows "good_sshbuf b' \<and> i + n \<le> b_alloc b' \<and> sshbuf_len b' = sshbuf_len b + n"
proof -
  have wf: "wf_sshbuf b" "wf_sshbuf b'" and good: "good_sshbuf b'"
    using assms good_ops(3)[OF assms] by (simp_all add: good_sshbuf_def)
  have spec: "i + n = b_size b'" "b_off b' \<le> i" "take (i - b_off b') (contents b') = contents b"
    using reserve_spec[OF wf(1) assms(2)] by auto
  have "sshbuf_len b = i - b_off b'"
    using arg_cong[OF spec(3), of length] spec(1,2) wf
    by (simp add: sshbuf_len_contents[OF wf(1)] del: length_contents)
      (simp add: min_def split: if_splits)
  then show ?thesis
    using spec wf_sshbufD(1,4)[OF wf(2)] good by (simp add: sshbuf_len_def[of b'])
qed

lemma outgoing_runs:
  assumes s: "sendable nk s"
  shows "runs (of_op (on_outgoing (sshbuf_consume n)) s) (\<lambda>_. sendable nk)"
    and "runs (of_op (on_outgoing (modify_op (sshbuf_reset lc))) s) (\<lambda>_. sendable nk)"
    and "runs (of_op (sshpkt_put e v) s) (\<lambda>_ s'. sendable nk s' \<and> out_len s' = out_len s + length v)"
    and "runs (of_op (sshpkt_putb e w) s) (\<lambda>_ s'. sendable nk s' \<and> out_len s \<le> out_len s')"
proof -
  note run = runs_outgoing[OF s, of _ "\<lambda>_ _. True", simplified]
  show "runs (of_op (on_outgoing (sshbuf_consume n)) s) (\<lambda>_. sendable nk)"
    "runs (of_op (on_outgoing (modify_op (sshbuf_reset lc))) s) (\<lambda>_. sendable nk)"
    by (rule run; auto dest: good_ops simp: op_simps)+
  show "runs (of_op (sshpkt_put e v) s) (\<lambda>_ s'. sendable nk s' \<and> out_len s' = out_len s + length v)"
    unfolding sshpkt_put_def by (rule runs_outgoing[OF s]) (auto dest: put_len)
  show "runs (of_op (sshpkt_putb e w) s) (\<lambda>_ s'. sendable nk s' \<and> out_len s \<le> out_len s')"
    unfolding sshpkt_putb_def
    by (rule runs_outgoing[OF s]) (auto dest: put_len simp: sshbuf_putb_def op_simps split: option.splits)
qed

lemma compress_buffer_runs:
  assumes z: "deflate_ends e pending" and s: "sendable nk s" and b: "compression_buffer (sh_state s) \<noteq> None"
  shows "runs (compress_buffer e s) (\<lambda>_. sendable nk)"
  using s runs_mono[OF compress_loop_runs[OF z s b], of "\<lambda>_. sendable nk"]
  by (simp add: compress_buffer_def Let_def runs_simps)

lemma compress_outgoing_runs:
  assumes z: "deflate_ends e pending" and s: "sendable nk s" and c: "comp_on nk"
  shows "runs (compress_outgoing e s) (\<lambda>_ s'. sendable nk s' \<and> 5 \<le> out_len s')"
proof -
  have reset: "runs (on_compression (modify_op (sshbuf_reset (e_lc e))) s)
      (\<lambda>_ s. sendable nk s \<and> compression_buffer (sh_state s) \<noteq> None)" if "sendable nk s" for s
    using that c by (auto simp: runs_simps op_simps sendable_def good_nk_def)
  have put: "runs (of_op (sshpkt_put e [0, 0, 0, 0, 0]) s) (\<lambda>_ s'. sendable nk s' \<and> 5 \<le> out_len s')"
    if "sendable nk s" for s
    by (rule runs_mono[OF outgoing_runs(3)[OF that]]) simp
  have putb: "runs (of_op (sshpkt_putb e w) s) (\<lambda>_ s'. sendable nk s' \<and> 5 \<le> out_len s')"
    if "sendable nk s \<and> 5 \<le> out_len s" for s w
    by (rule runs_mono[OF outgoing_runs(4)[of nk]]) (use that in auto)
  show ?thesis
    unfolding compress_outgoing_def runs_bind
    by (rule runs_mono[OF outgoing_runs(1)[OF s]], rule runs_mono[OF reset], assumption,
        rule runs_mono[OF compress_buffer_runs[OF z, of nk]], simp, simp,
        rule runs_mono[OF outgoing_runs(2)], assumption, rule runs_mono[OF put], assumption,
        rule putb, assumption)
qed

lemma choose_padding_frame:
  "choose_padding bs len st = (r, st') \<Longrightarrow> st' = st\<lparr>extra_pad := extra_pad st'\<rparr>"
  by (auto simp: choose_padding_def Let_def op_simps split: if_splits)

lemma pad_fill_runs:
  assumes s: "sendable nk s" and n: "5 \<le> out_len s"
    and i: "i + length pad \<le> b_alloc (outgoing_packet (sh_state s))"
  shows "runs (of_op (on_outgoing (modify_op (mem_write i pad))) s) (\<lambda>_ s'. sendable nk s' \<and> 5 \<le> out_len s')"
  by (rule runs_outgoing[OF s]) (use n i good_write in \<open>auto simp: op_simps mem_write_len\<close>)

lemma pad_header_runs:
  assumes s: "sendable nk s" and n: "5 \<le> out_len s" and f: "\<And>b. length (f b) = 5"
  shows "runs (of_op (on_outgoing (modify_op (\<lambda>b. mem_write (b_off b) (f b) b))) s) (\<lambda>_. sendable nk)"
proof -
  let ?b = "outgoing_packet (sh_state s)"
  have wf: "wf_sshbuf ?b" and good: "good_sshbuf ?b" using s by (simp_all add: sendable_def good_sshbuf_def)
  have "b_off ?b + 5 \<le> b_alloc ?b"
    using n wf_sshbufD(1,3,4)[OF wf] by (simp add: sshbuf_len_def)
  then show ?thesis
    using good_write[OF good, of "b_off ?b" "f ?b"] f s
    by (auto simp: runs_simps on_defs op_simps sendable_outgoing)
qed

lemma pad_outgoing_runs:
  assumes s: "sendable nk s" and n: "5 \<le> out_len s"
  shows "runs (pad_outgoing e nk s) (\<lambda>_. sendable nk)"
proof -
  define len where "len = out_len s - nk_aadlen nk"
  have choose: "runs (of_op (on_state (choose_padding (nk_block_size nk) len)) s)
      (\<lambda>_ s'. sendable nk s' \<and> 5 \<le> out_len s')"
  proof -
    obtain r st' where c: "choose_padding (nk_block_size nk) len (sh_state s) = (r, st')" by fastforce
    then obtain p where "st' = (sh_state s)\<lparr>extra_pad := p\<rparr>" using choose_padding_frame by blast
    then show ?thesis
      using s n by (simp add: runs_of_op on_state_def zoomed c sendable_simps split: sum.splits)
  qed
  have res: "runs (of_op (on_outgoing (sshbuf_reserve (e_lc e) m)) s) (\<lambda>i s'. sendable nk s' \<and>
      5 \<le> out_len s' \<and> i + m \<le> b_alloc (outgoing_packet (sh_state s')))"
    if "sendable nk s \<and> 5 \<le> out_len s" for s m
    by (rule runs_outgoing) (use that reserve_len in \<open>auto simp: sendable_def\<close>)
  have plain: "runs ((if nk = None then pret True
      else on_context MODE_OUT (\<lambda>c. ret (cipher_ctx_is_plaintext c) c)) s) (\<lambda>_ s'. sendable nk s' \<and>
      5 \<le> out_len s' \<and> i + m \<le> b_alloc (outgoing_packet (sh_state s')))"
    if "sendable nk s \<and> 5 \<le> out_len s \<and> i + m \<le> b_alloc (outgoing_packet (sh_state s))" for s i m
    using that by (auto simp: runs_simps op_simps sendable_def)
  have bytes: "runs ((if p then pret (replicate m 0) else arc4random_buf e m) s) (\<lambda>pad s'. sendable nk s' \<and>
      5 \<le> out_len s' \<and> i + length pad \<le> b_alloc (outgoing_packet (sh_state s')))"
    if "sendable nk s \<and> 5 \<le> out_len s \<and> i + m \<le> b_alloc (outgoing_packet (sh_state s))" for s i m p
    using that by (auto simp: runs_simps sendable_simps)
  have fill: "runs (of_op (on_outgoing (modify_op (mem_write i pad))) s) (\<lambda>_ s'. sendable nk s' \<and> 5 \<le> out_len s')"
    if "sendable nk s \<and> 5 \<le> out_len s \<and> i + length pad \<le> b_alloc (outgoing_packet (sh_state s))" for s i pad
    using pad_fill_runs that by blast
  have head: "runs ((if sshbuf_mutable_ptr (outgoing_packet (sh_state s)) = None then perr SSH_ERR_INTERNAL_ERROR s
      else of_op (on_outgoing (modify_op (\<lambda>b. mem_write (b_off b)
        (POKE_U32 (of_nat (sshbuf_len b - 4)) @ [padlen]) b))) s)) (\<lambda>_. sendable nk)"
    if "sendable nk s \<and> 5 \<le> out_len s" for s padlen
    using that pad_header_runs[of nk s "\<lambda>b. POKE_U32 (of_nat (sshbuf_len b - 4)) @ [padlen]"]
    by (simp add: runs_simps)
  show ?thesis
    unfolding pad_outgoing_def Let_def runs_bind len_def[symmetric]
    by (rule runs_mono[OF choose], rule runs_mono[OF res], assumption, rule runs_mono[OF plain], assumption,
        rule runs_mono[OF bytes], assumption, rule runs_mono[OF fill], assumption, rule head, assumption)
qed

lemma mac_runs:
  assumes "sendable nk s" and "mac_on nk"
  shows "runs (on_mac MODE_OUT f s) (\<lambda>_. sendable nk)"
  using assms
  by (cases nk) (auto simp: on_mac_def runs_simps zoomed sendable_def good_nk_def comp_on_def mac_on_def
      nk_mac_of_def split: prod.splits sum.splits)

lemma output_runs:
  assumes "sendable nk s"
  shows "runs (of_op (on_output m) s) (\<lambda>_. sendable nk)"
  using assms by (auto simp: runs_simps on_defs sendable_simps split: prod.splits sum.splits)

lemma crypt_runs:
  assumes "sendable nk s"
  shows "runs (on_context MODE_OUT m s) (\<lambda>_. sendable nk)"
  using assms by (auto simp: runs_simps sendable_def split: prod.splits sum.splits)

lemma seal_outgoing_runs:
  assumes s: "sendable nk s"
  shows "runs (seal_outgoing e nk s) (\<lambda>_. sendable nk)"
proof -
  have mac: "runs ((if c then on_mac MODE_OUT f else pret d) s) (\<lambda>_. sendable nk)"
    if "sendable nk s" "c \<Longrightarrow> mac_on nk" for s c f d
    using that mac_runs by (auto simp: runs_simps)
  have tail: "runs (pwhen (mac_on nk) (pbind (if mac_etm nk then on_mac MODE_OUT f else pret d) (\<lambda>m.
      of_op (on_output (g m)))) s) (\<lambda>_. sendable nk)"
    if "sendable nk s" for s f d g
  proof (cases "mac_on nk")
    case True
    have "runs (pbind (if mac_etm nk then on_mac MODE_OUT f else pret d) (\<lambda>m. of_op (on_output (g m))) s)
        (\<lambda>_. sendable nk)"
      by (rule runs_bindI, rule mac[OF that True], rule output_runs)
    then show ?thesis using True by (simp add: runs_pwhen)
  qed (simp add: runs_pwhen that)
  show ?thesis
    unfolding seal_outgoing_def Let_def runs_bind
    by (rule runs_mono[OF mac[OF s]], simp, rule runs_mono[OF output_runs], assumption,
        rule runs_mono[OF crypt_runs], assumption, rule runs_mono[OF output_runs], assumption,
        rule runs_mono[OF tail], assumption, simp add: runs_simps)
qed

lemma count_sent_runs:
  assumes s: "sendable nk s"
  shows "runs (count_sent e nk len s) (\<lambda>_. sendable nk)"
proof -
  have upd: "sendable nk (sh_state_update (p_send_update f) s) = sendable nk s" for f s
    by (simp add: sendable_def)
  have kex: "\<not> (case sh_kex s of None \<Rightarrow> True | Some k \<Rightarrow> kex_flag KEX_INITIAL k)" if "sendable nk s" for s
    using that by (auto simp: sendable_def)
  show ?thesis
    using s kex[OF s] outgoing_runs(2)[of nk "sh_state_update (p_send_update f) s" "e_lc e" for f]
    by (simp add: count_sent_def runs_bind runs_set_state upd) (auto simp: runs_simps upd on_defs op_simps)
qed

section \<open>New keys\<close>

definition ready :: "ssh \<Rightarrow> bool" where
  "ready s \<longleftrightarrow> sendable (s_newkeys (sh_state s) MODE_OUT) s"

lemma sendable_ready: "sendable nk s \<Longrightarrow> ready s"
  by (auto simp: ready_def sendable_def)

lemma ready_alt:
  "ready s \<longleftrightarrow>
     (\<exists>k. sh_kex s = Some k \<and> \<not> kex_flag KEX_INITIAL k \<and> \<not> comp_on (k_newkeys k MODE_OUT)) \<and>
     send_context (sh_state s) \<noteq> None \<and>
     good_nk (s_newkeys (sh_state s) MODE_OUT) (compression_buffer (sh_state s)) \<and>
     good_sshbuf (outgoing_packet (sh_state s)) \<and>
     (\<forall>p\<in>set (outgoing (sh_state s)). good_sshbuf (snd p) \<and> 6 \<le> sshbuf_len (snd p))"
  by (auto simp: ready_def sendable_def)

lemma init_compression_runs:
  "ready s \<Longrightarrow> s_newkeys (sh_state s) m \<noteq> None \<Longrightarrow> runs (ssh_packet_init_compression e s) (\<lambda>_ s'. ready s' \<and>
     s_newkeys (sh_state s') m \<noteq> None \<and> compression_buffer (sh_state s') \<noteq> None)"
  by (auto simp: ssh_packet_init_compression_def runs_simps ready_alt good_nk_def split: option.splits)

lemma start_compression_runs:
  "ready s \<and> s_newkeys (sh_state s) m \<noteq> None \<and> compression_buffer (sh_state s) \<noteq> None \<Longrightarrow>
   runs ((if m = MODE_OUT then start_compression_out e 6 else start_compression_in e) s) (\<lambda>_ s'. ready s' \<and>
     s_newkeys (sh_state s') m \<noteq> None \<and> compression_buffer (sh_state s') \<noteq> None)"
  by (auto simp: start_compression_out_def start_compression_in_def runs_simps ready_alt good_nk_def
      split: prod.splits)

lemma delayed_runs:
  assumes s: "ready s" and d: "s_newkeys (sh_state s) m \<noteq> None"
  shows "runs (start_delayed e m s) (\<lambda>_ s. ready s)"
  unfolding start_delayed_def runs_bind
  by (rule runs_mono[OF init_compression_runs[OF s d]], rule runs_mono[OF start_compression_runs],
      assumption, auto simp: runs_simps op_simps ready_alt good_nk_def)

lemma when_delayed_runs:
  assumes "ready s" and "c \<Longrightarrow> delayed_comp m s"
  shows "runs (pwhen c (start_delayed e m) s) (\<lambda>_ s. ready s)"
  using assms delayed_runs[OF assms(1), of m] by (auto simp: runs_pwhen delayed_comp_def split: option.splits)

lemma enable_delayed_runs:
  assumes "ready s"
  shows "runs (ssh_packet_enable_delayed_compress e s) (\<lambda>_ s. ready s)"
proof -
  have auth: "runs (set_state (\<lambda>st. st\<lparr>after_authentication := True\<rparr>) s) (\<lambda>_ s. ready s)"
    using assms by (simp add: runs_simps ready_alt)
  show ?thesis
    unfolding ssh_packet_enable_delayed_compress_def runs_bind
    by (rule runs_mono[OF auth], rule runs_mono[OF when_delayed_runs], assumption, assumption,
        rule when_delayed_runs, assumption, assumption)
qed

lemma set_newkeys_runs:
  assumes s: "ready s"
  shows "runs (ssh_set_newkeys e MODE_OUT s) (\<lambda>_ s. ready s)"
proof -
  obtain k where k: "sh_kex s = Some k" "\<not> kex_flag KEX_INITIAL k" "\<not> comp_on (k_newkeys k MODE_OUT)"
    using s by (auto simp: ready_alt)
  define R where "R s \<longleftrightarrow> ready s \<and> s_newkeys (sh_state s) MODE_OUT \<noteq> None" for s
  define s1 where "s1 = sh_state_update (\<lambda>st. (p_send_update clear_counts st)
      \<lparr>s_newkeys := (s_newkeys st)(MODE_OUT := k_newkeys k MODE_OUT)\<rparr>) s"
  have mac: "runs (on_mac MODE_OUT f s) (\<lambda>_. R)" if "R s" for f :: "(sshmac, unit) op" and s
    using that by (auto simp: R_def on_mac_def runs_simps zoomed ready_alt good_nk_def comp_on_def
        split: prod.splits sum.splits option.splits)
  have mac': "runs (pwhen c (on_mac MODE_OUT f) s) (\<lambda>_. R)" if "R s" for f c s
    using mac that by (simp add: runs_pwhen)
  have ctx: "runs (init_context e MODE_OUT s) (\<lambda>_. R)" if "R s" for s
    using that by (auto simp: R_def init_context_def Let_def runs_simps ready_alt set_context_def split: sum.splits)
  have comp: "runs (pwhen (delayed_comp MODE_OUT s \<and> after_authentication (sh_state s)) (start_delayed e MODE_OUT) s)
      (\<lambda>_ s. ready s)" if "R s" for s
    by (rule when_delayed_runs) (use that in \<open>auto simp: R_def\<close>)
  have lim: "ready (sh_state_update (set_block_limits MODE_OUT) s)" if "ready s" for s
    using that by (simp add: ready_alt set_block_limits_def Let_def)
  show ?thesis
  proof (cases "k_newkeys k MODE_OUT")
    case None
    then show ?thesis by (simp add: ssh_set_newkeys_def k runs_simps)
  next
    case (Some nk)
    have R1: "R (ssh_clear_newkeys MODE_OUT s1)"
      using s k Some by (auto simp: R_def s1_def ssh_clear_newkeys_def ready_alt good_nk_def comp_on_def
          kex_flag_def)
    show ?thesis
      unfolding ssh_set_newkeys_def k(1) option.case runs_bind runs_set_state Some runs_pmodify
        if_P[OF refl] s1_def[unfolded Some, symmetric]
      by (rule runs_mono[OF mac'[OF R1]], rule runs_mono[OF mac], assumption, rule runs_mono[OF ctx],
          assumption, rule runs_mono[OF comp], assumption, rule lim)
  qed
qed

lemma after_sent_runs:
  assumes s: "ready s"
  shows "runs (after_sent e type s) (\<lambda>_ s. ready s)"
proof -
  obtain k where k: "sh_kex s = Some k" using s by (auto simp: ready_alt)
  have seq: "runs (pwhen c (set_state (p_send_update (seqnr_update (\<lambda>_. 0)))) s) (\<lambda>_ s. ready s)" for c
    using s by (simp add: runs_simps ready_alt)
  have "runs (pbind (pwhen c (set_state (p_send_update (seqnr_update (\<lambda>_. 0)))))
      (\<lambda>_. ssh_set_newkeys e MODE_OUT) s) (\<lambda>_ s. ready s)" for c
    unfolding runs_bind by (rule runs_mono[OF seq], rule set_newkeys_runs)
  then show ?thesis
    using s enable_delayed_runs[OF s] by (simp add: after_sent_def k runs_basic)
qed

lemma send2_wrapped_runs:
  assumes z: "deflate_ends e pending" and s: "ready s" and n: "5 \<le> out_len s"
  shows "runs (ssh_packet_send2_wrapped e s) (\<lambda>_ s. ready s)"
proof -
  define nk where "nk = s_newkeys (sh_state s) MODE_OUT"
  have s': "sendable nk s" using s by (simp add: ready_def nk_def)
  have ptr: "sshbuf_ptr (outgoing_packet (sh_state s)) \<noteq> None" using s' by (simp add: sendable_def good_sshbuf_def)
  have comp: "runs (pwhen (comp_on nk) (compress_outgoing e) s) (\<lambda>_ s. sendable nk s \<and> 5 \<le> out_len s)"
    using s' n compress_outgoing_runs[OF z s'] by (simp add: runs_pwhen)
  have pad: "runs (pad_outgoing e nk s) (\<lambda>_. sendable nk)" if "sendable nk s \<and> 5 \<le> out_len s" for s
    using pad_outgoing_runs that by blast
  show ?thesis
    unfolding ssh_packet_send2_wrapped_def Let_def if_not_P[OF ptr] runs_bind nk_def[symmetric]
    by (rule runs_mono[OF comp], rule runs_mono[OF pad], assumption, rule runs_mono[OF seal_outgoing_runs],
        assumption, rule runs_mono[OF count_sent_runs], assumption, rule after_sent_runs, rule sendable_ready)
qed

section \<open>The recursion of sending\<close>

lemma need_rekeying_runs:
  "ready s \<Longrightarrow> P s \<Longrightarrow> (\<And>n. P (s\<lparr>sh_clock := n\<rparr>)) \<Longrightarrow>
   runs (ssh_packet_need_rekeying e len s) (\<lambda>_ s'. ready s' \<and> P s')"
  by (auto simp: ssh_packet_need_rekeying_def Let_def runs_simps ready_alt)

lemma send_queue_runs:
  assumes z: "deflate_ends e pending" and rekex: "\<And>s. ready s \<Longrightarrow> runs (rekex s) (\<lambda>_ s. True)"
  shows "ready s \<Longrightarrow> \<forall>p\<in>set q. good_sshbuf (snd p) \<and> 6 \<le> sshbuf_len (snd p) \<Longrightarrow>
    runs (send_queue e rekex q s) (\<lambda>_ s. True)"
proof (induction q arbitrary: s)
  case Nil
  then show ?case by (simp add: runs_simps)
next
  case (Cons p q)
  have p: "good_sshbuf (snd p)" "6 \<le> sshbuf_len (snd p)"
    and q: "\<forall>p\<in>set q. good_sshbuf (snd p) \<and> 6 \<le> sshbuf_len (snd p)"
    using Cons.prems(2) by auto
  have set: "runs (set_state (\<lambda>st. st\<lparr>outgoing_packet := snd p, outgoing := q\<rparr>) s)
      (\<lambda>_ s. ready s \<and> 5 \<le> out_len s)" if "ready s" for s
    using that p q by (simp add: runs_simps ready_alt)
  have send: "runs (ssh_packet_send2_wrapped e s) (\<lambda>_ s. ready s)" if "ready s \<and> 5 \<le> out_len s" for s
    using send2_wrapped_runs[OF z] that by blast
  have go: "runs (pbind (set_state (\<lambda>st. st\<lparr>outgoing_packet := snd p, outgoing := q\<rparr>)) (\<lambda>_.
      pbind (ssh_packet_send2_wrapped e) (\<lambda>_. send_queue e rekex q)) s) (\<lambda>_ s. True)" if "ready s" for s
    unfolding runs_bind
    by (rule runs_mono[OF set[OF that]], rule runs_mono[OF send], assumption, rule Cons.IH[OF _ q])
  show ?case
    unfolding send_queue.simps runs_bind
    by (rule runs_mono[OF need_rekeying_runs[OF Cons.prems(1), of "\<lambda>_. True"]])
      (use rekex go in auto)
qed

lemma enqueue_runs:
  assumes "ready s" and "6 \<le> out_len s"
  shows "runs (enqueue_packet e type s) (\<lambda>_ s. ready s)"
  using assms sshbuf_new_good
  by (auto simp: enqueue_packet_def set_outgoing_packet_def runs_simps ready_alt split: option.splits)

lemma preauth_runs: "Q () s \<Longrightarrow> runs (pwhen c (of_op ssh_packet_check_rekey_preauth) s) Q"
  by (simp add: runs_simps ssh_packet_check_rekey_preauth_def op_simps)

text \<open>The part of \<open>send2_with\<close> that puts the packet on the wire.\<close>

lemma wire_runs:
  assumes z: "deflate_ends e pending" and s: "ready s" and n: "6 \<le> out_len s"
  shows "runs (pbind (pwhen c (set_state (\<lambda>st. st\<lparr>rekeying := True\<rparr>))) (\<lambda>_. ssh_packet_send2_wrapped e) s)
    (\<lambda>_ s. ready s)"
proof -
  have set: "runs (pwhen c (set_state (\<lambda>st. st\<lparr>rekeying := True\<rparr>)) s) (\<lambda>_ s. ready s \<and> 5 \<le> out_len s)"
    using s n by (simp add: runs_simps ready_alt)
  show ?thesis
    unfolding runs_bind by (rule runs_mono[OF set], rule send2_wrapped_runs[OF z]) auto
qed

lemma send2_kexinit:
  assumes z: "deflate_ends e pending" and s: "ready s"
    and t: "packet_type (outgoing_packet (sh_state s)) = SSH2_MSG_KEXINIT"
  shows "runs (send2_with e rekex s) (\<lambda>_ s. ready s)"
proof (cases "out_len s < 6")
  case True
  then show ?thesis by (simp add: send2_with_def Let_def runs_simps)
next
  case False
  have kex: "ssh_packet_type_is_kex SSH2_MSG_KEXINIT" "SSH2_MSG_KEXINIT \<noteq> SSH2_MSG_NEWKEYS"
    by (simp_all add: ssh_packet_type_is_kex_def msg_numbers)
  show ?thesis
    using wire_runs[OF z s, of True] False
    by (simp add: send2_with_def Let_def t kex pbind_pret runs_bind runs_pwhen runs_basic)
qed

lemma send2_with_runs:
  assumes z: "deflate_ends e pending" and s: "ready s"
    and rekex: "\<And>s. ready s \<Longrightarrow> runs (rekex s) (\<lambda>_ s. True)"
  shows "runs (send2_with e rekex s) (\<lambda>_ s. True)"
proof (cases "out_len s < 6")
  case True
  then show ?thesis by (simp add: send2_with_def Let_def runs_simps)
next
  case False
  define type where "type = packet_type (outgoing_packet (sh_state s))"
  have need: "runs ((if c then pret False else ssh_packet_need_rekeying e l) s) (\<lambda>_ s. ready s \<and> 6 \<le> out_len s)" for c l
    using need_rekeying_runs[OF s, of "\<lambda>s. 6 \<le> out_len s"] False s by (auto simp: runs_basic)
  have queue: "runs (pbind (enqueue_packet e type) (\<lambda>_. if n then rekex else pret ()) s) (\<lambda>_ s. True)"
    if "ready s" "6 \<le> out_len s" for s n
    unfolding runs_bind by (rule runs_mono[OF enqueue_runs[OF that]]) (use rekex in \<open>auto simp: runs_basic\<close>)
  have after: "runs ((if type = SSH2_MSG_NEWKEYS then
      pbind (set_state (\<lambda>st. st\<lparr>rekeying := False\<rparr>)) (\<lambda>_. pbind (monotime e) (\<lambda>now.
      pbind (set_state (\<lambda>st. st\<lparr>rekey_time := now\<rparr>)) (\<lambda>_ s. send_queue e rekex (outgoing (sh_state s)) s)))
      else pret ()) s) (\<lambda>_ s. True)" if "ready s" for s
    using that by (auto simp: runs_simps intro!: send_queue_runs[OF z rekex]) (auto simp: ready_alt)
  have wire: "runs (pbind (pwhen c (set_state (\<lambda>st. st\<lparr>rekeying := True\<rparr>))) (\<lambda>_.
      pbind (ssh_packet_send2_wrapped e) (\<lambda>_. if type = SSH2_MSG_NEWKEYS then
        pbind (set_state (\<lambda>st. st\<lparr>rekeying := False\<rparr>)) (\<lambda>_. pbind (monotime e) (\<lambda>now.
        pbind (set_state (\<lambda>st. st\<lparr>rekey_time := now\<rparr>)) (\<lambda>_ s. send_queue e rekex (outgoing (sh_state s)) s)))
        else pret ())) s) (\<lambda>_ s. True)" if "ready s" "6 \<le> out_len s" for s c
    unfolding runs_bind[of "pwhen _ _"] runs_bind[of "ssh_packet_send2_wrapped e"]
    by (rule runs_mono[OF wire_runs[OF z that, unfolded runs_bind]], erule runs_mono, rule after)
  have step: "runs ((if c then pbind (enqueue_packet e type) (\<lambda>_. if n then rekex else pret ()) s
      else pbind (pwhen d (set_state (\<lambda>st. st\<lparr>rekeying := True\<rparr>))) (\<lambda>_.
      pbind (ssh_packet_send2_wrapped e) (\<lambda>_. if type = SSH2_MSG_NEWKEYS then
        pbind (set_state (\<lambda>st. st\<lparr>rekeying := False\<rparr>)) (\<lambda>_. pbind (monotime e) (\<lambda>now.
        pbind (set_state (\<lambda>st. st\<lparr>rekey_time := now\<rparr>)) (\<lambda>_ s. send_queue e rekex (outgoing (sh_state s)) s)))
        else pret ())) s)) (\<lambda>_ s. True)" if "ready s \<and> 6 \<le> out_len s" for s c d n
    using queue wire that by simp
  show ?thesis
    unfolding send2_with_def Let_def type_def[symmetric] if_not_P[OF False]
    by (rule runs_bindI, rule need, rule runs_bindI, rule preauth_runs, assumption, rule step)
qed

text \<open>The KEXINIT of a new exchange.\<close>

lemma start_kexinit:
  assumes good: "good_sshbuf b" and st: "sshbuf_put lc [0, 0, 0, 0, 0, type] (sshbuf_reset lc b) = (Inr u, b1)"
    and put: "sshbuf_putb lc v b1 = (Inr w, b2)"
  shows "good_sshbuf b2 \<and> packet_type b2 = type"
proof -
  have r: "good_sshbuf (sshbuf_reset lc b)" "contents (sshbuf_reset lc b) = []"
    using good good_ops(4) reset_wf[of b lc] by (auto simp: good_sshbuf_def reset_safe_def)
  have b1: "good_sshbuf b1" "contents b1 = [0, 0, 0, 0, 0, type]"
    using put_len[OF r(1) st] put_spec[OF _ st] r by (auto simp: good_sshbuf_def)
  have b2: "good_sshbuf b2" "\<exists>d. contents b2 = contents b1 @ d"
  proof -
    have "good_sshbuf b2 \<and> (\<exists>d. contents b2 = contents b1 @ d)"
    proof (cases v)
      case None
      then show ?thesis using put b1 by (simp add: sshbuf_putb_def op_simps)
    next
      case (Some x)
      then have run: "sshbuf_put lc (mem_read 0 (sshbuf_len x) x) b1 = (Inr w, b2)"
        using put by (simp add: sshbuf_putb_def)
      show ?thesis using put_len[OF b1(1) run] put_spec[OF _ run] b1(1) by (auto simp: good_sshbuf_def)
    qed
    then show "good_sshbuf b2" "\<exists>d. contents b2 = contents b1 @ d" by auto
  qed
  then obtain d where d: "contents b2 = [0, 0, 0, 0, 0, type] @ d" using b1 by auto
  have "mem_read 5 1 b2 = take 1 (drop 5 (contents b2))"
    by (rule mem_read_contents) (use b2 d in \<open>auto simp: good_sshbuf_def simp del: length_contents\<close>)
  then show ?thesis using b2 d by (simp add: packet_type_def)
qed

lemma send_kexinit_runs:
  assumes s: "ready s"
    and send: "\<And>s. ready s \<Longrightarrow> packet_type (outgoing_packet (sh_state s)) = SSH2_MSG_KEXINIT \<Longrightarrow>
      runs (send s) (\<lambda>_ s. ready s)"
  shows "runs (kex_send_kexinit_with e send s) (\<lambda>_ s. True)"
proof -
  obtain k where k: "sh_kex s = Some k" using s by (auto simp: ready_alt)
  have upd: "runs (on_kex (modify_op f) s) (\<lambda>_ s. ready s)"
    if "ready s" "\<And>k. k_flags (f k) = k_flags k" "\<And>k. k_newkeys (f k) = k_newkeys k" for s f
    using that by (auto simp: runs_simps op_simps ready_alt kex_flag_def)
  have rnd: "runs (arc4random_buf e n s) (\<lambda>_ s. ready s)" if "ready s" for s n
    using that by (simp add: runs_simps ready_alt)
  have msg: "runs (pbind (of_op (sshpkt_start e SSH2_MSG_KEXINIT)) (\<lambda>_ s.
      of_op (sshpkt_putb e (map_option k_my (sh_kex s))) s) s)
      (\<lambda>_ s. ready s \<and> packet_type (outgoing_packet (sh_state s)) = SSH2_MSG_KEXINIT)" if "ready s" for s
  proof -
    define b where "b = outgoing_packet (sh_state s)"
    have good: "good_sshbuf b" using that by (simp add: ready_alt b_def)
    obtain r1 b1 where st: "sshbuf_put (e_lc e) [0, 0, 0, 0, 0, SSH2_MSG_KEXINIT] (sshbuf_reset (e_lc e) b) = (r1, b1)"
      by fastforce
    obtain r2 b2 where put: "sshbuf_putb (e_lc e) (map_option k_my (sh_kex s)) b1 = (r2, b2)" by fastforce
    show ?thesis
      using start_kexinit[OF good, of "e_lc e" SSH2_MSG_KEXINIT _ b1 "map_option k_my (sh_kex s)" _ b2] st put that
      by (cases r1; cases r2)
        (auto simp: runs_simps sshpkt_start_def sshpkt_putb_def on_defs ready_alt simp flip: b_def)
  qed
  have flag: "runs (on_kex (modify_op f) s) (\<lambda>_ s. True)" if "ready s" for s f
    using that by (auto simp: runs_simps op_simps ready_alt)
  have tail: "runs (pbind (of_op (sshpkt_start e SSH2_MSG_KEXINIT)) (\<lambda>_.
      pbind (\<lambda>s. of_op (sshpkt_putb e (map_option k_my (sh_kex s))) s) (\<lambda>_.
      pbind send (\<lambda>_. on_kex (modify_op (set_flag KEX_INIT_SENT))))) s) (\<lambda>_ s. True)" if "ready s" for s
    unfolding pbind_assoc[symmetric]
    by (rule runs_bindI, rule runs_bindI, rule msg[OF that], rule send, auto intro: flag)
  show ?thesis
  proof (cases "kex_flag KEX_INIT_SENT k \<or> sshbuf_len (k_my k) < KEX_COOKIE_LEN \<or> sshbuf_mutable_ptr (k_my k) = None")
    case True
    then show ?thesis by (auto simp: kex_send_kexinit_with_def k runs_simps op_simps)
  next
    case False
    then have eq: "kex_send_kexinit_with e send s = pbind (on_kex (modify_op (\<lambda>k. k\<lparr>k_done := False\<rparr>))) (\<lambda>_.
      pbind (arc4random_buf e KEX_COOKIE_LEN) (\<lambda>cookie.
      pbind (on_kex (modify_op (\<lambda>k. k\<lparr>k_my := mem_write (b_off (k_my k)) cookie (k_my k)\<rparr>))) (\<lambda>_.
      pbind (of_op (sshpkt_start e SSH2_MSG_KEXINIT)) (\<lambda>_.
      pbind (\<lambda>s. of_op (sshpkt_putb e (map_option k_my (sh_kex s))) s) (\<lambda>_.
      pbind send (\<lambda>_. on_kex (modify_op (set_flag KEX_INIT_SENT)))))))) s"
      by (auto simp: kex_send_kexinit_with_def k)
    show ?thesis
      unfolding eq
      by (rule runs_bindI, rule upd[OF s], simp, simp, rule runs_bindI, rule rnd, assumption, rule runs_bindI,
          rule upd, assumption, simp, simp, rule tail)
  qed
qed

lemma start_rekex_runs:
  assumes s: "ready s"
    and send: "\<And>s. ready s \<Longrightarrow> packet_type (outgoing_packet (sh_state s)) = SSH2_MSG_KEXINIT \<Longrightarrow>
      runs (send s) (\<lambda>_ s. ready s)"
  shows "runs (kex_start_rekex_with e send s) (\<lambda>_ s. True)"
proof -
  obtain k where k: "sh_kex s = Some k" using s by (auto simp: ready_alt)
  have upd: "ready (s\<lparr>sh_kex := Some (k\<lparr>k_done := False\<rparr>)\<rparr>)"
    using s k by (auto simp: ready_alt kex_flag_def)
  show ?thesis
    using send_kexinit_runs[OF upd send] k by (simp add: kex_start_rekex_with_def runs_simps op_simps)
qed

text \<open>Where a process returns, a process that returns more often has the same result.\<close>

definition below :: "'a option \<Rightarrow> 'a option \<Rightarrow> bool" where
  "below x y \<longleftrightarrow> x = None \<or> y = x"

lemma below_refl [simp]: "below x x"
  by (simp add: below_def)

lemma below_bind:
  "below (m s) (m' s) \<Longrightarrow> (\<And>x t. below (f x t) (f' x t)) \<Longrightarrow> below (pbind m f s) (pbind m' f' s)"
  by (force simp: below_def pbind_def split: option.splits prod.splits sum.splits)

lemma below_if: "(c \<Longrightarrow> below x x') \<Longrightarrow> (\<not> c \<Longrightarrow> below y y') \<Longrightarrow> below (if c then x else y) (if c then x' else y')"
  by simp

lemma send_queue_below:
  "(\<And>t. below (r t) (r' t)) \<Longrightarrow> below (send_queue e r q s) (send_queue e r' q s)"
proof (induction q arbitrary: s)
  case (Cons p q)
  show ?case
    unfolding send_queue.simps
    by (rule below_bind, rule below_refl) (simp add: Cons.prems Cons.IH below_bind)
qed simp

lemma send2_with_below:
  assumes r: "\<And>t. below (r t) (r' t)"
  shows "below (send2_with e r s) (send2_with e r' s)"
proof -
  have queue: "below (pbind (enqueue_packet e type) (\<lambda>_. if n then r else pret ()) s)
      (pbind (enqueue_packet e type) (\<lambda>_. if n then r' else pret ()) s)" for type n s
    by (rule below_bind) (use r in auto)
  have after: "below ((if c then pbind (set_state (\<lambda>st. st\<lparr>rekeying := False\<rparr>)) (\<lambda>_. pbind (monotime e) (\<lambda>now.
      pbind (set_state (\<lambda>st. st\<lparr>rekey_time := now\<rparr>)) (\<lambda>_ s. send_queue e r (outgoing (sh_state s)) s)))
      else pret ()) s) ((if c then pbind (set_state (\<lambda>st. st\<lparr>rekeying := False\<rparr>)) (\<lambda>_. pbind (monotime e) (\<lambda>now.
      pbind (set_state (\<lambda>st. st\<lparr>rekey_time := now\<rparr>)) (\<lambda>_ s. send_queue e r' (outgoing (sh_state s)) s)))
      else pret ()) s)" for c s
    by (auto intro!: below_bind send_queue_below r)
  show ?thesis
    unfolding send2_with_def Let_def
    by (intro below_if below_bind below_refl queue after)
qed

lemma kexinit_below:
  assumes "\<And>t. below (r t) (r' t)"
  shows "below (kex_start_rekex_with e (send_with e r) s) (kex_start_rekex_with e (send_with e r') s)"
proof -
  have send: "below (send_with e r s) (send_with e r' s)" for s
    using assms by (simp add: send_with_def)
  have init: "below (kex_send_kexinit_with e (send_with e r) s) (kex_send_kexinit_with e (send_with e r') s)" for s
    unfolding kex_send_kexinit_with_def
    by (auto intro!: below_bind send split: option.splits)
  show ?thesis
    unfolding kex_start_rekex_with_def by (auto intro!: below_bind init split: option.splits)
qed

lemma send2_runs:
  assumes z: "deflate_ends e pending" and s: "ready s"
  shows "runs (send2_with e (kex_start_rekex_with e (send_with e (send2_with e fatal))) s) (\<lambda>_ s. True)"
proof -
  have kex: "runs (send_with e (send2_with e fatal) s) (\<lambda>_ s. ready s)"
    if "ready s" "packet_type (outgoing_packet (sh_state s)) = SSH2_MSG_KEXINIT" for s
  proof (cases "s_mux (sh_state s)")
    case True
    then show ?thesis using that(1) by (auto simp: send_with_def ssh_packet_send_mux_def Let_def runs_simps ready_alt)
  next
    case False
    then show ?thesis using send2_kexinit[OF z that] by (simp add: send_with_def)
  qed
  show ?thesis
    by (rule send2_with_runs[OF z s], rule start_rekex_runs, assumption, rule kex)
qed

lemma send2_inner:
  assumes z: "deflate_ends e pending" and s: "ready s"
  shows "send2_with e (kex_start_rekex_with e (send_with e (send2_with e inner))) s =
    send2_with e (kex_start_rekex_with e (send_with e (send2_with e fatal))) s"
proof -
  have "below (fatal t) (inner t)" for t by (simp add: below_def proc_simps)
  then have "below (send2_with e (kex_start_rekex_with e (send_with e (send2_with e fatal))) s)
      (send2_with e (kex_start_rekex_with e (send_with e (send2_with e inner))) s)"
    by (intro send2_with_below kexinit_below)
  then show ?thesis using send2_runs[OF z s] by (auto simp: below_def)
qed

section \<open>A connection for the witnesses\<close>

text \<open>A compression that stores its input.\<close>

definition toy_zlib :: zlib where
  "toy_zlib =
     \<lparr>deflateInit = (\<lambda>_. (Z_OK, [])),
      deflate = (\<lambda>z inp n. (Z_OK, take n inp, min n (length inp), z)),
      inflateInit = (Z_OK, []),
      inflate = (\<lambda>z inp n. if inp = [] then (Z_BUF_ERROR, [], 0, z) else (Z_OK, take n inp, min n (length inp), z))\<rparr>"

definition toy_penv :: penv where
  "toy_penv =
     \<lparr>e_lc = lc_ok, e_md = toy_md, e_um = toy_umac, e_u = replicate 64 0, e_ev = toy_cipher, e_z = toy_zlib,
      e_keys = demo_keys, e_random = (\<lambda>n. of_nat n), e_clock = (\<lambda>n. int n), e_io = (\<lambda>_. Io_again)\<rparr>"

lemma toy_zlib_ends: "deflate_ends toy_penv (\<lambda>_. length)"
  by (auto simp: deflate_ends_def toy_penv_def toy_zlib_def)

lemma toy_lc: "e_lc toy_penv = lc_ok"
  by (simp add: toy_penv_def)

text \<open>A new connection.\<close>

definition toy_conn :: ssh where
  "toy_conn = the (ssh_packet_set_connection toy_penv 3 3 None)"

lemma toy_kex:
  obtains k where "kex_new lc_ok = Some k" "k_flags k = 0" "k_newkeys k = (\<lambda>_. None)" "\<not> kex_strict k"
proof -
  obtain p where "malloc lc_ok sizeof_kex = Some p" using lc_ok_malloc by blast
  then show thesis by (intro that) (auto simp: kex_new_def sshbuf_new_ok)
qed

lemma toy_alloc:
  obtains s k where "ssh_alloc_session_state toy_penv = Some s"
    "kex_new lc_ok = Some k" "sh_kex s = Some k" "s_mux (sh_state s) = False"
    "outgoing_packet (sh_state s) = buf0" "incoming_packet (sh_state s) = buf0"
    "s_input (sh_state s) = buf0" "s_output (sh_state s) = buf0" "outgoing (sh_state s) = []"
proof -
  obtain k where k: "kex_new lc_ok = Some k" by (rule toy_kex)
  obtain p q where "malloc lc_ok sizeof_ssh = Some p" "malloc lc_ok sizeof_session_state = Some q"
    using lc_ok_malloc by blast
  then show thesis
    using k by (intro that[of _ k]) (auto simp: ssh_alloc_session_state_def toy_lc sshbuf_new_ok)
qed

definition none_cipher :: sshcipher where
  "none_cipher = the (cipher_by_name ''none'')"

lemma none_cipher_facts:
  "cipher_by_name ''none'' \<noteq> None \<and> has_flag none_cipher CFLAG_NONE \<and> \<not> has_flag none_cipher CFLAG_CHACHAPOLY \<and>
     key_len none_cipher = 0 \<and> cipher_authlen none_cipher = 0"
  by code_simp

lemma none_cipher_name: "cipher_by_name ''none'' = Some none_cipher"
  using none_cipher_facts by (auto simp: none_cipher_def)

lemma none_init:
  "cipher_init lc_ok ev none_cipher [] 0 None 0 b =
     Inr \<lparr>plaintext = True, encrypt = b, evp = None, cp_ctx = None, cipher = none_cipher\<rparr>"
  using none_cipher_facts lc_ok_malloc by (auto simp: cipher_init_def Let_def)

lemma toy_conn_fields:
  "outgoing_packet (sh_state toy_conn) = buf0" "outgoing (sh_state toy_conn) = []"
  "s_newkeys (sh_state toy_conn) = (\<lambda>_. None)" "s_mux (sh_state toy_conn) = False"
  "send_context (sh_state toy_conn) \<noteq> None"
  "\<exists>k. sh_kex toy_conn = Some k \<and> k_flags k = 0 \<and> k_newkeys k = (\<lambda>_. None)"
proof -
  obtain s k where s: "ssh_alloc_session_state toy_penv = Some s"
    "kex_new lc_ok = Some k" "sh_kex s = Some k" "s_mux (sh_state s) = False"
    "outgoing_packet (sh_state s) = buf0" "outgoing (sh_state s) = []" by (rule toy_alloc)
  have k: "k_flags k = 0 \<and> k_newkeys k = (\<lambda>_. None)" using toy_kex s(2) by (metis option.inject)
  show "outgoing_packet (sh_state toy_conn) = buf0" "outgoing (sh_state toy_conn) = []"
    "s_newkeys (sh_state toy_conn) = (\<lambda>_. None)" "s_mux (sh_state toy_conn) = False"
    "send_context (sh_state toy_conn) \<noteq> None"
    "\<exists>k. sh_kex toy_conn = Some k \<and> k_flags k = 0 \<and> k_newkeys k = (\<lambda>_. None)"
    using s k by (simp_all add: toy_conn_def ssh_packet_set_connection_def none_cipher_name none_init toy_lc)
qed

section \<open>Property\<close>

text \<open>
  C37. \<^verbatim>\<open>ssh_packet_send2\<close> terminates. It re-enters itself through \<^verbatim>\<open>kex_start_rekex\<close> when a
  packet, or a queued one, asks for new keys, and drains a queue of any length. On a connection
  after the first key exchange, with the outgoing and the queued packets in sane buffers and
  zlib's pending output finite, it returns: the second call, which sends KEXINIT, makes no third,
  whatever that would do (\<open>inner\<close>), and every greater depth gives the same result.
\<close>

theorem send2_terminates:
  assumes "deflate_ends e pending" and "ready s"
  shows "(\<exists>r s'. ssh_packet_send2 SEND_DEPTH e s = Some (r, s')) \<and>
    (\<forall>inner. send2_with e (kex_start_rekex_with e (send_with e (send2_with e inner))) s =
       ssh_packet_send2 SEND_DEPTH e s) \<and>
    (\<forall>n. ssh_packet_send2 (SEND_DEPTH + n) e s = ssh_packet_send2 SEND_DEPTH e s)"
proof -
  have n: "ssh_packet_send2 (SEND_DEPTH + n) e s =
      send2_with e (kex_start_rekex_with e (send_with e (send2_with e fatal))) s" for n
    using send2_inner[OF assms] by (simp add: SEND_DEPTH_def)
  have "ssh_packet_send2 SEND_DEPTH e s =
      send2_with e (kex_start_rekex_with e (send_with e (send2_with e fatal))) s"
    using n[of 0] by simp
  then show ?thesis
    using send2_runs[OF assms] send2_inner[OF assms] n by (auto simp: runs_conv)
qed

text \<open>A new connection, on which a packet is composed.\<close>

theorem send2_terminates_witness:
  "let s = snd (sshpkt_start toy_penv SSH2_MSG_IGNORE toy_conn)
   in (\<exists>r s'. ssh_packet_send2 SEND_DEPTH toy_penv s = Some (r, s')) \<and>
      ssh_packet_send2 (SEND_DEPTH + 5) toy_penv s = ssh_packet_send2 SEND_DEPTH toy_penv s"
proof -
  have good: "sshbuf_put lc v (sshbuf_reset lc buf0) = (r, b) \<Longrightarrow> good_sshbuf b" for lc v r b
    by (rule good_ops(1)[OF good_ops(4)[OF sshbuf_new_good[OF sshbuf_new_ok]]])
  have "ready (snd (sshpkt_start toy_penv SSH2_MSG_IGNORE toy_conn))"
    using toy_conn_fields good
    by (auto simp: sshpkt_start_def on_defs ready_alt kex_flag_def KEX_INITIAL_def good_nk_def comp_on_def
        split: prod.splits)
  from send2_terminates[OF toy_zlib_ends this] show ?thesis unfolding Let_def by blast
qed

end
