(* ===== verification/Framing.thy ===== *)
theory Framing
  imports TransportProps
begin

unbundle bit_operations_syntax

text \<open>
  What one side of a connection puts on the wire the other reads back: the framing of packets
  (length, padding), over the transformations that encrypt and authenticate them.
\<close>

section \<open>Frames\<close>

definition frame :: "byte list \<Rightarrow> byte list \<Rightarrow> byte list" where
  "frame payload pad =
     POKE_U32 (of_nat (1 + length payload + length pad)) @ [of_nat (length pad)] @ payload @ pad"

lemma length_frame [simp]: "length (frame payload pad) = 5 + length payload + length pad"
  by (simp add: frame_def)

text \<open>The length of the padding completes the blocks, is at least 4 and fits a byte.\<close>

lemma mod_complement:
  assumes "0 < bs" shows "(len + (bs - len mod bs)) mod bs = (0::nat)"
proof -
  have "len + (bs - len mod bs) = (len div bs) * bs + bs"
    using assms mod_less_divisor[of bs len] div_mult_mod_eq[of len bs] by linarith
  then show ?thesis by simp
qed

lemma unat_byte_256: "unat (w :: byte) < 256"
proof -
  have "unat w < 2 ^ LENGTH(8)" by (rule unsigned_less)
  then show ?thesis by simp
qed

lemma choose_padding_spec:
  assumes bs: "4 \<le> bs" "bs \<le> 64" and run: "choose_padding bs len st = (Inr p, st')"
  shows "4 \<le> unat p \<and> (len + unat p) mod bs = 0"
proof -
  define p0 where "p0 = bs - len mod bs"
  have p0: "0 < p0" "p0 \<le> bs" using bs mod_less_divisor[of bs len] by (auto simp: p0_def)
  define p1 where "p1 = (if p0 < 4 then p0 + bs else p0)"
  have "(len + p0 + bs) mod bs = 0" using mod_complement[of bs len] bs by (simp add: p0_def)
  then have p1: "4 \<le> p1" "p1 < 128" "(len + p1) mod bs = 0"
    using p0 bs mod_complement[of bs len] by (auto simp: p1_def add.assoc) (auto simp: p0_def)
  have w0: "unat (of_nat p0 :: byte) = p0" using p0 bs by (simp add: unat_of_nat)
  have lt: "(of_nat p0 :: byte) < 4 \<longleftrightarrow> p0 < 4" using w0 by (simp add: word_less_nat_alt)
  define pl where "pl = (if (of_nat p0 :: byte) < 4 then of_nat p0 + of_nat bs else of_nat p0 :: byte)"
  have pl: "unat pl = p1"
    using p0 bs lt by (auto simp: pl_def p1_def unat_of_nat simp flip: of_nat_add)
  show ?thesis
  proof (cases "extra_pad st = 0")
    case True
    then show ?thesis
      using run pl p1 by (auto simp: choose_padding_def Let_def op_simps pl_def p0_def)
  next
    case False
    define ep where "ep = (of_nat (ROUNDUP (unat (extra_pad st)) bs) :: byte)"
    define t where "t = (of_nat ((len + unat pl) mod unat ep) :: byte)"
    have ep: "extra_pad st \<le> ep" and t: "\<not> t > ep" and ov: "\<not> pl + (ep - t) < pl" and p: "p = pl + (ep - t)"
      using run False unfolding choose_padding_def Let_def p0_def[symmetric] pl_def[symmetric]
        ep_def[symmetric] t_def[symmetric] by (auto simp: op_simps split: if_splits)
    define R where "R = ROUNDUP (unat (extra_pad st)) bs"
    have "R \<le> unat (extra_pad st) + (bs - 1)" unfolding R_def ROUNDUP_def by (rule div_times_less_eq_dividend)
    then have R: "R < unat (extra_pad st) + bs" using bs by linarith
    have Rbs: "R mod bs = 0" by (simp add: R_def ROUNDUP_def)
    have x: "unat (extra_pad st) < 256" by (rule unat_byte_256)
    have "R < 256"
    proof (rule ccontr)
      assume big: "\<not> R < 256"
      then have "unat ep = R - 256" using R x bs by (simp add: ep_def R_def unat_of_nat mod_if)
      moreover have "unat (extra_pad st) \<le> unat ep" using ep by (simp add: word_le_nat_alt)
      ultimately show False using R x bs big by linarith
    qed
    then have uep: "unat ep = R" by (simp add: ep_def R_def unat_of_nat)
    have R0: "0 < R"
      using ep uep False by (metis gr0I le_zero_eq unat_eq_zero word_le_nat_alt unat_0)
    have ut: "unat t = (len + p1) mod R"
      using \<open>R < 256\<close> mod_less_divisor[OF R0, of "len + p1"] by (simp add: t_def pl uep unat_of_nat)
    have ud: "unat (ep - t) = R - (len + p1) mod R"
      using t by (simp add: unat_sub uep ut)
    have up: "unat p = p1 + (R - (len + p1) mod R)"
    proof -
      have sum: "unat p = (unat pl + unat (ep - t)) mod 256" by (simp add: p unat_word_ariths(1))
      have "unat pl \<le> unat p" using ov by (simp add: p word_less_nat_alt)
      moreover have "unat (ep - t) < 256" "unat pl < 256" by (rule unat_byte_256)+
      ultimately have "unat p = unat pl + unat (ep - t)" using sum by (simp add: mod_if split: if_splits)
      then show ?thesis by (simp add: ud pl)
    qed
    have "(len + unat p) = len + p1 + (R - (len + p1) mod R)" using up by simp
    also have "\<dots> mod R = 0" by (rule mod_complement[OF R0])
    finally have "(len + unat p) mod R = 0" .
    then show ?thesis using Rbs up p1 by (metis dvd_eq_mod_eq_0 dvd_trans trans_le_add1)
  qed
qed

text \<open>What sealing a packet relies on.\<close>

definition same_sender :: "ssh \<Rightarrow> ssh \<Rightarrow> bool" where
  "same_sender s s' \<longleftrightarrow>
     s_output (sh_state s') = s_output (sh_state s) \<and> send_context (sh_state s') = send_context (sh_state s) \<and>
     p_send (sh_state s') = p_send (sh_state s) \<and> s_newkeys (sh_state s') = s_newkeys (sh_state s) \<and>
     sh_kex s' = sh_kex s"

lemma of_op_Inr: "of_op m s = Some (Inr x, s') \<longleftrightarrow> m s = (Inr x, s')"
  by (simp add: proc_simps)

lemma zoom_Inr: "zoom g u m s = (Inr x, s') \<longleftrightarrow> (\<exists>y. m (g s) = (Inr x, y) \<and> s' = u (\<lambda>_. y) s)"
  by (auto simp: zoom_def split: prod.splits)

lemmas on_Inr = on_state_def on_input_def on_output_def on_outgoing_def on_incoming_def zoom_Inr of_op_Inr

lemma if_perr: "(if c then perr er s else of_op m s) = Some (Inr x, s') \<longleftrightarrow> \<not> c \<and> m s = (Inr x, s')"
  by (simp add: proc_simps)

lemma set_Inr: "set_state f s = Some (Inr x, s') \<longleftrightarrow> s' = sh_state_update f s"
  by (auto simp: set_state_def proc_simps)

lemma pad_outgoing_spec:
  assumes bs: "4 \<le> nk_block_size nk" "nk_block_size nk \<le> 64"
    and wf: "wf_sshbuf (outgoing_packet (sh_state s))"
    and out: "contents (outgoing_packet (sh_state s)) = hdr @ payload" "length hdr = 5"
    and run: "pad_outgoing e nk s = Some (Inr (), s')"
  obtains pad where "wf_sshbuf (outgoing_packet (sh_state s'))"
    and "contents (outgoing_packet (sh_state s')) = frame payload pad"
    and "4 \<le> length pad" and "length pad < 256" and "same_sender s s'"
    and "(length (frame payload pad) - nk_aadlen nk) mod nk_block_size nk = 0"
proof -
  define b where "b = outgoing_packet (sh_state s)"
  define len where "len = sshbuf_len b - nk_aadlen nk"
  let ?hd = "\<lambda>padlen b. mem_write (b_off b) (POKE_U32 (of_nat (sshbuf_len b - 4)) @ [padlen]) b"
  obtain padlen st1 i b1 plain s2 pad s3
    where c: "choose_padding (nk_block_size nk) len (sh_state s) = (Inr padlen, st1)"
      and res: "sshbuf_reserve (e_lc e) (unat padlen) (outgoing_packet st1) = (Inr i, b1)"
      and pl: "(if nk = None then pret True else on_context MODE_OUT (\<lambda>c. ret (cipher_ctx_is_plaintext c) c))
        (s\<lparr>sh_state := st1\<lparr>outgoing_packet := b1\<rparr>\<rparr>) = Some (Inr plain, s2)"
      and rd: "(if plain then pret (replicate (unat padlen) 0) else arc4random_buf e (unat padlen)) s2 = Some (Inr pad, s3)"
      and s': "s' = s3\<lparr>sh_state := (sh_state s3)\<lparr>outgoing_packet := ?hd padlen (mem_write i pad (outgoing_packet (sh_state s3)))\<rparr>\<rparr>"
    using run unfolding pad_outgoing_def Let_def b_def[symmetric] len_def[symmetric]
    by (auto elim!: pbind_InrE simp: if_perr on_Inr op_simps)
  obtain x where st1: "st1 = (sh_state s)\<lparr>extra_pad := x\<rparr>" using choose_padding_frame[OF c] by blast
  have res': "sshbuf_reserve (e_lc e) (unat padlen) b = (Inr i, b1)" using res by (simp add: st1 b_def)
  have s3: "sh_state s3 = (sh_state s)\<lparr>extra_pad := x, outgoing_packet := b1\<rparr>" "sh_kex s3 = sh_kex s"
    and pad: "length pad = unat padlen"
    using pl rd by (auto simp: st1 on_context_def Let_def proc_simps op_simps arc4random_buf_def
        split: if_splits option.splits)
  have w: "wf_sshbuf (mem_write i pad b1)" "contents (mem_write i pad b1) = hdr @ payload @ pad"
    using reserve_write_spec[of b "e_lc e" pad i b1] res' pad wf out by (auto simp: b_def)
  define h where "h = POKE_U32 (of_nat (1 + length payload + length pad)) @ [padlen]"
  have hd: "?hd padlen (mem_write i pad b1) = mem_write (b_off (mem_write i pad b1)) h (mem_write i pad b1)"
    using sshbuf_len_contents[OF w(1)] unfolding w(2) h_def by (simp add: out)
  have size: "b_off (mem_write i pad b1) + 5 \<le> b_size (mem_write i pad b1)"
    using arg_cong[OF w(2), of length] length_contents[OF w(1)] wf_sshbufD(3)[OF w(1)] out(2) by simp
  have h5: "length h = 5" by (simp add: h_def)
  note cw = contents_mem_write[OF w(1) order_refl, of h, unfolded h5 w(2), OF size]
  show thesis
  proof (rule that[of pad])
    show "wf_sshbuf (outgoing_packet (sh_state s'))"
      using mem_write_wf[OF w(1), of _ h] size wf_sshbufD(4)[OF w(1)] h5 by (simp add: s' s3 hd)
    show "contents (outgoing_packet (sh_state s')) = frame payload pad"
      using cw out(2) pad by (simp add: s' s3 hd frame_def h_def)
    have spec: "4 \<le> unat padlen \<and> (len + unat padlen) mod nk_block_size nk = 0"
      by (rule choose_padding_spec[OF bs c])
    then show "4 \<le> length pad" using pad by simp
    show "length pad < 256" using unat_byte_256[of padlen] pad by simp
    show "same_sender s s'" by (simp add: same_sender_def s' s3)
    have "sshbuf_len b = 5 + length payload" using sshbuf_len_contents[of b] wf out by (simp add: b_def)
    moreover have "nk_aadlen nk \<le> 4" by (simp add: nk_aadlen_def)
    ultimately show "(length (frame payload pad) - nk_aadlen nk) mod nk_block_size nk = 0"
      using spec pad by (simp add: len_def)
  qed
qed

section \<open>Fetching a packet\<close>

text \<open>The first half of \<^verbatim>\<open>ssh_packet_read_poll2\<close>: whether a packet has been decrypted.\<close>

definition fetch :: "penv \<Rightarrow> newkeys option \<Rightarrow> (ssh, bool) proc" where
  "fetch e nk =
     pbind (read_length e nk) (\<lambda>go s.
       let need = read_need nk (packlen (sh_state s))
       in if \<not> go \<or> unat need mod nk_block_size nk \<noteq> 0 \<or>
             sshbuf_len (s_input (sh_state s)) < nk_aadlen nk + unat need + nk_authlen nk + nk_maclen nk
          then pret False s
          else open_incoming e nk (unat need) s)"

lemma fetched:
  assumes nk: "nk = s_newkeys (sh_state r) MODE_IN" and m: "\<not> s_mux (sh_state r)" "packet_discard (sh_state r) = 0"
    and f: "fetch e nk r = Some (Inr True, r1)"
  shows "ssh_packet_read_poll2 e r =
    pbind (count_read nk) (\<lambda>sq. pbind (unpad_incoming e nk) (\<lambda>type.
      pbind (finish_read e type) (\<lambda>_. pret (type, Some sq)))) r1"
proof -
  obtain go s1 where s1: "read_length e nk r = Some (Inr go, s1)"
    and rest: "(let need = read_need nk (packlen (sh_state s1))
       in if \<not> go \<or> unat need mod nk_block_size nk \<noteq> 0 \<or>
             sshbuf_len (s_input (sh_state s1)) < nk_aadlen nk + unat need + nk_authlen nk + nk_maclen nk
          then pret False s1
          else open_incoming e nk (unat need) s1) = Some (Inr True, r1)"
    using f unfolding fetch_def by (rule pbind_InrE)
  show ?thesis
    using s1 rest m
    by (auto simp: ssh_packet_read_poll2_def nk[symmetric] pbind_def Let_def proc_basic split: if_splits)
qed

text \<open>What reading a packet leaves alone.\<close>

definition same_session :: "ssh \<Rightarrow> ssh \<Rightarrow> bool" where
  "same_session r r' \<longleftrightarrow>
     sh_kex r' = sh_kex r \<and> sh_dispatch r' = sh_dispatch r \<and> dispatch_skip_packets r' = dispatch_skip_packets r \<and>
     after_authentication (sh_state r') = after_authentication (sh_state r) \<and>
     outgoing_packet (sh_state r') = outgoing_packet (sh_state r)"

text \<open>A receive buffer with room for a packet.\<close>

definition recv_ok :: "sshbuf \<Rightarrow> bool" where
  "recv_ok b \<longleftrightarrow> wf_sshbuf b \<and> writable b \<and> PACKET_MAX_SIZE + 4 \<le> b_max_size b"

lemma recv_reset:
  assumes "recv_ok b"
  shows "recv_ok (sshbuf_reset lc b) \<and> contents (sshbuf_reset lc b) = []"
  using assms reset_wf[of b lc] reset_limits[of b lc]
  by (auto simp: recv_ok_def reset_safe_def writable_def same_limits_def PACKET_MAX_SIZE_def SSHBUF_SIZE_INIT_def)

lemma recv_reserve:
  assumes b: "recv_ok b" and mem: "\<And>n. malloc lc n \<noteq> None" and n: "length (contents b) + n \<le> PACKET_MAX_SIZE + 4"
  obtains i b' where "sshbuf_reserve lc n b = (Inr i, b')"
    and "\<And>bs. length bs = n \<Longrightarrow> recv_ok (mem_write i bs b') \<and> contents (mem_write i bs b') = contents b @ bs"
proof -
  have b': "wf_sshbuf b" "writable b" "n + length (contents b) \<le> b_max_size b"
    using b n by (auto simp: recv_ok_def simp del: length_contents)
  obtain c where "sshbuf_allocate lc n b = (Inr (), c)" using allocate_succeeds[OF b'(1) mem b'(2,3)] by blast
  then obtain i c' where r: "sshbuf_reserve lc n b = (Inr i, c')" by (simp add: sshbuf_reserve_def bind_op_def)
  have c': "writable c'" "b_max_size c' = b_max_size b" using reserve_spec[OF b'(1) r] by auto
  show thesis
  proof (rule that[OF r])
    fix bs :: "byte list" assume "length bs = n"
    then show "recv_ok (mem_write i bs c') \<and> contents (mem_write i bs c') = contents b @ bs"
      using reserve_write_spec[OF b'(1), of lc bs i c'] r c' b
      by (auto simp: recv_ok_def buf_frame writable_def)
  qed
qed

text \<open>The second half: the counters, and the payload without its frame.\<close>

lemma count_read_spec:
  assumes "packets (p_read (sh_state r)) + 1 \<noteq> 0" "seqnr (p_read (sh_state r)) + 1 \<noteq> 0"
  shows "\<exists>p. seqnr p = seqnr (p_read (sh_state r)) + 1 \<and>
    count_read nk r = Some (Inr (seqnr (p_read (sh_state r))), r\<lparr>sh_state := (sh_state r)\<lparr>p_read := p\<rparr>\<rparr>)"
proof -
  define p where "p = (p_read (sh_state r))\<lparr>seqnr := seqnr (p_read (sh_state r)) + 1,
    packets := packets (p_read (sh_state r)) + 1,
    blocks := blocks (p_read (sh_state r)) + ucast ((packlen (sh_state r) + 4) div word_of_nat (nk_block_size nk)),
    pbytes := pbytes (p_read (sh_state r)) + ucast (packlen (sh_state r) + 4)\<rparr>"
  have "count_read nk r = Some (Inr (seqnr (p_read (sh_state r))), r\<lparr>sh_state := (sh_state r)\<lparr>p_read := p\<rparr>\<rparr>)"
    using assms by (simp add: count_read_def Let_def set_state_def pbind_def proc_basic p_def)
  moreover have "seqnr p = seqnr (p_read (sh_state r)) + 1" by (simp add: p_def)
  ultimately show ?thesis by blast
qed

lemma on_incoming_run:
  "m (incoming_packet (sh_state s)) = (Inr x, b) \<Longrightarrow>
    of_op (on_incoming m) s = Some (Inr x, s\<lparr>sh_state := (sh_state s)\<lparr>incoming_packet := b\<rparr>\<rparr>)"
  by (simp add: on_defs zoom_def proc_simps)

lemma unpad_spec:
  assumes ob: "recv_ok (incoming_packet (sh_state r))" "contents (incoming_packet (sh_state r)) = frame (type # data) pad"
    and pad: "4 \<le> length pad" "length pad < 256" and nk: "\<not> comp_on nk" and type: "type \<noteq> 0"
  shows "\<exists>ob. wf_sshbuf ob \<and> contents ob = data \<and>
    unpad_incoming e nk r = Some (Inr type, r\<lparr>sh_state := (sh_state r)\<lparr>incoming_packet := ob\<rparr>\<rparr>)"
proof -
  define b where "b = incoming_packet (sh_state r)"
  have wf: "wf_sshbuf b" and b: "contents b = frame (type # data) pad" using ob by (simp_all add: recv_ok_def b_def)
  have u: "unat (of_nat (length pad) :: byte) = length pad" using pad(2) by (simp add: unat_of_nat)
  have "mem_read 4 1 b ! 0 = take 1 (drop 4 (frame (type # data) pad)) ! 0"
    using mem_read_contents[OF wf, of 4 1] b by (simp del: length_contents)
  then have pl: "mem_read 4 1 b ! 0 = of_nat (length pad)" by (simp add: frame_def)
  have lt: "\<not> (of_nat (length pad) :: byte) < 4" using pad u by (simp add: word_less_nat_alt)
  obtain b1 where b1: "sshbuf_consume 5 b = (Inr (), b1)" "wf_sshbuf b1" "contents b1 = type # data @ pad"
    using consume_spec(1)[OF wf, of 5] b by (auto simp: frame_def simp del: length_contents)
  obtain b2 where b2: "sshbuf_consume_end (length pad) b1 = (Inr (), b2)" "wf_sshbuf b2" "contents b2 = [type] @ data"
    using consume_end_spec(1)[OF b1(2), of "length pad"] b1(3) by (auto simp del: length_contents)
  obtain b3 where b3: "sshbuf_get_u8 b2 = (Inr type, b3)" "wf_sshbuf b3" "contents b3 = data"
    by (rule readsE[OF reads_ints(1) b2(2,3)])
  have t: "\<not> type < SSH2_MSG_MIN" using type by (auto simp: SSH2_MSG_MIN_def word_less_nat_alt unat_eq_zero)
  define put where "put b = r\<lparr>sh_state := (sh_state r)\<lparr>incoming_packet := b\<rparr>\<rparr>" for b
  have run: "of_op (on_incoming (sshbuf_consume (4 + 1))) r = Some (Inr (), put b1)"
    "of_op (on_incoming (sshbuf_consume_end (length pad))) (put b1) = Some (Inr (), put b2)"
    "of_op (on_incoming sshbuf_get_u8) (put b2) = Some (Inr type, put b3)"
    using on_incoming_run[of "sshbuf_consume 5" r, folded b_def, OF b1(1)]
      on_incoming_run[of "sshbuf_consume_end (length pad)" "put b1" "()" b2]
      on_incoming_run[of sshbuf_get_u8 "put b2" type b3] b2(1) b3(1) by (simp_all add: put_def)
  have "unpad_incoming e nk r = Some (Inr type, put b3)"
    using lt t nk wf_ptr[OF wf] run
    by (simp add: unpad_incoming_def Let_def b_def[symmetric] pl[unfolded One_nat_def] u sshpkt_get_u8_def pwhen_def
        pbind_def proc_basic)
  then show ?thesis using b3 by (auto simp: put_def)
qed

section \<open>What sending and reading leave alone\<close>

named_theorems out_keeps \<open>processes that leave the output and the sequence numbers alone\<close>

abbreviation has_output :: "sshbuf \<Rightarrow> ssh \<Rightarrow> bool" where
  "has_output b s \<equiv> s_output (sh_state s) = b"

definition wire_view :: "session_state \<Rightarrow> sshbuf \<times> 32 word \<times> 32 word" where
  "wire_view st = (s_output st, seqnr (p_send st), seqnr (p_read st))"

lemma wire_view_frame:
  "wire_view (st\<lparr>compression_out_stream := z\<rparr>) = wire_view st" "wire_view (st\<lparr>compression_in_stream := z\<rparr>) = wire_view st"
  "wire_view (st\<lparr>compression_out_started := x\<rparr>) = wire_view st" "wire_view (st\<lparr>compression_in_started := x\<rparr>) = wire_view st"
  "wire_view (st\<lparr>after_authentication := x\<rparr>) = wire_view st"
  by (simp_all add: wire_view_def)

abbreviation has_view :: "sshbuf \<times> 32 word \<times> 32 word \<Rightarrow> ssh \<Rightarrow> bool" where
  "has_view v s \<equiv> wire_view (sh_state s) = v"

lemma view_output:
  assumes "\<And>v. pkeeps (has_view v) m" shows "pkeeps (has_output b) m"
proof (rule pkeepsI)
  fix s r s' assume "has_output b s" "m s = Some (r, s')"
  then show "has_output b s'" using pkeepsD[OF assms refl] by (auto simp: wire_view_def)
qed

lemma out_keeps_set [out_keeps]: "(\<And>st. wire_view (f st) = wire_view st) \<Longrightarrow> pkeeps (has_view v) (set_state f)"
  by (auto simp: pkeeps_def set_state_def proc_simps)

lemma out_keeps_parts [out_keeps]:
  "pkeeps (has_view v) (on_newkeys m f1)" "pkeeps (has_view v) (on_mac m f2)"
  "pkeeps (has_view v) (on_kex f3)" "pkeeps (has_view v) (on_compression f4)"
  "pkeeps (has_view v) (of_op (on_outgoing f5))" "pkeeps (has_view v) (on_context m f6)"
  by (auto simp: pkeeps_def wire_view_def on_newkeys_def on_mac_def on_kex_def on_compression_def on_defs proc_simps
      on_context_def Let_def split: option.splits prod.splits if_splits)

lemma out_keeps_when [out_keeps]: "(c \<Longrightarrow> pkeeps P m) \<Longrightarrow> pkeeps P (pwhen c m)"
  by (auto simp: pwhen_def pkeeps_rules)

lemma pkeeps_when_here: "pkeeps P m \<Longrightarrow> pkeeps P (\<lambda>s. pwhen (c s) m s)"
  by (auto simp: pkeeps_def pwhen_def proc_simps split: if_splits)

lemma out_keeps_modify [out_keeps]: "(\<And>s. sh_state (f s) = sh_state s) \<Longrightarrow> pkeeps (has_view v) (pmodify f)"
  by (auto simp: pkeeps_def proc_simps)

lemma out_keeps_compression [out_keeps]:
  "pkeeps (has_view v) (ssh_packet_init_compression e)"
  "pkeeps (has_view v) (start_compression_out e l)" "pkeeps (has_view v) (start_compression_in e)"
proof -
  show "pkeeps (has_view v) (ssh_packet_init_compression e)"
    by (auto simp: pkeeps_def wire_view_def ssh_packet_init_compression_def set_state_def proc_simps split: option.splits if_splits)
  show "pkeeps (has_view v) (start_compression_out e l)" "pkeeps (has_view v) (start_compression_in e)"
    unfolding start_compression_out_def start_compression_in_def
    by (auto simp: split_def wire_view_frame intro!: pkeeps_rules out_keeps)
qed

lemma out_keeps_delayed [out_keeps]:
  "pkeeps (has_view v) (start_delayed e m)" "pkeeps (has_view v) (ssh_packet_enable_delayed_compress e)"
proof -
  show d: "pkeeps (has_view v) (start_delayed e m)" for m
    unfolding start_delayed_def by (intro pkeeps_rules out_keeps)
  show "pkeeps (has_view v) (ssh_packet_enable_delayed_compress e)"
    unfolding ssh_packet_enable_delayed_compress_def
    by (intro pkeeps_bind out_keeps_set pkeeps_when_here d) (simp add: wire_view_frame)
qed

lemma out_keeps_newkeys [out_keeps]: "pkeeps (has_view v) (ssh_set_newkeys e m)"
proof -
  have ctx: "pkeeps (has_view v) (init_context e m)"
    by (auto simp: pkeeps_def wire_view_def init_context_def Let_def set_state_def pbind_def proc_basic set_context_def
        split: sum.splits)
  define B :: "kex \<Rightarrow> (ssh, unit) proc" where "B k = pbind (set_state (\<lambda>st. (if m = MODE_OUT then p_send_update clear_counts st
        else p_read_update clear_counts st)\<lparr>s_newkeys := (s_newkeys st)(m := k_newkeys k m)\<rparr>)) (\<lambda>_.
      (case k_newkeys k m of
         None \<Rightarrow> perr SSH_ERR_INTERNAL_ERROR
       | Some nk \<Rightarrow>
           pbind (pmodify (ssh_clear_newkeys m)) (\<lambda>_.
           pbind (pwhen (cipher_authlen (the (enc_cipher (nk_enc nk))) = 0)
             (on_mac m (mac_init (e_md e) (e_um e)))) (\<lambda>_.
           pbind (on_mac m (modify_op (m_enabled_update (\<lambda>_. True)))) (\<lambda>_.
           pbind (init_context e m) (\<lambda>_.
           pbind (\<lambda>s. pwhen (delayed_comp m s \<and> after_authentication (sh_state s)) (start_delayed e m) s) (\<lambda>_.
           set_state (set_block_limits m))))))))" for k :: kex
  have eq: "ssh_set_newkeys e m s = (case sh_kex s of None \<Rightarrow> None | Some k \<Rightarrow> B k s)" for s
    by (simp add: ssh_set_newkeys_def B_def cong: option.case_cong)
  have "pkeeps (has_view v) (B k)" for k
  proof (cases "k_newkeys k m")
    case None
    show ?thesis unfolding B_def None option.case by (intro pkeeps_bind out_keeps_set pkeeps_basic) (simp add: wire_view_def clear_counts_def)
  next
    case (Some nk)
    show ?thesis
      unfolding B_def Some option.case
      by (intro pkeeps_bind out_keeps_set out_keeps_when out_keeps_parts out_keeps_modify ctx pkeeps_when_here
          out_keeps_delayed) (simp_all add: wire_view_def ssh_clear_newkeys_def set_block_limits_def clear_counts_def Let_def)
  qed
  note keep = this
  show ?thesis
  proof (rule pkeepsI)
    fix s r s' assume P: "has_view v s" and run: "ssh_set_newkeys e m s = Some (r, s')"
    obtain k where "B k s = Some (r, s')" using run unfolding eq by (cases "sh_kex s") auto
    then show "has_view v s'" by (rule pkeepsD[OF keep P])
  qed
qed

lemma after_sent_output: "pkeeps (has_output b) (after_sent e type)"
proof -
  have n: "pkeeps (has_output b) (pbind (pwhen c (set_state (p_send_update f))) (\<lambda>_. ssh_set_newkeys e MODE_OUT))"
    for c f
  proof (rule pkeeps_bind[OF _ view_output[OF out_keeps_newkeys]])
    show "pkeeps (has_output b) (pwhen c (set_state (p_send_update f)))"
      by (auto simp: pkeeps_def pwhen_def set_state_def proc_simps)
  qed
  show ?thesis
  proof (rule pkeepsI)
    fix s r s' assume P: "has_output b s" and run: "after_sent e type s = Some (r, s')"
    show "has_output b s'"
    proof (cases "type = SSH2_MSG_NEWKEYS")
      case True
      then obtain k :: kex where "pbind (pwhen (kex_strict k) (set_state (p_send_update (seqnr_update (\<lambda>_. 0)))))
          (\<lambda>_. ssh_set_newkeys e MODE_OUT) s = Some (r, s')"
        using run by (auto simp: after_sent_def split: option.splits)
      then show ?thesis by (rule pkeepsD[OF n P])
    next
      case False
      then show ?thesis
        using run P pkeepsD[OF view_output[OF out_keeps_delayed(2)] P]
        by (simp add: after_sent_def proc_basic split: if_splits)
    qed
  qed
qed

text \<open>Under strict key exchange NEWKEYS starts the sequence numbers again.\<close>

lemma newkeys_sent_reset:
  assumes "after_sent e SSH2_MSG_NEWKEYS s = Some (Inr (), s')" and "sh_kex s = Some k" "kex_strict k"
  shows "seqnr (p_send (sh_state s')) = 0"
proof -
  define s0 where "s0 = sh_state_update (p_send_update (seqnr_update (\<lambda>_. 0))) s"
  have "ssh_set_newkeys e MODE_OUT s0 = Some (Inr (), s')"
    using assms by (simp add: after_sent_def pwhen_def set_state_def proc_basic pbind_def s0_def)
  from pkeepsD[OF out_keeps_newkeys refl this] show ?thesis by (simp add: wire_view_def s0_def)
qed

lemma count_sent_output: "pkeeps (has_output b) (count_sent e nk len)"
proof (rule pkeepsI)
  fix s r s' assume "has_output b s" "count_sent e nk len s = Some (r, s')"
  then show "has_output b s'"
    by (auto simp: count_sent_def pbind_def set_state_def proc_basic on_defs op_simps split: if_splits option.splits)
qed

section \<open>That sending returns\<close>

lemma writable_reserve:
  assumes b: "wf_sshbuf b" "writable b" "length (contents b) + n \<le> b_max_size b" and mem: "\<And>n. malloc lc n \<noteq> None"
  obtains i b' where "sshbuf_reserve lc n b = (Inr i, b')"
proof -
  have n: "n + length (contents b) \<le> b_max_size b" using b(3) by linarith
  obtain c where "sshbuf_allocate lc n b = (Inr (), c)" using allocate_succeeds[OF b(1) mem b(2) n] by blast
  then show thesis using that by (simp add: sshbuf_reserve_def bind_op_def)
qed

text \<open>Without a request for extra padding, and with memory, a packet is padded.\<close>

lemma pad_outgoing_succeeds:
  assumes b: "wf_sshbuf (outgoing_packet (sh_state s))" "writable (outgoing_packet (sh_state s))"
      "length (contents (outgoing_packet (sh_state s))) + 255 \<le> b_max_size (outgoing_packet (sh_state s))"
    and mem: "\<And>n. malloc (e_lc e) n \<noteq> None" and x: "extra_pad (sh_state s) = 0"
    and c: "send_context (sh_state s) = Some c"
  shows "\<exists>s'. pad_outgoing e nk s = Some (Inr (), s')"
proof -
  define len where "len = sshbuf_len (outgoing_packet (sh_state s)) - nk_aadlen nk"
  obtain p where p: "choose_padding (nk_block_size nk) len (sh_state s) = (Inr p, sh_state s)"
    using x by (simp add: choose_padding_def Let_def op_simps)
  obtain i b1 where r: "sshbuf_reserve (e_lc e) (unat p) (outgoing_packet (sh_state s)) = (Inr i, b1)"
    by (rule writable_reserve[OF b(1,2) _ mem, of "unat p"]) (use b(3) unat_byte_256[of p] in simp)
  have w: "sshbuf_mutable_ptr (mem_write i bs b1) \<noteq> None" if "length bs = unat p" for bs
  proof -
    have "wf_sshbuf (mem_write i bs b1)" using reserve_write_spec[OF b(1), of "e_lc e" bs i b1] r that by auto
    moreover have "writable (mem_write i bs b1)" using reserve_spec[OF b(1) r] by (auto simp: buf_frame writable_def)
    ultimately show ?thesis using wf_mutable_ptr by blast
  qed
  note simps = pad_outgoing_def Let_def on_defs r pbind_def proc_basic op_simps on_context_def
    arc4random_buf_def c
  define rnd where "rnd = map (\<lambda>i. e_random e (sh_random s + i)) [0..<unat p]"
  have ptr: "sshbuf_mutable_ptr (mem_write i (replicate (unat p) 0) b1) \<noteq> None" "sshbuf_mutable_ptr (mem_write i rnd b1) \<noteq> None"
    using w[of "replicate (unat p) 0"] w[of rnd] by (simp_all add: rnd_def)
  show ?thesis
  proof (cases "nk = None \<or> cipher_ctx_is_plaintext c")
    case True
    then show ?thesis using ptr(1) p[unfolded len_def] by (cases "nk = None") (auto simp: simps)
  next
    case False
    then show ?thesis using ptr(2) p[unfolded len_def] by (auto simp: simps simp flip: rnd_def)
  qed
qed

lemma count_sent_spec:
  assumes "seqnr (p_send (sh_state s)) + 1 \<noteq> 0" "packets (p_send (sh_state s)) + 1 \<noteq> 0"
  obtains s' where "count_sent e nk len s = Some (Inr (), s')"
  using assms by (auto simp: count_sent_def pbind_def set_state_def proc_basic on_defs op_simps)

lemma count_sent_seqnr:
  assumes "count_sent e nk len s = Some (Inr (), s')"
  shows "send_context (sh_state s') = send_context (sh_state s)" "s_newkeys (sh_state s') = s_newkeys (sh_state s)"
    "seqnr (p_send (sh_state s')) = seqnr (p_send (sh_state s)) + 1" "sh_kex s' = sh_kex s"
  using assms by (auto simp: count_sent_def pbind_def set_state_def proc_basic on_defs op_simps split: if_splits option.splits)

text \<open>Messages after which the packet layer changes nothing else.\<close>

definition ordinary :: "byte \<Rightarrow> bool" where
  "ordinary type \<longleftrightarrow> type \<noteq> SSH2_MSG_NEWKEYS \<and> type \<noteq> SSH2_MSG_USERAUTH_SUCCESS"

lemma packet_type_spec:
  assumes "wf_sshbuf b" "contents b = hdr @ type # data" "length hdr = 5"
  shows "packet_type b = type"
  using mem_read_contents[OF assms(1), of 5 1] assms(2,3) by (simp add: packet_type_def)

section \<open>Transformations\<close>

text \<open>
  What the framing relies on of a way to protect packets. \<open>tx\<close> and \<open>rx\<close> are the contexts of the two
  sides, with what they share in \<open>k\<close>; \<open>wire\<close> is the protected form of a packet.
\<close>

locale packet_transform =
  fixes tx rx :: "'k \<Rightarrow> penv \<Rightarrow> newkeys option \<Rightarrow> sshcipher_ctx \<Rightarrow> bool"
    and wire :: "'k \<Rightarrow> newkeys option \<Rightarrow> 32 word \<Rightarrow> byte list \<Rightarrow> byte list"
  assumes shape_tx: "tx k e nk c \<Longrightarrow> \<not> comp_on nk \<and> 4 \<le> nk_block_size nk \<and> nk_block_size nk \<le> 64"
    and shape_rx: "rx k e nk c \<Longrightarrow> \<not> comp_on nk"
    and seals: "tx k e nk c \<Longrightarrow> send_context (sh_state s) = Some c \<Longrightarrow> wf_sshbuf (s_output (sh_state s)) \<Longrightarrow>
      wf_sshbuf (outgoing_packet (sh_state s)) \<Longrightarrow> contents (outgoing_packet (sh_state s)) = src \<Longrightarrow>
      9 \<le> length src \<Longrightarrow> seal_outgoing e nk s = Some (Inr len, s') \<Longrightarrow>
      \<exists>b c'. s' = s\<lparr>sh_state := (sh_state s)\<lparr>s_output := b, send_context := Some c'\<rparr>\<rparr> \<and> wf_sshbuf b \<and>
        contents b = contents (s_output (sh_state s)) @ wire k nk (seqnr (p_send (sh_state s))) src \<and> tx k e nk c'"
    and sealable: "tx k e nk c \<Longrightarrow> send_context (sh_state s) = Some c \<Longrightarrow> (\<And>n. malloc (e_lc e) n \<noteq> None) \<Longrightarrow>
      wf_sshbuf (outgoing_packet (sh_state s)) \<Longrightarrow> 9 \<le> length (contents (outgoing_packet (sh_state s))) \<Longrightarrow>
      wf_sshbuf (s_output (sh_state s)) \<Longrightarrow> writable (s_output (sh_state s)) \<Longrightarrow>
      length (contents (s_output (sh_state s))) + length (contents (outgoing_packet (sh_state s))) + 16
        \<le> b_max_size (s_output (sh_state s)) \<Longrightarrow>
      \<exists>len s'. seal_outgoing e nk s = Some (Inr len, s')"
    and opens: "rx k e nk c \<Longrightarrow> receive_context (sh_state r) = Some c \<Longrightarrow> (\<And>n. malloc (e_lc e) n \<noteq> None) \<Longrightarrow>
      recv_ok (incoming_packet (sh_state r)) \<Longrightarrow> wf_sshbuf (s_input (sh_state r)) \<Longrightarrow> packlen (sh_state r) = 0 \<Longrightarrow>
      contents (s_input (sh_state r)) = wire k nk (seqnr (p_read (sh_state r))) src @ rest \<Longrightarrow>
      9 \<le> length src \<Longrightarrow> length src \<le> PACKET_MAX_SIZE + 4 \<Longrightarrow> PEEK_U32 (take 4 src) = of_nat (length src - 4) \<Longrightarrow>
      (length src - nk_aadlen nk) mod nk_block_size nk = 0 \<Longrightarrow>
      \<exists>ib ob c'. fetch e nk r = Some (Inr True, r\<lparr>sh_state := (sh_state r)\<lparr>receive_context := Some c', s_input := ib,
          incoming_packet := ob, packlen := of_nat (length src - 4)\<rparr>\<rparr>) \<and>
        wf_sshbuf ib \<and> contents ib = rest \<and> recv_ok ob \<and> contents ob = src \<and> rx k e nk c'"

context packet_transform
begin

lemma sends:
  assumes nk: "nk = s_newkeys (sh_state s) MODE_OUT" and c: "tx k e nk c" "send_context (sh_state s) = Some c"
    and wf: "wf_sshbuf (s_output (sh_state s))" "wf_sshbuf (outgoing_packet (sh_state s))"
    and out: "contents (outgoing_packet (sh_state s)) = hdr @ payload" "length hdr = 5"
    and run: "ssh_packet_send2_wrapped e s = Some (Inr (), s')"
  obtains pad where "4 \<le> length pad" and "length pad < 256"
    and "(length (frame payload pad) - nk_aadlen nk) mod nk_block_size nk = 0"
    and "wf_sshbuf (s_output (sh_state s'))"
    and "contents (s_output (sh_state s')) =
      contents (s_output (sh_state s)) @ wire k nk (seqnr (p_send (sh_state s))) (frame payload pad)"
    and "ordinary (packet_type (outgoing_packet (sh_state s))) \<Longrightarrow> \<exists>c'. send_context (sh_state s') = Some c' \<and>
      tx k e nk c' \<and> s_newkeys (sh_state s') MODE_OUT = nk \<and>
      seqnr (p_send (sh_state s')) = seqnr (p_send (sh_state s)) + 1"
    and "\<And>x. packet_type (outgoing_packet (sh_state s)) = SSH2_MSG_NEWKEYS \<Longrightarrow> sh_kex s = Some x \<Longrightarrow> kex_strict x \<Longrightarrow>
      seqnr (p_send (sh_state s')) = 0"
proof -
  note shape = shape_tx[OF c(1)]
  obtain s1 len s2 s3 where pad: "pad_outgoing e nk s = Some (Inr (), s1)"
    and seal: "seal_outgoing e nk s1 = Some (Inr len, s2)" and count: "count_sent e nk len s2 = Some (Inr (), s3)"
    and after: "after_sent e (packet_type (outgoing_packet (sh_state s))) s3 = Some (Inr (), s')"
    using run shape unfolding ssh_packet_send2_wrapped_def Let_def nk[symmetric]
    by (auto elim!: pbind_InrE simp: pwhen_def proc_basic split: if_splits)
  obtain p where p: "wf_sshbuf (outgoing_packet (sh_state s1))" "contents (outgoing_packet (sh_state s1)) = frame payload p"
    "4 \<le> length p" "length p < 256" "same_sender s s1"
    "(length (frame payload p) - nk_aadlen nk) mod nk_block_size nk = 0"
    by (rule pad_outgoing_spec[OF _ _ wf(2) out pad]) (use shape in auto)
  have s1: "send_context (sh_state s1) = Some c" "s_output (sh_state s1) = s_output (sh_state s)"
    "p_send (sh_state s1) = p_send (sh_state s)" using p(5) c(2) by (simp_all add: same_sender_def)
  have wf1: "wf_sshbuf (s_output (sh_state s1))" using wf(1) s1 by simp
  have n: "9 \<le> length (frame payload p)" using p(3) by simp
  obtain b where b: "s_output (sh_state s2) = b" "wf_sshbuf b"
    "contents b = contents (s_output (sh_state s)) @ wire k nk (seqnr (p_send (sh_state s))) (frame payload p)"
    and c': "\<exists>c'. send_context (sh_state s2) = Some c' \<and> tx k e nk c'"
    and s2: "s_newkeys (sh_state s2) = s_newkeys (sh_state s)" "p_send (sh_state s2) = p_send (sh_state s)"
      "sh_kex s2 = sh_kex s"
    using seals[OF c(1) s1(1) wf1 p(1,2) n seal] s1 p(5) by (auto simp: same_sender_def)
  have "s_output (sh_state s') = b"
    using pkeepsD[OF after_sent_output _ after] pkeepsD[OF count_sent_output b(1) count] by blast
  moreover have "\<exists>c'. send_context (sh_state s') = Some c' \<and> tx k e nk c' \<and> s_newkeys (sh_state s') MODE_OUT = nk \<and>
      seqnr (p_send (sh_state s')) = seqnr (p_send (sh_state s)) + 1"
    if "ordinary (packet_type (outgoing_packet (sh_state s)))"
  proof -
    have "s' = s3" using that after by (auto simp: ordinary_def after_sent_def proc_simps)
    then show ?thesis using count_sent_seqnr[OF count] c' s2 nk by auto
  qed
  moreover have "seqnr (p_send (sh_state s')) = 0"
    if "packet_type (outgoing_packet (sh_state s)) = SSH2_MSG_NEWKEYS" "sh_kex s = Some x" "kex_strict x" for x
    using newkeys_sent_reset[of e s3 s' x] after that count_sent_seqnr(4)[OF count] s2(3) by simp
  ultimately show thesis using p(3,4,6) b by (intro that[of p]) auto
qed

lemma sends_packet:
  assumes nk: "nk = s_newkeys (sh_state s) MODE_OUT" and c: "tx k e nk c" "send_context (sh_state s) = Some c"
    and mem: "\<And>n. malloc (e_lc e) n \<noteq> None" and x: "extra_pad (sh_state s) = 0"
    and ob: "wf_sshbuf (s_output (sh_state s))" "writable (s_output (sh_state s))"
      "length (contents (s_output (sh_state s))) + length payload + 276 \<le> b_max_size (s_output (sh_state s))"
    and pb: "wf_sshbuf (outgoing_packet (sh_state s))" "writable (outgoing_packet (sh_state s))"
      "length payload + 260 \<le> b_max_size (outgoing_packet (sh_state s))"
    and out: "contents (outgoing_packet (sh_state s)) = hdr @ payload" "length hdr = 5"
    and ctr: "seqnr (p_send (sh_state s)) + 1 \<noteq> 0" "packets (p_send (sh_state s)) + 1 \<noteq> 0"
  shows "\<exists>s3. ssh_packet_send2_wrapped e s = after_sent e (packet_type (outgoing_packet (sh_state s))) s3 \<and> sh_kex s3 = sh_kex s"
proof -
  note shape = shape_tx[OF c(1)]
  have room: "length (contents (outgoing_packet (sh_state s))) + 255 \<le> b_max_size (outgoing_packet (sh_state s))"
    unfolding out(1) using out(2) pb(3) by simp
  obtain s1 where pad: "pad_outgoing e nk s = Some (Inr (), s1)"
    using pad_outgoing_succeeds[OF pb(1,2) room mem x c(2)] by blast
  obtain p where p: "wf_sshbuf (outgoing_packet (sh_state s1))" "contents (outgoing_packet (sh_state s1)) = frame payload p"
    "4 \<le> length p" "length p < 256" "same_sender s s1"
    by (rule pad_outgoing_spec[OF _ _ pb(1) out pad]) (use shape in auto)
  have s1: "send_context (sh_state s1) = Some c" "s_output (sh_state s1) = s_output (sh_state s)"
    "p_send (sh_state s1) = p_send (sh_state s)" using p(5) c(2) by (simp_all add: same_sender_def)
  have "9 \<le> length (contents (outgoing_packet (sh_state s1)))" unfolding p(2) using p(3) by simp
  moreover have "length (contents (s_output (sh_state s1))) + length (contents (outgoing_packet (sh_state s1))) + 16
      \<le> b_max_size (s_output (sh_state s1))" unfolding p(2) s1(2) using ob(3) p(4) by (simp del: length_contents)
  ultimately obtain len s2 where seal: "seal_outgoing e nk s1 = Some (Inr len, s2)"
    using sealable[OF c(1) s1(1) mem p(1)] ob(1,2) s1(2) by auto
  have n: "9 \<le> length (frame payload p)" using p(3) by simp
  have s2: "p_send (sh_state s2) = p_send (sh_state s)" "sh_kex s2 = sh_kex s"
    using seals[OF c(1) s1(1) _ p(1,2) n seal] s1 ob(1) p(5) by (auto simp: same_sender_def)
  then obtain s3 where s3: "count_sent e nk len s2 = Some (Inr (), s3)" using count_sent_spec[of s2 e nk len] ctr by auto
  show ?thesis
    using pad seal s3 shape wf_ptr[OF pb(1)] count_sent_seqnr(4)[OF s3] s2(2)
    by (intro exI[of _ s3]) (auto simp: ssh_packet_send2_wrapped_def Let_def nk[symmetric] pwhen_def pbind_def proc_basic)
qed

lemma receives:
  assumes nk: "nk = s_newkeys (sh_state r) MODE_IN" and m: "\<not> s_mux (sh_state r)" "packet_discard (sh_state r) = 0"
    and c: "rx k e nk c" "receive_context (sh_state r) = Some c" and mem: "\<And>n. malloc (e_lc e) n \<noteq> None"
    and bufs: "recv_ok (incoming_packet (sh_state r))" "wf_sshbuf (s_input (sh_state r))" "packlen (sh_state r) = 0"
    and inp: "contents (s_input (sh_state r)) = wire k nk (seqnr (p_read (sh_state r))) (frame (type # data) pad) @ rest"
    and pad: "4 \<le> length pad" "length pad < 256"
    and blk: "(length (frame (type # data) pad) - nk_aadlen nk) mod nk_block_size nk = 0"
    and size: "length (frame (type # data) pad) \<le> PACKET_MAX_SIZE + 4" and type: "type \<noteq> 0"
    and ctr: "packets (p_read (sh_state r)) + 1 \<noteq> 0" "seqnr (p_read (sh_state r)) + 1 \<noteq> 0"
  obtains r1 c' where "ssh_packet_read_poll2 e r =
      pbind (finish_read e type) (\<lambda>_. pret (type, Some (seqnr (p_read (sh_state r))))) r1"
    and "contents (incoming_packet (sh_state r1)) = data" and "contents (s_input (sh_state r1)) = rest"
    and "wf_sshbuf (s_input (sh_state r1))" and "wf_sshbuf (incoming_packet (sh_state r1))"
    and "receive_context (sh_state r1) = Some c'" and "rx k e nk c'"
    and "seqnr (p_read (sh_state r1)) = seqnr (p_read (sh_state r)) + 1"
    and "s_newkeys (sh_state r1) MODE_IN = nk" and "same_session r r1"
proof -
  define src where "src = frame (type # data) pad"
  have hd: "PEEK_U32 (take 4 src) = of_nat (length src - 4)"
    by (simp add: src_def frame_def del: of_nat_Suc of_nat_add)
  have n: "9 \<le> length src" "length src \<le> PACKET_MAX_SIZE + 4" using pad(1) size by (auto simp: src_def)
  obtain ib ob c' where f: "fetch e nk r = Some (Inr True, r\<lparr>sh_state := (sh_state r)\<lparr>receive_context := Some c', s_input := ib,
        incoming_packet := ob, packlen := of_nat (length src - 4)\<rparr>\<rparr>)"
    and ib: "wf_sshbuf ib" "contents ib = rest" and ob: "recv_ok ob" "contents ob = src" and c': "rx k e nk c'"
    using opens[OF c mem bufs inp[folded src_def] n hd] blk unfolding src_def by blast
  define r0 where "r0 = r\<lparr>sh_state := (sh_state r)\<lparr>receive_context := Some c', s_input := ib,
    incoming_packet := ob, packlen := of_nat (length src - 4)\<rparr>\<rparr>"
  obtain p where p: "seqnr p = seqnr (p_read (sh_state r)) + 1" and
    count: "count_read nk r0 = Some (Inr (seqnr (p_read (sh_state r))), r0\<lparr>sh_state := (sh_state r0)\<lparr>p_read := p\<rparr>\<rparr>)"
    using count_read_spec[of r0 nk] ctr by (auto simp: r0_def)
  obtain ob' where ob': "wf_sshbuf ob'" "contents ob' = data" and
    unpad: "unpad_incoming e nk (r0\<lparr>sh_state := (sh_state r0)\<lparr>p_read := p\<rparr>\<rparr>) = Some (Inr type,
      r0\<lparr>sh_state := (sh_state r0)\<lparr>p_read := p, incoming_packet := ob'\<rparr>\<rparr>)"
    using unpad_spec[of "r0\<lparr>sh_state := (sh_state r0)\<lparr>p_read := p\<rparr>\<rparr>" type data pad nk e] ob pad shape_rx[OF c(1)] type
    by (auto simp: r0_def src_def)
  have "ssh_packet_read_poll2 e r = pbind (finish_read e type) (\<lambda>_. pret (type, Some (seqnr (p_read (sh_state r)))))
      (r0\<lparr>sh_state := (sh_state r0)\<lparr>p_read := p, incoming_packet := ob'\<rparr>\<rparr>)"
    unfolding fetched[OF nk m f[folded r0_def]] by (simp add: pbind_def count unpad)
  then show thesis by (rule that) (use ib ob' c' p nk in \<open>simp_all add: r0_def same_session_def\<close>)
qed

end

section \<open>Packets in the clear\<close>

text \<open>Before the first keys, both contexts are those of the cipher \<^verbatim>\<open>none\<close>.\<close>

definition plain_ctx :: "unit \<Rightarrow> penv \<Rightarrow> newkeys option \<Rightarrow> sshcipher_ctx \<Rightarrow> bool" where
  "plain_ctx k e nk c \<longleftrightarrow> nk = None \<and> \<not> has_flag (cipher c) CFLAG_CHACHAPOLY \<and> has_flag (cipher c) CFLAG_NONE"

definition plain_wire :: "unit \<Rightarrow> newkeys option \<Rightarrow> 32 word \<Rightarrow> byte list \<Rightarrow> byte list" where
  "plain_wire k nk sq src = src"

lemma plain_nk:
  "nk_authlen None = 0" "nk_aadlen None = 0" "mac_on None = False" "nk_maclen None = 0"
  "nk_block_size None = 8" "comp_on None = False"
  by (simp_all add: nk_authlen_def nk_aadlen_def mac_on_def nk_mac_of_def nk_maclen_def nk_block_size_def comp_on_def)

lemma plain_crypt:
  "plain_ctx k e nk c \<Longrightarrow> cipher_crypt ev sq src len aad auth c = (Inr (take (aad + len) src), c)"
  by (simp add: plain_ctx_def cipher_crypt_def op_simps)

lemma plain_seal:
  assumes c: "plain_ctx k e nk c" "send_context (sh_state s) = Some c" and wf: "wf_sshbuf (s_output (sh_state s))"
    and out: "wf_sshbuf (outgoing_packet (sh_state s))" "contents (outgoing_packet (sh_state s)) = src"
    and run: "seal_outgoing e nk s = Some (Inr len, s')"
  shows "\<exists>b c'. s' = s\<lparr>sh_state := (sh_state s)\<lparr>s_output := b, send_context := Some c'\<rparr>\<rparr> \<and> wf_sshbuf b \<and>
    contents b = contents (s_output (sh_state s)) @ src \<and> plain_ctx k e nk c'"
proof -
  have nk: "nk = None" using c by (simp add: plain_ctx_def)
  have len: "sshbuf_len (outgoing_packet (sh_state s)) = length src"
    and bytes: "mem_read 0 (length src) (outgoing_packet (sh_state s)) = src"
    using sshbuf_len_contents[OF out(1)] buffer_bytes[OF out(1)] out(2) by auto
  obtain i b where r: "sshbuf_reserve (e_lc e) (length src) (s_output (sh_state s)) = (Inr i, b)"
    and s': "s' = s\<lparr>sh_state := (sh_state s)\<lparr>s_output := mem_write i src b, send_context := Some c\<rparr>\<rparr>"
    using run c(2) plain_crypt[OF c(1)]
    by (auto simp: seal_outgoing_def Let_def nk plain_nk len bytes pbind_pret pwhen_def proc_basic on_Inr
        on_context_def op_simps elim!: pbind_InrE)
  show ?thesis using reserve_write_spec[OF wf r] c(1) s' by blast
qed

lemma plain_sealable:
  assumes c: "plain_ctx k e nk c" "send_context (sh_state s) = Some c" and mem: "\<And>n. malloc (e_lc e) n \<noteq> None"
    and out: "wf_sshbuf (outgoing_packet (sh_state s))"
    and b: "wf_sshbuf (s_output (sh_state s))" "writable (s_output (sh_state s))"
    and room: "length (contents (s_output (sh_state s))) + length (contents (outgoing_packet (sh_state s))) + 16
        \<le> b_max_size (s_output (sh_state s))"
  shows "\<exists>len s'. seal_outgoing e nk s = Some (Inr len, s')"
proof -
  have nk: "nk = None" using c by (simp add: plain_ctx_def)
  obtain i b where "sshbuf_reserve (e_lc e) (sshbuf_len (outgoing_packet (sh_state s))) (s_output (sh_state s)) = (Inr i, b)"
    by (rule writable_reserve[OF b _ mem]) (use room sshbuf_len_contents[OF out] in auto)
  then show ?thesis
    using c(2) plain_crypt[OF c(1)]
    by (simp add: seal_outgoing_def Let_def nk plain_nk pwhen_def proc_basic on_defs on_context_def op_simps pbind_def)
qed

lemma packlen_word:
  assumes "9 \<le> length src" "length src \<le> PACKET_MAX_SIZE + 4"
  shows "unat (of_nat (length src - 4) :: 32 word) = length src - 4"
    and "\<not> bad_packlen (of_nat (length src - 4))" and "(of_nat (length src - 4) :: 32 word) \<noteq> 0"
proof -
  define L where "L = length src - 4"
  have L: "5 \<le> L" "L \<le> PACKET_MAX_SIZE" using assms by (auto simp: L_def)
  then have u: "unat (of_nat L :: 32 word) = L" by (simp add: unat_of_nat PACKET_MAX_SIZE_def)
  have "\<not> bad_packlen (of_nat L)" using L by (simp add: bad_packlen_def u)
  moreover have "(of_nat L :: 32 word) \<noteq> 0" using u L by (metis not_numeral_le_zero unat_0)
  ultimately show "unat (of_nat (length src - 4) :: 32 word) = length src - 4"
    "\<not> bad_packlen (of_nat (length src - 4))" "(of_nat (length src - 4) :: 32 word) \<noteq> 0"
    using u unfolding L_def by blast+
qed

lemma plain_length:
  assumes c: "plain_ctx k e None c" "receive_context (sh_state r) = Some c" and mem: "\<And>n. malloc (e_lc e) n \<noteq> None"
    and ob: "recv_ok (incoming_packet (sh_state r))" and wf: "wf_sshbuf (s_input (sh_state r))"
    and p0: "packlen (sh_state r) = 0" and inp: "contents (s_input (sh_state r)) = src @ rest"
    and n: "9 \<le> length src" "length src \<le> PACKET_MAX_SIZE + 4" and hd: "PEEK_U32 (take 4 src) = of_nat (length src - 4)"
  shows "\<exists>ib ob. read_length e None r = Some (Inr True, r\<lparr>sh_state := (sh_state r)\<lparr>receive_context := Some c,
      s_input := ib, incoming_packet := ob, packlen := of_nat (length src - 4)\<rparr>\<rparr>) \<and>
    wf_sshbuf ib \<and> contents ib = drop 8 src @ rest \<and> recv_ok ob \<and> contents ob = take 8 src"
proof -
  define b where "b = s_input (sh_state r)"
  have len: "sshbuf_len b = length (src @ rest)" and bytes: "mem_read 0 (sshbuf_len b) b = src @ rest"
    using sshbuf_len_contents[of b] buffer_bytes[of b] wf inp by (auto simp: b_def)
  define o0 where "o0 = sshbuf_reset (e_lc e) (incoming_packet (sh_state r))"
  have o0: "recv_ok o0" "contents o0 = []" using recv_reset[OF ob] by (auto simp: o0_def)
  obtain i o1 where res: "sshbuf_reserve (e_lc e) 8 o0 = (Inr i, o1)"
    and o1: "\<And>bs. length bs = 8 \<Longrightarrow> recv_ok (mem_write i bs o1) \<and> contents (mem_write i bs o1) = bs"
    by (rule recv_reserve[OF o0(1) mem, of 8]) (auto simp: o0 PACKET_MAX_SIZE_def)
  have t8: "length (take 8 src) = 8" using n by simp
  define ob' where "ob' = mem_write i (take 8 src) o1"
  have ob': "recv_ok ob'" "contents ob' = take 8 src" using o1[OF t8] by (auto simp: ob'_def)
  have crypt: "cipher_crypt (e_ev e) sq (src @ rest) 8 0 0 c = (Inr (take 8 src), c)" for sq
    using plain_crypt[OF c(1), of "e_ev e" sq "src @ rest" 8 0 0] n by simp
  have pk: "PEEK_U32 (mem_read 0 4 ob') = of_nat (length src - 4)"
    using mem_read_contents[of ob' 0 4] ob' n hd by (simp add: recv_ok_def del: length_contents)
  obtain ib where ib: "sshbuf_consume 8 b = (Inr (), ib)" "wf_sshbuf ib" "contents ib = drop 8 src @ rest"
    using consume_spec(1)[of b 8] wf inp n by (auto simp: b_def simp del: length_contents)
  have "read_length e None r = Some (Inr True, r\<lparr>sh_state := (sh_state r)\<lparr>receive_context := Some c,
      s_input := ib, incoming_packet := ob', packlen := of_nat (length src - 4)\<rparr>\<rparr>)"
    using n packlen_word(2)[OF n] c(2) ib(1) len bytes
    by (simp add: read_length_def p0 plain_nk read_length_block_def Let_def b_def[symmetric] on_defs op_simps
        o0_def[symmetric] res on_context_def crypt ob'_def[symmetric] set_state_def pk pbind_def proc_basic)
  then show ?thesis using ib ob' by blast
qed

lemma plain_open:
  assumes c: "plain_ctx k e nk c" "receive_context (sh_state r) = Some c" and mem: "\<And>n. malloc (e_lc e) n \<noteq> None"
    and ob: "recv_ok (incoming_packet (sh_state r))" and wf: "wf_sshbuf (s_input (sh_state r))"
    and p0: "packlen (sh_state r) = 0" and inp: "contents (s_input (sh_state r)) = src @ rest"
    and n: "9 \<le> length src" "length src \<le> PACKET_MAX_SIZE + 4" and hd: "PEEK_U32 (take 4 src) = of_nat (length src - 4)"
    and blk: "(length src - nk_aadlen nk) mod nk_block_size nk = 0"
  shows "\<exists>ib ob c'. fetch e nk r = Some (Inr True, r\<lparr>sh_state := (sh_state r)\<lparr>receive_context := Some c', s_input := ib,
      incoming_packet := ob, packlen := of_nat (length src - 4)\<rparr>\<rparr>) \<and>
    wf_sshbuf ib \<and> contents ib = rest \<and> recv_ok ob \<and> contents ob = src \<and> plain_ctx k e nk c'"
proof -
  have nk: "nk = None" and c': "plain_ctx k e None c" using c by (auto simp: plain_ctx_def)
  have blk8: "length src mod 8 = 0" using blk by (simp add: nk plain_nk)
  obtain ib o1 where rl: "read_length e None r = Some (Inr True, r\<lparr>sh_state := (sh_state r)\<lparr>receive_context := Some c,
      s_input := ib, incoming_packet := o1, packlen := of_nat (length src - 4)\<rparr>\<rparr>)"
    and ib: "wf_sshbuf ib" "contents ib = drop 8 src @ rest" and o1: "recv_ok o1" "contents o1 = take 8 src"
    using plain_length[OF c' c(2) mem ob wf p0 inp n hd] by blast
  define N where "N = length src - 8"
  have word: "4 + of_nat (length src - 4) - of_nat 8 = (of_nat N :: 32 word)"
    using n by (simp add: N_def of_nat_diff)
  have N_le: "N < 2 ^ 32" using n by (simp add: N_def PACKET_MAX_SIZE_def)
  have need: "unat (read_need None (of_nat (length src - 4))) = N"
  proof -
    have "unat (of_nat N :: 32 word) = N" using N_le by (simp add: unat_of_nat)
    then show ?thesis unfolding read_need_def plain_nk by (simp only: word simp_thms if_False)
  qed
  have N8: "N mod 8 = 0" using blk8 n by (simp add: N_def mod_eq_0_iff_dvd dvd_diff_nat)
  have len: "sshbuf_len ib = N + length rest" and bytes: "mem_read 0 (sshbuf_len ib) ib = drop 8 src @ rest"
    using sshbuf_len_contents[OF ib(1)] buffer_bytes[OF ib(1)] ib(2) by (auto simp: N_def)
  obtain i o2 where res: "sshbuf_reserve (e_lc e) N o1 = (Inr i, o2)"
    and o2: "\<And>bs. length bs = N \<Longrightarrow> recv_ok (mem_write i bs o2) \<and> contents (mem_write i bs o2) = take 8 src @ bs"
    by (rule recv_reserve[OF o1(1) mem, of N]) (use o1 n in \<open>auto simp: N_def simp del: length_contents\<close>)
  define ob' where "ob' = mem_write i (drop 8 src) o2"
  have ob': "recv_ok ob'" "contents ob' = src" using o2[of "drop 8 src"] by (auto simp: ob'_def N_def)
  have crypt: "cipher_crypt (e_ev e) sq (drop 8 src @ rest) N 0 0 c = (Inr (drop 8 src), c)" for sq
    using plain_crypt[OF c', of "e_ev e" sq "drop 8 src @ rest" N 0 0] by (simp add: N_def)
  obtain ib' where ib': "sshbuf_consume N ib = (Inr (), ib')" "wf_sshbuf ib'" "contents ib' = rest"
    using consume_spec(1)[OF ib(1), of N] ib(2) by (auto simp: N_def simp del: length_contents)
  have "fetch e None r = Some (Inr True, r\<lparr>sh_state := (sh_state r)\<lparr>receive_context := Some c, s_input := ib',
      incoming_packet := ob', packlen := of_nat (length src - 4)\<rparr>\<rparr>)"
    using ib'(1) len bytes N8
    by (simp add: fetch_def rl need plain_nk open_incoming_def Let_def input_bytes_def on_defs op_simps
        res on_context_def crypt ob'_def[symmetric] pwhen_def pbind_def proc_basic del: of_nat_diff)
  then show ?thesis using ib' ob' c by (auto simp: nk)
qed

interpretation plain: packet_transform plain_ctx plain_ctx plain_wire
  apply unfold_locales
  subgoal by (auto simp: plain_ctx_def plain_nk)
  subgoal by (auto simp: plain_ctx_def plain_nk)
  subgoal unfolding plain_wire_def by (rule plain_seal)
  subgoal by (rule plain_sealable)
  subgoal unfolding plain_wire_def by (rule plain_open)
  done

section \<open>ChaCha20-Poly1305\<close>

definition chacha_cipher :: sshcipher where
  "chacha_cipher = the (cipher_by_name ''chacha20-poly1305@openssh.com'')"

lemma chacha_facts:
  "cipher_by_name ''chacha20-poly1305@openssh.com'' \<noteq> None \<and> has_flag chacha_cipher CFLAG_CHACHAPOLY \<and>
   cipher_authlen chacha_cipher = 16 \<and> cipher_blocksize chacha_cipher = 8 \<and> key_len chacha_cipher = 64 \<and>
   cipher_ivlen chacha_cipher = 0"
  by code_simp

text \<open>A context keyed with \<open>snd k\<close>, under the key stream \<open>fst k\<close>.\<close>

definition aead_ctx ::
  "bool \<Rightarrow> (byte list \<Rightarrow> byte list \<Rightarrow> nat \<Rightarrow> byte) \<times> byte list \<Rightarrow> penv \<Rightarrow> newkeys option \<Rightarrow> sshcipher_ctx \<Rightarrow> bool" where
  "aead_ctx enc k e nk c \<longleftrightarrow>
     (\<exists>n. nk = Some n \<and> enc_cipher (nk_enc n) = Some chacha_cipher \<and> enc_block_size (nk_enc n) = 8 \<and>
        \<not> comp_enabled (nk_comp n)) \<and>
     cipher c = chacha_cipher \<and> encrypt c = enc \<and>
     (\<exists>keyof p. evp_chacha20 (e_ev e) (fst k) keyof \<and> cp_ctx c = Some p \<and> chachapoly_keyed keyof (snd k) p)"

definition aead_wire ::
  "(byte list \<Rightarrow> byte list \<Rightarrow> nat \<Rightarrow> byte) \<times> byte list \<Rightarrow> newkeys option \<Rightarrow> 32 word \<Rightarrow> byte list \<Rightarrow> byte list" where
  "aead_wire k nk sq src =
     (let out = packet_crypt (fst k) (snd k) sq 4 src in out @ packet_tag (fst k) (snd k) sq out)"

lemma length_aead_wire [simp]: "length (aead_wire k nk sq src) = length src + 16"
  by (simp add: aead_wire_def Let_def packet_tag_def)

lemma aead_nk:
  assumes "aead_ctx enc k e nk c"
  shows "nk_authlen nk = 16" "nk_aadlen nk = 4" "\<not> mac_on nk" "nk_maclen nk = 0" "nk_block_size nk = 8" "\<not> comp_on nk"
  using assms chacha_facts
  by (auto simp: aead_ctx_def nk_authlen_def nk_aadlen_def mac_on_def nk_mac_of_def nk_maclen_def
      nk_block_size_def comp_on_def)

lemma aead_encrypt:
  assumes c: "aead_ctx True k e nk c" and n: "4 \<le> length src"
  shows "\<exists>c'. cipher_crypt (e_ev e) sq src (length src - 4) 4 16 c = (Inr (aead_wire k nk sq src), c') \<and>
    aead_ctx True k e nk c'"
proof -
  obtain keyof p where p: "evp_chacha20 (e_ev e) (fst k) keyof" "cp_ctx c = Some p" "chachapoly_keyed keyof (snd k) p"
    using c by (auto simp: aead_ctx_def)
  obtain p' where "chachapoly_crypt (e_ev e) sq src (length src - 4) 4 True p = (Inr (aead_wire k nk sq src), p')"
    "chachapoly_keyed keyof (snd k) p'"
    using chachapoly_crypt_keyed[OF p(1,3), of 4 "length src - 4" True src sq] n
    by (auto simp: aead_wire_def Let_def)
  then show ?thesis using c p chacha_facts by (auto simp: cipher_crypt_def aead_ctx_def)
qed

lemma aead_decrypt:
  assumes c: "aead_ctx False k e nk c" and n: "4 \<le> length src"
  shows "\<exists>c'. cipher_crypt (e_ev e) sq (aead_wire k nk sq src @ rest) (length src - 4) 4 16 c = (Inr src, c') \<and>
    aead_ctx False k e nk c'"
proof -
  obtain keyof p where p: "evp_chacha20 (e_ev e) (fst k) keyof" "cp_ctx c = Some p" "chachapoly_keyed keyof (snd k) p"
    using c by (auto simp: aead_ctx_def)
  have t: "take (length src) (aead_wire k nk sq src @ rest) = packet_crypt (fst k) (snd k) sq 4 src"
    "take 16 (drop (length src) (aead_wire k nk sq src @ rest)) =
      packet_tag (fst k) (snd k) sq (packet_crypt (fst k) (snd k) sq 4 src)"
    by (simp_all add: aead_wire_def Let_def packet_tag_def)
  obtain p' where "chachapoly_crypt (e_ev e) sq (aead_wire k nk sq src @ rest) (length src - 4) 4 False p = (Inr src, p')"
    "chachapoly_keyed keyof (snd k) p'"
    using chachapoly_crypt_keyed[OF p(1,3), of 4 "length src - 4" False "aead_wire k nk sq src @ rest" sq] n t
    by (auto simp: Let_def simp del: take_append drop_append)
  then show ?thesis using c p chacha_facts by (auto simp: cipher_crypt_def aead_ctx_def)
qed

lemma keeps_get_length:
  assumes "evp_chacha20 e ks keyof"
  shows "keeps (chachapoly_keyed keyof key) (chachapoly_get_length e sq cp len)"
  unfolding chachapoly_get_length_def
  by (intro keeps_rules keeps_evp_with_iv[OF assms] length_seqbuf)

lemma aead_get_length:
  assumes c: "aead_ctx False k e nk c" and n: "4 \<le> length src" "4 \<le> len"
  shows "\<exists>c'. cipher_get_length (e_ev e) sq (aead_wire k nk sq src @ rest) len c = (Inr (PEEK_U32 (take 4 src)), c') \<and>
    aead_ctx False k e nk c'"
proof -
  obtain keyof p where p: "evp_chacha20 (e_ev e) (fst k) keyof" "cp_ctx c = Some p" "chachapoly_keyed keyof (snd k) p"
    using c by (auto simp: aead_ctx_def)
  obtain r p' where run: "chachapoly_get_length (e_ev e) sq (aead_wire k nk sq src @ rest) len p = (r, p')" by fastforce
  have "r = Inr (PEEK_U32 (take 4 src))"
    using chachapoly_get_length_keyed[OF p(1,3) order_refl n, of sq
        "packet_tag (fst k) (snd k) sq (packet_crypt (fst k) (snd k) sq 4 src) @ rest"] run
    by (simp add: aead_wire_def Let_def)
  moreover have "chachapoly_keyed keyof (snd k) p'"
    using keepsD[OF keeps_get_length[OF p(1)] p(3)] run by (metis snd_conv)
  ultimately show ?thesis using c p run chacha_facts by (auto simp: cipher_get_length_def aead_ctx_def)
qed

lemma aead_seal:
  assumes c: "aead_ctx True k e nk c" "send_context (sh_state s) = Some c" and wf: "wf_sshbuf (s_output (sh_state s))"
    and out: "wf_sshbuf (outgoing_packet (sh_state s))" "contents (outgoing_packet (sh_state s)) = src" "9 \<le> length src"
    and run: "seal_outgoing e nk s = Some (Inr len, s')"
  shows "\<exists>b c'. s' = s\<lparr>sh_state := (sh_state s)\<lparr>s_output := b, send_context := Some c'\<rparr>\<rparr> \<and> wf_sshbuf b \<and>
    contents b = contents (s_output (sh_state s)) @ aead_wire k nk (seqnr (p_send (sh_state s))) src \<and>
    aead_ctx True k e nk c'"
proof -
  define sq where "sq = seqnr (p_send (sh_state s))"
  have len: "sshbuf_len (outgoing_packet (sh_state s)) = length src"
    and bytes: "mem_read 0 (length src) (outgoing_packet (sh_state s)) = src"
    using sshbuf_len_contents[OF out(1)] buffer_bytes[OF out(1)] out(2) by auto
  obtain c' where c': "cipher_crypt (e_ev e) sq src (length src - 4) 4 16 c = (Inr (aead_wire k nk sq src), c')"
    "aead_ctx True k e nk c'" using aead_encrypt[OF c(1), of src sq] out(3) by auto
  obtain i b where r: "sshbuf_reserve (e_lc e) (length (aead_wire k nk sq src)) (s_output (sh_state s)) = (Inr i, b)"
    and s': "s' = s\<lparr>sh_state := (sh_state s)\<lparr>s_output := mem_write i (aead_wire k nk sq src) b, send_context := Some c'\<rparr>\<rparr>"
    using run c(2) c'(1) aead_nk[OF c(1)]
    by (auto simp: seal_outgoing_def Let_def len bytes sq_def pbind_pret pwhen_def proc_basic on_Inr
        on_context_def op_simps elim!: pbind_InrE)
  show ?thesis using reserve_write_spec[OF wf r] c'(2) s' unfolding sq_def[symmetric] by blast
qed

lemma aead_sealable:
  assumes c: "aead_ctx True k e nk c" "send_context (sh_state s) = Some c" and mem: "\<And>n. malloc (e_lc e) n \<noteq> None"
    and out: "wf_sshbuf (outgoing_packet (sh_state s))" "9 \<le> length (contents (outgoing_packet (sh_state s)))"
    and b: "wf_sshbuf (s_output (sh_state s))" "writable (s_output (sh_state s))"
    and room: "length (contents (s_output (sh_state s))) + length (contents (outgoing_packet (sh_state s))) + 16
        \<le> b_max_size (s_output (sh_state s))"
  shows "\<exists>len s'. seal_outgoing e nk s = Some (Inr len, s')"
proof -
  define src where "src = contents (outgoing_packet (sh_state s))"
  define sq where "sq = seqnr (p_send (sh_state s))"
  have len: "sshbuf_len (outgoing_packet (sh_state s)) = length src"
    and bytes: "mem_read 0 (length src) (outgoing_packet (sh_state s)) = src"
    using sshbuf_len_contents[OF out(1)] buffer_bytes[OF out(1)] by (auto simp: src_def)
  obtain c' where c': "cipher_crypt (e_ev e) sq src (length src - 4) 4 16 c = (Inr (aead_wire k nk sq src), c')"
    using aead_encrypt[OF c(1), of src sq] out(2) by (auto simp: src_def)
  obtain i b where "sshbuf_reserve (e_lc e) (length src + 16) (s_output (sh_state s)) = (Inr i, b)"
    by (rule writable_reserve[OF b _ mem, of "length src + 16"]) (use room in \<open>auto simp: src_def\<close>)
  then show ?thesis
    using c(2) c' aead_nk[OF c(1)]
    by (simp add: seal_outgoing_def Let_def len bytes sq_def pwhen_def proc_basic on_defs on_context_def op_simps pbind_def)
qed

lemma aead_open:
  assumes c: "aead_ctx False k e nk c" "receive_context (sh_state r) = Some c" and mem: "\<And>n. malloc (e_lc e) n \<noteq> None"
    and ob: "recv_ok (incoming_packet (sh_state r))" and wf: "wf_sshbuf (s_input (sh_state r))"
    and p0: "packlen (sh_state r) = 0"
    and inp: "contents (s_input (sh_state r)) = aead_wire k nk (seqnr (p_read (sh_state r))) src @ rest"
    and n: "9 \<le> length src" "length src \<le> PACKET_MAX_SIZE + 4" and hd: "PEEK_U32 (take 4 src) = of_nat (length src - 4)"
    and blk: "(length src - nk_aadlen nk) mod nk_block_size nk = 0"
  shows "\<exists>ib ob c'. fetch e nk r = Some (Inr True, r\<lparr>sh_state := (sh_state r)\<lparr>receive_context := Some c', s_input := ib,
      incoming_packet := ob, packlen := of_nat (length src - 4)\<rparr>\<rparr>) \<and>
    wf_sshbuf ib \<and> contents ib = rest \<and> recv_ok ob \<and> contents ob = src \<and> aead_ctx False k e nk c'"
proof -
  define b where "b = s_input (sh_state r)"
  define sq where "sq = seqnr (p_read (sh_state r))"
  define L where "L = length src - 4"
  define inp' where "inp' = aead_wire k nk sq src @ rest"
  note nk = aead_nk[OF c(1)]
  have len: "sshbuf_len b = L + 20 + length rest" and bytes: "mem_read 0 (sshbuf_len b) b = inp'"
    using sshbuf_len_contents[of b] buffer_bytes[of b] wf inp n by (auto simp: b_def L_def inp'_def sq_def)
  have w: "unat (of_nat L :: 32 word) = L" "\<not> bad_packlen (of_nat L)" "(of_nat L :: 32 word) \<noteq> 0"
    using packlen_word[OF n] by (simp_all only: L_def simp_thms)
  obtain c1 where c1: "cipher_get_length (e_ev e) sq inp' (sshbuf_len b) c = (Inr (of_nat L), c1)"
    "aead_ctx False k e nk c1"
    using aead_get_length[OF c(1), of src "sshbuf_len b" sq rest] n hd len by (auto simp: inp'_def L_def)
  obtain c2 where c2: "cipher_crypt (e_ev e) sq inp' L 4 16 c1 = (Inr src, c2)" "aead_ctx False k e nk c2"
    using aead_decrypt[OF c1(2), of src sq rest] n by (auto simp: inp'_def L_def)
  define o0 where "o0 = sshbuf_reset (e_lc e) (incoming_packet (sh_state r))"
  have o0: "recv_ok o0" "contents o0 = []" using recv_reset[OF ob] by (auto simp: o0_def)
  obtain i o1 where res: "sshbuf_reserve (e_lc e) (4 + L) o0 = (Inr i, o1)"
    and o1: "\<And>bs. length bs = 4 + L \<Longrightarrow> recv_ok (mem_write i bs o1) \<and> contents (mem_write i bs o1) = bs"
    by (rule recv_reserve[OF o0(1) mem, of "4 + L"]) (use n in \<open>auto simp: o0 L_def\<close>)
  define ob' where "ob' = mem_write i src o1"
  have ob': "recv_ok ob'" "contents ob' = src" using o1[of src] n by (auto simp: ob'_def L_def)
  obtain ib where ib: "sshbuf_consume (4 + L + 16) b = (Inr (), ib)" "wf_sshbuf ib" "contents ib = rest"
    using consume_spec(1)[of b "4 + L + 16"] wf inp n by (auto simp: b_def L_def simp del: length_contents)
  define r1 where "r1 = r\<lparr>sh_state := (sh_state r)\<lparr>receive_context := Some c1, packlen := of_nat L, incoming_packet := o0\<rparr>\<rparr>"
  have "read_length e nk r = Some (Inr True, r1)"
    using c(2) c1(1) bytes w
    by (simp add: read_length_def p0 nk read_length_aad_def Let_def flip: b_def sq_def)
      (simp add: on_context_def set_state_def pbind_def proc_basic on_defs op_simps r1_def o0_def)
  moreover have "L mod 8 = 0" using blk by (simp add: nk L_def)
  moreover have "open_incoming e nk L r1 = Some (Inr True, r\<lparr>sh_state := (sh_state r)\<lparr>receive_context := Some c2,
      s_input := ib, incoming_packet := ob', packlen := of_nat L\<rparr>\<rparr>)"
    using bytes c2(1) ib(1) res
    by (simp add: open_incoming_def Let_def nk r1_def input_bytes_def pwhen_def on_defs op_simps on_context_def
        ob'_def pbind_def proc_basic flip: b_def sq_def)
  ultimately have "fetch e nk r = Some (Inr True, r\<lparr>sh_state := (sh_state r)\<lparr>receive_context := Some c2,
      s_input := ib, incoming_packet := ob', packlen := of_nat L\<rparr>\<rparr>)"
    using len by (simp add: fetch_def pbind_def Let_def nk read_need_def r1_def w flip: b_def)
  then show ?thesis using ib ob' c2(2) by (auto simp: L_def)
qed

interpretation aead: packet_transform "aead_ctx True" "aead_ctx False" aead_wire
  apply unfold_locales
  subgoal using aead_nk by auto
  subgoal using aead_nk by auto
  subgoal by (rule aead_seal)
  subgoal by (rule aead_sealable)
  subgoal by (rule aead_open)
  done

section \<open>A connection\<close>

text \<open>
  The two states of a connection: \<open>None\<close> before the first keys, and \<open>Some (ks, key)\<close> under
  ChaCha20-Poly1305 with \<open>key\<close>, where \<open>ks\<close> is the key stream of libcrypto.
\<close>

type_synonym link = "((byte list \<Rightarrow> byte list \<Rightarrow> nat \<Rightarrow> byte) \<times> byte list) option"

fun link_tx :: "link \<Rightarrow> penv \<Rightarrow> newkeys option \<Rightarrow> sshcipher_ctx \<Rightarrow> bool" where
  "link_tx None = plain_ctx ()"
| "link_tx (Some k) = aead_ctx True k"

fun link_rx :: "link \<Rightarrow> penv \<Rightarrow> newkeys option \<Rightarrow> sshcipher_ctx \<Rightarrow> bool" where
  "link_rx None = plain_ctx ()"
| "link_rx (Some k) = aead_ctx False k"

fun link_wire :: "link \<Rightarrow> newkeys option \<Rightarrow> 32 word \<Rightarrow> byte list \<Rightarrow> byte list" where
  "link_wire None = plain_wire ()"
| "link_wire (Some k) = aead_wire k"

interpretation link: packet_transform link_tx link_rx link_wire
  apply unfold_locales
  subgoal for k by (cases k) (simp_all add: plain.shape_tx aead.shape_tx)
  subgoal for k by (cases k) (simp_all add: plain.shape_rx aead.shape_rx)
  subgoal for k by (cases k) (simp_all add: plain.seals aead.seals)
  subgoal for k by (cases k) (simp_all add: plain.sealable aead.sealable)
  subgoal for k
    by (cases k) (simp only: link_rx.simps link_wire.simps, (erule plain.opens aead.opens; assumption))+
  done

text \<open>The two ends agree on the sizes of a packet.\<close>

lemma link_agree:
  assumes "link_tx k e nk c" "link_rx k e nk' d"
  shows "nk_aadlen nk' = nk_aadlen nk" "nk_block_size nk' = nk_block_size nk" "link_wire k nk' = link_wire k nk"
proof -
  show "nk_aadlen nk' = nk_aadlen nk" "nk_block_size nk' = nk_block_size nk"
    using assms by (cases k; auto simp: plain_ctx_def aead_nk)+
  show "link_wire k nk' = link_wire k nk"
    by (cases k) (simp_all add: fun_eq_iff plain_wire_def aead_wire_def)
qed

text \<open>Sender and receiver hold the same keys and have counted the same packets.\<close>

definition in_step :: "penv \<Rightarrow> link \<Rightarrow> ssh \<Rightarrow> ssh \<Rightarrow> bool" where
  "in_step e k s r \<longleftrightarrow>
     (\<exists>c. send_context (sh_state s) = Some c \<and> link_tx k e (s_newkeys (sh_state s) MODE_OUT) c) \<and>
     (\<exists>d. receive_context (sh_state r) = Some d \<and> link_rx k e (s_newkeys (sh_state r) MODE_IN) d) \<and>
     seqnr (p_read (sh_state r)) = seqnr (p_send (sh_state s))"

text \<open>A packet has been composed, and there is room for it.\<close>

definition composed :: "byte \<Rightarrow> byte list \<Rightarrow> ssh \<Rightarrow> bool" where
  "composed type data s \<longleftrightarrow>
     (let ob = s_output (sh_state s); pb = outgoing_packet (sh_state s); p = p_send (sh_state s)
      in wf_sshbuf ob \<and> writable ob \<and> length (contents ob) + length data + 277 \<le> b_max_size ob \<and>
         wf_sshbuf pb \<and> writable pb \<and> length data + 261 \<le> b_max_size pb \<and>
         drop 5 (contents pb) = type # data \<and> type \<noteq> 0 \<and> length data + 257 \<le> PACKET_MAX_SIZE \<and>
         extra_pad (sh_state s) = 0 \<and> seqnr p + 1 \<noteq> 0 \<and> packets p + 1 \<noteq> 0)"

text \<open>A connection that waits for a packet.\<close>

definition waiting :: "ssh \<Rightarrow> bool" where
  "waiting r \<longleftrightarrow>
     (let st = sh_state r
      in \<not> s_mux st \<and> packet_discard st = 0 \<and> packlen st = 0 \<and> recv_ok (incoming_packet st) \<and>
         wf_sshbuf (s_input st) \<and> seqnr (p_read st) + 1 \<noteq> 0 \<and> packets (p_read st) + 1 \<noteq> 0)"

lemma link_sent:
  assumes mem: "\<And>n. malloc (e_lc e) n \<noteq> None" and c: "send_context (sh_state s) = Some c"
    "link_tx k e (s_newkeys (sh_state s) MODE_OUT) c" and s: "composed type data s"
  shows "\<exists>s3. ssh_packet_send2_wrapped e s = after_sent e type s3 \<and> sh_kex s3 = sh_kex s"
proof -
  define pb where "pb = outgoing_packet (sh_state s)"
  have pb: "wf_sshbuf pb" and d: "drop 5 (contents pb) = type # data" using s by (simp_all add: composed_def Let_def pb_def)
  have out: "contents pb = take 5 (contents pb) @ type # data" by (metis append_take_drop_id d)
  have hdr: "length (take 5 (contents pb)) = 5" using arg_cong[OF d, of length] by simp
  show ?thesis
    unfolding packet_type_spec[OF pb out hdr, unfolded pb_def, symmetric]
    by (rule link.sends_packet[OF refl c(2,1) mem _ _ _ _ _ _ _ out[unfolded pb_def] hdr[unfolded pb_def]])
      (use s in \<open>simp_all add: composed_def Let_def del: length_contents\<close>)
qed

lemma link_received:
  assumes mem: "\<And>n. malloc (e_lc e) n \<noteq> None" and c: "send_context (sh_state s) = Some c"
    "link_tx k e (s_newkeys (sh_state s) MODE_OUT) c" and s: "composed type data s"
    and run: "ssh_packet_send2_wrapped e s = Some (Inr (), s')"
  shows "wf_sshbuf (s_output (sh_state s'))"
    and "type = SSH2_MSG_NEWKEYS \<Longrightarrow> sh_kex s = Some x \<Longrightarrow> kex_strict x \<Longrightarrow> seqnr (p_send (sh_state s')) = 0"
    and "\<exists>w. contents (s_output (sh_state s')) = contents (s_output (sh_state s)) @ w \<and>
    (\<forall>r rest. in_step e k s r \<longrightarrow> waiting r \<longrightarrow> contents (s_input (sh_state r)) = w @ rest \<longrightarrow>
      (\<exists>r1. ssh_packet_read_poll2 e r =
          pbind (finish_read e type) (\<lambda>_. pret (type, Some (seqnr (p_send (sh_state s))))) r1 \<and>
        contents (incoming_packet (sh_state r1)) = data \<and> contents (s_input (sh_state r1)) = rest \<and> same_session r r1 \<and>
        (ordinary type \<longrightarrow> in_step e k s' r1)))"
proof -
  define nk where "nk = s_newkeys (sh_state s) MODE_OUT"
  define sq where "sq = seqnr (p_send (sh_state s))"
  define pb where "pb = outgoing_packet (sh_state s)"
  have pb: "wf_sshbuf pb" and d: "drop 5 (contents pb) = type # data" using s by (simp_all add: composed_def Let_def pb_def)
  have out: "contents pb = take 5 (contents pb) @ type # data" by (metis append_take_drop_id d)
  have hdr: "length (take 5 (contents pb)) = 5" using arg_cong[OF d, of length] by simp
  have wf: "wf_sshbuf (s_output (sh_state s))" "wf_sshbuf (outgoing_packet (sh_state s))" "type \<noteq> 0"
    "length data + 257 \<le> PACKET_MAX_SIZE" using s by (simp_all add: composed_def Let_def)
  obtain pad where pad: "4 \<le> length pad" "length pad < 256"
      "(length (frame (type # data) pad) - nk_aadlen nk) mod nk_block_size nk = 0"
    and wf': "wf_sshbuf (s_output (sh_state s'))"
    and w: "contents (s_output (sh_state s')) = contents (s_output (sh_state s)) @ link_wire k nk sq (frame (type # data) pad)"
    and c': "ordinary type \<Longrightarrow> \<exists>c'. send_context (sh_state s') = Some c' \<and> link_tx k e nk c' \<and>
      s_newkeys (sh_state s') MODE_OUT = nk \<and> seqnr (p_send (sh_state s')) = sq + 1"
    and z: "\<And>x. type = SSH2_MSG_NEWKEYS \<Longrightarrow> sh_kex s = Some x \<Longrightarrow> kex_strict x \<Longrightarrow> seqnr (p_send (sh_state s')) = 0"
    by (rule link.sends[OF refl c(2,1) wf(1,2) out[unfolded pb_def] hdr[unfolded pb_def] run])
      (use packet_type_spec[OF pb out hdr] in \<open>simp add: nk_def sq_def pb_def\<close>)
  have size: "length (frame (type # data) pad) \<le> PACKET_MAX_SIZE + 4" using pad(2) wf(4) by simp
  show "wf_sshbuf (s_output (sh_state s'))" by (rule wf')
  show "type = SSH2_MSG_NEWKEYS \<Longrightarrow> sh_kex s = Some x \<Longrightarrow> kex_strict x \<Longrightarrow> seqnr (p_send (sh_state s')) = 0" by (rule z)
  show "\<exists>w. contents (s_output (sh_state s')) = contents (s_output (sh_state s)) @ w \<and>
    (\<forall>r rest. in_step e k s r \<longrightarrow> waiting r \<longrightarrow> contents (s_input (sh_state r)) = w @ rest \<longrightarrow>
      (\<exists>r1. ssh_packet_read_poll2 e r =
          pbind (finish_read e type) (\<lambda>_. pret (type, Some (seqnr (p_send (sh_state s))))) r1 \<and>
        contents (incoming_packet (sh_state r1)) = data \<and> contents (s_input (sh_state r1)) = rest \<and> same_session r r1 \<and>
        (ordinary type \<longrightarrow> in_step e k s' r1)))"
  proof (intro exI[of _ "link_wire k nk sq (frame (type # data) pad)"] conjI allI impI w)
    fix r rest assume step: "in_step e k s r" and r: "waiting r"
      and inp: "contents (s_input (sh_state r)) = link_wire k nk sq (frame (type # data) pad) @ rest"
    define nk' where "nk' = s_newkeys (sh_state r) MODE_IN"
    obtain c0 where rx: "receive_context (sh_state r) = Some c0" "link_rx k e nk' c0"
      and sq: "seqnr (p_read (sh_state r)) = sq" using step by (auto simp: in_step_def nk'_def sq_def)
    note agree = link_agree[OF c(2)[folded nk_def] rx(2)]
    have st: "\<not> s_mux (sh_state r)" "packet_discard (sh_state r) = 0" "recv_ok (incoming_packet (sh_state r))"
      "wf_sshbuf (s_input (sh_state r))" "packlen (sh_state r) = 0"
      "packets (p_read (sh_state r)) + 1 \<noteq> 0" "seqnr (p_read (sh_state r)) + 1 \<noteq> 0"
      using r by (simp_all add: waiting_def Let_def)
    obtain r1 c1 where r1: "ssh_packet_read_poll2 e r = pbind (finish_read e type) (\<lambda>_. pret (type, Some sq)) r1"
      "contents (incoming_packet (sh_state r1)) = data" "contents (s_input (sh_state r1)) = rest"
      "receive_context (sh_state r1) = Some c1" "link_rx k e nk' c1" "seqnr (p_read (sh_state r1)) = sq + 1"
      "s_newkeys (sh_state r1) MODE_IN = nk'" "same_session r r1"
      by (rule link.receives[OF nk'_def st(1,2) rx(2,1) mem st(3-5) inp[folded sq agree(3)] pad(1,2) pad(3)[folded agree(1,2)]
          size wf(3) st(6,7), unfolded sq])
    then show "\<exists>r1. ssh_packet_read_poll2 e r = pbind (finish_read e type) (\<lambda>_. pret (type, Some (seqnr (p_send (sh_state s))))) r1 \<and>
        contents (incoming_packet (sh_state r1)) = data \<and> contents (s_input (sh_state r1)) = rest \<and> same_session r r1 \<and>
        (ordinary type \<longrightarrow> in_step e k s' r1)"
      using c' by (intro exI[of _ r1]) (auto simp: in_step_def sq_def)
  qed
qed

section \<open>An instance\<close>

text \<open>Two ends of a connection under the same ChaCha20-Poly1305 key.\<close>

definition toy_key :: "byte list" where
  "toy_key = replicate 32 1 @ replicate 32 2"

definition toy_nk :: newkeys where
  "toy_nk = newkeys_zero\<lparr>nk_enc := (nk_enc newkeys_zero)\<lparr>enc_cipher := Some chacha_cipher, enc_block_size := 8\<rparr>\<rparr>"

definition toy_ctx :: "bool \<Rightarrow> sshcipher_ctx" where
  "toy_ctx enc = projr (cipher_init lc_ok toy_cipher chacha_cipher toy_key 64 None 0 enc)"

definition toy_end :: "sshbuf \<Rightarrow> ssh" where
  "toy_end inp = toy_conn\<lparr>sh_state := (sh_state toy_conn)\<lparr>s_newkeys := (\<lambda>_. Some toy_nk),
     send_context := Some (toy_ctx True), receive_context := Some (toy_ctx False), s_input := inp\<rparr>\<rparr>"

lemma toy_ctx_init:
  obtains p where "chachapoly_keyed (drop 16) toy_key p"
    and "cipher_init lc_ok toy_cipher chacha_cipher toy_key 64 None 0 enc = Inr
      \<lparr>plaintext = has_flag chacha_cipher CFLAG_NONE, encrypt = enc, evp = None, cp_ctx = Some p, cipher = chacha_cipher\<rparr>"
proof -
  obtain p where p: "chachapoly_new lc_ok toy_cipher toy_key 64 = Some p" "chachapoly_keyed (drop 16) toy_key p"
    by (rule chachapoly_new_keyed[OF toy_cipher_chacha20 lc_ok_malloc, of toy_key]) (simp add: toy_key_def, blast)
  then show thesis
    using that[OF p(2)] lc_ok_malloc[of sizeof_sshcipher_ctx] chacha_facts by (auto simp: cipher_init_def Let_def)
qed

lemma toy_ctx_link:
  "aead_ctx enc (toy_stream, toy_key) toy_penv (Some toy_nk) (toy_ctx enc)"
proof -
  obtain p where "chachapoly_keyed (drop 16) toy_key p" "toy_ctx enc = \<lparr>plaintext = has_flag chacha_cipher CFLAG_NONE,
      encrypt = enc, evp = None, cp_ctx = Some p, cipher = chacha_cipher\<rparr>"
    unfolding toy_ctx_def by (rule toy_ctx_init[of enc]) simp
  moreover have "evp_chacha20 (e_ev toy_penv) toy_stream (drop 16)" using toy_cipher_chacha20 by (simp add: toy_penv_def)
  ultimately show ?thesis by (auto simp: aead_ctx_def toy_nk_def newkeys_zero_def)
qed

lemma toy_conn_idle:
  "s_output (sh_state toy_conn) = buf0" "incoming_packet (sh_state toy_conn) = buf0" "extra_pad (sh_state toy_conn) = 0"
  "p_send (sh_state toy_conn) = packet_state_zero" "p_read (sh_state toy_conn) = packet_state_zero"
  "packet_discard (sh_state toy_conn) = 0" "packlen (sh_state toy_conn) = 0"
  "\<not> after_authentication (sh_state toy_conn)" "dispatch_skip_packets toy_conn = 0"
  "\<exists>c. send_context (sh_state toy_conn) = Some c \<and> plain_ctx () toy_penv None c"
  "\<exists>c. receive_context (sh_state toy_conn) = Some c \<and> plain_ctx () toy_penv None c"
proof -
  obtain k where k: "kex_new lc_ok = Some k" by (rule toy_kex)
  obtain p q where "malloc lc_ok sizeof_ssh = Some p" "malloc lc_ok sizeof_session_state = Some q"
    using lc_ok_malloc by blast
  then show "s_output (sh_state toy_conn) = buf0" "incoming_packet (sh_state toy_conn) = buf0"
    "extra_pad (sh_state toy_conn) = 0" "p_send (sh_state toy_conn) = packet_state_zero"
    "p_read (sh_state toy_conn) = packet_state_zero" "packet_discard (sh_state toy_conn) = 0" "packlen (sh_state toy_conn) = 0"
    "\<not> after_authentication (sh_state toy_conn)" "dispatch_skip_packets toy_conn = 0"
    "\<exists>c. send_context (sh_state toy_conn) = Some c \<and> plain_ctx () toy_penv None c"
    "\<exists>c. receive_context (sh_state toy_conn) = Some c \<and> plain_ctx () toy_penv None c"
    using k none_cipher_facts by (simp_all add: plain_ctx_def toy_conn_def ssh_packet_set_connection_def ssh_alloc_session_state_def toy_lc
        sshbuf_new_ok none_cipher_name none_init)
qed

lemma toy_start:
  assumes "outgoing_packet (sh_state s) = buf0"
  obtains b where "snd (sshpkt_start toy_penv type s) = s\<lparr>sh_state := (sh_state s)\<lparr>outgoing_packet := b\<rparr>\<rparr>"
    and "wf_sshbuf b" and "writable b" and "261 \<le> b_max_size b" and "contents b = [0, 0, 0, 0, 0, type]"
proof -
  define b0 where "b0 = sshbuf_reset lc_ok buf0"
  have "recv_ok buf0" using buf0_wf by (simp add: recv_ok_def buf0_def PACKET_MAX_SIZE_def SSHBUF_SIZE_MAX_def)
  then have b0: "wf_sshbuf b0" "writable b0" "PACKET_MAX_SIZE + 4 \<le> b_max_size b0" "contents b0 = []"
    using recv_reset[of buf0 lc_ok] by (auto simp: recv_ok_def b0_def)
  have "length [0, 0, 0, 0, 0, type] + length (contents b0) \<le> b_max_size b0"
    unfolding b0(4) using b0(3) by (simp add: PACKET_MAX_SIZE_def)
  from put_fits[OF b0(1) lc_ok_malloc b0(2) this] obtain b where
    b: "sshbuf_put lc_ok [0, 0, 0, 0, 0, type] b0 = (Inr (), b)" "wf_sshbuf b" "writable b" "b_max_size b = b_max_size b0"
      "contents b = contents b0 @ [0, 0, 0, 0, 0, type]" by auto
  show thesis
    by (rule that[of b]) (use b b0 assms in \<open>simp_all add: sshpkt_start_def on_defs zoom_def toy_lc b0_def
      PACKET_MAX_SIZE_def\<close>)
qed

end
