(* ===== verification/Roundtrip.thy ===== *)
theory Roundtrip
  imports Framing
begin

text \<open>
  What a packet that one side sends leaves at the other: the end of reading, which may start a new key
  exchange, changes nothing of what has been read.
\<close>

section \<open>What starting a key exchange leaves alone\<close>

text \<open>The packet that has been read, and with \<open>full\<close> also what reading the next one depends on.\<close>

definition read_view :: "bool \<Rightarrow> session_state \<Rightarrow>
    sshbuf \<times> sshbuf \<times> 32 word \<times> (sshcipher_ctx option \<times> newkeys option \<times> 32 word) option" where
  "read_view full st = (s_input st, incoming_packet st, packlen st,
     if full then Some (receive_context st, s_newkeys st MODE_IN, seqnr (p_read st)) else None)"

abbreviation shows_view :: "bool \<Rightarrow>
    sshbuf \<times> sshbuf \<times> 32 word \<times> (sshcipher_ctx option \<times> newkeys option \<times> 32 word) option \<Rightarrow> ssh \<Rightarrow> bool" where
  "shows_view full v s \<equiv> read_view full (sh_state s) = v"

named_theorems read_keeps \<open>processes that leave the reading side alone\<close>

lemma read_keeps_set [read_keeps]:
  "(\<And>st. read_view full (f st) = read_view full st) \<Longrightarrow> pkeeps (shows_view full v) (set_state f)"
  by (auto simp: pkeeps_def set_state_def proc_simps)

lemma read_keeps_parts [read_keeps]:
  "pkeeps (shows_view full v) (of_op (on_output f1))" "pkeeps (shows_view full v) (of_op (on_outgoing f2))"
  "pkeeps (shows_view full v) (on_kex f3)" "pkeeps (shows_view full v) (on_compression f4)"
  "pkeeps (shows_view full v) (on_context MODE_OUT f5)" "pkeeps (shows_view full v) (on_mac MODE_OUT f6)"
  "pkeeps (shows_view full v) (arc4random_buf e n)" "pkeeps (shows_view full v) (monotime e)"
  "pkeeps (shows_view full v) (of_op (on_state (choose_padding bs len)))"
  by (auto simp: pkeeps_def read_view_def on_newkeys_def on_mac_def on_kex_def on_compression_def on_defs proc_simps
      on_context_def arc4random_buf_def monotime_def choose_padding_def op_simps Let_def
      split: option.splits prod.splits if_splits)

lemma compress_loop_view:
  assumes "compress_loop e inp s = Some y"
  shows "read_view full (sh_state (snd y)) = read_view full (sh_state s)"
proof (rule compress_loop.raw_induct[where P = "\<lambda>e inp s y. read_view full (sh_state (snd y)) = read_view full (sh_state s)",
      OF _ assms])
  fix loop e inp s y
  assume IH: "\<And>e inp s y. loop e inp s = Some y \<Longrightarrow> read_view full (sh_state (snd y)) = read_view full (sh_state s)"
    and run: "(case deflate (e_z e) (compression_out_stream (sh_state s)) inp 4096 of
        (status, out, used, z) \<Rightarrow>
          (let s1 = s\<lparr>sh_state := (sh_state s)\<lparr>compression_out_stream := z\<rparr>\<rparr>
           in if status = Z_MEM_ERROR then Some (Inl SSH_ERR_ALLOC_FAIL, s1)
              else if status = Z_OK then
                (case on_compression (sshbuf_put (e_lc e) out) s1 of
                   None \<Rightarrow> None
                 | Some (r, s2) \<Rightarrow>
                     (case r of
                        Inl er \<Rightarrow> Some (Inl er, s2)
                      | Inr _ \<Rightarrow> if 4096 - length out = 0 then loop e (drop used inp) s2
                                 else Some (Inr (), s2)))
              else Some (Inl SSH_ERR_INVALID_FORMAT, s1\<lparr>sh_state := (sh_state s1)
                \<lparr>compression_out_failures := compression_out_failures (sh_state s1) + 1\<rparr>\<rparr>))) = Some y"
  obtain status out used z where d: "deflate (e_z e) (compression_out_stream (sh_state s)) inp 4096 = (status, out, used, z)"
    by (metis prod_cases4)
  have put: "read_view full (sh_state s2) = read_view full (sh_state s)"
    if "on_compression (sshbuf_put (e_lc e) out) (s\<lparr>sh_state := (sh_state s)\<lparr>compression_out_stream := z\<rparr>\<rparr>) = Some (r, s2)" for r s2
    using pkeepsD[OF read_keeps_parts(4) refl that] by (simp add: read_view_def)
  have upd: "read_view full (st\<lparr>compression_out_stream := z\<rparr>) = read_view full st"
    "read_view full (st\<lparr>compression_out_failures := n\<rparr>) = read_view full st" for st n
    by (simp_all add: read_view_def)
  show "read_view full (sh_state (snd y)) = read_view full (sh_state s)"
  proof (cases "on_compression (sshbuf_put (e_lc e) out) (s\<lparr>sh_state := (sh_state s)\<lparr>compression_out_stream := z\<rparr>\<rparr>)")
    case None
    then show ?thesis using run unfolding d by (auto simp: Let_def upd split: if_splits)
  next
    case (Some p)
    obtain r s2 where p: "p = (r, s2)" by fastforce
    show ?thesis
      using run put[OF Some[unfolded p]] unfolding d
      by (auto simp: Some p Let_def upd dest!: IH split: if_splits sum.splits)
  qed
qed

lemma compress_view [read_keeps]: "pkeeps (shows_view full v) (compress_outgoing e)"
proof -
  have b: "pkeeps (shows_view full v) (compress_buffer e)"
    by (rule pkeepsI) (auto simp: compress_buffer_def Let_def proc_basic dest: compress_loop_view split: if_splits)
  have p: "pkeeps (shows_view full v) (\<lambda>s. of_op (sshpkt_putb e (compression_buffer (sh_state s))) s)"
    by (rule pkeepsI, unfold sshpkt_putb_def) (rule pkeepsD[OF read_keeps_parts(2)])
  show ?thesis
    unfolding compress_outgoing_def sshpkt_put_def by (intro pkeeps_bind read_keeps b p)
qed

text \<open>For bodies that look at the state first.\<close>

lemma pkeeps_bindD:
  "pkeeps P m \<Longrightarrow> (\<And>x. pkeeps P (f x)) \<Longrightarrow> P s \<Longrightarrow> pbind m f s = Some (r, s') \<Longrightarrow> P s'"
  by (rule pkeepsD[OF pkeeps_bind])

lemma pbind_cases:
  assumes "pbind m f s = Some (r, s')"
  obtains (stop) er where "m s = Some (Inl er, s')" "r = Inl er" | (go) x t where "m s = Some (Inr x, t)" "f x t = Some (r, s')"
  using assms by (auto simp: pbind_def split: option.splits prod.splits sum.splits)

lemma pkeeps_if_here: "pkeeps P m \<Longrightarrow> pkeeps P n \<Longrightarrow> pkeeps P (\<lambda>s. if c s then m s else n s)"
  unfolding pkeeps_def by metis

lemma pad_view [read_keeps]: "pkeeps (shows_view full v) (pad_outgoing e nk)"
proof (rule pkeepsI)
  fix s r s' assume s: "shows_view full v s" and run: "pad_outgoing e nk s = Some (r, s')"
  have m: "pkeeps (shows_view full v) (\<lambda>s. if sshbuf_mutable_ptr (outgoing_packet (sh_state s)) = None
      then perr SSH_ERR_INTERNAL_ERROR s else of_op (on_outgoing f) s)" for f :: "(sshbuf, unit) op"
    by (rule pkeeps_if_here) (intro pkeeps_basic read_keeps)+
  show "shows_view full v s'"
    by (rule pkeeps_bindD[where P = "shows_view full v", OF _ _ s run[unfolded pad_outgoing_def Let_def]])
      (intro pkeeps_bind pkeeps_if pkeeps_basic read_keeps m)+
qed

lemma seal_view [read_keeps]: "pkeeps (shows_view full v) (seal_outgoing e nk)"
proof (rule pkeepsI)
  fix s r s' assume s: "shows_view full v s" and run: "seal_outgoing e nk s = Some (r, s')"
  show "shows_view full v s'"
    by (rule pkeeps_bindD[where P = "shows_view full v", OF _ _ s run[unfolded seal_outgoing_def Let_def]])
      (intro pkeeps_bind pkeeps_if pkeeps_basic read_keeps out_keeps_when)+
qed

lemma count_sent_view [read_keeps]: "pkeeps (shows_view full v) (count_sent e nk len)"
  by (rule pkeepsI)
    (auto simp: count_sent_def pbind_def set_state_def proc_basic on_defs op_simps read_view_def split: if_splits option.splits)

text \<open>A packet of the key exchange other than NEWKEYS.\<close>

lemma wrapped_view:
  assumes "ssh_packet_send2_wrapped e s = Some (r, s')" and "packet_type (outgoing_packet (sh_state s)) = SSH2_MSG_KEXINIT"
  shows "read_view full (sh_state s') = read_view full (sh_state s)"
proof -
  have "after_sent e SSH2_MSG_KEXINIT = pret ()"
    by (rule ext) (simp add: after_sent_def msg_numbers)
  then have run: "pbind (pwhen (comp_on (s_newkeys (sh_state s) MODE_OUT)) (compress_outgoing e)) (\<lambda>_.
      pbind (pad_outgoing e (s_newkeys (sh_state s) MODE_OUT)) (\<lambda>_.
      pbind (seal_outgoing e (s_newkeys (sh_state s) MODE_OUT)) (\<lambda>len.
      pbind (count_sent e (s_newkeys (sh_state s) MODE_OUT) len) (\<lambda>_. pret ())))) s = Some (r, s')"
    using assms by (simp add: ssh_packet_send2_wrapped_def Let_def split: if_splits)
  show ?thesis
    by (rule pkeeps_bindD[where P = "shows_view full (read_view full (sh_state s))", OF _ _ refl run])
      (intro pkeeps_bind pkeeps_basic read_keeps out_keeps_when)+
qed

lemma mux_view: "pkeeps (shows_view full v) (ssh_packet_send_mux e)"
proof (rule pkeepsI)
  fix s r s' assume s: "shows_view full v s" and run: "ssh_packet_send_mux e s = Some (r, s')"
  have p: "pkeeps (shows_view full v) (\<lambda>s. of_op (on_output (sshbuf_putb (e_lc e) (Some (outgoing_packet (sh_state s))))) s)"
    by (rule pkeepsI) (rule pkeepsD[OF read_keeps_parts(1)])
  have m: "pkeeps (shows_view full v) (pbind (pwhen c (pbind (of_op (on_outgoing f)) (\<lambda>_ s.
      of_op (on_output (sshbuf_putb (e_lc e) (Some (outgoing_packet (sh_state s))))) s))) (\<lambda>_. of_op (on_outgoing g)))" for c f g
    by (intro pkeeps_bind read_keeps out_keeps_when p)
  show "shows_view full v s'"
    using run s pkeepsD[OF m s, of _ _ _ r s']
    by (auto simp: ssh_packet_send_mux_def Let_def proc_basic split: if_splits)
qed

text \<open>The KEXINIT is sent at once, whatever else waits to be sent.\<close>

lemma kexinit_sent_view:
  assumes run: "send_with e (ssh_packet_send2 (Suc n) e) s = Some (r, s')"
    and type: "packet_type (outgoing_packet (sh_state s)) = SSH2_MSG_KEXINIT"
  shows "read_view full (sh_state s') = read_view full (sh_state s)"
proof (cases "s_mux (sh_state s)")
  case True
  then have "ssh_packet_send_mux e s = Some (r, s')" using run by (simp add: send_with_def)
  then show ?thesis using pkeepsD[OF mux_view refl] by simp
next
  case False
  have kex: "ssh_packet_type_is_kex SSH2_MSG_KEXINIT" "SSH2_MSG_KEXINIT \<noteq> SSH2_MSG_NEWKEYS"
    by (simp_all add: ssh_packet_type_is_kex_def msg_numbers)
  define s1 where "s1 = sh_state_update (\<lambda>st. st\<lparr>rekeying := True\<rparr>) s"
  have s1: "read_view full (sh_state s1) = read_view full (sh_state s)"
    "packet_type (outgoing_packet (sh_state s1)) = SSH2_MSG_KEXINIT"
    using type by (simp_all add: s1_def read_view_def)
  have "s' = s \<or> ssh_packet_send2_wrapped e s1 = Some (r, s')"
    using run False type kex
    by (auto simp: send_with_def send2_with_def Let_def pbind_pret pwhen_def set_state_def proc_basic pbind_def
        simp flip: s1_def split: if_splits option.splits sum.splits)
  then show ?thesis using wrapped_view[of e s1 r s' full] s1 by auto
qed

lemma kexinit_tail_view:
  assumes run: "pbind (of_op (sshpkt_start e SSH2_MSG_KEXINIT)) (\<lambda>_.
      pbind (\<lambda>s. of_op (sshpkt_putb e (map_option k_my (sh_kex s))) s) (\<lambda>_.
      pbind (send_with e (ssh_packet_send2 (Suc n) e)) (\<lambda>_. on_kex (modify_op (set_flag KEX_INIT_SENT))))) s = Some (r, s')"
    and v: "shows_view full v s" and good: "good_sshbuf (outgoing_packet (sh_state s))"
  shows "shows_view full v s'"
  using run
proof (cases rule: pbind_cases)
  case (stop er)
  show ?thesis by (rule pkeepsD[OF read_keeps_parts(2) v stop(1)[unfolded sshpkt_start_def]])
next
  case (go u t)
  have t: "shows_view full v t" by (rule pkeepsD[OF read_keeps_parts(2) v go(1)[unfolded sshpkt_start_def]])
  show ?thesis
    using go(2)
  proof (cases rule: pbind_cases)
    case (stop er)
    show ?thesis by (rule pkeepsD[OF read_keeps_parts(2) t stop(1)[unfolded sshpkt_putb_def]])
  next
    case put: (go w t2)
    have t2: "shows_view full v t2" by (rule pkeepsD[OF read_keeps_parts(2) t put(1)[unfolded sshpkt_putb_def]])
    have type: "packet_type (outgoing_packet (sh_state t2)) = SSH2_MSG_KEXINIT"
      using go(1) put(1) good
      by (auto simp: sshpkt_start_def sshpkt_putb_def on_defs zoom_def of_op_Inr dest: start_kexinit split: prod.splits)
    show ?thesis
      using put(2)
    proof (cases rule: pbind_cases)
      case (stop er)
      then show ?thesis using kexinit_sent_view[OF _ type, of e n _ s' full] t2 by simp
    next
      case (go y t3)
      then show ?thesis
        using kexinit_sent_view[OF go(1) type, of full] t2 pkeepsD[OF read_keeps_parts(3) _ go(2)] by simp
    qed
  qed
qed

lemma send_kexinit_view:
  assumes run: "kex_send_kexinit_with e (send_with e (ssh_packet_send2 (Suc n) e)) s = Some (r, s')"
    and good: "good_sshbuf (outgoing_packet (sh_state s))"
  shows "read_view full (sh_state s') = read_view full (sh_state s)"
proof (cases "\<exists>k. sh_kex s = Some k \<and>
    \<not> (kex_flag KEX_INIT_SENT k \<or> sshbuf_len (k_my k) < KEX_COOKIE_LEN \<or> sshbuf_mutable_ptr (k_my k) = None)")
  case False
  then show ?thesis using run
    by (auto simp: kex_send_kexinit_with_def proc_basic pbind_def on_kex_def op_simps split: if_splits option.splits)
next
  case True
  define Q where "Q t \<longleftrightarrow> shows_view full (read_view full (sh_state s)) t \<and> good_sshbuf (outgoing_packet (sh_state t))" for t
  have parts: "pkeeps Q (on_kex f)" "pkeeps Q (arc4random_buf e m)" for f :: "(kex, unit) op" and m
    by (auto simp: Q_def pkeeps_def on_kex_def arc4random_buf_def split: option.splits prod.splits)
  define start :: "(ssh, unit) proc" where "start = pbind (on_kex (modify_op (\<lambda>k. k\<lparr>k_done := False\<rparr>))) (\<lambda>_.
    pbind (arc4random_buf e KEX_COOKIE_LEN) (\<lambda>cookie.
    on_kex (modify_op (\<lambda>k. k\<lparr>k_my := mem_write (b_off (k_my k)) cookie (k_my k)\<rparr>))))"
  have start: "pkeeps Q start" unfolding start_def by (intro pkeeps_bind parts)
  have Q: "Q s" using good by (simp add: Q_def)
  have "pbind start (\<lambda>_. pbind (of_op (sshpkt_start e SSH2_MSG_KEXINIT)) (\<lambda>_.
      pbind (\<lambda>s. of_op (sshpkt_putb e (map_option k_my (sh_kex s))) s) (\<lambda>_.
      pbind (send_with e (ssh_packet_send2 (Suc n) e)) (\<lambda>_. on_kex (modify_op (set_flag KEX_INIT_SENT)))))) s = Some (r, s')"
    using run True by (auto simp: kex_send_kexinit_with_def start_def pbind_assoc simp del: ssh_packet_send2.simps)
  then show ?thesis
  proof (cases rule: pbind_cases)
    case (stop er)
    then show ?thesis using pkeepsD[OF start Q] by (simp add: Q_def)
  next
    case (go x t)
    show ?thesis using pkeepsD[OF start Q go(1)] kexinit_tail_view[OF go(2)] by (simp add: Q_def)
  qed
qed

lemma start_rekex_view:
  assumes "kex_start_rekex e s = Some (r, s')" and "good_sshbuf (outgoing_packet (sh_state s))"
  shows "read_view full (sh_state s') = read_view full (sh_state s)"
proof (cases "\<exists>k. sh_kex s = Some k \<and> k_done k")
  case False
  then show ?thesis using assms(1)
    by (auto simp: kex_start_rekex_def kex_start_rekex_with_def proc_basic split: option.splits)
next
  case True
  then obtain k where "sh_kex s = Some k" "k_done k" by blast
  then have "kex_send_kexinit_with e (send_with e (ssh_packet_send2 (Suc 1) e)) (s\<lparr>sh_kex := Some (k\<lparr>k_done := False\<rparr>)\<rparr>) = Some (r, s')"
    using assms(1) by (simp add: kex_start_rekex_def kex_start_rekex_with_def sshpkt_send_def SEND_DEPTH_def numeral_2_eq_2
        pbind_def on_kex_def op_simps proc_basic del: ssh_packet_send2.simps)
  from send_kexinit_view[OF this] assms(2) show ?thesis by simp
qed

section \<open>The end of reading a packet\<close>

lemma check_rekey_view:
  assumes "ssh_packet_check_rekey e s = Some (r, s')" and good: "good_sshbuf (outgoing_packet (sh_state s))"
  shows "read_view full (sh_state s') = read_view full (sh_state s)"
proof -
  have need: "sh_state t = sh_state s" if "ssh_packet_need_rekeying e 0 s = Some (x, t)" for x t
    using that by (auto simp: ssh_packet_need_rekeying_def Let_def pbind_def monotime_def proc_basic split: if_splits)
  have pre: "t = s" if "of_op ssh_packet_check_rekey_preauth s = Some (x, t)" for x t
    using that by (auto simp: ssh_packet_check_rekey_preauth_def op_simps proc_basic split: if_splits)
  show ?thesis
    using assms(1) unfolding ssh_packet_check_rekey_def
  proof (cases rule: pbind_cases)
    case (stop er)
    then show ?thesis using pre by blast
  next
    case (go x t)
    have "pbind (ssh_packet_need_rekeying e 0) (\<lambda>need. if need then kex_start_rekex e else pret ()) s = Some (r, s')"
      using go pre by blast
    then show ?thesis
    proof (cases rule: pbind_cases)
      case (stop er)
      then show ?thesis using need by simp
    next
      case (go n t)
      then show ?thesis
        using need[OF go(1)] start_rekex_view[of e t r s' full] good by (auto simp: proc_basic split: if_splits)
    qed
  qed
qed

lemma delayed_view:
  "pkeeps (\<lambda>s. read_view False (sh_state s) = v \<and> outgoing_packet (sh_state s) = b) (ssh_packet_enable_delayed_compress e)"
proof -
  let ?P = "\<lambda>s. read_view False (sh_state s) = v \<and> outgoing_packet (sh_state s) = b"
  have set: "pkeeps ?P (set_state f)"
    if "\<And>st. read_view False (f st) = read_view False st" "\<And>st. outgoing_packet (f st) = outgoing_packet st" for f
    using that by (auto simp: pkeeps_def set_state_def proc_simps)
  have nk: "pkeeps ?P (on_newkeys m f)" for m and f :: "(newkeys, unit) op"
    by (auto simp: pkeeps_def on_newkeys_def read_view_def split: option.splits prod.splits)
  have init: "pkeeps ?P (ssh_packet_init_compression e)"
    by (auto simp: pkeeps_def read_view_def ssh_packet_init_compression_def set_state_def proc_simps split: option.splits if_splits)
  have streams: "pkeeps ?P (start_compression_out e l)" "pkeeps ?P (start_compression_in e)" for l
    unfolding start_compression_out_def start_compression_in_def split_def
    by (intro pkeeps_rules set; simp add: read_view_def)+
  have d: "pkeeps ?P (start_delayed e m)" for m
    unfolding start_delayed_def by (intro pkeeps_rules init streams nk)
  show ?thesis
    unfolding ssh_packet_enable_delayed_compress_def
    by (intro pkeeps_bind set pkeeps_when_here d) (simp_all add: read_view_def)
qed

lemma finish_read_view:
  assumes run: "finish_read e type s = Some (res, s')" and good: "good_sshbuf (outgoing_packet (sh_state s))"
  shows "s_input (sh_state s') = s_input (sh_state s) \<and> incoming_packet (sh_state s') = incoming_packet (sh_state s) \<and>
    packlen (sh_state s') = 0"
proof -
  obtain t where t: "read_view False (sh_state t) = read_view False (sh_state s)"
      "outgoing_packet (sh_state t) = outgoing_packet (sh_state s)"
    and rest: "pbind (set_state (\<lambda>st. st\<lparr>packlen := 0\<rparr>)) (\<lambda>_.
      pbind (\<lambda>s. if type = SSH2_MSG_NEWKEYS then
          (case sh_kex s of None \<Rightarrow> None
           | Some k \<Rightarrow> pwhen (kex_strict k) (set_state (p_read_update (seqnr_update (\<lambda>_. 0)))) s)
          else pret () s) (\<lambda>_. ssh_packet_check_rekey e)) t = Some (res, s')"
    using run unfolding finish_read_def
  proof (cases rule: pbind_cases)
    case (stop er)
    then show ?thesis by (auto simp: proc_basic split: if_splits)
  next
    case (go x t)
    then have "read_view False (sh_state t) = read_view False (sh_state s) \<and>
        outgoing_packet (sh_state t) = outgoing_packet (sh_state s)"
      using pkeepsD[OF delayed_view, of s "read_view False (sh_state s)" "outgoing_packet (sh_state s)" e]
      by (auto simp: proc_basic split: if_splits)
    then show ?thesis using that go(2) by blast
  qed
  define t1 where "t1 = sh_state_update (\<lambda>st. st\<lparr>packlen := 0\<rparr>) t"
  have "\<exists>t2. ssh_packet_check_rekey e t2 = Some (res, s') \<and> read_view False (sh_state t2) = read_view False (sh_state t1) \<and>
      outgoing_packet (sh_state t2) = outgoing_packet (sh_state t1)"
    using rest by (auto simp: t1_def set_state_def pbind_def proc_basic pwhen_def read_view_def split: if_splits option.splits)
  then obtain t2 where check: "ssh_packet_check_rekey e t2 = Some (res, s')"
    and t2: "read_view False (sh_state t2) = read_view False (sh_state t1)"
      "outgoing_packet (sh_state t2) = outgoing_packet (sh_state t1)" by blast
  have "read_view False (sh_state s') = read_view False (sh_state t1)"
    using check_rekey_view[OF check, of False] t2 t(2) good by (simp add: t1_def)
  then show ?thesis using t(1) by (simp add: read_view_def t1_def)
qed

text \<open>An ordinary packet: whether new keys are due is looked up, before or after authentication.\<close>

lemma finish_ordinary:
  assumes "ordinary type"
  shows "finish_read e type s = ssh_packet_check_rekey e (sh_state_update (\<lambda>st. st\<lparr>packlen := 0\<rparr>) s)"
  using assms by (simp add: finish_read_def ordinary_def pbind_def set_state_def proc_basic)

lemma check_rekey_outcome:
  "if \<not> after_authentication (sh_state s)
   then ssh_packet_check_rekey e s =
     Some (if ssh_packet_check_rekey_blocklimit 0 True s then Inl SSH_ERR_NEED_REKEY else Inr (), s)
   else \<exists>need t. ssh_packet_need_rekeying e 0 s = Some (Inr need, t) \<and> sh_state t = sh_state s \<and>
     ssh_packet_check_rekey e s = (if need then kex_start_rekex e t else Some (Inr (), t))"
proof (cases "after_authentication (sh_state s)")
  case False
  then show ?thesis
    by (simp add: ssh_packet_check_rekey_def ssh_packet_check_rekey_preauth_def ssh_packet_need_rekeying_def
        Let_def pbind_def proc_simps op_simps)
next
  case True
  have "\<exists>need t. ssh_packet_need_rekeying e 0 s = Some (Inr need, t) \<and> sh_state t = sh_state s"
    by (auto simp: ssh_packet_need_rekeying_def Let_def pbind_def monotime_def proc_basic)
  then obtain need t where n: "ssh_packet_need_rekeying e 0 s = Some (Inr need, t)" "sh_state t = sh_state s" by blast
  moreover have "ssh_packet_check_rekey e s = (if need then kex_start_rekex e t else Some (Inr (), t))"
    using True n(1)
    by (simp add: ssh_packet_check_rekey_def ssh_packet_check_rekey_preauth_def pbind_def proc_simps op_simps)
  ultimately show ?thesis using True by auto
qed

section \<open>Property\<close>

text \<open>A packet has been read: its payload, what follows it in the input, and the state between packets.\<close>

definition delivered :: "byte list \<Rightarrow> byte list \<Rightarrow> ssh \<Rightarrow> bool" where
  "delivered data rest r \<longleftrightarrow>
     contents (incoming_packet (sh_state r)) = data \<and> contents (s_input (sh_state r)) = rest \<and> packlen (sh_state r) = 0"

text \<open>What \<^verbatim>\<open>ssh_packet_read_poll2\<close> does with a packet, given what the first part of it leaves.\<close>

lemma read_outcome:
  assumes read: "ssh_packet_read_poll2 e r = pbind (finish_read e type) (\<lambda>_. pret (type, Some sq)) r1"
    and r1: "contents (incoming_packet (sh_state r1)) = data" "contents (s_input (sh_state r1)) = rest" "same_session r r1"
      "ordinary type \<Longrightarrow> in_step e k s' r1"
    and good: "good_sshbuf (outgoing_packet (sh_state r))"
    and run: "ssh_packet_read_poll2 e r = Some (res, r')"
  shows "delivered data rest r' \<and> (ordinary type \<longrightarrow> in_step e k s' r') \<and> (res = Inr (type, Some sq) \<or> isl res)"
proof -
  have good1: "good_sshbuf (outgoing_packet (sh_state r1))" using good r1(3) by (simp add: same_session_def)
  obtain x where fin: "finish_read e type r1 = Some (x, r')" and res: "res = Inr (type, Some sq) \<or> isl res"
    using run unfolding read by (cases rule: pbind_cases) (auto simp: proc_basic)
  have "in_step e k s' r'" if ord: "ordinary type"
  proof -
    have check: "ssh_packet_check_rekey e (sh_state_update (\<lambda>st. st\<lparr>packlen := 0\<rparr>) r1) = Some (x, r')"
      using fin finish_ordinary[OF ord] by simp
    have "read_view True (sh_state r') = read_view True ((sh_state r1)\<lparr>packlen := 0\<rparr>)"
      using check_rekey_view[OF check, of True] good1 by simp
    then show ?thesis using r1(4)[OF ord] by (auto simp: in_step_def read_view_def)
  qed
  then show ?thesis using finish_read_view[OF fin good1] r1 res by (auto simp: delivered_def)
qed

lemma ordinary_outcome:
  assumes read: "ssh_packet_read_poll2 e r = pbind (finish_read e type) (\<lambda>_. pret (type, Some sq)) r1"
    and r1: "contents (incoming_packet (sh_state r1)) = data" "contents (s_input (sh_state r1)) = rest" "same_session r r1"
      "in_step e k s' r1" and ord: "ordinary type"
  shows "\<exists>r2. delivered data rest r2 \<and> in_step e k s' r2 \<and> same_session r r2 \<and>
    (if \<not> after_authentication (sh_state r)
     then ssh_packet_read_poll2 e r =
       Some (if ssh_packet_check_rekey_blocklimit 0 True r2 then Inl SSH_ERR_NEED_REKEY else Inr (type, Some sq), r2)
     else \<exists>need r3. ssh_packet_need_rekeying e 0 r2 = Some (Inr need, r3) \<and> sh_state r3 = sh_state r2 \<and>
       ssh_packet_read_poll2 e r =
         (if need then pbind (kex_start_rekex e) (\<lambda>_. pret (type, Some sq)) r3 else Some (Inr (type, Some sq), r3)))"
proof (intro exI[of _ "sh_state_update (\<lambda>st. st\<lparr>packlen := 0\<rparr>) r1"] conjI)
  let ?r2 = "sh_state_update (\<lambda>st. st\<lparr>packlen := 0\<rparr>) r1"
  show "delivered data rest ?r2" "in_step e k s' ?r2" "same_session r ?r2"
    using r1 by (simp_all add: delivered_def in_step_def same_session_def)
  have auth: "after_authentication (sh_state ?r2) = after_authentication (sh_state r)"
    using r1(3) by (simp add: same_session_def)
  have eq: "ssh_packet_read_poll2 e r = pbind (ssh_packet_check_rekey e) (\<lambda>_. pret (type, Some sq)) ?r2"
    unfolding read by (simp add: pbind_def finish_ordinary[OF ord])
  show "if \<not> after_authentication (sh_state r)
     then ssh_packet_read_poll2 e r =
       Some (if ssh_packet_check_rekey_blocklimit 0 True ?r2 then Inl SSH_ERR_NEED_REKEY else Inr (type, Some sq), ?r2)
     else \<exists>need r3. ssh_packet_need_rekeying e 0 ?r2 = Some (Inr need, r3) \<and> sh_state r3 = sh_state ?r2 \<and>
       ssh_packet_read_poll2 e r =
         (if need then pbind (kex_start_rekex e) (\<lambda>_. pret (type, Some sq)) r3 else Some (Inr (type, Some sq), r3))"
  proof (cases "after_authentication (sh_state r)")
    case False
    then show ?thesis using check_rekey_outcome[of ?r2 e] auth unfolding eq by (simp add: pbind_def proc_basic)
  next
    case True
    then obtain need r3 where n: "ssh_packet_need_rekeying e 0 ?r2 = Some (Inr need, r3)" "sh_state r3 = sh_state ?r2"
      "ssh_packet_check_rekey e ?r2 = (if need then kex_start_rekex e r3 else Some (Inr (), r3))"
      using check_rekey_outcome[of ?r2 e] auth by auto
    then have "pbind (ssh_packet_check_rekey e) (\<lambda>_. pret (type, Some sq)) ?r2 =
        (if need then pbind (kex_start_rekex e) (\<lambda>_. pret (type, Some sq)) r3 else Some (Inr (type, Some sq), r3))"
      by (simp add: pbind_def proc_basic)
    then show ?thesis using n(1,2) True unfolding eq by (subst if_not_P) blast+
  qed
qed

text \<open>The two together: what becomes of the packet at the receiver \<open>r\<close> when the sender goes on as \<open>s'\<close>.\<close>

definition arrives :: "penv \<Rightarrow> link \<Rightarrow> ssh \<Rightarrow> byte \<Rightarrow> 32 word \<Rightarrow> byte list \<Rightarrow> byte list \<Rightarrow> ssh \<Rightarrow> bool" where
  "arrives e k s' type sq data rest r \<longleftrightarrow>
     (\<forall>res r'. ssh_packet_read_poll2 e r = Some (res, r') \<longrightarrow>
        delivered data rest r' \<and> (ordinary type \<longrightarrow> in_step e k s' r') \<and> (res = Inr (type, Some sq) \<or> isl res)) \<and>
     (ordinary type \<longrightarrow> (\<exists>r2. delivered data rest r2 \<and> in_step e k s' r2 \<and> same_session r r2 \<and>
        (if \<not> after_authentication (sh_state r)
         then ssh_packet_read_poll2 e r =
           Some (if ssh_packet_check_rekey_blocklimit 0 True r2 then Inl SSH_ERR_NEED_REKEY else Inr (type, Some sq), r2)
         else \<exists>need r3. ssh_packet_need_rekeying e 0 r2 = Some (Inr need, r3) \<and> sh_state r3 = sh_state r2 \<and>
           ssh_packet_read_poll2 e r =
             (if need then pbind (kex_start_rekex e) (\<lambda>_. pret (type, Some sq)) r3 else Some (Inr (type, Some sq), r3)))))"

lemma packet_arrives:
  assumes "\<And>n. malloc (e_lc e) n \<noteq> None" and "send_context (sh_state s) = Some c"
    and "link_tx k e (s_newkeys (sh_state s) MODE_OUT) c" and "composed type data s"
    and "ssh_packet_send2_wrapped e s = Some (Inr (), s')"
  shows "\<exists>w. contents (s_output (sh_state s')) = contents (s_output (sh_state s)) @ w \<and>
    (\<forall>r rest. in_step e k s r \<and> waiting r \<and> good_sshbuf (outgoing_packet (sh_state r)) \<and>
        contents (s_input (sh_state r)) = w @ rest \<longrightarrow> arrives e k s' type (seqnr (p_send (sh_state s))) data rest r)"
proof -
  let ?sq = "seqnr (p_send (sh_state s))"
  obtain w where w: "contents (s_output (sh_state s')) = contents (s_output (sh_state s)) @ w"
    and r1: "\<And>r rest. in_step e k s r \<Longrightarrow> waiting r \<Longrightarrow> contents (s_input (sh_state r)) = w @ rest \<Longrightarrow>
      \<exists>r1. ssh_packet_read_poll2 e r = pbind (finish_read e type) (\<lambda>_. pret (type, Some ?sq)) r1 \<and>
        contents (incoming_packet (sh_state r1)) = data \<and> contents (s_input (sh_state r1)) = rest \<and> same_session r r1 \<and>
        (ordinary type \<longrightarrow> in_step e k s' r1)"
    using link_received(3)[OF assms] by blast
  have "arrives e k s' type ?sq data rest r"
    if r: "in_step e k s r" "waiting r" "good_sshbuf (outgoing_packet (sh_state r))" "contents (s_input (sh_state r)) = w @ rest"
    for r rest
  proof -
    obtain r1 where read: "ssh_packet_read_poll2 e r = pbind (finish_read e type) (\<lambda>_. pret (type, Some ?sq)) r1"
      "contents (incoming_packet (sh_state r1)) = data" "contents (s_input (sh_state r1)) = rest" "same_session r r1"
      and step: "ordinary type \<Longrightarrow> in_step e k s' r1" using r1[OF r(1,2,4)] by blast
    show ?thesis
      unfolding arrives_def
      by (intro conjI allI impI, rule read_outcome[OF read step r(3), THEN conjunct1], assumption+,
          rule read_outcome[OF read step r(3), THEN conjunct2, THEN conjunct1, rule_format], assumption+,
          rule read_outcome[OF read step r(3), THEN conjunct2, THEN conjunct2], assumption+,
          rule ordinary_outcome[OF read step], assumption+)
  qed
  then show ?thesis using w by blast
qed

text \<open>
  C38. What one side sends, the other reads, in the clear and under ChaCha20-Poly1305, where the length,
  the padding and the tag all go through the cipher. With memory, \<^verbatim>\<open>ssh_packet_send2_wrapped\<close> sends a
  composed packet; it always succeeds unless the message is NEWKEYS or USERAUTH_SUCCESS, which go on to
  change keys or start compression. The output grows by bytes from which \<^verbatim>\<open>ssh_packet_read_poll2\<close> of a
  peer that is in step and waits for a packet reads the message. Whenever that call returns, the
  payload is in the incoming packet, exactly the bytes of the packet have been consumed, the length is
  reset for the next one, the result, if it is no error, is the type and the sequence number, and for
  all but those two messages both sides are in step again. For these the call does return that result,
  unless new keys are due: before authentication, exceeding the hard limit of the keys is the error
  NEED_REKEY, and afterwards a key exchange is started first, which does not touch what has been read.
\<close>

theorem packet_roundtrip:
  assumes "\<And>n. malloc (e_lc e) n \<noteq> None" and "send_context (sh_state s) = Some c"
    and "link_tx k e (s_newkeys (sh_state s) MODE_OUT) c" and "composed type data s"
  shows "(ordinary type \<longrightarrow> (\<exists>s'. ssh_packet_send2_wrapped e s = Some (Inr (), s'))) \<and>
    (\<forall>s'. ssh_packet_send2_wrapped e s = Some (Inr (), s') \<longrightarrow> wf_sshbuf (s_output (sh_state s')) \<and>
      (\<exists>w. contents (s_output (sh_state s')) = contents (s_output (sh_state s)) @ w \<and>
       (\<forall>r rest. in_step e k s r \<and> waiting r \<and> good_sshbuf (outgoing_packet (sh_state r)) \<and>
           contents (s_input (sh_state r)) = w @ rest \<longrightarrow>
         (\<forall>res r'. ssh_packet_read_poll2 e r = Some (res, r') \<longrightarrow>
            delivered data rest r' \<and> (ordinary type \<longrightarrow> in_step e k s' r') \<and>
            (res = Inr (type, Some (seqnr (p_send (sh_state s)))) \<or> isl res)) \<and>
         (ordinary type \<longrightarrow> (\<exists>r2. delivered data rest r2 \<and> in_step e k s' r2 \<and> same_session r r2 \<and>
            (if \<not> after_authentication (sh_state r)
             then ssh_packet_read_poll2 e r =
               Some (if ssh_packet_check_rekey_blocklimit 0 True r2 then Inl SSH_ERR_NEED_REKEY
                     else Inr (type, Some (seqnr (p_send (sh_state s)))), r2)
             else \<exists>need r3. ssh_packet_need_rekeying e 0 r2 = Some (Inr need, r3) \<and> sh_state r3 = sh_state r2 \<and>
               ssh_packet_read_poll2 e r =
                 (if need then pbind (kex_start_rekex e) (\<lambda>_. pret (type, Some (seqnr (p_send (sh_state s))))) r3
                  else Some (Inr (type, Some (seqnr (p_send (sh_state s)))), r3))))))))"
proof -
  have "\<exists>s'. ssh_packet_send2_wrapped e s = Some (Inr (), s')" if "ordinary type"
    using link_sent[OF assms] that by (auto simp: ordinary_def after_sent_def proc_basic)
  then show ?thesis
    unfolding arrives_def[symmetric] using link_received(1)[OF assms] packet_arrives[OF assms] by blast
qed

theorem packet_roundtrip_witness:
  "let s = snd (sshpkt_start toy_penv SSH2_MSG_IGNORE (toy_end buf0))
   in \<exists>s' res r'. ssh_packet_send2_wrapped toy_penv s = Some (Inr (), s') \<and>
        ssh_packet_read_poll2 toy_penv (toy_end (s_output (sh_state s'))) = Some (res, r') \<and>
        res \<in> {Inr (SSH2_MSG_IGNORE, Some 0), Inl SSH_ERR_NEED_REKEY} \<and> delivered [] [] r' \<and>
        in_step toy_penv (Some (toy_stream, toy_key)) s' r'"
proof -
  obtain b where s: "snd (sshpkt_start toy_penv SSH2_MSG_IGNORE (toy_end buf0)) =
      toy_end buf0\<lparr>sh_state := (sh_state (toy_end buf0))\<lparr>outgoing_packet := b\<rparr>\<rparr>" (is "_ = ?s")
    and b: "wf_sshbuf b" "writable b" "261 \<le> b_max_size b" "contents b = [0, 0, 0, 0, 0, SSH2_MSG_IGNORE]"
    by (rule toy_start[of "toy_end buf0"]) (simp add: toy_end_def toy_conn_fields)
  have max: "b_max_size buf0 = SSHBUF_SIZE_MAX" by (simp add: buf0_def)
  have comp: "composed SSH2_MSG_IGNORE [] ?s"
    using b buf0_wf by (simp add: composed_def Let_def toy_end_def toy_conn_idle packet_state_zero_def max
        SSHBUF_SIZE_MAX_def PACKET_MAX_SIZE_def SSH2_MSG_IGNORE_def del: length_contents)
  have link: "link_tx (Some (toy_stream, toy_key)) toy_penv (s_newkeys (sh_state ?s) MODE_OUT) (toy_ctx True)"
    "send_context (sh_state ?s) = Some (toy_ctx True)" using toy_ctx_link by (simp_all add: toy_end_def)
  have step: "in_step toy_penv (Some (toy_stream, toy_key)) ?s (toy_end inp)" for inp
    using toy_ctx_link by (auto simp: in_step_def toy_end_def toy_conn_idle)
  have wait: "waiting (toy_end inp)" if "wf_sshbuf inp" for inp
    using that buf0_wf by (simp add: waiting_def Let_def toy_end_def toy_conn_idle toy_conn_fields packet_state_zero_def
        recv_ok_def max SSHBUF_SIZE_MAX_def PACKET_MAX_SIZE_def)
  have good: "good_sshbuf (outgoing_packet (sh_state (toy_end inp)))" "\<not> after_authentication (sh_state (toy_end inp))"
    "s_input (sh_state (toy_end inp)) = inp" for inp
    using buf0_wf by (simp_all add: toy_end_def toy_conn_fields toy_conn_idle good_sshbuf_def max SSHBUF_SIZE_MAX_def SSHBUF_SIZE_INIT_def)
  have mem: "\<And>n. malloc (e_lc toy_penv) n \<noteq> None" using lc_ok_malloc by (simp add: toy_lc)
  have ord: "ordinary SSH2_MSG_IGNORE"
    by (simp add: ordinary_def SSH2_MSG_IGNORE_def SSH2_MSG_NEWKEYS_def SSH2_MSG_USERAUTH_SUCCESS_def)
  have clean: "contents (s_output (sh_state ?s)) = []" "seqnr (p_send (sh_state ?s)) = 0"
    using buf0_wf by (simp_all add: toy_end_def toy_conn_idle packet_state_zero_def)
  note trip = packet_roundtrip[OF mem link(2,1) comp, unfolded clean append_Nil]
  obtain s' where s': "ssh_packet_send2_wrapped toy_penv ?s = Some (Inr (), s')" using trip ord by blast
  then have wf: "wf_sshbuf (s_output (sh_state s'))" using trip by blast
  define r where "r = toy_end (s_output (sh_state s'))"
  have "in_step toy_penv (Some (toy_stream, toy_key)) ?s r \<and> waiting r \<and> good_sshbuf (outgoing_packet (sh_state r)) \<and>
      contents (s_input (sh_state r)) = contents (s_output (sh_state s')) @ []"
    using step wait[OF wf] good by (simp add: r_def)
  then obtain r2 where "delivered [] [] r2" "in_step toy_penv (Some (toy_stream, toy_key)) s' r2"
    "ssh_packet_read_poll2 toy_penv r = Some (if ssh_packet_check_rekey_blocklimit 0 True r2 then Inl SSH_ERR_NEED_REKEY
        else Inr (SSH2_MSG_IGNORE, Some 0), r2)"
    using trip s' ord good(2)[of "s_output (sh_state s')", folded r_def] by metis
  then show ?thesis unfolding Let_def s using s' by (auto simp: r_def)
qed

end
