(* ===== verification/PacketState.thy ===== *)
theory PacketState
  imports Transport
begin

unbundle bit_operations_syntax

text \<open>
  The state of a connection as bytes: the functions of \<^verbatim>\<open>packet.c\<close> by which the unprivileged
  process hands an authenticated connection to the process that serves it.
\<close>

section \<open>Writing the state\<close>

definition kex_to_blob :: "libc \<Rightarrow> kex \<Rightarrow> (sshbuf, unit) op" where
  "kex_to_blob lc k =
     bind_op (sshbuf_put_u32 lc (of_nat (we_need k))) (\<lambda>_.
     bind_op (sshbuf_put_cstring lc (map_option bytes_of (hostkey_alg k))) (\<lambda>_.
     bind_op (sshbuf_put_u32 lc (of_int (hostkey_type k))) (\<lambda>_.
     bind_op (sshbuf_put_u32 lc (of_int (hostkey_nid k))) (\<lambda>_.
     bind_op (sshbuf_put_u32 lc (kex_type k)) (\<lambda>_.
     bind_op (sshbuf_put_u32 lc (of_bool (kex_strict k))) (\<lambda>_.
     bind_op (sshbuf_put_stringb lc (Some (k_my k))) (\<lambda>_.
     bind_op (sshbuf_put_stringb lc (Some (k_peer k))) (\<lambda>_.
     bind_op (sshbuf_put_stringb lc (Some (client_version k))) (\<lambda>_.
     bind_op (sshbuf_put_stringb lc (Some (server_version k))) (\<lambda>_.
     bind_op (sshbuf_put_stringb lc (Some (session_id k))) (\<lambda>_.
     sshbuf_put_u32 lc (k_flags k))))))))))))"

definition put_newkeys :: "libc \<Rightarrow> newkeys \<Rightarrow> (sshbuf, unit) op" where
  "put_newkeys lc nk =
     (let en = nk_enc nk; mac = nk_mac nk; comp = nk_comp nk
      in bind_op (sshbuf_put_cstring lc (map_option bytes_of (enc_name en))) (\<lambda>_.
         bind_op (sshbuf_put_u32 lc (of_bool (enc_enabled en))) (\<lambda>_.
         bind_op (sshbuf_put_u32 lc (of_nat (enc_block_size en))) (\<lambda>_.
         bind_op (sshbuf_put_string lc (take (enc_key_len en) (the (enc_key en)))) (\<lambda>_.
         bind_op (sshbuf_put_string lc (take (enc_iv_len en) (the (enc_iv en)))) (\<lambda>_.
         bind_op (when_op (cipher_authlen (the (enc_cipher en)) = 0)
           (bind_op (sshbuf_put_cstring lc (map_option bytes_of (m_name mac))) (\<lambda>_.
            bind_op (sshbuf_put_u32 lc (of_bool (m_enabled mac))) (\<lambda>_.
            sshbuf_put_string lc (take (m_key_len mac) (the (m_key mac))))))) (\<lambda>_.
         bind_op (sshbuf_put_u32 lc (comp_type comp)) (\<lambda>_.
         sshbuf_put_cstring lc (map_option bytes_of (comp_name comp))))))))))"

text \<open>The connection and the buffer that holds the blob.\<close>

definition on_conn :: "(ssh, 'a) proc \<Rightarrow> (ssh \<times> sshbuf, 'a) proc" where
  "on_conn = pzoom fst apfst"

definition on_blob :: "(sshbuf, 'a) op \<Rightarrow> (ssh \<times> sshbuf, 'a) proc" where
  "on_blob m = of_op (zoom snd apsnd m)"

definition newkeys_to_blob :: "penv \<Rightarrow> mode \<Rightarrow> (ssh \<times> sshbuf, unit) proc" where
  "newkeys_to_blob e m sb =
     (case s_newkeys (sh_state (fst sb)) m of
        None \<Rightarrow> perr SSH_ERR_INTERNAL_ERROR sb
      | Some nk \<Rightarrow>
          pbind (on_conn (on_context m (cipher_get_keyiv (e_ev e) (enc_iv_len (nk_enc nk))))) (\<lambda>iv.
          pbind (on_conn (on_newkeys m (modify_op (nk_enc_update (enc_iv_update (map_option (overwrite iv))))))) (\<lambda>_ sb.
          (case sshbuf_new (e_lc e) of
             None \<Rightarrow> perr SSH_ERR_ALLOC_FAIL sb
           | Some b \<Rightarrow>
               (case put_newkeys (e_lc e) (the (s_newkeys (sh_state (fst sb)) m)) b of
                  (Inl er, _) \<Rightarrow> perr er sb
                | (Inr _, b') \<Rightarrow> on_blob (sshbuf_put_stringb (e_lc e) (Some b')) sb)))) sb)"

definition ENCODE_INT :: "int \<Rightarrow> 32 word" where
  "ENCODE_INT v = (if v < 0 then 0xFFFFFFFF else of_int v)"

definition put_counters :: "libc \<Rightarrow> packet_state \<Rightarrow> (sshbuf, unit) op" where
  "put_counters lc ps =
     bind_op (sshbuf_put_u32 lc (seqnr ps)) (\<lambda>_.
     bind_op (sshbuf_put_u64 lc (blocks ps)) (\<lambda>_.
     bind_op (sshbuf_put_u32 lc (packets ps)) (\<lambda>_.
     sshbuf_put_u64 lc (pbytes ps))))"

definition put_session :: "libc \<Rightarrow> session_state \<Rightarrow> (sshbuf, unit) op" where
  "put_session lc st =
     bind_op (sshbuf_put_u64 lc (rekey_limit st)) (\<lambda>_.
     bind_op (sshbuf_put_u32 lc (rekey_interval st)) (\<lambda>_.
     bind_op (put_counters lc (p_send st)) (\<lambda>_.
     bind_op (put_counters lc (p_read st)) (\<lambda>_.
     bind_op (sshbuf_put_stringb lc (Some (s_input st))) (\<lambda>_.
     bind_op (sshbuf_put_stringb lc (Some (s_output st))) (\<lambda>_.
     bind_op (sshbuf_put_u32 lc (ENCODE_INT (interactive_mode st))) (\<lambda>_.
     bind_op (sshbuf_put_u32 lc (ENCODE_INT (qos_interactive st))) (\<lambda>_.
     sshbuf_put_u32 lc (ENCODE_INT (qos_other st))))))))))"

definition ssh_packet_get_state :: "penv \<Rightarrow> (ssh \<times> sshbuf, unit) proc" where
  "ssh_packet_get_state e sb =
     (case sh_kex (fst sb) of
        None \<Rightarrow> None
      | Some k \<Rightarrow>
          pbind (on_blob (kex_to_blob (e_lc e) k)) (\<lambda>_.
          pbind (newkeys_to_blob e MODE_OUT) (\<lambda>_.
          pbind (newkeys_to_blob e MODE_IN) (\<lambda>_ sb.
          on_blob (put_session (e_lc e) (sh_state (fst sb))) sb))) sb)"

section \<open>Restoring it\<close>

text \<open>
  The buffer of \<^verbatim>\<open>sshbuf_froms\<close> over the string at the front of \<open>m\<close>. It is freed before \<open>m\<close> is
  changed again, so its reference to \<open>m\<close> is left out.
\<close>

definition blob_string :: "libc \<Rightarrow> (sshbuf, sshbuf) op" where
  "blob_string lc m =
     (case sshbuf_peek_string_direct m of
        Inl er \<Rightarrow> (Inl er, m)
      | Inr p \<Rightarrow>
          (case sshbuf_from lc (map_option (\<lambda>q. q + 4) (sshbuf_ptr m)) p of
             None \<Rightarrow> (Inl SSH_ERR_ALLOC_FAIL, m)
           | Some b \<Rightarrow>
               (case sshbuf_consume (length p + 4) m of
                  (Inl er, m') \<Rightarrow> (Inl er, m')
                | (Inr _, m') \<Rightarrow> (Inr b, m'))))"

definition get_mac :: "penv \<Rightarrow> (sshbuf, sshmac) op" where
  "get_mac e =
     bind_op (sshbuf_get_cstring (e_lc e)) (\<lambda>name.
       (case mac_setup (e_lc e) (e_md e) (cstr name) (nk_mac newkeys_zero) of
          (Inl er, _) \<Rightarrow> err er
        | (Inr _, mac) \<Rightarrow>
            bind_op sshbuf_get_u32 (\<lambda>enabled.
            bind_op (sshbuf_get_string (e_lc e)) (\<lambda>key.
              if length key \<noteq> m_key_len mac then err SSH_ERR_INVALID_FORMAT
              else ret (mac\<lparr>m_name := Some (cstr name), m_enabled := enabled \<noteq> 0, m_key := Some key\<rparr>)))))"

definition get_newkeys :: "penv \<Rightarrow> (sshbuf, newkeys) op" where
  "get_newkeys e =
     bind_op (sshbuf_get_cstring (e_lc e)) (\<lambda>name.
     bind_op sshbuf_get_u32 (\<lambda>enabled.
     bind_op sshbuf_get_u32 (\<lambda>bs.
     bind_op (sshbuf_get_string (e_lc e)) (\<lambda>key.
     bind_op (sshbuf_get_string (e_lc e)) (\<lambda>iv.
     (case cipher_by_name (cstr name) of
        None \<Rightarrow> err SSH_ERR_INVALID_FORMAT
      | Some c \<Rightarrow>
          if unat bs \<noteq> cipher_blocksize c \<or> cipher_is_internal c then err SSH_ERR_INVALID_FORMAT
          else if length key \<noteq> cipher_keylen c \<or> length iv \<noteq> cipher_ivlen c
          then err SSH_ERR_INVALID_FORMAT
          else
            bind_op (if cipher_authlen c = 0 then get_mac e else ret (nk_mac newkeys_zero)) (\<lambda>mac.
            bind_op sshbuf_get_u32 (\<lambda>ct.
            bind_op (sshbuf_get_cstring (e_lc e)) (\<lambda>cn.
            (\<lambda>b. if sshbuf_len b \<noteq> 0 then err SSH_ERR_INVALID_FORMAT b
                 else ret
                   \<lparr>nk_enc = \<lparr>enc_name = Some (cstr name), enc_cipher = Some c, enc_enabled = enabled \<noteq> 0,
                      enc_key_len = length key, enc_iv_len = length iv, enc_block_size = unat bs,
                      enc_key = Some key, enc_iv = Some iv\<rparr>,
                    nk_mac = mac,
                    nk_comp = \<lparr>comp_type = ct, comp_enabled = False, comp_name = Some (cstr cn)\<rparr>\<rparr> b))))))))))"

definition newkeys_from_blob :: "penv \<Rightarrow> mode \<Rightarrow> (ssh \<times> sshbuf, unit) proc" where
  "newkeys_from_blob e m sb =
     (if malloc (e_lc e) sizeof_newkeys = None then perr SSH_ERR_ALLOC_FAIL sb
      else pbind (on_blob (blob_string (e_lc e))) (\<lambda>b.
        (case get_newkeys e b of
           (Inl er, _) \<Rightarrow> perr er
         | (Inr nk, _) \<Rightarrow>
             on_conn (on_kex (modify_op (\<lambda>k. k\<lparr>k_newkeys := (k_newkeys k)(m := Some nk)\<rparr>))))) sb)"

definition get_into :: "libc \<Rightarrow> sshbuf \<Rightarrow> (sshbuf, sshbuf) op" where
  "get_into lc v b =
     (case sshbuf_get_stringb lc (b, v) of
        (Inl er, (b', _)) \<Rightarrow> (Inl er, b')
      | (Inr _, (b', v')) \<Rightarrow> (Inr v', b'))"

definition get_kex :: "libc \<Rightarrow> kex \<Rightarrow> (sshbuf, kex) op" where
  "get_kex lc k =
     bind_op sshbuf_get_u32 (\<lambda>need.
     bind_op (sshbuf_get_cstring lc) (\<lambda>alg.
     bind_op sshbuf_get_u32 (\<lambda>ktype.
     bind_op sshbuf_get_u32 (\<lambda>nid.
     bind_op sshbuf_get_u32 (\<lambda>xtype.
     bind_op sshbuf_get_u32 (\<lambda>strict.
     bind_op (get_into lc (k_my k)) (\<lambda>my.
     bind_op (get_into lc (k_peer k)) (\<lambda>peer.
     bind_op (get_into lc (client_version k)) (\<lambda>cv.
     bind_op (get_into lc (server_version k)) (\<lambda>sv.
     bind_op (get_into lc (session_id k)) (\<lambda>sid.
     bind_op sshbuf_get_u32 (\<lambda>flags.
       if unat need > 1024 then err SSH_ERR_INVALID_FORMAT
       else ret (k\<lparr>we_need := unat need, hostkey_alg := Some (cstr alg), hostkey_type := sint ktype,
         hostkey_nid := sint nid, kex_type := xtype, kex_strict := strict \<noteq> 0, k_my := my,
         k_peer := peer, client_version := cv, server_version := sv, session_id := sid,
         k_flags := flags, k_server := True, k_done := True\<rparr>)))))))))))))"

definition kex_from_blob :: "penv \<Rightarrow> (ssh \<times> sshbuf, unit) proc" where
  "kex_from_blob e sb =
     (case kex_new (e_lc e) of
        None \<Rightarrow> perr SSH_ERR_ALLOC_FAIL sb
      | Some k0 \<Rightarrow>
          (case get_kex (e_lc e) k0 (snd sb) of
             (Inl er, m) \<Rightarrow> perr er ((fst sb)\<lparr>sh_kex := None\<rparr>, m)
           | (Inr k, m) \<Rightarrow> pret () ((fst sb)\<lparr>sh_kex := Some k\<rparr>, m)))"

definition DECODE_INT :: "32 word \<Rightarrow> int" where
  "DECODE_INT v = (if uint v > int_max then - 1 else uint v)"

definition set_conn_state :: "(session_state \<Rightarrow> session_state) \<Rightarrow> (ssh \<times> sshbuf, unit) proc" where
  "set_conn_state f = on_conn (set_state f)"

definition get_counters ::
  "((packet_state \<Rightarrow> packet_state) \<Rightarrow> session_state \<Rightarrow> session_state) \<Rightarrow> (ssh \<times> sshbuf, unit) proc" where
  "get_counters upd =
     pbind (on_blob sshbuf_get_u32) (\<lambda>v.
     pbind (set_conn_state (upd (seqnr_update (\<lambda>_. v)))) (\<lambda>_.
     pbind (on_blob sshbuf_get_u64) (\<lambda>v.
     pbind (set_conn_state (upd (blocks_update (\<lambda>_. v)))) (\<lambda>_.
     pbind (on_blob sshbuf_get_u32) (\<lambda>v.
     pbind (set_conn_state (upd (packets_update (\<lambda>_. v)))) (\<lambda>_.
     pbind (on_blob sshbuf_get_u64) (\<lambda>v.
     set_conn_state (upd (pbytes_update (\<lambda>_. v))))))))))"

definition ssh_packet_set_state :: "penv \<Rightarrow> (ssh \<times> sshbuf, unit) proc" where
  "ssh_packet_set_state e =
     pbind (kex_from_blob e) (\<lambda>_.
     pbind (newkeys_from_blob e MODE_OUT) (\<lambda>_.
     pbind (newkeys_from_blob e MODE_IN) (\<lambda>_.
     pbind (on_blob sshbuf_get_u64) (\<lambda>lim.
     pbind (set_conn_state (\<lambda>st. st\<lparr>rekey_limit := lim\<rparr>)) (\<lambda>_.
     pbind (on_blob sshbuf_get_u32) (\<lambda>ival.
     pbind (set_conn_state (\<lambda>st. st\<lparr>rekey_interval := ival\<rparr>)) (\<lambda>_.
     pbind (get_counters p_send_update) (\<lambda>_.
     pbind (get_counters p_read_update) (\<lambda>_.
     pbind (on_conn (monotime e)) (\<lambda>now.
     pbind (set_conn_state (\<lambda>st. st\<lparr>rekey_time := now\<rparr>)) (\<lambda>_.
     pbind (on_conn (ssh_set_newkeys e MODE_IN)) (\<lambda>_.
     pbind (on_conn (ssh_set_newkeys e MODE_OUT)) (\<lambda>_.
     pbind (on_conn (ssh_packet_set_postauth e)) (\<lambda>_.
     pbind (set_conn_state (\<lambda>st. st\<lparr>s_input := sshbuf_reset (e_lc e) (s_input st),
                                    s_output := sshbuf_reset (e_lc e) (s_output st)\<rparr>)) (\<lambda>_.
     pbind (on_blob sshbuf_get_string_direct) (\<lambda>inp.
     pbind (on_blob sshbuf_get_string_direct) (\<lambda>out.
     pbind (on_conn (of_op (on_input (sshbuf_put (e_lc e) inp)))) (\<lambda>_.
     pbind (on_conn (of_op (on_output (sshbuf_put (e_lc e) out)))) (\<lambda>_.
     pbind (on_blob sshbuf_get_u32) (\<lambda>inter.
     pbind (on_blob sshbuf_get_u32) (\<lambda>qi.
     pbind (on_blob sshbuf_get_u32) (\<lambda>qo.
     pbind (set_conn_state (\<lambda>st. st\<lparr>interactive_mode := DECODE_INT inter,
              qos_interactive := DECODE_INT qi, qos_other := DECODE_INT qo\<rparr>)) (\<lambda>_ sb.
     if sshbuf_len (snd sb) \<noteq> 0 then perr SSH_ERR_INVALID_FORMAT sb
     else pret () sb)))))))))))))))))))))))"

end
