(* ===== verification/StrictKex.thy ===== *)
theory StrictKex
  imports Framing
begin

unbundle bit_operations_syntax

text \<open>
  The strict key exchange of OpenSSH, which keeps an attacker in the network from inserting packets
  into the unprotected first exchange to shift the sequence numbers of the protected packets.
\<close>

section \<open>Packets in between\<close>

text \<open>The end of reading a packet before authentication.\<close>

lemma finish_preauth:
  assumes "sh_kex r = Some k" "kex_strict k" "\<not> after_authentication (sh_state r)" "type \<noteq> SSH2_MSG_USERAUTH_SUCCESS"
  obtains res r' where "finish_read e type r = Some (res, r')" and "res \<in> {Inr (), Inl SSH_ERR_NEED_REKEY}"
    and "same_session r r'" and "type = SSH2_MSG_NEWKEYS \<Longrightarrow> seqnr (p_read (sh_state r')) = 0"
proof -
  have check: "ssh_packet_check_rekey e t =
      Some (if ssh_packet_check_rekey_blocklimit 0 True t then Inl SSH_ERR_NEED_REKEY else Inr (), t)"
    if "\<not> after_authentication (sh_state t)" for t
    using that by (simp add: ssh_packet_check_rekey_def ssh_packet_check_rekey_preauth_def ssh_packet_need_rekeying_def
        Let_def pbind_def proc_simps op_simps)
  define r' where "r' = sh_state_update ((if type = SSH2_MSG_NEWKEYS then p_read_update (seqnr_update (\<lambda>_. 0)) else id) \<circ>
    packlen_update (\<lambda>_. 0)) r"
  have "finish_read e type r =
      Some (if ssh_packet_check_rekey_blocklimit 0 True r' then Inl SSH_ERR_NEED_REKEY else Inr (), r')"
    using assms by (simp add: finish_read_def pbind_def set_state_def proc_basic pwhen_def check r'_def)
  then show thesis by (rule that) (simp_all add: same_session_def r'_def)
qed

text \<open>A packet of the strict first exchange reaches the dispatcher as it was read.\<close>

lemma strict_read:
  assumes read: "ssh_packet_read_poll2 e r = Some (Inr (type, sq), r1)"
    and r1: "strict_initial r1" and type: "type \<noteq> 0" "type \<noteq> SSH2_MSG_DISCONNECT"
  shows "ssh_packet_read_poll_seqnr e r = Some (Inr (type, sq), sh_state_update (\<lambda>st. st\<lparr>keep_alive_timeouts := 0\<rparr>) r1)"
proof -
  define r2 where "r2 = sh_state_update (\<lambda>st. st\<lparr>keep_alive_timeouts := 0\<rparr>) r1"
  have "strict_initial r2" using r1 by (simp add: r2_def strict_initial_def)
  then have "read_poll_step e r = Some (Inr (Some (type, sq)), r2)"
    using read type by (simp add: read_poll_step_def pbind_def set_state_def proc_basic flip: r2_def)
  then show ?thesis by (simp add: ssh_packet_read_poll_seqnr.simps r2_def)
qed

lemma rejected_read:
  assumes "ssh_packet_read_poll2 e r = Some (Inl er, r1)"
  shows "ssh_packet_read_poll_seqnr e r = Some (Inl er, r1)"
proof -
  have "read_poll_step e r = Some (Inl er, r1)" using assms by (simp add: read_poll_step_def pbind_def)
  then show ?thesis by (simp add: ssh_packet_read_poll_seqnr.simps)
qed

text \<open>
  The state in which the dispatcher reads: with \<^verbatim>\<open>DISPATCH_BLOCK\<close> the output is written first.
\<close>

definition reads_in :: "penv \<Rightarrow> bool \<Rightarrow> ssh \<Rightarrow> ssh \<Rightarrow> bool" where
  "reads_in e block r0 r \<longleftrightarrow> (if block then ssh_packet_write_wait e r0 = Some (Inr (), r) else r0 = r)"

lemma dispatch_read:
  assumes "reads_in e block r0 r" and "ssh_packet_read_poll_seqnr e r = Some (res, r2)" and "\<And>p. res = Inr p \<Longrightarrow> fst p \<noteq> 0"
  shows "(if block then ssh_packet_read_seqnr e r0 else ssh_packet_read_poll_seqnr e r0) = Some (res, r2)"
  using assms
  by (cases res) (auto simp: reads_in_def ssh_packet_read_seqnr_def pbind_def read_seqnr_loop.simps[of e r] SSH_MSG_NONE_def
      split: if_splits)

text \<open>The handler of unexpected packets ends the process, unless the packet is to be skipped.\<close>

lemma unexpected_packet:
  assumes r: "strict_initial r" "sh_dispatch r (unat type) = Some Kex_protocol_error"
    and type: "type \<noteq> 0" "unat type < DISPATCH_MAX"
  shows "kex_protocol_error e sq r = None"
    and "dispatch_packet e methods other type sq r =
      (if dispatch_skip_packets r = 0 then None
       else Some (Inr False, r\<lparr>dispatch_skip_packets := dispatch_skip_packets r - 1\<rparr>))"
proof -
  show ends: "kex_protocol_error e sq r = None"
    using r(1) by (auto simp: kex_protocol_error_def strict_initial_def split: option.splits)
  have "0 < type" using type(1) by (simp add: word_gt_0)
  then show "dispatch_packet e methods other type sq r =
      (if dispatch_skip_packets r = 0 then None
       else Some (Inr False, r\<lparr>dispatch_skip_packets := dispatch_skip_packets r - 1\<rparr>))"
    using r type(2) ends by (simp add: dispatch_packet_def run_handler_def pbind_def proc_basic)
qed

lemma unexpected_run:
  assumes at: "reads_in e block r0 r" and read: "ssh_packet_read_poll_seqnr e r = Some (Inr (type, Some sq), r2)"
    and r2: "strict_initial r2" "sh_dispatch r2 (unat type) = Some Kex_protocol_error"
    and type: "type \<noteq> 0" "unat type < DISPATCH_MAX"
  shows "ssh_dispatch_run e methods other block fin r0 =
    (if dispatch_skip_packets r2 = 0 then None
     else ssh_dispatch_run e methods other block fin (r2\<lparr>dispatch_skip_packets := dispatch_skip_packets r2 - 1\<rparr>))"
  unfolding ssh_dispatch_run.simps[of e methods other block fin r0]
  by (subst dispatch_read[OF at read])
    (use type unexpected_packet(2)[OF r2 type, of e methods other sq] in \<open>simp_all add: SSH_MSG_NONE_def\<close>)

text \<open>A packet in the clear at the front of the input, of a message that is not expected.\<close>

definition inserted :: "byte \<Rightarrow> ssh \<Rightarrow> bool" where
  "inserted type r \<longleftrightarrow>
     (\<exists>data pad rest. contents (s_input (sh_state r)) = frame (type # data) pad @ rest \<and>
        4 \<le> length pad \<and> length pad < 256 \<and> length (frame (type # data) pad) mod 8 = 0 \<and>
        length (frame (type # data) pad) \<le> PACKET_MAX_SIZE + 4)"

lemma inserted_read:
  assumes mem: "\<And>n. malloc (e_lc e) n \<noteq> None" and link: "s_newkeys (sh_state r) MODE_IN = None"
      "receive_context (sh_state r) = Some c" "plain_ctx () e None c"
    and r: "waiting r" "strict_initial r" "\<not> after_authentication (sh_state r)"
    and ins: "inserted type r" and type: "1 \<le> unat type" "unat type \<le> 49" "type \<noteq> SSH2_MSG_DISCONNECT"
  obtains (limit) r2 where "ssh_packet_read_poll_seqnr e r = Some (Inl SSH_ERR_NEED_REKEY, r2)"
  | (packet) r2 where "ssh_packet_read_poll_seqnr e r = Some (Inr (type, Some (seqnr (p_read (sh_state r)))), r2)"
      and "strict_initial r2" "sh_dispatch r2 = sh_dispatch r" "dispatch_skip_packets r2 = dispatch_skip_packets r"
proof -
  obtain data pad rest where inp: "contents (s_input (sh_state r)) = frame (type # data) pad @ rest"
    and pad: "4 \<le> length pad" "length pad < 256" and blk: "length (frame (type # data) pad) mod 8 = 0"
    and size: "length (frame (type # data) pad) \<le> PACKET_MAX_SIZE + 4" using ins by (auto simp: inserted_def)
  have t0: "type \<noteq> 0" using type(1) by auto
  have st: "\<not> s_mux (sh_state r)" "packet_discard (sh_state r) = 0" "recv_ok (incoming_packet (sh_state r))"
    "wf_sshbuf (s_input (sh_state r))" "packlen (sh_state r) = 0"
    "packets (p_read (sh_state r)) + 1 \<noteq> 0" "seqnr (p_read (sh_state r)) + 1 \<noteq> 0"
    using r(1) by (simp_all add: waiting_def Let_def)
  obtain k where k: "sh_kex r = Some k" "kex_strict k" using r(2) by (auto simp: strict_initial_def split: option.splits)
  obtain r1 where read: "ssh_packet_read_poll2 e r =
      pbind (finish_read e type) (\<lambda>_. pret (type, Some (seqnr (p_read (sh_state r))))) r1" and r1: "same_session r r1"
    by (rule plain.receives[OF link(1)[symmetric] st(1,2) link(3,2) mem st(3-5) _ pad _ size t0 st(6,7)])
      (use inp blk in \<open>simp_all add: plain_nk plain_wire_def\<close>)
  have u: "type \<noteq> SSH2_MSG_USERAUTH_SUCCESS" using type(2) by (auto simp: SSH2_MSG_USERAUTH_SUCCESS_def)
  obtain res r2 where f: "finish_read e type r1 = Some (res, r2)" "res \<in> {Inr (), Inl SSH_ERR_NEED_REKEY}"
    "same_session r1 r2" by (rule finish_preauth[of r1 k type e]) (use r1 k r(3) u in \<open>simp_all add: same_session_def\<close>)
  show thesis
  proof (cases res)
    case (Inl er)
    then show ?thesis using limit rejected_read[of e r er r2] f(1,2) by (simp add: read pbind_def)
  next
    case (Inr u)
    then have p: "ssh_packet_read_poll2 e r = Some (Inr (type, Some (seqnr (p_read (sh_state r)))), r2)"
      using f(1) by (simp add: read pbind_def proc_basic)
    have r2: "strict_initial r2" "dispatch_skip_packets r2 = dispatch_skip_packets r" "sh_dispatch r2 = sh_dispatch r"
      using r1 f(3) r(2) by (simp_all add: same_session_def strict_initial_def)
    show ?thesis by (rule packet[OF strict_read[OF p r2(1) t0 type(3)]]) (use r2 in \<open>simp_all add: strict_initial_def\<close>)
  qed
qed

section \<open>New keys\<close>

lemma newkeys_restart:
  assumes mem: "\<And>n. malloc (e_lc e) n \<noteq> None" and c: "send_context (sh_state s) = Some c"
    "link_tx k e (s_newkeys (sh_state s) MODE_OUT) c" and s: "composed SSH2_MSG_NEWKEYS data s"
    and run: "ssh_packet_send2_wrapped e s = Some (Inr (), s')" and x: "sh_kex s = Some x" "kex_strict x"
  shows "seqnr (p_send (sh_state s')) = 0 \<and>
    (\<exists>w. contents (s_output (sh_state s')) = contents (s_output (sh_state s)) @ w \<and>
    (\<forall>r rest y. in_step e k s r \<and> waiting r \<and> contents (s_input (sh_state r)) = w @ rest \<and> sh_kex r = Some y \<and>
        kex_strict y \<and> \<not> after_authentication (sh_state r) \<longrightarrow>
      (\<exists>res r'. ssh_packet_read_poll2 e r = Some (res, r') \<and> seqnr (p_read (sh_state r')) = 0 \<and>
        res \<in> {Inr (SSH2_MSG_NEWKEYS, Some (seqnr (p_send (sh_state s)))), Inl SSH_ERR_NEED_REKEY})))"
proof
  show "seqnr (p_send (sh_state s')) = 0" by (rule link_received(2)[OF mem c s run refl x])
  obtain w where w: "contents (s_output (sh_state s')) = contents (s_output (sh_state s)) @ w"
    and r1: "\<And>r rest. in_step e k s r \<Longrightarrow> waiting r \<Longrightarrow> contents (s_input (sh_state r)) = w @ rest \<Longrightarrow>
      \<exists>r1. ssh_packet_read_poll2 e r = pbind (finish_read e SSH2_MSG_NEWKEYS)
          (\<lambda>_. pret (SSH2_MSG_NEWKEYS, Some (seqnr (p_send (sh_state s))))) r1 \<and>
        same_session r r1"
    using link_received(3)[OF mem c s run] by blast
  have "\<exists>res r'. ssh_packet_read_poll2 e r = Some (res, r') \<and> seqnr (p_read (sh_state r')) = 0 \<and>
        res \<in> {Inr (SSH2_MSG_NEWKEYS, Some (seqnr (p_send (sh_state s)))), Inl SSH_ERR_NEED_REKEY}"
    if r: "in_step e k s r" "waiting r" "contents (s_input (sh_state r)) = w @ rest" "sh_kex r = Some y"
        "kex_strict y" "\<not> after_authentication (sh_state r)" for r rest y
  proof -
    obtain r1 where p: "ssh_packet_read_poll2 e r = pbind (finish_read e SSH2_MSG_NEWKEYS)
          (\<lambda>_. pret (SSH2_MSG_NEWKEYS, Some (seqnr (p_send (sh_state s))))) r1"
      "sh_kex r1 = Some y" "\<not> after_authentication (sh_state r1)" using r1[OF r(1-3)] r(4,6) by (auto simp: same_session_def)
    obtain res r' where f: "finish_read e SSH2_MSG_NEWKEYS r1 = Some (res, r')" "seqnr (p_read (sh_state r')) = 0"
      "res \<in> {Inr (), Inl SSH_ERR_NEED_REKEY}" by (rule finish_preauth[OF p(2) r(5) p(3), of SSH2_MSG_NEWKEYS e])
        (simp_all add: SSH2_MSG_NEWKEYS_def SSH2_MSG_USERAUTH_SUCCESS_def)
    then show ?thesis using p(1) by (auto simp: pbind_def proc_basic)
  qed
  then show "\<exists>w. contents (s_output (sh_state s')) = contents (s_output (sh_state s)) @ w \<and>
    (\<forall>r rest y. in_step e k s r \<and> waiting r \<and> contents (s_input (sh_state r)) = w @ rest \<and> sh_kex r = Some y \<and>
        kex_strict y \<and> \<not> after_authentication (sh_state r) \<longrightarrow>
      (\<exists>res r'. ssh_packet_read_poll2 e r = Some (res, r') \<and> seqnr (p_read (sh_state r')) = 0 \<and>
        res \<in> {Inr (SSH2_MSG_NEWKEYS, Some (seqnr (p_send (sh_state s)))), Inl SSH_ERR_NEED_REKEY}))"
    using w by blast
qed

section \<open>Property\<close>

text \<open>A connection that waits for a packet of the first exchange, which is strict.\<close>

definition first_exchange :: "penv \<Rightarrow> ssh \<Rightarrow> bool" where
  "first_exchange e r \<longleftrightarrow>
     s_newkeys (sh_state r) MODE_IN = None \<and> (\<exists>c. receive_context (sh_state r) = Some c \<and> plain_ctx () e None c) \<and>
     waiting r \<and> strict_initial r \<and> \<not> after_authentication (sh_state r)"

text \<open>What becomes of the packet in the dispatcher that was called in state \<open>r0\<close> and reads in state \<open>r\<close>.\<close>

lemma inserted_ends:
  assumes mem: "\<And>n. malloc (e_lc e) n \<noteq> None" and r: "first_exchange e r" and ins: "inserted type r"
    and type: "1 \<le> unat type" "unat type \<le> 49" "type \<noteq> SSH2_MSG_DISCONNECT" "sh_dispatch r (unat type) = Some Kex_protocol_error"
    and at: "reads_in e block r0 r"
  shows "(\<exists>r2. ssh_packet_read_poll_seqnr e r = Some (Inl SSH_ERR_NEED_REKEY, r2) \<and>
       ssh_dispatch_run e methods other block fin r0 = Some (Inl SSH_ERR_NEED_REKEY, r2)) \<or>
    (\<exists>r2. ssh_packet_read_poll_seqnr e r = Some (Inr (type, Some (seqnr (p_read (sh_state r)))), r2) \<and>
       (if dispatch_skip_packets r = 0
        then kex_protocol_error e (seqnr (p_read (sh_state r))) r2 = None \<and>
          ssh_dispatch_run e methods other block fin r0 = None
        else ssh_dispatch_run e methods other block fin r0 =
          ssh_dispatch_run e methods other block fin (r2\<lparr>dispatch_skip_packets := dispatch_skip_packets r - 1\<rparr>)))"
proof -
  obtain c where link: "s_newkeys (sh_state r) MODE_IN = None" "receive_context (sh_state r) = Some c" "plain_ctx () e None c"
    and w: "waiting r" "strict_initial r" "\<not> after_authentication (sh_state r)"
    using r by (auto simp: first_exchange_def)
  have t: "type \<noteq> 0" "unat type < DISPATCH_MAX" using type(1,2) by (auto simp: DISPATCH_MAX_def)
  show ?thesis
  proof (rule inserted_read[OF mem link w ins type(1-3)])
    fix r2 assume "ssh_packet_read_poll_seqnr e r = Some (Inl SSH_ERR_NEED_REKEY, r2)"
    moreover from dispatch_read[OF at this]
    have "ssh_dispatch_run e methods other block fin r0 = Some (Inl SSH_ERR_NEED_REKEY, r2)"
      unfolding ssh_dispatch_run.simps[of e methods other block fin r0] by simp
    ultimately show ?thesis by blast
  next
    fix r2 assume read: "ssh_packet_read_poll_seqnr e r = Some (Inr (type, Some (seqnr (p_read (sh_state r)))), r2)"
      and r2: "strict_initial r2" "sh_dispatch r2 = sh_dispatch r" "dispatch_skip_packets r2 = dispatch_skip_packets r"
    have h: "sh_dispatch r2 (unat type) = Some Kex_protocol_error" using r2(2) type(4) by simp
    note run = unexpected_run[OF at read r2(1) h t, of methods other fin, unfolded r2(3)]
    show ?thesis
      using read run unexpected_packet(1)[OF r2(1) h t] by (intro disjI2 exI[of _ r2]) (simp split: if_splits)
  qed
qed

text \<open>
  C39. An attacker in the network cannot shift the sequence numbers of a strict key exchange (the
  attack known as Terrapin). A KEXINIT of the first exchange that announces it but is not packet
  number 0 ends the process. From then on, whether the dispatcher blocks or not, a packet in the
  clear that it does not expect, IGNORE and DEBUG included, which are dropped at other times, is read,
  handed to the dispatcher and ends the process in \<^verbatim>\<open>kex_protocol_error\<close>; or the read already fails
  with NEED_REKEY because the limit of packets is exceeded. The one packet after a KEXINIT of the
  peer that announced a wrong guess, \<^verbatim>\<open>dispatch_skip_packets\<close> being set, is skipped whatever it is, and
  the dispatcher goes on with the next one. And NEWKEYS starts the counters of both sides again, so
  that the first protected packet has number 0 for its sender and its reader.
\<close>

theorem strict_kex:
  assumes "\<And>n. malloc (e_lc e) n \<noteq> None"
  shows "(kex_buf2prop (e_lc e) (k_my k) = Inr (g, my) \<and> kex_buf2prop (e_lc e) (k_peer k) = Inr (f, peer) \<and>
        kex_flag KEX_INITIAL k \<and> kexalgs_contains peer (strict_marker k) \<and> sq \<noteq> 0 \<longrightarrow>
      kex_choose_conf (e_lc e) (e_md e) (e_keys e) sq k = None) \<and>
    (first_exchange e r \<and> inserted type r \<and> 1 \<le> unat type \<and> unat type \<le> 49 \<and> type \<noteq> SSH2_MSG_DISCONNECT \<and>
        sh_dispatch r (unat type) = Some Kex_protocol_error \<and>
        (if block then ssh_packet_write_wait e r0 = Some (Inr (), r) else r0 = r) \<longrightarrow>
      (\<exists>r2. ssh_packet_read_poll_seqnr e r = Some (Inl SSH_ERR_NEED_REKEY, r2) \<and>
         ssh_dispatch_run e methods other block fin r0 = Some (Inl SSH_ERR_NEED_REKEY, r2)) \<or>
      (\<exists>r2. ssh_packet_read_poll_seqnr e r = Some (Inr (type, Some (seqnr (p_read (sh_state r)))), r2) \<and>
         (if dispatch_skip_packets r = 0
          then kex_protocol_error e (seqnr (p_read (sh_state r))) r2 = None \<and>
            ssh_dispatch_run e methods other block fin r0 = None
          else ssh_dispatch_run e methods other block fin r0 =
            ssh_dispatch_run e methods other block fin (r2\<lparr>dispatch_skip_packets := dispatch_skip_packets r - 1\<rparr>)))) \<and>
    (send_context (sh_state s) = Some c \<and> link_tx l e (s_newkeys (sh_state s) MODE_OUT) c \<and>
        composed SSH2_MSG_NEWKEYS data s \<and> sh_kex s = Some x \<and> kex_strict x \<and>
        ssh_packet_send2_wrapped e s = Some (Inr (), s') \<longrightarrow>
      seqnr (p_send (sh_state s')) = 0 \<and>
      (\<exists>w. contents (s_output (sh_state s')) = contents (s_output (sh_state s)) @ w \<and>
        (\<forall>r rest y. in_step e l s r \<and> waiting r \<and> contents (s_input (sh_state r)) = w @ rest \<and> sh_kex r = Some y \<and>
            kex_strict y \<and> \<not> after_authentication (sh_state r) \<longrightarrow>
          (\<exists>res r'. ssh_packet_read_poll2 e r = Some (res, r') \<and> seqnr (p_read (sh_state r')) = 0 \<and>
            res \<in> {Inr (SSH2_MSG_NEWKEYS, Some (seqnr (p_send (sh_state s)))), Inl SSH_ERR_NEED_REKEY}))))"
proof (rule conjI)
  show "kex_buf2prop (e_lc e) (k_my k) = Inr (g, my) \<and> kex_buf2prop (e_lc e) (k_peer k) = Inr (f, peer) \<and>
        kex_flag KEX_INITIAL k \<and> kexalgs_contains peer (strict_marker k) \<and> sq \<noteq> 0 \<longrightarrow>
      kex_choose_conf (e_lc e) (e_md e) (e_keys e) sq k = None"
    using kex_choose_conf_ends by (auto simp: strict_violation_def)
qed (rule conjI, use inserted_ends[OF assms, unfolded reads_in_def] in blast, use newkeys_restart[OF assms] in blast)

text \<open>A strict client that proposes late, and a connection in its first exchange.\<close>

definition strict_client :: proposal where
  "strict_client = demo_client[PROPOSAL_KEX_ALGS := ''curve25519-sha256,kex-strict-c-v00@openssh.com'']"

definition toy_strict :: kex where
  "toy_strict = (the (kex_new lc_ok))\<lparr>k_flags := KEX_INITIAL, kex_strict := True, k_newkeys := (\<lambda>_. Some
     (toy_nk\<lparr>nk_enc := (nk_enc toy_nk)\<lparr>enc_key := Some toy_key, enc_key_len := 64\<rparr>\<rparr>))\<rparr>"

definition toy_first :: "sshbuf \<Rightarrow> ssh" where
  "toy_first inp = (kex_reset_dispatch toy_conn)\<lparr>sh_kex := Some toy_strict,
     sh_state := (sh_state toy_conn)\<lparr>s_input := inp\<rparr>\<rparr>"

lemma toy_first_fields:
  "s_newkeys (sh_state (toy_first inp)) = (\<lambda>_. None)" "s_input (sh_state (toy_first inp)) = inp"
  "outgoing_packet (sh_state (toy_first inp)) = buf0" "s_output (sh_state (toy_first inp)) = buf0"
  "p_send (sh_state (toy_first inp)) = packet_state_zero" "p_read (sh_state (toy_first inp)) = packet_state_zero"
  "extra_pad (sh_state (toy_first inp)) = 0" "send_context (sh_state (toy_first inp)) = send_context (sh_state toy_conn)"
  "receive_context (sh_state (toy_first inp)) = receive_context (sh_state toy_conn)"
  "sh_kex (toy_first inp) = Some toy_strict" "\<not> after_authentication (sh_state (toy_first inp))"
  "1 \<le> n \<Longrightarrow> n \<le> 49 \<Longrightarrow> sh_dispatch (toy_first inp) n = Some Kex_protocol_error"
  "kex_strict toy_strict" "kex_flag KEX_INITIAL toy_strict"
  by (auto simp: toy_first_def kex_reset_dispatch_def ssh_dispatch_range_def toy_conn_fields toy_conn_idle toy_strict_def
      SSH2_MSG_TRANSPORT_MIN_def SSH2_MSG_TRANSPORT_MAX_def DISPATCH_MAX_def kex_flag_def KEX_INITIAL_def)

lemma toy_first_exchange:
  assumes "wf_sshbuf inp" shows "waiting (toy_first inp)" "first_exchange toy_penv (toy_first inp)"
proof -
  have "recv_ok buf0" using buf0_wf by (simp add: recv_ok_def buf0_def PACKET_MAX_SIZE_def SSHBUF_SIZE_MAX_def)
  then show w: "waiting (toy_first inp)"
    using assms by (simp add: waiting_def Let_def toy_first_def kex_reset_dispatch_def ssh_dispatch_range_def
        toy_conn_idle toy_conn_fields packet_state_zero_def)
  show "first_exchange toy_penv (toy_first inp)"
    using w toy_conn_idle(11) by (simp add: first_exchange_def strict_initial_def toy_first_fields)
qed

lemma strict_client_dec: "kex_buf2prop lc_ok (demo_buf strict_client) = Inr (0, strict_client)"
proof -
  have ps: "length strict_client = PROPOSAL_MAX" "\<And>p. p \<in> set strict_client \<Longrightarrow> CHR 0x00 \<notin> set p"
    "\<And>p. p \<in> set strict_client \<Longrightarrow> length p \<le> 100" "length (enc_proposal strict_client) \<le> 300"
    by (auto simp: strict_client_def demo_client_def PROPOSAL_MAX_def PROPOSAL_KEX_ALGS_def enc_proposal_def bytes_of_def)
  then have "length (replicate 16 0 @ enc_proposal strict_client) \<le> SSHBUF_SIZE_MAX"
    by (simp add: SSHBUF_SIZE_MAX_def)
  then obtain b where b: "sshbuf_from lc_ok (Some 1) (replicate 16 0 @ enc_proposal strict_client) = Some b"
    by (auto simp: sshbuf_from_def Let_def lc_ok_def)
  then have d: "demo_buf strict_client = b" by (simp only: demo_buf_def option.sel)
  have "length p \<le> SSHBUF_SIZE_MAX - 4" if "p \<in> set strict_client" for p
    using ps(3)[OF that] by (simp add: SSHBUF_SIZE_MAX_def)
  then show ?thesis
    using sshbuf_from_wf[OF b] ps(1,2)
    by (intro kex_buf2prop_enc[where cookie = "replicate 16 0"] lc_ok_malloc)
      (auto simp: d KEX_COOKIE_LEN_def)
qed

lemma toy_newkeys_sent:
  assumes "sh_kex s = Some toy_strict"
  shows "\<exists>s'. after_sent toy_penv SSH2_MSG_NEWKEYS s = Some (Inr (), s')"
proof -
  obtain c where "cipher_init lc_ok toy_cipher chacha_cipher toy_key 64 None 0 True = Inr c"
    by (rule toy_ctx_init[of True])
  then show ?thesis
    using assms chacha_facts
    by (simp add: after_sent_def pwhen_def set_state_def pbind_def proc_basic ssh_set_newkeys_def toy_strict_def
        toy_nk_def newkeys_zero_def ssh_clear_newkeys_def on_mac_def on_newkeys_def zoom_def op_simps init_context_def Let_def toy_penv_def
        delayed_comp_def COMP_DELAYED_def COMP_NONE_def set_context_def)
qed

text \<open>NEWKEYS composed on it and sent.\<close>

definition toy_newkeys :: ssh where
  "toy_newkeys = snd (sshpkt_start toy_penv SSH2_MSG_NEWKEYS (toy_first buf0))"

lemma toy_newkeys_facts:
  "composed SSH2_MSG_NEWKEYS [] toy_newkeys" "sh_kex toy_newkeys = Some toy_strict"
  "contents (s_output (sh_state toy_newkeys)) = []" "in_step toy_penv None toy_newkeys (toy_first inp)"
  "\<exists>c. send_context (sh_state toy_newkeys) = Some c \<and> link_tx None toy_penv (s_newkeys (sh_state toy_newkeys) MODE_OUT) c"
proof -
  obtain b where s: "toy_newkeys = toy_first buf0\<lparr>sh_state := (sh_state (toy_first buf0))\<lparr>outgoing_packet := b\<rparr>\<rparr>"
    and b: "wf_sshbuf b" "writable b" "261 \<le> b_max_size b" "contents b = [0, 0, 0, 0, 0, SSH2_MSG_NEWKEYS]"
    unfolding toy_newkeys_def by (rule toy_start[of "toy_first buf0"]) (simp add: toy_first_fields)
  have "277 \<le> b_max_size buf0" by (simp add: buf0_def SSHBUF_SIZE_MAX_def)
  then show "composed SSH2_MSG_NEWKEYS [] toy_newkeys"
    using b buf0_wf by (simp add: s composed_def Let_def toy_first_fields packet_state_zero_def SSH2_MSG_NEWKEYS_def
        PACKET_MAX_SIZE_def del: length_contents)
  show "sh_kex toy_newkeys = Some toy_strict" "contents (s_output (sh_state toy_newkeys)) = []"
    using buf0_wf by (simp_all add: s toy_first_fields)
  show "in_step toy_penv None toy_newkeys (toy_first inp)"
    using toy_conn_idle(10,11) by (auto simp: s in_step_def toy_first_fields)
  show "\<exists>c. send_context (sh_state toy_newkeys) = Some c \<and>
      link_tx None toy_penv (s_newkeys (sh_state toy_newkeys) MODE_OUT) c"
    using toy_conn_idle(10) by (simp add: s toy_first_fields)
qed

text \<open>An IGNORE that an attacker has put in front of the exchange.\<close>

definition toy_attack :: ssh where
  "toy_attack = toy_first (snd (sshbuf_put lc_ok (frame [SSH2_MSG_IGNORE] (replicate 10 0)) buf0))"

lemma toy_attack_facts:
  "first_exchange toy_penv toy_attack" "inserted SSH2_MSG_IGNORE toy_attack" "dispatch_skip_packets toy_attack = 0"
  "ssh_packet_write_wait toy_penv toy_attack = Some (Inr (), toy_attack)"
  "sh_dispatch toy_attack (unat SSH2_MSG_IGNORE) = Some Kex_protocol_error" "seqnr (p_read (sh_state toy_attack)) = 0"
proof -
  obtain inp where inp: "sshbuf_put lc_ok (frame [SSH2_MSG_IGNORE] (replicate 10 0)) buf0 = (Inr (), inp)" "wf_sshbuf inp"
    "contents inp = frame [SSH2_MSG_IGNORE] (replicate 10 0)"
    using put_buf0[of "frame [SSH2_MSG_IGNORE] (replicate 10 0)"] by auto
  then have r: "toy_attack = toy_first inp" by (simp add: toy_attack_def)
  show "first_exchange toy_penv toy_attack" unfolding r by (rule toy_first_exchange(2)[OF inp(2)])
  show "inserted SSH2_MSG_IGNORE toy_attack"
    unfolding inserted_def r using inp(3)
    by (intro exI[of _ "[]"] exI[of _ "replicate 10 0"]) (simp add: toy_first_fields PACKET_MAX_SIZE_def)
  show "dispatch_skip_packets toy_attack = 0"
    by (simp add: r toy_first_def kex_reset_dispatch_def ssh_dispatch_range_def toy_conn_idle)
  have "sshbuf_len buf0 = 0" using buf0_wf sshbuf_len_contents[of buf0] by (simp del: length_contents)
  then show "ssh_packet_write_wait toy_penv toy_attack = Some (Inr (), toy_attack)"
    by (simp add: r ssh_packet_write_wait_def ssh_packet_write_poll_def pbind_def proc_basic write_loop.simps
        ssh_packet_have_data_to_write_def toy_first_fields)
  show "sh_dispatch toy_attack (unat SSH2_MSG_IGNORE) = Some Kex_protocol_error" "seqnr (p_read (sh_state toy_attack)) = 0"
    by (simp_all add: r toy_first_fields SSH2_MSG_IGNORE_def packet_state_zero_def)
qed

theorem strict_kex_witness:
  "kex_choose_conf lc_ok toy_md demo_keys 1 (demo_kex True demo_server strict_client) = None \<and>
   ((\<exists>r2. ssh_packet_read_poll_seqnr toy_penv toy_attack = Some (Inl SSH_ERR_NEED_REKEY, r2) \<and>
       ssh_dispatch_run toy_penv (\<lambda>_. None) (\<lambda>_ _ _. pret ()) True (\<lambda>_. False) toy_attack = Some (Inl SSH_ERR_NEED_REKEY, r2)) \<or>
    (\<exists>r2. ssh_packet_read_poll_seqnr toy_penv toy_attack = Some (Inr (SSH2_MSG_IGNORE, Some 0), r2) \<and>
       kex_protocol_error toy_penv 0 r2 = None \<and>
       ssh_dispatch_run toy_penv (\<lambda>_. None) (\<lambda>_ _ _. pret ()) True (\<lambda>_. False) toy_attack = None)) \<and>
   (\<exists>s' res r'. ssh_packet_send2_wrapped toy_penv toy_newkeys = Some (Inr (), s') \<and> seqnr (p_send (sh_state s')) = 0 \<and>
         ssh_packet_read_poll2 toy_penv (toy_first (s_output (sh_state s'))) = Some (res, r') \<and>
         seqnr (p_read (sh_state r')) = 0)"
proof -
  have mem: "\<And>n. malloc (e_lc toy_penv) n \<noteq> None" using lc_ok_malloc by (simp add: toy_lc)
  note strict = strict_kex[OF mem]
  have "kexalgs_contains strict_client (strict_marker (demo_kex True demo_server strict_client))"
    by (simp add: strict_marker_def demo_kex_def) code_simp
  then have a: "kex_choose_conf lc_ok toy_md demo_keys 1 (demo_kex True demo_server strict_client) = None"
    using strict[THEN conjunct1, of "demo_kex True demo_server strict_client" 0 demo_server 0 strict_client 1]
      strict_client_dec demo_buf_dec[of demo_server]
    by (simp add: toy_penv_def demo_kex_def kex_flag_def KEX_INITIAL_def)
  have t: "1 \<le> unat SSH2_MSG_IGNORE" "unat SSH2_MSG_IGNORE \<le> 49" "SSH2_MSG_IGNORE \<noteq> SSH2_MSG_DISCONNECT"
    by (simp_all add: SSH2_MSG_IGNORE_def SSH2_MSG_DISCONNECT_def)
  have b: "(\<exists>r2. ssh_packet_read_poll_seqnr toy_penv toy_attack = Some (Inl SSH_ERR_NEED_REKEY, r2) \<and>
       ssh_dispatch_run toy_penv (\<lambda>_. None) (\<lambda>_ _ _. pret ()) True (\<lambda>_. False) toy_attack = Some (Inl SSH_ERR_NEED_REKEY, r2)) \<or>
    (\<exists>r2. ssh_packet_read_poll_seqnr toy_penv toy_attack = Some (Inr (SSH2_MSG_IGNORE, Some 0), r2) \<and>
       kex_protocol_error toy_penv 0 r2 = None \<and>
       ssh_dispatch_run toy_penv (\<lambda>_. None) (\<lambda>_ _ _. pret ()) True (\<lambda>_. False) toy_attack = None)"
    using strict[THEN conjunct2, THEN conjunct1, of toy_attack SSH2_MSG_IGNORE True toy_attack "\<lambda>_. None"
        "\<lambda>_ _ _. pret ()" "\<lambda>_. False"] toy_attack_facts t by simp
  obtain c where c: "send_context (sh_state toy_newkeys) = Some c"
    "link_tx None toy_penv (s_newkeys (sh_state toy_newkeys) MODE_OUT) c" using toy_newkeys_facts(5) by blast
  obtain s3 where s3: "ssh_packet_send2_wrapped toy_penv toy_newkeys = after_sent toy_penv SSH2_MSG_NEWKEYS s3"
    "sh_kex s3 = Some toy_strict"
    using link_sent[OF mem c toy_newkeys_facts(1)] toy_newkeys_facts(2) by auto
  then obtain s' where s': "ssh_packet_send2_wrapped toy_penv toy_newkeys = Some (Inr (), s')"
    using toy_newkeys_sent by metis
  have wf: "wf_sshbuf (s_output (sh_state s'))" by (rule link_received(1)[OF mem c toy_newkeys_facts(1) s'])
  have "send_context (sh_state toy_newkeys) = Some c \<and> link_tx None toy_penv (s_newkeys (sh_state toy_newkeys) MODE_OUT) c \<and>
      composed SSH2_MSG_NEWKEYS [] toy_newkeys \<and> sh_kex toy_newkeys = Some toy_strict \<and> kex_strict toy_strict \<and>
      ssh_packet_send2_wrapped toy_penv toy_newkeys = Some (Inr (), s')"
    using c s' toy_newkeys_facts toy_first_fields(13) by blast
  note out = strict[THEN conjunct2, THEN conjunct2, rule_format, OF this]
  have z: "seqnr (p_send (sh_state s')) = 0" using out by blast
  have "\<exists>res r'. ssh_packet_read_poll2 toy_penv (toy_first (s_output (sh_state s'))) = Some (res, r') \<and>
      seqnr (p_read (sh_state r')) = 0"
    using out toy_newkeys_facts(3,4) toy_first_fields(2,10,11,13) toy_first_exchange(1)[OF wf]
    by (metis append_Nil append_Nil2)
  then show ?thesis using a b s' z by blast
qed

end
