(* ===== verification/StateTransfer.thy ===== *)
theory StateTransfer
  imports PacketState StrictKex
begin

unbundle bit_operations_syntax

text \<open>
  Handing a connection over: the process that is given the blob of \<^verbatim>\<open>ssh_packet_get_state\<close> continues
  the conversation with the peer where the other left it.
\<close>

section \<open>The blob\<close>

definition enc_cstr :: "string option \<Rightarrow> byte list" where
  "enc_cstr s = enc_string (bytes_of (the s))"

definition enc_buf :: "sshbuf \<Rightarrow> byte list" where
  "enc_buf b = enc_string (contents b)"

definition enc_kex :: "kex \<Rightarrow> byte list" where
  "enc_kex k =
     POKE_U32 (of_nat (we_need k)) @ enc_cstr (hostkey_alg k) @ POKE_U32 (of_int (hostkey_type k)) @
     POKE_U32 (of_int (hostkey_nid k)) @ POKE_U32 (kex_type k) @ POKE_U32 (of_bool (kex_strict k)) @
     enc_buf (k_my k) @ enc_buf (k_peer k) @ enc_buf (client_version k) @ enc_buf (server_version k) @
     enc_buf (session_id k) @ POKE_U32 (k_flags k)"

text \<open>The keys of a cipher that authenticates.\<close>

definition enc_newkeys :: "newkeys \<Rightarrow> byte list" where
  "enc_newkeys nk =
     (let en = nk_enc nk in
     enc_cstr (enc_name en) @ POKE_U32 (of_bool (enc_enabled en)) @ POKE_U32 (of_nat (enc_block_size en)) @
     enc_string (take (enc_key_len en) (the (enc_key en))) @ enc_string (take (enc_iv_len en) (the (enc_iv en))) @
     POKE_U32 (comp_type (nk_comp nk)) @ enc_cstr (comp_name (nk_comp nk)))"

definition enc_counters :: "packet_state \<Rightarrow> byte list" where
  "enc_counters p = POKE_U32 (seqnr p) @ POKE_U64 (blocks p) @ POKE_U32 (packets p) @ POKE_U64 (pbytes p)"

definition enc_limits :: "session_state \<Rightarrow> byte list" where
  "enc_limits st = POKE_U64 (rekey_limit st) @ POKE_U32 (rekey_interval st) @ enc_counters (p_send st) @ enc_counters (p_read st)"

definition enc_rest :: "session_state \<Rightarrow> byte list" where
  "enc_rest st = enc_buf (s_input st) @ enc_buf (s_output st) @ POKE_U32 (ENCODE_INT (interactive_mode st)) @
     POKE_U32 (ENCODE_INT (qos_interactive st)) @ POKE_U32 (ENCODE_INT (qos_other st))"

definition enc_state :: "ssh \<Rightarrow> byte list" where
  "enc_state s =
     enc_kex (the (sh_kex s)) @ enc_string (enc_newkeys (the (s_newkeys (sh_state s) MODE_OUT))) @
     enc_string (enc_newkeys (the (s_newkeys (sh_state s) MODE_IN))) @ enc_limits (sh_state s) @ enc_rest (sh_state s)"

section \<open>Writing it\<close>

text \<open>An exchange whose fields can be written.\<close>

definition portable_kex :: "kex \<Rightarrow> bool" where
  "portable_kex k \<longleftrightarrow>
     we_need k \<le> 1024 \<and> (\<exists>a. hostkey_alg k = Some a \<and> CHR 0x00 \<notin> set a) \<and>
     - (2 ^ 31) \<le> hostkey_type k \<and> hostkey_type k < 2 ^ 31 \<and> - (2 ^ 31) \<le> hostkey_nid k \<and> hostkey_nid k < 2 ^ 31 \<and>
     wf_sshbuf (k_my k) \<and> wf_sshbuf (k_peer k) \<and> wf_sshbuf (client_version k) \<and> wf_sshbuf (server_version k) \<and>
     wf_sshbuf (session_id k)"

text \<open>Keys of ChaCha20-Poly1305 as the key exchange installs them.\<close>

definition portable_keys :: "byte list \<Rightarrow> newkeys \<Rightarrow> bool" where
  "portable_keys key nk \<longleftrightarrow>
     nk_enc nk = \<lparr>enc_name = Some ''chacha20-poly1305@openssh.com'', enc_cipher = Some chacha_cipher,
       enc_enabled = enc_enabled (nk_enc nk), enc_key_len = 64, enc_iv_len = 0, enc_block_size = 8, enc_key = Some key,
       enc_iv = enc_iv (nk_enc nk)\<rparr> \<and> length key = 64 \<and>
     comp_type (nk_comp nk) = COMP_NONE \<and> \<not> comp_enabled (nk_comp nk) \<and>
     (\<exists>c. comp_name (nk_comp nk) = Some c \<and> CHR 0x00 \<notin> set c)"

lemmas writes_basic = writes_ints writes_string writes_stringb writes_cstring

lemma writes_kex:
  assumes mem: "\<And>n. malloc lc n \<noteq> None" and k: "portable_kex k"
  shows "writes (kex_to_blob lc k) (enc_kex k)"
proof -
  obtain a where a: "hostkey_alg k = Some a" "0 \<notin> set (bytes_of a)"
    using k bytes_of_nul by (auto simp: portable_kex_def)
  have wf: "wf_sshbuf (k_my k)" "wf_sshbuf (k_peer k)" "wf_sshbuf (client_version k)" "wf_sshbuf (server_version k)"
    "wf_sshbuf (session_id k)" using k by (simp_all add: portable_kex_def)
  show ?thesis
    unfolding kex_to_blob_def enc_kex_def enc_buf_def enc_cstr_def a option.sel option.map
    by (intro writes_bind writes_ints writes_stringb writes_cstring mem wf a(2))
qed

lemma writes_newkeys:
  assumes mem: "\<And>n. malloc lc n \<noteq> None" and nk: "portable_keys key nk"
  shows "writes (put_newkeys lc nk) (enc_newkeys nk)"
proof -
  obtain c where c: "comp_name (nk_comp nk) = Some c" "0 \<notin> set (bytes_of c)"
    using nk bytes_of_nul by (auto simp: portable_keys_def)
  have n: "enc_name (nk_enc nk) = Some ''chacha20-poly1305@openssh.com''" "enc_cipher (nk_enc nk) = Some chacha_cipher"
    using nk by (auto simp: portable_keys_def) (metis sshenc.select_convs(1,2))+
  have z: "0 \<notin> set (bytes_of ''chacha20-poly1305@openssh.com'')" by (rule bytes_of_nul) simp
  have w: "when_op (cipher_authlen (the (enc_cipher (nk_enc nk))) = 0) m = ret ()" for m :: "(sshbuf, unit) op"
    using chacha_facts by (simp add: n when_op_def)
  have eq: "enc_newkeys nk = enc_cstr (enc_name (nk_enc nk)) @ POKE_U32 (of_bool (enc_enabled (nk_enc nk))) @
      POKE_U32 (of_nat (enc_block_size (nk_enc nk))) @ enc_string (take (enc_key_len (nk_enc nk)) (the (enc_key (nk_enc nk)))) @
      enc_string (take (enc_iv_len (nk_enc nk)) (the (enc_iv (nk_enc nk)))) @ [] @ POKE_U32 (comp_type (nk_comp nk)) @
      enc_cstr (comp_name (nk_comp nk))" by (simp add: enc_newkeys_def Let_def)
  show ?thesis
    unfolding put_newkeys_def Let_def eq w n(1) c(1) enc_cstr_def option.sel option.map
    by (intro writes_bind writes_ints writes_string writes_cstring writes_ret mem c(2) z)
qed

lemma writes_session:
  assumes mem: "\<And>n. malloc lc n \<noteq> None" and wf: "wf_sshbuf (s_input st)" "wf_sshbuf (s_output st)"
  shows "writes (put_session lc st) (enc_limits st @ enc_rest st)"
proof -
  have c: "writes (put_counters lc p) (enc_counters p)" for p
    unfolding put_counters_def enc_counters_def by (intro writes_bind writes_ints mem)
  show ?thesis
    unfolding put_session_def enc_limits_def enc_rest_def enc_buf_def append_assoc
    by (intro writes_bind writes_ints writes_stringb c mem wf)
qed

lemma new_buffer:
  assumes "\<And>n. malloc lc n \<noteq> None"
  obtains b where "sshbuf_new lc = Some b" "wf_sshbuf b" "writable b" "contents b = []" "b_max_size b = SSHBUF_SIZE_MAX"
proof -
  obtain p q where "malloc lc sizeof_sshbuf = Some p" "malloc lc SSHBUF_SIZE_INIT = Some q" using assms by blast
  then obtain b where b: "sshbuf_new lc = Some b" "b_max_size b = SSHBUF_SIZE_MAX" by (simp add: sshbuf_new_def)
  then show thesis using sshbuf_new_wf[OF b(1)] that by blast
qed

text \<open>A process that reads its input from the blob, changes the connection and leaves the rest.\<close>

definition appends :: "(ssh \<times> sshbuf, unit) proc \<Rightarrow> ssh \<Rightarrow> byte list \<Rightarrow> bool" where
  "appends m s bs \<longleftrightarrow>
     (\<forall>b. wf_sshbuf b \<longrightarrow> writable b \<longrightarrow> length (contents b) + length bs \<le> b_max_size b \<longrightarrow>
        (\<exists>b'. m (s, b) = Some (Inr (), s, b') \<and> wf_sshbuf b' \<and> writable b' \<and> b_max_size b' = b_max_size b \<and>
              contents b' = contents b @ bs))"

lemma appends_blob: "writes m bs \<Longrightarrow> appends (on_blob m) s bs"
  by (fastforce simp: appends_def writes_def on_blob_def zoom_def proc_basic)

lemma appends_bind:
  assumes "appends m s bs" "appends n s cs" shows "appends (pbind m (\<lambda>_. n)) s (bs @ cs)"
  unfolding appends_def
proof (intro allI impI)
  fix b assume b: "wf_sshbuf b" "writable b" "length (contents b) + length (bs @ cs) \<le> b_max_size b"
  then have "length (contents b) + length bs \<le> b_max_size b" by simp
  then obtain b1 where b1: "m (s, b) = Some (Inr (), s, b1)" "wf_sshbuf b1" "writable b1" "b_max_size b1 = b_max_size b"
    "contents b1 = contents b @ bs" using assms(1) b by (auto simp: appends_def)
  have "length (contents b1) + length cs \<le> b_max_size b1" using b(3) unfolding b1 by simp
  then obtain b2 where "n (s, b1) = Some (Inr (), s, b2)" "wf_sshbuf b2" "writable b2" "b_max_size b2 = b_max_size b1"
    "contents b2 = contents b1 @ cs" using assms(2)[unfolded appends_def, rule_format, OF b1(2,3)] by blast
  then show "\<exists>b'. pbind m (\<lambda>_. n) (s, b) = Some (Inr (), s, b') \<and> wf_sshbuf b' \<and> writable b' \<and>
      b_max_size b' = b_max_size b \<and> contents b' = contents b @ bs @ cs" using b1 by (auto simp: pbind_def)
qed

lemma appends_newkeys:
  assumes mem: "\<And>n. malloc (e_lc e) n \<noteq> None" and nk: "s_newkeys (sh_state s) m = Some nk" "portable_keys key nk"
    and c: "(if m = MODE_OUT then send_context (sh_state s) else receive_context (sh_state s)) = Some c" "cipher c = chacha_cipher"
  shows "appends (newkeys_to_blob e m) s (enc_string (enc_newkeys nk))"
  unfolding appends_def
proof (intro allI impI)
  fix b assume b: "wf_sshbuf b" "writable b" "length (contents b) + length (enc_string (enc_newkeys nk)) \<le> b_max_size b"
  have iv: "enc_iv_len (nk_enc nk) = 0" using nk(2) by (auto simp: portable_keys_def) (metis sshenc.select_convs(5))
  have same: "nk_enc_update (enc_iv_update (map_option (overwrite []))) nk = nk"
  proof -
    have o: "overwrite [] = (\<lambda>x. x)" by (simp add: overwrite_def fun_eq_iff)
    have "map_option (overwrite []) = (\<lambda>x. x)" unfolding o by (simp add: fun_eq_iff option.map_ident)
    then show ?thesis by simp
  qed
  have ctx: "on_context m (cipher_get_keyiv (e_ev e) 0) s = Some (Inr [], s)"
    using c chacha_facts by (auto simp: on_context_def cipher_get_keyiv_def Let_def op_simps split: if_splits)
  have upd: "on_newkeys m (modify_op (nk_enc_update (enc_iv_update (map_option (overwrite []))))) s = Some (Inr (), s)"
    using nk(1) same by (simp add: on_newkeys_def op_simps fun_upd_idem)
  obtain t where t: "sshbuf_new (e_lc e) = Some t" "wf_sshbuf t" "writable t" "contents t = []" "b_max_size t = SSHBUF_SIZE_MAX"
    by (rule new_buffer[OF mem])
  have "length (contents t) + length (enc_newkeys nk) \<le> b_max_size t"
    unfolding t(4,5) using b(3) wf_sshbufD(6)[OF b(1)] by simp
  then obtain t1 where t1: "put_newkeys (e_lc e) nk t = (Inr (), t1)" "wf_sshbuf t1" "contents t1 = enc_newkeys nk"
    using writesE[OF writes_newkeys[OF mem nk(2)] t(2,3)] t(4) by (metis append_Nil)
  obtain b' where b': "sshbuf_put_stringb (e_lc e) (Some t1) b = (Inr (), b')" "wf_sshbuf b'" "writable b'"
    "b_max_size b' = b_max_size b" "contents b' = contents b @ enc_string (enc_newkeys nk)"
    using writesE[OF writes_stringb[OF mem t1(2)] b(1,2)] b(3) unfolding t1(3) by blast
  have "newkeys_to_blob e m (s, b) = Some (Inr (), s, b')"
    using nk(1) t(1) t1(1) b'(1) ctx upd
    by (simp add: newkeys_to_blob_def iv on_conn_def pzoom_def pbind_def on_blob_def zoom_def proc_basic)
  then show "\<exists>b'. newkeys_to_blob e m (s, b) = Some (Inr (), s, b') \<and> wf_sshbuf b' \<and> writable b' \<and>
      b_max_size b' = b_max_size b \<and> contents b' = contents b @ enc_string (enc_newkeys nk)" using b' by blast
qed

text \<open>A connection that can be handed over, under the keys \<open>ko\<close> outward and \<open>ki\<close> inward.\<close>

definition portable :: "byte list \<Rightarrow> byte list \<Rightarrow> ssh \<Rightarrow> bool" where
  "portable ko ki s \<longleftrightarrow>
     (\<exists>k. sh_kex s = Some k \<and> portable_kex k) \<and>
     (\<exists>nk. s_newkeys (sh_state s) MODE_OUT = Some nk \<and> portable_keys ko nk) \<and>
     (\<exists>nk. s_newkeys (sh_state s) MODE_IN = Some nk \<and> portable_keys ki nk) \<and>
     (\<exists>c. send_context (sh_state s) = Some c \<and> cipher c = chacha_cipher) \<and>
     (\<exists>c. receive_context (sh_state s) = Some c \<and> cipher c = chacha_cipher) \<and>
     wf_sshbuf (s_input (sh_state s)) \<and> wf_sshbuf (s_output (sh_state s)) \<and> length (enc_state s) \<le> SSHBUF_SIZE_MAX \<and>
     (\<forall>v \<in> {interactive_mode (sh_state s), qos_interactive (sh_state s), qos_other (sh_state s)}. - 1 \<le> v \<and> v < 2 ^ 31)"

lemma get_state_spec:
  assumes mem: "\<And>n. malloc (e_lc e) n \<noteq> None" and s: "portable ko ki s"
  shows "appends (ssh_packet_get_state e) s (enc_state s)"
proof -
  obtain k nko nki co ci where k: "sh_kex s = Some k" "portable_kex k"
    and o: "s_newkeys (sh_state s) MODE_OUT = Some nko" "portable_keys ko nko" "send_context (sh_state s) = Some co"
      "cipher co = chacha_cipher"
    and i: "s_newkeys (sh_state s) MODE_IN = Some nki" "portable_keys ki nki" "receive_context (sh_state s) = Some ci"
      "cipher ci = chacha_cipher"
    and wf: "wf_sshbuf (s_input (sh_state s))" "wf_sshbuf (s_output (sh_state s))"
    using s by (auto simp: portable_def)
  define last where "last = (\<lambda>sb. on_blob (put_session (e_lc e) (sh_state (fst sb))) sb)"
  have "appends (on_blob (put_session (e_lc e) (sh_state s))) s (enc_limits (sh_state s) @ enc_rest (sh_state s))"
    by (intro appends_blob writes_session mem wf)
  then have "appends last s (enc_limits (sh_state s) @ enc_rest (sh_state s))" by (simp add: appends_def last_def)
  moreover have "appends (newkeys_to_blob e MODE_OUT) s (enc_string (enc_newkeys nko))"
    "appends (newkeys_to_blob e MODE_IN) s (enc_string (enc_newkeys nki))"
    using appends_newkeys[OF mem o(1,2), of co] appends_newkeys[OF mem i(1,2), of ci] o i by simp_all
  ultimately have "appends (pbind (on_blob (kex_to_blob (e_lc e) k)) (\<lambda>_. pbind (newkeys_to_blob e MODE_OUT) (\<lambda>_.
      pbind (newkeys_to_blob e MODE_IN) (\<lambda>_. last)))) s (enc_state s)"
    unfolding enc_state_def k(1) o(1) i(1) option.sel
    by (intro appends_bind appends_blob[OF writes_kex[OF mem k(2)]])
  then show ?thesis by (simp add: appends_def ssh_packet_get_state_def k(1) last_def)
qed

section \<open>Restoring it\<close>

text \<open>A process that consumes bytes of the blob and takes the connection from one state to another.\<close>

definition restores :: "(ssh \<times> sshbuf, 'a) proc \<Rightarrow> ssh \<Rightarrow> byte list \<Rightarrow> 'a \<Rightarrow> ssh \<Rightarrow> bool" where
  "restores m s bs x s' \<longleftrightarrow>
     (\<forall>b rest. wf_sshbuf b \<longrightarrow> contents b = bs @ rest \<longrightarrow>
        (\<exists>b'. m (s, b) = Some (Inr x, s', b') \<and> wf_sshbuf b' \<and> contents b' = rest))"

lemma restoresE:
  assumes "restores m s bs x s'" "wf_sshbuf b" "contents b = bs @ rest"
  obtains b' where "m (s, b) = Some (Inr x, s', b')" "wf_sshbuf b'" "contents b' = rest"
  using assms unfolding restores_def by blast

lemma restores_bind:
  assumes m: "restores m s bs x s1" and f: "restores (f x) s1 cs y s2"
  shows "restores (pbind m f) s (bs @ cs) y s2"
  unfolding restores_def
proof (intro allI impI)
  fix b rest assume b: "wf_sshbuf b" "contents b = (bs @ cs) @ rest"
  obtain b1 where b1: "m (s, b) = Some (Inr x, s1, b1)" "wf_sshbuf b1" "contents b1 = cs @ rest"
    using restoresE[OF m b(1)] b(2) by (metis append_assoc)
  obtain b2 where "f x (s1, b1) = Some (Inr y, s2, b2)" "wf_sshbuf b2" "contents b2 = rest"
    by (rule restoresE[OF f b1(2,3)])
  then show "\<exists>b'. pbind m f (s, b) = Some (Inr y, s2, b') \<and> wf_sshbuf b' \<and> contents b' = rest"
    using b1 by (auto simp: pbind_def)
qed

lemma restores_blob: "reads m bs x \<Longrightarrow> restores (on_blob m) s bs x s"
  by (fastforce simp: restores_def reads_def on_blob_def zoom_def proc_basic)

lemma restores_conn: "m s = Some (Inr x, s') \<Longrightarrow> restores (on_conn m) s [] x s'"
  by (simp add: restores_def on_conn_def pzoom_def)

lemma restores_set: "restores (set_conn_state f) s [] () (sh_state_update f s)"
  by (simp add: set_conn_state_def restores_conn set_state_def proc_basic)

text \<open>A step that takes nothing from the blob.\<close>

lemma restores_then:
  "restores m s [] x s1 \<Longrightarrow> restores (f x) s1 cs y s2 \<Longrightarrow> restores (pbind m f) s cs y s2"
  using restores_bind[of m s "[]" x s1 f cs y s2] by simp

lemma restores_last:
  "restores m s bs x s1 \<Longrightarrow> restores (f x) s1 [] y s2 \<Longrightarrow> restores (pbind m f) s bs y s2"
  using restores_bind[of m s bs x s1 f "[]" y s2] by simp

lemma restores_counters:
  assumes "\<And>f g st. upd f (upd g st) = upd (f \<circ> g) st"
  shows "restores (get_counters upd) s (enc_counters p) ()
    (sh_state_update (upd (\<lambda>_. p)) s)"
proof -
  let ?upd = "\<lambda>f. sh_state_update (upd f)"
  have "restores (get_counters upd) s (enc_counters p) () (?upd (pbytes_update (\<lambda>_. pbytes p))
      (?upd (packets_update (\<lambda>_. packets p)) (?upd (blocks_update (\<lambda>_. blocks p)) (?upd (seqnr_update (\<lambda>_. seqnr p)) s))))"
    unfolding get_counters_def enc_counters_def
    by (rule restores_bind[OF restores_blob[OF reads_ints(2)]], rule restores_then[OF restores_set],
        rule restores_bind[OF restores_blob[OF reads_ints(3)]], rule restores_then[OF restores_set],
        rule restores_bind[OF restores_blob[OF reads_ints(2)]], rule restores_then[OF restores_set],
        rule restores_last[OF restores_blob[OF reads_ints(3)] restores_set])
  moreover have "pbytes_update (\<lambda>_. pbytes p) \<circ> (packets_update (\<lambda>_. packets p) \<circ> (blocks_update (\<lambda>_. blocks p) \<circ>
      seqnr_update (\<lambda>_. seqnr p))) = (\<lambda>_. p)" by (simp add: fun_eq_iff)
  ultimately show ?thesis using assms by (simp add: comp_def)
qed

text \<open>The exchange that is restored into the new one \<open>k0\<close>.\<close>

definition put_into :: "libc \<Rightarrow> sshbuf \<Rightarrow> sshbuf \<Rightarrow> sshbuf" where
  "put_into lc w v = snd (sshbuf_put lc (contents w) v)"

definition restored_kex :: "libc \<Rightarrow> kex \<Rightarrow> kex \<Rightarrow> kex" where
  "restored_kex lc k0 k =
     k0\<lparr>we_need := we_need k, hostkey_alg := hostkey_alg k, hostkey_type := hostkey_type k,
        hostkey_nid := hostkey_nid k, kex_type := kex_type k, kex_strict := kex_strict k,
        k_my := put_into lc (k_my k) (k_my k0), k_peer := put_into lc (k_peer k) (k_peer k0),
        client_version := put_into lc (client_version k) (client_version k0),
        server_version := put_into lc (server_version k) (server_version k0),
        session_id := put_into lc (session_id k) (session_id k0), k_flags := k_flags k, k_server := True, k_done := True\<rparr>"

lemma reads_into:
  assumes mem: "\<And>n. malloc lc n \<noteq> None" and w: "length (contents w) \<le> SSHBUF_SIZE_MAX - 4"
    and v: "wf_sshbuf v" "writable v" "contents v = []" "b_max_size v = SSHBUF_SIZE_MAX"
  shows "reads (get_into lc v) (enc_buf w) (put_into lc w v)"
  unfolding reads_def
proof (intro allI impI)
  fix b rest assume b: "wf_sshbuf b" "contents b = enc_buf w @ rest"
  define bs where "bs = contents w"
  have len: "length bs \<le> SSHBUF_SIZE_MAX - 4" using w by (simp add: bs_def)
  then have u: "unat (of_nat (length bs) :: 32 word) = length bs" by (simp add: unat_of_nat SSHBUF_SIZE_MAX_def)
  have c: "contents b = POKE_U32 (of_nat (length bs)) @ bs @ rest" using b(2) by (simp add: enc_buf_def enc_string_def bs_def)
  obtain b1 where b1: "sshbuf_get_u32 b = (Inr (of_nat (length bs)), b1)" "wf_sshbuf b1" "contents b1 = bs @ rest"
    by (rule readsE[OF reads_ints(2) b(1) c])
  obtain b2 where b2: "sshbuf_get (length bs) b1 = (Inr bs, b2)" "wf_sshbuf b2" "contents b2 = rest"
    by (rule readsE[OF reads_get b1(2,3)])
  obtain i v1 where r: "sshbuf_reserve lc (length bs) v = (Inr i, v1)"
    by (rule writable_reserve[OF v(1,2) _ mem, of "length bs"]) (use len v in \<open>simp_all add: v(3) del: length_contents\<close>)
  have "sshbuf_peek_string_direct b = Inr bs"
    using peek_string_spec[OF b(1)] b(2) wire_string_enc[OF len, of rest] by (simp add: enc_buf_def bs_def del: length_contents)
  then have "get_into lc v b = (Inr (put_into lc w v), b2)"
    using b1(1) b2(1) r u
    by (simp add: get_into_def sshbuf_get_stringb_def put_into_def sshbuf_put_def bind_op_def op_simps flip: bs_def)
  then show "\<exists>b'. get_into lc v b = (Inr (put_into lc w v), b') \<and> wf_sshbuf b' \<and> contents b' = rest" using b2 by blast
qed

lemma reads_kex:
  assumes mem: "\<And>n. malloc lc n \<noteq> None" and k: "portable_kex k" "length (enc_kex k) \<le> SSHBUF_SIZE_MAX"
    and k0: "kex_new lc = Some k0"
  shows "reads (get_kex lc k0) (enc_kex k) (restored_kex lc k0 k)"
proof -
  obtain a where a: "hostkey_alg k = Some a" "CHR 0x00 \<notin> set a" using k(1) by (auto simp: portable_kex_def)
  have size: "length (bytes_of a) \<le> SSHBUF_SIZE_MAX - 4" "length (contents (k_my k)) \<le> SSHBUF_SIZE_MAX - 4"
    "length (contents (k_peer k)) \<le> SSHBUF_SIZE_MAX - 4" "length (contents (client_version k)) \<le> SSHBUF_SIZE_MAX - 4"
    "length (contents (server_version k)) \<le> SSHBUF_SIZE_MAX - 4" "length (contents (session_id k)) \<le> SSHBUF_SIZE_MAX - 4"
    using k(2) by (simp_all add: enc_kex_def enc_buf_def enc_cstr_def a(1) del: length_contents)
  obtain n where n: "sshbuf_new lc = Some n" "wf_sshbuf n" "writable n" "contents n = []" "b_max_size n = SSHBUF_SIZE_MAX"
    by (rule new_buffer[OF mem])
  have k0': "k_my k0 = n" "k_peer k0 = n" "client_version k0 = n" "server_version k0 = n" "session_id k0 = n"
    using k0 by (auto simp: kex_new_def n(1) split: option.splits)
  note into = reads_into[OF mem _ n(2-5)]
  have ints: "sint (of_int (hostkey_type k) :: 32 word) = hostkey_type k" "sint (of_int (hostkey_nid k) :: 32 word) = hostkey_nid k"
    "unat (of_nat (we_need k) :: 32 word) = we_need k" "we_need k \<le> 1024"
    using k(1) by (simp_all add: portable_kex_def signed_of_int signed_take_bit_int_eq_self unat_of_nat)
  have s: "cstr (bytes_of a) = a" by (rule cstr_bytes_of[OF a(2)])
  show ?thesis
    unfolding get_kex_def enc_kex_def enc_cstr_def a(1) option.sel k0'
    apply (rule reads_bind[OF reads_ints(2)])
    apply (rule reads_bind[OF reads_cstring[OF mem size(1) bytes_of_nul[OF a(2)]]])
    apply (rule reads_bind[OF reads_ints(2)])+
    apply (rule reads_bind[OF into[OF size(2)]])
    apply (rule reads_bind[OF into[OF size(3)]])
    apply (rule reads_bind[OF into[OF size(4)]])
    apply (rule reads_bind[OF into[OF size(5)]])
    apply (rule reads_bind[OF into[OF size(6)]])
    apply (rule reads_bind_ret[OF reads_ints(2)])
    using ints s by (simp add: restored_kex_def k0' a(1))
qed

definition restored_keys :: "newkeys \<Rightarrow> newkeys" where
  "restored_keys nk =
     \<lparr>nk_enc = (nk_enc nk)\<lparr>enc_iv := Some []\<rparr>, nk_mac = nk_mac newkeys_zero,
      nk_comp = \<lparr>comp_type = comp_type (nk_comp nk), comp_enabled = False, comp_name = comp_name (nk_comp nk)\<rparr>\<rparr>"

lemma chacha_named:
  "cipher_by_name ''chacha20-poly1305@openssh.com'' = Some chacha_cipher" "\<not> cipher_is_internal chacha_cipher"
proof -
  show "cipher_by_name ''chacha20-poly1305@openssh.com'' = Some chacha_cipher"
    using chacha_facts by (auto simp: chacha_cipher_def)
  show "\<not> cipher_is_internal chacha_cipher" by code_simp
qed

lemma get_newkeys_spec:
  assumes mem: "\<And>n. malloc (e_lc e) n \<noteq> None" and nk: "portable_keys key nk"
    and size: "length (enc_newkeys nk) \<le> SSHBUF_SIZE_MAX" and b: "wf_sshbuf b" "contents b = enc_newkeys nk"
  shows "\<exists>b'. get_newkeys e b = (Inr (restored_keys nk), b')"
proof -
  define name where "name = ''chacha20-poly1305@openssh.com''"
  obtain cn where cn: "comp_name (nk_comp nk) = Some cn" "CHR 0x00 \<notin> set cn" using nk by (auto simp: portable_keys_def)
  have en: "enc_name (nk_enc nk) = Some name" "enc_cipher (nk_enc nk) = Some chacha_cipher" "enc_key_len (nk_enc nk) = 64"
    "enc_iv_len (nk_enc nk) = 0" "enc_block_size (nk_enc nk) = 8" "enc_key (nk_enc nk) = Some key" and key: "length key = 64"
    using nk unfolding portable_keys_def name_def by (metis sshenc.select_convs)+
  have nul: "CHR 0x00 \<notin> set name" by (simp add: name_def)
  have len: "length (bytes_of name) \<le> SSHBUF_SIZE_MAX - 4" "length key \<le> SSHBUF_SIZE_MAX - 4"
    "length ([] :: byte list) \<le> SSHBUF_SIZE_MAX - 4" "length (bytes_of cn) \<le> SSHBUF_SIZE_MAX - 4"
    using size by (simp_all add: enc_newkeys_def Let_def enc_cstr_def en key cn SSHBUF_SIZE_MAX_def name_def bytes_of_def)
  have bytes: "enc_newkeys nk = enc_string (bytes_of name) @ POKE_U32 (of_bool (enc_enabled (nk_enc nk))) @ POKE_U32 8 @
    enc_string key @ enc_string [] @ POKE_U32 (comp_type (nk_comp nk)) @ enc_string (bytes_of cn)"
    by (simp add: enc_newkeys_def Let_def enc_cstr_def en key cn)
  obtain b1 where b1: "sshbuf_get_cstring (e_lc e) b = (Inr (bytes_of name), b1)" "wf_sshbuf b1"
    "contents b1 = POKE_U32 (of_bool (enc_enabled (nk_enc nk))) @ POKE_U32 8 @ enc_string key @ enc_string [] @
      POKE_U32 (comp_type (nk_comp nk)) @ enc_string (bytes_of cn)"
    by (rule readsE[OF reads_cstring[OF mem len(1) bytes_of_nul[OF nul]] b(1) b(2)[unfolded bytes]])
  obtain b2 where b2: "sshbuf_get_u32 b1 = (Inr (of_bool (enc_enabled (nk_enc nk))), b2)" "wf_sshbuf b2"
    "contents b2 = POKE_U32 8 @ enc_string key @ enc_string [] @ POKE_U32 (comp_type (nk_comp nk)) @ enc_string (bytes_of cn)"
    by (rule readsE[OF reads_ints(2) b1(2,3)])
  obtain b3 where b3: "sshbuf_get_u32 b2 = (Inr 8, b3)" "wf_sshbuf b3"
    "contents b3 = enc_string key @ enc_string [] @ POKE_U32 (comp_type (nk_comp nk)) @ enc_string (bytes_of cn)"
    by (rule readsE[OF reads_ints(2) b2(2,3)])
  obtain b4 where b4: "sshbuf_get_string (e_lc e) b3 = (Inr key, b4)" "wf_sshbuf b4"
    "contents b4 = enc_string [] @ POKE_U32 (comp_type (nk_comp nk)) @ enc_string (bytes_of cn)"
    by (rule readsE[OF reads_string(2)[OF mem len(2)] b3(2,3)])
  obtain b5 where b5: "sshbuf_get_string (e_lc e) b4 = (Inr [], b5)" "wf_sshbuf b5"
    "contents b5 = POKE_U32 (comp_type (nk_comp nk)) @ enc_string (bytes_of cn)"
    by (rule readsE[OF reads_string(2)[OF mem len(3)] b4(2,3)])
  obtain b6 where b6: "sshbuf_get_u32 b5 = (Inr (comp_type (nk_comp nk)), b6)" "wf_sshbuf b6"
    "contents b6 = enc_string (bytes_of cn) @ []" using readsE[OF reads_ints(2) b5(2,3)] by auto
  obtain b7 where b7: "sshbuf_get_cstring (e_lc e) b6 = (Inr (bytes_of cn), b7)" "wf_sshbuf b7" "contents b7 = []"
    by (rule readsE[OF reads_cstring[OF mem len(4) bytes_of_nul[OF cn(2)]] b6(2,3)])
  have z: "sshbuf_len b7 = 0" using sshbuf_len_contents[OF b7(2)] b7(3) by simp
  have eq: "nk_enc nk = \<lparr>enc_name = Some name, enc_cipher = Some chacha_cipher, enc_enabled = enc_enabled (nk_enc nk),
      enc_key_len = 64, enc_iv_len = 0, enc_block_size = 8, enc_key = Some key, enc_iv = enc_iv (nk_enc nk)\<rparr>"
    using nk by (simp add: portable_keys_def name_def)
  have "restored_keys nk = \<lparr>nk_enc = \<lparr>enc_name = Some name, enc_cipher = Some chacha_cipher,
      enc_enabled = enc_enabled (nk_enc nk), enc_key_len = 64, enc_iv_len = 0, enc_block_size = 8, enc_key = Some key,
      enc_iv = Some []\<rparr>, nk_mac = nk_mac newkeys_zero,
      nk_comp = \<lparr>comp_type = comp_type (nk_comp nk), comp_enabled = False, comp_name = Some cn\<rparr>\<rparr>"
    unfolding restored_keys_def by (subst eq) (simp add: cn(1))
  moreover have "cipher_by_name name = Some chacha_cipher" using chacha_named by (simp add: name_def)
  ultimately show ?thesis
    using b1(1) b2(1) b3(1) b4(1) b5(1) b6(1) b7(1) z chacha_named(2) chacha_facts key
    by (simp add: get_newkeys_def bind_op_def op_simps cstr_bytes_of[OF nul] cstr_bytes_of[OF cn(2)] cipher_keylen_def)
qed

lemma restores_newkeys:
  assumes mem: "\<And>n. malloc (e_lc e) n \<noteq> None" and nk: "portable_keys key nk"
    and size: "length (enc_newkeys nk) \<le> SSHBUF_SIZE_MAX - 4" and k: "sh_kex s = Some k"
  shows "restores (newkeys_from_blob e m) s (enc_string (enc_newkeys nk)) ()
    (s\<lparr>sh_kex := Some (k\<lparr>k_newkeys := (k_newkeys k)(m := Some (restored_keys nk))\<rparr>)\<rparr>)"
  unfolding restores_def
proof (intro allI impI)
  fix b rest assume b: "wf_sshbuf b" "contents b = enc_string (enc_newkeys nk) @ rest"
  have p: "sshbuf_peek_string_direct b = Inr (enc_newkeys nk)"
    using peek_string_spec[OF b(1)] b(2) wire_string_enc[OF size, of rest] by simp
  obtain q where q: "sshbuf_ptr b = Some q" using wf_ptr[OF b(1)] by blast
  obtain v where v: "sshbuf_from (e_lc e) (Some (q + 4)) (enc_newkeys nk) = Some v"
    using mem[of sizeof_sshbuf] size by (auto simp: sshbuf_from_def Let_def SSHBUF_SIZE_MAX_def)
  have v': "wf_sshbuf v" "contents v = enc_newkeys nk" using sshbuf_from_wf[OF v] by auto
  obtain v1 where g: "get_newkeys e v = (Inr (restored_keys nk), v1)"
    using get_newkeys_spec[OF mem nk le_trans[OF size diff_le_self] v'] by blast
  obtain b1 where b1: "sshbuf_consume (length (enc_newkeys nk) + 4) b = (Inr (), b1)" "wf_sshbuf b1" "contents b1 = rest"
    using consume_spec(1)[OF b(1), of "length (enc_newkeys nk) + 4"] b(2) by (auto simp del: length_contents)
  obtain z where "malloc (e_lc e) sizeof_newkeys = Some z" using mem by blast
  then have "newkeys_from_blob e m (s, b) =
      Some (Inr (), s\<lparr>sh_kex := Some (k\<lparr>k_newkeys := (k_newkeys k)(m := Some (restored_keys nk))\<rparr>)\<rparr>, b1)"
    using p q v b1(1) g k
    by (simp add: newkeys_from_blob_def on_blob_def zoom_def blob_string_def pbind_def proc_basic on_conn_def pzoom_def
        on_kex_def op_simps)
  then show "\<exists>b'. newkeys_from_blob e m (s, b) =
      Some (Inr (), s\<lparr>sh_kex := Some (k\<lparr>k_newkeys := (k_newkeys k)(m := Some (restored_keys nk))\<rparr>)\<rparr>, b') \<and>
      wf_sshbuf b' \<and> contents b' = rest" using b1 by blast
qed

lemma restores_kex:
  assumes mem: "\<And>n. malloc (e_lc e) n \<noteq> None" and k: "portable_kex k" "length (enc_kex k) \<le> SSHBUF_SIZE_MAX"
    and k0: "kex_new (e_lc e) = Some k0"
  shows "restores (kex_from_blob e) s (enc_kex k) () (s\<lparr>sh_kex := Some (restored_kex (e_lc e) k0 k)\<rparr>)"
  unfolding restores_def
proof (intro allI impI)
  fix b rest assume b: "wf_sshbuf b" "contents b = enc_kex k @ rest"
  obtain b' where "get_kex (e_lc e) k0 b = (Inr (restored_kex (e_lc e) k0 k), b')" "wf_sshbuf b'" "contents b' = rest"
    by (rule readsE[OF reads_kex[OF mem k k0] b])
  then show "\<exists>b'. kex_from_blob e (s, b) = Some (Inr (), s\<lparr>sh_kex := Some (restored_kex (e_lc e) k0 k)\<rparr>, b') \<and>
      wf_sshbuf b' \<and> contents b' = rest" by (simp add: kex_from_blob_def k0 proc_basic)
qed

text \<open>The connection after \<^verbatim>\<open>ssh_set_newkeys\<close> has installed keys \<open>nk\<close> with the context \<open>c\<close>.\<close>

definition installed :: "mode \<Rightarrow> sshcipher_ctx \<Rightarrow> newkeys \<Rightarrow> ssh \<Rightarrow> ssh" where
  "installed m c nk s =
     sh_state_update (set_block_limits m \<circ> (set_context m (Some c) \<circ> (\<lambda>_.
       (if m = MODE_OUT then p_send_update clear_counts (sh_state s) else p_read_update clear_counts (sh_state s))
        \<lparr>s_newkeys := (s_newkeys (sh_state s))(m := Some (nk\<lparr>nk_mac := (nk_mac nk)\<lparr>m_enabled := True\<rparr>\<rparr>))\<rparr>)))
     (ssh_clear_newkeys m s)"

lemma set_context_frame:
  "s_newkeys (set_context m c st) = s_newkeys st" "after_authentication (set_context m c st) = after_authentication st"
  by (simp_all add: set_context_def)

lemma set_newkeys_chacha:
  assumes mem: "\<And>n. malloc (e_lc e) n \<noteq> None" and ev: "evp_chacha20 (e_ev e) ks keyof" and nk: "portable_keys key nk"
    and k: "sh_kex s = Some k" "k_newkeys k m = Some (restored_keys nk)" and auth: "\<not> after_authentication (sh_state s)"
  obtains c where "ssh_set_newkeys e m s = Some (Inr (), installed m c (restored_keys nk) s)"
    and "aead_ctx (m = MODE_OUT) (ks, key) e (Some ((restored_keys nk)\<lparr>nk_mac := (nk_mac (restored_keys nk))\<lparr>m_enabled := True\<rparr>\<rparr>)) c"
proof -
  have en: "nk_enc (restored_keys nk) = \<lparr>enc_name = Some ''chacha20-poly1305@openssh.com'', enc_cipher = Some chacha_cipher,
      enc_enabled = enc_enabled (nk_enc nk), enc_key_len = 64, enc_iv_len = 0, enc_block_size = 8, enc_key = Some key,
      enc_iv = Some []\<rparr>" and key: "length key = 64" and comp: "comp_type (nk_comp (restored_keys nk)) = COMP_NONE"
    "\<not> comp_enabled (nk_comp (restored_keys nk))"
    using nk by (auto simp: portable_keys_def restored_keys_def) (metis sshenc.update_convs(8))
  obtain p where p: "chachapoly_new (e_lc e) (e_ev e) key 64 = Some p" "chachapoly_keyed keyof key p"
    by (rule chachapoly_new_keyed[OF ev mem key])
  define c where "c = \<lparr>plaintext = has_flag chacha_cipher CFLAG_NONE, encrypt = (m = MODE_OUT), evp = None, cp_ctx = Some p,
    cipher = chacha_cipher\<rparr>"
  have init: "cipher_init (e_lc e) (e_ev e) chacha_cipher key 64 (Some []) 0 (m = MODE_OUT) = Inr c"
    using p(1) mem[of sizeof_sshcipher_ctx] chacha_facts by (auto simp: cipher_init_def Let_def c_def)
  have "ssh_set_newkeys e m s = Some (Inr (), installed m c (restored_keys nk) s)"
    using k auth init chacha_facts comp
    by (cases m) (auto simp: ssh_set_newkeys_def pbind_def set_state_def proc_basic pwhen_def en on_mac_def on_newkeys_def
        zoom_def op_simps init_context_def Let_def delayed_comp_def installed_def ssh_clear_newkeys_def
        set_context_frame COMP_NONE_def COMP_DELAYED_def)
  moreover have "aead_ctx (m = MODE_OUT) (ks, key) e (Some ((restored_keys nk)\<lparr>nk_mac := (nk_mac (restored_keys nk))\<lparr>m_enabled := True\<rparr>\<rparr>)) c"
    using ev p(2) comp by (auto simp: aead_ctx_def en c_def)
  ultimately show thesis by (rule that)
qed

text \<open>The last bytes of the blob.\<close>

definition finishes :: "(ssh \<times> sshbuf, 'a) proc \<Rightarrow> ssh \<Rightarrow> byte list \<Rightarrow> 'a \<Rightarrow> ssh \<Rightarrow> bool" where
  "finishes m s bs x s' \<longleftrightarrow>
     (\<forall>b. wf_sshbuf b \<longrightarrow> contents b = bs \<longrightarrow> (\<exists>b'. m (s, b) = Some (Inr x, s', b')))"

lemma finishes_bind:
  assumes m: "restores m s bs x s1" and f: "finishes (f x) s1 cs y s2"
  shows "finishes (pbind m f) s (bs @ cs) y s2"
  unfolding finishes_def
proof (intro allI impI)
  fix b assume b: "wf_sshbuf b" "contents b = bs @ cs"
  obtain b1 where b1: "m (s, b) = Some (Inr x, s1, b1)" "wf_sshbuf b1" "contents b1 = cs" by (rule restoresE[OF m b])
  then show "\<exists>b'. pbind m f (s, b) = Some (Inr y, s2, b')" using f by (auto simp: finishes_def pbind_def)
qed

lemma finishes_then: "restores m s [] x s1 \<Longrightarrow> finishes (f x) s1 cs y s2 \<Longrightarrow> finishes (pbind m f) s cs y s2"
  using finishes_bind[of m s "[]" x s1 f cs y s2] by simp

lemma finishes_last: "restores m s bs x s1 \<Longrightarrow> finishes (f x) s1 [] y s2 \<Longrightarrow> finishes (pbind m f) s bs y s2"
  using finishes_bind[of m s bs x s1 f "[]" y s2] by simp

lemma finishes_end: "finishes (\<lambda>sb. if sshbuf_len (snd sb) \<noteq> 0 then perr SSH_ERR_INVALID_FORMAT sb else pret () sb) s [] () s"
  by (auto simp: finishes_def proc_basic sshbuf_len_contents)

text \<open>A connection into which a state is restored.\<close>

definition fresh :: "ssh \<Rightarrow> bool" where
  "fresh t \<longleftrightarrow>
     \<not> after_authentication (sh_state t) \<and>
     (\<forall>b \<in> {s_input (sh_state t), s_output (sh_state t)}. wf_sshbuf b \<and> writable b \<and> b_max_size b = SSHBUF_SIZE_MAX)"

lemma refill:
  assumes mem: "\<And>n. malloc lc n \<noteq> None" and b: "wf_sshbuf b" "writable b" "b_max_size b = SSHBUF_SIZE_MAX"
    and n: "length bs \<le> SSHBUF_SIZE_MAX"
  obtains b' where "sshbuf_put lc bs (sshbuf_reset lc b) = (Inr (), b')" "wf_sshbuf b'" "contents b' = bs"
proof -
  have r: "wf_sshbuf (sshbuf_reset lc b)" "contents (sshbuf_reset lc b) = []" "writable (sshbuf_reset lc b)"
    "b_max_size (sshbuf_reset lc b) = SSHBUF_SIZE_MAX"
    using reset_wf[of b lc] reset_limits[of b lc] b
    by (auto simp: reset_safe_def same_limits_def writable_def SSHBUF_SIZE_MAX_def SSHBUF_SIZE_INIT_def)
  have "length (contents (sshbuf_reset lc b)) + length bs \<le> b_max_size (sshbuf_reset lc b)"
    unfolding r(2,4) using n by simp
  then show thesis using writesE[OF writes_put[OF mem] r(1,3)] r(2) that by (metis append_Nil)
qed

lemma decode_encode: "- 1 \<le> v \<Longrightarrow> v < 2 ^ 31 \<Longrightarrow> DECODE_INT (ENCODE_INT v) = v"
  by (auto simp: DECODE_INT_def ENCODE_INT_def int_max_def uint_word_of_int_eq take_bit_int_eq_self)

lemma postauth_run:
  assumes "\<not> delayed_comp MODE_IN s" "\<not> delayed_comp MODE_OUT s"
  shows "ssh_packet_set_postauth e s =
    Some (Inr (), sh_state_update (\<lambda>st. st\<lparr>after_authentication := True, rekeying := False\<rparr>) s)"
  using assms by (simp add: ssh_packet_set_postauth_def ssh_packet_enable_delayed_compress_def set_state_def pbind_def
      proc_basic pwhen_def delayed_comp_def comp_def)

text \<open>The two halves of \<^verbatim>\<open>ssh_packet_set_state\<close>, before and after the keys are put to use.\<close>

definition restore_rest :: "penv \<Rightarrow> (ssh \<times> sshbuf, unit) proc" where
  "restore_rest e =
     pbind (set_conn_state (\<lambda>st. st\<lparr>s_input := sshbuf_reset (e_lc e) (s_input st),
                                    s_output := sshbuf_reset (e_lc e) (s_output st)\<rparr>)) (\<lambda>_.
     pbind (on_blob sshbuf_get_string_direct) (\<lambda>inp.
     pbind (on_blob sshbuf_get_string_direct) (\<lambda>out.
     pbind (on_conn (of_op (on_input (sshbuf_put (e_lc e) inp)))) (\<lambda>_.
     pbind (on_conn (of_op (on_output (sshbuf_put (e_lc e) out)))) (\<lambda>_.
     pbind (on_blob sshbuf_get_u32) (\<lambda>inter.
     pbind (on_blob sshbuf_get_u32) (\<lambda>qi.
     pbind (on_blob sshbuf_get_u32) (\<lambda>qo.
     pbind (set_conn_state (\<lambda>st. st\<lparr>interactive_mode := DECODE_INT inter,
              qos_interactive := DECODE_INT qi, qos_other := DECODE_INT qo\<rparr>)) (\<lambda>_ sb.
     if sshbuf_len (snd sb) \<noteq> 0 then perr SSH_ERR_INVALID_FORMAT sb
     else pret () sb)))))))))"

lemma finishes_rest:
  assumes mem: "\<And>n. malloc (e_lc e) n \<noteq> None"
    and b: "\<And>b. b \<in> {s_input (sh_state t), s_output (sh_state t)} \<Longrightarrow> wf_sshbuf b \<and> writable b \<and> b_max_size b = SSHBUF_SIZE_MAX"
    and size: "length (enc_rest st) \<le> SSHBUF_SIZE_MAX"
  obtains ib ob where "finishes (restore_rest e) t (enc_rest st) () (sh_state_update (\<lambda>x. x\<lparr>s_input := ib, s_output := ob,
      interactive_mode := DECODE_INT (ENCODE_INT (interactive_mode st)),
      qos_interactive := DECODE_INT (ENCODE_INT (qos_interactive st)), qos_other := DECODE_INT (ENCODE_INT (qos_other st))\<rparr>) t)"
    and "wf_sshbuf ib" "contents ib = contents (s_input st)" "wf_sshbuf ob" "contents ob = contents (s_output st)"
proof -
  have n: "length (contents (s_input st)) \<le> SSHBUF_SIZE_MAX - 4" "length (contents (s_output st)) \<le> SSHBUF_SIZE_MAX - 4"
    using size by (simp_all add: enc_rest_def enc_buf_def del: length_contents)
  have bi: "wf_sshbuf (s_input (sh_state t))" "writable (s_input (sh_state t))" "b_max_size (s_input (sh_state t)) = SSHBUF_SIZE_MAX"
    and bo: "wf_sshbuf (s_output (sh_state t))" "writable (s_output (sh_state t))"
      "b_max_size (s_output (sh_state t)) = SSHBUF_SIZE_MAX" using b by simp_all
  obtain ib where ib: "sshbuf_put (e_lc e) (contents (s_input st)) (sshbuf_reset (e_lc e) (s_input (sh_state t))) = (Inr (), ib)"
    "wf_sshbuf ib" "contents ib = contents (s_input st)"
    by (rule refill[OF mem bi le_trans[OF n(1) diff_le_self]])
  obtain ob where ob: "sshbuf_put (e_lc e) (contents (s_output st)) (sshbuf_reset (e_lc e) (s_output (sh_state t))) = (Inr (), ob)"
    "wf_sshbuf ob" "contents ob = contents (s_output st)"
    by (rule refill[OF mem bo le_trans[OF n(2) diff_le_self]])
  define t1 where "t1 = sh_state_update (\<lambda>st. st\<lparr>s_input := sshbuf_reset (e_lc e) (s_input st),
    s_output := sshbuf_reset (e_lc e) (s_output st)\<rparr>) t"
  define t2 where "t2 = t1\<lparr>sh_state := (sh_state t1)\<lparr>s_input := ib\<rparr>\<rparr>"
  define t3 where "t3 = t2\<lparr>sh_state := (sh_state t2)\<lparr>s_output := ob\<rparr>\<rparr>"
  have r: "restores (set_conn_state (\<lambda>st. st\<lparr>s_input := sshbuf_reset (e_lc e) (s_input st),
      s_output := sshbuf_reset (e_lc e) (s_output st)\<rparr>)) t [] () t1" unfolding t1_def by (rule restores_set)
  have i: "restores (on_conn (of_op (on_input (sshbuf_put (e_lc e) (contents (s_input st)))))) t1 [] () t2"
    by (rule restores_conn) (use ib(1) in \<open>simp add: on_defs zoom_def proc_simps t1_def t2_def\<close>)
  have o: "restores (on_conn (of_op (on_output (sshbuf_put (e_lc e) (contents (s_output st)))))) t2 [] () t3"
    by (rule restores_conn) (use ob(1) in \<open>simp add: on_defs zoom_def proc_simps t1_def t2_def t3_def\<close>)
  have "finishes (restore_rest e) t (enc_rest st) () (sh_state_update (\<lambda>x. x\<lparr>interactive_mode :=
      DECODE_INT (ENCODE_INT (interactive_mode st)), qos_interactive := DECODE_INT (ENCODE_INT (qos_interactive st)),
      qos_other := DECODE_INT (ENCODE_INT (qos_other st))\<rparr>) t3)"
    unfolding restore_rest_def enc_rest_def enc_buf_def
    apply (rule finishes_then[OF r])
    apply (rule finishes_bind[OF restores_blob[OF reads_string(1)[OF mem n(1)]]])
    apply (rule finishes_bind[OF restores_blob[OF reads_string(1)[OF mem n(2)]]])
    apply (rule finishes_then[OF i], rule finishes_then[OF o])
    apply (rule finishes_bind[OF restores_blob[OF reads_ints(2)]])
    apply (rule finishes_bind[OF restores_blob[OF reads_ints(2)]])
    apply (rule finishes_last[OF restores_blob[OF reads_ints(2)]])
    by (rule finishes_then[OF restores_set], rule finishes_end)
  note run = this
  show thesis by (rule that[OF _ ib(2,3) ob(2,3)]) (use run in \<open>cases t; simp add: t1_def t2_def t3_def comp_def\<close>)
qed

definition restore_keys :: "penv \<Rightarrow> (ssh \<times> sshbuf, unit) proc \<Rightarrow> (ssh \<times> sshbuf, unit) proc" where
  "restore_keys e cont =
     pbind (on_conn (ssh_set_newkeys e MODE_IN)) (\<lambda>_.
     pbind (on_conn (ssh_set_newkeys e MODE_OUT)) (\<lambda>_.
     pbind (on_conn (ssh_packet_set_postauth e)) (\<lambda>_. cont)))"

lemma set_state_halves:
  "ssh_packet_set_state e =
     pbind (kex_from_blob e) (\<lambda>_.
     pbind (newkeys_from_blob e MODE_OUT) (\<lambda>_.
     pbind (newkeys_from_blob e MODE_IN) (\<lambda>_.
     pbind (on_blob sshbuf_get_u64) (\<lambda>lim.
     pbind (set_conn_state (\<lambda>st. st\<lparr>rekey_limit := lim\<rparr>)) (\<lambda>_.
     pbind (on_blob sshbuf_get_u32) (\<lambda>ival.
     pbind (set_conn_state (\<lambda>st. st\<lparr>rekey_interval := ival\<rparr>)) (\<lambda>_.
     pbind (get_counters p_send_update) (\<lambda>_.
     pbind (get_counters p_read_update) (\<lambda>_.
     pbind (on_conn (monotime e)) (\<lambda>now.
     pbind (set_conn_state (\<lambda>st. st\<lparr>rekey_time := now\<rparr>)) (\<lambda>_.
     restore_keys e (restore_rest e))))))))))))"
  unfolding ssh_packet_set_state_def restore_keys_def restore_rest_def ..

text \<open>The keys put to use.\<close>

lemma restores_keys:
  assumes mem: "\<And>n. malloc (e_lc e) n \<noteq> None" and ev: "evp_chacha20 (e_ev e) ks keyof"
    and nk: "portable_keys ko nko" "portable_keys ki nki" and auth: "\<not> after_authentication (sh_state t)"
    and k: "sh_kex t = Some k" "k_newkeys k MODE_OUT = Some (restored_keys nko)" "k_newkeys k MODE_IN = Some (restored_keys nki)"
    and rest: "\<And>t'. s_input (sh_state t') = s_input (sh_state t) \<Longrightarrow> s_output (sh_state t') = s_output (sh_state t) \<Longrightarrow>
      \<exists>ib ob. finishes cont t' bs () (sh_state_update (f ib ob) t') \<and> Q ib ob"
  shows "\<exists>t' ib ob. finishes (restore_keys e cont) t bs () (sh_state_update (f ib ob) t') \<and> Q ib ob \<and>
    sh_kex t' = Some (k\<lparr>k_newkeys := (k_newkeys k)(MODE_IN := None, MODE_OUT := None)\<rparr>) \<and>
    (\<exists>c. send_context (sh_state t') = Some c \<and> aead_ctx True (ks, ko) e (s_newkeys (sh_state t') MODE_OUT) c) \<and>
    (\<exists>c. receive_context (sh_state t') = Some c \<and> aead_ctx False (ks, ki) e (s_newkeys (sh_state t') MODE_IN) c) \<and>
    p_send (sh_state t') = clear_counts (p_send (sh_state t)) \<and> p_read (sh_state t') = clear_counts (p_read (sh_state t)) \<and>
    rekey_limit (sh_state t') = rekey_limit (sh_state t) \<and> rekey_interval (sh_state t') = rekey_interval (sh_state t) \<and>
    after_authentication (sh_state t')"
proof -
  obtain ci where ci: "ssh_set_newkeys e MODE_IN t = Some (Inr (), installed MODE_IN ci (restored_keys nki) t)"
    "aead_ctx (MODE_IN = MODE_OUT) (ks, ki) e (Some ((restored_keys nki)\<lparr>nk_mac := (nk_mac (restored_keys nki))\<lparr>m_enabled := True\<rparr>\<rparr>)) ci"
    by (rule set_newkeys_chacha[OF mem ev nk(2) k(1,3) auth])
  define t1 where "t1 = installed MODE_IN ci (restored_keys nki) t"
  define k1 where "k1 = k\<lparr>k_newkeys := (k_newkeys k)(MODE_IN := None)\<rparr>"
  have t1: "sh_kex t1 = Some k1" "k_newkeys k1 MODE_OUT = Some (restored_keys nko)" "\<not> after_authentication (sh_state t1)"
    using k auth by (simp_all add: t1_def k1_def installed_def ssh_clear_newkeys_def set_block_limits_def Let_def set_context_def)
  obtain co where co: "ssh_set_newkeys e MODE_OUT t1 = Some (Inr (), installed MODE_OUT co (restored_keys nko) t1)"
    "aead_ctx (MODE_OUT = MODE_OUT) (ks, ko) e (Some ((restored_keys nko)\<lparr>nk_mac := (nk_mac (restored_keys nko))\<lparr>m_enabled := True\<rparr>\<rparr>)) co"
    by (rule set_newkeys_chacha[OF mem ev nk(1) t1])
  define t2 where "t2 = installed MODE_OUT co (restored_keys nko) t1"
  define t3 where "t3 = sh_state_update (\<lambda>st. st\<lparr>after_authentication := True, rekeying := False\<rparr>) t2"
  note defs = t3_def t2_def t1_def k1_def installed_def ssh_clear_newkeys_def set_block_limits_def Let_def set_context_def
  have "comp_type (nk_comp nko) = COMP_NONE" "comp_type (nk_comp nki) = COMP_NONE" using nk by (simp_all add: portable_keys_def)
  then have "\<not> delayed_comp MODE_IN t2" "\<not> delayed_comp MODE_OUT t2"
    by (simp_all add: delayed_comp_def defs restored_keys_def COMP_NONE_def COMP_DELAYED_def)
  then have post: "ssh_packet_set_postauth e t2 = Some (Inr (), t3)" unfolding t3_def by (rule postauth_run)
  have "s_input (sh_state t3) = s_input (sh_state t)" "s_output (sh_state t3) = s_output (sh_state t)" by (simp_all add: defs)
  from rest[OF this] obtain ib ob where fin: "finishes cont t3 bs () (sh_state_update (f ib ob) t3)" "Q ib ob" by blast
  have "restores (on_conn (ssh_set_newkeys e MODE_IN)) t [] () t1" "restores (on_conn (ssh_set_newkeys e MODE_OUT)) t1 [] () t2"
    "restores (on_conn (ssh_packet_set_postauth e)) t2 [] () t3"
    using ci(1) co(1) post by (auto intro!: restores_conn simp flip: t1_def t2_def)
  then have "finishes (restore_keys e cont) t bs () (sh_state_update (f ib ob) t3)"
    unfolding restore_keys_def using fin(1) by (blast intro: finishes_then)
  then show ?thesis using fin(2) ci(2) co(2) k(1) by (intro exI[of _ t3] exI[of _ ib] exI[of _ ob]) (simp add: defs)
qed

section \<open>Property\<close>

text \<open>The exchange and the connection that \<open>t\<close> has taken over from \<open>s\<close>.\<close>

definition same_exchange :: "kex \<Rightarrow> kex \<Rightarrow> bool" where
  "same_exchange k k' \<longleftrightarrow>
     we_need k' = we_need k \<and> hostkey_alg k' = hostkey_alg k \<and> hostkey_type k' = hostkey_type k \<and>
     hostkey_nid k' = hostkey_nid k \<and> kex_type k' = kex_type k \<and> kex_strict k' = kex_strict k \<and> k_flags k' = k_flags k \<and>
     contents (k_my k') = contents (k_my k) \<and> contents (k_peer k') = contents (k_peer k) \<and>
     contents (client_version k') = contents (client_version k) \<and>
     contents (server_version k') = contents (server_version k) \<and> contents (session_id k') = contents (session_id k)"

definition continues :: "ssh \<Rightarrow> ssh \<Rightarrow> bool" where
  "continues s t \<longleftrightarrow>
     (let p = sh_state s; q = sh_state t
      in (\<exists>k k'. sh_kex s = Some k \<and> sh_kex t = Some k' \<and> same_exchange k k') \<and>
         p_send q = clear_counts (p_send p) \<and> p_read q = clear_counts (p_read p) \<and>
         rekey_limit q = rekey_limit p \<and> rekey_interval q = rekey_interval p \<and>
         contents (s_input q) = contents (s_input p) \<and> contents (s_output q) = contents (s_output p) \<and>
         interactive_mode q = interactive_mode p \<and> qos_interactive q = qos_interactive p \<and> qos_other q = qos_other p \<and>
         after_authentication q)"

lemma put_into_contents:
  assumes mem: "\<And>n. malloc lc n \<noteq> None" and n: "sshbuf_new lc = Some n" and w: "length (contents w) \<le> SSHBUF_SIZE_MAX"
  shows "contents (put_into lc w n) = contents w"
proof -
  obtain b where b: "sshbuf_new lc = Some b" "wf_sshbuf b" "writable b" "contents b = []" "b_max_size b = SSHBUF_SIZE_MAX"
    by (rule new_buffer[OF mem])
  have "length (contents w) + length (contents b) \<le> b_max_size b" unfolding b(4,5) using w by simp
  from put_fits[OF b(2) mem b(3) this] show ?thesis using n b(1,4) by (auto simp: put_into_def)
qed

lemma restored_same:
  assumes mem: "\<And>n. malloc lc n \<noteq> None" and k0: "kex_new lc = Some k0" and k: "portable_kex k" "length (enc_kex k) \<le> SSHBUF_SIZE_MAX"
  shows "same_exchange k (restored_kex lc k0 k)"
proof -
  obtain n where n: "sshbuf_new lc = Some n" by (rule new_buffer[OF mem])
  have k0': "k_my k0 = n" "k_peer k0 = n" "client_version k0 = n" "server_version k0 = n" "session_id k0 = n"
    using k0 by (auto simp: kex_new_def n split: option.splits)
  have "length (contents w) \<le> SSHBUF_SIZE_MAX"
    if "w \<in> {k_my k, k_peer k, client_version k, server_version k, session_id k}" for w
    using k(2) that by (auto simp: enc_kex_def enc_buf_def enc_cstr_def simp del: length_contents)
  then show ?thesis by (simp add: same_exchange_def restored_kex_def k0' put_into_contents[OF mem n])
qed

text \<open>The connection when the exchange, the limits and the counters have been read.\<close>

definition loaded_kex :: "libc \<Rightarrow> kex \<Rightarrow> ssh \<Rightarrow> kex" where
  "loaded_kex lc k0 s =
     (let K = restored_kex lc k0 (the (sh_kex s))
      in K\<lparr>k_newkeys := (k_newkeys K)(MODE_OUT := Some (restored_keys (the (s_newkeys (sh_state s) MODE_OUT))),
             MODE_IN := Some (restored_keys (the (s_newkeys (sh_state s) MODE_IN))))\<rparr>)"

definition loaded :: "penv \<Rightarrow> kex \<Rightarrow> ssh \<Rightarrow> ssh \<Rightarrow> ssh" where
  "loaded e k0 s t =
     t\<lparr>sh_kex := Some (loaded_kex (e_lc e) k0 s), sh_clock := sh_clock t + 1, sh_state := (sh_state t)
        \<lparr>rekey_limit := rekey_limit (sh_state s), rekey_interval := rekey_interval (sh_state s),
         p_send := p_send (sh_state s), p_read := p_read (sh_state s), rekey_time := e_clock e (sh_clock t)\<rparr>\<rparr>"

lemma finishes_front:
  assumes mem: "\<And>n. malloc (e_lc e) n \<noteq> None" and s: "portable ko ki s" and k0: "kex_new (e_lc e) = Some k0"
    and rest: "finishes (restore_keys e (restore_rest e)) (loaded e k0 s t) (enc_rest (sh_state s)) () t'"
  shows "finishes (ssh_packet_set_state e) t (enc_state s) () t'"
proof -
  obtain k nko nki where k: "sh_kex s = Some k" "portable_kex k"
    and o: "s_newkeys (sh_state s) MODE_OUT = Some nko" "portable_keys ko nko"
    and i: "s_newkeys (sh_state s) MODE_IN = Some nki" "portable_keys ki nki"
    and size: "length (enc_state s) \<le> SSHBUF_SIZE_MAX" using s by (auto simp: portable_def)
  have sizes: "length (enc_kex k) \<le> SSHBUF_SIZE_MAX" "length (enc_newkeys nko) \<le> SSHBUF_SIZE_MAX - 4"
    "length (enc_newkeys nki) \<le> SSHBUF_SIZE_MAX - 4" using size by (simp_all add: enc_state_def k o i)
  define K where "K = restored_kex (e_lc e) k0 k"
  define K1 where "K1 = K\<lparr>k_newkeys := (k_newkeys K)(MODE_OUT := Some (restored_keys nko))\<rparr>"
  define t1 where "t1 = t\<lparr>sh_kex := Some K\<rparr>"
  define t2 where "t2 = t1\<lparr>sh_kex := Some K1\<rparr>"
  define t3 where "t3 = t2\<lparr>sh_kex := Some (loaded_kex (e_lc e) k0 s)\<rparr>"
  define t4 where "t4 = sh_state_update (\<lambda>st. st\<lparr>rekey_limit := rekey_limit (sh_state s)\<rparr>) t3"
  define t5 where "t5 = sh_state_update (\<lambda>st. st\<lparr>rekey_interval := rekey_interval (sh_state s)\<rparr>) t4"
  define t6 where "t6 = sh_state_update (p_send_update (\<lambda>_. p_send (sh_state s))) t5"
  define t7 where "t7 = sh_state_update (p_read_update (\<lambda>_. p_read (sh_state s))) t6"
  define t8 where "t8 = t7\<lparr>sh_clock := sh_clock t7 + 1\<rparr>"
  define t9 where "t9 = sh_state_update (\<lambda>st. st\<lparr>rekey_time := e_clock e (sh_clock t7)\<rparr>) t8"
  have r1: "restores (kex_from_blob e) t (enc_kex k) () t1" unfolding t1_def K_def by (rule restores_kex[OF mem k(2) sizes(1) k0])
  have r2: "restores (newkeys_from_blob e MODE_OUT) t1 (enc_string (enc_newkeys nko)) () t2"
    unfolding t2_def K1_def by (rule restores_newkeys[OF mem o(2) sizes(2)]) (simp add: t1_def)
  have "loaded_kex (e_lc e) k0 s = K1\<lparr>k_newkeys := (k_newkeys K1)(MODE_IN := Some (restored_keys nki))\<rparr>"
    by (simp add: loaded_kex_def Let_def K1_def K_def k o i)
  then have r3: "restores (newkeys_from_blob e MODE_IN) t2 (enc_string (enc_newkeys nki)) () t3"
    unfolding t3_def using restores_newkeys[OF mem i(2) sizes(3), of t2 K1 MODE_IN] by (simp add: t2_def)
  have r6: "restores (get_counters p_send_update) t5 (enc_counters (p_send (sh_state s))) () t6"
    and r7: "restores (get_counters p_read_update) t6 (enc_counters (p_read (sh_state s))) () t7"
    unfolding t6_def t7_def by (rule restores_counters, simp)+
  have r8: "restores (on_conn (monotime e)) t7 [] (e_clock e (sh_clock t7)) t8"
    by (rule restores_conn) (simp add: monotime_def t8_def)
  have "loaded e k0 s t = t9" by (cases t) (simp add: loaded_def t9_def t8_def t7_def t6_def t5_def t4_def t3_def t2_def t1_def)
  then have "finishes (restore_keys e (restore_rest e)) t9 (enc_rest (sh_state s)) () t'" using rest by simp
  then show ?thesis
    unfolding set_state_halves enc_state_def k(1) o(1) i(1) option.sel enc_limits_def append_assoc t9_def
    apply -
    apply (rule finishes_bind[OF r1], rule finishes_bind[OF r2], rule finishes_bind[OF r3])
    apply (rule finishes_bind[OF restores_blob[OF reads_ints(3)]], rule finishes_then[OF restores_set], fold t4_def)
    apply (rule finishes_bind[OF restores_blob[OF reads_ints(2)]], rule finishes_then[OF restores_set], fold t5_def)
    by (rule finishes_bind[OF r6], rule finishes_bind[OF r7], rule finishes_then[OF r8], rule finishes_then[OF restores_set])
qed

lemma set_state_spec:
  assumes mem: "\<And>n. malloc (e_lc e) n \<noteq> None" and ev: "evp_chacha20 (e_ev e) ks keyof" and s: "portable ko ki s" and t: "fresh t"
  shows "\<exists>t'. finishes (ssh_packet_set_state e) t (enc_state s) () t' \<and> continues s t' \<and>
    (\<exists>c. send_context (sh_state t') = Some c \<and> aead_ctx True (ks, ko) e (s_newkeys (sh_state t') MODE_OUT) c) \<and>
    (\<exists>c. receive_context (sh_state t') = Some c \<and> aead_ctx False (ks, ki) e (s_newkeys (sh_state t') MODE_IN) c)"
proof -
  obtain k nko nki where k: "sh_kex s = Some k" "portable_kex k"
    and o: "s_newkeys (sh_state s) MODE_OUT = Some nko" "portable_keys ko nko"
    and i: "s_newkeys (sh_state s) MODE_IN = Some nki" "portable_keys ki nki"
    and size: "length (enc_state s) \<le> SSHBUF_SIZE_MAX"
    and ints: "\<And>v. v \<in> {interactive_mode (sh_state s), qos_interactive (sh_state s), qos_other (sh_state s)} \<Longrightarrow> - 1 \<le> v \<and> v < 2 ^ 31"
    using s unfolding portable_def by blast
  have sizes: "length (enc_kex k) \<le> SSHBUF_SIZE_MAX" "length (enc_rest (sh_state s)) \<le> SSHBUF_SIZE_MAX"
    using size by (simp_all add: enc_state_def k o i)
  obtain n z where "sshbuf_new (e_lc e) = Some n" "malloc (e_lc e) sizeof_kex = Some z" using new_buffer[OF mem] mem by blast
  then obtain k0 where k0: "kex_new (e_lc e) = Some k0" by (simp add: kex_new_def)
  define t9 where "t9 = loaded e k0 s t"
  let ?st = "sh_state s" let ?K = "loaded_kex (e_lc e) k0 s"
  let ?f = "\<lambda>ib ob x. x\<lparr>s_input := ib, s_output := ob, interactive_mode := DECODE_INT (ENCODE_INT (interactive_mode ?st)),
      qos_interactive := DECODE_INT (ENCODE_INT (qos_interactive ?st)), qos_other := DECODE_INT (ENCODE_INT (qos_other ?st))\<rparr>"
  let ?Q = "\<lambda>ib ob. contents ib = contents (s_input ?st) \<and> contents ob = contents (s_output ?st)"
  have kex: "sh_kex t9 = Some ?K" "k_newkeys ?K MODE_OUT = Some (restored_keys nko)" "k_newkeys ?K MODE_IN = Some (restored_keys nki)"
    by (simp_all add: t9_def loaded_def loaded_kex_def Let_def o i)
  have auth: "\<not> after_authentication (sh_state t9)" using t by (simp add: fresh_def t9_def loaded_def)
  have "\<exists>ib ob. finishes (restore_rest e) t' (enc_rest ?st) () (sh_state_update (?f ib ob) t') \<and> ?Q ib ob"
    if "s_input (sh_state t') = s_input (sh_state t9)" "s_output (sh_state t') = s_output (sh_state t9)" for t'
    using finishes_rest[OF mem _ sizes(2), of t'] t that by (simp add: fresh_def t9_def loaded_def) blast
  from restores_keys[OF mem ev o(2) i(2) auth kex, of "restore_rest e" _ ?f ?Q, OF this]
  obtain t' ib ob where t': "finishes (restore_keys e (restore_rest e)) t9 (enc_rest ?st) () (sh_state_update (?f ib ob) t')"
    and q: "?Q ib ob" and facts: "sh_kex t' = Some (?K\<lparr>k_newkeys := (k_newkeys ?K)(MODE_IN := None, MODE_OUT := None)\<rparr>)"
    "(\<exists>c. send_context (sh_state t') = Some c \<and> aead_ctx True (ks, ko) e (s_newkeys (sh_state t') MODE_OUT) c)"
    "(\<exists>c. receive_context (sh_state t') = Some c \<and> aead_ctx False (ks, ki) e (s_newkeys (sh_state t') MODE_IN) c)"
    "p_send (sh_state t') = clear_counts (p_send (sh_state t9))" "p_read (sh_state t') = clear_counts (p_read (sh_state t9))"
    "rekey_limit (sh_state t') = rekey_limit (sh_state t9)" "rekey_interval (sh_state t') = rekey_interval (sh_state t9)"
    "after_authentication (sh_state t')" by blast
  have fin: "finishes (ssh_packet_set_state e) t (enc_state s) () (sh_state_update (?f ib ob) t')"
    by (rule finishes_front[OF mem s k0 t'[unfolded t9_def]])
  have "same_exchange k (?K\<lparr>k_newkeys := (k_newkeys ?K)(MODE_IN := None, MODE_OUT := None)\<rparr>)"
    using restored_same[OF mem k0 k(2) sizes(1)] by (simp add: same_exchange_def loaded_kex_def Let_def k)
  then have "continues s (sh_state_update (?f ib ob) t')"
    using facts q k(1) ints decode_encode by (simp add: continues_def Let_def t9_def loaded_def)
  then show ?thesis using fin facts(2,3) by (intro exI[of _ "sh_state_update (?f ib ob) t'"]) simp
qed

lemma connection_fresh:
  assumes mem: "\<And>n. malloc (e_lc e) n \<noteq> None" and t: "ssh_packet_set_connection e fi fo None = Some t"
  shows "fresh t"
proof -
  obtain n where n: "sshbuf_new (e_lc e) = Some n" "wf_sshbuf n" "writable n" "contents n = []" "b_max_size n = SSHBUF_SIZE_MAX"
    by (rule new_buffer[OF mem])
  then show ?thesis
    using t by (auto simp: ssh_packet_set_connection_def ssh_alloc_session_state_def fresh_def split: option.splits sum.splits)
qed

text \<open>
  C40. A connection is handed over intact. Take a connection that uses ChaCha20-Poly1305 in both
  directions and no compression, with an exchange whose host key algorithm is known and whose state
  fits a buffer. With memory, \<^verbatim>\<open>ssh_packet_get_state\<close> writes it without changing it, and
  \<^verbatim>\<open>ssh_packet_set_state\<close> restores it on a new connection: the exchange with its session id and both
  version strings, the sequence numbers and byte counts, the rekeying limits and the data in both
  buffers are the same, the counts of packets and blocks start again at 0, and the keys are in use,
  so that whichever peer was in step with the old connection, in either direction, is in step with
  the new one.
\<close>

theorem state_handover:
  assumes "\<And>n. malloc (e_lc e) n \<noteq> None" and "evp_chacha20 (e_ev e) ks keyof" and "portable ko ki s"
    and "sshbuf_new (e_lc e) = Some m" and "ssh_packet_set_connection e fi fo None = Some t"
  shows "\<exists>b t' b'. ssh_packet_get_state e (s, m) = Some (Inr (), s, b) \<and>
    ssh_packet_set_state e (t, b) = Some (Inr (), t', b') \<and> continues s t' \<and>
    (\<forall>r. in_step e (Some (ks, ko)) s r \<longrightarrow> in_step e (Some (ks, ko)) t' r) \<and>
    (\<forall>r. in_step e (Some (ks, ki)) r s \<longrightarrow> in_step e (Some (ks, ki)) r t')"
proof -
  obtain n where n: "sshbuf_new (e_lc e) = Some n" "wf_sshbuf n" "writable n" "contents n = []" "b_max_size n = SSHBUF_SIZE_MAX"
    by (rule new_buffer[OF assms(1)])
  have m: "m = n" using assms(4) n(1) by simp
  have size: "length (contents m) + length (enc_state s) \<le> b_max_size m"
    using assms(3) unfolding m n(4,5) portable_def by simp
  obtain b where b: "ssh_packet_get_state e (s, m) = Some (Inr (), s, b)" "wf_sshbuf b" "contents b = enc_state s"
    using get_state_spec[OF assms(1,3)] n m size by (auto simp: appends_def simp del: length_contents)
  obtain t' where fin: "finishes (ssh_packet_set_state e) t (enc_state s) () t'" and t': "continues s t'"
    "\<exists>c. send_context (sh_state t') = Some c \<and> aead_ctx True (ks, ko) e (s_newkeys (sh_state t') MODE_OUT) c"
    "\<exists>c. receive_context (sh_state t') = Some c \<and> aead_ctx False (ks, ki) e (s_newkeys (sh_state t') MODE_IN) c"
    using set_state_spec[OF assms(1,2,3) connection_fresh[OF assms(1,5)]] by blast
  obtain b' where "ssh_packet_set_state e (t, b) = Some (Inr (), t', b')" using fin b(2,3) by (auto simp: finishes_def)
  moreover have "seqnr (p_send (sh_state t')) = seqnr (p_send (sh_state s))" "seqnr (p_read (sh_state t')) = seqnr (p_read (sh_state s))"
    using t'(1) by (simp_all add: continues_def Let_def clear_counts_def)
  ultimately show ?thesis using b(1) t' by (intro exI[of _ b] exI[of _ t'] exI[of _ b']) (auto simp: in_step_def)
qed

text \<open>An authenticated connection.\<close>

definition toy_carried :: newkeys where
  "toy_carried =
     \<lparr>nk_enc = \<lparr>enc_name = Some ''chacha20-poly1305@openssh.com'', enc_cipher = Some chacha_cipher, enc_enabled = True,
        enc_key_len = 64, enc_iv_len = 0, enc_block_size = 8, enc_key = Some toy_key, enc_iv = Some []\<rparr>,
      nk_mac = nk_mac newkeys_zero,
      nk_comp = \<lparr>comp_type = COMP_NONE, comp_enabled = False, comp_name = Some ''none''\<rparr>\<rparr>"

definition toy_authenticated :: ssh where
  "toy_authenticated = (toy_end buf0)\<lparr>sh_kex := Some ((the (kex_new lc_ok))\<lparr>hostkey_alg := Some ''ssh-ed25519'', we_need := 64\<rparr>),
     sh_state := (sh_state (toy_end buf0))\<lparr>s_newkeys := (\<lambda>_. Some toy_carried), p_send := packet_state_zero\<lparr>seqnr := 7\<rparr>,
       p_read := packet_state_zero\<lparr>seqnr := 9\<rparr>\<rparr>\<rparr>"

lemma toy_conn_made:
  "ssh_packet_set_connection toy_penv 3 3 None = Some toy_conn" "interactive_mode (sh_state toy_conn) = 1"
  "qos_interactive (sh_state toy_conn) = - 1" "qos_other (sh_state toy_conn) = - 1"
proof -
  obtain k where k: "kex_new lc_ok = Some k" by (rule toy_kex)
  obtain p q where "malloc lc_ok sizeof_ssh = Some p" "malloc lc_ok sizeof_session_state = Some q"
    using lc_ok_malloc by blast
  then show "ssh_packet_set_connection toy_penv 3 3 None = Some toy_conn" "interactive_mode (sh_state toy_conn) = 1"
    "qos_interactive (sh_state toy_conn) = - 1" "qos_other (sh_state toy_conn) = - 1"
    using k by (simp_all add: toy_conn_def ssh_packet_set_connection_def ssh_alloc_session_state_def toy_lc
        sshbuf_new_ok none_cipher_name none_init)
qed

lemma toy_portable: "portable toy_key toy_key toy_authenticated"
proof -
  define k where "k = (the (kex_new lc_ok))\<lparr>hostkey_alg := Some ''ssh-ed25519'', we_need := 64\<rparr>"
  obtain z where z: "malloc lc_ok sizeof_kex = Some z" using lc_ok_malloc by blast
  have k0: "k_my k = buf0" "k_peer k = buf0" "client_version k = buf0" "server_version k = buf0" "session_id k = buf0"
    "hostkey_alg k = Some ''ssh-ed25519''" "we_need k = 64" "hostkey_type k = 0" "hostkey_nid k = 0"
    using z by (simp_all add: k_def kex_new_def sshbuf_new_ok)
  have k: "portable_kex k" using buf0_wf by (simp add: portable_kex_def k0)
  have key: "length toy_key = 64" by (simp add: toy_key_def)
  have keys: "portable_keys toy_key toy_carried" using key by (simp add: portable_keys_def toy_carried_def)
  have ctx: "cipher (toy_ctx enc) = chacha_cipher" for enc using toy_ctx_link[of enc] by (simp add: aead_ctx_def)
  have f: "sh_kex toy_authenticated = Some k" "s_newkeys (sh_state toy_authenticated) = (\<lambda>_. Some toy_carried)"
    "s_input (sh_state toy_authenticated) = buf0" "s_output (sh_state toy_authenticated) = buf0"
    "send_context (sh_state toy_authenticated) = Some (toy_ctx True)"
    "receive_context (sh_state toy_authenticated) = Some (toy_ctx False)"
    "interactive_mode (sh_state toy_authenticated) = 1" "qos_interactive (sh_state toy_authenticated) = - 1"
    "qos_other (sh_state toy_authenticated) = - 1"
    by (simp_all add: toy_authenticated_def k_def toy_end_def toy_conn_idle toy_conn_made)
  have "length (enc_newkeys toy_carried) \<le> 200"
    using key by (simp add: enc_newkeys_def Let_def toy_carried_def enc_cstr_def bytes_of_def)
  then have "length (enc_state toy_authenticated) \<le> SSHBUF_SIZE_MAX"
    using buf0_wf(3)
    by (simp add: enc_state_def f enc_kex_def k0 enc_cstr_def enc_buf_def bytes_of_def enc_limits_def enc_counters_def
        enc_rest_def SSHBUF_SIZE_MAX_def)
  then show ?thesis unfolding portable_def using f k keys ctx buf0_wf by simp
qed

theorem state_handover_witness:
  "\<exists>b t' b'. ssh_packet_get_state toy_penv (toy_authenticated, buf0) = Some (Inr (), toy_authenticated, b) \<and>
     ssh_packet_set_state toy_penv (toy_conn, b) = Some (Inr (), t', b') \<and>
     seqnr (p_send (sh_state t')) = 7 \<and> seqnr (p_read (sh_state t')) = 9 \<and> packets (p_send (sh_state t')) = 0"
proof -
  have mem: "\<And>n. malloc (e_lc toy_penv) n \<noteq> None" using lc_ok_malloc by (simp add: toy_lc)
  have ev: "evp_chacha20 (e_ev toy_penv) toy_stream (drop 16)" using toy_cipher_chacha20 by (simp add: toy_penv_def)
  obtain b t' b' where r: "ssh_packet_get_state toy_penv (toy_authenticated, buf0) = Some (Inr (), toy_authenticated, b)"
    "ssh_packet_set_state toy_penv (toy_conn, b) = Some (Inr (), t', b')" "continues toy_authenticated t'"
    using state_handover[OF mem ev toy_portable sshbuf_new_ok[folded toy_lc] toy_conn_made(1)] by blast
  then show ?thesis
    by (intro exI[of _ b] exI[of _ t'] exI[of _ b'])
      (simp add: continues_def Let_def clear_counts_def toy_authenticated_def packet_state_zero_def)
qed

end
