(* ===== verification/Spec2Isabelle.thy ===== *)
theory Spec2Isabelle
  imports SshbufHeap Bitmap ChannelProps SrclimitProps Poly1305Props Roundtrip StateTransfer
begin

text \<open>
  Verification library for the C sources of the OpenSSH server under \<^verbatim>\<open>src/src\<close>.

  \<^bold>\<open>The program.\<close> OpenSSH is a set of processes that speak the SSH protocol. Every message is
  built in and parsed from a growable byte buffer (\<^verbatim>\<open>sshbuf*.c\<close>). The transport layer
  authenticates packets with MACs such as Poly1305 (\<^verbatim>\<open>poly1305.c\<close>) and negotiates
  algorithms by matching comma-separated name lists (\<^verbatim>\<open>match.c\<close>, \<^verbatim>\<open>kex-names.c\<close>). On top of
  it channels carry data with flow control and a half-close protocol (\<^verbatim>\<open>channels.c\<close>,
  \<^verbatim>\<open>nchan.c\<close>). The listening process limits connections and penalises misbehaving sources by
  their network address (\<^verbatim>\<open>srclimit.c\<close>), which rests on address arithmetic and address lists
  (\<^verbatim>\<open>addr.c\<close>, \<^verbatim>\<open>addrmatch.c\<close>). A portability layer supplies library functions
  (\<^verbatim>\<open>openbsd-compat\<close>).

  \<^bold>\<open>How code is modelled.\<close> A structure is a record with the fields of the C structure; an
  enumeration or a set of flag macros is a datatype and a flag word the set of its flags; a
  fixed-width integer is a word of that width where it may wrap and a natural number or
  integer where the code's own checks keep it in range. A function that returns 0 or a code of
  \<^verbatim>\<open>ssherr.h\<close> and updates an object is an operation of type \<^typ>\<open>('s, 'a) op\<close>: the result is
  the code or value together with the object as the function left it, so error returns keep
  the updates made before them. Where a function may end the process (\<^verbatim>\<open>fatal\<close>, a failed
  assertion), the result is an option and \<^const>\<open>None\<close> means that the process has ended. The C
  library is a parameter where it is not a pure function: the record \<^typ>\<open>libc\<close> says for each
  size whether and where an allocation succeeds; \<^verbatim>\<open>getaddrinfo\<close> and \<^verbatim>\<open>getnameinfo\<close> are
  arguments of the address functions. Definitions are executable.

  \<^bold>\<open>Theories.\<close>

  \<^item> \<open>Prelude\<close>: error codes, pointers, operations on a state and their composition, the C
    library, \<^verbatim>\<open>recallocarray\<close>.

  \<^item> \<open>Sshbuf\<close>, \<open>SshbufGetput\<close>: \<^verbatim>\<open>sshbuf.c\<close>, \<^verbatim>\<open>sshbuf-getput-basic.c\<close>, part of
    \<^verbatim>\<open>sshbuf-misc.c\<close>. The record \<open>sshbuf\<close> is \<^verbatim>\<open>struct sshbuf\<close> with the bytes of its
    allocation; \<open>wf_sshbuf\<close> is the sanity check, \<open>contents\<close> the abstraction to a byte string.
    The locale \<open>wire_buffer\<close> is what writers and readers of messages rely on; it is
    interpreted on the buffer. \<open>BufferProps\<close> shows that any sequence of calls leaves a sane
    buffer, that appends are exact, and that the encodings round-trip. \<open>SshbufHeap\<close> adds
    parents and children: a heap of buffers with reference counts, in which no reachable
    state has a dangling child.

  \<^item> \<open>Bitmap\<close>: \<^verbatim>\<open>bitmap.c\<close> refines finite sets of bit numbers; its string form round-trips.

  \<^item> \<open>Match\<close>, \<open>KexNames\<close>: pattern matching by automaton is equivalent to a recursive
    definition of wildcards; list matching, filtering, concatenation and the assembly of
    algorithm lists, from every form of a configuration string, behave as their specifications on
    the split lists.

  \<^item> \<open>Channel\<close>, \<open>ChannelProps\<close>: the half-close machine of \<^verbatim>\<open>nchan.c\<close> and the data path of
    \<^verbatim>\<open>channels.c\<close>. Every handler is simulated by an abstract machine (\<open>core_step\<close>), from which
    the order of messages and the respect of the peer's window follow for all runs, and that a
    channel that is found dead has sent its CLOSE and stays silent.

  \<^item> \<open>Compat\<close>, \<open>Addr\<close>, \<open>AddrMatch\<close>: number parsing, addresses as bit strings and numbers,
    address lists.

  \<^item> \<open>Srclimit\<close>, \<open>SrclimitProps\<close>: the per-source state of \<^verbatim>\<open>srclimit.c\<close>. The two red-black
    trees are lists ordered by the code's comparison functions; in every run no operation
    ends the process, and the penalties refine a finite map from addresses to expiry times.

  \<^item> \<open>Poly1305\<close>: the authenticator of \<^verbatim>\<open>poly1305.c\<close> at the width of its words.
    \<open>Poly1305Props\<close> shows that its limb arithmetic never overflows and that the tag is the
    polynomial modulo \<open>2^130 - 5\<close> of the message.

  \<^item> \<open>Digest\<close>, \<open>Mac\<close>: the digest wrappers of \<^verbatim>\<open>digest-openssl.c\<close>, the HMAC of \<^verbatim>\<open>hmac.c\<close> and
    the packet MACs of \<^verbatim>\<open>mac.c\<close>. With the digests of libcrypto as a parameter of documented
    behaviour, a digest MAC is the HMAC of RFC 2104 of the sequence number and the data,
    however often the context was used.

  \<^item> \<open>Cipher\<close>: the table and operations of \<^verbatim>\<open>cipher.c\<close> and the ChaCha20-Poly1305 construction
    of \<^verbatim>\<open>cipher-chachapoly-libcrypto.c\<close> on the Poly1305 code; a sealed packet opens to itself
    and a packet without the right tag does not open.

  \<^item> \<open>Proc\<close>, \<open>Codec\<close>: processes that may end, and the composition of buffer writers and
    readers into encoders and decoders.

  \<^item> \<open>Proposal\<close>, \<open>Kex\<close>, \<open>KexKeys\<close>: the quirk table of \<^verbatim>\<open>compat.c\<close>, the default proposals of
    \<^verbatim>\<open>myproposal.h\<close>, and of \<^verbatim>\<open>kex.c\<close> the encoding of proposals, negotiation, extension parsing
    and key derivation. A client and a server that see each other's proposals choose the same
    algorithms, in the first and in later exchanges, unless one of them ends because the other broke
    the strict order; they derive the same keys by RFC 4253, and what they install has the lengths
    its cipher and MAC rely on.

  \<^item> \<open>Packet\<close>, \<open>Transport\<close>: the packet layer of \<^verbatim>\<open>packet.c\<close> with its state (\<open>session_state\<close>, \<open>ssh\<close>), the
    messages of the key exchange of \<^verbatim>\<open>kex.c\<close> and the dispatch of \<^verbatim>\<open>dispatch.c\<close>. zlib, the random
    bytes, the clock and the system calls on the connection are the record \<open>penv\<close>; the state
    counts how many of each have been used.

  \<^item> \<open>TransportProps\<close>: sending a packet ends, at the depth 2 of the model, although it may start a key
    exchange by the same function. \<open>Framing\<close>: the length, the padding and the counters of the packets,
    for every way of protecting them that has the laws of the locale \<open>packet_transform\<close>; it is
    interpreted on packets in the clear, on ChaCha20-Poly1305 and on a connection in either state.
    \<open>Roundtrip\<close>: what one side sends the other reads back, to the end of the call that reads it,
    which may start a key exchange. \<open>StrictKex\<close>: the strict key exchange, under which an unexpected
    packet before the first keys ends the process instead of being dropped.

  \<^item> \<open>PacketState\<close>, \<open>StateTransfer\<close>: the state of a connection as a blob, and its restoration: a
    connection that is handed over to another process goes on where it was.

  \<^bold>\<open>Bounds and fuel.\<close> Loops are structural or carry a termination proof, with one exception:
  the search for the most significant bit of a word in \<^verbatim>\<open>bitmap_nbits\<close> does not end on a
  zero word. Its model takes fuel 32, the number of bits of a word, and \<^const>\<open>None\<close> is the
  endless loop; the bitmap invariant shows that it is never reached.
  The loops of the packet layer that wait for zlib or the connection are partial functions,
  whose value is \<^const>\<open>None\<close> if they do not end; where a property says that the process ends inside
  such a loop, it also says which call without a loop ends it. \<^verbatim>\<open>ssh_packet_send2\<close> and \<^verbatim>\<open>kex_start_rekex\<close> call each
  other; their model takes the depth of the calls, and \<open>SEND_DEPTH\<close> is 2: a packet, and the
  KEXINIT it causes.

  \<^bold>\<open>Not modelled.\<close> Freeing of memory where it has no other effect, logging, and \<^verbatim>\<open>errno\<close> other
  than the results of \<^verbatim>\<open>strtoll\<close>. Signals raised by a failed sanity check of a buffer. The
  message that \<^verbatim>\<open>ssh_packet_disconnect\<close> sends before the process ends; the hook on incoming packets
  that only fuzzing sets; closing a connection, address lookups and socket options. The rest of the
  program: the banner exchange and the key exchange methods, key objects and cryptographic primitives (calls into libcrypto or generated code), configuration parsing, user
  authentication, privilege separation, the process and terminal management of the server,
  the client and its tools, file transfer, and the Windows and graphical front ends, which
  are mostly system calls.
\<close>

end
